(* ===== verification/Xv6_Prelude.thy ===== *)
theory Xv6_Prelude
  imports Main "HOL-Library.Word"
begin

text \<open>
  Shared vocabulary of the development: the names of the machine integer types, the
  result type of fallible kernel code with its sequencing operator and inversion rules,
  the wait channels of \<^verbatim>\<open>sleep\<close> and \<^verbatim>\<open>wakeup\<close>, and generic lemmas used by several
  components.

  A C function that returns is modelled by \<open>Ok\<close>; \<^verbatim>\<open>panic(s)\<close> is \<open>Panic s\<close>; reading or
  writing through a null pointer or outside an array is \<open>Fault\<close>; a call that would put
  the caller to sleep on a channel is \<open>Sleeps c\<close>; a loop that used up the steps it was
  given is \<open>Exhausted\<close>.
\<close>

unbundle bit_operations_syntax

type_synonym u8 = "8 word"
type_synonym u16 = "16 word"
type_synonym u32 = "32 word"

text \<open>The bytes of a string literal.\<close>

definition chars :: "string \<Rightarrow> u8 list" where
  "chars = map of_char"

section \<open>Results of kernel code\<close>

text \<open>
  The channels that processes sleep on. The source uses addresses of kernel objects: a
  process slot (\<^verbatim>\<open>wait\<close>), the tick counter, the log, a sleep lock of a buffer or of an
  inode, a buffer queued for the disk, the two counters of a pipe and the console input.
\<close>

datatype chan =
    ChanProc nat
  | ChanTicks
  | ChanLog
  | ChanBufLock nat
  | ChanInodeLock nat
  | ChanBuf nat
  | ChanPipeRead u32
  | ChanPipeWrite u32
  | ChanInput

datatype 'a res =
    Ok 'a
  | Panic string
  | Fault
  | Sleeps chan
  | Exhausted

named_theorems res_iff \<open>inversion of successful results\<close>

fun bindR :: "'a res \<Rightarrow> ('a \<Rightarrow> 'b res) \<Rightarrow> 'b res" where
  "bindR (Ok x) f = f x"
| "bindR (Panic e) f = Panic e"
| "bindR Fault f = Fault"
| "bindR (Sleeps c) f = Sleeps c"
| "bindR Exhausted f = Exhausted"

fun is_ok :: "'a res \<Rightarrow> bool" where
  "is_ok (Ok x) = True"
| "is_ok _ = False"

lemma bindR_eq_Ok [res_iff]: "bindR m f = Ok y \<longleftrightarrow> (\<exists>x. m = Ok x \<and> f x = Ok y)"
  by (cases m) auto

lemma bindR_assoc: "bindR (bindR m f) g = bindR m (\<lambda>x. bindR (f x) g)"
  by (cases m) auto

lemma bindR_Ok_right [simp]: "bindR m Ok = m"
  by (cases m) auto

lemma is_ok_iff: "is_ok r \<longleftrightarrow> (\<exists>x. r = Ok x)"
  by (cases r) auto

lemma if_Ok_iff [res_iff]:
  "(if b then Ok x else Panic e) = Ok y \<longleftrightarrow> b \<and> x = y"
  "(if b then Panic e else r) = Ok y \<longleftrightarrow> \<not> b \<and> r = Ok y"
  "(if b then Fault else r) = Ok y \<longleftrightarrow> \<not> b \<and> r = Ok y"
  by auto

text \<open>
  A \<^verbatim>\<open>for\<close> loop over a fixed range that threads the state and stops at the first
  failure.
\<close>

fun foldR :: "('b \<Rightarrow> 'a \<Rightarrow> 'a res) \<Rightarrow> 'b list \<Rightarrow> 'a \<Rightarrow> 'a res" where
  "foldR f [] s = Ok s"
| "foldR f (x # xs) s = bindR (f x s) (foldR f xs)"

lemma foldR_append: "foldR f (xs @ ys) s = bindR (foldR f xs s) (foldR f ys)"
proof (induction xs arbitrary: s)
  case (Cons x xs)
  have "foldR f (xs @ ys) = (\<lambda>t. bindR (foldR f xs t) (foldR f ys))"
    by (rule ext) (rule Cons.IH)
  then show ?case by (simp add: bindR_assoc)
qed simp

text \<open>An invariant that every iteration keeps (and that makes it succeed) is kept by the loop.\<close>

lemma foldR_invariant:
  assumes "\<And>x s. x \<in> set xs \<Longrightarrow> I s \<Longrightarrow> \<exists>s'. f x s = Ok s' \<and> I s'" and "I s"
  shows "\<exists>s'. foldR f xs s = Ok s' \<and> I s'"
  using assms
proof (induction xs arbitrary: s)
  case Nil
  then show ?case by simp
next
  case (Cons x xs)
  from Cons.prems(1)[of x s] Cons.prems(2) obtain t where t: "f x s = Ok t" "I t" by auto
  have "\<exists>s'. foldR f xs t = Ok s' \<and> I s'"
    by (rule Cons.IH) (use Cons.prems(1) t(2) in auto)
  with t show ?case by auto
qed

text \<open>A loop whose iterations never change a projection of the state leaves it unchanged.\<close>

lemma foldR_frame:
  assumes "\<And>x s s'. f x s = Ok s' \<Longrightarrow> g s' = g s" and "foldR f xs s = Ok s'"
  shows "g s' = g s"
  using assms(2)
proof (induction xs arbitrary: s)
  case (Cons x xs)
  then show ?case using assms(1) by (auto simp: res_iff)
qed simp

section \<open>Searching a table\<close>

text \<open>
  Many kernel functions walk a fixed table in index order and stop at the first entry that
  satisfies a test. \<open>find_first P n\<close> is that index among \<open>0, \<dots>, n - 1\<close>.
\<close>

fun find_from :: "(nat \<Rightarrow> bool) \<Rightarrow> nat \<Rightarrow> nat \<Rightarrow> nat option" where
  "find_from P i 0 = None"
| "find_from P i (Suc k) = (if P i then Some i else find_from P (Suc i) k)"

definition find_first :: "(nat \<Rightarrow> bool) \<Rightarrow> nat \<Rightarrow> nat option" where
  "find_first P n = find_from P 0 n"

lemma find_from_Some:
  "find_from P i k = Some j \<longleftrightarrow> i \<le> j \<and> j < i + k \<and> P j \<and> (\<forall>l. i \<le> l \<and> l < j \<longrightarrow> \<not> P l)"
proof (induction k arbitrary: i)
  case (Suc k)
  show ?case
  proof (cases "P i")
    case True
    then show ?thesis by (auto simp: le_less)
  next
    case False
    have "(\<forall>l. Suc i \<le> l \<and> l < j \<longrightarrow> \<not> P l) \<longleftrightarrow> (\<forall>l. i \<le> l \<and> l < j \<longrightarrow> \<not> P l)"
      using False by (metis Suc_leD Suc_leI le_neq_implies_less)
    moreover have "Suc i \<le> j \<longleftrightarrow> i \<le> j" if "P j" using that False by (metis Suc_leD Suc_leI le_neq_implies_less)
    ultimately show ?thesis using False Suc.IH by auto
  qed
qed simp

lemma find_from_None: "find_from P i k = None \<longleftrightarrow> (\<forall>j. i \<le> j \<and> j < i + k \<longrightarrow> \<not> P j)"
proof (induction k arbitrary: i)
  case (Suc k)
  have "i \<le> j \<and> j < i + Suc k \<longleftrightarrow> j = i \<or> Suc i \<le> j \<and> j < Suc i + k" for j
    by arith
  then show ?case using Suc.IH[of "Suc i"] by auto
qed auto

lemma find_first_Some:
  "find_first P n = Some j \<longleftrightarrow> j < n \<and> P j \<and> (\<forall>l<j. \<not> P l)"
  by (auto simp: find_first_def find_from_Some)

lemma find_first_None: "find_first P n = None \<longleftrightarrow> (\<forall>j<n. \<not> P j)"
  by (auto simp: find_first_def find_from_None)

lemma find_first_cong: "(\<And>i. i < n \<Longrightarrow> P i = Q i) \<Longrightarrow> find_first P n = find_first Q n"
proof (cases "find_first Q n")
  case None
  assume "\<And>i. i < n \<Longrightarrow> P i = Q i"
  with None have "find_first P n = None" by (auto simp: find_first_None)
  with None show ?thesis by simp
next
  case (Some j)
  assume "\<And>i. i < n \<Longrightarrow> P i = Q i"
  with Some have "find_first P n = Some j" by (auto simp: find_first_Some)
  with Some show ?thesis by simp
qed

end
