(* ===== verification/Circ_List.thy ===== *)
theory Circ_List
  imports Xv6_Prelude
begin

text \<open>
  Circular doubly linked lists, as the kernel keeps them in two places: the run queues of
  \<^verbatim>\<open>proc.c\<close> (fields \<^verbatim>\<open>next\<close> and \<^verbatim>\<open>previous\<close>, a head pointer that is null for the empty
  queue) and the LRU list of \<^verbatim>\<open>bio.c\<close> (fields \<^verbatim>\<open>next\<close> and \<^verbatim>\<open>prev\<close>, a sentinel head).
  The two pointer fields are functions from nodes to optional nodes; \<open>cdll\<close> relates them
  and the head pointer to the list of nodes in order.
\<close>

section \<open>Linked segments\<close>

fun linked :: "('a \<Rightarrow> 'a option) \<Rightarrow> ('a \<Rightarrow> 'a option) \<Rightarrow> 'a list \<Rightarrow> bool" where
  "linked nx pv (a # b # xs) = (nx a = Some b \<and> pv b = Some a \<and> linked nx pv (b # xs))"
| "linked nx pv _ = True"

lemma linked_append:
  "linked nx pv (xs @ a # ys) \<longleftrightarrow> linked nx pv (xs @ [a]) \<and> linked nx pv (a # ys)"
proof (induction xs)
  case (Cons x xs)
  then show ?case by (cases xs) auto
qed simp

lemma linked_frame:
  assumes "linked nx pv xs"
    and "\<And>a. a \<in> set (butlast xs) \<Longrightarrow> nx' a = nx a"
    and "\<And>a. a \<in> set (tl xs) \<Longrightarrow> pv' a = pv a"
  shows "linked nx' pv' xs"
  using assms by (induction nx pv xs rule: linked.induct) auto

lemma linked_next_in:
  "linked nx pv (xs @ [z]) \<Longrightarrow> a \<in> set xs \<Longrightarrow> \<exists>b. nx a = Some b \<and> b \<in> set xs \<union> {z}"
proof (induction xs)
  case (Cons x xs)
  then show ?case by (cases xs) auto
qed simp

lemma linked_prev_in:
  "linked nx pv (z # xs) \<Longrightarrow> a \<in> set xs \<Longrightarrow> \<exists>b. pv a = Some b \<and> b \<in> set xs \<union> {z}"
proof (induction xs arbitrary: z)
  case (Cons x xs)
  then show ?case by (cases "a = x") auto
qed simp

section \<open>Circular lists\<close>

definition cdll ::
  "('a \<Rightarrow> 'a option) \<Rightarrow> ('a \<Rightarrow> 'a option) \<Rightarrow> 'a option \<Rightarrow> 'a list \<Rightarrow> bool" where
  "cdll nx pv h xs \<longleftrightarrow>
     (case xs of [] \<Rightarrow> h = None
      | x # _ \<Rightarrow> h = Some x \<and> distinct xs \<and> linked nx pv (xs @ [x]))"

lemma cdll_Nil [simp]: "cdll nx pv h [] \<longleftrightarrow> h = None"
  by (simp add: cdll_def)

lemma cdll_None [simp]: "cdll nx pv None xs \<longleftrightarrow> xs = []"
  by (simp add: cdll_def split: list.splits)

lemma cdll_distinct: "cdll nx pv h xs \<Longrightarrow> distinct xs"
  by (auto simp: cdll_def split: list.splits)

lemma cdll_head: "cdll nx pv h xs \<Longrightarrow> xs \<noteq> [] \<Longrightarrow> h = Some (hd xs)"
  by (auto simp: cdll_def split: list.splits)

lemma cdll_single: "cdll nx pv (Some a) [a] \<longleftrightarrow> nx a = Some a \<and> pv a = Some a"
  by (auto simp: cdll_def)

lemma cdll_frame:
  assumes "cdll nx pv h xs"
    and "\<And>a. a \<in> set xs \<Longrightarrow> nx' a = nx a" and "\<And>a. a \<in> set xs \<Longrightarrow> pv' a = pv a"
  shows "cdll nx' pv' h xs"
proof (cases xs)
  case Nil
  with assms show ?thesis by simp
next
  case (Cons x ys)
  with assms(1) have l: "linked nx pv (x # ys @ [x])" and "h = Some x" and "distinct xs"
    by (auto simp: cdll_def)
  have "linked nx' pv' (x # ys @ [x])"
    by (rule linked_frame[OF l]) (use assms(2,3) Cons in \<open>auto simp: butlast_append\<close>)
  with \<open>h = Some x\<close> \<open>distinct xs\<close> Cons show ?thesis by (simp add: cdll_def)
qed

lemma cdll_links_in:
  assumes "cdll nx pv h xs" and "a \<in> set xs"
  shows "\<exists>b\<in>set xs. nx a = Some b" and "\<exists>b\<in>set xs. pv a = Some b"
proof -
  from assms obtain x ys where xs: "xs = x # ys" by (cases xs) auto
  with assms(1) have l: "linked nx pv (xs @ [x])" by (auto simp: cdll_def)
  from linked_next_in[OF this assms(2)] xs show "\<exists>b\<in>set xs. nx a = Some b" by auto
  from l xs have "linked nx pv (x # (ys @ [x]))" by simp
  from linked_prev_in[OF this, of a] assms(2) xs show "\<exists>b\<in>set xs. pv a = Some b" by auto
qed

text \<open>The node before the head is the last one: the tail is reached in one step.\<close>

lemma cdll_prev_head:
  assumes "cdll nx pv h xs" and "xs \<noteq> []"
  shows "pv (hd xs) = Some (last xs)" and "nx (last xs) = Some (hd xs)"
proof -
  from assms(2) obtain x ys where xs: "xs = x # ys" by (cases xs) auto
  obtain us t where ut: "xs = us @ [t]" using assms(2) by (cases xs rule: rev_cases) auto
  from assms(1) xs have "linked nx pv (xs @ [x])" by (auto simp: cdll_def)
  then have "linked nx pv (us @ t # [x])" using ut by simp
  then have "linked nx pv (t # [x])" using linked_append[of nx pv us t "[x]"] by blast
  moreover have "hd xs = x" using xs by simp
  moreover have "last xs = t" using ut by simp
  ultimately show "pv (hd xs) = Some (last xs)" "nx (last xs) = Some (hd xs)" by auto
qed

section \<open>Appending at the tail\<close>

lemma cdll_append:
  assumes c: "cdll nx pv h xs" and ne: "xs \<noteq> []" and p: "p \<notin> set xs"
  shows "cdll (nx(last xs := Some p, p := Some (hd xs))) (pv(p := Some (last xs), hd xs := Some p))
           h (xs @ [p])"
proof -
  let ?nx = "nx(last xs := Some p, p := Some (hd xs))"
  let ?pv = "pv(p := Some (last xs), hd xs := Some p)"
  obtain us t where ut: "xs = us @ [t]" using ne by (cases xs rule: rev_cases) auto
  obtain x ys where xs: "xs = x # ys" using ne by (cases xs) auto
  from c xs have d: "distinct xs" and l: "linked nx pv (xs @ [x])" and h: "h = Some x"
    by (auto simp: cdll_def)
  from l ut have lu: "linked nx pv (us @ [t])"
    using linked_append[of nx pv us t "[x]"] by simp
  have hx: "hd xs = x" using xs by simp
  have "linked ?nx ?pv (us @ [t])"
  proof (rule linked_frame[OF lu])
    fix a assume "a \<in> set (butlast (us @ [t]))"
    then have "a \<in> set us" by simp
    then have "a \<noteq> t" "a \<noteq> p" using d p ut by auto
    then show "?nx a = nx a" using ut by simp
  next
    fix a assume "a \<in> set (tl (us @ [t]))"
    then have "a \<in> set ys" using ut xs by (metis list.sel(3))
    then have "a \<noteq> x" "a \<noteq> p" using d p xs by auto
    then show "?pv a = pv a" using hx by simp
  qed
  moreover have "linked ?nx ?pv (t # [p, x])"
  proof -
    have "t \<noteq> p" using p ut by auto
    moreover have "x \<noteq> p" using p xs by auto
    moreover have "last xs = t" using ut by simp
    ultimately show ?thesis using hx by simp
  qed
  ultimately have "linked ?nx ?pv (us @ t # [p, x])"
    using linked_append[of ?nx ?pv us t "[p, x]"] by blast
  then have "linked ?nx ?pv ((xs @ [p]) @ [x])" using ut by simp
  then show ?thesis using h d p xs by (auto simp: cdll_def)
qed

section \<open>Removing a node\<close>

text \<open>Unlinking a node of a list with at least two nodes; the head moves if it was the node.\<close>

lemma cdll_rotate1:
  assumes "cdll nx pv (Some x) (x # ys)" and "ys \<noteq> []"
  shows "cdll nx pv (Some (hd ys)) (ys @ [x])"
proof -
  obtain y zs where ys: "ys = y # zs" using assms(2) by (cases ys) auto
  from assms(1) have d: "distinct (x # ys)" and l: "linked nx pv (x # y # zs @ [x])"
    by (auto simp: cdll_def ys)
  from l have "linked nx pv ((y # zs) @ [x])" and "linked nx pv (x # [y])" by auto
  then have "linked nx pv ((y # zs) @ x # [y])"
    using linked_append[of nx pv "y # zs" x "[y]"] by blast
  then show ?thesis using d by (auto simp: cdll_def ys)
qed

lemma cdll_remove_tail:
  assumes c: "cdll nx pv h (xs @ [p])" and ne: "xs \<noteq> []"
    and a: "pv p = Some a" and b: "nx p = Some b"
  shows "cdll (nx(a := Some b, p := None)) (pv(b := Some a, p := None)) h xs"
proof -
  let ?nx = "nx(a := Some b, p := None)" and ?pv = "pv(b := Some a, p := None)"
  obtain us t where ut: "xs = us @ [t]" using ne by (cases xs rule: rev_cases) auto
  obtain x ys where xs: "xs = x # ys" using ne by (cases xs) auto
  from c xs have d: "distinct (xs @ [p])" and l: "linked nx pv ((xs @ [p]) @ [x])" and h: "h = Some x"
    by (auto simp: cdll_def)
  from l ut have "linked nx pv (us @ t # [p, x])" by simp
  then have lu: "linked nx pv (us @ [t])" and lt: "linked nx pv (t # [p, x])"
    using linked_append[of nx pv us t "[p, x]"] by blast+
  from lt a b have at: "a = t" and bx: "b = x" by auto
  have "linked ?nx ?pv (us @ [t])"
  proof (rule linked_frame[OF lu])
    fix c assume "c \<in> set (butlast (us @ [t]))"
    then have "c \<noteq> t" "c \<noteq> p" using d ut by auto
    then show "?nx c = nx c" using at by simp
  next
    fix c assume "c \<in> set (tl (us @ [t]))"
    then have "c \<in> set ys" using ut xs by (metis list.sel(3))
    then have "c \<noteq> x" "c \<noteq> p" using d xs by auto
    then show "?pv c = pv c" using bx by simp
  qed
  moreover have "t \<noteq> p" using d ut by auto
  moreover have "x \<noteq> p" using d xs by auto
  ultimately have "linked ?nx ?pv (t # [x])" and "linked ?nx ?pv (us @ [t])" using at bx by auto
  then have "linked ?nx ?pv (us @ t # [x])"
    using linked_append[of ?nx ?pv us t "[x]"] by blast
  then have "linked ?nx ?pv (xs @ [x])" using ut by simp
  then show ?thesis using h d xs by (simp add: cdll_def)
qed

text \<open>
  A circular list may be read from any of its nodes, so the general removal is the removal
  of the tail of a rotation.
\<close>

lemma cdll_rotate:
  "cdll nx pv (Some (hd (us @ vs))) (us @ vs) \<Longrightarrow> us @ vs \<noteq> []
    \<Longrightarrow> cdll nx pv (Some (hd (vs @ us))) (vs @ us)"
proof (induction us arbitrary: vs)
  case (Cons u us)
  show ?case
  proof (cases "us @ vs = []")
    case True
    with Cons.prems show ?thesis by simp
  next
    case False
    with Cons.prems(1) cdll_rotate1[of nx pv u "us @ vs"]
    have "cdll nx pv (Some (hd (us @ vs))) ((us @ vs) @ [u])" by simp
    moreover have "hd (us @ vs) = hd (us @ vs @ [u])" using False by (cases us) auto
    ultimately have "cdll nx pv (Some (hd (us @ (vs @ [u])))) (us @ (vs @ [u]))" by simp
    from Cons.IH[OF this] show ?thesis by (cases vs) auto
  qed
qed simp

lemma cdll_remove:
  assumes c: "cdll nx pv h (us @ p # vs)" and ne: "us @ vs \<noteq> []"
    and a: "pv p = Some a" and b: "nx p = Some b"
  shows "cdll (nx(a := Some b, p := None)) (pv(b := Some a, p := None))
           (if h = Some p then Some b else h) (us @ vs)"
proof -
  let ?nx = "nx(a := Some b, p := None)" and ?pv = "pv(b := Some a, p := None)"
  have h: "h = Some (hd (us @ p # vs))" using cdll_head[OF c] by simp
  have d: "distinct (us @ p # vs)" using c by (rule cdll_distinct)
  have "cdll nx pv (Some (hd ((us @ [p]) @ vs))) ((us @ [p]) @ vs)"
    using c h by simp
  from cdll_rotate[OF this] have r: "cdll nx pv (Some (hd (vs @ us @ [p]))) ((vs @ us) @ [p])"
    by simp
  have ne': "vs @ us \<noteq> []" using ne by auto
  from cdll_remove_tail[OF r ne' a b]
  have "cdll ?nx ?pv (Some (hd (vs @ us @ [p]))) (vs @ us)" .
  moreover have "hd (vs @ us @ [p]) = hd (vs @ us)" using ne' by (cases vs; cases us) auto
  ultimately have "cdll ?nx ?pv (Some (hd (vs @ us))) (vs @ us)" by simp
  from cdll_rotate[OF this ne'] have res: "cdll ?nx ?pv (Some (hd (us @ vs))) (us @ vs)" .
  have "(if h = Some p then Some b else h) = Some (hd (us @ vs))"
  proof (cases us)
    case Nil
    with ne obtain v ws where vs: "vs = v # ws" by (cases vs) auto
    from c Nil vs have "nx p = Some v" by (simp add: cdll_def)
    with b Nil vs h show ?thesis by simp
  next
    case (Cons u ws)
    with d h show ?thesis by auto
  qed
  with res show ?thesis by simp
qed

lemma cdll_remove_last:
  assumes "cdll nx pv h xs" and "p \<in> set xs" and "nx p = Some p"
  shows "xs = [p]"
proof -
  from assms(2) obtain us vs where xs: "xs = us @ p # vs" by (auto simp: in_set_conv_decomp)
  have h: "h = Some (hd (us @ p # vs))" using cdll_head[OF assms(1)] xs by simp
  have "cdll nx pv (Some (hd (us @ p # vs))) (us @ p # vs)" using assms(1) xs h by simp
  from cdll_rotate[OF this] have r: "cdll nx pv (Some p) (p # vs @ us)" by simp
  show ?thesis
  proof (cases "vs @ us")
    case Nil
    with xs show ?thesis by simp
  next
    case (Cons w ws)
    with r have "nx p = Some w" and "distinct (p # w # ws)" by (auto simp: cdll_def)
    with assms(3) show ?thesis by simp
  qed
qed

lemma cdll_prev_self:
  assumes "cdll nx pv h xs" and "p \<in> set xs" and "pv p = Some p"
  shows "xs = [p]"
proof -
  from assms(2) obtain us vs where xs: "xs = us @ p # vs" by (auto simp: in_set_conv_decomp)
  have h: "h = Some (hd (us @ p # vs))" using cdll_head[OF assms(1)] xs by simp
  have "cdll nx pv (Some (hd (us @ p # vs))) (us @ p # vs)" using assms(1) xs h by simp
  from cdll_rotate[OF this] have r: "cdll nx pv (Some p) (p # vs @ us)" by simp
  from cdll_prev_head(1)[OF r] assms(3) have "last (p # vs @ us) = p" by simp
  moreover have "distinct (p # vs @ us)" using r by (rule cdll_distinct)
  ultimately have "vs @ us = []" by (metis distinct.simps(2) last_ConsR last_in_set)
  with xs show ?thesis by simp
qed

end
