(* ===== verification/Xv6_Params.thy ===== *)
theory Xv6_Params
  imports Xv6_Prelude
begin

text \<open>
  The compile-time constants of \<^verbatim>\<open>param.h\<close>, \<^verbatim>\<open>memlayout.h\<close> and \<^verbatim>\<open>types.h\<close>, and the address
  arithmetic of \<^verbatim>\<open>mmu.h\<close> on 32-bit words: page rounding, page directory and page table
  indices, the parts of a page table entry, and the conversion between kernel virtual and
  physical addresses. The lemmas read each macro as division and remainder on \<open>unat\<close>.
\<close>

section \<open>System parameters\<close>

definition NPROC :: nat where "NPROC = 64"
definition KSTACKSIZE :: u32 where "KSTACKSIZE = 4096"
definition NCPU :: nat where "NCPU = 8"
definition NOFILE :: nat where "NOFILE = 16"
definition NFILE :: nat where "NFILE = 100"
definition NINODE :: nat where "NINODE = 50"
definition NDEV :: nat where "NDEV = 10"
definition ROOTDEV :: u32 where "ROOTDEV = 1"
definition MAXARG :: nat where "MAXARG = 32"
definition MAXOPBLOCKS :: nat where "MAXOPBLOCKS = 10"
definition LOGSIZE :: nat where "LOGSIZE = MAXOPBLOCKS * 3"
definition NBUF :: nat where "NBUF = MAXOPBLOCKS * 3"
definition FSSIZE :: u32 where "FSSIZE = 1000"
definition NUM_PRIO :: u32 where "NUM_PRIO = 2"

text \<open>\<^verbatim>\<open>enum proc_prio\<close>: the two values; the C type is an unsigned int.\<close>

definition HI_PRIO :: u32 where "HI_PRIO = 0"
definition NORM_PRIO :: u32 where "NORM_PRIO = 1"

named_theorems param_defs \<open>values of the system parameters\<close>

lemmas param_values [param_defs] =
  NPROC_def KSTACKSIZE_def NCPU_def NOFILE_def NFILE_def NINODE_def NDEV_def ROOTDEV_def
  MAXARG_def MAXOPBLOCKS_def LOGSIZE_def NBUF_def FSSIZE_def NUM_PRIO_def HI_PRIO_def NORM_PRIO_def

section \<open>Memory layout\<close>

definition EXTMEM :: u32 where "EXTMEM = 0x100000"
definition PHYSTOP :: u32 where "PHYSTOP = 0xE000000"
definition DEVSPACE :: u32 where "DEVSPACE = 0xFE000000"
definition KERNBASE :: u32 where "KERNBASE = 0x80000000"
definition KERNLINK :: u32 where "KERNLINK = KERNBASE + EXTMEM"

definition V2P :: "u32 \<Rightarrow> u32" where "V2P a = a - KERNBASE"
definition P2V :: "u32 \<Rightarrow> u32" where "P2V a = a + KERNBASE"

lemma P2V_V2P [simp]: "P2V (V2P a) = a"
  by (simp add: P2V_def V2P_def)

lemma V2P_P2V [simp]: "V2P (P2V a) = a"
  by (simp add: P2V_def V2P_def)

section \<open>Address arithmetic\<close>

definition PGSIZE :: u32 where "PGSIZE = 4096"
definition NPDENTRIES :: nat where "NPDENTRIES = 1024"

definition PDX :: "u32 \<Rightarrow> u32" where "PDX va = drop_bit 22 va AND 0x3FF"
definition PTX :: "u32 \<Rightarrow> u32" where "PTX va = drop_bit 12 va AND 0x3FF"
definition PGADDR :: "u32 \<Rightarrow> u32 \<Rightarrow> u32 \<Rightarrow> u32" where
  "PGADDR d t off = (push_bit 22 d OR push_bit 12 t OR off)"
definition PGROUNDUP :: "u32 \<Rightarrow> u32" where
  "PGROUNDUP sz = (sz + PGSIZE - 1) AND NOT (PGSIZE - 1)"
definition PGROUNDDOWN :: "u32 \<Rightarrow> u32" where
  "PGROUNDDOWN a = a AND NOT (PGSIZE - 1)"

definition PTE_P :: u32 where "PTE_P = 1"
definition PTE_W :: u32 where "PTE_W = 2"
definition PTE_U :: u32 where "PTE_U = 4"
definition PTE_ADDR :: "u32 \<Rightarrow> u32" where "PTE_ADDR pte = pte AND NOT 0xFFF"
definition PTE_FLAGS :: "u32 \<Rightarrow> u32" where "PTE_FLAGS pte = pte AND 0xFFF"

subsection \<open>Masks as division and remainder\<close>

lemma unat_and_mask: "unat (x AND mask n :: u32) = unat x mod 2 ^ n"
  by (simp only: take_bit_eq_mask[symmetric] unsigned_take_bit_eq) (simp only: take_bit_eq_mod)

lemma unat_drop_bit_u32: "unat (drop_bit n x :: u32) = unat x div 2 ^ n"
proof -
  have "take_bit 32 (unat x) = unat x" using unsigned_less[of x, where ?'a = nat] by (simp add: take_bit_nat_eq_self)
  then show ?thesis by (simp only: unsigned_drop_bit_eq) (simp add: drop_bit_eq_div)
qed

lemma and_mask_split: "(x AND NOT (mask n)) + (x AND mask n) = (x :: u32)"
proof -
  have "(x AND NOT (mask n)) AND (x AND mask n) = 0"
    by (rule bit_word_eqI) (auto simp: bit_simps)
  then have "(x AND NOT (mask n)) + (x AND mask n) = (x AND NOT (mask n)) OR (x AND mask n)"
    by (rule disjunctive_add_eq_or)
  also have "\<dots> = x"
    by (rule bit_word_eqI) (auto simp: bit_simps)
  finally show ?thesis .
qed

lemma unat_and_not_mask: "unat (x AND NOT (mask n) :: u32) = unat x div 2 ^ n * 2 ^ n"
proof -
  have "x AND NOT (mask n) = x - (x AND mask n)"
    using and_mask_split[of x n] by (metis add_diff_cancel_right')
  then have "unat (x AND NOT (mask n)) = unat x - unat (x AND mask n)"
    by (simp add: unat_sub word_and_le2)
  then show ?thesis by (simp add: unat_and_mask minus_mod_eq_div_mult)
qed

lemma mask_numerals:
  "(0xFFF :: u32) = mask 12" "(0x3FF :: u32) = mask 10" "PGSIZE - 1 = mask 12"
  by (simp_all add: mask_eq_exp_minus_1 PGSIZE_def)

lemma u32_bound: "unat (x :: u32) < 2 ^ 32"
  using unsigned_less[of x, where ?'a = nat] by simp

lemma unat_PGSIZE [simp]: "unat PGSIZE = 4096"
  by (simp add: PGSIZE_def)

lemma unat_PGROUNDDOWN: "unat (PGROUNDDOWN a) = unat a div 4096 * 4096"
  by (simp add: PGROUNDDOWN_def mask_numerals unat_and_not_mask)

lemma unat_PTE_ADDR: "unat (PTE_ADDR a) = unat a div 4096 * 4096"
  by (simp add: PTE_ADDR_def mask_numerals unat_and_not_mask)

lemma PTE_ADDR_eq_PGROUNDDOWN: "PTE_ADDR = PGROUNDDOWN"
  by (rule ext) (simp add: PTE_ADDR_def PGROUNDDOWN_def mask_numerals)

lemma unat_PTE_FLAGS: "unat (PTE_FLAGS a) = unat a mod 4096"
  by (simp add: PTE_FLAGS_def mask_numerals unat_and_mask)

lemma unat_PTX: "unat (PTX a) = unat a div 4096 mod 1024"
  by (simp add: PTX_def mask_numerals unat_and_mask unat_drop_bit_u32)

lemma unat_PDX: "unat (PDX a) = unat a div 4194304"
proof -
  have "unat a div 4194304 < 1024" using u32_bound[of a] by simp
  then show ?thesis by (simp add: PDX_def mask_numerals unat_and_mask unat_drop_bit_u32)
qed

lemma PDX_less: "unat (PDX a) < 1024"
  using u32_bound[of a] by (simp add: unat_PDX)

lemma PTX_less: "unat (PTX a) < 1024"
  by (simp add: unat_PTX)

lemma unat_PGROUNDUP:
  "unat sz + 4095 < 2 ^ 32 \<Longrightarrow> unat (PGROUNDUP sz) = (unat sz + 4095) div 4096 * 4096"
proof -
  assume a: "unat sz + 4095 < 2 ^ 32"
  have "unat (sz + PGSIZE - 1) = unat (sz + 4095)" by (simp add: PGSIZE_def add.commute)
  also have "\<dots> = unat sz + 4095" using a by (subst unat_add_lem[THEN iffD1]) simp_all
  finally show ?thesis by (simp add: PGROUNDUP_def mask_numerals unat_and_not_mask)
qed

subsection \<open>Page alignment\<close>

definition page_aligned :: "u32 \<Rightarrow> bool" where
  "page_aligned a \<longleftrightarrow> unat a mod 4096 = 0"

lemma page_aligned_iff: "page_aligned a \<longleftrightarrow> a mod PGSIZE = 0"
proof -
  have "unat (a mod PGSIZE) = unat a mod 4096" by (simp add: unat_mod)
  then show ?thesis by (metis page_aligned_def unat_eq_zero)
qed

lemma page_aligned_PGROUNDDOWN [simp]: "page_aligned (PGROUNDDOWN a)"
  by (simp add: page_aligned_def unat_PGROUNDDOWN)

lemma page_aligned_PTE_ADDR [simp]: "page_aligned (PTE_ADDR a)"
  by (simp add: PTE_ADDR_eq_PGROUNDDOWN)

lemma PGROUNDDOWN_aligned: "page_aligned a \<Longrightarrow> PGROUNDDOWN a = a"
proof -
  assume "page_aligned a"
  then have "unat (PGROUNDDOWN a) = unat a"
    by (metis add.right_neutral div_mult_mod_eq page_aligned_def unat_PGROUNDDOWN)
  then show ?thesis by (rule unsigned_word_eqI)
qed

lemma PGROUNDDOWN_le: "PGROUNDDOWN a \<le> a"
  by (simp add: word_le_nat_alt unat_PGROUNDDOWN div_times_less_eq_dividend)

lemma page_aligned_unat_dvd: "page_aligned a \<longleftrightarrow> 4096 dvd unat a"
  by (simp add: page_aligned_def dvd_eq_mod_eq_0)

lemma page_aligned_plus_minus:
  assumes "page_aligned a" and "page_aligned b"
  shows "page_aligned (a + b)" and "page_aligned (a - b)"
proof -
  have m: "4096 dvd x mod 4294967296 \<longleftrightarrow> 4096 dvd x" for x :: nat
    by (rule dvd_mod_iff) simp
  from assms have a: "4096 dvd unat a" and b: "4096 dvd unat b"
    by (simp_all add: page_aligned_unat_dvd)
  have "4096 dvd unat a + unat b" using a b by (rule dvd_add)
  then show "page_aligned (a + b)" by (simp add: page_aligned_unat_dvd unat_word_ariths m)
  have "4096 dvd (4294967296 :: nat)" by simp
  then have "4096 dvd unat a + 4294967296 - unat b" using a b by (intro dvd_diff_nat dvd_add)
  moreover have "4096 dvd unat a - unat b" using a b by (rule dvd_diff_nat)
  moreover have "unat (a - b) = unat a - unat b \<or> unat (a - b) = unat a + 4294967296 - unat b"
    using unat_sub_if'[of a b] by (simp split: if_splits)
  ultimately show "page_aligned (a - b)" unfolding page_aligned_unat_dvd by metis
qed

lemma page_aligned_consts [simp]:
  "page_aligned PGSIZE" "page_aligned KERNBASE" "page_aligned 0" "page_aligned PHYSTOP"
  by (simp_all add: page_aligned_def PGSIZE_def KERNBASE_def PHYSTOP_def)

lemma page_aligned_V2P [simp]: "page_aligned (V2P a) = page_aligned a"
proof
  assume "page_aligned (V2P a)"
  from page_aligned_plus_minus(1)[OF this page_aligned_consts(2)] show "page_aligned a"
    by (simp add: V2P_def)
next
  assume "page_aligned a"
  then show "page_aligned (V2P a)" by (simp add: V2P_def page_aligned_plus_minus)
qed

lemma page_aligned_P2V [simp]: "page_aligned (P2V a) = page_aligned a"
  using page_aligned_V2P[of "P2V a"] by simp

subsection \<open>The parts of a page table entry\<close>

lemma or_flags_eq_plus: "page_aligned a \<Longrightarrow> unat f < 4096 \<Longrightarrow> a OR f = a + f"
proof -
  assume a: "page_aligned a" and f: "unat f < 4096"
  have "unat (f AND mask 12) = unat f" using f by (simp add: unat_and_mask)
  then have f': "f AND mask 12 = f" by (metis unsigned_word_eqI)
  have a': "a AND NOT (mask 12) = a"
    using PGROUNDDOWN_aligned[OF a] by (simp add: PGROUNDDOWN_def mask_numerals)
  have "(a AND NOT (mask 12)) AND (f AND mask 12) = 0"
    by (rule bit_word_eqI) (auto simp: bit_simps)
  then have "a AND f = 0" by (simp only: a' f')
  then show ?thesis by (rule disjunctive_add_eq_or[symmetric])
qed

lemma pte_parts:
  assumes "page_aligned a" and "unat f < 4096"
  shows "PTE_ADDR (a OR f) = a" and "PTE_FLAGS (a OR f) = f"
proof -
  have "a AND NOT (mask 12) = a"
    using PGROUNDDOWN_aligned[OF assms(1)] by (simp add: PGROUNDDOWN_def mask_numerals)
  moreover have "unat (f AND NOT (mask 12)) = 0" using assms(2) by (simp add: unat_and_not_mask)
  then have "f AND NOT (mask 12) = 0" by (simp add: unat_eq_zero)
  ultimately show "PTE_ADDR (a OR f) = a"
    by (simp add: PTE_ADDR_def mask_numerals bit.conj_disj_distrib2)
  have "unat (f AND mask 12) = unat f" using assms(2) by (simp add: unat_and_mask)
  then have "f AND mask 12 = f" by (metis unsigned_word_eqI)
  moreover have "unat (a AND mask 12) = 0" using assms(1) by (simp add: unat_and_mask page_aligned_def)
  then have "a AND mask 12 = 0" by (simp add: unat_eq_zero)
  ultimately show "PTE_FLAGS (a OR f) = f"
    by (simp add: PTE_FLAGS_def mask_numerals bit.conj_disj_distrib2)
qed

lemma pte_split: "pte = PTE_ADDR pte OR PTE_FLAGS pte"
  by (rule bit_word_eqI) (auto simp: PTE_ADDR_def PTE_FLAGS_def mask_numerals bit_simps)

lemma flag_of_parts:
  assumes "page_aligned a" and "unat k < 4096"
  shows "(a OR f) AND k = f AND k"
proof -
  have "unat (k AND mask 12) = unat k" using assms(2) by (simp add: unat_and_mask)
  then have k: "k AND mask 12 = k" by (metis unsigned_word_eqI)
  have a: "a AND NOT (mask 12) = a"
    using PGROUNDDOWN_aligned[OF assms(1)] by (simp add: PGROUNDDOWN_def mask_numerals)
  have "(a AND NOT (mask 12)) AND (k AND mask 12) = 0"
    by (rule bit_word_eqI) (auto simp: bit_simps)
  then have "a AND k = 0" by (simp only: a k)
  then show ?thesis by (simp add: bit.conj_disj_distrib2)
qed

subsection \<open>The three parts of a virtual address\<close>

lemma page_number_split:
  "unat a div 4096 = unat (PDX a) * 1024 + unat (PTX a)"
proof -
  have "unat a div 4194304 = unat a div 4096 div 1024" by (simp add: div_mult2_eq[symmetric])
  then show ?thesis by (simp add: unat_PDX unat_PTX)
qed

text \<open>Two page-aligned addresses with equal indices are equal.\<close>

lemma aligned_indices_eq:
  assumes "page_aligned a" and "page_aligned b" and "PDX a = PDX b" and "PTX a = PTX b"
  shows "a = b"
proof -
  have "unat a div 4096 = unat b div 4096" using assms(3,4) by (simp add: page_number_split)
  then have "unat a = unat b" using assms(1,2)
    by (metis add.right_neutral div_mult_mod_eq page_aligned_def)
  then show ?thesis by (rule unsigned_word_eqI)
qed

lemma indices_PGROUNDDOWN [simp]: "PDX (PGROUNDDOWN a) = PDX a" "PTX (PGROUNDDOWN a) = PTX a"
proof -
  have "unat (PDX (PGROUNDDOWN a)) = unat (PDX a)"
  proof -
    have "unat a div 4096 * 4096 div 4194304 = (unat a div 4096 * 4096) div 4096 div 1024"
      by (simp add: div_mult2_eq[symmetric])
    also have "\<dots> = unat a div 4096 div 1024" by simp
    also have "\<dots> = unat a div 4194304" by (simp add: div_mult2_eq[symmetric])
    finally show ?thesis by (simp add: unat_PDX unat_PGROUNDDOWN)
  qed
  then show "PDX (PGROUNDDOWN a) = PDX a" by (rule unsigned_word_eqI)
  have "unat (PTX (PGROUNDDOWN a)) = unat (PTX a)" by (simp add: unat_PTX unat_PGROUNDDOWN)
  then show "PTX (PGROUNDDOWN a) = PTX a" by (rule unsigned_word_eqI)
qed

end
