(* ===== verification/Kalloc.thy ===== *)
theory Kalloc
  imports Xv6_Params
begin

text \<open>
  The physical page allocator, \<^verbatim>\<open>src/xv6/kalloc.c\<close>. The kernel's view of memory is the
  function \<open>mem\<close> from (word-aligned) kernel virtual addresses to 32-bit words; a free page
  stores the address of the next free page in its first word, as \<^verbatim>\<open>struct run\<close> does. The
  linker symbols \<^verbatim>\<open>end\<close> and \<^verbatim>\<open>data\<close> are the fields \<open>kend\<close> and \<open>kdata\<close>, which no operation
  writes. The critical sections of \<^verbatim>\<open>kmem.lock\<close> are single steps of the model.
\<close>

record kmem =
  mem :: "u32 \<Rightarrow> u32"
  freelist :: u32
  use_lock :: bool
  kend :: u32
  kdata :: u32

section \<open>Operations\<close>

text \<open>\<^verbatim>\<open>memset\<close> of a whole page with the word \<open>w\<close> (four copies of the byte).\<close>

definition page_fill :: "u32 \<Rightarrow> u32 \<Rightarrow> (u32 \<Rightarrow> u32) \<Rightarrow> u32 \<Rightarrow> u32" where
  "page_fill v w m = (\<lambda>a. if PGROUNDDOWN a = v then w else m a)"

definition kfree :: "u32 \<Rightarrow> 'a kmem_scheme \<Rightarrow> 'a kmem_scheme res" where
  "kfree v s =
     (if v mod PGSIZE \<noteq> 0 \<or> v < kend s \<or> V2P v \<ge> PHYSTOP then Panic ''kfree''
      else Ok (s\<lparr>mem := (page_fill v 0x01010101 (mem s))(v := freelist s), freelist := v\<rparr>))"

definition kalloc :: "'a kmem_scheme \<Rightarrow> u32 \<times> 'a kmem_scheme" where
  "kalloc s =
     (let r = freelist s
      in if r \<noteq> 0 then (r, s\<lparr>freelist := mem s r\<rparr>) else (r, s))"

text \<open>The loop of \<^verbatim>\<open>freerange\<close>; the first argument bounds the iterations.\<close>

fun freerange_loop :: "nat \<Rightarrow> u32 \<Rightarrow> u32 \<Rightarrow> 'a kmem_scheme \<Rightarrow> 'a kmem_scheme res" where
  "freerange_loop 0 p vend s = Exhausted"
| "freerange_loop (Suc k) p vend s =
     (if p + PGSIZE \<le> vend
      then bindR (kfree p s) (freerange_loop k (p + PGSIZE) vend)
      else Ok s)"

definition freerange :: "u32 \<Rightarrow> u32 \<Rightarrow> 'a kmem_scheme \<Rightarrow> 'a kmem_scheme res" where
  "freerange vstart vend s = freerange_loop (2 ^ 20) (PGROUNDUP vstart) vend s"

definition kinit1 :: "u32 \<Rightarrow> u32 \<Rightarrow> 'a kmem_scheme \<Rightarrow> 'a kmem_scheme res" where
  "kinit1 vstart vend s = freerange vstart vend (s\<lparr>use_lock := False\<rparr>)"

definition kinit2 :: "u32 \<Rightarrow> u32 \<Rightarrow> 'a kmem_scheme \<Rightarrow> 'a kmem_scheme res" where
  "kinit2 vstart vend s =
     bindR (freerange vstart vend s) (\<lambda>s. Ok (s\<lparr>use_lock := True\<rparr>))"

section \<open>The free list as a list of pages\<close>

fun flist :: "(u32 \<Rightarrow> u32) \<Rightarrow> u32 \<Rightarrow> u32 list \<Rightarrow> bool" where
  "flist m p [] \<longleftrightarrow> p = 0"
| "flist m p (x # xs) \<longleftrightarrow> p = x \<and> x \<noteq> 0 \<and> flist m (m x) xs"

definition valid_page :: "'a kmem_scheme \<Rightarrow> u32 \<Rightarrow> bool" where
  "valid_page s v \<longleftrightarrow> page_aligned v \<and> kend s \<le> v \<and> V2P v < PHYSTOP"

definition free_pages :: "'a kmem_scheme \<Rightarrow> u32 list \<Rightarrow> bool" where
  "free_pages s xs \<longleftrightarrow>
     flist (mem s) (freelist s) xs \<and> distinct xs \<and> (\<forall>x\<in>set xs. valid_page s x)"

lemma valid_page_nonzero: "valid_page s v \<Longrightarrow> v \<noteq> 0"
  by (auto simp: valid_page_def V2P_def KERNBASE_def PHYSTOP_def)

lemma valid_page_cong:
  "kend s' = kend s \<Longrightarrow> valid_page s' = valid_page s"
  by (simp add: valid_page_def fun_eq_iff)

lemma flist_frame: "flist m p xs \<Longrightarrow> (\<And>x. x \<in> set xs \<Longrightarrow> m' x = m x) \<Longrightarrow> flist m' p xs"
  by (induction xs arbitrary: p) auto

lemma flist_unique: "flist m p xs \<Longrightarrow> flist m p ys \<Longrightarrow> xs = ys"
proof (induction xs arbitrary: p ys)
  case Nil
  then show ?case by (cases ys) auto
next
  case (Cons x xs)
  then show ?case by (cases ys) auto
qed

lemma free_pages_unique: "free_pages s xs \<Longrightarrow> free_pages s ys \<Longrightarrow> xs = ys"
  by (auto simp: free_pages_def intro: flist_unique)

text \<open>
  The free list depends on the memory only through the first words of the free pages.
\<close>

lemma free_pages_frame:
  assumes "free_pages s xs" and "freelist s' = freelist s" and "kend s' = kend s"
    and "\<And>x. x \<in> set xs \<Longrightarrow> mem s' x = mem s x"
  shows "free_pages s' xs"
  using assms flist_frame[of "mem s" "freelist s" xs "mem s'"]
  by (auto simp: free_pages_def valid_page_def)

lemma page_fill_other: "PGROUNDDOWN a \<noteq> v \<Longrightarrow> page_fill v w m a = m a"
  by (simp add: page_fill_def)

lemma page_fill_same: "PGROUNDDOWN a = v \<Longrightarrow> page_fill v w m a = w"
  by (simp add: page_fill_def)

section \<open>Correctness\<close>

lemma kfree_ok:
  assumes f: "free_pages s xs" and v: "valid_page s v" and n: "v \<notin> set xs"
  shows "\<exists>s'. kfree v s = Ok s' \<and> free_pages s' (v # xs)
           \<and> (\<forall>a. PGROUNDDOWN a \<noteq> v \<longrightarrow> mem s' a = mem s a)
           \<and> s' = s\<lparr>mem := mem s', freelist := v\<rparr>"
proof -
  let ?s = "s\<lparr>mem := (page_fill v 0x01010101 (mem s))(v := freelist s), freelist := v\<rparr>"
  have al: "page_aligned v" using v by (simp add: valid_page_def)
  from v have "kfree v s = Ok ?s"
    by (auto simp: kfree_def valid_page_def page_aligned_iff not_le not_less)
  moreover have "free_pages ?s (v # xs)"
  proof -
    have "mem ?s x = mem s x" if "x \<in> set xs" for x
    proof -
      from f that have "page_aligned x" by (auto simp: free_pages_def valid_page_def)
      then have "PGROUNDDOWN x = x" by (rule PGROUNDDOWN_aligned)
      with that n show ?thesis by (auto simp: page_fill_def)
    qed
    then have "flist (mem ?s) (freelist s) xs"
      using f flist_frame[of "mem s" "freelist s" xs "mem ?s"] by (auto simp: free_pages_def)
    then show ?thesis
      using f v n valid_page_nonzero[OF v] by (auto simp: free_pages_def valid_page_def)
  qed
  moreover have "mem ?s a = mem s a" if "PGROUNDDOWN a \<noteq> v" for a
    using that PGROUNDDOWN_aligned[OF al] by (auto simp: page_fill_def)
  ultimately show ?thesis by (intro exI[of _ ?s]) simp
qed

lemma kalloc_ok:
  assumes "free_pages s (x # xs)"
  shows "kalloc s = (x, s\<lparr>freelist := mem s x\<rparr>)" and "free_pages (s\<lparr>freelist := mem s x\<rparr>) xs"
    and "valid_page s x" and "x \<notin> set xs"
  using assms by (auto simp: free_pages_def kalloc_def valid_page_def Let_def)

lemma kalloc_empty: "free_pages s [] \<Longrightarrow> kalloc s = (0, s)"
  by (auto simp: free_pages_def kalloc_def Let_def)

text \<open>\<^verbatim>\<open>kalloc\<close> either fails and changes nothing or hands out the head of the free list.\<close>

lemma kalloc_cases:
  assumes "free_pages s xs"
  obtains (empty) "xs = []" "kalloc s = (0, s)"
  | (page) x ys where "xs = x # ys" "kalloc s = (x, s\<lparr>freelist := mem s x\<rparr>)"
      "free_pages (s\<lparr>freelist := mem s x\<rparr>) ys" "valid_page s x" "x \<notin> set ys" "x \<noteq> 0"
proof (cases xs)
  case Nil
  with assms kalloc_empty[of s] empty show ?thesis by simp
next
  case (Cons x ys)
  with assms have "free_pages s (x # ys)" by simp
  from kalloc_ok[OF this] Cons page show ?thesis by (blast dest: valid_page_nonzero)
qed

lemma kalloc_after_kfree:
  assumes "kfree v s = Ok s'"
  shows "kalloc s' = (v, s'\<lparr>freelist := freelist s\<rparr>)"
proof -
  from assms have "V2P v < PHYSTOP" and s': "s' = s\<lparr>mem := (page_fill v 0x01010101 (mem s))(v := freelist s), freelist := v\<rparr>"
    by (auto simp: kfree_def split: if_splits)
  then have "v \<noteq> 0" by (auto simp: V2P_def KERNBASE_def PHYSTOP_def)
  with s' show ?thesis by (simp add: kalloc_def)
qed

section \<open>The interface of a page allocator\<close>

text \<open>
  What the rest of the kernel relies on: allocation takes a page out of the pool and changes
  no memory, release puts it back and changes only the released page, and both keep the
  pool well formed.
\<close>

locale page_pool =
  fixes alloc :: "'s \<Rightarrow> u32 \<times> 's"
    and release :: "u32 \<Rightarrow> 's \<Rightarrow> 's res"
    and pool :: "'s \<Rightarrow> u32 list \<Rightarrow> bool"
    and usable :: "'s \<Rightarrow> u32 \<Rightarrow> bool"
    and contents :: "'s \<Rightarrow> u32 \<Rightarrow> u32"
  assumes alloc_page: "pool s (x # xs) \<Longrightarrow>
      \<exists>s'. alloc s = (x, s') \<and> pool s' xs \<and> contents s' = contents s \<and> usable s' = usable s"
    and alloc_none: "pool s [] \<Longrightarrow> alloc s = (0, s)"
    and release_page: "pool s xs \<Longrightarrow> usable s v \<Longrightarrow> v \<notin> set xs \<Longrightarrow>
      \<exists>s'. release v s = Ok s' \<and> pool s' (v # xs) \<and> usable s' = usable s
        \<and> (\<forall>a. PGROUNDDOWN a \<noteq> v \<longrightarrow> contents s' a = contents s a)"
    and pool_distinct: "pool s xs \<Longrightarrow> distinct xs"
    and pool_usable: "pool s xs \<Longrightarrow> x \<in> set xs \<Longrightarrow> usable s x"
    and usable_nonzero: "usable s x \<Longrightarrow> x \<noteq> 0"
begin

fun alloc_n :: "nat \<Rightarrow> 's \<Rightarrow> u32 list \<times> 's" where
  "alloc_n 0 s = ([], s)"
| "alloc_n (Suc n) s =
     (let (v, s1) = alloc s
      in if v = 0 then ([], s1)
         else let (vs, s2) = alloc_n n s1 in (v # vs, s2))"

fun release_n :: "u32 list \<Rightarrow> 's \<Rightarrow> 's res" where
  "release_n [] s = Ok s"
| "release_n (v # vs) s = bindR (release v s) (release_n vs)"

text \<open>Allocating \<open>n\<close> pages one after another takes the first \<open>n\<close> of the pool.\<close>

lemma alloc_n_take:
  "pool s xs \<Longrightarrow> \<exists>s'. alloc_n n s = (take n xs, s') \<and> pool s' (drop n xs)
      \<and> contents s' = contents s \<and> usable s' = usable s"
proof (induction n arbitrary: s xs)
  case (Suc n)
  show ?case
  proof (cases xs)
    case Nil
    with Suc.prems show ?thesis by (simp add: alloc_none)
  next
    case (Cons x ys)
    with Suc.prems alloc_page[of s x ys] obtain t
      where t: "alloc s = (x, t)" "pool t ys" "contents t = contents s" "usable t = usable s" by auto
    have "x \<noteq> 0" using pool_usable[OF Suc.prems, of x] usable_nonzero Cons by auto
    with Suc.IH[OF t(2)] t Cons show ?thesis by auto
  qed
qed simp

text \<open>Releasing what was allocated gives every page back.\<close>

lemma release_n_pool:
  "pool s xs \<Longrightarrow> distinct vs \<Longrightarrow> set vs \<inter> set xs = {} \<Longrightarrow> (\<forall>v\<in>set vs. usable s v)
    \<Longrightarrow> \<exists>s'. release_n vs s = Ok s' \<and> pool s' (rev vs @ xs)"
proof (induction vs arbitrary: s xs)
  case (Cons v vs)
  from Cons.prems release_page[of s xs v] obtain t where t: "release v s = Ok t" "pool t (v # xs)"
    "usable t = usable s" by auto
  from Cons.prems t(3) have "\<exists>s'. release_n vs t = Ok s' \<and> pool s' (rev vs @ (v # xs))"
    by (intro Cons.IH[OF t(2)]) auto
  with t show ?case by auto
qed simp

end

interpretation kernel_pages: page_pool kalloc kfree free_pages valid_page mem
proof unfold_locales
  fix s :: "'a kmem_scheme" and x xs
  assume "free_pages s (x # xs)"
  from kalloc_ok[OF this] show "\<exists>s'. kalloc s = (x, s') \<and> free_pages s' xs \<and> mem s' = mem s \<and> valid_page s' = valid_page s"
    using valid_page_cong[of "s\<lparr>freelist := mem s x\<rparr>" s] by auto
next
  fix s :: "'a kmem_scheme"
  assume "free_pages s []"
  then show "kalloc s = (0, s)" by (rule kalloc_empty)
next
  fix s :: "'a kmem_scheme" and xs v
  assume "free_pages s xs" "valid_page s v" "v \<notin> set xs"
  from kfree_ok[OF this] obtain s' where s': "kfree v s = Ok s'" "free_pages s' (v # xs)"
    "\<forall>a. PGROUNDDOWN a \<noteq> v \<longrightarrow> mem s' a = mem s a" "s' = s\<lparr>mem := mem s', freelist := v\<rparr>" by auto
  have "kend s' = kend s" by (subst s'(4)) simp
  then have "valid_page s' = valid_page s" by (rule valid_page_cong)
  with s' show "\<exists>s'. kfree v s = Ok s' \<and> free_pages s' (v # xs) \<and> valid_page s' = valid_page s
      \<and> (\<forall>a. PGROUNDDOWN a \<noteq> v \<longrightarrow> mem s' a = mem s a)" by auto
next
  fix s :: "'a kmem_scheme" and xs
  assume "free_pages s xs"
  then show "distinct xs" by (simp add: free_pages_def)
next
  fix s :: "'a kmem_scheme" and xs x
  assume "free_pages s xs" "x \<in> set xs"
  then show "valid_page s x" by (simp add: free_pages_def)
next
  fix s :: "'a kmem_scheme" and x
  assume "valid_page s x"
  then show "x \<noteq> 0" by (rule valid_page_nonzero)
qed

section \<open>Initialisation\<close>

text \<open>The whole pages between two addresses, lowest first.\<close>

definition pages_from :: "u32 \<Rightarrow> nat \<Rightarrow> u32 list" where
  "pages_from p n = map (\<lambda>i. p + of_nat i * PGSIZE) [0..<n]"

lemma pages_from_Suc: "pages_from p (Suc n) = p # pages_from (p + PGSIZE) n"
proof -
  have "map (\<lambda>i. p + of_nat i * PGSIZE) [0..<Suc n] = p # map (\<lambda>i. p + of_nat (Suc i) * PGSIZE) [0..<n]"
    by (simp add: upt_rec[of 0 "Suc n"] map_Suc_upt[symmetric] comp_def del: upt_Suc)
  then show ?thesis by (simp add: pages_from_def algebra_simps del: upt_Suc)
qed

lemma freerange_loop_ok:
  assumes "free_pages s xs" and "page_aligned p" and "page_aligned vend" and "kend s \<le> p"
    and "unat p + n * 4096 = unat vend" and "unat vend \<le> unat KERNBASE + unat PHYSTOP"
    and "unat KERNBASE \<le> unat p" and "\<forall>x\<in>set xs. x < p" and "n < k"
  shows "\<exists>s'. freerange_loop k p vend s = Ok s' \<and> free_pages s' (rev (pages_from p n) @ xs)"
  using assms
proof (induction n arbitrary: k p s xs)
  case 0
  then obtain k' where k: "k = Suc k'" by (cases k) auto
  have up: "unat (p + PGSIZE) = unat p + 4096"
    by (rule unat_add_lem[THEN iffD1, of p PGSIZE, simplified])
       (use "0.prems"(5,6) in \<open>simp add: KERNBASE_def PHYSTOP_def\<close>)
  then have "\<not> p + PGSIZE \<le> vend" using "0.prems"(5) by (simp add: word_le_nat_alt)
  then show ?case using "0.prems"(1) k by (simp add: pages_from_def)
next
  case (Suc n)
  then obtain k' where k: "k = Suc k'" by (cases k) auto
  have up: "unat (p + PGSIZE) = unat p + 4096"
    by (rule unat_add_lem[THEN iffD1, of p PGSIZE, simplified])
       (use Suc.prems(5,6) in \<open>simp add: KERNBASE_def PHYSTOP_def\<close>)
  have le: "p + PGSIZE \<le> vend" using Suc.prems(5) up by (simp add: word_le_nat_alt)
  have "unat (V2P p) = unat p - unat KERNBASE"
    using Suc.prems(7) by (simp add: V2P_def unat_sub word_le_nat_alt)
  then have "V2P p < PHYSTOP" using Suc.prems(5,6,7) by (simp add: word_less_nat_alt)
  then have v: "valid_page s p" using Suc.prems(2,4) by (simp add: valid_page_def)
  have nin: "p \<notin> set xs" using Suc.prems(8) by auto
  from kfree_ok[OF Suc.prems(1) v nin] obtain t where t: "kfree p s = Ok t" "free_pages t (p # xs)"
    "t = s\<lparr>mem := mem t, freelist := p\<rparr>" by auto
  have ke: "kend t = kend s" by (subst t(3)) simp
  have lt: "p < p + PGSIZE" using up by (simp add: word_less_nat_alt)
  have "\<exists>s'. freerange_loop k' (p + PGSIZE) vend t = Ok s'
      \<and> free_pages s' (rev (pages_from (p + PGSIZE) n) @ (p # xs))"
  proof (rule Suc.IH[OF t(2)])
    show "page_aligned (p + PGSIZE)" using Suc.prems(2) by (simp add: page_aligned_plus_minus)
    show "kend t \<le> p + PGSIZE" using Suc.prems(4) ke lt by simp
    show "\<forall>x\<in>set (p # xs). x < p + PGSIZE" using Suc.prems(8) lt by auto
    show "unat KERNBASE \<le> unat (p + PGSIZE)" using Suc.prems(7) up by simp
  qed (use Suc.prems up k in \<open>simp_all\<close>)
  then show ?case using k le t(1) by (simp add: pages_from_Suc)
qed

end
