(* ===== verification/Segments.thy ===== *)
theory Segments
  imports Xv6_Params
begin

text \<open>
  Segment descriptors and gates, \<^verbatim>\<open>src/xv6/mmu.h\<close>: the bit fields that \<^verbatim>\<open>SEG\<close>, \<^verbatim>\<open>SEG16\<close> and
  \<^verbatim>\<open>SETGATE\<close> fill in, and that the processor reads back from them the base, the limit and the
  handler address that were put in. \<open>Vm_Defs\<close> and \<open>Trap\<close> use them.
\<close>

definition SEG_KCODE :: nat where "SEG_KCODE = 1"
definition SEG_KDATA :: nat where "SEG_KDATA = 2"
definition SEG_UCODE :: nat where "SEG_UCODE = 3"
definition SEG_UDATA :: nat where "SEG_UDATA = 4"
definition SEG_TSS :: nat where "SEG_TSS = 5"
definition DPL_USER :: u32 where "DPL_USER = 3"
definition STA_X :: u32 where "STA_X = 8"
definition STA_W :: u32 where "STA_W = 2"
definition STA_R :: u32 where "STA_R = 2"
definition STS_T32A :: u32 where "STS_T32A = 9"
definition STS_IG32 :: u32 where "STS_IG32 = 14"
definition STS_TG32 :: u32 where "STS_TG32 = 15"
definition FL_IF :: u32 where "FL_IF = 0x200"

lemmas seg_values [param_defs] =
  SEG_KCODE_def SEG_KDATA_def SEG_UCODE_def SEG_UDATA_def SEG_TSS_def DPL_USER_def STA_X_def STA_W_def
  STA_R_def STS_T32A_def STS_IG32_def STS_TG32_def FL_IF_def

record segdesc =
  sd_lim_15_0 :: "16 word"
  sd_base_15_0 :: "16 word"
  sd_base_23_16 :: "8 word"
  sd_type :: "4 word"
  sd_s :: "1 word"
  sd_dpl :: "2 word"
  sd_p :: "1 word"
  sd_lim_19_16 :: "4 word"
  sd_avl :: "1 word"
  sd_rsv1 :: "1 word"
  sd_db :: "1 word"
  sd_g :: "1 word"
  sd_base_31_24 :: "8 word"

definition SEG :: "u32 \<Rightarrow> u32 \<Rightarrow> u32 \<Rightarrow> u32 \<Rightarrow> segdesc" where
  "SEG t base lim dpl =
     \<lparr>sd_lim_15_0 = ucast (drop_bit 12 lim AND 0xFFFF), sd_base_15_0 = ucast (base AND 0xFFFF),
      sd_base_23_16 = ucast (drop_bit 16 base AND 0xFF), sd_type = ucast t, sd_s = 1,
      sd_dpl = ucast dpl, sd_p = 1, sd_lim_19_16 = ucast (drop_bit 28 lim), sd_avl = 0,
      sd_rsv1 = 0, sd_db = 1, sd_g = 1, sd_base_31_24 = ucast (drop_bit 24 base)\<rparr>"

definition SEG16 :: "u32 \<Rightarrow> u32 \<Rightarrow> u32 \<Rightarrow> u32 \<Rightarrow> segdesc" where
  "SEG16 t base lim dpl =
     \<lparr>sd_lim_15_0 = ucast (lim AND 0xFFFF), sd_base_15_0 = ucast (base AND 0xFFFF),
      sd_base_23_16 = ucast (drop_bit 16 base AND 0xFF), sd_type = ucast t, sd_s = 1,
      sd_dpl = ucast dpl, sd_p = 1, sd_lim_19_16 = ucast (drop_bit 16 lim), sd_avl = 0,
      sd_rsv1 = 0, sd_db = 1, sd_g = 0, sd_base_31_24 = ucast (drop_bit 24 base)\<rparr>"

record gatedesc =
  g_off_15_0 :: "16 word"
  g_cs :: "16 word"
  g_args :: "5 word"
  g_rsv1 :: "3 word"
  g_type :: "4 word"
  g_s :: "1 word"
  g_dpl :: "2 word"
  g_p :: "1 word"
  g_off_31_16 :: "16 word"

definition SETGATE :: "bool \<Rightarrow> u32 \<Rightarrow> u32 \<Rightarrow> u32 \<Rightarrow> gatedesc" where
  "SETGATE istrap sel off d =
     \<lparr>g_off_15_0 = ucast (off AND 0xFFFF), g_cs = ucast sel, g_args = 0, g_rsv1 = 0,
      g_type = ucast (if istrap then STS_TG32 else STS_IG32), g_s = 0, g_dpl = ucast d, g_p = 1,
      g_off_31_16 = ucast (drop_bit 16 off)\<rparr>"

section \<open>What the processor reads back\<close>

definition seg_base :: "segdesc \<Rightarrow> u32" where
  "seg_base d = ucast (sd_base_15_0 d) OR push_bit 16 (ucast (sd_base_23_16 d))
                  OR push_bit 24 (ucast (sd_base_31_24 d))"

definition seg_limit :: "segdesc \<Rightarrow> u32" where
  "seg_limit d =
     (let l = ucast (sd_lim_15_0 d) OR push_bit 16 (ucast (sd_lim_19_16 d))
      in if sd_g d = 1 then push_bit 12 l OR 0xFFF else l)"

definition gate_offset :: "gatedesc \<Rightarrow> u32" where
  "gate_offset g = ucast (g_off_15_0 g) OR push_bit 16 (ucast (g_off_31_16 g))"

lemma low_masks: "(0xFFFF :: u32) = mask 16" "(0xFF :: u32) = mask 8" "(0xFFF :: u32) = mask 12"
  by (simp_all add: mask_eq_exp_minus_1)

lemma base_parts:
  fixes b :: u32
  shows "ucast (ucast (b AND mask 16) :: 16 word) OR push_bit 16 (ucast (ucast (drop_bit 16 b AND mask 8) :: 8 word))
           OR push_bit 24 (ucast (ucast (drop_bit 24 b) :: 8 word)) = b"
proof (rule bit_word_eqI)
  fix n assume n: "n < LENGTH(32)"
  consider "n < 16" | "16 \<le> n" "n < 24" | "24 \<le> n" by linarith
  then show "bit (ucast (ucast (b AND mask 16) :: 16 word) OR push_bit 16 (ucast (ucast (drop_bit 16 b AND mask 8) :: 8 word))
           OR push_bit 24 (ucast (ucast (drop_bit 24 b) :: 8 word)) :: u32) n = bit b n"
    using n by cases (auto simp: bit_simps)
qed

lemma seg_base_SEG: "seg_base (SEG t base lim dpl) = base" "seg_base (SEG16 t base lim dpl) = base"
  by (simp_all add: seg_base_def SEG_def SEG16_def low_masks base_parts)

lemma gate_offset_SETGATE: "gate_offset (SETGATE istrap sel off d) = off"
  by (rule bit_word_eqI) (auto simp: gate_offset_def SETGATE_def low_masks bit_simps not_less)

lemma seg_limit_SEG16:
  assumes "lim < 2 ^ 20"
  shows "seg_limit (SEG16 t base lim dpl) = lim"
proof (rule bit_word_eqI)
  fix n assume n: "n < LENGTH(32)"
  have h: "\<not> bit lim i" if "20 \<le> i" for i
  proof -
    have "unat lim < 2 ^ 20" using assms by (simp add: word_less_nat_alt)
    then have "take_bit 20 lim = lim" by (simp add: word_unat_eq_iff unsigned_take_bit_eq take_bit_nat_eq_self_iff)
    then show ?thesis using that by (metis bit_take_bit_iff not_less)
  qed
  show "bit (seg_limit (SEG16 t base lim dpl)) n = bit lim n"
  proof (cases "n < 20")
    case True
    then show ?thesis using n by (auto simp: seg_limit_def SEG16_def low_masks bit_simps not_less)
  next
    case False
    then show ?thesis using n h[of n] by (auto simp: seg_limit_def SEG16_def low_masks bit_simps not_less)
  qed
qed

end
