(* ===== verification/Proc_Queue.thy ===== *)
theory Proc_Queue
  imports Circ_List Kalloc Segments
begin

text \<open>
  The process table and its two run queues, \<^verbatim>\<open>src/xv6/proc.h\<close> and \<^verbatim>\<open>src/xv6/proc.c\<close>: the
  structures, \<^verbatim>\<open>enqueue\<close> and \<^verbatim>\<open>dequeue\<close>. A process pointer is the index of its slot, a null
  pointer is \<open>None\<close>. Each queue is a circular doubly linked list threaded through the
  fields \<^verbatim>\<open>previous\<close> and \<^verbatim>\<open>next\<close> of the slots; \<open>queues s qs\<close> says that the list of
  priority \<open>pr\<close> holds the slots \<open>qs pr\<close> in that order. The trap frame and the saved context
  live in the kernel stack page, so \<open>p_tf\<close> and \<open>p_context\<close> are addresses.
\<close>

section \<open>The structures\<close>

datatype procstate = UNUSED | EMBRYO | SLEEPING | RUNNABLE | RUNNING | ZOMBIE

record proc =
  p_sz :: u32
  p_pgdir :: u32
  p_kstack :: u32
  p_state :: procstate
  p_pid :: u32
  p_parent :: "nat option"
  p_tf :: u32
  p_context :: u32
  p_chan :: "chan option"
  p_killed :: bool
  p_ofile :: "nat \<Rightarrow> nat option"
  p_cwd :: "nat option"
  p_name :: "u8 list"
  p_status :: u32
  p_priority :: u32
  p_previous :: "nat option"
  p_next :: "nat option"

text \<open>
  \<^verbatim>\<open>struct cpu\<close>, with the fields of the task state segment that the kernel writes and the two
  privileged registers it loads (the task register and the page table base). \<open>c_ts_addr\<close> is
  the address of the task state.
\<close>

record cpu =
  c_apicid :: u8
  c_ts_addr :: u32
  c_ts_ss0 :: u16
  c_ts_esp0 :: u32
  c_ts_iomb :: u16
  c_gdt :: "nat \<Rightarrow> segdesc"
  c_started :: u32
  c_ncli :: nat
  c_intena :: bool
  c_proc :: "nat option"
  c_tr :: u16
  c_cr3 :: u32

record ptable = kmem +
  procs :: "nat \<Rightarrow> proc"
  queue :: "u32 \<Rightarrow> nat option"
  initproc :: "nat option"
  nextpid :: u32
  cpus :: "nat \<Rightarrow> cpu"
  ncpu :: nat
  kpgdir :: u32
  trapret :: u32
  forkret_addr :: u32

definition upd_proc :: "nat \<Rightarrow> (proc \<Rightarrow> proc) \<Rightarrow> 'a ptable_scheme \<Rightarrow> 'a ptable_scheme" where
  "upd_proc p f s = s\<lparr>procs := (procs s)(p := f (procs s p))\<rparr>"

section \<open>Operations\<close>

definition enqueue :: "nat \<Rightarrow> 'a ptable_scheme \<Rightarrow> 'a ptable_scheme res" where
  "enqueue p s =
     (let previous = p_previous (procs s p); nxt = p_next (procs s p); pr = p_priority (procs s p)
      in if previous \<noteq> None \<and> nxt \<noteq> None
         then Panic ''enqueue: can't push process that is already in a queue''
         else if (previous = None \<and> nxt \<noteq> None) \<or> (previous \<noteq> None \<and> nxt = None)
         then Panic ''enqueue: corrupted process priority queue data''
         else if pr \<ge> NUM_PRIO then Fault
         else case queue s pr of
             None \<Rightarrow>
               Ok (upd_proc p (\<lambda>q. q\<lparr>p_previous := Some p, p_next := Some p\<rparr>)
                     (s\<lparr>queue := (queue s)(pr := Some p)\<rparr>))
           | Some h \<Rightarrow>
               (case p_previous (procs s h) of
                  None \<Rightarrow> Fault
                | Some t \<Rightarrow>
                    let s = upd_proc t (\<lambda>q. q\<lparr>p_next := Some p\<rparr>) s;
                        s = upd_proc p (\<lambda>q. q\<lparr>p_previous := p_previous (procs s h)\<rparr>) s;
                        s = upd_proc h (\<lambda>q. q\<lparr>p_previous := Some p\<rparr>) s
                    in Ok (upd_proc p (\<lambda>q. q\<lparr>p_next := queue s pr\<rparr>) s)))"

definition dequeue :: "nat \<Rightarrow> 'a ptable_scheme \<Rightarrow> 'a ptable_scheme res" where
  "dequeue p s =
     (let previous = p_previous (procs s p); nxt = p_next (procs s p); pr = p_priority (procs s p)
      in if pr \<ge> NUM_PRIO then Fault
         else if queue s pr = None
         then Panic ''dequeue: can't pop from a queue that was empty''
         else if previous = None \<and> nxt = None
         then Panic ''dequeue: can't pop process that is not in a queue''
         else if (previous = None \<and> nxt \<noteq> None) \<or> (previous \<noteq> None \<and> nxt = None) \<or>
                 (previous = Some p \<and> nxt \<noteq> Some p) \<or> (previous \<noteq> Some p \<and> nxt = Some p)
         then Panic ''dequeue: corrupted process priority queue data''
         else if previous = Some p \<and> nxt = Some p
         then Ok ((upd_proc p (\<lambda>q. q\<lparr>p_previous := None, p_next := None\<rparr>) s)
                    \<lparr>queue := (queue s)(pr := None)\<rparr>)
         else case (previous, nxt) of
             (Some a, Some b) \<Rightarrow>
               let s = upd_proc b (\<lambda>q. q\<lparr>p_previous := previous\<rparr>) s;
                   s = upd_proc a (\<lambda>q. q\<lparr>p_next := nxt\<rparr>) s;
                   s = (if queue s pr = Some p then s\<lparr>queue := (queue s)(pr := nxt)\<rparr> else s)
               in Ok (upd_proc p (\<lambda>q. q\<lparr>p_previous := None, p_next := None\<rparr>) s)
           | _ \<Rightarrow> Fault)"

section \<open>The queues as lists\<close>

abbreviation nx :: "'a ptable_scheme \<Rightarrow> nat \<Rightarrow> nat option" where
  "nx s \<equiv> \<lambda>p. p_next (procs s p)"

abbreviation pv :: "'a ptable_scheme \<Rightarrow> nat \<Rightarrow> nat option" where
  "pv s \<equiv> \<lambda>p. p_previous (procs s p)"

definition queues :: "'a ptable_scheme \<Rightarrow> (u32 \<Rightarrow> nat list) \<Rightarrow> bool" where
  "queues s qs \<longleftrightarrow>
     (\<forall>pr. cdll (nx s) (pv s) (queue s pr) (qs pr)) \<and>
     (\<forall>pr pr'. pr \<noteq> pr' \<longrightarrow> set (qs pr) \<inter> set (qs pr') = {}) \<and>
     (\<forall>p. (\<forall>pr. p \<notin> set (qs pr)) \<longrightarrow> nx s p = None \<and> pv s p = None)"

text \<open>The operations change the links and the heads only.\<close>

definition link_change :: "'a ptable_scheme \<Rightarrow> 'a ptable_scheme \<Rightarrow> bool" where
  "link_change s s' \<longleftrightarrow>
     s' = s\<lparr>procs := procs s', queue := queue s'\<rparr> \<and>
     (\<forall>q. \<exists>a b. procs s' q = (procs s q)\<lparr>p_previous := a, p_next := b\<rparr>)"

lemma link_change_refl: "link_change s s"
proof -
  have "procs s q = (procs s q)\<lparr>p_previous := pv s q, p_next := nx s q\<rparr>" for q by simp
  then have "\<exists>a b. procs s q = (procs s q)\<lparr>p_previous := a, p_next := b\<rparr>" for q by blast
  then show ?thesis by (simp add: link_change_def)
qed

lemma link_change_trans:
  assumes "link_change s s1" and "link_change s1 s2"
  shows "link_change s s2"
proof -
  have a: "s1 = s\<lparr>procs := procs s1, queue := queue s1\<rparr>"
    and b: "s2 = s1\<lparr>procs := procs s2, queue := queue s2\<rparr>"
    using assms by (simp_all add: link_change_def)
  have "s2 = s\<lparr>procs := procs s2, queue := queue s2\<rparr>" by (subst b, subst a) simp
  moreover have "\<exists>a b. procs s2 q = (procs s q)\<lparr>p_previous := a, p_next := b\<rparr>" for q
  proof -
    obtain a b where 1: "procs s1 q = (procs s q)\<lparr>p_previous := a, p_next := b\<rparr>"
      using assms(1) unfolding link_change_def by blast
    obtain c d where 2: "procs s2 q = (procs s1 q)\<lparr>p_previous := c, p_next := d\<rparr>"
      using assms(2) unfolding link_change_def by blast
    have "procs s2 q = (procs s q)\<lparr>p_previous := c, p_next := d\<rparr>" unfolding 2 1 by simp
    then show ?thesis by blast
  qed
  ultimately show ?thesis by (simp add: link_change_def)
qed

lemma queues_disjoint:
  "queues s qs \<Longrightarrow> p \<in> set (qs pr) \<Longrightarrow> pr' \<noteq> pr \<Longrightarrow> p \<notin> set (qs pr')"
  unfolding queues_def by blast

lemma queues_cdll: "queues s qs \<Longrightarrow> cdll (nx s) (pv s) (queue s pr) (qs pr)"
  unfolding queues_def by blast

lemma queues_free:
  assumes "queues s qs" and "\<And>pr. p \<notin> set (qs pr)"
  shows "nx s p = None" and "pv s p = None"
  using assms unfolding queues_def by blast+

text \<open>A new list for one priority, the other lists untouched.\<close>

lemma queues_update:
  assumes Q: "queues s qs"
    and c: "cdll (nx s') (pv s') (queue s' pr) xs"
    and new: "\<And>q. q \<in> set xs \<Longrightarrow> \<forall>pr'. pr' \<noteq> pr \<longrightarrow> q \<notin> set (qs pr')"
    and q: "\<And>pr'. pr' \<noteq> pr \<Longrightarrow> queue s' pr' = queue s pr'"
    and same: "\<And>q. q \<notin> set (qs pr) \<Longrightarrow> q \<notin> set xs \<Longrightarrow> nx s' q = nx s q \<and> pv s' q = pv s q"
    and gone: "\<And>q. q \<in> set (qs pr) \<Longrightarrow> q \<notin> set xs \<Longrightarrow> nx s' q = None \<and> pv s' q = None"
  shows "queues s' (qs(pr := xs))"
  unfolding queues_def
proof (intro conjI allI impI)
  fix pr'
  show "cdll (nx s') (pv s') (queue s' pr') ((qs(pr := xs)) pr')"
  proof (cases "pr' = pr")
    case True
    with c show ?thesis by simp
  next
    case False
    have "nx s' a = nx s a \<and> pv s' a = pv s a" if "a \<in> set (qs pr')" for a
      using same[of a] queues_disjoint[OF Q that, of pr] new[of a] that False by auto
    then have "cdll (nx s') (pv s') (queue s pr') (qs pr')"
      by (intro cdll_frame[OF queues_cdll[OF Q]]) auto
    then show ?thesis using False q[OF False] by simp
  qed
next
  fix pr1 pr2 :: u32
  assume "pr1 \<noteq> pr2"
  then show "set ((qs(pr := xs)) pr1) \<inter> set ((qs(pr := xs)) pr2) = {}"
    using queues_disjoint[OF Q] new by (auto split: if_splits)
next
  fix p assume p: "\<forall>pr'. p \<notin> set ((qs(pr := xs)) pr')"
  then have px: "p \<notin> set xs" and po: "\<And>pr'. pr' \<noteq> pr \<Longrightarrow> p \<notin> set (qs pr')"
    by (auto split: if_splits)
  have "nx s' p = None \<and> pv s' p = None"
  proof (cases "p \<in> set (qs pr)")
    case True
    then show ?thesis using gone px by blast
  next
    case False
    then have "\<And>pr'. p \<notin> set (qs pr')" using po by metis
    with queues_free[OF Q this] same[OF False px] show ?thesis by simp
  qed
  then show "nx s' p = None" "pv s' p = None" by blast+
qed

section \<open>Refinement of the list operations\<close>

lemma upd_proc_sel [simp]:
  "procs (upd_proc p f s) = (procs s)(p := f (procs s p))"
  "queue (upd_proc p f s) = queue s" "mem (upd_proc p f s) = mem s"
  "freelist (upd_proc p f s) = freelist s" "kend (upd_proc p f s) = kend s"
  "initproc (upd_proc p f s) = initproc s" "nextpid (upd_proc p f s) = nextpid s"
  "cpus (upd_proc p f s) = cpus s" "ncpu (upd_proc p f s) = ncpu s"
  by (simp_all add: upd_proc_def)

lemma link_change_upd:
  assumes "\<And>q. \<exists>a b. f q = q\<lparr>p_previous := a, p_next := b\<rparr>"
  shows "link_change s (upd_proc p f s)"
proof -
  have "\<exists>a b. (if q = p then f (procs s p) else procs s q) = (procs s q)\<lparr>p_previous := a, p_next := b\<rparr>" for q
  proof (cases "q = p")
    case False
    have "procs s q = (procs s q)\<lparr>p_previous := pv s q, p_next := nx s q\<rparr>" by simp
    then have "\<exists>a b. procs s q = (procs s q)\<lparr>p_previous := a, p_next := b\<rparr>" by blast
    then show ?thesis using False by (simp only: if_False)
  qed (use assms in simp)
  then show ?thesis by (simp add: link_change_def upd_proc_def)
qed

lemma link_change_queue: "link_change s (s\<lparr>queue := q\<rparr>)"
proof -
  have "procs s p = (procs s p)\<lparr>p_previous := pv s p, p_next := nx s p\<rparr>" for p by simp
  then have "\<exists>a b. procs s p = (procs s p)\<lparr>p_previous := a, p_next := b\<rparr>" for p by blast
  then show ?thesis by (simp add: link_change_def)
qed

lemma link_updates:
  "\<exists>a b. q\<lparr>p_previous := x\<rparr> = q\<lparr>p_previous := a, p_next := b\<rparr>"
  "\<exists>a b. q\<lparr>p_next := x\<rparr> = q\<lparr>p_previous := a, p_next := b\<rparr>"
  "\<exists>a b. q\<lparr>p_previous := x, p_next := y\<rparr> = q\<lparr>p_previous := a, p_next := b\<rparr>"
proof -
  have "q\<lparr>p_previous := x\<rparr> = q\<lparr>p_previous := x, p_next := p_next q\<rparr>" by simp
  then show "\<exists>a b. q\<lparr>p_previous := x\<rparr> = q\<lparr>p_previous := a, p_next := b\<rparr>" by blast
  have "q\<lparr>p_next := x\<rparr> = q\<lparr>p_previous := p_previous q, p_next := x\<rparr>" by simp
  then show "\<exists>a b. q\<lparr>p_next := x\<rparr> = q\<lparr>p_previous := a, p_next := b\<rparr>" by blast
qed blast

lemma link_change_then_upd:
  "link_change s s1 \<Longrightarrow> (\<And>q. \<exists>a b. f q = q\<lparr>p_previous := a, p_next := b\<rparr>) \<Longrightarrow>
   link_change s (upd_proc p f s1)"
  by (rule link_change_trans[OF _ link_change_upd])

lemmas link_change_intros = link_change_then_upd link_updates link_change_refl

lemma enqueue_ok:
  assumes Q: "queues s qs" and p: "\<And>pr. p \<notin> set (qs pr)" and pr: "p_priority (procs s p) = pr"
    and lt: "pr < NUM_PRIO"
  shows "\<exists>s'. enqueue p s = Ok s' \<and> queues s' (qs(pr := qs pr @ [p])) \<and> link_change s s'"
proof (cases "qs pr")
  case Nil
  note no = queues_free[OF Q p]
  have h: "queue s pr = None" using queues_cdll[OF Q, of pr] by (simp add: Nil)
  let ?s = "upd_proc p (\<lambda>q. q\<lparr>p_previous := Some p, p_next := Some p\<rparr>) (s\<lparr>queue := (queue s)(pr := Some p)\<rparr>)"
  have "enqueue p s = Ok ?s" using no h lt pr by (simp add: enqueue_def Let_def not_le[symmetric])
  moreover have "queues ?s (qs(pr := [p]))"
    by (rule queues_update[OF Q]) (use p Nil in \<open>auto simp: cdll_single\<close>)
  moreover have "link_change s ?s"
    by (rule link_change_trans[OF link_change_queue link_change_upd]) (rule link_updates)
  ultimately show ?thesis by (intro exI[of _ ?s]) (simp add: Nil)
next
  case (Cons x xs)
  note no = queues_free[OF Q p] and c = queues_cdll[OF Q, of pr]
  let ?t = "last (qs pr)"
  have ne: "qs pr \<noteq> []" by (simp add: Cons)
  have h: "queue s pr = Some x" using cdll_head[OF c ne] by (simp add: Cons)
  have t: "pv s x = Some ?t" using cdll_prev_head(1)[OF c ne] by (simp add: Cons)
  have px: "p \<noteq> x" "p \<noteq> ?t" "x \<in> set (qs pr)" "?t \<in> set (qs pr)"
    using p[of pr] last_in_set[OF ne] by (auto simp: Cons)
  let ?s1 = "upd_proc ?t (\<lambda>q. q\<lparr>p_next := Some p\<rparr>) s"
  let ?s2 = "upd_proc p (\<lambda>q. q\<lparr>p_previous := pv ?s1 x\<rparr>) ?s1"
  let ?s3 = "upd_proc x (\<lambda>q. q\<lparr>p_previous := Some p\<rparr>) ?s2"
  let ?s = "upd_proc p (\<lambda>q. q\<lparr>p_next := queue ?s3 pr\<rparr>) ?s3"
  have "enqueue p s = Ok ?s"
    using no h t lt pr unfolding enqueue_def Let_def by (simp add: not_le[symmetric])
  moreover have nx': "nx ?s = (nx s)(?t := Some p, p := Some (hd (qs pr)))"
    and pv': "pv ?s = (pv s)(p := Some ?t, hd (qs pr) := Some p)"
    using px t h by (auto simp: Cons fun_eq_iff)
  have "queues ?s (qs(pr := qs pr @ [p]))"
  proof (rule queues_update[OF Q])
    show "cdll (nx ?s) (pv ?s) (queue ?s pr) (qs pr @ [p])"
      unfolding nx' pv' using cdll_append[OF c ne p] by simp
    fix q assume "q \<notin> set (qs pr)" "q \<notin> set (qs pr @ [p])"
    then show "nx ?s q = nx s q \<and> pv ?s q = pv s q"
      using px hd_in_set[OF ne] fun_cong[OF nx', of q] fun_cong[OF pv', of q] by auto
  qed (use p queues_disjoint[OF Q] in auto)
  moreover have "link_change s ?s"
    by (intro link_change_intros)
  ultimately show ?thesis by blast
qed

lemma dequeue_ok:
  assumes Q: "queues s qs" and p: "p \<in> set (qs pr)" and pr: "p_priority (procs s p) = pr"
    and lt: "pr < NUM_PRIO"
  shows "\<exists>s'. dequeue p s = Ok s' \<and> queues s' (qs(pr := remove1 p (qs pr))) \<and> link_change s s'"
proof -
  note c = queues_cdll[OF Q, of pr]
  from cdll_links_in[OF c p] obtain a b where a: "pv s p = Some a" "a \<in> set (qs pr)"
    and b: "nx s p = Some b" "b \<in> set (qs pr)" by blast
  have h: "queue s pr \<noteq> None" using c p by (cases "queue s pr") auto
  have self: "pv s p = Some p \<longleftrightarrow> nx s p = Some p"
  proof
    assume "pv s p = Some p"
    from cdll_prev_self[OF c p this] a b show "nx s p = Some p" by simp
  next
    assume "nx s p = Some p"
    from cdll_remove_last[OF c p this] a b show "pv s p = Some p" by simp
  qed
  note d = cdll_distinct[OF c]
  show ?thesis
  proof (cases "nx s p = Some p")
    case True
    then have q: "qs pr = [p]" by (rule cdll_remove_last[OF c p])
    let ?s = "(upd_proc p (\<lambda>q. q\<lparr>p_previous := None, p_next := None\<rparr>) s)\<lparr>queue := (queue s)(pr := None)\<rparr>"
    have "dequeue p s = Ok ?s"
      using True self h lt pr by (simp add: dequeue_def Let_def not_le[symmetric])
    moreover have "queues ?s (qs(pr := []))"
      by (rule queues_update[OF Q]) (use q in auto)
    moreover have "link_change s ?s"
      by (rule link_change_trans[OF _ link_change_queue]) (intro link_change_intros)
    ultimately show ?thesis by (intro exI[of _ ?s]) (simp add: q)
  next
    case False
    then have ab: "a \<noteq> p" "b \<noteq> p" using self a b by auto
    obtain us vs where q: "qs pr = us @ p # vs" using p by (auto simp: in_set_conv_decomp)
    have ne: "us @ vs \<noteq> []" using b(2) ab(2) q by auto
    have rm: "remove1 p (qs pr) = us @ vs" using d by (simp add: q remove1_append)
    let ?s1 = "upd_proc b (\<lambda>q. q\<lparr>p_previous := pv s p\<rparr>) s"
    let ?s2 = "upd_proc a (\<lambda>q. q\<lparr>p_next := nx s p\<rparr>) ?s1"
    let ?s3 = "if queue ?s2 pr = Some p then ?s2\<lparr>queue := (queue ?s2)(pr := nx s p)\<rparr> else ?s2"
    let ?s = "upd_proc p (\<lambda>q. q\<lparr>p_previous := None, p_next := None\<rparr>) ?s3"
    have "dequeue p s = Ok ?s"
      using False self h lt pr a b ab unfolding dequeue_def Let_def
      by (simp add: not_le[symmetric] del: upd_proc_sel(2))
    moreover have nx': "nx ?s = (nx s)(a := Some b, p := None)"
      and pv': "pv ?s = (pv s)(b := Some a, p := None)"
      and hd': "queue ?s = (queue s)(pr := if queue s pr = Some p then Some b else queue s pr)"
      using ab a b by (auto simp: fun_eq_iff)
    have "queues ?s (qs(pr := us @ vs))"
    proof (rule queues_update[OF Q])
      show "cdll (nx ?s) (pv ?s) (queue ?s pr) (us @ vs)"
        unfolding nx' pv' hd' using cdll_remove[OF c[unfolded q] ne a(1) b(1)] by simp
      fix r assume "r \<in> set (us @ vs)"
      then show "\<forall>pr'. pr' \<noteq> pr \<longrightarrow> r \<notin> set (qs pr')" using queues_disjoint[OF Q, of r pr] q by auto
    next
      fix r assume "r \<in> set (qs pr)" "r \<notin> set (us @ vs)"
      then have "r = p" using q by auto
      then show "nx ?s r = None \<and> pv ?s r = None"
        using fun_cong[OF nx', of r] fun_cong[OF pv', of r] by simp
    next
      fix r assume "r \<notin> set (qs pr)" "r \<notin> set (us @ vs)"
      then have "r \<noteq> a" "r \<noteq> b" "r \<noteq> p" using a b p by auto
      then show "nx ?s r = nx s r \<and> pv ?s r = pv s r"
        using fun_cong[OF nx', of r] fun_cong[OF pv', of r] by simp
    next
      fix pr' assume "pr' \<noteq> pr"
      then show "queue ?s pr' = queue s pr'" using fun_cong[OF hd', of pr'] by simp
    qed
    moreover have "link_change s ?s"
    proof -
      have "link_change s ?s2" by (intro link_change_intros)
      then have "link_change s ?s3" using link_change_trans[OF _ link_change_queue] by auto
      then show ?thesis by (intro link_change_intros)
    qed
    ultimately show ?thesis unfolding rm by blast
  qed
qed

text \<open>
  The panics of the two functions are exactly the violations of their requirements: a process
  is queued twice, or is taken out of a queue it is not in.
\<close>

lemma enqueue_twice:
  assumes Q: "queues s qs" and p: "p \<in> set (qs pr)"
  shows "enqueue p s = Panic ''enqueue: can't push process that is already in a queue''"
  using cdll_links_in[OF queues_cdll[OF Q] p] by (auto simp: enqueue_def Let_def)

lemma dequeue_not_queued:
  assumes Q: "queues s qs" and p: "\<And>pr. p \<notin> set (qs pr)" and lt: "p_priority (procs s p) < NUM_PRIO"
  shows "\<exists>e. dequeue p s = Panic e"
  using queues_free[OF Q p] lt by (auto simp: dequeue_def Let_def not_le[symmetric])

section \<open>Effect on the state\<close>

lemma link_change_fields:
  assumes "link_change s s'"
  shows "mem s' = mem s" and "freelist s' = freelist s" and "kend s' = kend s"
    and "initproc s' = initproc s" and "nextpid s' = nextpid s" and "cpus s' = cpus s"
    and "ncpu s' = ncpu s"
proof -
  have e: "s' = s\<lparr>procs := procs s', queue := queue s'\<rparr>" using assms by (simp add: link_change_def)
  show "mem s' = mem s" "freelist s' = freelist s" "kend s' = kend s"
    "initproc s' = initproc s" "nextpid s' = nextpid s" "cpus s' = cpus s" "ncpu s' = ncpu s"
    by (subst e, simp)+
qed

lemma link_change_proc:
  assumes "link_change s s'"
  shows "p_state (procs s' q) = p_state (procs s q)" and "p_pid (procs s' q) = p_pid (procs s q)"
    and "p_priority (procs s' q) = p_priority (procs s q)" and "p_chan (procs s' q) = p_chan (procs s q)"
    and "p_killed (procs s' q) = p_killed (procs s q)" and "p_parent (procs s' q) = p_parent (procs s q)"
    and "p_status (procs s' q) = p_status (procs s q)" and "p_sz (procs s' q) = p_sz (procs s q)"
    and "p_pgdir (procs s' q) = p_pgdir (procs s q)" and "p_kstack (procs s' q) = p_kstack (procs s q)"
    and "p_tf (procs s' q) = p_tf (procs s q)" and "p_context (procs s' q) = p_context (procs s q)"
    and "p_ofile (procs s' q) = p_ofile (procs s q)" and "p_cwd (procs s' q) = p_cwd (procs s q)"
    and "p_name (procs s' q) = p_name (procs s q)"
proof -
  obtain a b where e: "procs s' q = (procs s q)\<lparr>p_previous := a, p_next := b\<rparr>"
    using assms unfolding link_change_def by blast
  show "p_state (procs s' q) = p_state (procs s q)" "p_pid (procs s' q) = p_pid (procs s q)"
    "p_priority (procs s' q) = p_priority (procs s q)" "p_chan (procs s' q) = p_chan (procs s q)"
    "p_killed (procs s' q) = p_killed (procs s q)" "p_parent (procs s' q) = p_parent (procs s q)"
    "p_status (procs s' q) = p_status (procs s q)" "p_sz (procs s' q) = p_sz (procs s q)"
    "p_pgdir (procs s' q) = p_pgdir (procs s q)" "p_kstack (procs s' q) = p_kstack (procs s q)"
    "p_tf (procs s' q) = p_tf (procs s q)" "p_context (procs s' q) = p_context (procs s q)"
    "p_ofile (procs s' q) = p_ofile (procs s q)" "p_cwd (procs s' q) = p_cwd (procs s q)"
    "p_name (procs s' q) = p_name (procs s q)"
    by (simp_all add: e)
qed

end
