(* ===== verification/Sched_Spec.thy ===== *)
theory Sched_Spec
  imports Proc_Queue
begin

text \<open>
  What the scheduler of \<^verbatim>\<open>src/xv6/proc.c\<close> promises, without pointers: every priority has a
  list of processes, served first in first out, and the high priority list is served before
  the normal one. \<open>sched_ok\<close> is the invariant: the lists hold exactly the runnable processes
  of their priority, and the running processes are exactly those on a processor. The
  operations mirror the ones of \<^verbatim>\<open>proc.c\<close>; \<open>Proc_Refine\<close> shows that the code implements
  them.
\<close>

section \<open>The interface of the run queues\<close>

text \<open>
  A family of first-in-first-out queues, one for each key, holding elements whose key is part
  of the state. \<open>frame\<close> relates states that differ in the representation of the queues
  only.
\<close>

locale run_queue =
  fixes enq deq :: "'p \<Rightarrow> 's \<Rightarrow> 's res"
    and repr :: "'s \<Rightarrow> ('k \<Rightarrow> 'p list) \<Rightarrow> bool"
    and key :: "'s \<Rightarrow> 'p \<Rightarrow> 'k"
    and legal :: "'k \<Rightarrow> bool"
    and frame :: "'s \<Rightarrow> 's \<Rightarrow> bool"
  assumes enq_law: "repr s qs \<Longrightarrow> (\<And>k. p \<notin> set (qs k)) \<Longrightarrow> key s p = k \<Longrightarrow> legal k \<Longrightarrow>
      \<exists>s'. enq p s = Ok s' \<and> repr s' (qs(k := qs k @ [p])) \<and> frame s s'"
    and deq_law: "repr s qs \<Longrightarrow> p \<in> set (qs k) \<Longrightarrow> key s p = k \<Longrightarrow> legal k \<Longrightarrow>
      \<exists>s'. deq p s = Ok s' \<and> repr s' (qs(k := remove1 p (qs k))) \<and> frame s s'"
    and distinct_law: "repr s qs \<Longrightarrow> distinct (qs k)"
    and disjoint_law: "repr s qs \<Longrightarrow> p \<in> set (qs k) \<Longrightarrow> k' \<noteq> k \<Longrightarrow> p \<notin> set (qs k')"
    and frame_refl: "frame s s"
    and frame_trans: "frame s t \<Longrightarrow> frame t u \<Longrightarrow> frame s u"
    and frame_key: "frame s s' \<Longrightarrow> key s' p = key s p"
begin

text \<open>Queueing several elements in turn appends them in that order.\<close>

lemma enq_all:
  assumes "repr s qs" and "distinct ps" and "\<And>p k. p \<in> set ps \<Longrightarrow> p \<notin> set (qs k)"
    and "\<And>p. p \<in> set ps \<Longrightarrow> legal (key s p)"
  shows "\<exists>s'. foldR enq ps s = Ok s' \<and> frame s s' \<and>
           repr s' (\<lambda>k. qs k @ filter (\<lambda>p. key s p = k) ps)"
  using assms
proof (induction ps arbitrary: s qs)
  case Nil
  then show ?case using frame_refl by auto
next
  case (Cons p ps)
  let ?k = "key s p"
  from enq_law[OF Cons.prems(1) _ refl, of p] Cons.prems(3,4) obtain s1 where
    1: "enq p s = Ok s1" "repr s1 (qs(?k := qs ?k @ [p]))" "frame s s1" by auto
  have "\<exists>s'. foldR enq ps s1 = Ok s' \<and> frame s1 s' \<and>
      repr s' (\<lambda>k. (qs(?k := qs ?k @ [p])) k @ filter (\<lambda>q. key s1 q = k) ps)"
    by (rule Cons.IH[OF 1(2)]) (use Cons.prems 1(3) in \<open>auto simp: frame_key\<close>)
  then obtain s' where 2: "foldR enq ps s1 = Ok s'" "frame s1 s'"
    "repr s' (\<lambda>k. (qs(?k := qs ?k @ [p])) k @ filter (\<lambda>q. key s1 q = k) ps)" by blast
  have "(\<lambda>k. (qs(?k := qs ?k @ [p])) k @ filter (\<lambda>q. key s1 q = k) ps) =
      (\<lambda>k. qs k @ filter (\<lambda>q. key s q = k) (p # ps))"
    using frame_key[OF 1(3)] by (auto simp: fun_eq_iff)
  with 1 2 show ?case using frame_trans[OF 1(3) 2(2)] by simp
qed

text \<open>Serving the head and queueing it again rotates the list.\<close>

lemma serve_and_requeue:
  assumes "repr s qs" and "qs k = p # ps" and "key s p = k" and "legal k"
  shows "\<exists>s' s''. deq p s = Ok s' \<and> repr s' (qs(k := ps)) \<and> enq p s' = Ok s'' \<and>
           repr s'' (qs(k := ps @ [p])) \<and> frame s s''"
proof -
  from deq_law[OF assms(1) _ assms(3,4)] assms(2) obtain s' where
    1: "deq p s = Ok s'" "repr s' (qs(k := ps))" "frame s s'" by auto
  have "p \<notin> set ((qs(k := ps)) k')" for k'
    using distinct_law[OF assms(1), of k] disjoint_law[OF assms(1), of p k k'] assms(2) by auto
  then obtain s'' where "enq p s' = Ok s''" "repr s'' ((qs(k := ps))(k := (qs(k := ps)) k @ [p]))"
    "frame s' s''"
    using enq_law[OF 1(2), of p k] frame_key[OF 1(3)] assms(3,4) by metis
  with 1 show ?thesis using frame_trans[OF 1(3)] by auto
qed

text \<open>Moving an element to another queue, as \<^verbatim>\<open>setprio\<close> does.\<close>

lemma move:
  assumes "repr s qs" and "p \<in> set (qs k)" and "key s p = k" and "legal k" and "k' \<noteq> k"
    and chg: "\<And>t rs. repr t rs \<Longrightarrow> (\<And>l. p \<notin> set (rs l)) \<Longrightarrow> repr (h t) rs \<and> key (h t) p = k'"
    and "legal k'"
  shows "\<exists>t u. deq p s = Ok t \<and> enq p (h t) = Ok u \<and> frame s t \<and> frame (h t) u \<and>
           repr u (qs(k := remove1 p (qs k), k' := qs k' @ [p]))"
proof -
  from deq_law[OF assms(1-4)] obtain t where
    1: "deq p s = Ok t" "repr t (qs(k := remove1 p (qs k)))" "frame s t" by blast
  have no: "p \<notin> set ((qs(k := remove1 p (qs k))) l)" for l
    using distinct_law[OF assms(1), of k] disjoint_law[OF assms(1,2), of l] by auto
  have 2: "repr (h t) (qs(k := remove1 p (qs k)))" "key (h t) p = k'"
    using chg[OF 1(2)] no by blast+
  from enq_law[OF 2(1) no 2(2) assms(7)] obtain u where
    "enq p (h t) = Ok u" "frame (h t) u"
    "repr u ((qs(k := remove1 p (qs k)))(k' := (qs(k := remove1 p (qs k))) k' @ [p]))" by blast
  then show ?thesis using 1 assms(5) by auto
qed

end

interpretation rq: run_queue enqueue dequeue queues
  "\<lambda>s p. p_priority (procs s p)" "\<lambda>pr. pr < NUM_PRIO" link_change
proof unfold_locales
  show "\<exists>s'. enqueue p s = Ok s' \<and> queues s' (qs(k := qs k @ [p])) \<and> link_change s s'"
    if "queues s qs" "\<And>k. p \<notin> set (qs k)" "p_priority (procs s p) = k" "k < NUM_PRIO"
    for s :: "'a ptable_scheme" and qs p k
    using that by (rule enqueue_ok)
  show "\<exists>s'. dequeue p s = Ok s' \<and> queues s' (qs(k := remove1 p (qs k))) \<and> link_change s s'"
    if "queues s qs" "p \<in> set (qs k)" "p_priority (procs s p) = k" "k < NUM_PRIO"
    for s :: "'a ptable_scheme" and qs p k
    using that by (rule dequeue_ok)
  show "distinct (qs k)" if "queues s qs" for s :: "'a ptable_scheme" and qs k
    by (rule cdll_distinct[OF queues_cdll[OF that]])
qed (rule queues_disjoint link_change_refl link_change_trans link_change_proc(3); assumption)+

section \<open>The abstract scheduler\<close>

record sched_abs =
  a_state :: "nat \<Rightarrow> procstate"
  a_prio :: "nat \<Rightarrow> u32"
  a_chan :: "nat \<Rightarrow> chan option"
  a_cpu :: "nat \<Rightarrow> nat option"
  a_queue :: "u32 \<Rightarrow> nat list"

definition sched_ok :: "sched_abs \<Rightarrow> bool" where
  "sched_ok a \<longleftrightarrow>
     (\<forall>pr. distinct (a_queue a pr) \<and>
        set (a_queue a pr) = {p. p < NPROC \<and> a_state a p = RUNNABLE \<and> a_prio a p = pr}) \<and>
     (\<forall>p<NPROC. a_prio a p < NUM_PRIO) \<and>
     (\<forall>c p. a_cpu a c = Some p \<longrightarrow> p < NPROC \<and> a_state a p = RUNNING) \<and>
     (\<forall>c c' p. a_cpu a c = Some p \<longrightarrow> a_cpu a c' = Some p \<longrightarrow> c = c') \<and>
     (\<forall>p<NPROC. a_state a p = RUNNING \<longrightarrow> (\<exists>c. a_cpu a c = Some p))"

definition a_ready :: "nat \<Rightarrow> sched_abs \<Rightarrow> sched_abs" where
  "a_ready p a =
     a\<lparr>a_state := (a_state a)(p := RUNNABLE),
       a_queue := (a_queue a)(a_prio a p := a_queue a (a_prio a p) @ [p])\<rparr>"

definition a_leave :: "nat \<Rightarrow> sched_abs \<Rightarrow> sched_abs" where
  "a_leave c a = a\<lparr>a_cpu := (a_cpu a)(c := None)\<rparr>"

definition a_dispatch :: "nat \<Rightarrow> nat \<Rightarrow> sched_abs \<Rightarrow> sched_abs" where
  "a_dispatch c p a =
     a\<lparr>a_cpu := (a_cpu a)(c := Some p),
       a_state := (a_state a)(p := RUNNING),
       a_queue := (a_queue a)(a_prio a p := remove1 p (a_queue a (a_prio a p)))\<rparr>"

definition a_wake_one :: "chan option \<Rightarrow> nat \<Rightarrow> sched_abs \<Rightarrow> sched_abs" where
  "a_wake_one ch p a = (if a_state a p = SLEEPING \<and> a_chan a p = ch then a_ready p a else a)"

definition a_wakeup :: "chan option \<Rightarrow> sched_abs \<Rightarrow> sched_abs" where
  "a_wakeup ch a = fold (a_wake_one ch) [0..<NPROC] a"

definition a_setprio :: "nat \<Rightarrow> u32 \<Rightarrow> sched_abs \<Rightarrow> sched_abs" where
  "a_setprio p pr a =
     (if a_prio a p = pr then a
      else if a_state a p = RUNNABLE
      then a\<lparr>a_prio := (a_prio a)(p := pr),
             a_queue := (a_queue a)(a_prio a p := remove1 p (a_queue a (a_prio a p)),
                                    pr := a_queue a pr @ [p])\<rparr>
      else a\<lparr>a_prio := (a_prio a)(p := pr)\<rparr>)"

text \<open>The process that runs next: the head of the first list that is not empty.\<close>

definition a_next :: "sched_abs \<Rightarrow> nat option" where
  "a_next a =
     (case a_queue a HI_PRIO of
        p # _ \<Rightarrow> Some p
      | [] \<Rightarrow> (case a_queue a NORM_PRIO of p # _ \<Rightarrow> Some p | [] \<Rightarrow> None))"

section \<open>The invariant is kept\<close>

lemma sched_okD:
  assumes "sched_ok a"
  shows "distinct (a_queue a pr)"
    and "p \<in> set (a_queue a pr) \<longleftrightarrow> p < NPROC \<and> a_state a p = RUNNABLE \<and> a_prio a p = pr"
    and "p < NPROC \<Longrightarrow> a_prio a p < NUM_PRIO"
    and "a_cpu a c = Some p \<Longrightarrow> p < NPROC \<and> a_state a p = RUNNING"
    and "a_cpu a c = Some p \<Longrightarrow> a_cpu a c' = Some p \<Longrightarrow> c = c'"
    and "p < NPROC \<Longrightarrow> a_state a p = RUNNING \<Longrightarrow> \<exists>c. a_cpu a c = Some p"
  using assms unfolding sched_ok_def by auto

lemma sched_ok_other_cpu:
  assumes "sched_ok a" and "q < NPROC" and "a_state a q = RUNNING" and "a_cpu a c \<noteq> Some q"
  shows "\<exists>c'. c' \<noteq> c \<and> a_cpu a c' = Some q"
  using sched_okD(6)[OF assms(1-3)] assms(4) by metis

lemma sched_ok_ready:
  assumes "sched_ok a" and "p < NPROC" and "a_state a p \<noteq> RUNNABLE" and "a_state a p \<noteq> RUNNING"
  shows "sched_ok (a_ready p a)"
  using assms unfolding sched_ok_def a_ready_def by auto

lemma sched_ok_yield:
  assumes "sched_ok a" and "a_cpu a c = Some p"
  shows "sched_ok (a_leave c (a_ready p a))"
  using assms sched_ok_other_cpu[OF assms(1), of _ c] unfolding sched_ok_def a_ready_def a_leave_def by (auto split: if_splits) metis+

lemma sched_ok_block:
  assumes "sched_ok a" and "a_cpu a c = Some p" and "st = SLEEPING \<or> st = ZOMBIE"
  shows "sched_ok (a_leave c (a\<lparr>a_state := (a_state a)(p := st), a_chan := ch\<rparr>))"
  using assms sched_ok_other_cpu[OF assms(1), of _ c] unfolding sched_ok_def a_leave_def by (auto split: if_splits) metis+

lemma sched_ok_dispatch:
  assumes ok: "sched_ok a" and "p \<in> set (a_queue a pr)" and "a_cpu a c = None"
  shows "sched_ok (a_dispatch c p a)"
proof -
  have p: "p < NPROC" "a_state a p = RUNNABLE" "a_prio a p = pr"
    using assms(2) sched_okD(2)[OF ok] by auto
  have nc: "a_cpu a c' \<noteq> Some p" for c' using sched_okD(4)[OF ok, of c' p] p by auto
  show ?thesis
    using ok p nc assms(3) sched_ok_other_cpu[OF ok, of _ c] unfolding sched_ok_def a_dispatch_def by (auto split: if_splits) metis+
qed

lemma sched_ok_wake_one: "sched_ok a \<Longrightarrow> p < NPROC \<Longrightarrow> sched_ok (a_wake_one ch p a)"
  by (auto simp: a_wake_one_def intro: sched_ok_ready)

lemma sched_ok_wakeup: "sched_ok a \<Longrightarrow> sched_ok (a_wakeup ch a)"
proof -
  have "set ps \<subseteq> {..<NPROC} \<Longrightarrow> sched_ok a \<Longrightarrow> sched_ok (fold (a_wake_one ch) ps a)" for ps
    by (induction ps arbitrary: a) (auto intro: sched_ok_wake_one)
  from this[of "[0..<NPROC]"] show "sched_ok a \<Longrightarrow> sched_ok (a_wakeup ch a)"
    by (simp add: a_wakeup_def lessThan_atLeast0)
qed

lemma sched_ok_setprio:
  assumes "sched_ok a" and "p < NPROC" and "pr < NUM_PRIO"
  shows "sched_ok (a_setprio p pr a)"
  using assms unfolding sched_ok_def a_setprio_def by auto

text \<open>Changes of processes that are neither runnable nor running, before and after.\<close>

lemma sched_ok_idle_change:
  assumes "sched_ok a" and "a_state a p \<notin> {RUNNABLE, RUNNING}" and "st \<notin> {RUNNABLE, RUNNING}"
    and "pr < NUM_PRIO"
  shows "sched_ok (a\<lparr>a_state := (a_state a)(p := st), a_prio := (a_prio a)(p := pr), a_chan := ch\<rparr>)"
  using assms unfolding sched_ok_def by auto

end
