(* ===== verification/Vm_Defs.thy ===== *)
theory Vm_Defs
  imports Kalloc
begin

text \<open>
  Page tables, \<^verbatim>\<open>src/xv6/vm.c\<close>: the operations. A page directory is the address of a page of
  1024 words; a present directory entry holds the physical address of a page table, a
  page of 1024 entries. Both kinds of page live in the memory of \<^verbatim>\<open>kalloc.c\<close>. C results
  \<^verbatim>\<open>0\<close> and \<^verbatim>\<open>-1\<close> are integers; a null pointer is the address \<open>0\<close>. The loops take the number
  of iterations they may use as their first argument: \<open>2 ^ 20\<close> is the number of pages in
  the address space, so none of them can need more.
\<close>

section \<open>Walking and mapping\<close>

definition walkpgdir :: "u32 \<Rightarrow> u32 \<Rightarrow> bool \<Rightarrow> 'a kmem_scheme \<Rightarrow> u32 \<times> 'a kmem_scheme" where
  "walkpgdir pgdir va alloc s =
     (let pde = pgdir + 4 * PDX va
      in if mem s pde AND PTE_P \<noteq> 0
         then (P2V (PTE_ADDR (mem s pde)) + 4 * PTX va, s)
         else if \<not> alloc then (0, s)
         else let (pgtab, s) = kalloc s
              in if pgtab = 0 then (0, s)
                 else (pgtab + 4 * PTX va,
                       s\<lparr>mem := (page_fill pgtab 0 (mem s))
                                  (pde := V2P pgtab OR PTE_P OR PTE_W OR PTE_U)\<rparr>))"

fun mappages_loop ::
  "nat \<Rightarrow> u32 \<Rightarrow> u32 \<Rightarrow> u32 \<Rightarrow> u32 \<Rightarrow> u32 \<Rightarrow> 'a kmem_scheme \<Rightarrow> (int \<times> 'a kmem_scheme) res" where
  "mappages_loop 0 pgdir a lst pa perm s = Exhausted"
| "mappages_loop (Suc k) pgdir a lst pa perm s =
     (let (pte, s) = walkpgdir pgdir a True s
      in if pte = 0 then Ok (-1, s)
         else if mem s pte AND PTE_P \<noteq> 0 then Panic ''remap''
         else let s = s\<lparr>mem := (mem s)(pte := pa OR perm OR PTE_P)\<rparr>
              in if a = lst then Ok (0, s)
                 else mappages_loop k pgdir (a + PGSIZE) lst (pa + PGSIZE) perm s)"

definition mappages ::
  "u32 \<Rightarrow> u32 \<Rightarrow> u32 \<Rightarrow> u32 \<Rightarrow> u32 \<Rightarrow> 'a kmem_scheme \<Rightarrow> (int \<times> 'a kmem_scheme) res" where
  "mappages pgdir va sz pa perm s =
     mappages_loop (2 ^ 20) pgdir (PGROUNDDOWN va) (PGROUNDDOWN (va + sz - 1)) pa perm s"

section \<open>Shrinking and releasing an address space\<close>

fun deallocuvm_loop :: "nat \<Rightarrow> u32 \<Rightarrow> u32 \<Rightarrow> u32 \<Rightarrow> 'a kmem_scheme \<Rightarrow> 'a kmem_scheme res" where
  "deallocuvm_loop 0 pgdir a oldsz s = Exhausted"
| "deallocuvm_loop (Suc k) pgdir a oldsz s =
     (if a < oldsz then
        let (pte, s) = walkpgdir pgdir a False s
        in if pte = 0
           then let a = PGADDR (PDX a + 1) 0 0 - PGSIZE
                in deallocuvm_loop k pgdir (a + PGSIZE) oldsz s
           else if mem s pte AND PTE_P \<noteq> 0
           then let pa = PTE_ADDR (mem s pte)
                in if pa = 0 then Panic ''kfree''
                   else bindR (kfree (P2V pa) s) (\<lambda>s.
                     deallocuvm_loop k pgdir (a + PGSIZE) oldsz (s\<lparr>mem := (mem s)(pte := 0)\<rparr>))
           else deallocuvm_loop k pgdir (a + PGSIZE) oldsz s
      else Ok s)"

definition deallocuvm :: "u32 \<Rightarrow> u32 \<Rightarrow> u32 \<Rightarrow> 'a kmem_scheme \<Rightarrow> (u32 \<times> 'a kmem_scheme) res" where
  "deallocuvm pgdir oldsz newsz s =
     (if newsz \<ge> oldsz then Ok (oldsz, s)
      else bindR (deallocuvm_loop (2 ^ 20) pgdir (PGROUNDUP newsz) oldsz s) (\<lambda>s. Ok (newsz, s)))"

definition free_pgtab :: "u32 \<Rightarrow> nat \<Rightarrow> 'a kmem_scheme \<Rightarrow> 'a kmem_scheme res" where
  "free_pgtab pgdir i s =
     (let e = mem s (pgdir + 4 * of_nat i)
      in if e AND PTE_P \<noteq> 0 then kfree (P2V (PTE_ADDR e)) s else Ok s)"

definition freevm :: "u32 \<Rightarrow> bool \<Rightarrow> 'a kmem_scheme \<Rightarrow> 'a kmem_scheme res" where
  "freevm pgdir dodeallocuvm s =
     (if pgdir = 0 then Panic ''freevm: no pgdir''
      else bindR (if dodeallocuvm
                  then bindR (deallocuvm pgdir KERNBASE 0 s) (\<lambda>(_, s). Ok s) else Ok s) (\<lambda>s.
           bindR (foldR (free_pgtab pgdir) [0..<NPDENTRIES] s) (\<lambda>s.
           kfree pgdir s)))"

section \<open>Growing an address space\<close>

fun allocuvm_loop ::
  "nat \<Rightarrow> u32 \<Rightarrow> u32 \<Rightarrow> u32 \<Rightarrow> u32 \<Rightarrow> 'a kmem_scheme \<Rightarrow> (u32 \<times> 'a kmem_scheme) res" where
  "allocuvm_loop 0 pgdir a oldsz newsz s = Exhausted"
| "allocuvm_loop (Suc k) pgdir a oldsz newsz s =
     (if a < newsz then
        let (v, s) = kalloc s
        in if v = 0
           then bindR (deallocuvm pgdir newsz oldsz s) (\<lambda>(_, s). Ok (0, s))
           else bindR (mappages pgdir a PGSIZE (V2P v) (PTE_W OR PTE_U)
                         (s\<lparr>mem := page_fill v 0 (mem s)\<rparr>)) (\<lambda>(r, s).
                if r < 0
                then bindR (deallocuvm pgdir newsz oldsz s) (\<lambda>(_, s).
                     bindR (kfree v s) (\<lambda>s. Ok (0, s)))
                else allocuvm_loop k pgdir (a + PGSIZE) oldsz newsz s)
      else Ok (newsz, s))"

definition allocuvm :: "u32 \<Rightarrow> u32 \<Rightarrow> u32 \<Rightarrow> 'a kmem_scheme \<Rightarrow> (u32 \<times> 'a kmem_scheme) res" where
  "allocuvm pgdir oldsz newsz s =
     (if newsz \<ge> KERNBASE then Ok (0, s)
      else if newsz < oldsz then Ok (oldsz, s)
      else allocuvm_loop (2 ^ 20) pgdir (PGROUNDUP oldsz) oldsz newsz s)"

section \<open>Kernel mappings\<close>

text \<open>The rows of the table \<^verbatim>\<open>kmap\<close>: virtual address, physical start, physical end, permissions.\<close>

definition kmap :: "'a kmem_scheme \<Rightarrow> (u32 \<times> u32 \<times> u32 \<times> u32) list" where
  "kmap s =
     [(KERNBASE, 0, EXTMEM, PTE_W),
      (KERNLINK, V2P KERNLINK, V2P (kdata s), 0),
      (kdata s, V2P (kdata s), PHYSTOP, PTE_W),
      (DEVSPACE, DEVSPACE, 0, PTE_W)]"

fun setupkvm_loop ::
  "u32 \<Rightarrow> (u32 \<times> u32 \<times> u32 \<times> u32) list \<Rightarrow> 'a kmem_scheme \<Rightarrow> (u32 \<times> 'a kmem_scheme) res" where
  "setupkvm_loop pgdir [] s = Ok (pgdir, s)"
| "setupkvm_loop pgdir ((virt, phys_start, phys_end, perm) # ks) s =
     bindR (mappages pgdir virt (phys_end - phys_start) phys_start perm s) (\<lambda>(r, s).
       if r < 0 then bindR (freevm pgdir False s) (\<lambda>s. Ok (0, s))
       else setupkvm_loop pgdir ks s)"

definition setupkvm :: "'a kmem_scheme \<Rightarrow> (u32 \<times> 'a kmem_scheme) res" where
  "setupkvm s =
     (let (pgdir, s) = kalloc s
      in if pgdir = 0 then Ok (0, s)
         else let s = s\<lparr>mem := page_fill pgdir 0 (mem s)\<rparr>
              in if P2V PHYSTOP > DEVSPACE then Panic ''PHYSTOP too high''
                 else setupkvm_loop pgdir (kmap s) s)"

section \<open>Copying and translating\<close>

text \<open>\<^verbatim>\<open>memmove\<close> of a whole page to another page.\<close>

definition page_copy :: "u32 \<Rightarrow> u32 \<Rightarrow> (u32 \<Rightarrow> u32) \<Rightarrow> u32 \<Rightarrow> u32" where
  "page_copy dst src m = (\<lambda>a. if PGROUNDDOWN a = dst then m (a - dst + src) else m a)"

fun copyuvm_loop ::
  "nat \<Rightarrow> u32 \<Rightarrow> u32 \<Rightarrow> u32 \<Rightarrow> u32 \<Rightarrow> 'a kmem_scheme \<Rightarrow> (u32 \<times> 'a kmem_scheme) res" where
  "copyuvm_loop 0 pgdir d i sz s = Exhausted"
| "copyuvm_loop (Suc k) pgdir d i sz s =
     (if i < sz then
        let (pte, s) = walkpgdir pgdir i False s
        in if pte = 0 then copyuvm_loop k pgdir d (i + PGSIZE) sz s
           else if mem s pte AND PTE_P \<noteq> 0
           then let pa = PTE_ADDR (mem s pte);
                    flags = PTE_FLAGS (mem s pte);
                    (v, s) = kalloc s
                in if v = 0 then bindR (freevm d True s) (\<lambda>s. Ok (0, s))
                   else bindR (mappages d i PGSIZE (V2P v) flags
                                 (s\<lparr>mem := page_copy v (P2V pa) (mem s)\<rparr>)) (\<lambda>(r, s).
                        if r < 0
                        then bindR (kfree v s) (\<lambda>s.
                             bindR (freevm d True s) (\<lambda>s. Ok (0, s)))
                        else copyuvm_loop k pgdir d (i + PGSIZE) sz s)
           else copyuvm_loop k pgdir d (i + PGSIZE) sz s
      else Ok (d, s))"

definition copyuvm :: "u32 \<Rightarrow> u32 \<Rightarrow> 'a kmem_scheme \<Rightarrow> (u32 \<times> 'a kmem_scheme) res" where
  "copyuvm pgdir sz s =
     bindR (setupkvm s) (\<lambda>(d, s).
       if d = 0 then Ok (0, s) else copyuvm_loop (2 ^ 20) pgdir d 0 sz s)"

definition clearpteu :: "u32 \<Rightarrow> u32 \<Rightarrow> 'a kmem_scheme \<Rightarrow> 'a kmem_scheme res" where
  "clearpteu pgdir uva s =
     (let (pte, s) = walkpgdir pgdir uva False s
      in if pte = 0 then Panic ''clearpteu''
         else Ok (s\<lparr>mem := (mem s)(pte := mem s pte AND NOT PTE_U)\<rparr>))"

text \<open>A null entry pointer is a \<open>Fault\<close>: \<^verbatim>\<open>uva2ka\<close> reads the entry without testing the result of \<^verbatim>\<open>walkpgdir\<close>.\<close>

definition uva2ka :: "u32 \<Rightarrow> u32 \<Rightarrow> 'a kmem_scheme \<Rightarrow> u32 res" where
  "uva2ka pgdir uva s =
     (let (pte, s) = walkpgdir pgdir uva False s
      in if pte = 0 then Fault
         else if mem s pte AND PTE_P = 0 then Ok 0
         else if mem s pte AND PTE_U = 0 then Ok 0
         else Ok (P2V (PTE_ADDR (mem s pte))))"

text \<open>
  Bytes of the little-endian word memory, and \<^verbatim>\<open>memmove\<close> from a kernel buffer that is not
  in the pages the model describes.
\<close>

definition store_byte :: "(u32 \<Rightarrow> u32) \<Rightarrow> u32 \<Rightarrow> u8 \<Rightarrow> u32 \<Rightarrow> u32" where
  "store_byte m a b =
     (let w = a AND NOT 3; sh = 8 * unat (a AND 3)
      in m(w := (m w AND NOT (push_bit sh 0xFF)) OR push_bit sh (ucast b)))"

definition load_byte :: "(u32 \<Rightarrow> u32) \<Rightarrow> u32 \<Rightarrow> u8" where
  "load_byte m a = ucast (drop_bit (8 * unat (a AND 3)) (m (a AND NOT 3)))"

fun store_bytes :: "(u32 \<Rightarrow> u32) \<Rightarrow> u32 \<Rightarrow> u8 list \<Rightarrow> u32 \<Rightarrow> u32" where
  "store_bytes m a [] = m"
| "store_bytes m a (b # bs) = store_bytes (store_byte m a b) (a + 1) bs"

fun copyout_loop :: "nat \<Rightarrow> u32 \<Rightarrow> u32 \<Rightarrow> u8 list \<Rightarrow> 'a kmem_scheme \<Rightarrow> (int \<times> 'a kmem_scheme) res" where
  "copyout_loop 0 pgdir va buf s = Exhausted"
| "copyout_loop (Suc k) pgdir va buf s =
     (if buf = [] then Ok (0, s)
      else let va0 = PGROUNDDOWN va
           in bindR (uva2ka pgdir va0 s) (\<lambda>pa0.
              if pa0 = 0 then Ok (-1, s)
              else let n = min (unat (PGSIZE - (va - va0))) (length buf)
                   in copyout_loop k pgdir (va0 + PGSIZE) (drop n buf)
                        (s\<lparr>mem := store_bytes (mem s) (pa0 + (va - va0)) (take n buf)\<rparr>)))"

definition copyout :: "u32 \<Rightarrow> u32 \<Rightarrow> u8 list \<Rightarrow> 'a kmem_scheme \<Rightarrow> (int \<times> 'a kmem_scheme) res" where
  "copyout pgdir va buf s = copyout_loop (Suc (length buf)) pgdir va buf s"

definition inituvm :: "u32 \<Rightarrow> u8 list \<Rightarrow> 'a kmem_scheme \<Rightarrow> 'a kmem_scheme res" where
  "inituvm pgdir init s =
     (if length init \<ge> unat PGSIZE then Panic ''inituvm: more than a page''
      else let (v, s) = kalloc s
           in if v = 0 then Fault
              else bindR (mappages pgdir 0 PGSIZE (V2P v) (PTE_W OR PTE_U)
                            (s\<lparr>mem := page_fill v 0 (mem s)\<rparr>)) (\<lambda>(_, s).
                   Ok (s\<lparr>mem := store_bytes (mem s) v init\<rparr>)))"

end
