(* ===== verification/Vm_Frame.thy ===== *)
theory Vm_Frame
  imports Vm_Defs
begin

text \<open>
  The allocator and the page table code, \<^verbatim>\<open>src/xv6/kalloc.c\<close> and \<^verbatim>\<open>src/xv6/vm.c\<close>, write the
  memory and the head of the free list and nothing else of the kernel state. The other
  components use this to carry their invariants across calls of these functions.
\<close>

definition only_mem :: "'a kmem_scheme \<Rightarrow> 'a kmem_scheme \<Rightarrow> bool" where
  "only_mem s s' \<longleftrightarrow> s' = s\<lparr>mem := mem s', freelist := freelist s'\<rparr>"

named_theorems only_mem_intros \<open>operations that write the memory and the free list only\<close>

lemma only_mem_refl [only_mem_intros]: "only_mem s s"
  by (simp add: only_mem_def)

lemma only_mem_trans: "only_mem s t \<Longrightarrow> only_mem t u \<Longrightarrow> only_mem s u"
  unfolding only_mem_def by (metis kmem.surjective kmem.update_convs(1,2) kmem.ext_inject)

lemma only_mem_write [only_mem_intros]: "only_mem s (s\<lparr>mem := m\<rparr>)"
  by (simp add: only_mem_def)

lemma only_mem_then_write [only_mem_intros]: "only_mem s t \<Longrightarrow> only_mem s (t\<lparr>mem := m\<rparr>)"
  by (rule only_mem_trans[OF _ only_mem_write])

lemma kalloc_only_mem: "kalloc s = (v, s') \<Longrightarrow> only_mem s s'"
  by (auto simp: kalloc_def only_mem_def Let_def split: if_splits)

lemma kfree_only_mem: "kfree v s = Ok s' \<Longrightarrow> only_mem s s'"
  by (auto simp: kfree_def only_mem_def split: if_splits)

lemma walkpgdir_only_mem: "walkpgdir pgdir va alloc s = (pte, s') \<Longrightarrow> only_mem s s'"
  by (auto simp: walkpgdir_def Let_def split: if_splits prod.splits
      intro: only_mem_intros kalloc_only_mem)

lemma mappages_loop_only_mem:
  "mappages_loop k pgdir a lst pa perm s = Ok (r, s') \<Longrightarrow> only_mem s s'"
proof (induction k arbitrary: a pa s)
  case (Suc k)
  obtain pte s1 where w: "walkpgdir pgdir a True s = (pte, s1)" by fastforce
  note o = walkpgdir_only_mem[OF w]
  let ?s2 = "s1\<lparr>mem := (mem s1)(pte := pa OR perm OR PTE_P)\<rparr>"
  have o2: "only_mem s ?s2" using o by (intro only_mem_intros)
  from Suc.prems w have "r = -1 \<and> s' = s1 \<or> s' = ?s2 \<or>
      mappages_loop k pgdir (a + PGSIZE) lst (pa + PGSIZE) perm ?s2 = Ok (r, s')"
    by (auto simp: Let_def split: if_splits)
  then show ?case using o o2 Suc.IH only_mem_trans[OF o2] by blast
qed simp

lemma mappages_only_mem: "mappages pgdir va sz pa perm s = Ok (r, s') \<Longrightarrow> only_mem s s'"
  unfolding mappages_def by (rule mappages_loop_only_mem)

lemma deallocuvm_loop_only_mem: "deallocuvm_loop k pgdir a b s = Ok s' \<Longrightarrow> only_mem s s'"
proof (induction k arbitrary: a s)
  case (Suc k)
  obtain pte s1 where w: "walkpgdir pgdir a False s = (pte, s1)" by fastforce
  note o = walkpgdir_only_mem[OF w]
  have step: "deallocuvm_loop (Suc k) pgdir a b s =
      (if a < b then
         if pte = 0 then deallocuvm_loop k pgdir (PGADDR (PDX a + 1) 0 0 - PGSIZE + PGSIZE) b s1
         else if mem s1 pte AND PTE_P \<noteq> 0 then
           if PTE_ADDR (mem s1 pte) = 0 then Panic ''kfree''
           else bindR (kfree (P2V (PTE_ADDR (mem s1 pte))) s1) (\<lambda>s.
             deallocuvm_loop k pgdir (a + PGSIZE) b (s\<lparr>mem := (mem s)(pte := 0)\<rparr>))
         else deallocuvm_loop k pgdir (a + PGSIZE) b s1
       else Ok s)"
    by (simp only: deallocuvm_loop.simps w prod.case Let_def)
  show ?case
  proof (cases "a < b \<and> pte \<noteq> 0 \<and> mem s1 pte AND PTE_P \<noteq> 0")
    case True
    with Suc.prems obtain s2 where 1: "kfree (P2V (PTE_ADDR (mem s1 pte))) s1 = Ok s2"
      and 2: "deallocuvm_loop k pgdir (a + PGSIZE) b (s2\<lparr>mem := (mem s2)(pte := 0)\<rparr>) = Ok s'"
      unfolding step by (auto simp: res_iff split: if_splits)
    have "only_mem s (s2\<lparr>mem := (mem s2)(pte := 0)\<rparr>)"
      using only_mem_trans[OF o kfree_only_mem[OF 1]] by (rule only_mem_then_write)
    then show ?thesis using Suc.IH[OF 2] by (rule only_mem_trans)
  next
    case False
    then have "s' = s \<or> (\<exists>a'. deallocuvm_loop k pgdir a' b s1 = Ok s')"
      using Suc.prems unfolding step by (metis res.inject(1))
    then show ?thesis using Suc.IH only_mem_trans[OF o] only_mem_refl by blast
  qed
qed simp

lemma deallocuvm_only_mem: "deallocuvm pgdir oldsz newsz s = Ok (r, s') \<Longrightarrow> only_mem s s'"
  by (auto simp: deallocuvm_def res_iff only_mem_refl split: if_splits
      dest!: deallocuvm_loop_only_mem)

lemma foldR_only_mem:
  assumes "\<And>x s s'. f x s = Ok s' \<Longrightarrow> only_mem s s'" and "foldR f xs s = Ok s'"
  shows "only_mem s s'"
  using assms(2)
proof (induction xs arbitrary: s)
  case (Cons x xs)
  then obtain s1 where "f x s = Ok s1" "foldR f xs s1 = Ok s'" by (auto simp: res_iff)
  then show ?case using assms(1) Cons.IH only_mem_trans by blast
qed (simp add: only_mem_refl)

lemma free_pgtab_only_mem: "free_pgtab pgdir i s = Ok s' \<Longrightarrow> only_mem s s'"
  by (auto simp: free_pgtab_def Let_def only_mem_refl split: if_splits dest: kfree_only_mem)

lemma freevm_only_mem: "freevm pgdir b s = Ok s' \<Longrightarrow> only_mem s s'"
proof -
  assume "freevm pgdir b s = Ok s'"
  then obtain s1 s2 where 1: "s1 = s \<or> (\<exists>r. deallocuvm pgdir KERNBASE 0 s = Ok (r, s1))"
    and 2: "foldR (free_pgtab pgdir) [0..<NPDENTRIES] s1 = Ok s2" and 3: "kfree pgdir s2 = Ok s'"
    by (auto simp: freevm_def res_iff split: if_splits)
  have "only_mem s s1" using 1 only_mem_refl deallocuvm_only_mem by blast
  moreover have "only_mem s1 s2" by (rule foldR_only_mem[OF free_pgtab_only_mem 2])
  ultimately show ?thesis using kfree_only_mem[OF 3] only_mem_trans by blast
qed

lemma allocuvm_loop_only_mem: "allocuvm_loop k pgdir a b c s = Ok (r, s') \<Longrightarrow> only_mem s s'"
proof (induction k arbitrary: a s)
  case (Suc k)
  obtain v s1 where w: "kalloc s = (v, s1)" by fastforce
  let ?s1 = "s1\<lparr>mem := page_fill v 0 (mem s1)\<rparr>"
  have o: "only_mem s s1" "only_mem s ?s1"
    using kalloc_only_mem[OF w] by (auto intro: only_mem_intros)
  from Suc.prems w consider "s' = s"
    | q where "deallocuvm pgdir c b s1 = Ok (q, s')"
    | q s2 t s3 where "mappages pgdir a PGSIZE (V2P v) (PTE_W OR PTE_U) ?s1 = Ok (q, s2)"
        "deallocuvm pgdir c b s2 = Ok (t, s3)" "kfree v s3 = Ok s'"
    | q s2 where "mappages pgdir a PGSIZE (V2P v) (PTE_W OR PTE_U) ?s1 = Ok (q, s2)"
        "allocuvm_loop k pgdir (a + PGSIZE) b c s2 = Ok (r, s')"
    by (auto simp: Let_def res_iff split: if_splits)
  then show ?case
  proof cases
    case 3
    show ?thesis
      by (rule only_mem_trans[OF only_mem_trans[OF only_mem_trans[OF o(2) mappages_only_mem[OF 3(1)]]
              deallocuvm_only_mem[OF 3(2)]] kfree_only_mem[OF 3(3)]])
  next
    case 4
    show ?thesis
      by (rule only_mem_trans[OF only_mem_trans[OF o(2) mappages_only_mem[OF 4(1)]] Suc.IH[OF 4(2)]])
  qed (use o deallocuvm_only_mem only_mem_refl only_mem_trans in blast)+
qed simp

lemma allocuvm_only_mem: "allocuvm pgdir b c s = Ok (r, s') \<Longrightarrow> only_mem s s'"
  by (auto simp: allocuvm_def only_mem_refl split: if_splits dest: allocuvm_loop_only_mem)

lemma setupkvm_loop_only_mem: "setupkvm_loop pgdir ks s = Ok (r, s') \<Longrightarrow> only_mem s s'"
proof (induction ks arbitrary: s)
  case (Cons k ks)
  obtain a b c d where k: "k = (a, b, c, d)" by (cases k) auto
  from Cons.prems obtain q s1 where m: "mappages pgdir a (c - b) b d s = Ok (q, s1)"
    and "freevm pgdir False s1 = Ok s' \<or> setupkvm_loop pgdir ks s1 = Ok (r, s')"
    by (auto simp: k res_iff split: if_splits)
  then show ?case using mappages_only_mem[OF m] freevm_only_mem Cons.IH only_mem_trans by blast
qed (simp add: only_mem_refl)

lemma setupkvm_only_mem: "setupkvm s = Ok (r, s') \<Longrightarrow> only_mem s s'"
proof -
  assume a: "setupkvm s = Ok (r, s')"
  obtain v s1 where w: "kalloc s = (v, s1)" by fastforce
  let ?s1 = "s1\<lparr>mem := page_fill v 0 (mem s1)\<rparr>"
  have o: "only_mem s s1" "only_mem s ?s1"
    using kalloc_only_mem[OF w] by (auto intro: only_mem_intros)
  from a w have "s' = s1 \<or> setupkvm_loop v (kmap ?s1) ?s1 = Ok (r, s')"
    by (auto simp: setupkvm_def Let_def split: if_splits)
  then show ?thesis using o setupkvm_loop_only_mem only_mem_trans by blast
qed

lemma copyuvm_loop_only_mem: "copyuvm_loop k pgdir d i sz s = Ok (r, s') \<Longrightarrow> only_mem s s'"
proof (induction k arbitrary: i s)
  case (Suc k)
  obtain pte s0 where w: "walkpgdir pgdir i False s = (pte, s0)" by fastforce
  obtain v s1 where ka: "kalloc s0 = (v, s1)" by fastforce
  let ?s1 = "s1\<lparr>mem := page_copy v (P2V (PTE_ADDR (mem s0 pte))) (mem s1)\<rparr>"
  have o: "only_mem s s0" "only_mem s s1" "only_mem s ?s1"
    using walkpgdir_only_mem[OF w] only_mem_trans[OF walkpgdir_only_mem[OF w] kalloc_only_mem[OF ka]]
    by (auto intro: only_mem_intros)
  from Suc.prems w ka consider "s' = s" | j where "copyuvm_loop k pgdir d j sz s0 = Ok (r, s')"
    | "freevm d True s1 = Ok s'"
    | f q s2 s3 where "mappages d i PGSIZE (V2P v) f ?s1 = Ok (q, s2)" "kfree v s2 = Ok s3"
        "freevm d True s3 = Ok s'"
    | f q s2 where "mappages d i PGSIZE (V2P v) f ?s1 = Ok (q, s2)"
        "copyuvm_loop k pgdir d (i + PGSIZE) sz s2 = Ok (r, s')"
    by (auto simp: Let_def res_iff split: if_splits)
  then show ?case
  proof cases
    case 4
    show ?thesis
      by (rule only_mem_trans[OF only_mem_trans[OF only_mem_trans[OF o(3) mappages_only_mem[OF 4(1)]]
              kfree_only_mem[OF 4(2)]] freevm_only_mem[OF 4(3)]])
  next
    case 5
    show ?thesis
      by (rule only_mem_trans[OF only_mem_trans[OF o(3) mappages_only_mem[OF 5(1)]] Suc.IH[OF 5(2)]])
  qed (use o freevm_only_mem Suc.IH only_mem_refl only_mem_trans in blast)+
qed simp

lemma copyuvm_only_mem: "copyuvm pgdir sz s = Ok (r, s') \<Longrightarrow> only_mem s s'"
proof -
  assume "copyuvm pgdir sz s = Ok (r, s')"
  then obtain d s1 where "setupkvm s = Ok (d, s1)"
    and "s' = s1 \<or> copyuvm_loop (2 ^ 20) pgdir d 0 sz s1 = Ok (r, s')"
    by (auto simp: copyuvm_def res_iff split: if_splits)
  then show ?thesis
    using only_mem_trans[OF setupkvm_only_mem copyuvm_loop_only_mem] setupkvm_only_mem by blast
qed

lemma inituvm_only_mem: "inituvm pgdir bs s = Ok s' \<Longrightarrow> only_mem s s'"
proof -
  assume a: "inituvm pgdir bs s = Ok s'"
  obtain v s1 where w: "kalloc s = (v, s1)" by fastforce
  let ?s1 = "s1\<lparr>mem := page_fill v 0 (mem s1)\<rparr>"
  have o: "only_mem s ?s1" using kalloc_only_mem[OF w] by (auto intro: only_mem_intros)
  from a w obtain q s2 where "mappages pgdir 0 PGSIZE (V2P v) (PTE_W OR PTE_U) ?s1 = Ok (q, s2)"
    and "s' = s2\<lparr>mem := store_bytes (mem s2) v bs\<rparr>"
    by (auto simp: inituvm_def Let_def res_iff split: if_splits)
  then show ?thesis using only_mem_trans[OF o mappages_only_mem] by (auto intro: only_mem_intros)
qed

end
