(* ===== verification/Proc_Table.thy ===== *)
theory Proc_Table
  imports Proc_Queue Vm_Frame
begin

text \<open>
  The operations on the process table of \<^verbatim>\<open>src/xv6/proc.c\<close> that run under \<^verbatim>\<open>ptable.lock\<close>, and
  \<^verbatim>\<open>allocproc\<close> and \<^verbatim>\<open>growproc\<close>. A critical section is one step; the processor that executes
  is the argument \<open>c\<close>. Entering the scheduler with \<^verbatim>\<open>swtch\<close> hands the processor back, so
  after \<^verbatim>\<open>sched\<close> the processor is on the kernel page table and has no process (the
  scheduler's \<^verbatim>\<open>switchkvm()\<close> and \<^verbatim>\<open>c->proc = 0\<close>). The checks of \<^verbatim>\<open>sched\<close> on the lock and the
  interrupt flag hold inside a critical section and are left to \<open>Spinlock\<close>.
  \<^verbatim>\<open>fork\<close> and \<^verbatim>\<open>exit\<close> appear here from the point where they take the lock.
\<close>

section \<open>Processors and the current process\<close>

definition mycpu :: "bool \<Rightarrow> u8 \<Rightarrow> 'a ptable_scheme \<Rightarrow> nat res" where
  "mycpu fl_if lapicid s =
     (if fl_if then Panic (''mycpu called with interrupts enabled'' @ [CHR 0x0A])
      else case find_first (\<lambda>i. c_apicid (cpus s i) = lapicid) (ncpu s) of
          Some i \<Rightarrow> Ok i
        | None \<Rightarrow> Panic (''unknown apicid'' @ [CHR 0x0A]))"

definition myproc :: "nat \<Rightarrow> 'a ptable_scheme \<Rightarrow> nat option" where
  "myproc c s = c_proc (cpus s c)"

definition upd_cpu :: "nat \<Rightarrow> (cpu \<Rightarrow> cpu) \<Rightarrow> 'a ptable_scheme \<Rightarrow> 'a ptable_scheme" where
  "upd_cpu c f s = s\<lparr>cpus := (cpus s)(c := f (cpus s c))\<rparr>"

definition set_cpu_proc :: "nat \<Rightarrow> nat option \<Rightarrow> 'a ptable_scheme \<Rightarrow> 'a ptable_scheme" where
  "set_cpu_proc c p s = upd_cpu c (\<lambda>x. x\<lparr>c_proc := p\<rparr>) s"

section \<open>Segments and the page table register\<close>

definition seginit :: "nat \<Rightarrow> 'a ptable_scheme \<Rightarrow> 'a ptable_scheme" where
  "seginit c s =
     upd_cpu c (\<lambda>x. x\<lparr>c_gdt := (c_gdt x)
       (SEG_KCODE := SEG (STA_X OR STA_R) 0 0xFFFFFFFF 0,
        SEG_KDATA := SEG STA_W 0 0xFFFFFFFF 0,
        SEG_UCODE := SEG (STA_X OR STA_R) 0 0xFFFFFFFF DPL_USER,
        SEG_UDATA := SEG STA_W 0 0xFFFFFFFF DPL_USER)\<rparr>) s"

definition switchkvm :: "nat \<Rightarrow> 'a ptable_scheme \<Rightarrow> 'a ptable_scheme" where
  "switchkvm c s = upd_cpu c (\<lambda>x. x\<lparr>c_cr3 := V2P (kpgdir s)\<rparr>) s"

definition kvmalloc :: "nat \<Rightarrow> 'a ptable_scheme \<Rightarrow> 'a ptable_scheme res" where
  "kvmalloc c s = bindR (setupkvm s) (\<lambda>(k, s). Ok (switchkvm c (s\<lparr>kpgdir := k\<rparr>)))"

text \<open>The task state segment is 104 bytes long.\<close>

definition switchuvm :: "nat \<Rightarrow> nat option \<Rightarrow> 'a ptable_scheme \<Rightarrow> 'a ptable_scheme res" where
  "switchuvm c p s =
     (case p of
        None \<Rightarrow> Panic ''switchuvm: no process''
      | Some p \<Rightarrow>
          if p_kstack (procs s p) = 0 then Panic ''switchuvm: no kstack''
          else if p_pgdir (procs s p) = 0 then Panic ''switchuvm: no pgdir''
          else Ok (upd_cpu c (\<lambda>x. x\<lparr>
                 c_gdt := (c_gdt x)(SEG_TSS := (SEG16 STS_T32A (c_ts_addr x) (104 - 1) 0)\<lparr>sd_s := 0\<rparr>),
                 c_ts_ss0 := of_nat (SEG_KDATA * 8),
                 c_ts_esp0 := p_kstack (procs s p) + KSTACKSIZE,
                 c_ts_iomb := 0xFFFF,
                 c_tr := of_nat (SEG_TSS * 8),
                 c_cr3 := V2P (p_pgdir (procs s p))\<rparr>) s))"

section \<open>Creating a process\<close>

text \<open>
  The initial kernel stack: the trap frame (19 words) at the top, below it the return
  address \<^verbatim>\<open>trapret\<close>, below it a zeroed context (5 words) whose \<^verbatim>\<open>eip\<close> is \<^verbatim>\<open>forkret\<close>.
\<close>

definition allocproc :: "'a ptable_scheme \<Rightarrow> nat option \<times> 'a ptable_scheme" where
  "allocproc s =
     (case find_first (\<lambda>p. p_state (procs s p) = UNUSED) NPROC of
        None \<Rightarrow> (None, s)
      | Some p \<Rightarrow>
          let s = (upd_proc p (\<lambda>q. q\<lparr>p_state := EMBRYO, p_pid := nextpid s\<rparr>) s)
                    \<lparr>nextpid := nextpid s + 1\<rparr>;
              (k, s) = kalloc s;
              s = upd_proc p (\<lambda>q. q\<lparr>p_kstack := k\<rparr>) s
          in if k = 0 then (None, upd_proc p (\<lambda>q. q\<lparr>p_state := UNUSED\<rparr>) s)
             else let sp = k + KSTACKSIZE - 76;
                      s = upd_proc p (\<lambda>q. q\<lparr>p_tf := sp\<rparr>) s;
                      sp = sp - 4;
                      s = s\<lparr>mem := (mem s)(sp := trapret s)\<rparr>;
                      sp = sp - 20;
                      s = upd_proc p (\<lambda>q. q\<lparr>p_context := sp\<rparr>) s
                  in (Some p, s\<lparr>mem := (mem s)(sp := 0, sp + 4 := 0, sp + 8 := 0, sp + 12 := 0,
                                               sp + 16 := forkret_addr s)\<rparr>))"

text \<open>\<^verbatim>\<open>p->state = RUNNABLE; enqueue(p);\<close>\<close>

definition make_runnable :: "nat \<Rightarrow> 'a ptable_scheme \<Rightarrow> 'a ptable_scheme res" where
  "make_runnable p s = enqueue p (upd_proc p (\<lambda>q. q\<lparr>p_state := RUNNABLE\<rparr>) s)"

text \<open>The end of \<^verbatim>\<open>fork\<close>: the child inherits the priority of its parent and is queued.\<close>

definition fork_commit :: "nat \<Rightarrow> 'a ptable_scheme \<Rightarrow> 'a ptable_scheme res" where
  "fork_commit np s =
     (case p_parent (procs s np) of
        None \<Rightarrow> Fault
      | Some q \<Rightarrow>
          let s = upd_proc np (\<lambda>x. x\<lparr>p_state := RUNNABLE\<rparr>) s;
              s = upd_proc np (\<lambda>x. x\<lparr>p_priority := p_priority (procs s q)\<rparr>) s
          in enqueue np s)"

text \<open>The end of \<^verbatim>\<open>userinit\<close>: the first process is queued with normal priority.\<close>

definition userinit_commit :: "nat \<Rightarrow> 'a ptable_scheme \<Rightarrow> 'a ptable_scheme res" where
  "userinit_commit p s =
     (let s = upd_proc p (\<lambda>q. q\<lparr>p_state := RUNNABLE\<rparr>) s
      in enqueue p (upd_proc p (\<lambda>q. q\<lparr>p_priority := NORM_PRIO, p_previous := None, p_next := None\<rparr>) s))"

text \<open>The failure branch of \<^verbatim>\<open>fork\<close> when the memory of the parent cannot be copied.\<close>

definition fork_abort :: "nat \<Rightarrow> 'a ptable_scheme \<Rightarrow> 'a ptable_scheme res" where
  "fork_abort np s =
     bindR (kfree (p_kstack (procs s np)) s) (\<lambda>s.
       Ok (upd_proc np (\<lambda>q. q\<lparr>p_kstack := 0, p_state := UNUSED\<rparr>) s))"

definition growproc :: "nat \<Rightarrow> u32 \<Rightarrow> 'a ptable_scheme \<Rightarrow> (int \<times> 'a ptable_scheme) res" where
  "growproc c n s =
     (case myproc c s of
        None \<Rightarrow> Fault
      | Some p \<Rightarrow>
          let sz = p_sz (procs s p); pgdir = p_pgdir (procs s p)
          in bindR (if sint n > 0
                    then bindR (allocuvm pgdir sz (sz + n) s) (\<lambda>(r, s). Ok (r = 0, r, s))
                    else if sint n < 0
                    then bindR (deallocuvm pgdir sz (sz + n) s) (\<lambda>(r, s). Ok (r = 0, r, s))
                    else Ok (False, sz, s)) (\<lambda>(failed, sz, s).
             if failed then Ok (-1, s)
             else Ok (0, upd_proc p (\<lambda>q. q\<lparr>p_sz := sz\<rparr>) s)))"

section \<open>Sleeping and waking\<close>

definition sched :: "nat \<Rightarrow> 'a ptable_scheme \<Rightarrow> 'a ptable_scheme res" where
  "sched c s =
     (case myproc c s of
        None \<Rightarrow> Fault
      | Some p \<Rightarrow>
          if p_state (procs s p) = RUNNING then Panic ''sched running''
          else Ok (set_cpu_proc c None (switchkvm c s)))"

definition yield :: "nat \<Rightarrow> 'a ptable_scheme \<Rightarrow> 'a ptable_scheme res" where
  "yield c s =
     (case myproc c s of
        None \<Rightarrow> Fault
      | Some p \<Rightarrow> bindR (make_runnable p s) (sched c))"

text \<open>\<^verbatim>\<open>sleep\<close> up to the switch, and what it does once the process runs again.\<close>

definition sleep :: "nat \<Rightarrow> chan \<Rightarrow> 'a ptable_scheme \<Rightarrow> 'a ptable_scheme res" where
  "sleep c ch s =
     (case myproc c s of
        None \<Rightarrow> Panic ''sleep''
      | Some p \<Rightarrow> sched c (upd_proc p (\<lambda>q. q\<lparr>p_chan := Some ch, p_state := SLEEPING\<rparr>) s))"

definition sleep_return :: "nat \<Rightarrow> 'a ptable_scheme \<Rightarrow> 'a ptable_scheme res" where
  "sleep_return c s =
     (case myproc c s of
        None \<Rightarrow> Fault
      | Some p \<Rightarrow> Ok (upd_proc p (\<lambda>q. q\<lparr>p_chan := None\<rparr>) s))"

definition wakeup_one :: "chan option \<Rightarrow> nat \<Rightarrow> 'a ptable_scheme \<Rightarrow> 'a ptable_scheme res" where
  "wakeup_one ch p s =
     (if p_state (procs s p) = SLEEPING \<and> p_chan (procs s p) = ch then make_runnable p s else Ok s)"

definition wakeup1 :: "chan option \<Rightarrow> 'a ptable_scheme \<Rightarrow> 'a ptable_scheme res" where
  "wakeup1 ch s = foldR (wakeup_one ch) [0..<NPROC] s"

definition wakeup :: "chan \<Rightarrow> 'a ptable_scheme \<Rightarrow> 'a ptable_scheme res" where
  "wakeup ch s = wakeup1 (Some ch) s"

section \<open>Signals and priorities\<close>

definition kill :: "u32 \<Rightarrow> 'a ptable_scheme \<Rightarrow> (int \<times> 'a ptable_scheme) res" where
  "kill pid s =
     (case find_first (\<lambda>p. p_pid (procs s p) = pid) NPROC of
        None \<Rightarrow> Ok (-1, s)
      | Some p \<Rightarrow>
          let s = upd_proc p (\<lambda>q. q\<lparr>p_killed := True\<rparr>) s
          in if p_state (procs s p) = SLEEPING
             then bindR (make_runnable p s) (\<lambda>s. Ok (0, s))
             else Ok (0, s))"

definition getprio :: "u32 \<Rightarrow> 'a ptable_scheme \<Rightarrow> u32" where
  "getprio pid s =
     (case find_first (\<lambda>p. p_pid (procs s p) = pid \<and> p_state (procs s p) \<noteq> UNUSED) NPROC of
        None \<Rightarrow> -1
      | Some p \<Rightarrow> p_priority (procs s p))"

definition setprio :: "u32 \<Rightarrow> u32 \<Rightarrow> 'a ptable_scheme \<Rightarrow> (int \<times> 'a ptable_scheme) res" where
  "setprio pid prio s =
     (if prio \<noteq> HI_PRIO \<and> prio \<noteq> NORM_PRIO then Ok (-1, s)
      else case find_first (\<lambda>p. p_pid (procs s p) = pid \<and> p_state (procs s p) \<noteq> UNUSED) NPROC of
          None \<Rightarrow> Ok (-1, s)
        | Some p \<Rightarrow>
            if p_priority (procs s p) \<noteq> prio
            then if p_state (procs s p) = RUNNABLE
                 then bindR (dequeue p s) (\<lambda>s.
                      bindR (enqueue p (upd_proc p (\<lambda>q. q\<lparr>p_priority := prio\<rparr>) s)) (\<lambda>s.
                      Ok (0, s)))
                 else Ok (0, upd_proc p (\<lambda>q. q\<lparr>p_priority := prio\<rparr>) s)
            else Ok (0, s))"

section \<open>Ending and reaping\<close>

definition reparent_one :: "nat \<Rightarrow> nat \<Rightarrow> 'a ptable_scheme \<Rightarrow> 'a ptable_scheme res" where
  "reparent_one curproc p s =
     (if p_parent (procs s p) = Some curproc
      then let s = upd_proc p (\<lambda>q. q\<lparr>p_parent := initproc s\<rparr>) s
           in if p_state (procs s p) = ZOMBIE
              then wakeup1 (map_option ChanProc (initproc s)) s
              else Ok s
      else Ok s)"

text \<open>The end of \<^verbatim>\<open>exit\<close>, after the open files and the current directory have been released.\<close>

definition exit_locked :: "nat \<Rightarrow> u32 \<Rightarrow> 'a ptable_scheme \<Rightarrow> 'a ptable_scheme res" where
  "exit_locked c status s =
     (case myproc c s of
        None \<Rightarrow> Fault
      | Some p \<Rightarrow>
          bindR (wakeup1 (map_option ChanProc (p_parent (procs s p))) s) (\<lambda>s.
          bindR (foldR (reparent_one p) [0..<NPROC] s) (\<lambda>s.
          bindR (deallocuvm (p_pgdir (procs s p)) KERNBASE 0 s) (\<lambda>(_, s).
          sched c (upd_proc p (\<lambda>q. q\<lparr>p_state := ZOMBIE, p_status := status\<rparr>) s)))))"

text \<open>
  One scan of \<^verbatim>\<open>wait\<close>. The result is the pid and, when the caller passed a pointer for it,
  the exit status; \<open>Sleeps\<close> stands for the call of \<^verbatim>\<open>sleep\<close> after which the scan is
  repeated.
\<close>

definition reap :: "nat \<Rightarrow> bool \<Rightarrow> 'a ptable_scheme \<Rightarrow> (u32 \<times> u32 option \<times> 'a ptable_scheme) res" where
  "reap p want s =
     (let pid = p_pid (procs s p)
      in bindR (kfree (p_kstack (procs s p)) s) (\<lambda>s.
         let s = upd_proc p (\<lambda>q. q\<lparr>p_kstack := 0\<rparr>) s
         in bindR (freevm (p_pgdir (procs s p)) False s) (\<lambda>s.
            let s = upd_proc p (\<lambda>q. q\<lparr>p_pid := 0, p_parent := None, p_name := (p_name q)[0 := 0],
                                     p_killed := False, p_state := UNUSED, p_priority := 0,
                                     p_next := None, p_previous := None\<rparr>) s
            in Ok (pid, if want then Some (p_status (procs s p)) else None, s))))"

definition wait :: "nat \<Rightarrow> bool \<Rightarrow> 'a ptable_scheme \<Rightarrow> (u32 \<times> u32 option \<times> 'a ptable_scheme) res" where
  "wait c want s =
     (case myproc c s of
        None \<Rightarrow> Fault
      | Some curproc \<Rightarrow>
          (case find_first (\<lambda>p. p_parent (procs s p) = Some curproc \<and> p_state (procs s p) = ZOMBIE) NPROC of
             Some p \<Rightarrow> reap p want s
           | None \<Rightarrow>
               if find_first (\<lambda>p. p_parent (procs s p) = Some curproc) NPROC = None
                  \<or> p_killed (procs s curproc)
               then Ok (-1, None, s)
               else Sleeps (ChanProc curproc)))"

section \<open>The scheduler\<close>

text \<open>One iteration of the loop of \<^verbatim>\<open>scheduler\<close>, up to the switch to the chosen process.\<close>

definition scheduler_pick :: "'a ptable_scheme \<Rightarrow> nat option" where
  "scheduler_pick s = (case queue s HI_PRIO of None \<Rightarrow> queue s NORM_PRIO | Some p \<Rightarrow> Some p)"

definition scheduler :: "nat \<Rightarrow> 'a ptable_scheme \<Rightarrow> 'a ptable_scheme res" where
  "scheduler c s =
     (case scheduler_pick s of
        None \<Rightarrow> Ok s
      | Some p \<Rightarrow>
          bindR (switchuvm c (Some p) (set_cpu_proc c (Some p) s)) (\<lambda>s.
          dequeue p (upd_proc p (\<lambda>q. q\<lparr>p_state := RUNNING\<rparr>) s)))"

end
