(* ===== verification/Vm.thy ===== *)
theory Vm
  imports Vm_Defs
begin

text \<open>
  Correctness of \<^verbatim>\<open>src/xv6/vm.c\<close>. A page table is abstracted to the function
  \<open>pte_of m pgdir\<close> from virtual addresses to entries. The invariant \<open>pgtable\<close> says that
  the directory and its tables are distinct pages of the allocator that are not free;
  \<open>uvm\<close> adds the same for the pages mapped in the user half. Every operation is described
  by the entries it changes and the pages it takes from and gives back to the free list.
\<close>

section \<open>Slots of a page\<close>

lemma slot_unat:
  assumes "page_aligned v" and "unat i < 1024"
  shows "unat (v + 4 * i :: u32) = unat v + 4 * unat i"
proof -
  have i: "unat (4 * i) = 4 * unat i"
    using assms(2) by (subst unat_mult_lem[THEN iffD1]) simp_all
  obtain q where q: "unat v = 4096 * q" using assms(1) by (auto simp: page_aligned_unat_dvd dvd_def)
  then have "q < 1048576" using u32_bound[of v] by simp
  then have "unat v + 4 * unat i < 2 ^ 32" using assms(2) q by simp
  then show ?thesis using i by (subst unat_add_lem[THEN iffD1]) simp_all
qed

lemma slot_page [simp]:
  assumes "page_aligned v" and "unat i < 1024"
  shows "PGROUNDDOWN (v + 4 * i) = v"
proof (rule unsigned_word_eqI)
  obtain q where q: "unat v = 4096 * q" using assms(1) by (auto simp: page_aligned_unat_dvd dvd_def)
  have "(4096 * q + 4 * unat i) div 4096 = q" using assms(2) by simp
  then show "unat (PGROUNDDOWN (v + 4 * i)) = unat v"
    by (simp add: unat_PGROUNDDOWN slot_unat[OF assms] q)
qed

lemma slot_inj [simp]:
  assumes "page_aligned v" and "unat i < 1024" and "unat j < 1024"
  shows "v + 4 * i = v + 4 * j \<longleftrightarrow> i = j"
proof
  assume "v + 4 * i = v + 4 * j"
  then have "unat v + 4 * unat i = unat v + 4 * unat j"
    using assms by (metis slot_unat)
  then show "i = j" by (metis add_left_cancel mult_left_cancel unsigned_word_eqI zero_neq_numeral)
qed simp

lemma quad_inj [simp]:
  assumes "unat i < 1024" and "unat j < 1024"
  shows "4 * i = (4 * j :: u32) \<longleftrightarrow> i = j"
  using slot_inj[OF page_aligned_consts(3) assms] by simp

lemma slot_nonzero:
  assumes "valid_page s v" and "unat i < 1024"
  shows "v + 4 * i \<noteq> 0"
proof
  assume z: "v + 4 * i = 0"
  have "page_aligned v" using assms(1) by (simp add: valid_page_def)
  with assms(2) have "PGROUNDDOWN (v + 4 * i) = v" by simp
  with z have "v = 0" by (simp add: PGROUNDDOWN_def)
  with valid_page_nonzero[OF assms(1)] show False by simp
qed

lemma slot_other_page:
  assumes "page_aligned v" and "unat i < 1024" and "PGROUNDDOWN a \<noteq> v"
  shows "a \<noteq> v + 4 * i"
  using assms by auto

lemma same_page_iff:
  "PGROUNDDOWN a = PGROUNDDOWN b \<longleftrightarrow> PDX a = PDX b \<and> PTX a = PTX b"
  by (metis aligned_indices_eq indices_PGROUNDDOWN page_aligned_PGROUNDDOWN)

lemma valid_page_aligned: "valid_page s v \<Longrightarrow> page_aligned v"
  by (simp add: valid_page_def)

section \<open>The abstraction\<close>

definition present :: "u32 \<Rightarrow> bool" where
  "present e \<longleftrightarrow> e AND PTE_P \<noteq> 0"

definition pde_of :: "(u32 \<Rightarrow> u32) \<Rightarrow> u32 \<Rightarrow> u32 \<Rightarrow> u32" where
  "pde_of m pgdir va = m (pgdir + 4 * PDX va)"

definition pgtab_of :: "(u32 \<Rightarrow> u32) \<Rightarrow> u32 \<Rightarrow> u32 \<Rightarrow> u32" where
  "pgtab_of m pgdir va = P2V (PTE_ADDR (pde_of m pgdir va))"

definition pte_of :: "(u32 \<Rightarrow> u32) \<Rightarrow> u32 \<Rightarrow> u32 \<Rightarrow> u32" where
  "pte_of m pgdir va =
     (if present (pde_of m pgdir va) then m (pgtab_of m pgdir va + 4 * PTX va) else 0)"

definition pgtable :: "'a kmem_scheme \<Rightarrow> u32 \<Rightarrow> u32 list \<Rightarrow> bool" where
  "pgtable s pgdir xs \<longleftrightarrow>
     free_pages s xs \<and> valid_page s pgdir \<and> pgdir \<notin> set xs \<and>
     (\<forall>va. present (pde_of (mem s) pgdir va) \<longrightarrow>
        valid_page s (pgtab_of (mem s) pgdir va) \<and> pgtab_of (mem s) pgdir va \<noteq> pgdir \<and>
        pgtab_of (mem s) pgdir va \<notin> set xs) \<and>
     (\<forall>va vb. present (pde_of (mem s) pgdir va) \<longrightarrow> present (pde_of (mem s) pgdir vb) \<longrightarrow>
        pgtab_of (mem s) pgdir va = pgtab_of (mem s) pgdir vb \<longrightarrow> PDX va = PDX vb)"

lemma present_alt: "present e \<longleftrightarrow> bit e 0"
  by (simp add: present_def PTE_P_def and_one_eq mod_2_eq_odd bit_0)

lemma present_simps [simp]: "\<not> present 0" "present (a OR PTE_P)" "present (a OR PTE_P OR b)"
  by (simp_all add: present_alt bit_simps PTE_P_def)

lemma pde_cong: "PDX va = PDX vb \<Longrightarrow> pde_of m pgdir va = pde_of m pgdir vb"
  by (simp add: pde_of_def)

lemma pgtab_cong: "PDX va = PDX vb \<Longrightarrow> pgtab_of m pgdir va = pgtab_of m pgdir vb"
  by (simp add: pgtab_of_def pde_of_def)

lemma pte_of_PGROUNDDOWN [simp]: "pte_of m pgdir (PGROUNDDOWN va) = pte_of m pgdir va"
  by (simp add: pte_of_def pgtab_of_def pde_of_def)

lemma pgtable_dir:
  assumes "pgtable s pgdir xs"
  shows "free_pages s xs" and "valid_page s pgdir" and "pgdir \<notin> set xs"
  using assms unfolding pgtable_def by blast+

lemma pgtable_aligned: "pgtable s pgdir xs \<Longrightarrow> page_aligned pgdir"
  by (rule valid_page_aligned[OF pgtable_dir(2)])

lemma pgtable_tab:
  assumes "pgtable s pgdir xs" and "present (pde_of (mem s) pgdir va)"
  shows "valid_page s (pgtab_of (mem s) pgdir va)" and "pgtab_of (mem s) pgdir va \<noteq> pgdir"
    and "pgtab_of (mem s) pgdir va \<notin> set xs"
  using assms unfolding pgtable_def by blast+

lemma pgtable_inj:
  "pgtable s pgdir xs \<Longrightarrow> present (pde_of (mem s) pgdir va) \<Longrightarrow> present (pde_of (mem s) pgdir vb)
   \<Longrightarrow> pgtab_of (mem s) pgdir va = pgtab_of (mem s) pgdir vb \<Longrightarrow> PDX va = PDX vb"
  unfolding pgtable_def by blast

text \<open>A page table depends only on the contents of its own pages.\<close>

definition table_page :: "(u32 \<Rightarrow> u32) \<Rightarrow> u32 \<Rightarrow> u32 \<Rightarrow> bool" where
  "table_page m pgdir p \<longleftrightarrow>
     p = pgdir \<or> (\<exists>va. present (pde_of m pgdir va) \<and> p = pgtab_of m pgdir va)"

lemma table_frame:
  assumes al: "page_aligned pgdir"
    and tabs: "\<And>va. present (pde_of m pgdir va) \<Longrightarrow> page_aligned (pgtab_of m pgdir va)"
    and eq: "\<And>a. table_page m pgdir (PGROUNDDOWN a) \<Longrightarrow> m' a = m a"
  shows "pde_of m' pgdir = pde_of m pgdir" and "pgtab_of m' pgdir = pgtab_of m pgdir"
    and "pte_of m' pgdir = pte_of m pgdir" and "table_page m' pgdir = table_page m pgdir"
proof -
  show pde: "pde_of m' pgdir = pde_of m pgdir"
  proof (rule ext)
    fix va
    have "table_page m pgdir (PGROUNDDOWN (pgdir + 4 * PDX va))"
      using al PDX_less[of va] by (simp add: table_page_def)
    from eq[OF this] show "pde_of m' pgdir va = pde_of m pgdir va" by (simp add: pde_of_def)
  qed
  then show tab: "pgtab_of m' pgdir = pgtab_of m pgdir"
    by (simp add: pgtab_of_def fun_eq_iff)
  show "pte_of m' pgdir = pte_of m pgdir"
  proof (rule ext)
    fix va
    have "m' (pgtab_of m pgdir va + 4 * PTX va) = m (pgtab_of m pgdir va + 4 * PTX va)"
      if p: "present (pde_of m pgdir va)"
    proof -
      have "table_page m pgdir (PGROUNDDOWN (pgtab_of m pgdir va + 4 * PTX va))"
        using tabs[OF p] PTX_less[of va] p by (auto simp: table_page_def)
      then show ?thesis by (rule eq)
    qed
    then show "pte_of m' pgdir va = pte_of m pgdir va" by (simp add: pte_of_def pde tab)
  qed
  show "table_page m' pgdir = table_page m pgdir"
    by (simp add: table_page_def fun_eq_iff pde tab)
qed

lemma pgtable_frame:
  assumes pt: "pgtable s pgdir xs" and f: "free_pages s' ys" and k: "kend s' = kend s"
    and eq: "\<And>a. table_page (mem s) pgdir (PGROUNDDOWN a) \<Longrightarrow> mem s' a = mem s a"
    and new: "\<And>y. y \<in> set ys \<Longrightarrow> \<not> table_page (mem s) pgdir y"
  shows "pgtable s' pgdir ys" and "pte_of (mem s') pgdir = pte_of (mem s) pgdir"
    and "pgtab_of (mem s') pgdir = pgtab_of (mem s) pgdir"
    and "pde_of (mem s') pgdir = pde_of (mem s) pgdir"
    and "table_page (mem s') pgdir = table_page (mem s) pgdir"
proof -
  have tabs: "page_aligned (pgtab_of (mem s) pgdir va)" if "present (pde_of (mem s) pgdir va)" for va
    using pgtable_tab(1)[OF pt that] by (rule valid_page_aligned)
  note fr = table_frame[of pgdir "mem s" "mem s'", OF pgtable_aligned[OF pt]]
  show "pte_of (mem s') pgdir = pte_of (mem s) pgdir" using tabs eq by (rule fr(3))
  show "table_page (mem s') pgdir = table_page (mem s) pgdir" using tabs eq by (rule fr(4))
  show tb: "pgtab_of (mem s') pgdir = pgtab_of (mem s) pgdir" using tabs eq by (rule fr(2))
  show pd: "pde_of (mem s') pgdir = pde_of (mem s) pgdir" using tabs eq by (rule fr(1))
  have v: "valid_page s' = valid_page s" by (rule valid_page_cong[OF k])
  have n: "pgdir \<notin> set ys" "\<And>va. present (pde_of (mem s) pgdir va) \<Longrightarrow> pgtab_of (mem s) pgdir va \<notin> set ys"
    using new by (auto simp: table_page_def)
  show "pgtable s' pgdir ys"
    using pt f n unfolding pgtable_def pd tb v by blast
qed

section \<open>Walking\<close>

text \<open>
  \<open>pt_grow pgdir s ys s'\<close>: the page table of \<open>s'\<close> has the pages of the one of \<open>s\<close> and the
  pages \<open>ys\<close>; no other page and no other field of the state was written.
\<close>

definition pt_grow :: "u32 \<Rightarrow> 'a kmem_scheme \<Rightarrow> u32 list \<Rightarrow> 'a kmem_scheme \<Rightarrow> bool" where
  "pt_grow pgdir s ys s' \<longleftrightarrow>
     (\<forall>p. table_page (mem s') pgdir p \<longleftrightarrow> table_page (mem s) pgdir p \<or> p \<in> set ys) \<and>
     (\<forall>a. \<not> table_page (mem s') pgdir (PGROUNDDOWN a) \<longrightarrow> mem s' a = mem s a) \<and>
     s' = s\<lparr>mem := mem s', freelist := freelist s'\<rparr>"

lemma pt_grow_refl: "pt_grow pgdir s [] s"
  by (simp add: pt_grow_def)

lemma pt_grow_fields: "pt_grow pgdir s ys s' \<Longrightarrow> kend s' = kend s"
  unfolding pt_grow_def by (metis kmem.ext_inject kmem.surjective kmem.update_convs(1,2))

lemma pt_grow_trans:
  assumes "pt_grow pgdir s ys s1" and "pt_grow pgdir s1 zs s2"
  shows "pt_grow pgdir s (ys @ zs) s2"
proof -
  have "s2 = s\<lparr>mem := mem s2, freelist := freelist s2\<rparr>"
    using assms unfolding pt_grow_def
    by (metis kmem.surjective kmem.update_convs(1,2) kmem.ext_inject)
  then show ?thesis using assms unfolding pt_grow_def by simp
qed

lemma walk_hit:
  "present (pde_of (mem s) pgdir va) \<Longrightarrow>
   walkpgdir pgdir va alloc s = (pgtab_of (mem s) pgdir va + 4 * PTX va, s)"
  by (simp add: walkpgdir_def present_def pgtab_of_def pde_of_def)

lemma walk_absent:
  "\<not> present (pde_of (mem s) pgdir va) \<Longrightarrow> walkpgdir pgdir va False s = (0, s)"
  by (simp add: walkpgdir_def present_def pde_of_def)

lemma walk_empty:
  "free_pages s [] \<Longrightarrow> \<not> present (pde_of (mem s) pgdir va) \<Longrightarrow> walkpgdir pgdir va True s = (0, s)"
  by (simp add: walkpgdir_def present_def pde_of_def free_pages_def kalloc_def)

lemma pde_new:
  assumes "page_aligned x"
  shows "present (V2P x OR PTE_P OR PTE_W OR PTE_U)"
    and "P2V (PTE_ADDR (V2P x OR PTE_P OR PTE_W OR PTE_U)) = x"
proof -
  show "present (V2P x OR PTE_P OR PTE_W OR PTE_U)" by simp
  have "unat (PTE_P OR PTE_W OR PTE_U) < 4096" by (simp add: PTE_P_def PTE_W_def PTE_U_def)
  then show "P2V (PTE_ADDR (V2P x OR PTE_P OR PTE_W OR PTE_U)) = x"
    using pte_parts(1)[of "V2P x" "PTE_P OR PTE_W OR PTE_U"] assms by simp
qed

lemma walk_grow_state:
  fixes s :: "'a kmem_scheme"
  assumes pt: "pgtable s pgdir (x # xs)" and ab: "\<not> present (pde_of (mem s) pgdir va)"
  defines "m' \<equiv> (page_fill x 0 (mem s))(pgdir + 4 * PDX va := V2P x OR PTE_P OR PTE_W OR PTE_U)"
  shows "walkpgdir pgdir va True s = (x + 4 * PTX va, s\<lparr>freelist := mem s x, mem := m'\<rparr>)"
    and "pde_of m' pgdir vb =
           (if PDX vb = PDX va then V2P x OR PTE_P OR PTE_W OR PTE_U else pde_of (mem s) pgdir vb)"
    and "pte_of m' pgdir vb = pte_of (mem s) pgdir vb"
    and "PGROUNDDOWN a \<noteq> pgdir \<Longrightarrow> PGROUNDDOWN a \<noteq> x \<Longrightarrow> m' a = mem s a"
proof -
  note f = pgtable_dir(1)[OF pt]
  have vx: "valid_page s x" and x0: "x \<noteq> 0" and x: "page_aligned x"
    using f by (auto simp: free_pages_def valid_page_def)
  have xd: "x \<noteq> pgdir" using pgtable_dir(3)[OF pt] by auto
  note d = pgtable_aligned[OF pt]
  show "walkpgdir pgdir va True s = (x + 4 * PTX va, s\<lparr>freelist := mem s x, mem := m'\<rparr>)"
    using ab kalloc_ok(1)[OF f] x0 by (simp add: walkpgdir_def present_def pde_of_def m'_def Let_def)
  show pde: "pde_of m' pgdir vb =
      (if PDX vb = PDX va then V2P x OR PTE_P OR PTE_W OR PTE_U else pde_of (mem s) pgdir vb)" for vb
    using d xd PDX_less[of va] PDX_less[of vb]
    by (simp add: pde_of_def m'_def page_fill_other)
  show other: "m' a = mem s a" if "PGROUNDDOWN a \<noteq> pgdir" "PGROUNDDOWN a \<noteq> x" for a
    using that slot_other_page[OF d PDX_less] by (simp add: m'_def page_fill_other)
  show "pte_of m' pgdir vb = pte_of (mem s) pgdir vb"
  proof (cases "PDX vb = PDX va")
    case True
    then have "\<not> present (pde_of (mem s) pgdir vb)" using ab by (simp add: pde_of_def)
    moreover have "pgtab_of m' pgdir vb = x"
      using True pde_new(2)[OF x] by (simp add: pgtab_of_def pde)
    moreover have "m' (x + 4 * PTX vb) = 0"
      using x xd PTX_less[of vb] slot_other_page[OF d PDX_less, of "x + 4 * PTX vb" va]
      by (simp add: m'_def page_fill_same)
    ultimately show ?thesis by (simp add: pte_of_def)
  next
    case False
    then have e: "pde_of m' pgdir vb = pde_of (mem s) pgdir vb" by (simp add: pde)
    then have t: "pgtab_of m' pgdir vb = pgtab_of (mem s) pgdir vb" by (simp add: pgtab_of_def)
    have "m' (pgtab_of (mem s) pgdir vb + 4 * PTX vb) = mem s (pgtab_of (mem s) pgdir vb + 4 * PTX vb)"
      if p: "present (pde_of (mem s) pgdir vb)"
    proof (rule other)
      note tb = pgtable_tab[OF pt p]
      have "PGROUNDDOWN (pgtab_of (mem s) pgdir vb + 4 * PTX vb) = pgtab_of (mem s) pgdir vb"
        using valid_page_aligned[OF tb(1)] PTX_less by (rule slot_page)
      then show "PGROUNDDOWN (pgtab_of (mem s) pgdir vb + 4 * PTX vb) \<noteq> pgdir"
        "PGROUNDDOWN (pgtab_of (mem s) pgdir vb + 4 * PTX vb) \<noteq> x" using tb by auto
    qed
    then show ?thesis by (simp add: pte_of_def e t)
  qed
qed

lemma walk_grow:
  assumes pt: "pgtable s pgdir (x # xs)" and ab: "\<not> present (pde_of (mem s) pgdir va)"
  shows "\<exists>s'. walkpgdir pgdir va True s = (x + 4 * PTX va, s') \<and> pgtable s' pgdir xs \<and>
           present (pde_of (mem s') pgdir va) \<and> pgtab_of (mem s') pgdir va = x \<and>
           pte_of (mem s') pgdir = pte_of (mem s) pgdir \<and> pt_grow pgdir s [x] s'"
proof -
  define m' where
    "m' = (page_fill x 0 (mem s))(pgdir + 4 * PDX va := V2P x OR PTE_P OR PTE_W OR PTE_U)"
  define s' where "s' = s\<lparr>freelist := mem s x, mem := m'\<rparr>"
  note W = walk_grow_state[OF pt ab, folded m'_def, folded s'_def]
  note f = pgtable_dir(1)[OF pt]
  have x: "page_aligned x" and vx: "valid_page s x" and xs: "x \<notin> set xs"
    using f by (auto simp: free_pages_def valid_page_def)
  have xd: "x \<noteq> pgdir" using pgtable_dir(3)[OF pt] by auto
  have mem': "mem s' = m'" by (simp add: s'_def)
  have tab: "pgtab_of m' pgdir vb = (if PDX vb = PDX va then x else pgtab_of (mem s) pgdir vb)" for vb
    using pde_new(2)[OF x] by (simp add: pgtab_of_def W(2))
  have pres: "present (pde_of m' pgdir vb) \<longleftrightarrow> PDX vb = PDX va \<or> present (pde_of (mem s) pgdir vb)" for vb
    using pde_new(1)[OF x] by (simp add: W(2))
  have tp: "table_page m' pgdir p \<longleftrightarrow> table_page (mem s) pgdir p \<or> p = x" for p
  proof -
    have "(\<exists>vb. present (pde_of m' pgdir vb) \<and> p = pgtab_of m' pgdir vb) \<longleftrightarrow>
          p = x \<or> (\<exists>vb. present (pde_of (mem s) pgdir vb) \<and> p = pgtab_of (mem s) pgdir vb)"
      unfolding tab pres using ab pde_cong[of _ va "mem s" pgdir] by metis
    then show ?thesis unfolding table_page_def by blast
  qed
  have free: "free_pages s' xs"
  proof (rule free_pages_frame[OF kalloc_ok(2)[OF f]])
    fix y assume y: "y \<in> set xs"
    then have "page_aligned y" using f by (auto simp: free_pages_def valid_page_def)
    then have "PGROUNDDOWN y = y" by (rule PGROUNDDOWN_aligned)
    moreover have "y \<noteq> pgdir" "y \<noteq> x" using y xs pgtable_dir(3)[OF pt] by auto
    ultimately show "mem s' y = mem (s\<lparr>freelist := mem s x\<rparr>) y" using W(4) by (simp add: mem')
  qed (simp_all add: s'_def)
  have v: "valid_page s' = valid_page s" by (rule valid_page_cong) (simp add: s'_def)
  have "pgtable s' pgdir xs"
    unfolding pgtable_def mem' v
  proof (intro conjI allI impI)
    show "pgdir \<notin> set xs" using pgtable_dir(3)[OF pt] by simp
  next
    fix vb assume p: "present (pde_of m' pgdir vb)"
    have "PDX vb \<noteq> PDX va \<Longrightarrow> present (pde_of (mem s) pgdir vb)" using p pres by blast
    note tb = pgtable_tab[OF pt this]
    show "valid_page s (pgtab_of m' pgdir vb)" "pgtab_of m' pgdir vb \<noteq> pgdir"
      "pgtab_of m' pgdir vb \<notin> set xs" using tb vx xd xs by (auto simp: tab)
  next
    fix vb vc
    assume "present (pde_of m' pgdir vb)" "present (pde_of m' pgdir vc)"
      and eq: "pgtab_of m' pgdir vb = pgtab_of m' pgdir vc"
    then have p: "PDX vb = PDX va \<or> present (pde_of (mem s) pgdir vb)"
      "PDX vc = PDX va \<or> present (pde_of (mem s) pgdir vc)" by (simp_all add: pres)
    then show "PDX vb = PDX vc"
      using eq pgtable_inj[OF pt, of vb vc] pgtable_tab(3)[OF pt, of vb] pgtable_tab(3)[OF pt, of vc]
      by (auto simp: tab split: if_splits)
  qed (use free pgtable_dir(2)[OF pt] in simp_all)
  moreover have "pt_grow pgdir s [x] s'"
    unfolding pt_grow_def mem' tp
  proof (intro conjI allI impI)
    fix a assume "\<not> (table_page (mem s) pgdir (PGROUNDDOWN a) \<or> PGROUNDDOWN a = x)"
    then have "PGROUNDDOWN a \<noteq> pgdir" "PGROUNDDOWN a \<noteq> x" by (auto simp: table_page_def)
    then show "m' a = mem s a" by (rule W(4))
  qed (auto simp: s'_def)
  ultimately show ?thesis
    using W(1,3) pde_new(1)[OF x] by (intro exI[of _ s']) (auto simp: mem' tab pres fun_eq_iff)
qed

text \<open>Every call of \<^verbatim>\<open>walkpgdir\<close> that may allocate.\<close>

lemma walk_alloc:
  assumes pt: "pgtable s pgdir xs"
  shows "(walkpgdir pgdir va True s = (0, s) \<and> xs = []) \<or>
         (\<exists>s' ys zs. walkpgdir pgdir va True s = (pgtab_of (mem s') pgdir va + 4 * PTX va, s') \<and>
            xs = ys @ zs \<and> pgtable s' pgdir zs \<and> present (pde_of (mem s') pgdir va) \<and>
            pte_of (mem s') pgdir = pte_of (mem s) pgdir \<and> pt_grow pgdir s ys s')"
proof (cases "present (pde_of (mem s) pgdir va)")
  case True
  then show ?thesis using walk_hit[OF True, of True] pt pt_grow_refl[of pgdir s] by force
next
  case False
  show ?thesis
  proof (cases xs)
    case Nil
    then show ?thesis using walk_empty[OF _ False] pgtable_dir(1)[OF pt] by simp
  next
    case (Cons x zs)
    from walk_grow[OF pt[unfolded Cons] False] obtain s' where
      "walkpgdir pgdir va True s = (x + 4 * PTX va, s')" "pgtable s' pgdir zs"
      "present (pde_of (mem s') pgdir va)" "pgtab_of (mem s') pgdir va = x"
      "pte_of (mem s') pgdir = pte_of (mem s) pgdir" "pt_grow pgdir s [x] s'" by blast
    then show ?thesis using Cons
      by (intro disjI2 exI[of _ s'] exI[of _ "[x]"] exI[of _ zs]) simp
  qed
qed

section \<open>Writing an entry\<close>

lemma set_pte:
  fixes w :: u32
  assumes pt: "pgtable s pgdir xs" and p: "present (pde_of (mem s) pgdir va)"
  defines "s' \<equiv> s\<lparr>mem := (mem s)(pgtab_of (mem s) pgdir va + 4 * PTX va := w)\<rparr>"
  shows "pgtable s' pgdir xs"
    and "pte_of (mem s') pgdir =
           (\<lambda>vb. if PGROUNDDOWN vb = PGROUNDDOWN va then w else pte_of (mem s) pgdir vb)"
    and "pde_of (mem s') pgdir = pde_of (mem s) pgdir"
    and "pt_grow pgdir s [] s'"
proof -
  let ?t = "pgtab_of (mem s) pgdir va"
  note tb = pgtable_tab[OF pt p]
  note ta = valid_page_aligned[OF tb(1)] and d = pgtable_aligned[OF pt]
  have mem': "mem s' = (mem s)(?t + 4 * PTX va := w)" by (simp add: s'_def)
  have other: "mem s' a = mem s a" if "PGROUNDDOWN a \<noteq> ?t" for a
    using that slot_other_page[OF ta PTX_less] by (simp add: mem')
  show pde: "pde_of (mem s') pgdir = pde_of (mem s) pgdir"
  proof (rule ext)
    fix vb show "pde_of (mem s') pgdir vb = pde_of (mem s) pgdir vb"
      unfolding pde_of_def using d PDX_less[of vb] tb(2) by (intro other) simp
  qed
  then have tab: "pgtab_of (mem s') pgdir = pgtab_of (mem s) pgdir"
    by (simp add: pgtab_of_def fun_eq_iff)
  show "pte_of (mem s') pgdir =
      (\<lambda>vb. if PGROUNDDOWN vb = PGROUNDDOWN va then w else pte_of (mem s) pgdir vb)"
  proof (rule ext)
    fix vb
    show "pte_of (mem s') pgdir vb =
        (if PGROUNDDOWN vb = PGROUNDDOWN va then w else pte_of (mem s) pgdir vb)"
    proof (cases "present (pde_of (mem s) pgdir vb) \<and> pgtab_of (mem s) pgdir vb = ?t")
      case True
      then have dx: "PDX vb = PDX va" using pgtable_inj[OF pt _ p] by blast
      have "mem s' (?t + 4 * PTX vb) = (if PTX vb = PTX va then w else mem s (?t + 4 * PTX vb))"
        using PTX_less[of va] PTX_less[of vb] by (simp add: mem')
      then show ?thesis using True dx by (simp add: pte_of_def pde tab same_page_iff)
    next
      case False
      then have n: "PGROUNDDOWN vb \<noteq> PGROUNDDOWN va"
        using p pde_cong[of vb va] pgtab_cong[of vb va] by (metis same_page_iff)
      have "mem s' (pgtab_of (mem s) pgdir vb + 4 * PTX vb) = mem s (pgtab_of (mem s) pgdir vb + 4 * PTX vb)"
        if q: "present (pde_of (mem s) pgdir vb)"
      proof (rule other)
        show "PGROUNDDOWN (pgtab_of (mem s) pgdir vb + 4 * PTX vb) \<noteq> ?t"
          using slot_page[OF valid_page_aligned[OF pgtable_tab(1)[OF pt q]] PTX_less] False q by simp
      qed
      then show ?thesis using n by (simp add: pte_of_def pde tab)
    qed
  qed
  have v: "valid_page s' = valid_page s" by (rule valid_page_cong) (simp add: s'_def)
  have free: "free_pages s' xs"
  proof (rule free_pages_frame[OF pgtable_dir(1)[OF pt]])
    fix y assume y: "y \<in> set xs"
    then have "page_aligned y" using pgtable_dir(1)[OF pt] by (auto simp: free_pages_def valid_page_def)
    then show "mem s' y = mem s y" using tb(3) y PGROUNDDOWN_aligned[of y] by (intro other) auto
  qed (simp_all add: s'_def)
  then show "pgtable s' pgdir xs"
    using pt unfolding pgtable_def pde tab v by blast
  show "pt_grow pgdir s [] s'"
    unfolding pt_grow_def
  proof (intro conjI allI impI)
    fix q show "table_page (mem s') pgdir q \<longleftrightarrow> table_page (mem s) pgdir q \<or> q \<in> set []"
      by (simp add: table_page_def pde tab)
  next
    fix a assume "\<not> table_page (mem s') pgdir (PGROUNDDOWN a)"
    then show "mem s' a = mem s a"
      using p unfolding table_page_def pde tab by (intro other) blast
  qed (simp add: s'_def)
qed

section \<open>Mapping a range of pages\<close>

text \<open>The number of pages from \<open>a\<close> up to the page of \<open>va\<close>, round the address space.\<close>

definition pages_above :: "u32 \<Rightarrow> u32 \<Rightarrow> nat" where
  "pages_above a va = unat (PGROUNDDOWN va - a) div 4096"

lemma pages_above_zero:
  assumes "page_aligned a"
  shows "pages_above a va = 0 \<longleftrightarrow> PGROUNDDOWN va = a"
proof
  assume z: "pages_above a va = 0"
  have "page_aligned (PGROUNDDOWN va - a)" using assms by (simp add: page_aligned_plus_minus)
  then obtain q where "unat (PGROUNDDOWN va - a) = 4096 * q"
    by (auto simp: page_aligned_unat_dvd dvd_def)
  with z have "unat (PGROUNDDOWN va - a) = 0" by (simp add: pages_above_def)
  then show "PGROUNDDOWN va = a" by (simp add: unat_eq_zero)
qed (simp add: pages_above_def)

lemma pages_above_step:
  assumes a: "page_aligned a" and m: "m < 2 ^ 20"
  shows "pages_above (a + PGSIZE) va < m \<longleftrightarrow>
         PGROUNDDOWN va \<noteq> a \<and> pages_above a va < Suc m"
proof -
  let ?d = "PGROUNDDOWN va - a"
  have e: "PGROUNDDOWN va - (a + PGSIZE) = ?d - PGSIZE" by simp
  have "page_aligned ?d" using a by (simp add: page_aligned_plus_minus)
  then obtain q where q: "unat ?d = 4096 * q" by (auto simp: page_aligned_unat_dvd dvd_def)
  have z: "PGROUNDDOWN va = a \<longleftrightarrow> q = 0"
    using pages_above_zero[OF a, of va] by (simp add: pages_above_def q)
  show ?thesis
  proof (cases "q = 0")
    case True
    then have "?d = 0" using q by (simp add: unat_eq_zero)
    then have "unat (?d - PGSIZE) = 4294963200" by (simp add: PGSIZE_def)
    then show ?thesis using m True z by (simp add: pages_above_def e)
  next
    case False
    then have "PGSIZE \<le> ?d" by (simp add: word_le_nat_alt q)
    then have "unat (?d - PGSIZE) = 4096 * q - 4096" by (simp add: unat_sub q)
    also have "\<dots> = 4096 * (q - 1)" using False by (cases q) simp_all
    finally have "unat (?d - PGSIZE) = 4096 * (q - 1)" .
    then show ?thesis using False z by (simp add: pages_above_def e q) arith
  qed
qed

text \<open>What a mapping of \<open>m\<close> pages from \<open>a\<close> to the frames from \<open>pa\<close> makes of the entries.\<close>

definition map_range :: "(u32 \<Rightarrow> u32) \<Rightarrow> u32 \<Rightarrow> nat \<Rightarrow> u32 \<Rightarrow> u32 \<Rightarrow> u32 \<Rightarrow> u32" where
  "map_range f a m pa perm =
     (\<lambda>va. if pages_above a va < m then (pa + (PGROUNDDOWN va - a)) OR perm OR PTE_P else f va)"

lemma map_range_0 [simp]: "map_range f a 0 pa perm = f"
  by (simp add: map_range_def)

lemma map_range_Suc:
  assumes "page_aligned a" and "m < 2 ^ 20"
  shows "map_range (\<lambda>vb. if PGROUNDDOWN vb = a then pa OR perm OR PTE_P else f vb)
           (a + PGSIZE) m (pa + PGSIZE) perm = map_range f a (Suc m) pa perm"
proof (rule ext)
  fix va
  have "pages_above a va < Suc m" if "PGROUNDDOWN va = a"
    using that pages_above_zero[OF assms(1), of va] by simp
  then show "map_range (\<lambda>vb. if PGROUNDDOWN vb = a then pa OR perm OR PTE_P else f vb)
           (a + PGSIZE) m (pa + PGSIZE) perm va = map_range f a (Suc m) pa perm va"
    using pages_above_step[OF assms, of va] by (auto simp: map_range_def)
qed

lemma pte_of_slot:
  "present (pde_of m pgdir va) \<Longrightarrow> m (pgtab_of m pgdir va + 4 * PTX va) = pte_of m pgdir va"
  by (simp add: pte_of_def)

lemma mappages_step:
  assumes pt: "pgtable s pgdir xs" and al: "page_aligned a"
    and np: "\<not> present (pte_of (mem s) pgdir a)"
  shows "(xs = [] \<and> mappages_loop (Suc k) pgdir a lst pa perm s = Ok (-1, s)) \<or>
     (\<exists>s1 ys zs. xs = ys @ zs \<and> pgtable s1 pgdir zs \<and> pt_grow pgdir s ys s1 \<and>
        pte_of (mem s1) pgdir =
          (\<lambda>vb. if PGROUNDDOWN vb = a then pa OR perm OR PTE_P else pte_of (mem s) pgdir vb) \<and>
        mappages_loop (Suc k) pgdir a lst pa perm s =
          (if a = lst then Ok (0, s1)
           else mappages_loop k pgdir (a + PGSIZE) lst (pa + PGSIZE) perm s1))"
  using walk_alloc[OF pt, of a]
proof (elim disjE conjE exE)
  fix s' ys zs
  assume w: "walkpgdir pgdir a True s = (pgtab_of (mem s') pgdir a + 4 * PTX a, s')"
    and xs: "xs = ys @ zs" and pt': "pgtable s' pgdir zs" and p: "present (pde_of (mem s') pgdir a)"
    and same: "pte_of (mem s') pgdir = pte_of (mem s) pgdir" and g: "pt_grow pgdir s ys s'"
  let ?pte = "pgtab_of (mem s') pgdir a + 4 * PTX a"
  let ?s1 = "s'\<lparr>mem := (mem s')(?pte := pa OR perm OR PTE_P)\<rparr>"
  note S = set_pte[OF pt' p, of "pa OR perm OR PTE_P"]
  have "?pte \<noteq> 0" using slot_nonzero[OF pgtable_tab(1)[OF pt' p] PTX_less] .
  moreover have "mem s' ?pte AND PTE_P = 0"
    using np same pte_of_slot[OF p] by (simp add: present_def)
  ultimately have "mappages_loop (Suc k) pgdir a lst pa perm s =
      (if a = lst then Ok (0, ?s1)
       else mappages_loop k pgdir (a + PGSIZE) lst (pa + PGSIZE) perm ?s1)"
    by (simp add: w)
  moreover have "pt_grow pgdir s ys ?s1" using pt_grow_trans[OF g S(4)] by simp
  moreover have "pte_of (mem ?s1) pgdir =
      (\<lambda>vb. if PGROUNDDOWN vb = a then pa OR perm OR PTE_P else pte_of (mem s) pgdir vb)"
    using S(2)[unfolded same] PGROUNDDOWN_aligned[OF al] by simp
  ultimately show ?thesis using xs S(1) by (intro disjI2 exI[of _ ?s1] exI conjI) assumption+
qed simp

lemma mappages_loop_ok:
  assumes "pgtable s pgdir xs" and "page_aligned a" and "n < k" and "n < 2 ^ 20"
    and "lst = a + of_nat n * PGSIZE"
    and "\<And>va. pages_above a va < Suc n \<Longrightarrow> \<not> present (pte_of (mem s) pgdir va)"
  shows "\<exists>r s' ys zs m. mappages_loop k pgdir a lst pa perm s = Ok (r, s') \<and>
     xs = ys @ zs \<and> pgtable s' pgdir zs \<and> pt_grow pgdir s ys s' \<and>
     pte_of (mem s') pgdir = map_range (pte_of (mem s) pgdir) a m pa perm \<and>
     (r = 0 \<and> m = Suc n \<or> r = -1 \<and> zs = [] \<and> m \<le> n)"
  using assms
proof (induction n arbitrary: k s xs a pa)
  case 0
  then obtain k' where k: "k = Suc k'" by (cases k) auto
  have al: "PGROUNDDOWN a = a" by (rule PGROUNDDOWN_aligned[OF 0(2)])
  have lst: "a = lst" using 0(5) by simp
  have np: "\<not> present (pte_of (mem s) pgdir a)"
    using 0(6)[of a] pages_above_zero[OF 0(2), of a] al by simp
  have one: "map_range f a (Suc 0) pa perm =
      (\<lambda>vb. if PGROUNDDOWN vb = a then pa OR perm OR PTE_P else f vb)" for f
    using map_range_Suc[OF 0(2), of 0 pa perm f] by simp
  from mappages_step[OF 0(1,2) np, of k' lst pa perm] show ?case
  proof (elim disjE conjE exE)
    assume "xs = []" "mappages_loop (Suc k') pgdir a lst pa perm s = Ok (-1, s)"
    then show ?thesis using 0(1) pt_grow_refl[of pgdir s] unfolding k
      by (intro exI[of _ "-1"] exI[of _ s] exI[of _ "[]"] exI[of _ 0]) simp
  next
    fix s1 ys zs
    assume "xs = ys @ zs" "pgtable s1 pgdir zs" "pt_grow pgdir s ys s1"
      "pte_of (mem s1) pgdir =
         (\<lambda>vb. if PGROUNDDOWN vb = a then pa OR perm OR PTE_P else pte_of (mem s) pgdir vb)"
      "mappages_loop (Suc k') pgdir a lst pa perm s =
         (if a = lst then Ok (0, s1)
          else mappages_loop k' pgdir (a + PGSIZE) lst (pa + PGSIZE) perm s1)"
    then show ?thesis unfolding k one[symmetric] using lst
      by (intro exI[of _ 0] exI[of _ s1] exI[of _ ys] exI[of _ zs] exI[of _ "Suc 0"]) simp
  qed
next
  case (Suc n)
  then obtain k' where k: "k = Suc k'" and n: "n < k'" by (cases k) auto
  have al: "PGROUNDDOWN a = a" by (rule PGROUNDDOWN_aligned[OF Suc(3)])
  have al': "page_aligned (a + PGSIZE)" using Suc(3) by (simp add: page_aligned_plus_minus)
  have np: "\<not> present (pte_of (mem s) pgdir a)"
    using Suc(7)[of a] pages_above_zero[OF Suc(3), of a] al by simp
  have lst: "a \<noteq> lst"
  proof
    assume "a = lst"
    then have "of_nat (Suc n) * PGSIZE = (0 :: u32)" using Suc(6) by simp
    then have "of_nat (Suc n * 4096) = (0 :: u32)" by (simp add: PGSIZE_def)
    then have "2 ^ 32 dvd Suc n * 4096" using word_of_nat_eq_0_iff[where 'a = 32, of "Suc n * 4096"] by simp
    then show False using Suc(5) by (auto dest: dvd_imp_le)
  qed
  have lst': "lst = a + PGSIZE + of_nat n * PGSIZE" using Suc(6) by (simp add: algebra_simps)
  from mappages_step[OF Suc(2,3) np, of k' lst pa perm] show ?case
  proof (elim disjE conjE exE)
    assume "xs = []" "mappages_loop (Suc k') pgdir a lst pa perm s = Ok (-1, s)"
    then show ?thesis using Suc(2) pt_grow_refl[of pgdir s] unfolding k
      by (intro exI[of _ "-1"] exI[of _ s] exI[of _ "[]"] exI[of _ 0]) simp
  next
    fix s1 ys zs
    assume xs: "xs = ys @ zs" and pt1: "pgtable s1 pgdir zs" and g: "pt_grow pgdir s ys s1"
      and e: "pte_of (mem s1) pgdir =
         (\<lambda>vb. if PGROUNDDOWN vb = a then pa OR perm OR PTE_P else pte_of (mem s) pgdir vb)"
      and l: "mappages_loop (Suc k') pgdir a lst pa perm s =
         (if a = lst then Ok (0, s1)
          else mappages_loop k' pgdir (a + PGSIZE) lst (pa + PGSIZE) perm s1)"
    have b: "Suc n < 2 ^ 20" by (rule Suc(5))
    have np1: "\<not> present (pte_of (mem s1) pgdir va)" if "pages_above (a + PGSIZE) va < Suc n" for va
      using that pages_above_step[OF Suc(3) b, of va] Suc(7)[of va] by (simp add: e)
    have b': "n < 2 ^ 20" using b by simp
    from Suc.IH[OF pt1 al' n b' lst' np1, of "pa + PGSIZE"] obtain r s' ys' zs' m where
      r: "mappages_loop k' pgdir (a + PGSIZE) lst (pa + PGSIZE) perm s1 = Ok (r, s')"
      "zs = ys' @ zs'" "pgtable s' pgdir zs'" "pt_grow pgdir s1 ys' s'"
      "pte_of (mem s') pgdir = map_range (pte_of (mem s1) pgdir) (a + PGSIZE) m (pa + PGSIZE) perm"
      "r = 0 \<and> m = Suc n \<or> r = -1 \<and> zs' = [] \<and> m \<le> n" by blast
    from r(6) b have "m < 2 ^ 20" by auto
    from map_range_Suc[OF Suc(3) this, of pa perm "pte_of (mem s) pgdir"] r(5) e
    have "pte_of (mem s') pgdir = map_range (pte_of (mem s) pgdir) a (Suc m) pa perm" by simp
    moreover have "r = 0 \<and> Suc m = Suc (Suc n) \<or> r = -1 \<and> zs' = [] \<and> Suc m \<le> Suc n"
      using r(6) by auto
    ultimately show ?thesis
      using r(1-4) l lst xs pt_grow_trans[OF g r(4)] unfolding k
      by (intro exI[of _ r] exI[of _ s'] exI[of _ "ys @ ys'"] exI[of _ zs'] exI[of _ "Suc m"]) simp
  qed
qed

lemma mappages_page:
  assumes pt: "pgtable s pgdir xs" and al: "page_aligned a"
    and np: "\<not> present (pte_of (mem s) pgdir a)"
  shows "(xs = [] \<and> mappages pgdir a PGSIZE pa perm s = Ok (-1, s)) \<or>
     (\<exists>s1 ys zs. xs = ys @ zs \<and> pgtable s1 pgdir zs \<and> pt_grow pgdir s ys s1 \<and>
        pte_of (mem s1) pgdir =
          (\<lambda>vb. if PGROUNDDOWN vb = a then pa OR perm OR PTE_P else pte_of (mem s) pgdir vb) \<and>
        mappages pgdir a PGSIZE pa perm s = Ok (0, s1))"
proof -
  have a: "PGROUNDDOWN a = a" by (rule PGROUNDDOWN_aligned[OF al])
  have "PGROUNDDOWN (a + PGSIZE - 1) = a"
  proof (rule unsigned_word_eqI)
    obtain q where q: "unat a = 4096 * q" using al by (auto simp: page_aligned_unat_dvd dvd_def)
    have "q < 1048576" using u32_bound[of a] q by simp
    then have "unat (a + 4095) = 4096 * q + 4095" by (subst unat_add_lem[THEN iffD1]) (simp_all add: q)
    moreover have e: "a + PGSIZE - 1 = a + 4095" by (simp add: PGSIZE_def)
    moreover have "(4096 * q + 4095) div 4096 = q" by simp
    ultimately show "unat (PGROUNDDOWN (a + PGSIZE - 1)) = unat a"
      unfolding e by (simp add: unat_PGROUNDDOWN q)
  qed
  moreover have "(2 :: nat) ^ 20 = Suc 1048575" by simp
  ultimately have "mappages pgdir a PGSIZE pa perm s =
      mappages_loop (Suc 1048575) pgdir a a pa perm s"
    by (simp only: mappages_def a)
  then show ?thesis using mappages_step[OF pt al np, of 1048575 a pa perm] by simp
qed

end
