(* ===== verification/Vm_User.thy ===== *)
theory Vm_User
  imports Vm
begin

text \<open>
  The user half of an address space, \<^verbatim>\<open>src/xv6/vm.c\<close>: growing it page by page, shrinking it,
  copying it for a child and releasing it. The invariant \<open>uvm\<close> extends \<open>pgtable\<close>: the pages
  mapped below \<^verbatim>\<open>KERNBASE\<close> are pages of the allocator, each mapped once, none of them free and
  none of them a page of the table itself.
\<close>

section \<open>The invariant\<close>

definition upage :: "(u32 \<Rightarrow> u32) \<Rightarrow> u32 \<Rightarrow> u32 \<Rightarrow> u32" where
  "upage m pgdir va = P2V (PTE_ADDR (pte_of m pgdir va))"

definition umapped :: "(u32 \<Rightarrow> u32) \<Rightarrow> u32 \<Rightarrow> u32 \<Rightarrow> bool" where
  "umapped m pgdir va \<longleftrightarrow> va < KERNBASE \<and> present (pte_of m pgdir va)"

definition uvm :: "'a kmem_scheme \<Rightarrow> u32 \<Rightarrow> u32 list \<Rightarrow> bool" where
  "uvm s pgdir xs \<longleftrightarrow>
     pgtable s pgdir xs \<and> KERNBASE < kend s \<and>
     (\<forall>va. umapped (mem s) pgdir va \<longrightarrow>
        valid_page s (upage (mem s) pgdir va) \<and>
        \<not> table_page (mem s) pgdir (upage (mem s) pgdir va) \<and> upage (mem s) pgdir va \<notin> set xs) \<and>
     (\<forall>va vb. umapped (mem s) pgdir va \<longrightarrow> umapped (mem s) pgdir vb \<longrightarrow>
        upage (mem s) pgdir va = upage (mem s) pgdir vb \<longrightarrow> PGROUNDDOWN va = PGROUNDDOWN vb)"

lemma uvm_parts:
  assumes "uvm s pgdir xs"
  shows "pgtable s pgdir xs" and "KERNBASE < kend s" and "free_pages s xs"
  using assms pgtable_dir(1) unfolding uvm_def by blast+

lemma uvm_page:
  assumes "uvm s pgdir xs" and "umapped (mem s) pgdir va"
  shows "valid_page s (upage (mem s) pgdir va)"
    and "\<not> table_page (mem s) pgdir (upage (mem s) pgdir va)"
    and "upage (mem s) pgdir va \<notin> set xs"
  using assms unfolding uvm_def by blast+

lemma uvm_inj:
  "uvm s pgdir xs \<Longrightarrow> umapped (mem s) pgdir va \<Longrightarrow> umapped (mem s) pgdir vb \<Longrightarrow>
   upage (mem s) pgdir va = upage (mem s) pgdir vb \<Longrightarrow> PGROUNDDOWN va = PGROUNDDOWN vb"
  unfolding uvm_def by blast

lemma below_KERNBASE_page: "va < KERNBASE \<longleftrightarrow> PGROUNDDOWN va < KERNBASE"
proof -
  have "unat va < 2147483648 \<longleftrightarrow> unat va div 4096 * 4096 < 2147483648"
    using div_less_iff_less_mult[of 4096 "unat va" 524288] by simp
  then show ?thesis by (simp add: word_less_nat_alt unat_PGROUNDDOWN KERNBASE_def)
qed

lemma umapped_page: "umapped m pgdir (PGROUNDDOWN va) = umapped m pgdir va"
  using below_KERNBASE_page[of va] by (simp add: umapped_def)

lemma upage_page [simp]: "upage m pgdir (PGROUNDDOWN va) = upage m pgdir va"
  by (simp add: upage_def)

lemma umapped_pde: "umapped m pgdir va \<Longrightarrow> present (pde_of m pgdir va)"
  by (auto simp: umapped_def pte_of_def split: if_splits)

lemma table_page_aligned:
  assumes "pgtable s pgdir xs" and "table_page (mem s) pgdir p"
  shows "valid_page s p" and "p \<notin> set xs"
  using assms pgtable_tab[OF assms(1)] pgtable_dir[OF assms(1)] unfolding table_page_def by auto

section \<open>Adding a page\<close>

lemma pte_user_new:
  assumes "page_aligned v"
  shows "P2V (PTE_ADDR (V2P v OR (PTE_W OR PTE_U) OR PTE_P)) = v"
    and "PTE_FLAGS (V2P v OR (PTE_W OR PTE_U) OR PTE_P) = PTE_W OR PTE_U OR PTE_P"
    and "present (V2P v OR (PTE_W OR PTE_U) OR PTE_P)"
proof -
  have f: "unat ((PTE_W OR PTE_U) OR PTE_P) < 4096" by (simp add: PTE_P_def PTE_W_def PTE_U_def)
  note p = pte_parts[of "V2P v", OF _ f]
  show "P2V (PTE_ADDR (V2P v OR (PTE_W OR PTE_U) OR PTE_P)) = v"
    using p(1) assms by (simp add: or.assoc)
  show "PTE_FLAGS (V2P v OR (PTE_W OR PTE_U) OR PTE_P) = PTE_W OR PTE_U OR PTE_P"
    using p(2) assms by (simp add: or.assoc)
  show "present (V2P v OR (PTE_W OR PTE_U) OR PTE_P)"
    by (simp add: present_alt bit_simps PTE_P_def)
qed

text \<open>
  A frame \<open>v\<close> that is neither free nor in use is mapped at \<open>a\<close> by a new entry \<open>e\<close>: the
  invariant is kept.
\<close>

lemma uvm_add:
  assumes u: "uvm s pgdir xs" and pt: "pgtable s' pgdir zs" and g: "pt_grow pgdir s ys s'"
    and xs: "xs = ys @ zs" and v: "valid_page s v" "v \<notin> set xs" "\<not> table_page (mem s) pgdir v"
    and fresh: "\<And>va. umapped (mem s) pgdir va \<Longrightarrow> upage (mem s) pgdir va \<noteq> v"
    and e: "P2V (PTE_ADDR e) = v"
    and ptes: "pte_of (mem s') pgdir = (\<lambda>vb. if PGROUNDDOWN vb = a then e else pte_of (mem s) pgdir vb)"
  shows "uvm s' pgdir zs"
proof -
  note k = pt_grow_fields[OF g]
  have vp: "valid_page s' = valid_page s" by (rule valid_page_cong[OF k])
  have tp: "table_page (mem s') pgdir p \<longleftrightarrow> table_page (mem s) pgdir p \<or> p \<in> set ys" for p
    using g unfolding pt_grow_def by blast
  have old: "umapped (mem s) pgdir va" "upage (mem s') pgdir va = upage (mem s) pgdir va"
    if "umapped (mem s') pgdir va" "PGROUNDDOWN va \<noteq> a" for va
    using that by (simp_all add: umapped_def upage_def ptes)
  have new: "upage (mem s') pgdir va = v" if "PGROUNDDOWN va = a" for va
    using that e by (simp add: upage_def ptes)
  show ?thesis
    unfolding uvm_def
  proof (intro conjI allI impI)
    show "pgtable s' pgdir zs" by (rule pt)
    show "KERNBASE < kend s'" using uvm_parts(2)[OF u] k by simp
  next
    fix va assume m: "umapped (mem s') pgdir va"
    have "valid_page s (upage (mem s') pgdir va) \<and> upage (mem s') pgdir va \<notin> set xs \<and>
        \<not> table_page (mem s) pgdir (upage (mem s') pgdir va)"
    proof (cases "PGROUNDDOWN va = a")
      case False
      show ?thesis using uvm_page[OF u old(1)[OF m False]] by (simp add: old(2)[OF m False])
    qed (simp add: new v)
    then show "valid_page s' (upage (mem s') pgdir va)"
      "\<not> table_page (mem s') pgdir (upage (mem s') pgdir va)" "upage (mem s') pgdir va \<notin> set zs"
      by (simp_all add: vp tp xs)
  next
    fix va vb
    assume m: "umapped (mem s') pgdir va" "umapped (mem s') pgdir vb"
      and eq: "upage (mem s') pgdir va = upage (mem s') pgdir vb"
    show "PGROUNDDOWN va = PGROUNDDOWN vb"
    proof (cases "PGROUNDDOWN va = a"; cases "PGROUNDDOWN vb = a")
      assume "PGROUNDDOWN va = a" "PGROUNDDOWN vb \<noteq> a"
      then show ?thesis using eq new[of va] old[OF m(2)] fresh by metis
    next
      assume "PGROUNDDOWN va \<noteq> a" "PGROUNDDOWN vb = a"
      then show ?thesis using eq new[of vb] old[OF m(1)] fresh by metis
    next
      assume "PGROUNDDOWN va \<noteq> a" "PGROUNDDOWN vb \<noteq> a"
      then show ?thesis using eq old[OF m(1)] old[OF m(2)] uvm_inj[OF u] by metis
    qed simp
  qed
qed

text \<open>Taking a page off the free list and writing it leaves the address space as it is.\<close>

lemma uvm_take_page:
  fixes m' :: "u32 \<Rightarrow> u32"
  assumes u: "uvm s pgdir (v # xs)" and w: "\<forall>a. PGROUNDDOWN a \<noteq> v \<longrightarrow> m' a = mem s a"
  defines "s1 \<equiv> s\<lparr>freelist := mem s v, mem := m'\<rparr>"
  shows "uvm s1 pgdir xs" and "pte_of (mem s1) pgdir = pte_of (mem s) pgdir"
    and "table_page (mem s1) pgdir = table_page (mem s) pgdir"
    and "valid_page s v" and "v \<notin> set xs" and "\<not> table_page (mem s) pgdir v"
    and "umapped (mem s) pgdir va \<Longrightarrow> upage (mem s) pgdir va \<noteq> v"
proof -
  note pt = uvm_parts(1)[OF u] and f = uvm_parts(3)[OF u]
  show v: "valid_page s v" and nx: "v \<notin> set xs" using f by (auto simp: free_pages_def)
  show nt: "\<not> table_page (mem s) pgdir v" using table_page_aligned(2)[OF pt] by auto
  show "umapped (mem s) pgdir va \<Longrightarrow> upage (mem s) pgdir va \<noteq> v" using uvm_page(3)[OF u] by auto
  have "free_pages s1 xs"
  proof (rule free_pages_frame[OF kalloc_ok(2)[OF f]])
    fix y assume y: "y \<in> set xs"
    then have "PGROUNDDOWN y = y" using f by (auto simp: free_pages_def valid_page_def PGROUNDDOWN_aligned)
    then show "mem s1 y = mem (s\<lparr>freelist := mem s v\<rparr>) y"
      using y nx w[rule_format, of y] by (auto simp: s1_def)
  qed (simp_all add: s1_def)
  moreover have k: "kend s1 = kend s" by (simp add: s1_def)
  moreover have "mem s1 a = mem s a" if "table_page (mem s) pgdir (PGROUNDDOWN a)" for a
    using that nt w[rule_format, of a] by (auto simp: s1_def)
  moreover have "\<not> table_page (mem s) pgdir y" if "y \<in> set xs" for y
    using table_page_aligned(2)[OF pt] that by auto
  ultimately have F: "pgtable s1 pgdir xs" "pte_of (mem s1) pgdir = pte_of (mem s) pgdir"
    "table_page (mem s1) pgdir = table_page (mem s) pgdir"
    using pgtable_frame[OF pt] by blast+
  then show "pte_of (mem s1) pgdir = pte_of (mem s) pgdir"
    "table_page (mem s1) pgdir = table_page (mem s) pgdir" by blast+
  have vp: "valid_page s1 = valid_page s" by (rule valid_page_cong) (simp add: s1_def)
  have um: "umapped (mem s1) pgdir = umapped (mem s) pgdir" "upage (mem s1) pgdir = upage (mem s) pgdir"
    by (simp_all add: umapped_def upage_def F(2) fun_eq_iff)
  show "uvm s1 pgdir xs"
    using u F(1) unfolding uvm_def um F(3) vp k list.set(2) insert_iff by blast
qed

section \<open>Removing a page\<close>

text \<open>The body of the loop of \<^verbatim>\<open>deallocuvm\<close> at a mapped page.\<close>

lemma uvm_drop_page:
  assumes u: "uvm s pgdir xs" and m: "umapped (mem s) pgdir a" and al: "page_aligned a"
  defines "pte \<equiv> pgtab_of (mem s) pgdir a + 4 * PTX a"
  shows "\<exists>s1. kfree (upage (mem s) pgdir a) s = Ok s1 \<and>
     (let s2 = s1\<lparr>mem := (mem s1)(pte := 0)\<rparr>
      in uvm s2 pgdir (upage (mem s) pgdir a # xs) \<and>
         pte_of (mem s2) pgdir = (\<lambda>vb. if PGROUNDDOWN vb = a then 0 else pte_of (mem s) pgdir vb) \<and>
         table_page (mem s2) pgdir = table_page (mem s) pgdir \<and>
         (\<forall>b. \<not> table_page (mem s) pgdir (PGROUNDDOWN b) \<longrightarrow>
              PGROUNDDOWN b \<noteq> upage (mem s) pgdir a \<longrightarrow> mem s2 b = mem s b) \<and>
         s2 = s\<lparr>mem := mem s2, freelist := freelist s2\<rparr>)"
proof -
  let ?v = "upage (mem s) pgdir a"
  note pt = uvm_parts(1)[OF u] and v = uvm_page[OF u m]
  have a: "PGROUNDDOWN a = a" by (rule PGROUNDDOWN_aligned[OF al])
  from kfree_ok[OF uvm_parts(3)[OF u] v(1,3)] obtain s1 where
    k: "kfree ?v s = Ok s1" "free_pages s1 (?v # xs)"
    and fr: "\<And>a. PGROUNDDOWN a \<noteq> ?v \<Longrightarrow> mem s1 a = mem s a"
    and ext: "s1 = s\<lparr>mem := mem s1, freelist := ?v\<rparr>" by blast
  have ke: "kend s1 = kend s" by (subst ext) simp
  have "mem s1 b = mem s b" if "table_page (mem s) pgdir (PGROUNDDOWN b)" for b
    using that v(2) by (intro fr) auto
  moreover have "\<not> table_page (mem s) pgdir y" if "y \<in> set (?v # xs)" for y
    using that v(2) table_page_aligned(2)[OF pt, of y] by auto
  ultimately have F: "pgtable s1 pgdir (?v # xs)" "pte_of (mem s1) pgdir = pte_of (mem s) pgdir"
    "pgtab_of (mem s1) pgdir = pgtab_of (mem s) pgdir" "pde_of (mem s1) pgdir = pde_of (mem s) pgdir"
    "table_page (mem s1) pgdir = table_page (mem s) pgdir"
    using pgtable_frame[OF pt k(2) ke] by blast+
  have p: "present (pde_of (mem s1) pgdir a)"
    unfolding F(4) using m by (rule umapped_pde)
  let ?s2 = "s1\<lparr>mem := (mem s1)(pte := 0)\<rparr>"
  note S = set_pte[OF F(1) p, of 0, unfolded F(3), folded pte_def, unfolded a F(2)]
  have tp: "table_page (mem ?s2) pgdir = table_page (mem s) pgdir"
    using S(4) F(5) unfolding pt_grow_def by auto
  have fr2: "mem ?s2 b = mem s b"
    if "\<not> table_page (mem s) pgdir (PGROUNDDOWN b)" "PGROUNDDOWN b \<noteq> ?v" for b
  proof -
    have "\<not> table_page (mem ?s2) pgdir (PGROUNDDOWN b)" unfolding tp by (rule that(1))
    with S(4) have "mem ?s2 b = mem s1 b" unfolding pt_grow_def by blast
    then show ?thesis using fr[OF that(2)] by (rule trans)
  qed
  have vp: "valid_page ?s2 = valid_page s" by (rule valid_page_cong) (simp add: ke)
  have old: "umapped (mem s) pgdir va" "upage (mem ?s2) pgdir va = upage (mem s) pgdir va"
    "PGROUNDDOWN va \<noteq> a" if "umapped (mem ?s2) pgdir va" for va
    using that unfolding umapped_def upage_def S(2) by (auto split: if_splits)
  have "uvm ?s2 pgdir (?v # xs)"
    unfolding uvm_def
  proof (intro conjI allI impI)
    show "pgtable ?s2 pgdir (?v # xs)" by (rule S(1))
    show "KERNBASE < kend ?s2" using uvm_parts(2)[OF u] by (simp add: ke)
  next
    fix va assume "umapped (mem ?s2) pgdir va"
    note o = old[OF this]
    note q = uvm_page[OF u o(1)]
    have "upage (mem s) pgdir va \<noteq> ?v" using uvm_inj[OF u o(1) m] o(3) a by auto
    with q show "valid_page ?s2 (upage (mem ?s2) pgdir va)"
      "\<not> table_page (mem ?s2) pgdir (upage (mem ?s2) pgdir va)"
      "upage (mem ?s2) pgdir va \<notin> set (?v # xs)" unfolding o(2) vp tp by auto
  next
    fix va vb
    assume "umapped (mem ?s2) pgdir va" "umapped (mem ?s2) pgdir vb"
      and eq: "upage (mem ?s2) pgdir va = upage (mem ?s2) pgdir vb"
    note o = old[OF this(1)] old[OF this(2)]
    show "PGROUNDDOWN va = PGROUNDDOWN vb" using uvm_inj[OF u o(1) o(4)] eq o(2,5) by simp
  qed
  moreover have "?s2 = s\<lparr>mem := mem ?s2, freelist := freelist ?s2\<rparr>"
    by (subst ext, subst (3) ext) simp
  ultimately show ?thesis
    unfolding Let_def using k(1) S(2) tp fr2 by (intro exI[of _ s1] conjI allI impI)
qed

section \<open>Shrinking\<close>

definition unmap_range :: "(u32 \<Rightarrow> u32) \<Rightarrow> u32 \<Rightarrow> u32 \<Rightarrow> u32 \<Rightarrow> u32" where
  "unmap_range f a b =
     (\<lambda>va. if a \<le> PGROUNDDOWN va \<and> PGROUNDDOWN va < b \<and> present (f va) then 0 else f va)"

definition mapped_pages :: "(u32 \<Rightarrow> u32) \<Rightarrow> u32 \<Rightarrow> u32 \<Rightarrow> u32 \<Rightarrow> u32 set" where
  "mapped_pages m pgdir a b =
     {upage m pgdir va | va. a \<le> PGROUNDDOWN va \<and> PGROUNDDOWN va < b \<and> present (pte_of m pgdir va)}"

text \<open>
  \<open>shrunk pgdir a b s fs xs s'\<close>: \<open>s'\<close> is \<open>s\<close> without the mappings of the pages from \<open>a\<close> to
  \<open>b\<close>, whose frames \<open>fs\<close> have been put in front of the free pages \<open>xs\<close>.
\<close>

definition shrunk ::
  "u32 \<Rightarrow> u32 \<Rightarrow> u32 \<Rightarrow> 'a kmem_scheme \<Rightarrow> u32 list \<Rightarrow> u32 list \<Rightarrow> 'a kmem_scheme \<Rightarrow> bool" where
  "shrunk pgdir a b s fs xs s' \<longleftrightarrow>
     uvm s' pgdir (fs @ xs) \<and>
     pte_of (mem s') pgdir = unmap_range (pte_of (mem s) pgdir) a b \<and>
     set fs = mapped_pages (mem s) pgdir a b \<and>
     table_page (mem s') pgdir = table_page (mem s) pgdir \<and>
     (\<forall>c. \<not> table_page (mem s) pgdir (PGROUNDDOWN c) \<longrightarrow> PGROUNDDOWN c \<notin> set fs \<longrightarrow>
          mem s' c = mem s c) \<and>
     s' = s\<lparr>mem := mem s', freelist := freelist s'\<rparr>"

lemma page_next:
  assumes "page_aligned a" and "a < KERNBASE"
  shows "unat (a + PGSIZE) = unat a + 4096"
    and "a \<le> PGROUNDDOWN va \<longleftrightarrow> PGROUNDDOWN va = a \<or> a + PGSIZE \<le> PGROUNDDOWN va"
proof -
  have lt: "unat a < 2147483648" using assms(2) by (simp add: word_less_nat_alt KERNBASE_def)
  then show e: "unat (a + PGSIZE) = unat a + 4096" by (subst unat_add_lem[THEN iffD1]) simp_all
  obtain q where q: "unat a = 4096 * q" using assms(1) by (auto simp: page_aligned_unat_dvd dvd_def)
  have "4096 * q \<le> n * 4096 \<longleftrightarrow> n * 4096 = 4096 * q \<or> 4096 * q + 4096 \<le> n * 4096" for n
  proof -
    have "4096 * q \<le> n * 4096 \<longleftrightarrow> q \<le> n" "n * 4096 = 4096 * q \<longleftrightarrow> n = q" by simp_all
    moreover have "4096 * q + 4096 \<le> n * 4096 \<longleftrightarrow> Suc q \<le> n" by linarith
    ultimately show ?thesis by (simp only:) linarith
  qed
  moreover have "PGROUNDDOWN va = a \<longleftrightarrow> unat (PGROUNDDOWN va) = unat a"
    by (auto intro: unsigned_word_eqI)
  ultimately show "a \<le> PGROUNDDOWN va \<longleftrightarrow> PGROUNDDOWN va = a \<or> a + PGSIZE \<le> PGROUNDDOWN va"
    by (simp add: word_le_nat_alt e unat_PGROUNDDOWN q)
qed

lemma one_page:
  assumes "page_aligned a" and "a < KERNBASE"
  shows "a \<le> PGROUNDDOWN va \<and> PGROUNDDOWN va < a + PGSIZE \<longleftrightarrow> PGROUNDDOWN va = a"
proof -
  have "a < a + PGSIZE" using page_next(1)[OF assms] by (simp add: word_less_nat_alt)
  then show ?thesis using page_next(2)[OF assms, of va] by (auto dest: leD)
qed

lemma unat_push_bit_22: "unat d < 1024 \<Longrightarrow> unat (push_bit 22 d :: u32) = unat d * 4194304"
  unfolding push_bit_eq_mult by (subst unat_mult_lem[THEN iffD1]) simp_all

lemma table_next:
  assumes "page_aligned a" and "a < KERNBASE"
  defines "a' \<equiv> PGADDR (PDX a + 1) 0 0"
  shows "page_aligned a'" and "unat a + 4096 \<le> unat a'" and "a \<le> a'"
    and "a \<le> b \<Longrightarrow> \<not> a' \<le> b \<Longrightarrow> PDX b = PDX a"
proof -
  have lt: "unat a < 2147483648" using assms(2) by (simp add: word_less_nat_alt KERNBASE_def)
  have d: "unat (PDX a) = unat a div 4194304" by (rule unat_PDX)
  have "unat a div 4194304 < 512" using lt by (simp add: div_less_iff_less_mult)
  then have d1: "unat (PDX a + 1) = unat a div 4194304 + 1" "unat (PDX a + 1) < 1024"
    by (subst unat_add_lem[THEN iffD1]; simp add: d)+
  have a': "a' = push_bit 22 (PDX a + 1)" by (simp add: a'_def PGADDR_def)
  have u: "unat a' = (unat a div 4194304 + 1) * 4194304"
    unfolding a' using unat_push_bit_22[OF d1(2)] by (simp only: d1(1))
  show "page_aligned a'" by (simp add: page_aligned_unat_dvd u)
  obtain q where q: "unat a = 4096 * q" using assms(1) by (auto simp: page_aligned_unat_dvd dvd_def)
  have "4096 * q div 4194304 = q div 1024"
    using div_mult_mult1[of 4096 q 1024] by simp
  moreover have "q + 1 \<le> (q div 1024 + 1) * 1024" by simp
  ultimately show n: "unat a + 4096 \<le> unat a'" by (simp add: u q)
  then show "a \<le> a'" by (simp add: word_le_nat_alt)
  assume "a \<le> b" "\<not> a' \<le> b"
  then have b: "unat a \<le> unat b" "unat b < (unat a div 4194304 + 1) * 4194304"
    by (simp_all add: word_le_nat_alt u)
  have "unat b div 4194304 = unat a div 4194304"
    using b div_le_mono[OF b(1), of 4194304] less_mult_imp_div_less[OF b(2)] by simp
  then have "unat (PDX b) = unat (PDX a)" by (simp add: unat_PDX)
  then show "PDX b = PDX a" by (rule unsigned_word_eqI)
qed

lemma shrunk_skip:
  assumes "shrunk pgdir a' b s fs xs s'" and "a \<le> a'"
    and "\<And>va. a \<le> PGROUNDDOWN va \<Longrightarrow> \<not> a' \<le> PGROUNDDOWN va \<Longrightarrow> \<not> present (pte_of (mem s) pgdir va)"
  shows "shrunk pgdir a b s fs xs s'"
proof -
  have r: "a' \<le> PGROUNDDOWN va \<and> PGROUNDDOWN va < b \<and> present (pte_of (mem s) pgdir va) \<longleftrightarrow>
           a \<le> PGROUNDDOWN va \<and> PGROUNDDOWN va < b \<and> present (pte_of (mem s) pgdir va)" for va
    using assms(2,3) by (meson order_trans)
  have "unmap_range (pte_of (mem s) pgdir) a' b = unmap_range (pte_of (mem s) pgdir) a b"
    unfolding unmap_range_def r ..
  moreover have "mapped_pages (mem s) pgdir a' b = mapped_pages (mem s) pgdir a b"
    unfolding mapped_pages_def r ..
  ultimately show ?thesis using assms(1) by (simp add: shrunk_def)
qed

lemma shrunk_refl:
  assumes u: "uvm s pgdir xs" and "b \<le> a"
  shows "shrunk pgdir a b s [] xs s"
proof -
  have n: "\<not> (a \<le> PGROUNDDOWN va \<and> PGROUNDDOWN va < b \<and> present (pte_of (mem s) pgdir va))" for va
    using assms(2) by (meson leD le_less_trans)
  have "unmap_range (pte_of (mem s) pgdir) a b = pte_of (mem s) pgdir"
    unfolding unmap_range_def by (simp only: n if_False)
  moreover have "mapped_pages (mem s) pgdir a b = {}"
    unfolding mapped_pages_def using n by blast
  ultimately show ?thesis using u by (simp add: shrunk_def)
qed

lemma shrunk_step:
  assumes u: "uvm s pgdir xs" and al: "page_aligned a" and ab: "a < b" "b \<le> KERNBASE"
    and p: "present (pte_of (mem s) pgdir a)"
    and e: "pte_of (mem s2) pgdir = (\<lambda>vb. if PGROUNDDOWN vb = a then 0 else pte_of (mem s) pgdir vb)"
    and tp: "table_page (mem s2) pgdir = table_page (mem s) pgdir"
    and fr: "\<And>c. \<not> table_page (mem s) pgdir (PGROUNDDOWN c) \<Longrightarrow>
              PGROUNDDOWN c \<noteq> upage (mem s) pgdir a \<Longrightarrow> mem s2 c = mem s c"
    and sx: "s2 = s\<lparr>mem := mem s2, freelist := freelist s2\<rparr>"
    and sh: "shrunk pgdir (a + PGSIZE) b s2 fs (upage (mem s) pgdir a # xs) s'"
  shows "shrunk pgdir a b s (fs @ [upage (mem s) pgdir a]) xs s'"
proof -
  have ak: "a < KERNBASE" using ab by (rule less_le_trans)
  note nx = page_next(2)[OF al ak]
  have a: "PGROUNDDOWN a = a" by (rule PGROUNDDOWN_aligned[OF al])
  have na: "\<not> a + PGSIZE \<le> a" using page_next(1)[OF al ak] by (simp add: word_le_nat_alt)
  have pc: "pte_of (mem s) pgdir va = pte_of (mem s) pgdir a" if "PGROUNDDOWN va = a" for va
    using that pte_of_PGROUNDDOWN[of "mem s" pgdir va] by simp
  have "unmap_range (pte_of (mem s2) pgdir) (a + PGSIZE) b = unmap_range (pte_of (mem s) pgdir) a b"
  proof (rule ext)
    fix va show "unmap_range (pte_of (mem s2) pgdir) (a + PGSIZE) b va =
        unmap_range (pte_of (mem s) pgdir) a b va"
      using pc[of va] p ab(1) na by (simp add: unmap_range_def nx e)
  qed
  moreover have "insert (upage (mem s) pgdir a) (mapped_pages (mem s2) pgdir (a + PGSIZE) b) =
      mapped_pages (mem s) pgdir a b" (is "insert ?v ?A = ?B")
  proof
    have "?v \<in> ?B" unfolding mapped_pages_def using p ab(1) a by auto
    moreover have "?A \<subseteq> ?B"
    proof
      fix x assume "x \<in> ?A"
      then obtain va where va: "x = upage (mem s2) pgdir va" "a + PGSIZE \<le> PGROUNDDOWN va"
        "PGROUNDDOWN va < b" "present (pte_of (mem s2) pgdir va)" unfolding mapped_pages_def by blast
      then have "PGROUNDDOWN va \<noteq> a" using na by auto
      then have "x = upage (mem s) pgdir va" "present (pte_of (mem s) pgdir va)"
        using va by (simp_all add: upage_def e)
      then show "x \<in> ?B" using va nx unfolding mapped_pages_def by blast
    qed
    ultimately show "insert ?v ?A \<subseteq> ?B" by blast
    show "?B \<subseteq> insert ?v ?A"
    proof
      fix x assume "x \<in> ?B"
      then obtain va where va: "x = upage (mem s) pgdir va" "a \<le> PGROUNDDOWN va"
        "PGROUNDDOWN va < b" "present (pte_of (mem s) pgdir va)" unfolding mapped_pages_def by blast
      show "x \<in> insert ?v ?A"
      proof (cases "PGROUNDDOWN va = a")
        case True
        then show ?thesis using va(1) pc[of va] by (simp add: upage_def)
      next
        case False
        then have "x = upage (mem s2) pgdir va" "present (pte_of (mem s2) pgdir va)"
          "a + PGSIZE \<le> PGROUNDDOWN va" using va nx by (simp_all add: upage_def e)
        then show ?thesis using va(3) unfolding mapped_pages_def by blast
      qed
    qed
  qed
  moreover have "s' = s\<lparr>mem := mem s', freelist := freelist s'\<rparr>"
    using sh sx unfolding shrunk_def
    by (metis kmem.surjective kmem.update_convs(1,2) kmem.ext_inject)
  moreover have "mem s' c = mem s c"
    if c: "\<not> table_page (mem s) pgdir (PGROUNDDOWN c)"
      "PGROUNDDOWN c \<notin> set (fs @ [upage (mem s) pgdir a])" for c
  proof -
    have "mem s' c = mem s2 c" using sh c unfolding shrunk_def tp by auto
    then show ?thesis using fr[OF c(1)] c(2) by simp
  qed
  ultimately show ?thesis using sh unfolding shrunk_def tp by auto
qed

lemma deallocuvm_loop_ok:
  assumes "uvm s pgdir xs" and "page_aligned a" and "b \<le> KERNBASE" and "unat b \<le> unat a + 4096 * k"
  shows "\<exists>s' fs. deallocuvm_loop (Suc k) pgdir a b s = Ok s' \<and> shrunk pgdir a b s fs xs s'"
  using assms
proof (induction k arbitrary: s xs a)
  case 0
  then have "b \<le> a" by (simp add: word_le_nat_alt)
  then show ?case using shrunk_refl[OF 0(1)] by auto
next
  case (Suc k)
  note u = Suc(2) and al = Suc(3) and bk = Suc(4)
  show ?case
  proof (cases "a < b")
    case False
    then show ?thesis using shrunk_refl[OF u, of b a] by (auto simp: not_less)
  next
    case ab: True
    then have ak: "a < KERNBASE" using bk by (rule less_le_trans)
    note nx = page_next[OF al ak] and tn = table_next[OF al ak]
    have al': "page_aligned (a + PGSIZE)" using al by (simp add: page_aligned_plus_minus)
    have k': "unat b \<le> unat (a + PGSIZE) + 4096 * k" using Suc(5) nx(1) by simp
    show ?thesis
    proof (cases "present (pde_of (mem s) pgdir a)")
      case False
      let ?a = "PGADDR (PDX a + 1) 0 0"
      have "unat b \<le> unat ?a + 4096 * k" using Suc(5) tn(2) by simp
      from Suc.IH[OF u tn(1) bk this] obtain s' fs where
        "deallocuvm_loop (Suc k) pgdir ?a b s = Ok s'" and sh: "shrunk pgdir ?a b s fs xs s'" by blast
      moreover have "deallocuvm_loop (Suc (Suc k)) pgdir a b s = deallocuvm_loop (Suc k) pgdir ?a b s"
        using ab by (simp del: deallocuvm_loop.simps(2)
            add: deallocuvm_loop.simps(2)[of "Suc k"] walk_absent[OF False])
      moreover have "shrunk pgdir a b s fs xs s'"
      proof (rule shrunk_skip[OF sh tn(3)])
        fix va assume "a \<le> PGROUNDDOWN va" "\<not> ?a \<le> PGROUNDDOWN va"
        from tn(4)[OF this] have "PDX va = PDX a" by simp
        then show "\<not> present (pte_of (mem s) pgdir va)"
          using False pde_cong[of va a "mem s" pgdir] by (simp add: pte_of_def)
      qed
      ultimately show ?thesis by auto
    next
      case pd: True
      let ?pte = "pgtab_of (mem s) pgdir a + 4 * PTX a"
      have pte: "?pte \<noteq> 0" "mem s ?pte = pte_of (mem s) pgdir a"
        using slot_nonzero[OF pgtable_tab(1)[OF uvm_parts(1)[OF u] pd] PTX_less] pte_of_slot[OF pd] by auto
      show ?thesis
      proof (cases "present (pte_of (mem s) pgdir a)")
        case False
        from Suc.IH[OF u al' bk k'] obtain s' fs where
          "deallocuvm_loop (Suc k) pgdir (a + PGSIZE) b s = Ok s'"
          and sh: "shrunk pgdir (a + PGSIZE) b s fs xs s'" by blast
        moreover have "deallocuvm_loop (Suc (Suc k)) pgdir a b s =
            deallocuvm_loop (Suc k) pgdir (a + PGSIZE) b s"
          using ab pte False by (simp del: deallocuvm_loop.simps(2)
              add: deallocuvm_loop.simps(2)[of "Suc k"] walk_hit[OF pd] present_def)
        moreover have "shrunk pgdir a b s fs xs s'"
        proof (rule shrunk_skip[OF sh])
          show "a \<le> a + PGSIZE" by (simp add: word_le_nat_alt nx(1))
          fix va assume "a \<le> PGROUNDDOWN va" "\<not> a + PGSIZE \<le> PGROUNDDOWN va"
          then show "\<not> present (pte_of (mem s) pgdir va)"
            using nx(2)[of va] False pte_of_PGROUNDDOWN[of "mem s" pgdir va] by auto
        qed
        ultimately show ?thesis by auto
      next
        case p: True
        then have m: "umapped (mem s) pgdir a" using ak by (simp add: umapped_def)
        let ?v = "upage (mem s) pgdir a"
        from uvm_drop_page[OF u m al] obtain s1 s2 where
          s1: "kfree ?v s = Ok s1" and s2: "s2 = s1\<lparr>mem := (mem s1)(?pte := 0)\<rparr>"
          and d: "uvm s2 pgdir (?v # xs)"
            "pte_of (mem s2) pgdir = (\<lambda>vb. if PGROUNDDOWN vb = a then 0 else pte_of (mem s) pgdir vb)"
            "table_page (mem s2) pgdir = table_page (mem s) pgdir"
          and fr: "\<And>b. \<not> table_page (mem s) pgdir (PGROUNDDOWN b) \<Longrightarrow>
              PGROUNDDOWN b \<noteq> ?v \<Longrightarrow> mem s2 b = mem s b"
          and ext: "s2 = s\<lparr>mem := mem s2, freelist := freelist s2\<rparr>"
          unfolding Let_def by blast
        have "PTE_ADDR (pte_of (mem s) pgdir a) \<noteq> 0"
        proof
          assume "PTE_ADDR (pte_of (mem s) pgdir a) = 0"
          then have "?v = KERNBASE" by (simp add: upage_def P2V_def)
          then show False using uvm_page(1)[OF u m] uvm_parts(2)[OF u] by (auto simp: valid_page_def)
        qed
        then have "deallocuvm_loop (Suc (Suc k)) pgdir a b s =
            deallocuvm_loop (Suc k) pgdir (a + PGSIZE) b s2"
          using ab pte p s1 unfolding s2 by (simp del: deallocuvm_loop.simps(2)
              add: deallocuvm_loop.simps(2)[of "Suc k"] walk_hit[OF pd] present_def upage_def)
        moreover from Suc.IH[OF d(1) al' bk k'] obtain s' fs where
          "deallocuvm_loop (Suc k) pgdir (a + PGSIZE) b s2 = Ok s'"
          "shrunk pgdir (a + PGSIZE) b s2 fs (?v # xs) s'" by blast
        ultimately show ?thesis
          using shrunk_step[OF u al ab bk p d(2,3) fr ext] by auto
      qed
    qed
  qed
qed

lemma deallocuvm_ok:
  assumes u: "uvm s pgdir xs" and lt: "newsz < oldsz" and k: "oldsz \<le> KERNBASE"
  shows "\<exists>s' fs. deallocuvm pgdir oldsz newsz s = Ok (newsz, s') \<and>
           shrunk pgdir (PGROUNDUP newsz) oldsz s fs xs s'"
proof -
  have "unat oldsz \<le> 2147483648" using k by (simp add: word_le_nat_alt KERNBASE_def)
  then have "unat oldsz \<le> unat (PGROUNDUP newsz) + 4096 * 1048575" by simp
  moreover have "page_aligned (PGROUNDUP newsz)"
    by (simp add: page_aligned_def PGROUNDUP_def mask_numerals unat_and_not_mask)
  moreover have "(2 :: nat) ^ 20 = Suc 1048575" by simp
  ultimately show ?thesis
    using deallocuvm_loop_ok[OF u _ k, of "PGROUNDUP newsz" 1048575] lt
    unfolding deallocuvm_def by (metis bindR.simps(1) leD)
qed

section \<open>Growing\<close>

text \<open>
  \<open>grown pgdir a b s ys zs s'\<close>: \<open>s'\<close> is \<open>s\<close> with a fresh, zeroed, writable user page at each
  page from \<open>a\<close> to \<open>b\<close>; the pages \<open>ys\<close> were taken for them and for new page tables, and
  \<open>zs\<close> are still free.
\<close>

definition grown ::
  "u32 \<Rightarrow> u32 \<Rightarrow> u32 \<Rightarrow> 'a kmem_scheme \<Rightarrow> u32 list \<Rightarrow> u32 list \<Rightarrow> 'a kmem_scheme \<Rightarrow> bool" where
  "grown pgdir a b s ys zs s' \<longleftrightarrow>
     uvm s' pgdir zs \<and>
     (\<forall>va. \<not> (a \<le> PGROUNDDOWN va \<and> PGROUNDDOWN va < b) \<longrightarrow>
        pte_of (mem s') pgdir va = pte_of (mem s) pgdir va) \<and>
     (\<forall>va. a \<le> PGROUNDDOWN va \<and> PGROUNDDOWN va < b \<longrightarrow>
        present (pte_of (mem s') pgdir va) \<and>
        PTE_FLAGS (pte_of (mem s') pgdir va) = PTE_W OR PTE_U OR PTE_P \<and>
        upage (mem s') pgdir va \<in> set ys \<and>
        (\<forall>c. PGROUNDDOWN c = upage (mem s') pgdir va \<longrightarrow> mem s' c = 0)) \<and>
     (\<forall>p. table_page (mem s) pgdir p \<longrightarrow> table_page (mem s') pgdir p) \<and>
     (\<forall>p. table_page (mem s') pgdir p \<longrightarrow> table_page (mem s) pgdir p \<or> p \<in> set ys) \<and>
     set ys \<subseteq> {p. table_page (mem s') pgdir p} \<union> mapped_pages (mem s') pgdir a b \<and>
     (\<forall>c. \<not> table_page (mem s) pgdir (PGROUNDDOWN c) \<longrightarrow> PGROUNDDOWN c \<notin> set ys \<longrightarrow>
        mem s' c = mem s c) \<and>
     s' = s\<lparr>mem := mem s', freelist := freelist s'\<rparr>"

lemma grownD:
  assumes "grown pgdir a b s ys zs s'"
  shows "uvm s' pgdir zs"
    and "\<not> (a \<le> PGROUNDDOWN va \<and> PGROUNDDOWN va < b) \<Longrightarrow>
           pte_of (mem s') pgdir va = pte_of (mem s) pgdir va"
    and "table_page (mem s) pgdir p \<Longrightarrow> table_page (mem s') pgdir p"
    and "table_page (mem s') pgdir p \<Longrightarrow> table_page (mem s) pgdir p \<or> p \<in> set ys"
    and "set ys \<subseteq> {p. table_page (mem s') pgdir p} \<union> mapped_pages (mem s') pgdir a b"
    and "\<not> table_page (mem s) pgdir (PGROUNDDOWN c) \<Longrightarrow> PGROUNDDOWN c \<notin> set ys \<Longrightarrow>
           mem s' c = mem s c"
    and "s' = s\<lparr>mem := mem s', freelist := freelist s'\<rparr>"
  using assms unfolding grown_def by simp_all

lemma grown_new:
  assumes "grown pgdir a b s ys zs s'" and "a \<le> PGROUNDDOWN va" and "PGROUNDDOWN va < b"
  shows "present (pte_of (mem s') pgdir va)"
    and "PTE_FLAGS (pte_of (mem s') pgdir va) = PTE_W OR PTE_U OR PTE_P"
    and "upage (mem s') pgdir va \<in> set ys"
    and "PGROUNDDOWN c = upage (mem s') pgdir va \<Longrightarrow> mem s' c = 0"
  using assms unfolding grown_def by simp_all

lemma grown_refl: "uvm s pgdir xs \<Longrightarrow> grown pgdir a a s [] xs s"
  by (auto simp: grown_def)

lemma grow_page:
  assumes u: "uvm s pgdir (v # xs)" and al: "page_aligned a" and ak: "a < KERNBASE"
    and np: "\<not> present (pte_of (mem s) pgdir a)"
  defines "s1 \<equiv> s\<lparr>freelist := mem s v, mem := page_fill v 0 (mem s)\<rparr>"
  shows "(xs = [] \<and> mappages pgdir a PGSIZE (V2P v) (PTE_W OR PTE_U) s1 = Ok (-1, s1)) \<or>
     (\<exists>s' ys zs. mappages pgdir a PGSIZE (V2P v) (PTE_W OR PTE_U) s1 = Ok (0, s') \<and>
        xs = ys @ zs \<and> grown pgdir a (a + PGSIZE) s (v # ys) zs s' \<and>
        pte_of (mem s') pgdir =
          (\<lambda>vb. if PGROUNDDOWN vb = a then V2P v OR (PTE_W OR PTE_U) OR PTE_P
                else pte_of (mem s) pgdir vb))"
proof -
  have "\<forall>a. PGROUNDDOWN a \<noteq> v \<longrightarrow> page_fill v 0 (mem s) a = mem s a" by (simp add: page_fill_def)
  note T = uvm_take_page[OF u this, folded s1_def]
  have np1: "\<not> present (pte_of (mem s1) pgdir a)" using np T(2) by simp
  have va: "page_aligned v" using T(4) by (rule valid_page_aligned)
  note E = pte_user_new[OF va]
  from mappages_page[OF uvm_parts(1)[OF T(1)] al np1, of "V2P v" "PTE_W OR PTE_U"]
  show ?thesis
  proof (elim disjE conjE exE)
    assume "xs = []" "mappages pgdir a PGSIZE (V2P v) (PTE_W OR PTE_U) s1 = Ok (-1, s1)"
    then show ?thesis by simp
  next
    fix s' ys zs
    assume xs: "xs = ys @ zs" and pt: "pgtable s' pgdir zs" and g: "pt_grow pgdir s1 ys s'"
      and e: "pte_of (mem s') pgdir = (\<lambda>vb. if PGROUNDDOWN vb = a
                then V2P v OR (PTE_W OR PTE_U) OR PTE_P else pte_of (mem s1) pgdir vb)"
      and r: "mappages pgdir a PGSIZE (V2P v) (PTE_W OR PTE_U) s1 = Ok (0, s')"
    have us: "umapped (mem s1) pgdir = umapped (mem s) pgdir" "upage (mem s1) pgdir = upage (mem s) pgdir"
      by (simp_all add: umapped_def upage_def T(2) fun_eq_iff)
    have vp: "valid_page s1 v" using T(4) by (simp add: valid_page_def s1_def)
    have vt: "\<not> table_page (mem s1) pgdir v" using T(6) by (simp add: T(3))
    have fresh: "upage (mem s1) pgdir va \<noteq> v" if "umapped (mem s1) pgdir va" for va
      using T(7) that unfolding us by blast
    have u': "uvm s' pgdir zs"
      by (rule uvm_add[OF T(1) pt g xs vp T(5) vt fresh E(1) e])
    have tp: "table_page (mem s') pgdir p \<longleftrightarrow> table_page (mem s) pgdir p \<or> p \<in> set ys" for p
      using g unfolding pt_grow_def T(3) by blast
    have fr: "mem s' c = mem s1 c"
      if "\<not> table_page (mem s) pgdir (PGROUNDDOWN c)" "PGROUNDDOWN c \<notin> set ys" for c
      using g that tp unfolding pt_grow_def by blast
    have vn: "\<not> table_page (mem s) pgdir v" "v \<notin> set ys" using T(5,6) xs by auto
    have zero: "mem s' c = 0" if "PGROUNDDOWN c = v" for c
      using fr[of c] that vn by (simp add: s1_def page_fill_def)
    have other: "mem s' c = mem s c" if "\<not> table_page (mem s) pgdir (PGROUNDDOWN c)"
      "PGROUNDDOWN c \<notin> set (v # ys)" for c
      using fr[of c] that by (simp add: s1_def page_fill_def)
    note range = one_page[OF al ak]
    have up: "upage (mem s') pgdir va = v" if "PGROUNDDOWN va = a" for va
      using that E(1) by (simp add: upage_def e)
    have "v \<in> mapped_pages (mem s') pgdir a (a + PGSIZE)"
      unfolding mapped_pages_def using up[of a] range[of a] PGROUNDDOWN_aligned[OF al] E(3)
      by (auto simp: e intro!: exI[of _ a])
    then have ys: "set (v # ys) \<subseteq> {p. table_page (mem s') pgdir p} \<union> mapped_pages (mem s') pgdir a (a + PGSIZE)"
      by (auto simp: tp)
    have sx: "s' = s\<lparr>mem := mem s', freelist := freelist s'\<rparr>"
    proof -
      have "s' = s1\<lparr>mem := mem s', freelist := freelist s'\<rparr>" using g unfolding pt_grow_def by blast
      then show ?thesis by (simp add: s1_def)
    qed
    have e': "pte_of (mem s') pgdir = (\<lambda>vb. if PGROUNDDOWN vb = a
                then V2P v OR (PTE_W OR PTE_U) OR PTE_P else pte_of (mem s) pgdir vb)"
      using e unfolding T(2) .
    have "grown pgdir a (a + PGSIZE) s (v # ys) zs s'"
      unfolding grown_def range
    proof (intro conjI allI impI)
      fix va assume va: "PGROUNDDOWN va = a"
      show "present (pte_of (mem s') pgdir va)" using va E(3) by (simp add: e)
      show "PTE_FLAGS (pte_of (mem s') pgdir va) = PTE_W OR PTE_U OR PTE_P" using va E(2) by (simp add: e)
      show "upage (mem s') pgdir va \<in> set (v # ys)" using up[OF va] by simp
      fix c assume "PGROUNDDOWN c = upage (mem s') pgdir va"
      then show "mem s' c = 0" using up[OF va] zero by simp
    qed (use u' tp ys other sx e' in auto)
    then show ?thesis using r xs e' by blast
  qed
qed

lemma range_split:
  fixes a b c x :: u32
  assumes "a \<le> b" and "b \<le> c"
  shows "a \<le> x \<and> x < c \<longleftrightarrow> a \<le> x \<and> x < b \<or> b \<le> x \<and> x < c"
  using assms by (meson leD le_less_trans less_le_trans not_le order_trans)

text \<open>What the second of two growths keeps of the pages the first has made.\<close>

lemma grown_keeps:
  assumes g: "grown pgdir a b s ys xs s1" and h: "grown pgdir b c s1 zs ws s2"
    and xs: "xs = zs @ ws" and k: "b \<le> KERNBASE"
    and r: "a \<le> PGROUNDDOWN va" "PGROUNDDOWN va < b"
  shows "pte_of (mem s2) pgdir va = pte_of (mem s1) pgdir va"
    and "upage (mem s2) pgdir va = upage (mem s1) pgdir va"
    and "PGROUNDDOWN d = upage (mem s1) pgdir va \<Longrightarrow> mem s2 d = 0"
proof -
  have nr: "\<not> (b \<le> PGROUNDDOWN va \<and> PGROUNDDOWN va < c)" using r(2) by (meson leD)
  then show e: "pte_of (mem s2) pgdir va = pte_of (mem s1) pgdir va" by (rule grownD(2)[OF h])
  then show "upage (mem s2) pgdir va = upage (mem s1) pgdir va" by (simp add: upage_def)
  have "va < KERNBASE"
    using r(2) k below_KERNBASE_page[of va] by (meson less_le_trans)
  then have m: "umapped (mem s1) pgdir va" using grown_new(1)[OF g r] by (simp add: umapped_def)
  assume d: "PGROUNDDOWN d = upage (mem s1) pgdir va"
  have "\<not> table_page (mem s1) pgdir (PGROUNDDOWN d)" "PGROUNDDOWN d \<notin> set zs"
    using uvm_page[OF grownD(1)[OF g] m] xs d by auto
  then have "mem s2 d = mem s1 d" by (rule grownD(6)[OF h])
  then show "mem s2 d = 0" using grown_new(4)[OF g r d] by simp
qed

lemma grown_mapped_pages:
  assumes g: "grown pgdir a b s ys xs s1" and h: "grown pgdir b c s1 zs ws s2"
    and xs: "xs = zs @ ws" and le: "a \<le> b" "b \<le> c" and k: "b \<le> KERNBASE"
  shows "mapped_pages (mem s1) pgdir a b \<subseteq> mapped_pages (mem s2) pgdir a c"
    and "mapped_pages (mem s2) pgdir b c \<subseteq> mapped_pages (mem s2) pgdir a c"
proof -
  show "mapped_pages (mem s1) pgdir a b \<subseteq> mapped_pages (mem s2) pgdir a c"
  proof
    fix p assume "p \<in> mapped_pages (mem s1) pgdir a b"
    then obtain va where va: "p = upage (mem s1) pgdir va" "a \<le> PGROUNDDOWN va" "PGROUNDDOWN va < b"
      "present (pte_of (mem s1) pgdir va)" unfolding mapped_pages_def by blast
    note K = grown_keeps[OF g h xs k va(2,3)]
    have "p = upage (mem s2) pgdir va" "present (pte_of (mem s2) pgdir va)" "PGROUNDDOWN va < c"
      using va K(1,2) less_le_trans[OF va(3) le(2)] by simp_all
    then show "p \<in> mapped_pages (mem s2) pgdir a c" using va(2) unfolding mapped_pages_def by blast
  qed
  show "mapped_pages (mem s2) pgdir b c \<subseteq> mapped_pages (mem s2) pgdir a c"
    unfolding mapped_pages_def using order_trans[OF le(1)] by blast
qed

lemma grown_trans:
  assumes g: "grown pgdir a b s ys xs s1" and h: "grown pgdir b c s1 zs ws s2"
    and xs: "xs = zs @ ws" and le: "a \<le> b" "b \<le> c" and k: "b \<le> KERNBASE"
  shows "grown pgdir a c s (ys @ zs) ws s2"
  unfolding grown_def
proof (intro conjI allI impI)
  note cases = range_split[OF le]
  {
    fix va assume "\<not> (a \<le> PGROUNDDOWN va \<and> PGROUNDDOWN va < c)"
    then have "\<not> (a \<le> PGROUNDDOWN va \<and> PGROUNDDOWN va < b)" "\<not> (b \<le> PGROUNDDOWN va \<and> PGROUNDDOWN va < c)"
      unfolding cases by blast+
    then show "pte_of (mem s2) pgdir va = pte_of (mem s) pgdir va"
      using grownD(2)[OF g] grownD(2)[OF h] by metis
  next
    fix va assume "a \<le> PGROUNDDOWN va \<and> PGROUNDDOWN va < c"
    then consider "a \<le> PGROUNDDOWN va" "PGROUNDDOWN va < b" | "b \<le> PGROUNDDOWN va" "PGROUNDDOWN va < c"
      unfolding cases by blast
    then have "present (pte_of (mem s2) pgdir va) \<and>
        PTE_FLAGS (pte_of (mem s2) pgdir va) = PTE_W OR PTE_U OR PTE_P \<and>
        upage (mem s2) pgdir va \<in> set (ys @ zs) \<and>
        (\<forall>d. PGROUNDDOWN d = upage (mem s2) pgdir va \<longrightarrow> mem s2 d = 0)"
    proof cases
      case 1
      note K = grown_keeps[OF g h xs k 1]
      show ?thesis using grown_new[OF g 1] K(3) unfolding K(1,2) by simp
    next
      case 2
      show ?thesis using grown_new[OF h 2] by simp
    qed
    then show "present (pte_of (mem s2) pgdir va)"
      "PTE_FLAGS (pte_of (mem s2) pgdir va) = PTE_W OR PTE_U OR PTE_P"
      "upage (mem s2) pgdir va \<in> set (ys @ zs)"
      "\<And>d. PGROUNDDOWN d = upage (mem s2) pgdir va \<Longrightarrow> mem s2 d = 0" by simp_all
  next
    fix p
    show "table_page (mem s) pgdir p \<Longrightarrow> table_page (mem s2) pgdir p"
      by (rule grownD(3)[OF h grownD(3)[OF g]])
    show "table_page (mem s2) pgdir p \<Longrightarrow> table_page (mem s) pgdir p \<or> p \<in> set (ys @ zs)"
      using grownD(4)[OF g, of p] grownD(4)[OF h, of p] by auto
  next
    fix d assume "\<not> table_page (mem s) pgdir (PGROUNDDOWN d)" "PGROUNDDOWN d \<notin> set (ys @ zs)"
    then show "mem s2 d = mem s d"
      using grownD(6)[OF g, of d] grownD(6)[OF h, of d] grownD(4)[OF g, of "PGROUNDDOWN d"] by auto
  }
  show "uvm s2 pgdir ws" by (rule grownD(1)[OF h])
  show "set (ys @ zs) \<subseteq> {p. table_page (mem s2) pgdir p} \<union> mapped_pages (mem s2) pgdir a c"
    using grownD(5)[OF g] grownD(5)[OF h] grownD(3)[OF h] grown_mapped_pages[OF g h xs le k] by auto
  show "s2 = s\<lparr>mem := mem s2, freelist := freelist s2\<rparr>"
    using grownD(7)[OF g] grownD(7)[OF h]
    by (metis kmem.surjective kmem.update_convs(1,2) kmem.ext_inject)
qed

definition unmapped :: "(u32 \<Rightarrow> u32) \<Rightarrow> u32 \<Rightarrow> u32 \<Rightarrow> u32 \<Rightarrow> bool" where
  "unmapped m pgdir a b \<longleftrightarrow>
     (\<forall>va. a \<le> PGROUNDDOWN va \<and> PGROUNDDOWN va < b \<longrightarrow> \<not> present (pte_of m pgdir va))"

lemma unmappedD:
  "unmapped m pgdir a b \<Longrightarrow> a \<le> PGROUNDDOWN va \<Longrightarrow> PGROUNDDOWN va < b \<Longrightarrow> \<not> present (pte_of m pgdir va)"
  by (simp add: unmapped_def)

lemma unmapped_mono: "unmapped m pgdir a b \<Longrightarrow> a \<le> a' \<Longrightarrow> unmapped m pgdir a' b"
  unfolding unmapped_def by (meson order_trans)

text \<open>
  \<open>undone pgdir a b s xs s'\<close>: a growth from \<open>a\<close> to \<open>b\<close> was given up. Nothing is mapped there,
  the rest of the address space is as before, and every page that was free is free again or
  has become a page table.
\<close>

definition undone ::
  "u32 \<Rightarrow> u32 \<Rightarrow> u32 \<Rightarrow> 'a kmem_scheme \<Rightarrow> u32 list \<Rightarrow> 'a kmem_scheme \<Rightarrow> bool" where
  "undone pgdir a b s xs s' \<longleftrightarrow>
     (\<exists>ws. uvm s' pgdir ws \<and>
        set ws \<union> {p. table_page (mem s') pgdir p \<and> \<not> table_page (mem s) pgdir p} = set xs) \<and>
     (\<forall>va. \<not> (a \<le> PGROUNDDOWN va \<and> PGROUNDDOWN va < b) \<longrightarrow>
        pte_of (mem s') pgdir va = pte_of (mem s) pgdir va) \<and>
     unmapped (mem s') pgdir a b \<and>
     (\<forall>c. \<not> table_page (mem s) pgdir (PGROUNDDOWN c) \<longrightarrow> PGROUNDDOWN c \<notin> set xs \<longrightarrow>
        mem s' c = mem s c) \<and>
     s' = s\<lparr>mem := mem s', freelist := freelist s'\<rparr>"

lemma uvm_kfree:
  assumes u: "uvm s pgdir xs" and v: "valid_page s v" "v \<notin> set xs" "\<not> table_page (mem s) pgdir v"
    and nm: "\<And>va. umapped (mem s) pgdir va \<Longrightarrow> upage (mem s) pgdir va \<noteq> v"
  shows "\<exists>s'. kfree v s = Ok s' \<and> uvm s' pgdir (v # xs) \<and> pte_of (mem s') pgdir = pte_of (mem s) pgdir \<and>
           table_page (mem s') pgdir = table_page (mem s) pgdir \<and>
           (\<forall>c. PGROUNDDOWN c \<noteq> v \<longrightarrow> mem s' c = mem s c) \<and>
           s' = s\<lparr>mem := mem s', freelist := freelist s'\<rparr>"
proof -
  note pt = uvm_parts(1)[OF u]
  from kfree_ok[OF uvm_parts(3)[OF u] v(1,2)] obtain s' where
    k: "kfree v s = Ok s'" "free_pages s' (v # xs)"
    and fr: "\<And>a. PGROUNDDOWN a \<noteq> v \<Longrightarrow> mem s' a = mem s a"
    and sx: "s' = s\<lparr>mem := mem s', freelist := v\<rparr>" by blast
  have ke: "kend s' = kend s" by (subst sx) simp
  have "mem s' b = mem s b" if "table_page (mem s) pgdir (PGROUNDDOWN b)" for b
    using that v(3) by (intro fr) auto
  moreover have "\<not> table_page (mem s) pgdir y" if "y \<in> set (v # xs)" for y
    using that v(3) table_page_aligned(2)[OF pt, of y] by auto
  ultimately have F: "pgtable s' pgdir (v # xs)" "pte_of (mem s') pgdir = pte_of (mem s) pgdir"
    "table_page (mem s') pgdir = table_page (mem s) pgdir"
    using pgtable_frame[OF pt k(2) ke] by blast+
  have um: "umapped (mem s') pgdir = umapped (mem s) pgdir" "upage (mem s') pgdir = upage (mem s) pgdir"
    by (simp_all add: umapped_def upage_def F(2) fun_eq_iff)
  have vp: "valid_page s' = valid_page s" by (rule valid_page_cong[OF ke])
  have "uvm s' pgdir (v # xs)"
    using u F(1) nm unfolding uvm_def um F(3) vp ke list.set(2) insert_iff by blast
  moreover have fl: "freelist s' = v" by (subst sx) simp
  have "s' = s\<lparr>mem := mem s', freelist := freelist s'\<rparr>" unfolding fl by (rule sx)
  ultimately show ?thesis using k(1) F(2,3) fr by blast
qed

lemma undone_intro:
  assumes u0: "uvm s0 pgdir (ys @ xs)" and g: "grown pgdir a0 a s0 ys xs s"
    and le: "a0 \<le> a" and ab: "a \<le> b"
    and np: "unmapped (mem s0) pgdir a b"
    and u: "uvm s' pgdir ws" and ws: "set ws = mapped_pages (mem s) pgdir a0 b \<union> set xs"
    and e: "pte_of (mem s') pgdir = unmap_range (pte_of (mem s) pgdir) a0 b"
    and tp: "table_page (mem s') pgdir = table_page (mem s) pgdir"
    and fr: "\<And>c. \<not> table_page (mem s) pgdir (PGROUNDDOWN c) \<Longrightarrow> PGROUNDDOWN c \<notin> set ws \<Longrightarrow>
              mem s' c = mem s c"
    and sx: "s' = s\<lparr>mem := mem s', freelist := freelist s'\<rparr>"
  shows "undone pgdir a0 b s0 (ys @ xs) s'"
proof -
  have mp: "mapped_pages (mem s) pgdir a0 b = mapped_pages (mem s) pgdir a0 a"
  proof -
    have "present (pte_of (mem s) pgdir va) \<Longrightarrow> PGROUNDDOWN va < a"
      if "a0 \<le> PGROUNDDOWN va" "PGROUNDDOWN va < b" for va
      using grownD(2)[OF g, of va] unmappedD[OF np, of va] that by (metis not_le)
    then show ?thesis unfolding mapped_pages_def using less_le_trans[OF _ ab] by blast
  qed
  have my: "mapped_pages (mem s) pgdir a0 a \<subseteq> set ys"
    unfolding mapped_pages_def using grown_new(3)[OF g] by blast
  have nt: "\<not> table_page (mem s0) pgdir p" if "p \<in> set (ys @ xs)" for p
    using table_page_aligned(2)[OF uvm_parts(1)[OF u0], of p] that by blast
  have nx: "\<not> table_page (mem s) pgdir p" if "p \<in> set xs" for p
    using table_page_aligned(2)[OF uvm_parts(1)[OF grownD(1)[OF g]], of p] that by blast
  have all: "set ws \<union> {p. table_page (mem s') pgdir p \<and> \<not> table_page (mem s0) pgdir p} = set (ys @ xs)"
    (is "?A = ?B")
  proof
    show "?A \<subseteq> ?B" using my grownD(4)[OF g] unfolding ws mp tp by auto
    show "?B \<subseteq> ?A" using grownD(5)[OF g] nt unfolding ws mp tp by auto
  qed
  show ?thesis
    unfolding undone_def
  proof (intro conjI allI impI)
    show "\<exists>ws. uvm s' pgdir ws \<and>
        set ws \<union> {p. table_page (mem s') pgdir p \<and> \<not> table_page (mem s0) pgdir p} = set (ys @ xs)"
      using u all by blast
  next
    fix va assume r: "\<not> (a0 \<le> PGROUNDDOWN va \<and> PGROUNDDOWN va < b)"
    then have "\<not> (a0 \<le> PGROUNDDOWN va \<and> PGROUNDDOWN va < a)" using less_le_trans[OF _ ab] by blast
    from grownD(2)[OF g this] r show "pte_of (mem s') pgdir va = pte_of (mem s0) pgdir va"
      unfolding e unmap_range_def by auto
  next
    show "unmapped (mem s') pgdir a0 b" unfolding unmapped_def e unmap_range_def by simp
  next
    fix c assume c: "\<not> table_page (mem s0) pgdir (PGROUNDDOWN c)" "PGROUNDDOWN c \<notin> set (ys @ xs)"
    then have "\<not> table_page (mem s) pgdir (PGROUNDDOWN c)" using grownD(4)[OF g] by auto
    moreover have "PGROUNDDOWN c \<notin> set ws" using c(2) all by blast
    ultimately show "mem s' c = mem s0 c" using fr[of c] grownD(6)[OF g c(1)] c(2) by simp
  next
    show "s' = s0\<lparr>mem := mem s', freelist := freelist s'\<rparr>"
      using sx grownD(7)[OF g] by (metis kmem.surjective kmem.update_convs(1,2) kmem.ext_inject)
  qed
qed

lemma mapped_pages_cong:
  "pte_of m' pgdir = pte_of m pgdir \<Longrightarrow> mapped_pages m' pgdir a b = mapped_pages m pgdir a b"
  by (simp add: mapped_pages_def upage_def)

lemma allocuvm_give_up:
  assumes u0: "uvm s0 pgdir (ys @ xs)" and g: "grown pgdir (PGROUNDUP oldsz) a s0 ys xs s"
    and le: "PGROUNDUP oldsz \<le> a" and ab: "a < newsz" and on: "oldsz < newsz" "newsz < KERNBASE"
    and np: "unmapped (mem s0) pgdir a newsz"
    and al: "page_aligned a"
  shows "xs = [] \<Longrightarrow> \<exists>s'. deallocuvm pgdir newsz oldsz s = Ok (oldsz, s') \<and>
           undone pgdir (PGROUNDUP oldsz) newsz s0 (ys @ xs) s'"
    and "xs = [v] \<Longrightarrow> \<exists>s1 s'.
           deallocuvm pgdir newsz oldsz (s\<lparr>freelist := mem s v, mem := page_fill v 0 (mem s)\<rparr>)
             = Ok (oldsz, s1) \<and> kfree v s1 = Ok s' \<and>
           undone pgdir (PGROUNDUP oldsz) newsz s0 (ys @ xs) s'"
proof -
  note us = grownD(1)[OF g] and ab' = less_imp_le[OF ab] and kb = less_imp_le[OF on(2)]
  note I = undone_intro[OF u0 g le ab' np]
  {
    assume x: "xs = []"
    from deallocuvm_ok[OF us on(1) kb] obtain s' fs where
      d: "deallocuvm pgdir newsz oldsz s = Ok (oldsz, s')" and
      sh: "shrunk pgdir (PGROUNDUP oldsz) newsz s fs xs s'" by blast
    have "undone pgdir (PGROUNDUP oldsz) newsz s0 (ys @ xs) s'"
      by (rule I[where ws = "fs @ xs"]) (use sh x in \<open>auto simp: shrunk_def\<close>)
    then show "\<exists>s'. deallocuvm pgdir newsz oldsz s = Ok (oldsz, s') \<and>
        undone pgdir (PGROUNDUP oldsz) newsz s0 (ys @ xs) s'" using d by blast
  next
    assume x: "xs = [v]"
    let ?s = "s\<lparr>freelist := mem s v, mem := page_fill v 0 (mem s)\<rparr>"
    have "\<forall>a. PGROUNDDOWN a \<noteq> v \<longrightarrow> page_fill v 0 (mem s) a = mem s a" by (simp add: page_fill_def)
    note T = uvm_take_page[OF us[unfolded x] this]
    from deallocuvm_ok[OF T(1) on(1) kb] obtain s1 fs where
      d: "deallocuvm pgdir newsz oldsz ?s = Ok (oldsz, s1)" and
      sh: "shrunk pgdir (PGROUNDUP oldsz) newsz ?s fs [] s1" by blast
    have fs: "set fs = mapped_pages (mem s) pgdir (PGROUNDUP oldsz) newsz"
      using sh mapped_pages_cong[OF T(2)] unfolding shrunk_def by simp
    have e1: "pte_of (mem s1) pgdir = unmap_range (pte_of (mem s) pgdir) (PGROUNDUP oldsz) newsz"
      using sh T(2) unfolding shrunk_def by simp
    have t1: "table_page (mem s1) pgdir = table_page (mem s) pgdir"
      using sh T(3) unfolding shrunk_def by simp
    have x1: "s1 = ?s\<lparr>mem := mem s1, freelist := freelist s1\<rparr>" and u1: "uvm s1 pgdir (fs @ [])"
      using sh unfolding shrunk_def by blast+
    have v1: "valid_page s1 v" using T(4) by (subst x1) (simp add: valid_page_def)
    have m1: "umapped (mem s) pgdir va \<and> upage (mem s) pgdir va = upage (mem s1) pgdir va"
      if "umapped (mem s1) pgdir va" for va
      using that unfolding umapped_def upage_def e1 unmap_range_def by (auto split: if_splits)
    have nm: "upage (mem s1) pgdir va \<noteq> v" if "umapped (mem s1) pgdir va" for va
      using m1[OF that] T(7) by metis
    have below: "va < KERNBASE" if "PGROUNDDOWN va < newsz" for va
      using that on(2) below_KERNBASE_page[of va] by (meson less_trans)
    have vf: "v \<notin> set (fs @ [])"
      unfolding append_Nil2 fs mapped_pages_def using T(7) below by (auto simp: umapped_def)
    have vt: "\<not> table_page (mem s1) pgdir v" using T(6) unfolding t1 .
    from uvm_kfree[OF u1 v1 vf vt nm] obtain s' where
      k: "kfree v s1 = Ok s'" "uvm s' pgdir (v # fs @ [])" "pte_of (mem s') pgdir = pte_of (mem s1) pgdir"
        "table_page (mem s') pgdir = table_page (mem s1) pgdir"
      and fr: "\<And>c. PGROUNDDOWN c \<noteq> v \<Longrightarrow> mem s' c = mem s1 c"
      and sx: "s' = s1\<lparr>mem := mem s', freelist := freelist s'\<rparr>" by blast
    have f1: "mem s1 c = mem ?s c"
      if "\<not> table_page (mem s) pgdir (PGROUNDDOWN c)" "PGROUNDDOWN c \<notin> set fs" for c
      using sh that T(3) unfolding shrunk_def by simp
    have "undone pgdir (PGROUNDUP oldsz) newsz s0 (ys @ xs) s'"
    proof (rule I[where ws = "v # fs"])
      show "uvm s' pgdir (v # fs)" using k(2) by simp
      show "set (v # fs) = mapped_pages (mem s) pgdir (PGROUNDUP oldsz) newsz \<union> set xs"
        using fs x by auto
      fix c assume "\<not> table_page (mem s) pgdir (PGROUNDDOWN c)" "PGROUNDDOWN c \<notin> set (v # fs)"
      then show "mem s' c = mem s c" using fr[of c] f1[of c] by (simp add: page_fill_def)
    next
      show "s' = s\<lparr>mem := mem s', freelist := freelist s'\<rparr>"
        using sx x1 by (metis (no_types, lifting) kmem.surjective kmem.update_convs(1,2) kmem.ext_inject)
    qed (use k(3,4) e1 t1 in simp_all)
    then show "\<exists>s1 s'. deallocuvm pgdir newsz oldsz ?s = Ok (oldsz, s1) \<and> kfree v s1 = Ok s' \<and>
        undone pgdir (PGROUNDUP oldsz) newsz s0 (ys @ xs) s'" using d k(1) by blast
  }
qed

lemma grown_end_cong:
  assumes "grown pgdir a b s ys zs s'" and "\<And>va. PGROUNDDOWN va < b \<longleftrightarrow> PGROUNDDOWN va < c"
  shows "grown pgdir a c s ys zs s'"
  using assms(1) unfolding grown_def mapped_pages_def assms(2) .

lemma page_below_end:
  assumes "page_aligned b" and "c \<le> b" and "unat b < unat c + 4096"
  shows "PGROUNDDOWN va < b \<longleftrightarrow> PGROUNDDOWN va < c"
proof
  assume lt: "PGROUNDDOWN va < b"
  obtain q where q: "unat b = 4096 * q" using assms(1) by (auto simp: page_aligned_unat_dvd dvd_def)
  have v: "unat (PGROUNDDOWN va) = unat va div 4096 * 4096" by (rule unat_PGROUNDDOWN)
  have "unat va div 4096 * 4096 < 4096 * q" using lt by (simp add: word_less_nat_alt q v)
  then have "unat va div 4096 < q" by simp
  then have "unat va div 4096 * 4096 + 4096 \<le> 4096 * q" by simp
  then show "PGROUNDDOWN va < c" using assms(3) by (simp add: word_less_nat_alt q v)
next
  assume "PGROUNDDOWN va < c"
  then show "PGROUNDDOWN va < b" using assms(2) by (rule less_le_trans)
qed

lemma allocuvm_loop_ok:
  assumes "uvm s0 pgdir (ys @ xs)" and "grown pgdir (PGROUNDUP oldsz) a s0 ys xs s"
    and "PGROUNDUP oldsz \<le> a" and "page_aligned a" and "oldsz < newsz" and "newsz < KERNBASE"
    and "unat a < unat newsz + 4096" and "unat newsz \<le> unat a + 4096 * k"
    and "unmapped (mem s0) pgdir (PGROUNDUP oldsz) newsz"
  shows "(\<exists>s' ys' zs. allocuvm_loop (Suc k) pgdir a oldsz newsz s = Ok (newsz, s') \<and>
            ys @ xs = ys' @ zs \<and> grown pgdir (PGROUNDUP oldsz) newsz s0 ys' zs s') \<or>
         (\<exists>s'. allocuvm_loop (Suc k) pgdir a oldsz newsz s = Ok (0, s') \<and>
            undone pgdir (PGROUNDUP oldsz) newsz s0 (ys @ xs) s')"
  using assms
proof (induction k arbitrary: s ys xs a)
  case 0
  then have "\<not> a < newsz" by (simp add: word_less_nat_alt)
  then have "grown pgdir (PGROUNDUP oldsz) newsz s0 ys xs s"
    using grown_end_cong[OF 0(2) page_below_end[OF 0(4) _ 0(7)]] by simp
  then show ?case using \<open>\<not> a < newsz\<close> by auto
next
  case (Suc k)
  note u0 = Suc(2) and g = Suc(3) and le = Suc(4) and al = Suc(5) and on = Suc(6,7) and np = Suc(10)
  show ?case
  proof (cases "a < newsz")
    case False
    then have "grown pgdir (PGROUNDUP oldsz) newsz s0 ys xs s"
      using grown_end_cong[OF g page_below_end[OF al _ Suc(8)]] by simp
    then show ?thesis using False by auto
  next
    case ab: True
    then have ak: "a < KERNBASE" using on(2) by (rule less_trans)
    note us = grownD(1)[OF g] and nx = page_next(1)[OF al ak]
    note np' = unmapped_mono[OF np le]
    note G = allocuvm_give_up[OF u0 g le ab on np' al]
    note L = allocuvm_loop.simps(2)[of "Suc k" pgdir a oldsz newsz s]
    show ?thesis
    proof (cases xs)
      case Nil
      have "kalloc s = (0, s)"
        using uvm_parts(3)[OF us] by (simp add: Nil free_pages_def kalloc_def)
      then show ?thesis using G(1)[OF Nil] ab unfolding L by auto
    next
      case (Cons v vs)
      let ?s1 = "s\<lparr>freelist := mem s v, mem := page_fill v 0 (mem s)\<rparr>"
      have v0: "v \<noteq> 0" using uvm_parts(3)[OF us] by (auto simp: Cons free_pages_def)
      have ka: "kalloc s = (v, s\<lparr>freelist := mem s v\<rparr>)"
        by (rule kalloc_ok(1)) (use uvm_parts(3)[OF us] Cons in simp)
      have a: "PGROUNDDOWN a = a" by (rule PGROUNDDOWN_aligned[OF al])
      have npa: "\<not> present (pte_of (mem s) pgdir a)"
        using grownD(2)[OF g, of a] unmappedD[OF np', of a] ab a by simp
      have L': "allocuvm_loop (Suc (Suc k)) pgdir a oldsz newsz s =
          bindR (mappages pgdir a PGSIZE (V2P v) (PTE_W OR PTE_U) ?s1) (\<lambda>(r, s).
            if r < 0 then bindR (deallocuvm pgdir newsz oldsz s) (\<lambda>(_, s).
                            bindR (kfree v s) (\<lambda>s. Ok (0, s)))
            else allocuvm_loop (Suc k) pgdir (a + PGSIZE) oldsz newsz s)"
        unfolding L using ab v0 by (simp add: ka)
      from grow_page[OF us[unfolded Cons] al ak npa] show ?thesis
      proof (elim disjE conjE exE)
        assume "vs = []" "mappages pgdir a PGSIZE (V2P v) (PTE_W OR PTE_U) ?s1 = Ok (-1, ?s1)"
        then show ?thesis using G(2)[of v] Cons unfolding L' by auto
      next
        fix s' ys' zs
        assume m: "mappages pgdir a PGSIZE (V2P v) (PTE_W OR PTE_U) ?s1 = Ok (0, s')"
          and vs: "vs = ys' @ zs" and g1: "grown pgdir a (a + PGSIZE) s (v # ys') zs s'"
        have xs: "xs = (v # ys') @ zs" by (simp add: Cons vs)
        have le1: "a \<le> a + PGSIZE" by (simp add: word_le_nat_alt nx)
        have g2: "grown pgdir (PGROUNDUP oldsz) (a + PGSIZE) s0 (ys @ v # ys') zs s'"
          by (rule grown_trans[OF g g1 xs le le1 less_imp_le[OF ak]])
        have app: "ys @ xs = (ys @ v # ys') @ zs" by (simp add: xs)
        have "(\<exists>s'' ys'' zs'. allocuvm_loop (Suc k) pgdir (a + PGSIZE) oldsz newsz s' = Ok (newsz, s'') \<and>
              (ys @ v # ys') @ zs = ys'' @ zs' \<and> grown pgdir (PGROUNDUP oldsz) newsz s0 ys'' zs' s'') \<or>
            (\<exists>s''. allocuvm_loop (Suc k) pgdir (a + PGSIZE) oldsz newsz s' = Ok (0, s'') \<and>
              undone pgdir (PGROUNDUP oldsz) newsz s0 ((ys @ v # ys') @ zs) s'')"
        proof (rule Suc.IH[OF u0[unfolded app] g2 _ _ on])
          show "PGROUNDUP oldsz \<le> a + PGSIZE" using le le1 by (rule order_trans)
          show "page_aligned (a + PGSIZE)" using al by (simp add: page_aligned_plus_minus)
          show "unat (a + PGSIZE) < unat newsz + 4096" using ab nx by (simp add: word_less_nat_alt)
          show "unat newsz \<le> unat (a + PGSIZE) + 4096 * k" using Suc(9) nx by simp
        qed (rule np)
        then show ?thesis unfolding L' m app by simp
      qed
    qed
  qed
qed

lemma allocuvm_ok:
  assumes u: "uvm s pgdir xs" and le: "oldsz \<le> newsz" and k: "newsz < KERNBASE"
    and np: "unmapped (mem s) pgdir (PGROUNDUP oldsz) newsz"
  shows "(\<exists>s' ys zs. allocuvm pgdir oldsz newsz s = Ok (newsz, s') \<and>
            xs = ys @ zs \<and> grown pgdir (PGROUNDUP oldsz) newsz s ys zs s') \<or>
         (\<exists>s'. allocuvm pgdir oldsz newsz s = Ok (0, s') \<and>
            undone pgdir (PGROUNDUP oldsz) newsz s xs s')"
proof -
  have ok: "unat oldsz + 4095 < 2 ^ 32"
    using le k by (simp add: word_le_nat_alt word_less_nat_alt KERNBASE_def)
  have nk: "unat newsz < 2147483648" using k by (simp add: word_less_nat_alt KERNBASE_def)
  have al: "page_aligned (PGROUNDUP oldsz)"
    by (simp add: page_aligned_def PGROUNDUP_def mask_numerals unat_and_not_mask)
  have pu: "unat (PGROUNDUP oldsz) = (unat oldsz + 4095) div 4096 * 4096" by (rule unat_PGROUNDUP[OF ok])
  have hi: "unat (PGROUNDUP oldsz) < unat oldsz + 4096"
    unfolding pu using div_times_less_eq_dividend[of "unat oldsz + 4095" 4096] by simp
  have lo: "unat oldsz \<le> unat (PGROUNDUP oldsz)"
    unfolding pu using div_mult_mod_eq[of "unat oldsz + 4095" 4096] pos_mod_bound[of 4096 "int (unat oldsz + 4095)"]
      mod_less_divisor[of 4096 "unat oldsz + 4095"] by linarith
  have A: "allocuvm pgdir oldsz newsz s =
      allocuvm_loop (Suc 1048575) pgdir (PGROUNDUP oldsz) oldsz newsz s"
  proof -
    have "(2 :: nat) ^ 20 = Suc 1048575" by simp
    then show ?thesis unfolding allocuvm_def using le k by (simp only: not_le not_less if_False) auto
  qed
  show ?thesis
  proof (cases "oldsz = newsz")
    case True
    have "\<not> PGROUNDUP oldsz < newsz" using lo True by (simp add: word_less_nat_alt)
    moreover have "grown pgdir (PGROUNDUP oldsz) newsz s [] xs s"
      by (rule grown_end_cong[OF grown_refl[OF u] page_below_end[OF al]])
        (use lo hi True in \<open>simp_all add: word_le_nat_alt\<close>)
    ultimately show ?thesis unfolding A allocuvm_loop.simps(2) by auto
  next
    case False
    then have lt: "oldsz < newsz" using le by simp
    have "unat newsz \<le> unat (PGROUNDUP oldsz) + 4096 * 1048575" using nk by simp
    moreover have "unat (PGROUNDUP oldsz) < unat newsz + 4096" using hi le by (simp add: word_le_nat_alt)
    ultimately show ?thesis
      using allocuvm_loop_ok[of s pgdir "[]" xs oldsz "PGROUNDUP oldsz" s newsz 1048575,
          OF _ grown_refl[OF u] order_refl al lt k _ _ np] u
      unfolding A by simp
  qed
qed

end
