(* ===== verification/Proc_Refine.thy ===== *)
theory Proc_Refine
  imports Sched_Spec Proc_Table Vm_User
begin

text \<open>
  The process table of \<^verbatim>\<open>src/xv6/proc.c\<close> implements the abstract scheduler. \<open>refines s a\<close>
  relates the table to the abstract state it represents; each operation is shown to succeed
  and to simulate its abstract counterpart. The invariant \<open>ptable_ok\<close> is kept by every step
  of the transition relation \<open>pstep\<close>, whose rules are the critical sections of
  \<^verbatim>\<open>ptable.lock\<close>.
\<close>

section \<open>The simulation relation\<close>

definition absr :: "'a ptable_scheme \<Rightarrow> (u32 \<Rightarrow> nat list) \<Rightarrow> sched_abs" where
  "absr s qs =
     \<lparr>a_state = (\<lambda>p. p_state (procs s p)), a_prio = (\<lambda>p. p_priority (procs s p)),
      a_chan = (\<lambda>p. p_chan (procs s p)), a_cpu = (\<lambda>c. c_proc (cpus s c)), a_queue = qs\<rparr>"

definition refines :: "'a ptable_scheme \<Rightarrow> sched_abs \<Rightarrow> bool" where
  "refines s a \<longleftrightarrow> queues s (a_queue a) \<and> a = absr s (a_queue a)"

lemma refinesI: "queues s qs \<Longrightarrow> a = absr s qs \<Longrightarrow> refines s a"
  by (simp add: refines_def absr_def)

lemma refinesD:
  assumes "refines s a"
  shows "queues s (a_queue a)" and "a_state a p = p_state (procs s p)"
    and "a_prio a p = p_priority (procs s p)" and "a_chan a p = p_chan (procs s p)"
    and "a_cpu a c = c_proc (cpus s c)"
proof -
  have "queues s (a_queue a)" and e: "a = absr s (a_queue a)" using assms by (simp_all add: refines_def)
  then show "queues s (a_queue a)" by simp
  show "a_state a p = p_state (procs s p)" "a_prio a p = p_priority (procs s p)"
    "a_chan a p = p_chan (procs s p)" "a_cpu a c = c_proc (cpus s c)"
    by (subst e, simp add: absr_def)+
qed

lemma queues_cong:
  "queues s qs \<Longrightarrow> (\<And>p. nx s' p = nx s p) \<Longrightarrow> (\<And>p. pv s' p = pv s p) \<Longrightarrow> queue s' = queue s \<Longrightarrow>
   queues s' qs"
  by (simp add: queues_def)

lemma queues_upd:
  assumes "queues s qs" and "p_next (f (procs s p)) = nx s p" and "p_previous (f (procs s p)) = pv s p"
  shows "queues (upd_proc p f s) qs"
  by (rule queues_cong[OF assms(1)]) (use assms(2,3) in auto)

lemma refines_upd:
  assumes "refines s a" and "p_next (f (procs s p)) = nx s p" and "p_previous (f (procs s p)) = pv s p"
  shows "refines (upd_proc p f s)
     (a\<lparr>a_state := (a_state a)(p := p_state (f (procs s p))),
        a_prio := (a_prio a)(p := p_priority (f (procs s p))),
        a_chan := (a_chan a)(p := p_chan (f (procs s p)))\<rparr>)"
proof (rule refinesI)
  show "queues (upd_proc p f s) (a_queue a)"
    by (rule queues_upd[where f = f and p = p, OF refinesD(1)[OF assms(1)] assms(2,3)])
  have e: "a = absr s (a_queue a)" using assms(1) by (simp add: refines_def)
  have "(absr s qs)\<lparr>a_state := (a_state (absr s qs))(p := p_state (f (procs s p))),
        a_prio := (a_prio (absr s qs))(p := p_priority (f (procs s p))),
        a_chan := (a_chan (absr s qs))(p := p_chan (f (procs s p)))\<rparr> = absr (upd_proc p f s) qs" for qs
    by (auto simp: absr_def fun_eq_iff)
  from this[of "a_queue a", folded e]
  show "a\<lparr>a_state := (a_state a)(p := p_state (f (procs s p))),
        a_prio := (a_prio a)(p := p_priority (f (procs s p))),
        a_chan := (a_chan a)(p := p_chan (f (procs s p)))\<rparr> = absr (upd_proc p f s) (a_queue a)" .
qed

lemma refines_links:
  assumes "refines s a" and "link_change s s'" and "queues s' qs"
  shows "refines s' (a\<lparr>a_queue := qs\<rparr>)"
proof (rule refinesI[OF assms(3)])
  have e: "a = absr s (a_queue a)" using assms(1) by (simp add: refines_def)
  note L = link_change_proc[OF assms(2)] link_change_fields[OF assms(2)]
  have "absr s' qs = (absr s r)\<lparr>a_queue := qs\<rparr>" for r
    by (simp add: absr_def fun_eq_iff L)
  from this[of "a_queue a", folded e] show "a\<lparr>a_queue := qs\<rparr> = absr s' qs" by simp
qed

lemma upd_cpu_simps [simp]:
  "procs (upd_cpu c f s) = procs s" "queue (upd_cpu c f s) = queue s" "initproc (upd_cpu c f s) = initproc s"
  "nextpid (upd_cpu c f s) = nextpid s" "mem (upd_cpu c f s) = mem s" "freelist (upd_cpu c f s) = freelist s"
  "kend (upd_cpu c f s) = kend s" "cpus (upd_cpu c f s) = (cpus s)(c := f (cpus s c))"
  "kpgdir (upd_cpu c f s) = kpgdir s"
  by (simp_all add: upd_cpu_def)

lemma refines_upd_cpu:
  assumes "refines s a" and "c_proc (f (cpus s c)) = r"
  shows "refines (upd_cpu c f s) (a\<lparr>a_cpu := (a_cpu a)(c := r)\<rparr>)"
proof (rule refinesI)
  show "queues (upd_cpu c f s) (a_queue a)"
    by (rule queues_cong[OF refinesD(1)[OF assms(1)]]) auto
  have e: "a = absr s (a_queue a)" using assms by (simp add: refines_def)
  have "(absr s qs)\<lparr>a_cpu := (a_cpu (absr s qs))(c := r)\<rparr> = absr (upd_cpu c f s) qs" for qs
    using assms(2) by (auto simp: absr_def fun_eq_iff)
  from this[of "a_queue a", folded e]
  show "a\<lparr>a_cpu := (a_cpu a)(c := r)\<rparr> = absr (upd_cpu c f s) (a_queue a)" .
qed

lemma refines_cpu:
  assumes "refines s a"
  shows "refines (set_cpu_proc c r s) (a\<lparr>a_cpu := (a_cpu a)(c := r)\<rparr>)"
  unfolding set_cpu_proc_def by (rule refines_upd_cpu[OF assms]) simp

lemma refines_switch:
  assumes "refines s a"
  shows "refines (switchkvm c s) a" and "switchuvm c (Some p) s = Ok s' \<Longrightarrow> refines s' a"
proof -
  have e: "a\<lparr>a_cpu := (a_cpu a)(c := c_proc (cpus s c))\<rparr> = a"
    using refinesD(5)[OF assms, of c] by (simp add: fun_upd_idem)
  have same: "refines (upd_cpu c f s) a" if "c_proc (f (cpus s c)) = c_proc (cpus s c)" for f
    using refines_upd_cpu[of s a f c, OF assms that] unfolding e .
  show "refines (switchkvm c s) a" unfolding switchkvm_def by (rule same) simp
  show "switchuvm c (Some p) s = Ok s' \<Longrightarrow> refines s' a"
    by (auto simp: switchuvm_def split: if_splits intro!: same)
qed

lemma switchuvm_procs: "switchuvm c (Some p) s = Ok s' \<Longrightarrow> procs s' = procs s"
  by (auto simp: switchuvm_def split: if_splits)

lemma switch_simps [simp]:
  "procs (switchkvm c s) = procs s" "mem (switchkvm c s) = mem s" "freelist (switchkvm c s) = freelist s"
  "kend (switchkvm c s) = kend s" "nextpid (switchkvm c s) = nextpid s" "initproc (switchkvm c s) = initproc s"
  "c_proc (cpus (switchkvm c s) d) = c_proc (cpus s d)"
  "procs (set_cpu_proc c r s) = procs s" "mem (set_cpu_proc c r s) = mem s"
  "freelist (set_cpu_proc c r s) = freelist s" "kend (set_cpu_proc c r s) = kend s"
  "nextpid (set_cpu_proc c r s) = nextpid s" "initproc (set_cpu_proc c r s) = initproc s"
  by (simp_all add: switchkvm_def set_cpu_proc_def)

lemma only_mem_procs:
  assumes "only_mem s s'"
  shows "procs s' = procs s" and "queue s' = queue s" and "cpus s' = cpus s"
    and "initproc s' = initproc s" and "nextpid s' = nextpid s"
proof -
  have e: "s' = s\<lparr>mem := mem s', freelist := freelist s'\<rparr>" using assms by (simp add: only_mem_def)
  show "procs s' = procs s" "queue s' = queue s" "cpus s' = cpus s" "initproc s' = initproc s"
    "nextpid s' = nextpid s" by (subst e, simp)+
qed

lemma refines_mem:
  assumes "refines s a" and "only_mem s s'"
  shows "refines s' a"
  using assms(1) only_mem_procs[OF assms(2)] by (simp add: refines_def absr_def queues_def)

section \<open>Becoming runnable\<close>

lemma make_runnable_refines:
  assumes r: "refines s a" and p: "\<And>pr. p \<notin> set (a_queue a pr)" and lt: "a_prio a p < NUM_PRIO"
  shows "\<exists>s'. make_runnable p s = Ok s' \<and> refines s' (a_ready p a) \<and>
           link_change (upd_proc p (\<lambda>q. q\<lparr>p_state := RUNNABLE\<rparr>) s) s'"
proof -
  let ?s = "upd_proc p (\<lambda>q. q\<lparr>p_state := RUNNABLE\<rparr>) s"
  note D = refinesD[OF r]
  have r1: "refines ?s (a\<lparr>a_state := (a_state a)(p := RUNNABLE)\<rparr>)"
    using refines_upd[OF r, of "\<lambda>q. q\<lparr>p_state := RUNNABLE\<rparr>" p] by (simp add: D fun_upd_idem)
  have "queues ?s (a_queue a)" using refinesD(1)[OF r1] by simp
  moreover have "p_priority (procs ?s p) = a_prio a p" by (simp add: D)
  ultimately obtain s' where s': "enqueue p ?s = Ok s'" "link_change ?s s'"
    "queues s' ((a_queue a)(a_prio a p := a_queue a (a_prio a p) @ [p]))"
    using enqueue_ok[of ?s "a_queue a" p "a_prio a p"] p lt by blast
  from refines_links[OF r1 s'(2,3)] have "refines s' (a_ready p a)" by (simp add: a_ready_def)
  with s'(1,2) show ?thesis by (auto simp: make_runnable_def)
qed

lemma not_runnable_not_queued:
  "sched_ok a \<Longrightarrow> a_state a p \<noteq> RUNNABLE \<Longrightarrow> p \<notin> set (a_queue a pr)"
  by (simp add: sched_okD(2))

lemma wakeup_one_refines:
  assumes r: "refines s a" and ok: "sched_ok a" and p: "p < NPROC"
  shows "\<exists>s'. wakeup_one ch p s = Ok s' \<and> refines s' (a_wake_one ch p a)"
proof (cases "a_state a p = SLEEPING \<and> a_chan a p = ch")
  case True
  have "p \<notin> set (a_queue a pr)" for pr using not_runnable_not_queued[OF ok] True by auto
  then show ?thesis
    using make_runnable_refines[OF r _ sched_okD(3)[OF ok p]] True refinesD[OF r]
    by (auto simp: wakeup_one_def a_wake_one_def)
next
  case False
  then show ?thesis using r refinesD[OF r] by (auto simp: wakeup_one_def a_wake_one_def)
qed

lemma wakeup1_refines:
  assumes "refines s a" and "sched_ok a"
  shows "\<exists>s'. wakeup1 ch s = Ok s' \<and> refines s' (a_wakeup ch a) \<and> sched_ok (a_wakeup ch a)"
proof -
  have "set ps \<subseteq> {..<NPROC} \<Longrightarrow> refines s a \<Longrightarrow> sched_ok a \<Longrightarrow>
      \<exists>s'. foldR (wakeup_one ch) ps s = Ok s' \<and> refines s' (fold (a_wake_one ch) ps a)" for ps
  proof (induction ps arbitrary: s a)
    case (Cons p ps)
    then have p: "p < NPROC" by simp
    from wakeup_one_refines[OF Cons.prems(2,3) p] obtain s1 where
      "wakeup_one ch p s = Ok s1" "refines s1 (a_wake_one ch p a)" by blast
    then show ?case
      using Cons.IH[OF _ _ sched_ok_wake_one[OF Cons.prems(3) p]] Cons.prems(1) by auto
  qed auto
  from this[of "[0..<NPROC]"] assms sched_ok_wakeup[OF assms(2)] show ?thesis
    by (simp add: wakeup1_def a_wakeup_def lessThan_atLeast0)
qed

text \<open>What \<^verbatim>\<open>wakeup1\<close> does, in closed form.\<close>

lemma a_wakeup_eq:
  assumes "sched_ok a"
  shows "a_wakeup ch a =
     a\<lparr>a_state := (\<lambda>p. if p < NPROC \<and> a_state a p = SLEEPING \<and> a_chan a p = ch
                       then RUNNABLE else a_state a p),
       a_queue := (\<lambda>pr. a_queue a pr @
                     filter (\<lambda>p. a_state a p = SLEEPING \<and> a_chan a p = ch \<and> a_prio a p = pr) [0..<NPROC])\<rparr>"
proof -
  have "distinct ps \<Longrightarrow> fold (a_wake_one ch) ps a =
     a\<lparr>a_state := (\<lambda>p. if p \<in> set ps \<and> a_state a p = SLEEPING \<and> a_chan a p = ch
                       then RUNNABLE else a_state a p),
       a_queue := (\<lambda>pr. a_queue a pr @
                     filter (\<lambda>p. a_state a p = SLEEPING \<and> a_chan a p = ch \<and> a_prio a p = pr) ps)\<rparr>"
    for ps
  proof (induction ps rule: rev_induct)
    case (snoc p ps)
    then have p: "p \<notin> set ps" and IH: "fold (a_wake_one ch) ps a =
     a\<lparr>a_state := (\<lambda>p. if p \<in> set ps \<and> a_state a p = SLEEPING \<and> a_chan a p = ch
                       then RUNNABLE else a_state a p),
       a_queue := (\<lambda>pr. a_queue a pr @
                     filter (\<lambda>p. a_state a p = SLEEPING \<and> a_chan a p = ch \<and> a_prio a p = pr) ps)\<rparr>"
      by auto
    have "fold (a_wake_one ch) (ps @ [p]) a = a_wake_one ch p (fold (a_wake_one ch) ps a)" by simp
    also have "\<dots> = a\<lparr>a_state := (\<lambda>q. if q \<in> set (ps @ [p]) \<and> a_state a q = SLEEPING \<and> a_chan a q = ch
                       then RUNNABLE else a_state a q),
       a_queue := (\<lambda>pr. a_queue a pr @
                     filter (\<lambda>p. a_state a p = SLEEPING \<and> a_chan a p = ch \<and> a_prio a p = pr) (ps @ [p]))\<rparr>"
      unfolding IH a_wake_one_def a_ready_def using p by (auto simp: fun_eq_iff)
    finally show ?case .
  qed simp
  from this[of "[0..<NPROC]"] show ?thesis by (simp add: a_wakeup_def)
qed

section \<open>What the operations leave alone\<close>

lemma enqueue_links: "enqueue p s = Ok s' \<Longrightarrow> link_change s s'"
  unfolding enqueue_def Let_def
  by (auto split: if_splits option.splits
      intro!: link_change_intros link_change_trans[OF link_change_queue link_change_upd])

lemma dequeue_links: "dequeue p s = Ok s' \<Longrightarrow> link_change s s'"
  unfolding dequeue_def Let_def
  by (auto split: if_splits option.splits
      intro!: link_change_intros link_change_trans[OF _ link_change_queue])

text \<open>A process without its state, its channel and its links.\<close>

definition static :: "'a ptable_scheme \<Rightarrow> nat \<Rightarrow> proc" where
  "static s q = (procs s q)\<lparr>p_state := UNUSED, p_chan := None, p_previous := None, p_next := None\<rparr>"

lemma static_fields:
  assumes "static s' = static s"
  shows "p_kstack (procs s' q) = p_kstack (procs s q)" and "p_pgdir (procs s' q) = p_pgdir (procs s q)"
    and "p_pid (procs s' q) = p_pid (procs s q)" and "p_parent (procs s' q) = p_parent (procs s q)"
    and "p_killed (procs s' q) = p_killed (procs s q)" and "p_status (procs s' q) = p_status (procs s q)"
    and "p_priority (procs s' q) = p_priority (procs s q)"
proof -
  have e: "static s' q = static s q" using assms by simp
  show "p_kstack (procs s' q) = p_kstack (procs s q)" "p_pgdir (procs s' q) = p_pgdir (procs s q)"
    "p_pid (procs s' q) = p_pid (procs s q)" "p_parent (procs s' q) = p_parent (procs s q)"
    "p_killed (procs s' q) = p_killed (procs s q)" "p_status (procs s' q) = p_status (procs s q)"
    "p_priority (procs s' q) = p_priority (procs s q)"
    using arg_cong[OF e, of p_kstack] arg_cong[OF e, of p_pgdir] arg_cong[OF e, of p_pid]
      arg_cong[OF e, of p_parent] arg_cong[OF e, of p_killed] arg_cong[OF e, of p_status]
      arg_cong[OF e, of p_priority] by (simp_all add: static_def)
qed

lemma static_link_change: "link_change s s' \<Longrightarrow> static s' = static s"
proof (rule ext)
  fix q assume "link_change s s'"
  then obtain a b where "procs s' q = (procs s q)\<lparr>p_previous := a, p_next := b\<rparr>"
    unfolding link_change_def by blast
  then show "static s' q = static s q" by (simp add: static_def)
qed

lemma static_upd:
  "(f (procs s p))\<lparr>p_state := UNUSED, p_chan := None, p_previous := None, p_next := None\<rparr> = static s p
   \<Longrightarrow> static (upd_proc p f s) = static s"
  by (auto simp: static_def fun_eq_iff)

lemma make_runnable_static: "make_runnable p s = Ok s' \<Longrightarrow> static s' = static s"
  unfolding make_runnable_def
  by (drule enqueue_links, drule static_link_change) (simp add: static_upd static_def)

lemma wakeup1_static: "wakeup1 ch s = Ok s' \<Longrightarrow> static s' = static s"
  unfolding wakeup1_def
  by (rule foldR_frame[where f = "wakeup_one ch"])
    (auto simp: wakeup_one_def split: if_splits dest: make_runnable_static)

lemma sched_static: "sched c s = Ok s' \<Longrightarrow> static s' = static s"
  by (auto simp: sched_def static_def fun_eq_iff split: option.splits if_splits)

text \<open>Every process that can run has a kernel stack and a page table.\<close>

definition live_ok :: "'a ptable_scheme \<Rightarrow> bool" where
  "live_ok s \<longleftrightarrow>
     (\<forall>p<NPROC. p_state (procs s p) \<in> {SLEEPING, RUNNABLE, RUNNING} \<longrightarrow>
        p_kstack (procs s p) \<noteq> 0 \<and> p_pgdir (procs s p) \<noteq> 0)"

lemma live_ok_static:
  assumes "live_ok s" and "static s' = static s"
    and "\<And>p. p < NPROC \<Longrightarrow> p_state (procs s' p) \<in> {SLEEPING, RUNNABLE, RUNNING} \<Longrightarrow>
           p_state (procs s p) \<in> {SLEEPING, RUNNABLE, RUNNING}"
  shows "live_ok s'"
  using assms(1,3) static_fields(1,2)[OF assms(2)] unfolding live_ok_def by metis

definition ptable_ok :: "'a ptable_scheme \<Rightarrow> bool" where
  "ptable_ok s \<longleftrightarrow> (\<exists>a. refines s a \<and> sched_ok a) \<and> live_ok s"

section \<open>Leaving the processor\<close>

lemma sched_refines:
  assumes "refines s a" and "a_cpu a c = Some p" and "a_state a p \<noteq> RUNNING"
  shows "\<exists>s'. sched c s = Ok s' \<and> refines s' (a_leave c a)"
  using assms refines_cpu[OF refines_switch(1)[OF assms(1)], of c None c] refinesD[OF assms(1)]
  by (auto simp: sched_def myproc_def a_leave_def)

lemma yield_refines:
  assumes r: "refines s a" and ok: "sched_ok a" and p: "a_cpu a c = Some p"
  shows "\<exists>s'. yield c s = Ok s' \<and> refines s' (a_leave c (a_ready p a)) \<and> static s' = static s"
proof -
  note P = sched_okD(4)[OF ok p]
  have "p \<notin> set (a_queue a pr)" for pr using not_runnable_not_queued[OF ok] P by auto
  from make_runnable_refines[OF r this] sched_okD(3)[OF ok, of p] P obtain s1 where
    1: "make_runnable p s = Ok s1" "refines s1 (a_ready p a)" by blast
  have "a_cpu (a_ready p a) c = Some p" "a_state (a_ready p a) p \<noteq> RUNNING"
    using p by (simp_all add: a_ready_def)
  from sched_refines[OF 1(2) this] obtain s' where
    2: "sched c s1 = Ok s'" "refines s' (a_leave c (a_ready p a))" by blast
  have "yield c s = Ok s'" using 1(1) 2(1) p refinesD(5)[OF r, of c] by (simp add: yield_def myproc_def)
  then show ?thesis using 2 make_runnable_static[OF 1(1)] sched_static[OF 2(1)] by auto
qed

lemma sleep_refines:
  assumes r: "refines s a" and p: "a_cpu a c = Some p"
  shows "\<exists>s'. sleep c ch s = Ok s' \<and> static s' = static s \<and>
     refines s' (a_leave c (a\<lparr>a_state := (a_state a)(p := SLEEPING),
                              a_chan := (a_chan a)(p := Some ch)\<rparr>))"
proof -
  let ?f = "\<lambda>q. q\<lparr>p_chan := Some ch, p_state := SLEEPING\<rparr>"
  let ?a = "a\<lparr>a_state := (a_state a)(p := SLEEPING), a_chan := (a_chan a)(p := Some ch)\<rparr>"
  have r1: "refines (upd_proc p ?f s) ?a"
    using refines_upd[OF r, of ?f p] by (simp add: refinesD(3)[OF r, symmetric])
  have "a_cpu ?a c = Some p" "a_state ?a p \<noteq> RUNNING" using p by simp_all
  from sched_refines[OF r1 this] obtain s' where
    2: "sched c (upd_proc p ?f s) = Ok s'" "refines s' (a_leave c ?a)" by blast
  have "static (upd_proc p ?f s) = static s" by (rule static_upd) (simp add: static_def)
  then show ?thesis
    using 2 p refinesD(5)[OF r, of c] sched_static[OF 2(1)] by (auto simp: sleep_def myproc_def)
qed

section \<open>Running a process\<close>

lemma scheduler_pick_eq:
  assumes "refines s a"
  shows "scheduler_pick s = a_next a"
proof -
  have "queue s pr = (case a_queue a pr of [] \<Rightarrow> None | p # _ \<Rightarrow> Some p)" for pr
    using queues_cdll[OF refinesD(1)[OF assms], of pr] by (cases "a_queue a pr") (auto simp: cdll_def)
  then show ?thesis by (auto simp: scheduler_pick_def a_next_def split: list.splits)
qed

lemma a_next_queued:
  "a_next a = Some p \<Longrightarrow> \<exists>pr. p \<in> set (a_queue a pr)"
  by (auto simp: a_next_def split: list.splits) (metis list.set_intros(1))+

lemma scheduler_refines:
  assumes r: "refines s a" and ok: "sched_ok a" and lv: "live_ok s" and n: "a_next a = Some p"
  shows "\<exists>s'. scheduler c s = Ok s' \<and> refines s' (a_dispatch c p a) \<and> static s' = static s"
proof -
  from a_next_queued[OF n] have P: "p < NPROC" "a_state a p = RUNNABLE" "p \<in> set (a_queue a (a_prio a p))"
    using sched_okD(2)[OF ok] by auto
  let ?s0 = "set_cpu_proc c (Some p) s"
  have "p_kstack (procs s p) \<noteq> 0" "p_pgdir (procs s p) \<noteq> 0"
    using lv P(1,2) refinesD(2)[OF r, of p] unfolding live_ok_def by auto
  then obtain s1 where sw: "switchuvm c (Some p) ?s0 = Ok s1" by (simp add: switchuvm_def)
  let ?s1 = "s1"
  let ?f = "\<lambda>q. q\<lparr>p_state := RUNNING\<rparr>"
  let ?a1 = "a\<lparr>a_cpu := (a_cpu a)(c := Some p)\<rparr>"
  let ?a2 = "?a1\<lparr>a_state := (a_state a)(p := RUNNING)\<rparr>"
  have r1: "refines ?s1 ?a1" by (rule refines_switch(2)[OF refines_cpu[OF r] sw])
  have r2: "refines (upd_proc p ?f ?s1) ?a2"
    using refines_upd[OF r1, of ?f p] refinesD[OF r1] by (simp add: fun_upd_idem)
  have q: "queues (upd_proc p ?f ?s1) (a_queue a)" using refinesD(1)[OF r2] by simp
  have "p_priority (procs (upd_proc p ?f ?s1) p) = a_prio a p" using refinesD(3)[OF r1, of p] by simp
  from dequeue_ok[OF q P(3) this sched_okD(3)[OF ok P(1)]] obtain s' where
    d: "dequeue p (upd_proc p ?f ?s1) = Ok s'" "link_change (upd_proc p ?f ?s1) s'"
    "queues s' ((a_queue a)(a_prio a p := remove1 p (a_queue a (a_prio a p))))" by blast
  have "refines s' (a_dispatch c p a)"
    using refines_links[OF r2 d(2,3)] by (simp add: a_dispatch_def)
  moreover have "scheduler c s = Ok s'" using sw d(1) n by (simp add: scheduler_def scheduler_pick_eq[OF r])
  moreover have "static (upd_proc p ?f ?s1) = static s"
    using switchuvm_procs[OF sw] by (auto simp: static_def fun_eq_iff)
  then have "static s' = static s" using static_link_change[OF d(2)] by simp
  ultimately show ?thesis by blast
qed

section \<open>Signals and priorities\<close>

lemma refines_upd_same:
  assumes r: "refines s a"
    and "p_next (f (procs s p)) = nx s p" and "p_previous (f (procs s p)) = pv s p"
    and "p_state (f (procs s p)) = p_state (procs s p)"
    and "p_priority (f (procs s p)) = p_priority (procs s p)"
    and "p_chan (f (procs s p)) = p_chan (procs s p)"
  shows "refines (upd_proc p f s) a"
  using refines_upd[where f = f and p = p, OF r assms(2,3)] assms(4-) refinesD[OF r]
  by (simp add: fun_upd_idem)

lemma kill_refines:
  assumes r: "refines s a" and ok: "sched_ok a"
  shows "find_first (\<lambda>p. p_pid (procs s p) = pid) NPROC = None \<Longrightarrow> kill pid s = Ok (-1, s)"
    and "find_first (\<lambda>p. p_pid (procs s p) = pid) NPROC = Some p \<Longrightarrow>
      \<exists>s'. kill pid s = Ok (0, s') \<and>
        refines s' (if a_state a p = SLEEPING then a_ready p a else a) \<and>
        sched_ok (if a_state a p = SLEEPING then a_ready p a else a) \<and>
        static s' = (static s)(p := (static s p)\<lparr>p_killed := True\<rparr>)"
proof -
  show "find_first (\<lambda>p. p_pid (procs s p) = pid) NPROC = None \<Longrightarrow> kill pid s = Ok (-1, s)"
    by (simp add: kill_def)
  assume f: "find_first (\<lambda>p. p_pid (procs s p) = pid) NPROC = Some p"
  then have p: "p < NPROC" by (simp add: find_first_Some)
  let ?s = "upd_proc p (\<lambda>q. q\<lparr>p_killed := True\<rparr>) s"
  have r1: "refines ?s a" by (rule refines_upd_same[OF r]) simp_all
  have st: "static ?s = (static s)(p := (static s p)\<lparr>p_killed := True\<rparr>)"
    by (simp add: static_def fun_eq_iff)
  show "\<exists>s'. kill pid s = Ok (0, s') \<and>
        refines s' (if a_state a p = SLEEPING then a_ready p a else a) \<and>
        sched_ok (if a_state a p = SLEEPING then a_ready p a else a) \<and>
        static s' = (static s)(p := (static s p)\<lparr>p_killed := True\<rparr>)"
  proof (cases "a_state a p = SLEEPING")
    case True
    have "p \<notin> set (a_queue a pr)" for pr using not_runnable_not_queued[OF ok] True by auto
    from make_runnable_refines[OF r1 this sched_okD(3)[OF ok p]] obtain s' where
      s': "make_runnable p ?s = Ok s'" "refines s' (a_ready p a)" by blast
    moreover have "sched_ok (a_ready p a)" using sched_ok_ready[OF ok p] True by simp
    ultimately show ?thesis
      using f True refinesD(2)[OF r, of p] make_runnable_static[OF s'(1)] st
      by (simp add: kill_def Let_def)
  next
    case False
    then show ?thesis using f r1 ok st refinesD(2)[OF r, of p] by (simp add: kill_def Let_def)
  qed
qed

lemma setprio_refines:
  fixes s :: "'a ptable_scheme"
  assumes r: "refines s a" and ok: "sched_ok a" and pr: "prio = HI_PRIO \<or> prio = NORM_PRIO"
    and f: "find_first (\<lambda>p. p_pid (procs s p) = pid \<and> p_state (procs s p) \<noteq> UNUSED) NPROC = Some p"
  shows "\<exists>s'. setprio pid prio s = Ok (0, s') \<and> refines s' (a_setprio p prio a) \<and>
           sched_ok (a_setprio p prio a) \<and> static s' = (static s)(p := (static s p)\<lparr>p_priority := prio\<rparr>)"
proof -
  note D = refinesD[OF r]
  have p: "p < NPROC" using f by (simp add: find_first_Some)
  have lt: "prio < NUM_PRIO" using pr by (auto simp: HI_PRIO_def NORM_PRIO_def NUM_PRIO_def)
  let ?h = "upd_proc p (\<lambda>q. q\<lparr>p_priority := prio\<rparr>)"
  have st: "static (?h t) = (static t)(p := (static t p)\<lparr>p_priority := prio\<rparr>)" for t :: "'a ptable_scheme"
    by (simp add: static_def fun_eq_iff)
  have S: "setprio pid prio s =
      (if a_prio a p \<noteq> prio then
         if a_state a p = RUNNABLE
         then bindR (dequeue p s) (\<lambda>s. bindR (enqueue p (?h s)) (\<lambda>s. Ok (0, s)))
         else Ok (0, ?h s)
       else Ok (0, s))"
    using pr f D by (auto simp: setprio_def)
  have okp: "sched_ok (a_setprio p prio a)" by (rule sched_ok_setprio[OF ok p lt])
  consider "a_prio a p = prio" | "a_prio a p \<noteq> prio" "a_state a p = RUNNABLE"
    | "a_prio a p \<noteq> prio" "a_state a p \<noteq> RUNNABLE" by blast
  then show ?thesis
  proof cases
    case 1
    then have "static s = (static s)(p := (static s p)\<lparr>p_priority := prio\<rparr>)"
      using D(3)[of p] by (simp add: static_def fun_eq_iff)
    then show ?thesis using 1 r okp unfolding S by (simp add: a_setprio_def)
  next
    case 2
    have q: "p \<in> set (a_queue a (a_prio a p))" using sched_okD(2)[OF ok] 2(2) p by simp
    have chg: "queues (?h t) rs \<and> p_priority (procs (?h t) p) = prio" if "queues t rs" for t :: "'a ptable_scheme" and rs
      using queues_upd[OF that, of "\<lambda>q. q\<lparr>p_priority := prio\<rparr>" p] by simp
    have kp: "p_priority (procs s p) = a_prio a p" using D by simp
    obtain t u where tu: "dequeue p s = Ok t" "enqueue p (?h t) = Ok u" "link_change s t"
      "link_change (?h t) u"
      "queues u ((a_queue a)(a_prio a p := remove1 p (a_queue a (a_prio a p)), prio := a_queue a prio @ [p]))"
      using rq.move[OF D(1) q kp sched_okD(3)[OF ok p] _ _ lt, of ?h] chg 2(1) by metis
    have qt: "\<exists>qs. queues t qs" using dequeue_ok[OF D(1) q kp sched_okD(3)[OF ok p]] tu(1) by auto
    have "refines t (a\<lparr>a_queue := qs\<rparr>)" if "queues t qs" for qs
      by (rule refines_links[OF r tu(3) that])
    with qt obtain qs where rt: "refines t (a\<lparr>a_queue := qs\<rparr>)" by blast
    have "refines (?h t) (a\<lparr>a_queue := qs, a_prio := (a_prio a)(p := prio)\<rparr>)"
      using refines_upd[OF rt, of "\<lambda>q. q\<lparr>p_priority := prio\<rparr>" p] refinesD[OF rt]
      by (simp add: fun_upd_idem)
    from refines_links[OF this tu(4,5)] have "refines u (a_setprio p prio a)"
      using 2 by (simp add: a_setprio_def)
    moreover have "static u = (static s)(p := (static s p)\<lparr>p_priority := prio\<rparr>)"
      using static_link_change[OF tu(4)] static_link_change[OF tu(3)] st by simp
    ultimately show ?thesis using 2 tu(1,2) okp unfolding S by simp
  next
    case 3
    have "refines (?h s) (a\<lparr>a_prio := (a_prio a)(p := prio)\<rparr>)"
      using refines_upd[OF r, of "\<lambda>q. q\<lparr>p_priority := prio\<rparr>" p] D by (simp add: fun_upd_idem)
    then show ?thesis using 3 okp st unfolding S by (simp add: a_setprio_def)
  qed
qed

section \<open>Creating, ending and reaping processes\<close>

text \<open>No process comes to life between two abstract states, and the free slots are the same.\<close>

definition no_birth :: "sched_abs \<Rightarrow> sched_abs \<Rightarrow> bool" where
  "no_birth a a' \<longleftrightarrow>
     (\<forall>x. (a_state a' x \<in> {SLEEPING, RUNNABLE, RUNNING} \<longrightarrow>
            a_state a x \<in> {SLEEPING, RUNNABLE, RUNNING}) \<and>
          (a_state a' x = UNUSED \<longleftrightarrow> a_state a x = UNUSED))"

lemma no_birth_trans: "no_birth a b \<Longrightarrow> no_birth b c \<Longrightarrow> no_birth a c"
  unfolding no_birth_def by blast

lemma no_birth_wakeup: "sched_ok a \<Longrightarrow> no_birth a (a_wakeup ch a)"
  by (auto simp: no_birth_def a_wakeup_eq split: if_splits)

lemma reparent_one_refines:
  assumes r: "refines s a" and ok: "sched_ok a"
  shows "\<exists>s' a'. reparent_one q p s = Ok s' \<and> refines s' a' \<and> sched_ok a' \<and> a_cpu a' = a_cpu a \<and>
           no_birth a a' \<and> (\<forall>x. a_state a x \<in> {RUNNABLE, RUNNING} \<longrightarrow> a_state a' x = a_state a x)"
proof (cases "p_parent (procs s p) = Some q")
  case True
  let ?s = "upd_proc p (\<lambda>q. q\<lparr>p_parent := initproc s\<rparr>) s"
  have r1: "refines ?s a" by (rule refines_upd_same[OF r]) simp_all
  from wakeup1_refines[OF r1 ok, of "map_option ChanProc (initproc s)"] obtain s' where
    w: "wakeup1 (map_option ChanProc (initproc s)) ?s = Ok s'"
    "refines s' (a_wakeup (map_option ChanProc (initproc s)) a)"
    "sched_ok (a_wakeup (map_option ChanProc (initproc s)) a)" by blast
  note e = a_wakeup_eq[OF ok, of "map_option ChanProc (initproc s)"]
  show ?thesis
  proof (cases "p_state (procs s p) = ZOMBIE")
    case True
    then show ?thesis using \<open>p_parent (procs s p) = Some q\<close> w no_birth_wakeup[OF ok]
      by (intro exI[of _ s'] exI[of _ "a_wakeup (map_option ChanProc (initproc s)) a"])
        (auto simp: reparent_one_def Let_def e[symmetric], simp_all add: e)
  next
    case False
    then show ?thesis using \<open>p_parent (procs s p) = Some q\<close> r1 ok
      by (intro exI[of _ ?s] exI[of _ a]) (auto simp: reparent_one_def Let_def no_birth_def)
  qed
next
  case False
  then show ?thesis using r ok by (auto simp: reparent_one_def no_birth_def)
qed

lemma reparent_refines:
  assumes "refines s a" and "sched_ok a"
  shows "\<exists>s' a'. foldR (reparent_one q) ps s = Ok s' \<and> refines s' a' \<and> sched_ok a' \<and>
           a_cpu a' = a_cpu a \<and> no_birth a a' \<and> (\<forall>x. a_state a x \<in> {RUNNABLE, RUNNING} \<longrightarrow> a_state a' x = a_state a x)"
  using assms
proof (induction ps arbitrary: s a)
  case Nil
  then show ?case by (auto simp: no_birth_def)
next
  case (Cons p ps)
  from reparent_one_refines[OF Cons.prems, of q p] obtain s1 a1 where
    1: "reparent_one q p s = Ok s1" "refines s1 a1" "sched_ok a1" "a_cpu a1 = a_cpu a" "no_birth a a1"
    "\<forall>x. a_state a x \<in> {RUNNABLE, RUNNING} \<longrightarrow> a_state a1 x = a_state a x" by blast
  from Cons.IH[OF 1(2,3)] obtain s' a' where
    "foldR (reparent_one q) ps s1 = Ok s'" "refines s' a'" "sched_ok a'" "a_cpu a' = a_cpu a1"
    "no_birth a1 a'" "\<forall>x. a_state a1 x \<in> {RUNNABLE, RUNNING} \<longrightarrow> a_state a' x = a_state a1 x" by blast
  then show ?case using 1 no_birth_trans[OF 1(5)]
    by (intro exI[of _ s'] exI[of _ a']) auto
qed

text \<open>Neither waking processes nor reparenting them touches the memory.\<close>

definition kmem_of :: "'a ptable_scheme \<Rightarrow> (u32 \<Rightarrow> u32) \<times> u32 \<times> u32" where
  "kmem_of s = (mem s, freelist s, kend s)"

lemma make_runnable_kmem: "make_runnable p s = Ok s' \<Longrightarrow> kmem_of s' = kmem_of s"
  unfolding make_runnable_def by (drule enqueue_links) (simp add: kmem_of_def link_change_fields)

lemma wakeup1_kmem: "wakeup1 ch s = Ok s' \<Longrightarrow> kmem_of s' = kmem_of s"
  unfolding wakeup1_def
  by (rule foldR_frame[where f = "wakeup_one ch"])
    (auto simp: wakeup_one_def split: if_splits dest: make_runnable_kmem)

lemma reparent_one_kmem: "reparent_one q p s = Ok s' \<Longrightarrow> kmem_of s' = kmem_of s"
  by (auto simp: reparent_one_def Let_def kmem_of_def split: if_splits dest!: wakeup1_kmem)

definition ids_of :: "'a ptable_scheme \<Rightarrow> nat \<Rightarrow> u32 \<times> u32 \<times> u32 \<times> u32" where
  "ids_of s x = (p_pgdir (procs s x), p_kstack (procs s x), p_pid (procs s x), p_priority (procs s x))"

lemma wakeup1_ids:
  assumes "wakeup1 ch s = Ok s'"
  shows "ids_of s' = ids_of s"
  using static_fields[OF wakeup1_static[OF assms]] by (simp add: ids_of_def fun_eq_iff)

lemma reparent_one_ids: "reparent_one q p s = Ok s' \<Longrightarrow> ids_of s' = ids_of s"
proof -
  have "ids_of (upd_proc p (\<lambda>q. q\<lparr>p_parent := x\<rparr>) s) = ids_of s" for x
    by (simp add: ids_of_def fun_eq_iff)
  then show "reparent_one q p s = Ok s' \<Longrightarrow> ids_of s' = ids_of s"
    by (auto simp: reparent_one_def Let_def split: if_splits dest!: wakeup1_ids)
qed

lemma refines_one:
  assumes r: "refines s a" and o: "\<And>q. q \<noteq> p \<Longrightarrow> procs s' q = procs s q"
    and l: "nx s' p = nx s p" "pv s' p = pv s p" and q: "queue s' = queue s" "cpus s' = cpus s"
  shows "refines s' (a\<lparr>a_state := (a_state a)(p := p_state (procs s' p)),
                        a_prio := (a_prio a)(p := p_priority (procs s' p)),
                        a_chan := (a_chan a)(p := p_chan (procs s' p))\<rparr>)"
proof -
  have "refines (upd_proc p (\<lambda>_. procs s' p) s)
     (a\<lparr>a_state := (a_state a)(p := p_state (procs s' p)),
        a_prio := (a_prio a)(p := p_priority (procs s' p)),
        a_chan := (a_chan a)(p := p_chan (procs s' p))\<rparr>)"
    by (rule refines_upd[OF r]) (use l in simp_all)
  moreover have "(procs s)(p := procs s' p) = procs s'" using o by (auto simp: fun_eq_iff)
  ultimately show ?thesis using q by (simp add: refines_def absr_def queues_def)
qed

lemma allocproc_cases:
  assumes al: "allocproc s = (np, s')"
  shows "np = None \<and> s' = s \<and> (\<forall>p<NPROC. p_state (procs s p) \<noteq> UNUSED) \<or>
     (\<exists>p<NPROC. p_state (procs s p) = UNUSED \<and> (\<forall>q. q \<noteq> p \<longrightarrow> procs s' q = procs s q) \<and>
        nx s' p = nx s p \<and> pv s' p = pv s p \<and> queue s' = queue s \<and> cpus s' = cpus s \<and>
        initproc s' = initproc s \<and> nextpid s' = nextpid s + 1 \<and>
        p_pid (procs s' p) = nextpid s \<and> p_priority (procs s' p) = p_priority (procs s p) \<and>
        p_chan (procs s' p) = p_chan (procs s p) \<and> p_parent (procs s' p) = p_parent (procs s p) \<and>
        p_killed (procs s' p) = p_killed (procs s p) \<and>
        (np = None \<and> freelist s = 0 \<and> p_state (procs s' p) = UNUSED \<or>
         np = Some p \<and> p_state (procs s' p) = EMBRYO \<and> p_kstack (procs s' p) = freelist s \<and>
           freelist s \<noteq> 0))"
proof (cases "find_first (\<lambda>p. p_state (procs s p) = UNUSED) NPROC")
  case None
  then have "np = None \<and> s' = s" using al by (simp add: allocproc_def)
  then show ?thesis using None[unfolded find_first_None] by blast
next
  case (Some p)
  then have p: "p < NPROC" "p_state (procs s p) = UNUSED" by (simp_all add: find_first_Some)
  show ?thesis
    by (rule disjI2, rule exI[of _ p])
      (use al Some p in \<open>auto simp: allocproc_def kalloc_def Let_def split: if_splits\<close>)
qed

lemma allocproc_refines:
  assumes r: "refines s a" and ok: "sched_ok a" and al: "allocproc s = (np, s')"
  shows "\<exists>a'. refines s' a' \<and> sched_ok a'"
  using allocproc_cases[OF al]
proof (elim disjE conjE exE)
  fix p
  assume p: "p < NPROC" "p_state (procs s p) = UNUSED" and o: "\<forall>q. q \<noteq> p \<longrightarrow> procs s' q = procs s q"
    and l: "nx s' p = nx s p" "pv s' p = pv s p" "queue s' = queue s" "cpus s' = cpus s"
    and pr: "p_priority (procs s' p) = p_priority (procs s p)"
    and st: "np = None" "p_state (procs s' p) = UNUSED"
  have "a_state a p \<notin> {RUNNABLE, RUNNING}" using p refinesD(2)[OF r] by simp
  moreover have "p_priority (procs s' p) < NUM_PRIO"
    using sched_okD(3)[OF ok p(1)] refinesD(3)[OF r, of p] pr by simp
  ultimately show ?thesis
    using refines_one[OF r _ l] o sched_ok_idle_change[OF ok] st(2) by (metis empty_iff insert_iff procstate.distinct(5,7))
next
  fix p
  assume p: "p < NPROC" "p_state (procs s p) = UNUSED" and o: "\<forall>q. q \<noteq> p \<longrightarrow> procs s' q = procs s q"
    and l: "nx s' p = nx s p" "pv s' p = pv s p" "queue s' = queue s" "cpus s' = cpus s"
    and pr: "p_priority (procs s' p) = p_priority (procs s p)"
    and st: "np = Some p" "p_state (procs s' p) = EMBRYO"
  have "a_state a p \<notin> {RUNNABLE, RUNNING}" using p refinesD(2)[OF r] by simp
  moreover have "p_priority (procs s' p) < NUM_PRIO"
    using sched_okD(3)[OF ok p(1)] refinesD(3)[OF r, of p] pr by simp
  ultimately show ?thesis
    using refines_one[OF r _ l] o sched_ok_idle_change[OF ok] st(2) by fastforce
qed (use r ok in blast)

lemma fork_commit_refines:
  assumes r: "refines s a" and ok: "sched_ok a" and p: "p < NPROC" "a_state a p = EMBRYO"
    and q: "p_parent (procs s p) = Some q" "q < NPROC"
  shows "\<exists>s'. fork_commit p s = Ok s' \<and>
           refines s' (a_ready p (a\<lparr>a_prio := (a_prio a)(p := a_prio a q)\<rparr>)) \<and>
           sched_ok (a_ready p (a\<lparr>a_prio := (a_prio a)(p := a_prio a q)\<rparr>)) \<and>
           static s' = (static s)(p := (static s p)\<lparr>p_priority := a_prio a q\<rparr>)"
proof -
  note D = refinesD[OF r]
  let ?s1 = "upd_proc p (\<lambda>x. x\<lparr>p_state := RUNNABLE\<rparr>) s"
  let ?s2 = "upd_proc p (\<lambda>x. x\<lparr>p_priority := p_priority (procs ?s1 q)\<rparr>) ?s1"
  let ?t = "upd_proc p (\<lambda>x. x\<lparr>p_priority := a_prio a q\<rparr>) s"
  let ?a = "a\<lparr>a_prio := (a_prio a)(p := a_prio a q)\<rparr>"
  have e: "?s2 = upd_proc p (\<lambda>x. x\<lparr>p_state := RUNNABLE\<rparr>) ?t" using D(3)[of q]
    by (auto simp: upd_proc_def fun_eq_iff)
  have rt: "refines ?t ?a"
    using refines_upd[OF r, of "\<lambda>x. x\<lparr>p_priority := a_prio a q\<rparr>" p] D by (simp add: fun_upd_idem)
  have okt: "sched_ok ?a"
    using sched_ok_idle_change[OF ok, of p EMBRYO "a_prio a q" "a_chan a"] p(2) sched_okD(3)[OF ok q(2)]
    by (simp add: fun_upd_idem)
  have "p \<notin> set (a_queue ?a pr)" for pr using not_runnable_not_queued[OF ok] p(2) by simp
  from make_runnable_refines[OF rt this] sched_okD(3)[OF okt p(1)] obtain s' where
    m: "make_runnable p ?t = Ok s'" "refines s' (a_ready p ?a)" by blast
  have "fork_commit p s = Ok s'"
    using m(1) q(1) unfolding make_runnable_def e[symmetric] by (simp add: fork_commit_def Let_def)
  moreover have "sched_ok (a_ready p ?a)" by (rule sched_ok_ready[OF okt p(1)]) (use p(2) in simp_all)
  moreover have "static ?t = (static s)(p := (static s p)\<lparr>p_priority := a_prio a q\<rparr>)"
    by (simp add: static_def fun_eq_iff)
  ultimately show ?thesis using m(2) make_runnable_static[OF m(1)] by simp
qed

lemma uvm_kmem:
  assumes "uvm s pgdir xs" and "kmem_of s' = kmem_of s"
  shows "uvm s' pgdir xs"
proof -
  have e: "mem s' = mem s" "freelist s' = freelist s" "kend s' = kend s"
    using assms(2) by (simp_all add: kmem_of_def)
  have "uvm s' pgdir xs = uvm s pgdir xs"
    unfolding uvm_def pgtable_def free_pages_def valid_page_def e ..
  then show ?thesis using assms(1) by simp
qed

lemma exit_locked_refines:
  fixes s :: "'a ptable_scheme"
  assumes r: "refines s a" and ok: "sched_ok a" and p: "a_cpu a c = Some p"
    and u: "uvm s (p_pgdir (procs s p)) xs"
  shows "\<exists>s' a' fs. exit_locked c status s = Ok s' \<and> refines s' a' \<and> sched_ok a' \<and> no_birth a a' \<and>
           p_state (procs s' p) = ZOMBIE \<and> p_status (procs s' p) = status \<and> myproc c s' = None \<and>
           (\<forall>q. p_parent (procs s p) = Some q \<longrightarrow> q < NPROC \<longrightarrow> p_state (procs s q) = SLEEPING \<longrightarrow>
              p_chan (procs s q) = Some (ChanProc q) \<longrightarrow> p_state (procs s' q) = RUNNABLE) \<and>
           ids_of s' = ids_of s \<and> uvm s' (p_pgdir (procs s p)) (fs @ xs) \<and>
           set fs = mapped_pages (mem s) (p_pgdir (procs s p)) 0 KERNBASE \<and>
           unmapped (mem s') (p_pgdir (procs s p)) 0 KERNBASE"
proof -
  let ?ch = "map_option ChanProc (p_parent (procs s p))"
  note P = sched_okD(4)[OF ok p]
  from wakeup1_refines[OF r ok, of ?ch] obtain s1 where
    1: "wakeup1 ?ch s = Ok s1" "refines s1 (a_wakeup ?ch a)" "sched_ok (a_wakeup ?ch a)" by blast
  from reparent_refines[OF 1(2,3), of p "[0..<NPROC]"] obtain s2 a2 where
    2: "foldR (reparent_one p) [0..<NPROC] s1 = Ok s2" "refines s2 a2" "sched_ok a2"
    "a_cpu a2 = a_cpu a" "a_state a2 p = RUNNING" and nb: "no_birth (a_wakeup ?ch a) a2"
    and keep: "\<forall>x. a_state (a_wakeup ?ch a) x \<in> {RUNNABLE, RUNNING} \<longrightarrow> a_state a2 x = a_state (a_wakeup ?ch a) x"
    using P unfolding a_wakeup_eq[OF ok] by auto
  have km: "kmem_of s2 = kmem_of s"
    using foldR_frame[where g = kmem_of, OF reparent_one_kmem 2(1)] wakeup1_kmem[OF 1(1)] by simp
  moreover have ids: "ids_of s2 = ids_of s"
    using foldR_frame[where g = ids_of, OF reparent_one_ids 2(1)] wakeup1_ids[OF 1(1)] by simp
  then have "p_pgdir (procs s2 p) = p_pgdir (procs s p)" by (simp add: ids_of_def fun_eq_iff)
  moreover have z: "PGROUNDUP 0 = 0" by (simp add: PGROUNDUP_def PGSIZE_def)
  moreover have "(0 :: u32) < KERNBASE" by (simp add: KERNBASE_def)
  ultimately obtain s3 fs where 3: "deallocuvm (p_pgdir (procs s2 p)) KERNBASE 0 s2 = Ok (0, s3)"
    and sh: "shrunk (p_pgdir (procs s p)) 0 KERNBASE s2 fs xs s3"
    using deallocuvm_ok[OF uvm_kmem[OF u, of s2], of 0 KERNBASE] by auto
  have r3: "refines s3 a2" by (rule refines_mem[OF 2(2) deallocuvm_only_mem[OF 3]])
  let ?f = "\<lambda>q. q\<lparr>p_state := ZOMBIE, p_status := status\<rparr>"
  let ?a = "a2\<lparr>a_state := (a_state a2)(p := ZOMBIE)\<rparr>"
  have r4: "refines (upd_proc p ?f s3) ?a"
    using refines_upd[OF r3, of ?f p] refinesD[OF r3] by (simp add: fun_upd_idem)
  have cp: "a_cpu ?a c = Some p" using p 2(4) by simp
  from sched_refines[OF r4 cp] obtain s' where
    4: "sched c (upd_proc p ?f s3) = Ok s'" "refines s' (a_leave c ?a)" by auto
  have "exit_locked c status s = Ok s'"
    using 1(1) 2(1) 3 4(1) p refinesD(5)[OF r, of c] by (simp add: exit_locked_def myproc_def)
  moreover have "sched_ok (a_leave c ?a)"
    using sched_ok_block[OF 2(3), of c p ZOMBIE "a_chan a2"] p 2(4) by simp
  moreover have "p_state (procs s' p) = ZOMBIE" using refinesD(2)[OF 4(2), of p] by (simp add: a_leave_def)
  moreover have "p_status (procs s' p) = status"
    using static_fields(6)[OF sched_static[OF 4(1)], of p] by simp
  moreover have "myproc c s' = None" using refinesD(5)[OF 4(2), of c] by (simp add: a_leave_def myproc_def)
  moreover have "p_state (procs s' q) = RUNNABLE"
    if q: "p_parent (procs s p) = Some q" "q < NPROC" "p_state (procs s q) = SLEEPING"
      "p_chan (procs s q) = Some (ChanProc q)" for q
  proof -
    have "a_state (a_wakeup ?ch a) q = RUNNABLE"
      using q refinesD(2,4)[OF r, of q] by (simp add: a_wakeup_eq[OF ok])
    then have "a_state a2 q = RUNNABLE" using keep by auto
    moreover have "q \<noteq> p" using q(3) P refinesD(2)[OF r, of p] by auto
    ultimately show ?thesis using refinesD(2)[OF 4(2), of q] by (simp add: a_leave_def)
  qed
  moreover have "no_birth a (a_leave c ?a)"
    using no_birth_trans[OF no_birth_wakeup[OF ok] nb] P by (auto simp: no_birth_def a_leave_def)
  moreover have k4: "kmem_of s' = kmem_of s3"
    using 4(1) by (auto simp: sched_def kmem_of_def split: option.splits if_splits)
  then have "uvm s' (p_pgdir (procs s p)) (fs @ xs)" using sh by (auto simp: shrunk_def intro: uvm_kmem)
  moreover have "set fs = mapped_pages (mem s) (p_pgdir (procs s p)) 0 KERNBASE"
    using sh km by (simp add: shrunk_def kmem_of_def)
  moreover have "unmapped (mem s') (p_pgdir (procs s p)) 0 KERNBASE"
    using sh k4 by (simp add: shrunk_def kmem_of_def unmapped_def unmap_range_def)
  moreover have "ids_of s' = ids_of s"
  proof -
    have "ids_of s3 = ids_of s2"
      using only_mem_procs(1)[OF deallocuvm_only_mem[OF 3]] by (simp add: ids_of_def fun_eq_iff)
    moreover have "ids_of s' = ids_of s3"
      using static_fields[OF sched_static[OF 4(1)]] by (simp add: ids_of_def fun_eq_iff)
    ultimately show ?thesis using ids by simp
  qed
  ultimately show ?thesis using 4(2) by blast
qed

end
