(* ===== verification/Proc_Inv.thy ===== *)
theory Proc_Inv
  imports Proc_Refine
begin

text \<open>
  The process table as a transition system. \<open>pstep\<close> has one rule for each critical section of
  \<^verbatim>\<open>src/xv6/proc.c\<close> and rules for what happens outside the lock: a process that is being
  created is filled in, and memory is written. Every reachable table satisfies \<open>ptable_ok\<close>:
  the run queues hold exactly the runnable processes of their priority, so none of the
  panics of \<^verbatim>\<open>enqueue\<close>, \<^verbatim>\<open>dequeue\<close>, \<^verbatim>\<open>sched\<close> and \<^verbatim>\<open>switchuvm\<close> can occur.
\<close>

section \<open>The transition relation\<close>

text \<open>What may be written into a process that is being created.\<close>

definition private_update :: "(proc \<Rightarrow> proc) \<Rightarrow> bool" where
  "private_update f \<longleftrightarrow>
     (\<forall>q. p_state (f q) = p_state q \<and> p_pid (f q) = p_pid q \<and> p_priority (f q) = p_priority q \<and>
          p_chan (f q) = p_chan q \<and> p_previous (f q) = p_previous q \<and> p_next (f q) = p_next q)"

inductive pstep :: "'a ptable_scheme \<Rightarrow> 'a ptable_scheme \<Rightarrow> bool" where
  alloc: "allocproc s = (np, s') \<Longrightarrow> pstep s s'"
| fill: "p_state (procs s np) = EMBRYO \<Longrightarrow> private_update f \<Longrightarrow> pstep s (upd_proc np f s)"
| memory: "only_mem s s' \<Longrightarrow> pstep s s'"
| first: "np < NPROC \<Longrightarrow> p_state (procs s np) = EMBRYO \<Longrightarrow> p_kstack (procs s np) \<noteq> 0 \<Longrightarrow>
    p_pgdir (procs s np) \<noteq> 0 \<Longrightarrow> userinit_commit np s = Ok s' \<Longrightarrow> pstep s s'"
| fork: "np < NPROC \<Longrightarrow> p_state (procs s np) = EMBRYO \<Longrightarrow> p_kstack (procs s np) \<noteq> 0 \<Longrightarrow>
    p_pgdir (procs s np) \<noteq> 0 \<Longrightarrow> p_parent (procs s np) = Some q \<Longrightarrow> q < NPROC \<Longrightarrow>
    fork_commit np s = Ok s' \<Longrightarrow> pstep s s'"
| abort: "np < NPROC \<Longrightarrow> p_state (procs s np) = EMBRYO \<Longrightarrow> fork_abort np s = Ok s' \<Longrightarrow> pstep s s'"
| grow: "growproc c n s = Ok (r, s') \<Longrightarrow> pstep s s'"
| yield: "yield c s = Ok s' \<Longrightarrow> pstep s s'"
| sleep: "sleep c ch s = Ok s' \<Longrightarrow> pstep s s'"
| resume: "sleep_return c s = Ok s' \<Longrightarrow> pstep s s'"
| wakeup: "wakeup ch s = Ok s' \<Longrightarrow> pstep s s'"
| kill: "kill pid s = Ok (r, s') \<Longrightarrow> pstep s s'"
| setprio: "setprio pid prio s = Ok (r, s') \<Longrightarrow> pstep s s'"
| exit: "myproc c s = Some p \<Longrightarrow> uvm s (p_pgdir (procs s p)) xs \<Longrightarrow>
    exit_locked c status s = Ok s' \<Longrightarrow> pstep s s'"
| wait: "wait c want s = Ok (pid, st, s') \<Longrightarrow> pstep s s'"
| sched: "myproc c s = None \<Longrightarrow> scheduler c s = Ok s' \<Longrightarrow> pstep s s'"

section \<open>Steps keep the invariant\<close>

lemma ptable_okE:
  assumes "ptable_ok s"
  obtains a where "refines s a" and "sched_ok a" and "live_ok s"
  using assms unfolding ptable_ok_def by blast

lemma ptable_okI: "refines s a \<Longrightarrow> sched_ok a \<Longrightarrow> live_ok s \<Longrightarrow> ptable_ok s"
  unfolding ptable_ok_def by blast

lemma live_ok_mem: "live_ok s \<Longrightarrow> only_mem s s' \<Longrightarrow> live_ok s'"
  using only_mem_procs(1)[of s s'] by (simp add: live_ok_def)

lemma ptable_ok_mem: "ptable_ok s \<Longrightarrow> only_mem s s' \<Longrightarrow> ptable_ok s'"
  by (auto elim!: ptable_okE intro: ptable_okI refines_mem live_ok_mem)

lemma live_ok_one:
  assumes "live_ok s" and "\<And>q. q \<noteq> p \<Longrightarrow> procs s' q = procs s q"
    and "p_state (procs s' p) \<notin> {SLEEPING, RUNNABLE, RUNNING} \<or>
         p_kstack (procs s' p) \<noteq> 0 \<and> p_pgdir (procs s' p) \<noteq> 0"
  shows "live_ok s'"
  using assms unfolding live_ok_def by metis

lemma live_ok_upd:
  assumes "live_ok s" and "p_state (f (procs s p)) \<notin> {SLEEPING, RUNNABLE, RUNNING} \<or>
      p_kstack (f (procs s p)) \<noteq> 0 \<and> p_pgdir (f (procs s p)) \<noteq> 0"
  shows "live_ok (upd_proc p f s)"
  by (rule live_ok_one[OF assms(1), of p]) (use assms(2) in auto)

lemma ptable_ok_alloc:
  assumes "ptable_ok s" and al: "allocproc s = (np, s')"
  shows "ptable_ok s'"
proof -
  from assms(1) obtain a where r: "refines s a" "sched_ok a" and lv: "live_ok s" by (rule ptable_okE)
  from allocproc_refines[OF r al] obtain a' where "refines s' a'" "sched_ok a'" by blast
  moreover from allocproc_cases[OF al] have "s' = s \<or> (\<exists>p. (\<forall>q. q \<noteq> p \<longrightarrow> procs s' q = procs s q) \<and>
      p_state (procs s' p) \<notin> {SLEEPING, RUNNABLE, RUNNING})" by auto
  then have "live_ok s'" using lv live_ok_one[OF lv] by blast
  ultimately show ?thesis by (rule ptable_okI)
qed

lemma ptable_ok_fill:
  assumes "ptable_ok s" and e: "p_state (procs s np) = EMBRYO" and f: "private_update f"
  shows "ptable_ok (upd_proc np f s)"
proof -
  from assms(1) obtain a where r: "refines s a" "sched_ok a" and lv: "live_ok s" by (rule ptable_okE)
  have "refines (upd_proc np f s) a"
    by (rule refines_upd_same[OF r(1)]) (use f in \<open>simp_all add: private_update_def\<close>)
  moreover have "live_ok (upd_proc np f s)"
    by (rule live_ok_upd[OF lv]) (use e f in \<open>simp add: private_update_def\<close>)
  ultimately show ?thesis using r(2) by (intro ptable_okI)
qed

text \<open>The pids and the set of free slots are unchanged.\<close>

definition same_pids :: "'a ptable_scheme \<Rightarrow> 'a ptable_scheme \<Rightarrow> bool" where
  "same_pids s s' \<longleftrightarrow>
     nextpid s' = nextpid s \<and>
     (\<forall>p. p_pid (procs s' p) = p_pid (procs s p) \<and>
          (p_state (procs s' p) = UNUSED \<longleftrightarrow> p_state (procs s p) = UNUSED))"

lemma same_pids_refl: "same_pids s s"
  by (simp add: same_pids_def)

text \<open>From the abstract states before and after.\<close>

lemma ptable_ok_abs:
  assumes "live_ok s" and "refines s a" and "refines s' a'" and "sched_ok a'"
    and "ids_of s' = ids_of s" and "no_birth a a'" and "nextpid s' = nextpid s"
  shows "ptable_ok s' \<and> same_pids s s'"
proof -
  have ids: "p_kstack (procs s' p) = p_kstack (procs s p)" "p_pgdir (procs s' p) = p_pgdir (procs s p)"
    "p_pid (procs s' p) = p_pid (procs s p)" for p
    using fun_cong[OF assms(5), of p] by (simp_all add: ids_of_def)
  note st = refinesD(2)[OF assms(2)] refinesD(2)[OF assms(3)]
  have "live_ok s'"
    using assms(1,6) ids(1,2) st unfolding live_ok_def no_birth_def by metis
  moreover have "same_pids s s'"
    using assms(6,7) ids(3) st unfolding same_pids_def no_birth_def by metis
  ultimately show ?thesis using assms(3,4) by (auto intro: ptable_okI)
qed

lemma ids_of_static:
  "ids_of s q = (p_pgdir (static s q), p_kstack (static s q), p_pid (static s q), p_priority (static s q))"
  by (simp add: ids_of_def static_def)

lemma static_ids: "static s' = static s \<Longrightarrow> ids_of s' = ids_of s"
  by (simp add: fun_eq_iff ids_of_static)

text \<open>Only \<^verbatim>\<open>allocproc\<close> draws a pid.\<close>

lemma make_runnable_nextpid: "make_runnable p s = Ok s' \<Longrightarrow> nextpid s' = nextpid s"
  unfolding make_runnable_def by (drule enqueue_links) (simp add: link_change_fields)

lemma wakeup1_nextpid: "wakeup1 ch s = Ok s' \<Longrightarrow> nextpid s' = nextpid s"
  unfolding wakeup1_def
  by (rule foldR_frame[where f = "wakeup_one ch"])
    (auto simp: wakeup_one_def split: if_splits dest: make_runnable_nextpid)

lemma sched_nextpid: "sched c s = Ok s' \<Longrightarrow> nextpid s' = nextpid s"
  by (auto simp: sched_def split: option.splits if_splits)

lemma yield_nextpid: "yield c s = Ok s' \<Longrightarrow> nextpid s' = nextpid s"
  by (auto simp: yield_def res_iff split: option.splits dest!: make_runnable_nextpid sched_nextpid)

lemma sleep_nextpid: "sleep c ch s = Ok s' \<Longrightarrow> nextpid s' = nextpid s"
  by (auto simp: sleep_def split: option.splits dest!: sched_nextpid)

lemma kill_nextpid: "kill pid s = Ok (r, s') \<Longrightarrow> nextpid s' = nextpid s"
  by (auto simp: kill_def Let_def res_iff split: option.splits if_splits dest!: make_runnable_nextpid)

lemma setprio_nextpid: "setprio pid prio s = Ok (r, s') \<Longrightarrow> nextpid s' = nextpid s"
  by (auto simp: setprio_def res_iff split: option.splits if_splits
      dest!: enqueue_links dequeue_links link_change_fields(5))

lemma reparent_one_nextpid: "reparent_one q p s = Ok s' \<Longrightarrow> nextpid s' = nextpid s"
  by (auto simp: reparent_one_def Let_def split: if_splits dest!: wakeup1_nextpid)

lemma reparent_nextpid: "foldR (reparent_one q) ps s = Ok s' \<Longrightarrow> nextpid s' = nextpid s"
  by (rule foldR_frame[where g = nextpid, OF reparent_one_nextpid])

lemma exit_nextpid: "exit_locked c st s = Ok s' \<Longrightarrow> nextpid s' = nextpid s"
  by (auto simp: exit_locked_def res_iff split: option.splits
      dest!: wakeup1_nextpid sched_nextpid deallocuvm_only_mem[THEN only_mem_procs(5)] reparent_nextpid)

lemma scheduler_nextpid: "scheduler c s = Ok s' \<Longrightarrow> nextpid s' = nextpid s"
  by (auto simp: scheduler_def switchuvm_def res_iff split: option.splits if_splits
      dest!: dequeue_links link_change_fields(5))

lemma commit_nextpid:
  "fork_commit p s = Ok s' \<Longrightarrow> nextpid s' = nextpid s"
  "userinit_commit p s = Ok s' \<Longrightarrow> nextpid s' = nextpid s"
  by (auto simp: fork_commit_def userinit_commit_def Let_def split: option.splits
      dest!: enqueue_links link_change_fields(5))

section \<open>Each critical section\<close>

lemma step_yield:
  assumes "ptable_ok s" and y: "yield c s = Ok s'"
  shows "ptable_ok s' \<and> same_pids s s'"
proof -
  from assms(1) obtain a where r: "refines s a" and ok: "sched_ok a" and lv: "live_ok s" by (rule ptable_okE)
  from y obtain p where p: "a_cpu a c = Some p"
    using refinesD(5)[OF r, of c] by (auto simp: yield_def myproc_def split: option.splits)
  from yield_refines[OF r ok p] y have r': "refines s' (a_leave c (a_ready p a))" and st: "static s' = static s"
    by auto
  have "no_birth a (a_leave c (a_ready p a))"
    using sched_okD(4)[OF ok p] by (simp add: no_birth_def a_leave_def a_ready_def)
  then show ?thesis
    using ptable_ok_abs[OF lv r r' sched_ok_yield[OF ok p] static_ids[OF st] _ yield_nextpid[OF y]] by simp
qed

lemma step_sleep:
  assumes "ptable_ok s" and y: "sleep c ch s = Ok s'"
  shows "ptable_ok s' \<and> same_pids s s'"
proof -
  from assms(1) obtain a where r: "refines s a" and ok: "sched_ok a" and lv: "live_ok s" by (rule ptable_okE)
  from y obtain p where p: "a_cpu a c = Some p"
    using refinesD(5)[OF r, of c] by (auto simp: sleep_def myproc_def split: option.splits)
  let ?a = "a_leave c (a\<lparr>a_state := (a_state a)(p := SLEEPING), a_chan := (a_chan a)(p := Some ch)\<rparr>)"
  from sleep_refines[OF r p, of ch] y have st: "static s' = static s" and r': "refines s' ?a" by auto
  have "no_birth a ?a" using sched_okD(4)[OF ok p] by (simp add: no_birth_def a_leave_def)
  moreover have "sched_ok ?a" using sched_ok_block[OF ok p] by blast
  ultimately show ?thesis
    using ptable_ok_abs[OF lv r r' _ static_ids[OF st] _ sleep_nextpid[OF y]] by simp
qed

lemma step_resume:
  assumes "ptable_ok s" and y: "sleep_return c s = Ok s'"
  shows "ptable_ok s' \<and> same_pids s s'"
proof -
  from assms(1) obtain a where r: "refines s a" and ok: "sched_ok a" and lv: "live_ok s" by (rule ptable_okE)
  from y obtain p where s': "s' = upd_proc p (\<lambda>q. q\<lparr>p_chan := None\<rparr>) s"
    by (auto simp: sleep_return_def split: option.splits)
  let ?a = "a\<lparr>a_chan := (a_chan a)(p := None)\<rparr>"
  have "refines s' ?a"
    using refines_upd[OF r, of "\<lambda>q. q\<lparr>p_chan := None\<rparr>" p] refinesD[OF r] by (simp add: s' fun_upd_idem)
  moreover have "sched_ok ?a" using ok by (simp add: sched_ok_def)
  moreover have "ids_of s' = ids_of s" by (simp add: s' ids_of_def fun_eq_iff)
  moreover have "no_birth a ?a" by (simp add: no_birth_def)
  ultimately show ?thesis by (intro ptable_ok_abs[OF lv r]) (simp_all add: s')
qed

lemma step_wakeup:
  assumes "ptable_ok s" and w: "wakeup1 ch s = Ok s'"
  shows "ptable_ok s' \<and> same_pids s s'"
proof -
  from assms(1) obtain a where r: "refines s a" and ok: "sched_ok a" and lv: "live_ok s" by (rule ptable_okE)
  from wakeup1_refines[OF r ok, of ch] w have r': "refines s' (a_wakeup ch a)" "sched_ok (a_wakeup ch a)" by auto
  show ?thesis
    by (rule ptable_ok_abs[OF lv r r' wakeup1_ids[OF w] no_birth_wakeup[OF ok] wakeup1_nextpid[OF w]])
qed

lemma step_kill:
  assumes "ptable_ok s" and k: "kill pid s = Ok (r, s')"
  shows "ptable_ok s' \<and> same_pids s s'"
proof -
  from assms(1) obtain a where r: "refines s a" and ok: "sched_ok a" and lv: "live_ok s" by (rule ptable_okE)
  show ?thesis
  proof (cases "find_first (\<lambda>p. p_pid (procs s p) = pid) NPROC")
    case None
    then show ?thesis using kill_refines(1)[OF r ok None] k assms(1) same_pids_refl by simp
  next
    case (Some p)
    let ?a = "if a_state a p = SLEEPING then a_ready p a else a"
    from kill_refines(2)[OF r ok Some] k have r': "refines s' ?a" "sched_ok ?a"
      and st: "static s' = (static s)(p := (static s p)\<lparr>p_killed := True\<rparr>)" by auto
    have "ids_of s' = ids_of s" by (simp add: fun_eq_iff ids_of_static st)
    moreover have "no_birth a ?a" by (auto simp: no_birth_def a_ready_def)
    ultimately show ?thesis using ptable_ok_abs[OF lv r r' _ _ kill_nextpid[OF k]] by blast
  qed
qed

lemma step_setprio:
  assumes "ptable_ok s" and k: "setprio pid prio s = Ok (r, s')"
  shows "ptable_ok s' \<and> same_pids s s'"
proof -
  from assms(1) obtain a where r: "refines s a" and ok: "sched_ok a" and lv: "live_ok s" by (rule ptable_okE)
  let ?f = "find_first (\<lambda>p. p_pid (procs s p) = pid \<and> p_state (procs s p) \<noteq> UNUSED) NPROC"
  show ?thesis
  proof (cases "(prio = HI_PRIO \<or> prio = NORM_PRIO) \<and> ?f \<noteq> None")
    case True
    then obtain p where f: "?f = Some p" and pr: "prio = HI_PRIO \<or> prio = NORM_PRIO" by blast
    from setprio_refines[OF r ok pr f] k have r': "refines s' (a_setprio p prio a)" "sched_ok (a_setprio p prio a)"
      and st: "static s' = (static s)(p := (static s p)\<lparr>p_priority := prio\<rparr>)" by auto
    have "a_state (a_setprio p prio a) = a_state a" by (simp add: a_setprio_def)
    then have s: "p_state (procs s' q) = p_state (procs s q)" for q
      using refinesD(2)[OF r, of q] refinesD(2)[OF r'(1), of q] by simp
    have k': "p_kstack (static s' q) = p_kstack (static s q)" "p_pgdir (static s' q) = p_pgdir (static s q)"
      "p_pid (static s' q) = p_pid (static s q)" for q
      by (simp_all add: st)
    have "live_ok s'" using lv s k' by (simp add: live_ok_def static_def)
    moreover have "same_pids s s'"
      using s k'(3) setprio_nextpid[OF k] by (simp add: same_pids_def static_def)
    ultimately show ?thesis using r' by (auto intro: ptable_okI)
  next
    case False
    then have "s' = s" using k by (auto simp: setprio_def split: if_splits option.splits)
    then show ?thesis using assms(1) same_pids_refl by simp
  qed
qed

lemma step_exit:
  assumes "ptable_ok s" and p: "myproc c s = Some p" and u: "uvm s (p_pgdir (procs s p)) xs"
    and x: "exit_locked c status s = Ok s'"
  shows "ptable_ok s' \<and> same_pids s s'"
proof -
  from assms(1) obtain a where r: "refines s a" and ok: "sched_ok a" and lv: "live_ok s" by (rule ptable_okE)
  have cp: "a_cpu a c = Some p" using p refinesD(5)[OF r, of c] by (simp add: myproc_def)
  from exit_locked_refines[OF r ok cp u, of status] x obtain a' where
    r': "refines s' a'" "sched_ok a'" and nb: "no_birth a a'" and ids: "ids_of s' = ids_of s" by auto
  show ?thesis by (rule ptable_ok_abs[OF lv r r' ids nb exit_nextpid[OF x]])
qed

lemma step_sched:
  assumes "ptable_ok s" and idle: "myproc c s = None" and x: "scheduler c s = Ok s'"
  shows "ptable_ok s' \<and> same_pids s s'"
proof -
  from assms(1) obtain a where r: "refines s a" and ok: "sched_ok a" and lv: "live_ok s" by (rule ptable_okE)
  show ?thesis
  proof (cases "a_next a")
    case None
    then have "s' = s" using x by (simp add: scheduler_def scheduler_pick_eq[OF r])
    then show ?thesis using assms(1) same_pids_refl by simp
  next
    case (Some p)
    from scheduler_refines[OF r ok lv Some, of c] x have r': "refines s' (a_dispatch c p a)"
      and st: "static s' = static s" by auto
    from a_next_queued[OF Some] obtain pr where q: "p \<in> set (a_queue a pr)" by blast
    have "a_state a p = RUNNABLE" using sched_okD(2)[OF ok] q by simp
    then have "no_birth a (a_dispatch c p a)" by (simp add: no_birth_def a_dispatch_def)
    moreover have "sched_ok (a_dispatch c p a)"
      by (rule sched_ok_dispatch[OF ok q]) (use idle refinesD(5)[OF r, of c] in \<open>simp add: myproc_def\<close>)
    ultimately show ?thesis
      using ptable_ok_abs[OF lv r r' _ static_ids[OF st] _ scheduler_nextpid[OF x]] by blast
  qed
qed

lemma step_fork:
  assumes "ptable_ok s" and p: "np < NPROC" "p_state (procs s np) = EMBRYO"
    and k: "p_kstack (procs s np) \<noteq> 0" "p_pgdir (procs s np) \<noteq> 0"
    and q: "p_parent (procs s np) = Some q" "q < NPROC" and x: "fork_commit np s = Ok s'"
  shows "ptable_ok s' \<and> same_pids s s'"
proof -
  from assms(1) obtain a where r: "refines s a" and ok: "sched_ok a" and lv: "live_ok s" by (rule ptable_okE)
  have e: "a_state a np = EMBRYO" using p(2) refinesD(2)[OF r] by simp
  let ?a = "a_ready np (a\<lparr>a_prio := (a_prio a)(np := a_prio a q)\<rparr>)"
  from fork_commit_refines[OF r ok p(1) e q] x have r': "refines s' ?a" "sched_ok ?a"
    and st: "static s' = (static s)(np := (static s np)\<lparr>p_priority := a_prio a q\<rparr>)" by auto
  have "p_kstack (static s' x) = p_kstack (static s x)" "p_pgdir (static s' x) = p_pgdir (static s x)"
    "p_pid (static s' x) = p_pid (static s x)" for x by (simp_all add: st)
  then have same: "p_kstack (procs s' x) = p_kstack (procs s x)" "p_pgdir (procs s' x) = p_pgdir (procs s x)"
    "p_pid (procs s' x) = p_pid (procs s x)" for x by (simp_all add: static_def)
  have s: "p_state (procs s' x) = (if x = np then RUNNABLE else p_state (procs s x))" for x
    using refinesD(2)[OF r'(1), of x] refinesD(2)[OF r, of x] by (auto simp: a_ready_def)
  then have "live_ok s'" using lv k same by (simp add: live_ok_def)
  moreover have "same_pids s s'" using s same(3) p(2) commit_nextpid(1)[OF x] by (simp add: same_pids_def)
  ultimately show ?thesis using r' by (auto intro: ptable_okI)
qed

lemma step_first:
  assumes "ptable_ok s" and p: "np < NPROC" "p_state (procs s np) = EMBRYO"
    and k: "p_kstack (procs s np) \<noteq> 0" "p_pgdir (procs s np) \<noteq> 0"
    and x: "userinit_commit np s = Ok s'"
  shows "ptable_ok s' \<and> same_pids s s'"
proof -
  from assms(1) obtain a where r: "refines s a" and ok: "sched_ok a" and lv: "live_ok s" by (rule ptable_okE)
  have e: "a_state a np = EMBRYO" using p(2) refinesD(2)[OF r] by simp
  have nq: "np \<notin> set (a_queue a pr)" for pr using not_runnable_not_queued[OF ok] e by simp
  note no = queues_free[OF refinesD(1)[OF r] nq]
  let ?f = "\<lambda>q. q\<lparr>p_priority := NORM_PRIO, p_previous := None, p_next := None\<rparr>"
  let ?t = "upd_proc np ?f s"
  let ?a = "a\<lparr>a_prio := (a_prio a)(np := NORM_PRIO)\<rparr>"
  have rt: "refines ?t ?a"
    using refines_upd[OF r, of ?f np] refinesD[OF r] no by (simp add: fun_upd_idem)
  have okt: "sched_ok ?a"
    using sched_ok_idle_change[OF ok, of np EMBRYO NORM_PRIO "a_chan a"] e
    by (simp add: fun_upd_idem NORM_PRIO_def NUM_PRIO_def)
  have "np \<notin> set (a_queue ?a pr)" for pr using nq by simp
  from make_runnable_refines[OF rt this] sched_okD(3)[OF okt p(1)] obtain s1 where
    m: "make_runnable np ?t = Ok s1" "refines s1 (a_ready np ?a)" by blast
  have "upd_proc np ?f (upd_proc np (\<lambda>q. q\<lparr>p_state := RUNNABLE\<rparr>) s) =
      upd_proc np (\<lambda>q. q\<lparr>p_state := RUNNABLE\<rparr>) ?t"
    by (cases "procs s np") (simp add: upd_proc_def)
  then have "s' = s1" using x m(1) by (simp add: userinit_commit_def make_runnable_def Let_def)
  moreover have "sched_ok (a_ready np ?a)" by (rule sched_ok_ready[OF okt p(1)]) (use e in simp_all)
  moreover have same: "p_kstack (procs s1 x) = p_kstack (procs s x)" "p_pgdir (procs s1 x) = p_pgdir (procs s x)"
    "p_pid (procs s1 x) = p_pid (procs s x)" for x
    using static_fields(1,2,3)[OF make_runnable_static[OF m(1)], of x] by simp_all
  moreover have st: "p_state (procs s1 x) = (if x = np then RUNNABLE else p_state (procs s x))" for x
    using refinesD(2)[OF m(2), of x] refinesD(2)[OF r, of x] by (auto simp: a_ready_def)
  moreover have "live_ok s1" using lv k same st by (simp add: live_ok_def)
  moreover have "same_pids s s'"
    using st same(3) p(2) commit_nextpid(2)[OF x] \<open>s' = s1\<close> by (simp add: same_pids_def)
  ultimately show ?thesis using m(2) by (auto intro: ptable_okI)
qed

text \<open>A process that is not runnable and not running changes to another such state.\<close>

lemma ptable_ok_idle:
  assumes "ptable_ok s" and o: "\<And>q. q \<noteq> p \<Longrightarrow> procs s' q = procs s q"
    and q: "queue s' = queue s" "cpus s' = cpus s"
    and "p_state (procs s p) \<in> {UNUSED, EMBRYO, ZOMBIE}"
    and "p_state (procs s' p) \<in> {UNUSED, EMBRYO, ZOMBIE}" and "p_priority (procs s' p) < NUM_PRIO"
    and l: "nx s' p = nx s p" "pv s' p = pv s p"
  shows "ptable_ok s'"
proof -
  from assms(1) obtain a where r: "refines s a" and ok: "sched_ok a" and lv: "live_ok s" by (rule ptable_okE)
  let ?a = "a\<lparr>a_state := (a_state a)(p := p_state (procs s' p)),
        a_prio := (a_prio a)(p := p_priority (procs s' p)),
        a_chan := (a_chan a)(p := p_chan (procs s' p))\<rparr>"
  have "refines s' ?a" by (rule refines_one[OF r o l q])
  moreover have "sched_ok ?a"
    by (rule sched_ok_idle_change[OF ok]) (use assms(5-7) refinesD(2)[OF r] in auto)
  moreover have "live_ok s'" by (rule live_ok_one[OF lv o]) (use assms(6) in auto)
  ultimately show ?thesis by (rule ptable_okI)
qed

lemma ptable_ok_prio: "ptable_ok s \<Longrightarrow> p < NPROC \<Longrightarrow> p_priority (procs s p) < NUM_PRIO"
  using sched_okD(3) refinesD(3) by (metis ptable_okE)

lemma ptable_ok_unlinked:
  assumes "ptable_ok s" and "p_state (procs s p) \<noteq> RUNNABLE"
  shows "nx s p = None" and "pv s p = None"
proof -
  from assms(1) obtain a where r: "refines s a" and ok: "sched_ok a" by (rule ptable_okE)
  have "p \<notin> set (a_queue a pr)" for pr
    using not_runnable_not_queued[OF ok] assms(2) refinesD(2)[OF r, of p] by simp
  from queues_free[OF refinesD(1)[OF r] this] show "nx s p = None" "pv s p = None" by simp_all
qed

lemma ptable_ok_abort:
  assumes "ptable_ok s" and e: "p_state (procs s np) = EMBRYO" and lt: "p_priority (procs s np) < NUM_PRIO"
    and x: "fork_abort np s = Ok s'"
  shows "ptable_ok s'"
proof -
  from x obtain s1 where k: "kfree (p_kstack (procs s np)) s = Ok s1"
    and s': "s' = upd_proc np (\<lambda>q. q\<lparr>p_kstack := 0, p_state := UNUSED\<rparr>) s1"
    by (auto simp: fork_abort_def res_iff)
  note o = kfree_only_mem[OF k]
  show ?thesis unfolding s'
    by (rule ptable_ok_idle[OF ptable_ok_mem[OF assms(1) o], of np])
      (use e lt only_mem_procs(1)[OF o] in simp_all)
qed

lemma reap_effect:
  assumes "reap p want s = Ok (pid, st, s')"
  shows "pid = p_pid (procs s p)" and "st = (if want then Some (p_status (procs s p)) else None)"
    and "procs s' = (procs s)(p := (procs s p)\<lparr>p_kstack := 0, p_pid := 0, p_parent := None,
            p_name := (p_name (procs s p))[0 := 0], p_killed := False, p_state := UNUSED,
            p_priority := 0, p_next := None, p_previous := None\<rparr>)"
    and "queue s' = queue s" and "cpus s' = cpus s" and "nextpid s' = nextpid s"
    and "initproc s' = initproc s"
proof -
  from assms obtain s1 s2 where k: "kfree (p_kstack (procs s p)) s = Ok s1"
    and f: "freevm (p_pgdir (procs (upd_proc p (\<lambda>q. q\<lparr>p_kstack := 0\<rparr>) s1) p)) False
              (upd_proc p (\<lambda>q. q\<lparr>p_kstack := 0\<rparr>) s1) = Ok s2"
    and r: "pid = p_pid (procs s p)" "st = (if want then Some (p_status (procs s2 p)) else None)"
      "s' = upd_proc p (\<lambda>q. q\<lparr>p_pid := 0, p_parent := None, p_name := (p_name q)[0 := 0],
            p_killed := False, p_state := UNUSED, p_priority := 0, p_next := None, p_previous := None\<rparr>) s2"
    by (auto simp: reap_def Let_def res_iff)
  note O = only_mem_procs[OF freevm_only_mem[OF f]] only_mem_procs[OF kfree_only_mem[OF k]]
  show "pid = p_pid (procs s p)" "st = (if want then Some (p_status (procs s p)) else None)"
    "queue s' = queue s" "cpus s' = cpus s" "nextpid s' = nextpid s" "initproc s' = initproc s"
    using r O by simp_all
  show "procs s' = (procs s)(p := (procs s p)\<lparr>p_kstack := 0, p_pid := 0, p_parent := None,
            p_name := (p_name (procs s p))[0 := 0], p_killed := False, p_state := UNUSED,
            p_priority := 0, p_next := None, p_previous := None\<rparr>)"
    using r(3) O by simp
qed

lemma ptable_ok_wait:
  assumes ok: "ptable_ok s" and w: "wait c want s = Ok (pid, st, s')"
  shows "ptable_ok s'"
proof -
  from w consider "s' = s"
    | p where "p_state (procs s p) = ZOMBIE" "p < NPROC" "reap p want s = Ok (pid, st, s')"
    by (auto simp: wait_def find_first_Some split: option.splits if_splits)
  then show ?thesis
  proof cases
    case 1
    then show ?thesis using ok by simp
  next
    case 2
    note R = reap_effect[OF 2(3)]
    have "nx s p = None" "pv s p = None" using ptable_ok_unlinked[OF ok, of p] 2(1) by simp_all
    then show ?thesis
      by (intro ptable_ok_idle[OF ok, of p s']) (use 2(1) R in \<open>simp_all add: NUM_PRIO_def\<close>)
  qed
qed

lemma ptable_ok_grow:
  assumes ok: "ptable_ok s" and g: "growproc c n s = Ok (r, s')"
  shows "ptable_ok s'"
proof -
  from g obtain p s1 sz where o: "only_mem s s1"
    and s': "s' = s1 \<or> s' = upd_proc p (\<lambda>q. q\<lparr>p_sz := sz\<rparr>) s1"
    by (auto simp: growproc_def Let_def res_iff split: option.splits if_splits
        dest: allocuvm_only_mem deallocuvm_only_mem intro: only_mem_refl)
  have ok1: "ptable_ok s1" by (rule ptable_ok_mem[OF ok o])
  then obtain a where r: "refines s1 a" and so: "sched_ok a" and lv: "live_ok s1" by (rule ptable_okE)
  have "refines (upd_proc p (\<lambda>q. q\<lparr>p_sz := sz\<rparr>) s1) a" by (rule refines_upd_same[OF r]) simp_all
  moreover have "live_ok (upd_proc p (\<lambda>q. q\<lparr>p_sz := sz\<rparr>) s1)" using lv by (auto simp: live_ok_def)
  ultimately show ?thesis using s' ok1 so by (auto intro: ptable_okI)
qed

section \<open>Reachable tables\<close>

definition pids_ok :: "'a ptable_scheme \<Rightarrow> bool" where
  "pids_ok s \<longleftrightarrow>
     (\<forall>p<NPROC. p_state (procs s p) \<noteq> UNUSED \<longrightarrow>
        0 < unat (p_pid (procs s p)) \<and> unat (p_pid (procs s p)) < unat (nextpid s)) \<and>
     (\<forall>p<NPROC. \<forall>q<NPROC. p_state (procs s p) \<noteq> UNUSED \<longrightarrow> p_state (procs s q) \<noteq> UNUSED \<longrightarrow>
        p_pid (procs s p) = p_pid (procs s q) \<longrightarrow> p = q)"

lemma pids_ok_fewer:
  assumes "pids_ok s" and "nextpid s' = nextpid s"
    and "\<And>p. p_state (procs s' p) \<noteq> UNUSED \<Longrightarrow>
           p_state (procs s p) \<noteq> UNUSED \<and> p_pid (procs s' p) = p_pid (procs s p)"
  shows "pids_ok s'"
  using assms unfolding pids_ok_def by metis

lemma pids_ok_same: "pids_ok s \<Longrightarrow> same_pids s s' \<Longrightarrow> pids_ok s'"
  by (rule pids_ok_fewer) (auto simp: same_pids_def)

lemma pids_ok_alloc:
  assumes ok: "pids_ok s" and al: "allocproc s = (np, s')"
    and lt: "0 < unat (nextpid s)" "unat (nextpid s) + 1 < 2 ^ 32"
  shows "pids_ok s'"
proof (cases "s' = s")
  case False
  from allocproc_cases[OF al] False obtain p where p: "p < NPROC"
    and o: "\<And>q. q \<noteq> p \<Longrightarrow> procs s' q = procs s q" and n: "nextpid s' = nextpid s + 1"
    and pid: "p_pid (procs s' p) = nextpid s" by blast
  have u: "unat (nextpid s') = unat (nextpid s) + 1"
    unfolding n using lt(2) by (subst unat_add_lem[THEN iffD1]) simp_all
  have ne: "p_pid (procs s q) \<noteq> nextpid s" if "q < NPROC" "p_state (procs s q) \<noteq> UNUSED" for q
    using ok that unfolding pids_ok_def by auto
  have "0 < unat (p_pid (procs s' q)) \<and> unat (p_pid (procs s' q)) < unat (nextpid s')"
    if "q < NPROC" "p_state (procs s' q) \<noteq> UNUSED" for q
    using ok that o[of q] pid lt(1) u unfolding pids_ok_def by (cases "q = p") (auto simp: less_Suc_eq)
  moreover have "q = r" if "q < NPROC" "r < NPROC" "p_state (procs s' q) \<noteq> UNUSED"
    "p_state (procs s' r) \<noteq> UNUSED" "p_pid (procs s' q) = p_pid (procs s' r)" for q r
    using ok that o[of q] o[of r] pid ne[of q] ne[of r] unfolding pids_ok_def by metis
  ultimately show "pids_ok s'" unfolding pids_ok_def by blast
qed (use ok in simp)

end
