(* ===== verification/Vm_Properties.thy ===== *)
theory Vm_Properties
  imports Vm_User
begin

text \<open>
  The properties of the physical page allocator (\<^verbatim>\<open>src/xv6/kalloc.c\<close>) and of the address
  spaces built on it (\<^verbatim>\<open>src/xv6/vm.c\<close>), and a small concrete memory on which their hypotheses
  hold: three free pages and an empty page directory.
\<close>

section \<open>An empty address space\<close>

lemma uvm_empty:
  assumes z: "\<And>a. PGROUNDDOWN a = pgdir \<Longrightarrow> mem s a = 0" and f: "free_pages s xs"
    and v: "valid_page s pgdir" "pgdir \<notin> set xs" and k: "KERNBASE < kend s"
  shows "uvm s pgdir xs" and "pte_of (mem s) pgdir va = 0"
proof -
  have al: "page_aligned pgdir" using v(1) by (simp add: valid_page_def)
  have "pde_of (mem s) pgdir va = 0" for va
    using z[OF slot_page[OF al PDX_less]] by (simp add: pde_of_def)
  then have n: "\<not> present (pde_of (mem s) pgdir va)" for va by simp
  then show "pte_of (mem s) pgdir va = 0" for va by (simp add: pte_of_def)
  then have "\<not> umapped (mem s) pgdir va" for va by (simp add: umapped_def)
  moreover have "pgtable s pgdir xs" unfolding pgtable_def using f v n by blast
  ultimately show "uvm s pgdir xs" unfolding uvm_def using k by blast
qed

definition demo_mem :: kmem where
  "demo_mem =
     \<lparr>mem = (\<lambda>_. 0)(0x80500000 := 0x80501000, 0x80501000 := 0x80502000),
      freelist = 0x80500000, use_lock = True, kend = 0x80400000, kdata = 0x80300000\<rparr>"

definition demo_free :: "u32 list" where
  "demo_free = [0x80500000, 0x80501000, 0x80502000]"

definition demo_pgdir :: u32 where
  "demo_pgdir = 0x80600000"

lemma demo_valid:
  "valid_page demo_mem demo_pgdir" "x \<in> set demo_free \<Longrightarrow> valid_page demo_mem x"
  by (auto simp: valid_page_def demo_mem_def demo_pgdir_def demo_free_def page_aligned_def V2P_def
      KERNBASE_def PHYSTOP_def)

lemma demo_free_pages: "free_pages demo_mem demo_free"
  using demo_valid(2) by (auto simp: free_pages_def demo_free_def demo_mem_def)

lemma demo_uvm: "uvm demo_mem demo_pgdir demo_free" "pte_of (mem demo_mem) demo_pgdir va = 0"
proof -
  have z: "mem demo_mem a = 0" if "PGROUNDDOWN a = demo_pgdir" for a
  proof -
    have "a \<noteq> 0x80500000" "a \<noteq> 0x80501000"
      using that by (auto simp: PGROUNDDOWN_def demo_pgdir_def PGSIZE_def)
    then show ?thesis by (simp add: demo_mem_def)
  qed
  have n: "demo_pgdir \<notin> set demo_free" by (simp add: demo_pgdir_def demo_free_def)
  have k: "KERNBASE < kend demo_mem" by (simp add: KERNBASE_def demo_mem_def)
  show "uvm demo_mem demo_pgdir demo_free" by (rule uvm_empty(1)[OF z demo_free_pages demo_valid(1) n k])
  show "pte_of (mem demo_mem) demo_pgdir va = 0"
    by (rule uvm_empty(2)[OF z demo_free_pages demo_valid(1) n k])
qed

section \<open>Properties\<close>



text \<open>C8: Shrinking a process from \<open>oldsz\<close> to \<open>newsz\<close> returns \<open>newsz\<close>, removes exactly the
  mappings of the pages in between, gives exactly their frames back to the free list, and
  leaves every other entry and all memory outside the page tables and those frames alone.\<close>

theorem deallocuvm_frees_exactly:
  assumes "uvm s pgdir xs" and "newsz < oldsz" and "oldsz \<le> KERNBASE"
  shows "\<exists>s' fs. deallocuvm pgdir oldsz newsz s = Ok (newsz, s') \<and>
           shrunk pgdir (PGROUNDUP newsz) oldsz s fs xs s'"
  by (rule deallocuvm_ok[OF assms])

theorem deallocuvm_frees_exactly_witness:
  "\<exists>s' fs. deallocuvm demo_pgdir 8192 0 demo_mem = Ok (0, s') \<and>
           shrunk demo_pgdir (PGROUNDUP 0) 8192 demo_mem fs demo_free s'"
  by (rule deallocuvm_frees_exactly[OF demo_uvm(1)]) (simp_all add: KERNBASE_def)

text \<open>C12: Releasing a page that is not free and allocating again hands out that page, leaves the
  free list as it was before, and has changed no word outside the page.\<close>

theorem kfree_kalloc_roundtrip:
  assumes "free_pages s xs" and "valid_page s v" and "v \<notin> set xs"
  shows "\<exists>s' s''. kfree v s = Ok s' \<and> free_pages s' (v # xs) \<and> kalloc s' = (v, s'') \<and>
           free_pages s'' xs \<and> freelist s'' = freelist s \<and>
           (\<forall>a. PGROUNDDOWN a \<noteq> v \<longrightarrow> mem s'' a = mem s a)"
proof -
  from kfree_ok[OF assms] obtain s' where
    1: "kfree v s = Ok s'" "free_pages s' (v # xs)" "\<forall>a. PGROUNDDOWN a \<noteq> v \<longrightarrow> mem s' a = mem s a"
    by blast
  from kalloc_ok(1,2)[OF 1(2)] kalloc_after_kfree[OF 1(1)]
  have "kalloc s' = (v, s'\<lparr>freelist := freelist s\<rparr>)" "free_pages (s'\<lparr>freelist := freelist s\<rparr>) xs"
    by simp_all
  with 1 show ?thesis by auto
qed

theorem kfree_kalloc_roundtrip_witness:
  "\<exists>s' s''. kfree demo_pgdir demo_mem = Ok s' \<and> kalloc s' = (demo_pgdir, s'') \<and> free_pages s'' demo_free"
proof -
  have "demo_pgdir \<notin> set demo_free" by (simp add: demo_pgdir_def demo_free_def)
  from kfree_kalloc_roundtrip[OF demo_free_pages demo_valid(1) this] show ?thesis by blast
qed

end
