(* ===== verification/Proc_Properties.thy ===== *)
theory Proc_Properties
  imports Proc_Inv Vm_Properties
begin

text \<open>
  The properties of the process table and the scheduler of \<^verbatim>\<open>src/xv6/proc.c\<close>, and a concrete
  table on which their hypotheses hold: process 0 runs on processor 0, processes 1 and 2 wait
  in the normal queue, process 3 sleeps until the next clock tick.
\<close>

section \<open>Reachability\<close>

definition boot :: "'a ptable_scheme \<Rightarrow> bool" where
  "boot s \<longleftrightarrow>
     (\<forall>p. p_state (procs s p) = UNUSED \<and> p_priority (procs s p) = 0 \<and> nx s p = None \<and> pv s p = None) \<and>
     (\<forall>pr. queue s pr = None) \<and> (\<forall>c. c_proc (cpus s c) = None) \<and> nextpid s = 1"

lemma boot_ok: "boot s \<Longrightarrow> ptable_ok s"
proof (rule ptable_okI[of s "absr s (\<lambda>_. [])"])
  assume b: "boot s"
  show "refines s (absr s (\<lambda>_. []))"
    by (rule refinesI[of s "\<lambda>_. []"]) (use b in \<open>simp_all add: boot_def queues_def\<close>)
  show "sched_ok (absr s (\<lambda>_. []))"
    using b by (simp add: boot_def sched_ok_def absr_def NUM_PRIO_def)
  show "live_ok s" using b by (simp add: boot_def live_ok_def)
qed

lemma pstep_ok: "pstep s s' \<Longrightarrow> ptable_ok s \<Longrightarrow> ptable_ok s'"
proof (induction rule: pstep.induct)
  case (alloc s np s')
  show ?case by (rule ptable_ok_alloc[OF alloc(2,1)])
next
  case (fill s np f)
  show ?case by (rule ptable_ok_fill[OF fill(3,1,2)])
next
  case (memory s s')
  show ?case by (rule ptable_ok_mem[OF memory(2,1)])
next
  case (first np s s')
  show ?case using step_first[OF first(6,1-5)] by blast
next
  case (fork np s q s')
  show ?case using step_fork[OF fork(8,1-7)] by blast
next
  case (abort np s s')
  show ?case by (rule ptable_ok_abort[OF abort(4,2) ptable_ok_prio[OF abort(4,1)] abort(3)])
next
  case (grow c n s r s')
  show ?case by (rule ptable_ok_grow[OF grow(2,1)])
next
  case (yield c s s')
  show ?case using step_yield[OF yield(2,1)] by blast
next
  case (sleep c ch s s')
  show ?case using step_sleep[OF sleep(2,1)] by blast
next
  case (resume c s s')
  show ?case using step_resume[OF resume(2,1)] by blast
next
  case (wakeup ch s s')
  show ?case using step_wakeup[OF wakeup(2) wakeup(1)[unfolded wakeup_def]] by blast
next
  case (kill pid s r s')
  show ?case using step_kill[OF kill(2,1)] by blast
next
  case (setprio pid prio s r s')
  show ?case using step_setprio[OF setprio(2,1)] by blast
next
  case (exit c s p xs status s')
  show ?case using step_exit[OF exit(4,1,2,3)] by blast
next
  case (wait c want s pid st s')
  show ?case by (rule ptable_ok_wait[OF wait(2,1)])
next
  case (sched c s s')
  show ?case using step_sched[OF sched(3,1,2)] by blast
qed

lemma reachable_ok: "pstep\<^sup>*\<^sup>* s0 s \<Longrightarrow> boot s0 \<Longrightarrow> ptable_ok s"
  by (induction rule: rtranclp_induct) (auto intro: boot_ok pstep_ok)

text \<open>The pids of the processes in use, as long as the counter does not wrap around.\<close>

lemma pstep_pids:
  assumes st: "pstep s s'" and ok: "ptable_ok s" and pk: "pids_ok s"
    and n: "0 < unat (nextpid s)" "unat (nextpid s) + 1 < 2 ^ 32"
  shows "pids_ok s' \<and> 0 < unat (nextpid s')"
proof -
  have fin: ?thesis if "same_pids s s'"
    using pids_ok_same[OF pk that] n(1) that by (simp add: same_pids_def)
  show ?thesis using st
  proof cases
  case (alloc np)
  have "nextpid s' = nextpid s \<or> unat (nextpid s') = unat (nextpid s) + 1"
    using allocproc_cases[OF alloc] n(2) by (auto simp: unat_word_ariths)
  then show ?thesis using pids_ok_alloc[OF pk alloc n] n(1) by auto
next
  case (fill np f)
  show ?thesis
    by (rule fin) (use fill(3) in \<open>auto simp: fill(1) same_pids_def private_update_def split: if_splits\<close>)
next
  case memory
  show ?thesis by (rule fin) (use only_mem_procs[OF memory] in \<open>simp add: same_pids_def\<close>)
next
  case (abort np)
  then obtain s1 where k: "kfree (p_kstack (procs s np)) s = Ok s1"
    and s': "s' = upd_proc np (\<lambda>q. q\<lparr>p_kstack := 0, p_state := UNUSED\<rparr>) s1"
    by (auto simp: fork_abort_def res_iff)
  note O = only_mem_procs[OF kfree_only_mem[OF k]]
  have "pids_ok s'" by (rule pids_ok_fewer[OF pk]) (auto simp: s' O split: if_splits)
  then show ?thesis using n(1) by (simp add: s' O)
next
  case (grow c k r)
  then obtain p s1 sz where o: "only_mem s s1"
    and s': "s' = s1 \<or> s' = upd_proc p (\<lambda>q. q\<lparr>p_sz := sz\<rparr>) s1"
    by (auto simp: growproc_def Let_def res_iff split: option.splits if_splits
        dest: allocuvm_only_mem deallocuvm_only_mem intro: only_mem_refl)
  show ?thesis
    by (rule fin) (use s' only_mem_procs[OF o] in \<open>auto simp: same_pids_def split: if_splits\<close>)
next
  case (wait c want pid st)
  then consider "s' = s" | p where "reap p want s = Ok (pid, st, s')"
    by (auto simp: wait_def split: option.splits if_splits)
  then show ?thesis
  proof cases
    case 2
    note R = reap_effect[OF 2]
    have "pids_ok s'" by (rule pids_ok_fewer[OF pk]) (auto simp: R split: if_splits)
    then show ?thesis using n(1) by (simp add: R)
  qed (use pk n in simp)
next
  case (first np)
  show ?thesis by (rule fin) (use step_first[OF ok first] in blast)
next
  case (fork np q)
  show ?thesis by (rule fin) (use step_fork[OF ok fork] in blast)
next
  case (yield c)
  show ?thesis by (rule fin) (use step_yield[OF ok yield] in blast)
next
  case (sleep c ch)
  show ?thesis by (rule fin) (use step_sleep[OF ok sleep] in blast)
next
  case (resume c)
  show ?thesis by (rule fin) (use step_resume[OF ok resume] in blast)
next
  case (wakeup ch)
  show ?thesis by (rule fin) (use step_wakeup[OF ok wakeup[unfolded wakeup_def]] in blast)
next
  case (kill pid r)
  show ?thesis by (rule fin) (use step_kill[OF ok kill] in blast)
next
  case (setprio pid prio r)
  show ?thesis by (rule fin) (use step_setprio[OF ok setprio] in blast)
next
  case (exit c p xs status)
  show ?thesis by (rule fin) (use step_exit[OF ok exit] in blast)
next
  case (sched c)
  show ?thesis by (rule fin) (use step_sched[OF ok sched] in blast)
  qed
qed

section \<open>A concrete table\<close>

definition blank_proc :: proc where
  "blank_proc =
     \<lparr>p_sz = 0, p_pgdir = 0, p_kstack = 0, p_state = UNUSED, p_pid = 0, p_parent = None, p_tf = 0,
      p_context = 0, p_chan = None, p_killed = False, p_ofile = (\<lambda>_. None), p_cwd = None,
      p_name = replicate 16 0, p_status = 0, p_priority = 0, p_previous = None, p_next = None\<rparr>"

definition blank_cpu :: cpu where
  "blank_cpu =
     \<lparr>c_apicid = 0, c_ts_addr = 0x80112000, c_ts_ss0 = 0, c_ts_esp0 = 0, c_ts_iomb = 0,
      c_gdt = (\<lambda>_. SEG 0 0 0 0), c_started = 0, c_ncli = 0, c_intena = False, c_proc = None,
      c_tr = 0, c_cr3 = 0x3FF000\<rparr>"

definition demo_boot :: ptable where
  "demo_boot =
     \<lparr>mem = (\<lambda>_. 0), freelist = 0x80500000, use_lock = True, kend = 0x80400000, kdata = 0x80300000,
      procs = (\<lambda>_. blank_proc), queue = (\<lambda>_. None), initproc = None, nextpid = 1,
      cpus = (\<lambda>_. blank_cpu), ncpu = 2, kpgdir = 0x803FF000, trapret = 0x80105000, forkret_addr = 0x80103000\<rparr>"

definition live_proc :: "u32 \<Rightarrow> procstate \<Rightarrow> u32 \<Rightarrow> proc" where
  "live_proc pid st pr =
     blank_proc\<lparr>p_pid := pid, p_state := st, p_priority := pr, p_parent := Some 0,
                p_kstack := 0x80600000 + pid * 8192, p_pgdir := 0x80601000 + pid * 8192\<rparr>"

definition demo :: ptable where
  "demo = demo_boot\<lparr>
     freelist := 0,
     procs := (\<lambda>_. blank_proc)
       (0 := live_proc 1 RUNNING NORM_PRIO,
        1 := (live_proc 2 RUNNABLE NORM_PRIO)\<lparr>p_previous := Some 2, p_next := Some 2\<rparr>,
        2 := (live_proc 3 RUNNABLE NORM_PRIO)\<lparr>p_previous := Some 1, p_next := Some 1\<rparr>,
        3 := (live_proc 4 SLEEPING HI_PRIO)\<lparr>p_chan := Some ChanTicks\<rparr>),
     queue := (\<lambda>_. None)(NORM_PRIO := Some 1),
     initproc := Some 0, nextpid := 5,
     cpus := (\<lambda>_. blank_cpu)(0 := blank_cpu\<lparr>c_proc := Some 0\<rparr>)\<rparr>"

definition demo_queue :: "u32 \<Rightarrow> nat list" where
  "demo_queue = (\<lambda>_. [])(NORM_PRIO := [1, 2])"

lemmas demo_defs = demo_def demo_boot_def live_proc_def blank_proc_def blank_cpu_def

lemma demo_slots:
  "p_state (procs demo p) =
     (if p = 0 then RUNNING else if p = 1 \<or> p = 2 then RUNNABLE else if p = 3 then SLEEPING else UNUSED)"
  "p_priority (procs demo p) = (if p < 3 then NORM_PRIO else HI_PRIO)"
  "p_pid (procs demo p) = (if p < 4 then of_nat p + 1 else 0)"
  "nx demo p = (if p = 1 then Some 2 else if p = 2 then Some 1 else None)"
  "pv demo p = (if p = 1 then Some 2 else if p = 2 then Some 1 else None)"
  "p_chan (procs demo p) = (if p = 3 then Some ChanTicks else None)"
  "p_parent (procs demo p) = (if p < 4 then Some 0 else None)"
  "c_proc (cpus demo c) = (if c = 0 then Some 0 else None)"
proof -
  have c: "p = 0 \<or> p = 1 \<or> p = 2 \<or> p = 3 \<or> 3 < p" by arith
  show "p_state (procs demo p) =
     (if p = 0 then RUNNING else if p = 1 \<or> p = 2 then RUNNABLE else if p = 3 then SLEEPING else UNUSED)"
    "nx demo p = (if p = 1 then Some 2 else if p = 2 then Some 1 else None)"
    "pv demo p = (if p = 1 then Some 2 else if p = 2 then Some 1 else None)"
    "p_chan (procs demo p) = (if p = 3 then Some ChanTicks else None)"
    "c_proc (cpus demo c) = (if c = 0 then Some 0 else None)"
    by (simp_all add: demo_defs)
  show "p_priority (procs demo p) = (if p < 3 then NORM_PRIO else HI_PRIO)"
    "p_pid (procs demo p) = (if p < 4 then of_nat p + 1 else 0)"
    "p_parent (procs demo p) = (if p < 4 then Some 0 else None)"
    using c by (auto simp: demo_defs HI_PRIO_def)
qed

lemma demo_queues: "queues demo demo_queue"
proof -
  have "queue demo pr = (if pr = NORM_PRIO then Some 1 else None)" for pr by (simp add: demo_defs)
  then show ?thesis by (auto simp: queues_def demo_queue_def cdll_def demo_slots)
qed

lemma demo_refines: "refines demo (absr demo demo_queue)"
  by (rule refinesI[OF demo_queues refl])

lemma demo_sched_ok: "sched_ok (absr demo demo_queue)"
proof -
  have n: "HI_PRIO \<noteq> NORM_PRIO" "HI_PRIO < NUM_PRIO" "NORM_PRIO < NUM_PRIO"
    by (simp_all add: HI_PRIO_def NORM_PRIO_def NUM_PRIO_def)
  show ?thesis
    unfolding sched_ok_def
    by (auto simp: absr_def demo_slots demo_queue_def NPROC_def n split: if_splits)
qed

lemma demo_live_ok: "live_ok demo"
  by (auto simp: live_ok_def demo_defs split: if_splits)

lemma demo_ok: "ptable_ok demo"
  by (rule ptable_okI[OF demo_refines demo_sched_ok demo_live_ok])

lemma demo_boot_boot: "boot demo_boot"
  by (simp add: boot_def demo_boot_def blank_proc_def blank_cpu_def)

lemma demo_pids_ok: "pids_ok demo"
proof -
  have n: "nextpid demo = 5" by (simp add: demo_defs)
  have e: "unat (p_pid (procs demo p)) = p + 1" if "p_state (procs demo p) \<noteq> UNUSED" for p
  proof -
    have "p = 0 \<or> p = 1 \<or> p = 2 \<or> p = 3" using that by (auto simp: demo_slots split: if_splits)
    then show ?thesis by (auto simp: demo_slots)
  qed
  have "0 < unat (p_pid (procs demo p)) \<and> unat (p_pid (procs demo p)) < unat (nextpid demo)"
    if "p_state (procs demo p) \<noteq> UNUSED" for p
  proof -
    have "p < 4" using that by (auto simp: demo_slots split: if_splits)
    then show ?thesis using e[OF that] n by simp
  qed
  moreover have "p = q" if "p_state (procs demo p) \<noteq> UNUSED" "p_state (procs demo q) \<noteq> UNUSED"
    "p_pid (procs demo p) = p_pid (procs demo q)" for p q
  proof -
    have "p + 1 = q + 1" unfolding e[OF that(1), symmetric] e[OF that(2), symmetric] that(3) ..
    then show ?thesis by simp
  qed
  ultimately show ?thesis unfolding pids_ok_def by blast
qed

section \<open>Rounds of the scheduler\<close>

text \<open>
  One processor that dispatches a process, lets it run until the clock tick makes it yield,
  and dispatches again, \<open>n\<close> times; the processes that ran, in order.
\<close>

fun rounds :: "nat \<Rightarrow> nat \<Rightarrow> 'a ptable_scheme \<Rightarrow> (nat option list \<times> 'a ptable_scheme) res" where
  "rounds c 0 s = Ok ([], s)"
| "rounds c (Suc n) s =
     bindR (scheduler c s) (\<lambda>s1.
     bindR (yield c s1) (\<lambda>s2.
     bindR (rounds c n s2) (\<lambda>(ps, s'). Ok (myproc c s1 # ps, s'))))"

text \<open>The level that is served: the high one, or the normal one when the high one is empty.\<close>

definition served :: "u32 \<Rightarrow> sched_abs \<Rightarrow> bool" where
  "served pr a \<longleftrightarrow> pr = HI_PRIO \<or> pr = NORM_PRIO \<and> a_queue a HI_PRIO = []"

lemma served_next: "served pr a \<Longrightarrow> a_queue a pr = p # ps \<Longrightarrow> a_next a = Some p"
  by (auto simp: served_def a_next_def)

lemma one_round:
  fixes s :: "'a ptable_scheme"
  assumes r: "refines s a" and ok: "sched_ok a" and lv: "live_ok s" and idle: "a_cpu a c = None"
    and sv: "served pr a" and q: "a_queue a pr = p # ps"
  shows "\<exists>s1 s2. scheduler c s = Ok s1 \<and> myproc c s1 = Some p \<and> yield c s1 = Ok s2 \<and>
           refines s2 (a\<lparr>a_queue := (a_queue a)(pr := ps @ [p])\<rparr>) \<and> live_ok s2"
proof -
  let ?a1 = "a_dispatch c p a"
  have p: "p \<in> set (a_queue a pr)" using q by simp
  then have st: "p < NPROC" "a_state a p = RUNNABLE" "a_prio a p = pr" using sched_okD(2)[OF ok] by auto
  from scheduler_refines[OF r ok lv served_next[OF sv q]] obtain s1 where
    1: "scheduler c s = Ok s1" "refines s1 ?a1" "static s1 = static s" by blast
  have c: "a_cpu ?a1 c = Some p" by (simp add: a_dispatch_def)
  from yield_refines[OF 1(2) sched_ok_dispatch[OF ok p idle] c] obtain s2 where
    2: "yield c s1 = Ok s2" "refines s2 (a_leave c (a_ready p ?a1))" "static s2 = static s1" by blast
  have "a_leave c (a_ready p (a_dispatch c p a)) =
      a\<lparr>a_state := (a_state a)(p := RUNNABLE), a_cpu := (a_cpu a)(c := None),
        a_queue := (a_queue a)(pr := ps @ [p])\<rparr>"
    using q st by (simp add: a_leave_def a_ready_def a_dispatch_def)
  also have "\<dots> = a\<lparr>a_queue := (a_queue a)(pr := ps @ [p])\<rparr>"
    using st(2) idle fun_upd_idem[of "a_state a" p RUNNABLE] fun_upd_idem[of "a_cpu a" c None] by simp
  finally have e: "a_leave c (a_ready p ?a1) = a\<lparr>a_queue := (a_queue a)(pr := ps @ [p])\<rparr>" .
  have "p_state (procs s2 x) = p_state (procs s x)" for x
    using refinesD(2)[OF r, of x] refinesD(2)[OF 2(2)[unfolded e], of x] by simp
  then have "live_ok s2" using live_ok_static[OF lv, of s2] 1(3) 2(3) by simp
  then show ?thesis using 1 2 e refinesD(5)[OF 1(2), of c] c by (auto simp: myproc_def)
qed

lemma sched_ok_rotate:
  assumes "sched_ok a" and "distinct qs" and "set qs = set (a_queue a pr)"
  shows "sched_ok (a\<lparr>a_queue := (a_queue a)(pr := qs)\<rparr>)"
  using assms unfolding sched_ok_def by auto

lemma rounds_ok:
  fixes s :: "'a ptable_scheme"
  assumes "refines s a" and "sched_ok a" and "live_ok s" and "a_cpu a c = None"
    and "served pr a" and "a_queue a pr = ps @ qs"
  shows "\<exists>s'. rounds c (length ps) s = Ok (map Some ps, s') \<and>
           refines s' (a\<lparr>a_queue := (a_queue a)(pr := qs @ ps)\<rparr>)"
  using assms
proof (induction ps arbitrary: s a qs)
  case Nil
  then show ?case using fun_upd_idem[of "a_queue a" pr qs] by simp
next
  case (Cons p ps)
  let ?b = "a\<lparr>a_queue := (a_queue a)(pr := (ps @ qs) @ [p])\<rparr>"
  from Cons.prems(6) have q: "a_queue a pr = p # (ps @ qs)" by simp
  from one_round[OF Cons.prems(1-5) q] obtain s1 s2 where
    1: "scheduler c s = Ok s1" "myproc c s1 = Some p" "yield c s1 = Ok s2" "refines s2 ?b" "live_ok s2"
    by blast
  have ok: "sched_ok ?b"
    by (rule sched_ok_rotate[OF Cons.prems(2)]) (use sched_okD(1)[OF Cons.prems(2), of pr] q in auto)
  have "\<exists>s'. rounds c (length ps) s2 = Ok (map Some ps, s') \<and>
      refines s' (?b\<lparr>a_queue := (a_queue ?b)(pr := (qs @ [p]) @ ps)\<rparr>)"
    by (rule Cons.IH[OF 1(4) ok 1(5)]) (use Cons.prems(4,5) in \<open>auto simp: served_def\<close>)
  then obtain s' where "rounds c (length ps) s2 = Ok (map Some ps, s')"
    "refines s' (a\<lparr>a_queue := (a_queue a)(pr := qs @ p # ps)\<rparr>)" by auto
  then show ?case using 1(1-3) by (intro exI[of _ s'] conjI) (simp, assumption)
qed

section \<open>Properties\<close>

text \<open>C1: In every state that the kernel reaches from an empty process table, by any
  interleaving of its critical sections on any number of processors, there are two
  duplicate-free run queues that the doubly linked lists of the table represent exactly, each
  holds exactly the runnable processes of its priority, every priority is legal, a process is
  current on a processor only if it is running, and on one processor only.\<close>

theorem reachable_queues:
  fixes s0 s :: "'a ptable_scheme"
  assumes "boot s0" and "pstep\<^sup>*\<^sup>* s0 s"
  shows "\<exists>qs. queues s qs \<and>
     (\<forall>pr. distinct (qs pr) \<and>
       set (qs pr) = {p. p < NPROC \<and> p_state (procs s p) = RUNNABLE \<and> p_priority (procs s p) = pr}) \<and>
     (\<forall>p<NPROC. p_priority (procs s p) < NUM_PRIO) \<and>
     (\<forall>c p. myproc c s = Some p \<longrightarrow> p < NPROC \<and> p_state (procs s p) = RUNNING) \<and>
     (\<forall>c c' p. myproc c s = Some p \<longrightarrow> myproc c' s = Some p \<longrightarrow> c = c')"
proof -
  from reachable_ok[OF assms(2,1)] obtain a where r: "refines s a" and ok: "sched_ok a"
    by (auto elim: ptable_okE)
  show ?thesis
    using refinesD(1)[OF r] ok refinesD(2,3,5)[OF r] unfolding sched_ok_def myproc_def
    by (intro exI[of _ "a_queue a"]) simp
qed

theorem reachable_queues_witness:
  "\<exists>qs. queues (snd (allocproc demo_boot)) qs \<and>
     (\<forall>pr. set (qs pr) = {p. p < NPROC \<and> p_state (procs (snd (allocproc demo_boot)) p) = RUNNABLE \<and>
                             p_priority (procs (snd (allocproc demo_boot)) p) = pr})"
proof -
  have "pstep demo_boot (snd (allocproc demo_boot))" by (rule pstep.alloc) (rule prod.collapse[symmetric])
  from reachable_queues[OF demo_boot_boot r_into_rtranclp[of pstep, OF this]] show ?thesis by blast
qed



lemma scheduler_space:
  assumes "scheduler c s = Ok s'" and "scheduler_pick s = Some p"
  shows "c_cr3 (cpus s' c) = V2P (p_pgdir (procs s p))"
    and "c_ts_esp0 (cpus s' c) = p_kstack (procs s p) + KSTACKSIZE"
proof -
  from assms obtain t where t: "switchuvm c (Some p) (set_cpu_proc c (Some p) s) = Ok t"
    "dequeue p (upd_proc p (\<lambda>q. q\<lparr>p_state := RUNNING\<rparr>) t) = Ok s'"
    by (auto simp: scheduler_def res_iff)
  have "cpus s' = cpus t" using link_change_fields(6)[OF dequeue_links[OF t(2)]] by simp
  then show "c_cr3 (cpus s' c) = V2P (p_pgdir (procs s p))"
    "c_ts_esp0 (cpus s' c) = p_kstack (procs s p) + KSTACKSIZE"
    using t(1) by (auto simp: switchuvm_def split: if_splits)
qed

text \<open>C6: The scheduler never idles while a process is runnable, and it serves the high
  priority first: on an idle processor it returns unchanged when no process is runnable;
  otherwise it dispatches a runnable process of the best priority present, which alone changes
  its state, and the processor then uses the page table and the kernel stack of that
  process.\<close>

theorem scheduler_serves_best:
  fixes s :: "'a ptable_scheme"
  assumes "ptable_ok s"
  shows "\<exists>s'. scheduler c s = Ok s' \<and>
     (s' = s \<and> (\<forall>q<NPROC. p_state (procs s q) \<noteq> RUNNABLE) \<or>
      (\<exists>p<NPROC. myproc c s' = Some p \<and> p_state (procs s p) = RUNNABLE \<and>
         (\<forall>q<NPROC. p_state (procs s q) = RUNNABLE \<longrightarrow> p_priority (procs s p) \<le> p_priority (procs s q)) \<and>
         (\<forall>q. p_state (procs s' q) = (if q = p then RUNNING else p_state (procs s q))) \<and>
         c_cr3 (cpus s' c) = V2P (p_pgdir (procs s p)) \<and>
         c_ts_esp0 (cpus s' c) = p_kstack (procs s p) + KSTACKSIZE))"
proof -
  from assms obtain a where r: "refines s a" and ok: "sched_ok a" and lv: "live_ok s"
    by (rule ptable_okE)
  note D = refinesD(2,3)[OF r, symmetric]
  note Q = sched_okD(2)[OF ok]
  have lvl: "a_prio a q = HI_PRIO \<or> a_prio a q = NORM_PRIO" if "q < NPROC" for q
  proof -
    have "unat (a_prio a q) < 2" using sched_okD(3)[OF ok that] by (simp add: NUM_PRIO_def word_less_nat_alt)
    then have "unat (a_prio a q) = unat HI_PRIO \<or> unat (a_prio a q) = unat NORM_PRIO"
      unfolding HI_PRIO_def NORM_PRIO_def by (simp add: less_2_cases_iff)
    then show ?thesis by (simp only: word_unat_eq_iff)
  qed
  show ?thesis
  proof (cases "a_next a")
    case None
    then have "a_queue a HI_PRIO = []" "a_queue a NORM_PRIO = []"
      by (auto simp: a_next_def split: list.splits)
    then have "\<forall>q<NPROC. a_state a q \<noteq> RUNNABLE"
      using Q[of _ HI_PRIO] Q[of _ NORM_PRIO] lvl by auto
    then show ?thesis using None scheduler_pick_eq[OF r] by (simp add: scheduler_def D)
  next
    case (Some p)
    from scheduler_refines[OF r ok lv Some, of c] obtain s' where
      s': "scheduler c s = Ok s'" "refines s' (a_dispatch c p a)" by blast
    from a_next_queued[OF Some] have p: "p < NPROC" "a_state a p = RUNNABLE" using Q by auto
    have best: "a_prio a p \<le> a_prio a q" if "q < NPROC" "a_state a q = RUNNABLE" for q
    proof (cases "a_prio a q = HI_PRIO")
      case True
      then have "q \<in> set (a_queue a HI_PRIO)" using Q that by auto
      then have "p \<in> set (a_queue a HI_PRIO)" using Some by (auto simp: a_next_def split: list.splits)
      then show ?thesis using Q True by auto
    next
      case False
      then show ?thesis using lvl[OF that(1)] lvl[OF p(1)] by (auto simp: HI_PRIO_def NORM_PRIO_def)
    qed
    have "myproc c s' = Some p" using refinesD(5)[OF s'(2), of c] by (simp add: a_dispatch_def myproc_def)
    moreover have "p_state (procs s' q) = (if q = p then RUNNING else a_state a q)" for q
      using refinesD(2)[OF s'(2), of q] by (simp add: a_dispatch_def)
    moreover note scheduler_space[OF s'(1) scheduler_pick_eq[OF r, unfolded Some]]
    ultimately show ?thesis using s'(1) p best by (auto simp: D)
  qed
qed

theorem scheduler_serves_best_witness:
  "\<exists>s'. scheduler 1 demo = Ok s' \<and> (\<exists>p<NPROC. myproc 1 s' = Some p \<and> p_state (procs s' p) = RUNNING)"
proof -
  have "p_state (procs demo 1) = RUNNABLE" "(1::nat) < NPROC" by (simp_all add: demo_slots NPROC_def)
  then show ?thesis using scheduler_serves_best[OF demo_ok, of 1] by auto
qed

text \<open>C2: The processes of the served priority run round robin: a processor that dispatches
  and preempts as many times as there are processes in the served queue runs each of them
  exactly once, in queue order, and leaves the queues as they were. In particular no runnable
  process of that priority starves.\<close>

theorem round_robin:
  fixes s :: "'a ptable_scheme"
  assumes "queues s qs" and "sched_ok (absr s qs)" and "live_ok s" and "myproc c s = None"
    and "pr = HI_PRIO \<or> pr = NORM_PRIO \<and> qs HI_PRIO = []"
  shows "\<exists>s'. rounds c (length (qs pr)) s = Ok (map Some (qs pr), s') \<and> queues s' qs \<and>
           absr s' qs = absr s qs"
proof -
  let ?a = "absr s qs"
  have q: "a_queue ?a = qs" by (simp add: absr_def)
  from rounds_ok[OF refinesI[OF assms(1) refl] assms(2,3), of c pr "qs pr" "[]"] assms(4,5)
  obtain s' where s': "rounds c (length (qs pr)) s = Ok (map Some (qs pr), s')"
    "refines s' (?a\<lparr>a_queue := (a_queue ?a)(pr := qs pr)\<rparr>)"
    by (auto simp: served_def absr_def myproc_def)
  have "(?a\<lparr>a_queue := (a_queue ?a)(pr := qs pr)\<rparr>) = ?a"
    unfolding q fun_upd_triv by (simp add: absr_def)
  with s'(2) have "refines s' ?a" by simp
  then show ?thesis using s'(1) by (auto simp: refines_def q)
qed

theorem round_robin_witness:
  "\<exists>s'. rounds 1 2 demo = Ok ([Some 1, Some 2], s') \<and> queues s' demo_queue"
proof -
  have q: "demo_queue NORM_PRIO = [1, 2]" "demo_queue HI_PRIO = []" "length [1 :: nat, 2] = 2"
    by (simp_all add: demo_queue_def HI_PRIO_def NORM_PRIO_def)
  have "myproc 1 demo = None" by (simp add: myproc_def demo_slots)
  from round_robin[OF demo_queues demo_sched_ok demo_live_ok this, of NORM_PRIO]
  show ?thesis unfolding q list.map by blast
qed

text \<open>C5: \<open>wakeup\<close> makes runnable exactly the processes that sleep on its channel and appends
  them, in table order, to the queues of their priorities; every other process keeps its
  state and every queue its order. No wakeup is lost and none is spurious.\<close>

theorem wakeup_exact:
  fixes s :: "'a ptable_scheme"
  assumes "ptable_ok s"
  shows "\<exists>s' qs. wakeup ch s = Ok s' \<and> queues s qs \<and>
     queues s' (\<lambda>pr. qs pr @ filter (\<lambda>p. p_state (procs s p) = SLEEPING \<and> p_chan (procs s p) = Some ch \<and>
                                          p_priority (procs s p) = pr) [0..<NPROC]) \<and>
     (\<forall>p. p_state (procs s' p) =
        (if p < NPROC \<and> p_state (procs s p) = SLEEPING \<and> p_chan (procs s p) = Some ch
         then RUNNABLE else p_state (procs s p)))"
proof -
  from assms obtain a where r: "refines s a" and ok: "sched_ok a" by (rule ptable_okE)
  from wakeup1_refines[OF r ok, of "Some ch"] obtain s' where
    s': "wakeup ch s = Ok s'" "refines s' (a_wakeup (Some ch) a)" by (auto simp: wakeup_def)
  note D = refinesD(2,3,4)[OF r]
  note E = refinesD(1,2)[OF s'(2), unfolded a_wakeup_eq[OF ok], simplified, unfolded D]
  show ?thesis
    by (rule exI[of _ s'], rule exI[of _ "a_queue a"])
      (use s'(1) refinesD(1)[OF r] E(1) in \<open>simp add: E(2)[symmetric]\<close>)
qed

theorem wakeup_exact_witness:
  "\<exists>s'. wakeup ChanTicks demo = Ok s' \<and> p_state (procs s' 3) = RUNNABLE \<and> p_state (procs s' 0) = RUNNING"
  using wakeup_exact[OF demo_ok, of ChanTicks] by (auto simp: demo_slots NPROC_def)

text \<open>C10: A priority that \<open>setprio\<close> accepts is the one that \<open>getprio\<close> reports afterwards; a
  runnable process whose priority changed is the last one of its new queue, and the other
  processes keep their priority. A pid without a process or an unknown priority is refused
  with \<open>-1\<close> and changes nothing.\<close>

theorem setprio_getprio:
  fixes s :: "'a ptable_scheme"
  assumes "ptable_ok s"
  shows "(setprio pid prio s = Ok (-1, s) \<and>
            (prio \<noteq> HI_PRIO \<and> prio \<noteq> NORM_PRIO \<or>
             (\<forall>q<NPROC. p_pid (procs s q) = pid \<longrightarrow> p_state (procs s q) = UNUSED))) \<or>
         (\<exists>s' p qs. setprio pid prio s = Ok (0, s') \<and> p < NPROC \<and> p_pid (procs s p) = pid \<and>
            getprio pid s' = prio \<and> queues s' qs \<and>
            (p_state (procs s p) = RUNNABLE \<longrightarrow> p \<in> set (qs prio) \<and>
               (p_priority (procs s p) \<noteq> prio \<longrightarrow> List.last (qs prio) = p)) \<and>
            (\<forall>q. q \<noteq> p \<longrightarrow> p_priority (procs s' q) = p_priority (procs s q)))"
proof -
  from assms obtain a where r: "refines s a" and ok: "sched_ok a" by (rule ptable_okE)
  let ?P = "\<lambda>s p. p_pid (procs s p) = pid \<and> p_state (procs s p) \<noteq> UNUSED"
  show ?thesis
  proof (cases "(prio = HI_PRIO \<or> prio = NORM_PRIO) \<and> find_first (?P s) NPROC \<noteq> None")
    case False
    then have "setprio pid prio s = Ok (-1, s)" by (auto simp: setprio_def)
    then show ?thesis using False by (auto simp: find_first_None)
  next
    case True
    then obtain p where f: "find_first (?P s) NPROC = Some p" and pr: "prio = HI_PRIO \<or> prio = NORM_PRIO"
      by blast
    from setprio_refines[OF r ok pr f] obtain s' where
      s': "setprio pid prio s = Ok (0, s')" "refines s' (a_setprio p prio a)"
      "sched_ok (a_setprio p prio a)"
      "static s' = (static s)(p := (static s p)\<lparr>p_priority := prio\<rparr>)" by blast
    have st: "p_state (procs s' q) = p_state (procs s q)" for q
      using refinesD(2)[OF s'(2), of q] refinesD(2)[OF r, of q] by (simp add: a_setprio_def split: if_splits)
    have sp: "p_pid (static s' q) = p_pid (static s q)"
      "p_priority (static s' q) = (if q = p then prio else p_priority (static s q))" for q
      unfolding s'(4) by simp_all
    then have id: "p_pid (procs s' q) = p_pid (procs s q)"
      and prs: "p_priority (procs s' q) = (if q = p then prio else p_priority (procs s q))" for q
      by (simp_all add: static_def)
    have "getprio pid s' = prio" using f by (simp add: getprio_def id st prs)
    moreover have p: "p < NPROC" "p_pid (procs s p) = pid" using f by (auto simp: find_first_Some)
    moreover have "p \<in> set (a_queue (a_setprio p prio a) prio) \<and>
        (p_priority (procs s p) \<noteq> prio \<longrightarrow> List.last (a_queue (a_setprio p prio a) prio) = p)"
      if "p_state (procs s p) = RUNNABLE"
      using that p(1) sched_okD(2)[OF ok, of p prio] refinesD(2,3)[OF r, of p] by (auto simp: a_setprio_def)
    ultimately show ?thesis using s'(1) refinesD(1)[OF s'(2)] prs by auto
  qed
qed

theorem setprio_getprio_witness:
  "\<exists>s'. setprio 2 HI_PRIO demo = Ok (0, s') \<and> getprio 2 s' = HI_PRIO"
proof -
  have "p_pid (procs demo 1) = 2" "p_state (procs demo 1) \<noteq> UNUSED" "(1::nat) < NPROC"
    by (simp_all add: demo_slots NPROC_def)
  then show ?thesis using setprio_getprio[OF demo_ok, of 2 HI_PRIO] by blast
qed

text \<open>C4: A process that calls \<open>exit\<close> becomes a zombie that keeps its pid and holds the exit
  status, its processor is free, its parent no longer sleeps in \<open>wait\<close>, all its user memory
  is unmapped and exactly those frames are back on the free list.\<close>

theorem exit_releases_memory:
  fixes s :: "'a ptable_scheme"
  assumes "ptable_ok s" and "myproc c s = Some p" and "uvm s (p_pgdir (procs s p)) xs"
  shows "\<exists>s' fs. exit_locked c status s = Ok s' \<and> ptable_ok s' \<and>
     p_state (procs s' p) = ZOMBIE \<and> p_status (procs s' p) = status \<and>
     p_pid (procs s' p) = p_pid (procs s p) \<and> myproc c s' = None \<and>
     (\<forall>q. p_parent (procs s p) = Some q \<longrightarrow> q < NPROC \<longrightarrow> p_state (procs s q) = SLEEPING \<longrightarrow>
        p_chan (procs s q) = Some (ChanProc q) \<longrightarrow> p_state (procs s' q) = RUNNABLE) \<and>
     free_pages s' (fs @ xs) \<and> set fs = mapped_pages (mem s) (p_pgdir (procs s p)) 0 KERNBASE \<and>
     unmapped (mem s') (p_pgdir (procs s p)) 0 KERNBASE"
proof -
  from assms(1) obtain a where r: "refines s a" and ok: "sched_ok a" by (rule ptable_okE)
  have cp: "a_cpu a c = Some p" using assms(2) refinesD(5)[OF r, of c] by (simp add: myproc_def)
  from exit_locked_refines[OF r ok cp assms(3), of status] obtain s' fs where
    s': "exit_locked c status s = Ok s'"
    and z: "p_state (procs s' p) = ZOMBIE" "p_status (procs s' p) = status" "myproc c s' = None"
      "\<forall>q. p_parent (procs s p) = Some q \<longrightarrow> q < NPROC \<longrightarrow> p_state (procs s q) = SLEEPING \<longrightarrow>
              p_chan (procs s q) = Some (ChanProc q) \<longrightarrow> p_state (procs s' q) = RUNNABLE"
      "set fs = mapped_pages (mem s) (p_pgdir (procs s p)) 0 KERNBASE"
      "unmapped (mem s') (p_pgdir (procs s p)) 0 KERNBASE"
    and i: "ids_of s' = ids_of s" and u: "uvm s' (p_pgdir (procs s p)) (fs @ xs)" by blast
  have pid: "p_pid (procs s' p) = p_pid (procs s p)" using fun_cong[OF i, of p] by (simp add: ids_of_def)
  from step_exit[OF assms s'] have "ptable_ok s'" by blast
  then show ?thesis using s' z pid uvm_parts(3)[OF u] by blast
qed

theorem exit_releases_memory_witness:
  "\<exists>s'. exit_locked 0 7 demo = Ok s' \<and> p_state (procs s' 0) = ZOMBIE \<and> p_status (procs s' 0) = 7"
proof -
  have pg: "p_pgdir (procs demo 0) = 0x80603000" by (simp add: demo_defs)
  have "uvm demo 0x80603000 []"
    by (rule uvm_empty(1))
      (simp_all add: demo_defs free_pages_def valid_page_def page_aligned_def V2P_def KERNBASE_def PHYSTOP_def)
  then have u: "uvm demo (p_pgdir (procs demo 0)) []" unfolding pg .
  have "myproc 0 demo = Some 0" by (simp add: myproc_def demo_slots)
  from exit_releases_memory[OF demo_ok this u, of 7] show ?thesis by blast
qed

text \<open>C9: As long as the 32-bit pid counter has not wrapped around, pids are unique: in every
  state reached from boot, no two live processes have the same pid, and no live process has
  pid 0.\<close>

theorem pids_unique:
  fixes s0 s :: "'a ptable_scheme"
  assumes "boot s0" and "(\<lambda>s s'. pstep s s' \<and> unat (nextpid s) + 1 < 2 ^ 32)\<^sup>*\<^sup>* s0 s"
    and "p < NPROC" "q < NPROC" "p_state (procs s p) \<noteq> UNUSED" "p_state (procs s q) \<noteq> UNUSED"
  shows "p_pid (procs s p) \<noteq> 0 \<and> (p_pid (procs s p) = p_pid (procs s q) \<longrightarrow> p = q)"
proof -
  have b: "ptable_ok s0 \<and> pids_ok s0 \<and> 0 < unat (nextpid s0)"
    using assms(1) boot_ok[OF assms(1)] by (simp add: boot_def pids_ok_def)
  have "ptable_ok s \<and> pids_ok s \<and> 0 < unat (nextpid s)"
    using assms(2)
  proof (induction rule: rtranclp_induct)
    case base
    show ?case by (rule b)
  next
    case (step y z)
    then show ?case using pstep_ok[of y z] pstep_pids[of y z] by blast
  qed
  then have "pids_ok s" by blast
  then show ?thesis using assms(3-6) unfolding pids_ok_def by auto
qed

theorem pids_unique_witness:
  "\<exists>p<NPROC. p_state (procs (snd (allocproc demo_boot)) p) = EMBRYO \<and>
             p_pid (procs (snd (allocproc demo_boot)) p) \<noteq> 0"
proof -
  let ?s = "snd (allocproc demo_boot)"
  have al: "allocproc demo_boot = (fst (allocproc demo_boot), ?s)" by simp
  have "pstep demo_boot ?s" by (rule pstep.alloc[OF al])
  then have "(\<lambda>s s'. pstep s s' \<and> unat (nextpid s) + 1 < 2 ^ 32)\<^sup>*\<^sup>* demo_boot ?s"
    by (intro r_into_rtranclp) (simp add: demo_boot_def)
  note P = pids_unique[OF demo_boot_boot this]
  have "\<not> (\<forall>p<NPROC. p_state (procs demo_boot p) \<noteq> UNUSED)" "freelist demo_boot \<noteq> 0"
    by (auto simp: demo_defs NPROC_def intro: exI[of _ 0])
  with allocproc_cases[OF al] obtain p where p: "p < NPROC" "p_state (procs ?s p) = EMBRYO" by blast
  then have "p_state (procs ?s p) \<noteq> UNUSED" by simp
  from P[OF p(1) p(1) this this] p show ?thesis by blast
qed

text \<open>C11: \<open>kill\<close> marks the first slot with the pid, makes the process runnable if it sleeps so
  that it notices, and changes nothing else; it returns \<open>-1\<close> exactly when no slot has the
  pid.\<close>

theorem kill_effect:
  fixes s :: "'a ptable_scheme"
  assumes "ptable_ok s"
  shows "(kill pid s = Ok (-1, s) \<and> (\<forall>q<NPROC. p_pid (procs s q) \<noteq> pid)) \<or>
         (\<exists>p<NPROC. \<exists>s'. kill pid s = Ok (0, s') \<and> p_pid (procs s p) = pid \<and>
            (\<forall>q. p_killed (procs s' q) = (q = p \<or> p_killed (procs s q))) \<and>
            (\<forall>q. p_state (procs s' q) =
               (if q = p \<and> p_state (procs s p) = SLEEPING then RUNNABLE else p_state (procs s q))))"
proof -
  from assms obtain a where r: "refines s a" and ok: "sched_ok a" by (rule ptable_okE)
  show ?thesis
  proof (cases "find_first (\<lambda>p. p_pid (procs s p) = pid) NPROC")
    case None
    then show ?thesis using kill_refines(1)[OF r ok None] by (auto simp: find_first_None)
  next
    case (Some p)
    from kill_refines(2)[OF r ok Some] obtain s' where s': "kill pid s = Ok (0, s')"
      "refines s' (if a_state a p = SLEEPING then a_ready p a else a)"
      "static s' = (static s)(p := (static s p)\<lparr>p_killed := True\<rparr>)" by blast
    have "p_killed (static s' q) = (q = p \<or> p_killed (static s q))" for q unfolding s'(3) by simp
    then have "p_killed (procs s' q) = (q = p \<or> p_killed (procs s q))" for q by (simp add: static_def)
    moreover have "p_state (procs s' q) =
        (if q = p \<and> p_state (procs s p) = SLEEPING then RUNNABLE else p_state (procs s q))" for q
      using refinesD(2)[OF s'(2), of q] refinesD(2)[OF r, of q] refinesD(2)[OF r, of p]
      by (simp add: a_ready_def split: if_splits)
    ultimately show ?thesis using s'(1) Some by (auto simp: find_first_Some)
  qed
qed

theorem kill_effect_witness:
  "\<exists>s'. kill 4 demo = Ok (0, s') \<and> (\<exists>p<NPROC. p_killed (procs s' p))"
proof -
  have "p_pid (procs demo 3) = 4" "(3::nat) < NPROC" by (simp_all add: demo_slots NPROC_def)
  then show ?thesis using kill_effect[OF demo_ok, of 4] by blast
qed

end
