(* ===== verification/Sleeplock.thy ===== *)
theory Sleeplock
  imports Proc_Inv
begin

text \<open>
  Sleeping locks, \<^verbatim>\<open>src/xv6/sleeplock.c\<close>. A lock belongs to the object that contains it (a
  buffer or an inode), so the operations take the lock and return it updated; \<open>ch\<close> is its
  address as a wait channel, and \<open>c\<close> the processor. Waiting for a lock that is held is the
  result \<open>Sleeps\<close>.
\<close>

record sleeplock =
  sl_locked :: bool
  sl_pid :: u32

definition initsleeplock :: sleeplock where
  "initsleeplock = \<lparr>sl_locked = False, sl_pid = 0\<rparr>"

definition acquiresleep :: "nat \<Rightarrow> chan \<Rightarrow> sleeplock \<Rightarrow> 'a ptable_scheme \<Rightarrow> sleeplock res" where
  "acquiresleep c ch lk s =
     (if sl_locked lk then Sleeps ch
      else case myproc c s of
          None \<Rightarrow> Fault
        | Some p \<Rightarrow> Ok (lk\<lparr>sl_locked := True, sl_pid := p_pid (procs s p)\<rparr>))"

definition releasesleep :: "chan \<Rightarrow> sleeplock \<Rightarrow> 'a ptable_scheme \<Rightarrow> (sleeplock \<times> 'a ptable_scheme) res" where
  "releasesleep ch lk s =
     bindR (wakeup ch s) (\<lambda>s. Ok (lk\<lparr>sl_locked := False, sl_pid := 0\<rparr>, s))"

definition holdingsleep :: "nat \<Rightarrow> sleeplock \<Rightarrow> 'a ptable_scheme \<Rightarrow> bool res" where
  "holdingsleep c lk s =
     (if \<not> sl_locked lk then Ok False
      else case myproc c s of
          None \<Rightarrow> Fault
        | Some p \<Rightarrow> Ok (sl_pid lk = p_pid (procs s p)))"

section \<open>What waking leaves alone\<close>

text \<open>
  \<open>woken s s'\<close>: \<open>s'\<close> differs from \<open>s\<close> in the states and queue links of processes only, so the
  processes keep their identity and the rest of the kernel is untouched.
\<close>

definition woken :: "'a ptable_scheme \<Rightarrow> 'a ptable_scheme \<Rightarrow> bool" where
  "woken s s' \<longleftrightarrow> s' = s\<lparr>procs := procs s', queue := queue s'\<rparr> \<and> static s' = static s"

lemma woken_refl: "woken s s"
  by (simp add: woken_def)

lemma woken_trans: "woken s t \<Longrightarrow> woken t u \<Longrightarrow> woken s u"
proof -
  assume "woken s t" "woken t u"
  then have e: "t = s\<lparr>procs := procs t, queue := queue t\<rparr>" "u = t\<lparr>procs := procs u, queue := queue u\<rparr>"
    and st: "static u = static s" by (simp_all add: woken_def)
  have "u = s\<lparr>procs := procs u, queue := queue u\<rparr>"
    using e(2) by (subst e(1)[symmetric] e(2), subst e(1)) simp
  then show "woken s u" using st by (simp add: woken_def)
qed

lemma woken_link: "link_change s s' \<Longrightarrow> woken s s'"
  using static_link_change by (auto simp: woken_def link_change_def)

lemma make_runnable_woken: "make_runnable p s = Ok s' \<Longrightarrow> woken s s'"
proof -
  assume m: "make_runnable p s = Ok s'"
  let ?s = "upd_proc p (\<lambda>q. q\<lparr>p_state := RUNNABLE\<rparr>) s"
  have "link_change ?s s'" using m enqueue_links by (simp add: make_runnable_def)
  moreover have "woken s ?s"
    by (simp add: woken_def static_upd static_def) (simp add: upd_proc_def)
  ultimately show ?thesis using woken_trans[OF _ woken_link] by blast
qed

lemma wakeup1_woken: "wakeup1 ch s = Ok s' \<Longrightarrow> woken s s'"
proof -
  have "foldR (wakeup_one ch) ps s = Ok s' \<Longrightarrow> woken s s'" for ps
  proof (induction ps arbitrary: s)
    case (Cons p ps)
    then obtain t where t: "wakeup_one ch p s = Ok t" "foldR (wakeup_one ch) ps t = Ok s'"
      by (auto simp: res_iff)
    have "woken s t"
      using t(1) make_runnable_woken woken_refl by (auto simp: wakeup_one_def split: if_splits)
    then show ?case using Cons.IH[OF t(2)] woken_trans by blast
  qed (simp add: woken_refl)
  then show "wakeup1 ch s = Ok s' \<Longrightarrow> woken s s'" by (simp add: wakeup1_def)
qed

lemma wakeup_ok:
  assumes "ptable_ok s"
  shows "\<exists>s'. wakeup ch s = Ok s' \<and> ptable_ok s' \<and> woken s s'"
proof -
  from assms obtain a where "refines s a" "sched_ok a" by (rule ptable_okE)
  from wakeup1_refines[OF this, of "Some ch"] obtain s' where s': "wakeup1 (Some ch) s = Ok s'" by blast
  from step_wakeup[OF assms s'] wakeup1_woken[OF s'] s' show ?thesis by (auto simp: wakeup_def)
qed

lemma woken_myproc:
  assumes "woken s s'"
  shows "myproc c s' = myproc c s" and "p_pid (procs s' p) = p_pid (procs s p)"
    and "p_killed (procs s' p) = p_killed (procs s p)"
proof -
  have e: "s' = s\<lparr>procs := procs s', queue := queue s'\<rparr>" and st: "static s' = static s"
    using assms by (simp_all add: woken_def)
  have "cpus s' = cpus s" by (subst e) simp
  then show "myproc c s' = myproc c s" by (simp add: myproc_def)
  show "p_pid (procs s' p) = p_pid (procs s p)" "p_killed (procs s' p) = p_killed (procs s p)"
    using static_fields(3,5)[OF st] by simp_all
qed

end
