(* ===== verification/Bytes.thy ===== *)
theory Bytes
  imports Xv6_Prelude
begin

text \<open>
  The contents of disk blocks and buffers: functions from byte offsets to bytes, and the
  little-endian 16-bit and 32-bit fields that C structures laid over them read and write.
\<close>

type_synonym block = "nat \<Rightarrow> u8"

definition BSIZE :: nat where "BSIZE = 512"

definition get16 :: "block \<Rightarrow> nat \<Rightarrow> u16" where
  "get16 b i = ucast (b i) OR push_bit 8 (ucast (b (i + 1)))"

definition get32 :: "block \<Rightarrow> nat \<Rightarrow> u32" where
  "get32 b i = ucast (b i) OR push_bit 8 (ucast (b (i + 1)))
                 OR push_bit 16 (ucast (b (i + 2))) OR push_bit 24 (ucast (b (i + 3)))"

definition put16 :: "nat \<Rightarrow> u16 \<Rightarrow> block \<Rightarrow> block" where
  "put16 i w b = b(i := ucast w, i + 1 := ucast (drop_bit 8 w))"

definition put32 :: "nat \<Rightarrow> u32 \<Rightarrow> block \<Rightarrow> block" where
  "put32 i w b = b(i := ucast w, i + 1 := ucast (drop_bit 8 w),
                   i + 2 := ucast (drop_bit 16 w), i + 3 := ucast (drop_bit 24 w))"

text \<open>\<^verbatim>\<open>memmove\<close> of \<open>n\<close> bytes between two blocks, and \<^verbatim>\<open>memset\<close> of \<open>n\<close> bytes.\<close>

definition blit :: "nat \<Rightarrow> block \<Rightarrow> nat \<Rightarrow> nat \<Rightarrow> block \<Rightarrow> block" where
  "blit di src si n dst = (\<lambda>k. if di \<le> k \<and> k < di + n then src (si + (k - di)) else dst k)"

definition fill :: "nat \<Rightarrow> nat \<Rightarrow> u8 \<Rightarrow> block \<Rightarrow> block" where
  "fill i n v b = (\<lambda>k. if i \<le> k \<and> k < i + n then v else b k)"

definition bytes_of :: "block \<Rightarrow> nat \<Rightarrow> nat \<Rightarrow> u8 list" where
  "bytes_of b i n = map b [i..<i + n]"

definition of_bytes :: "u8 list \<Rightarrow> block" where
  "of_bytes xs = (\<lambda>k. if k < length xs then xs ! k else 0)"

section \<open>Reading back what was written\<close>

lemma word16_parts:
  fixes w :: u16
  shows "ucast (ucast w :: u8) OR push_bit 8 (ucast (ucast (drop_bit 8 w) :: u8)) = w"
proof (rule bit_word_eqI)
  fix n assume n: "n < LENGTH(16)"
  consider "n < 8" | "8 \<le> n" by linarith
  then show "bit (ucast (ucast w :: u8) OR push_bit 8 (ucast (ucast (drop_bit 8 w) :: u8)) :: u16) n = bit w n"
    using n by cases (auto simp: bit_simps)
qed

lemma word32_parts:
  fixes w :: u32
  shows "ucast (ucast w :: u8) OR push_bit 8 (ucast (ucast (drop_bit 8 w) :: u8))
           OR push_bit 16 (ucast (ucast (drop_bit 16 w) :: u8))
           OR push_bit 24 (ucast (ucast (drop_bit 24 w) :: u8)) = w"
proof (rule bit_word_eqI)
  fix n assume n: "n < LENGTH(32)"
  consider "n < 8" | "8 \<le> n" "n < 16" | "16 \<le> n" "n < 24" | "24 \<le> n" by linarith
  then show "bit (ucast (ucast w :: u8) OR push_bit 8 (ucast (ucast (drop_bit 8 w) :: u8))
           OR push_bit 16 (ucast (ucast (drop_bit 16 w) :: u8))
           OR push_bit 24 (ucast (ucast (drop_bit 24 w) :: u8)) :: u32) n = bit w n"
    using n by cases (auto simp: bit_simps)
qed

lemma get16_put16 [simp]: "get16 (put16 i w b) i = w"
  by (simp add: get16_def put16_def word16_parts)

lemma get32_put32 [simp]: "get32 (put32 i w b) i = w"
  by (simp add: get32_def put32_def word32_parts)

lemma put_other:
  "k < i \<or> i + 2 \<le> k \<Longrightarrow> put16 i v b k = b k" "k < i \<or> i + 4 \<le> k \<Longrightarrow> put32 i w b k = b k"
  by (auto simp: put16_def put32_def)

lemma get_put_other:
  "j + 2 \<le> i \<or> i + 2 \<le> j \<Longrightarrow> get16 (put16 i v b) j = get16 b j"
  "j + 2 \<le> i \<or> i + 4 \<le> j \<Longrightarrow> get16 (put32 i w b) j = get16 b j"
  "j + 4 \<le> i \<or> i + 2 \<le> j \<Longrightarrow> get32 (put16 i v b) j = get32 b j"
  "j + 4 \<le> i \<or> i + 4 \<le> j \<Longrightarrow> get32 (put32 i w b) j = get32 b j"
  by (auto simp: get16_def get32_def put_other)

lemma get_cong:
  "(\<And>k. i \<le> k \<Longrightarrow> k < i + 2 \<Longrightarrow> b' k = b k) \<Longrightarrow> get16 b' i = get16 b i"
  "(\<And>k. i \<le> k \<Longrightarrow> k < i + 4 \<Longrightarrow> b' k = b k) \<Longrightarrow> get32 b' i = get32 b i"
  by (simp_all add: get16_def get32_def)

lemma get_fill_zero:
  "i \<le> j \<Longrightarrow> j + 2 \<le> i + n \<Longrightarrow> get16 (fill i n 0 b) j = 0"
  "i \<le> j \<Longrightarrow> j + 4 \<le> i + n \<Longrightarrow> get32 (fill i n 0 b) j = 0"
  by (simp_all add: get16_def get32_def fill_def)

lemma length_bytes_of [simp]: "length (bytes_of b i n) = n"
  by (simp add: bytes_of_def)

lemma nth_bytes_of [simp]: "k < n \<Longrightarrow> bytes_of b i n ! k = b (i + k)"
  by (simp add: bytes_of_def)

lemma of_bytes_of: "k < n \<Longrightarrow> of_bytes (bytes_of b i n) k = b (i + k)"
  by (simp add: of_bytes_def)

lemma bytes_of_of_bytes: "bytes_of (of_bytes xs) 0 (length xs) = xs"
  by (rule nth_equalityI) (simp_all add: of_bytes_def)

lemma bytes_of_append: "bytes_of b i (m + n) = bytes_of b i m @ bytes_of b (i + m) n"
  by (rule nth_equalityI) (auto simp: nth_append)

lemma bytes_of_blit: "bytes_of (blit di src si n dst) di n = bytes_of src si n"
  by (rule nth_equalityI) (auto simp: blit_def)

lemma bytes_of_cong: "(\<And>k. i \<le> k \<Longrightarrow> k < i + n \<Longrightarrow> b' k = b k) \<Longrightarrow> bytes_of b' i n = bytes_of b i n"
  by (simp add: bytes_of_def)

end
