(* ===== verification/Bio_Defs.thy ===== *)
theory Bio_Defs
  imports Sleeplock Bytes
begin

text \<open>
  The buffer cache, \<^verbatim>\<open>src/xv6/bio.c\<close>, over the disk of \<^verbatim>\<open>src/xv6/memide.c\<close>, which transfers
  blocks synchronously. A buffer is its index in \<^verbatim>\<open>bcache.buf\<close>; the sentinel \<^verbatim>\<open>bcache.head\<close> is
  the index \<open>bhead\<close> after the last one. The loops over the list of buffers take a number of
  iterations that the length of the list cannot exceed. Each operation runs on processor
  \<open>c\<close>, whose process owns the sleep locks it takes.
\<close>

definition B_VALID :: u32 where "B_VALID = 2"
definition B_DIRTY :: u32 where "B_DIRTY = 4"

record buf =
  b_flags :: u32
  b_dev :: u32
  b_blockno :: u32
  b_lock :: sleeplock
  b_refcnt :: u32
  b_prev :: "nat option"
  b_next :: "nat option"
  b_qnext :: "nat option"
  b_data :: block

text \<open>
  \<open>dwrites\<close> is a history variable: the writes that reached the disk, in order. No operation
  reads it; the crash points of \<open>Log_Crash\<close> are its prefixes.
\<close>

record bcache = ptable +
  bufs :: "nat \<Rightarrow> buf"
  disk :: "u32 \<Rightarrow> block"
  disksize :: u32
  dwrites :: "(u32 \<times> block) list"

definition bhead :: nat where "bhead = NBUF"

definition upd_buf :: "nat \<Rightarrow> (buf \<Rightarrow> buf) \<Rightarrow> 'a bcache_scheme \<Rightarrow> 'a bcache_scheme" where
  "upd_buf b f s = s\<lparr>bufs := (bufs s)(b := f (bufs s b))\<rparr>"

section \<open>Initialisation\<close>

definition bcache_insert :: "nat \<Rightarrow> 'a bcache_scheme \<Rightarrow> 'a bcache_scheme res" where
  "bcache_insert b s =
     (case b_next (bufs s bhead) of
        None \<Rightarrow> Fault
      | Some n \<Rightarrow>
          let s = upd_buf b (\<lambda>x. x\<lparr>b_next := Some n, b_prev := Some bhead\<rparr>) s;
              s = upd_buf n (\<lambda>x. x\<lparr>b_prev := Some b\<rparr>) s
          in Ok (upd_buf bhead (\<lambda>x. x\<lparr>b_next := Some b\<rparr>) s))"

definition binit :: "'a bcache_scheme \<Rightarrow> 'a bcache_scheme res" where
  "binit s =
     foldR (\<lambda>b s. bcache_insert b (upd_buf b (\<lambda>x. x\<lparr>b_lock := initsleeplock\<rparr>) s)) [0..<NBUF]
       (upd_buf bhead (\<lambda>x. x\<lparr>b_prev := Some bhead, b_next := Some bhead\<rparr>) s)"

section \<open>The disk\<close>

definition iderw :: "nat \<Rightarrow> nat \<Rightarrow> 'a bcache_scheme \<Rightarrow> 'a bcache_scheme res" where
  "iderw c b s =
     bindR (holdingsleep c (b_lock (bufs s b)) s) (\<lambda>h.
       let x = bufs s b
       in if \<not> h then Panic ''iderw: buf not locked''
          else if b_flags x AND (B_VALID OR B_DIRTY) = B_VALID then Panic ''iderw: nothing to do''
          else if b_dev x \<noteq> 1 then Panic ''iderw: request not for disk 1''
          else if b_blockno x \<ge> disksize s then Panic ''iderw: block out of range''
          else if b_flags x AND B_DIRTY \<noteq> 0
          then Ok ((upd_buf b (\<lambda>x. x\<lparr>b_flags := b_flags x AND NOT B_DIRTY OR B_VALID\<rparr>) s)
                     \<lparr>disk := (disk s)(b_blockno x := b_data x),
                      dwrites := dwrites s @ [(b_blockno x, b_data x)]\<rparr>)
          else Ok (upd_buf b (\<lambda>x. x\<lparr>b_data := disk s (b_blockno x),
                                     b_flags := b_flags x OR B_VALID\<rparr>) s))"

section \<open>Buffers\<close>

fun bscan :: "nat \<Rightarrow> (buf \<Rightarrow> nat option) \<Rightarrow> (buf \<Rightarrow> bool) \<Rightarrow> nat option \<Rightarrow> (nat \<Rightarrow> buf) \<Rightarrow> nat option res" where
  "bscan 0 link P b bs = Exhausted"
| "bscan (Suc k) link P b bs =
     (case b of
        None \<Rightarrow> Fault
      | Some b \<Rightarrow>
          if b = bhead then Ok None
          else if P (bs b) then Ok (Some b)
          else bscan k link P (link (bs b)) bs)"

definition lock_buf :: "nat \<Rightarrow> nat \<Rightarrow> 'a bcache_scheme \<Rightarrow> (nat \<times> 'a bcache_scheme) res" where
  "lock_buf c b s =
     bindR (acquiresleep c (ChanBufLock b) (b_lock (bufs s b)) s) (\<lambda>lk.
       Ok (b, upd_buf b (\<lambda>x. x\<lparr>b_lock := lk\<rparr>) s))"

definition bget :: "nat \<Rightarrow> u32 \<Rightarrow> u32 \<Rightarrow> 'a bcache_scheme \<Rightarrow> (nat \<times> 'a bcache_scheme) res" where
  "bget c dev blockno s =
     bindR (bscan (NBUF + 1) b_next (\<lambda>x. b_dev x = dev \<and> b_blockno x = blockno)
              (b_next (bufs s bhead)) (bufs s)) (\<lambda>r.
       case r of
         Some b \<Rightarrow> lock_buf c b (upd_buf b (\<lambda>x. x\<lparr>b_refcnt := b_refcnt x + 1\<rparr>) s)
       | None \<Rightarrow>
           bindR (bscan (NBUF + 1) b_prev (\<lambda>x. b_refcnt x = 0 \<and> b_flags x AND B_DIRTY = 0)
                    (b_prev (bufs s bhead)) (bufs s)) (\<lambda>r.
             case r of
               Some b \<Rightarrow>
                 lock_buf c b (upd_buf b (\<lambda>x. x\<lparr>b_dev := dev, b_blockno := blockno, b_flags := 0,
                                              b_refcnt := 1\<rparr>) s)
             | None \<Rightarrow> Panic ''bget: no buffers''))"

definition bread :: "nat \<Rightarrow> u32 \<Rightarrow> u32 \<Rightarrow> 'a bcache_scheme \<Rightarrow> (nat \<times> 'a bcache_scheme) res" where
  "bread c dev blockno s =
     bindR (bget c dev blockno s) (\<lambda>(b, s).
       if b_flags (bufs s b) AND B_VALID = 0
       then bindR (iderw c b s) (\<lambda>s. Ok (b, s))
       else Ok (b, s))"

definition bwrite :: "nat \<Rightarrow> nat \<Rightarrow> 'a bcache_scheme \<Rightarrow> 'a bcache_scheme res" where
  "bwrite c b s =
     bindR (holdingsleep c (b_lock (bufs s b)) s) (\<lambda>h.
       if \<not> h then Panic ''bwrite''
       else iderw c b (upd_buf b (\<lambda>x. x\<lparr>b_flags := b_flags x OR B_DIRTY\<rparr>) s))"

definition bcache_unlink :: "nat \<Rightarrow> 'a bcache_scheme \<Rightarrow> 'a bcache_scheme res" where
  "bcache_unlink b s =
     (case (b_next (bufs s b), b_prev (bufs s b)) of
        (Some n, Some p) \<Rightarrow>
          let s = upd_buf n (\<lambda>x. x\<lparr>b_prev := Some p\<rparr>) s
          in Ok (upd_buf p (\<lambda>x. x\<lparr>b_next := Some n\<rparr>) s)
      | _ \<Rightarrow> Fault)"

definition brelse :: "nat \<Rightarrow> nat \<Rightarrow> 'a bcache_scheme \<Rightarrow> 'a bcache_scheme res" where
  "brelse c b s =
     bindR (holdingsleep c (b_lock (bufs s b)) s) (\<lambda>h.
       if \<not> h then Panic ''brelse''
       else bindR (releasesleep (ChanBufLock b) (b_lock (bufs s b)) s) (\<lambda>(lk, s).
         let s = upd_buf b (\<lambda>x. x\<lparr>b_lock := lk, b_refcnt := b_refcnt x - 1\<rparr>) s
         in if b_refcnt (bufs s b) = 0
            then bindR (bcache_unlink b s) (bcache_insert b)
            else Ok s))"

end
