(* ===== verification/Log_Defs.thy ===== *)
theory Log_Defs
  imports Bio_Defs
begin

text \<open>
  The write-ahead log, \<^verbatim>\<open>src/xv6/log.c\<close>, and the super block that locates it (\<^verbatim>\<open>fs.h\<close>,
  \<^verbatim>\<open>readsb\<close> of \<^verbatim>\<open>fs.c\<close>). The log header is a record in memory and the first words of the
  block \<open>l_start\<close> on disk; C \<^verbatim>\<open>int\<close> fields are integers. An index past the array of logged
  blocks is a \<open>Fault\<close>. \<^verbatim>\<open>memmove\<close> of \<^verbatim>\<open>BSIZE\<close> bytes copies the whole array of a buffer.
\<close>

record superblock =
  sb_size :: u32
  sb_nblocks :: u32
  sb_ninodes :: u32
  sb_nlog :: u32
  sb_logstart :: u32
  sb_inodestart :: u32
  sb_bmapstart :: u32

definition decode_sb :: "block \<Rightarrow> superblock" where
  "decode_sb b =
     \<lparr>sb_size = get32 b 0, sb_nblocks = get32 b 4, sb_ninodes = get32 b 8, sb_nlog = get32 b 12,
      sb_logstart = get32 b 16, sb_inodestart = get32 b 20, sb_bmapstart = get32 b 24\<rparr>"

definition readsb :: "nat \<Rightarrow> u32 \<Rightarrow> 'a bcache_scheme \<Rightarrow> (superblock \<times> 'a bcache_scheme) res" where
  "readsb c dev s =
     bindR (bread c dev 1 s) (\<lambda>(bp, s).
     let sb = decode_sb (b_data (bufs s bp))
     in bindR (brelse c bp s) (\<lambda>s. Ok (sb, s)))"

record log = bcache +
  l_start :: u32
  l_size :: int
  l_outstanding :: int
  l_committing :: bool
  l_dev :: u32
  lh_n :: int
  lh_block :: "nat \<Rightarrow> u32"

section \<open>The header\<close>

definition hdr_n :: "block \<Rightarrow> int" where "hdr_n b = sint (get32 b 0)"
definition hdr_block :: "block \<Rightarrow> nat \<Rightarrow> u32" where "hdr_block b i = get32 b (4 + 4 * i)"

definition put_head :: "int \<Rightarrow> (nat \<Rightarrow> u32) \<Rightarrow> block \<Rightarrow> block" where
  "put_head n blk b = fold (\<lambda>i. put32 (4 + 4 * i) (blk i)) [0..<nat n] (put32 0 (of_int n) b)"

definition read_head :: "nat \<Rightarrow> 'a log_scheme \<Rightarrow> 'a log_scheme res" where
  "read_head c s =
     bindR (bread c (l_dev s) (l_start s) s) (\<lambda>(b, s).
     let lh = b_data (bufs s b); n = hdr_n lh
     in if n > int LOGSIZE then Fault
        else brelse c b (s\<lparr>lh_n := n,
                           lh_block := (\<lambda>i. if i < nat n then hdr_block lh i else lh_block s i)\<rparr>))"

definition write_head :: "nat \<Rightarrow> 'a log_scheme \<Rightarrow> 'a log_scheme res" where
  "write_head c s =
     bindR (bread c (l_dev s) (l_start s) s) (\<lambda>(b, s).
     bindR (bwrite c b (upd_buf b (\<lambda>x. x\<lparr>b_data := put_head (lh_n s) (lh_block s) (b_data x)\<rparr>) s)) (\<lambda>s.
     brelse c b s))"

section \<open>Committing\<close>

definition install_one :: "nat \<Rightarrow> nat \<Rightarrow> 'a log_scheme \<Rightarrow> 'a log_scheme res" where
  "install_one c tail s =
     bindR (bread c (l_dev s) (l_start s + of_nat tail + 1) s) (\<lambda>(lbuf, s).
     bindR (bread c (l_dev s) (lh_block s tail) s) (\<lambda>(dbuf, s).
     let s = upd_buf dbuf (\<lambda>x. x\<lparr>b_data := b_data (bufs s lbuf)\<rparr>) s
     in bindR (bwrite c dbuf s) (\<lambda>s.
        bindR (brelse c lbuf s) (brelse c dbuf))))"

definition install_trans :: "nat \<Rightarrow> 'a log_scheme \<Rightarrow> 'a log_scheme res" where
  "install_trans c s = foldR (install_one c) [0..<nat (lh_n s)] s"

definition write_log_one :: "nat \<Rightarrow> nat \<Rightarrow> 'a log_scheme \<Rightarrow> 'a log_scheme res" where
  "write_log_one c tail s =
     bindR (bread c (l_dev s) (l_start s + of_nat tail + 1) s) (\<lambda>(dst, s).
     bindR (bread c (l_dev s) (lh_block s tail) s) (\<lambda>(from, s).
     let s = upd_buf dst (\<lambda>x. x\<lparr>b_data := b_data (bufs s from)\<rparr>) s
     in bindR (bwrite c dst s) (\<lambda>s.
        bindR (brelse c from s) (brelse c dst))))"

definition write_log :: "nat \<Rightarrow> 'a log_scheme \<Rightarrow> 'a log_scheme res" where
  "write_log c s = foldR (write_log_one c) [0..<nat (lh_n s)] s"

definition commit :: "nat \<Rightarrow> 'a log_scheme \<Rightarrow> 'a log_scheme res" where
  "commit c s =
     (if lh_n s > 0 then
        bindR (write_log c s) (\<lambda>s.
        bindR (write_head c s) (\<lambda>s.
        bindR (install_trans c s) (\<lambda>s.
        write_head c (s\<lparr>lh_n := 0\<rparr>))))
      else Ok s)"

section \<open>Start and recovery\<close>

definition recover_from_log :: "nat \<Rightarrow> 'a log_scheme \<Rightarrow> 'a log_scheme res" where
  "recover_from_log c s =
     bindR (read_head c s) (\<lambda>s.
     bindR (install_trans c s) (\<lambda>s.
     write_head c (s\<lparr>lh_n := 0\<rparr>)))"

definition initlog :: "nat \<Rightarrow> u32 \<Rightarrow> 'a log_scheme \<Rightarrow> 'a log_scheme res" where
  "initlog c dev s =
     (if 4 + 4 * LOGSIZE \<ge> BSIZE then Panic ''initlog: too big logheader''
      else bindR (readsb c dev s) (\<lambda>(sb, s).
        recover_from_log c (s\<lparr>l_start := sb_logstart sb, l_size := sint (sb_nlog sb), l_dev := dev\<rparr>)))"

section \<open>Transactions\<close>

definition begin_op :: "'a log_scheme \<Rightarrow> 'a log_scheme res" where
  "begin_op s =
     (if l_committing s then Sleeps ChanLog
      else if lh_n s + (l_outstanding s + 1) * int MAXOPBLOCKS > int LOGSIZE then Sleeps ChanLog
      else Ok (s\<lparr>l_outstanding := l_outstanding s + 1\<rparr>))"

definition end_op :: "nat \<Rightarrow> 'a log_scheme \<Rightarrow> 'a log_scheme res" where
  "end_op c s =
     (let s = s\<lparr>l_outstanding := l_outstanding s - 1\<rparr>
      in if l_committing s then Panic ''log.committing''
         else if l_outstanding s = 0
         then bindR (commit c (s\<lparr>l_committing := True\<rparr>)) (\<lambda>s.
                wakeup ChanLog (s\<lparr>l_committing := False\<rparr>))
         else wakeup ChanLog s)"

definition log_write :: "nat \<Rightarrow> 'a log_scheme \<Rightarrow> 'a log_scheme res" where
  "log_write b s =
     (if lh_n s \<ge> int LOGSIZE \<or> lh_n s \<ge> l_size s - 1 then Panic ''too big a transaction''
      else if l_outstanding s < 1 then Panic ''log_write outside of trans''
      else let n = nat (lh_n s);
               i = (case find_first (\<lambda>i. lh_block s i = b_blockno (bufs s b)) n of
                      Some i \<Rightarrow> i | None \<Rightarrow> n);
               s = s\<lparr>lh_block := (lh_block s)(i := b_blockno (bufs s b))\<rparr>;
               s = (if i = n then s\<lparr>lh_n := lh_n s + 1\<rparr> else s)
           in Ok (upd_buf b (\<lambda>x. x\<lparr>b_flags := b_flags x OR B_DIRTY\<rparr>) s))"

end
