(* ===== verification/Kstring.thy ===== *)
theory Kstring
  imports Bytes
begin

text \<open>
  The memory and string functions of the kernel, \<^verbatim>\<open>src/xv6/string.c\<close>, on a byte-addressed
  memory, and those of the user library, \<^verbatim>\<open>src/xv6/user/ulib.c\<close>. The loops that copy or compare
  a given number of bytes recurse on that number; those that run up to a terminating zero
  byte are partial functions whose value is \<open>None\<close> when there is no zero byte.
\<close>

type_synonym bytemem = "nat \<Rightarrow> u8"

section \<open>Filling\<close>

text \<open>The string instructions: \<open>n\<close> bytes, or \<open>n\<close> words, stored at increasing addresses.\<close>

fun stosb :: "nat \<Rightarrow> u8 \<Rightarrow> nat \<Rightarrow> bytemem \<Rightarrow> bytemem" where
  "stosb a v 0 m = m"
| "stosb a v (Suc n) m = stosb (a + 1) v n (m(a := v))"

fun stosl :: "nat \<Rightarrow> u32 \<Rightarrow> nat \<Rightarrow> bytemem \<Rightarrow> bytemem" where
  "stosl a w 0 m = m"
| "stosl a w (Suc n) m = stosl (a + 4) w n (put32 a w m)"

definition memset :: "nat \<Rightarrow> u32 \<Rightarrow> nat \<Rightarrow> bytemem \<Rightarrow> bytemem" where
  "memset dst c n m =
     (if dst mod 4 = 0 \<and> n mod 4 = 0
      then let c = c AND 0xFF
           in stosl dst (push_bit 24 c OR push_bit 16 c OR push_bit 8 c OR c) (n div 4) m
      else stosb dst (ucast c) n m)"

lemma stosb_fill: "stosb a v n m = fill a n v m"
  by (induction n arbitrary: a m) (auto simp: fill_def fun_eq_iff)

lemma put32_same_bytes:
  fixes c :: u32
  defines "d \<equiv> c AND 0xFF"
  shows "put32 a (push_bit 24 d OR push_bit 16 d OR push_bit 8 d OR d) m = fill a 4 (ucast c) m"
proof -
  have m: "(0xFF :: u32) = mask 8" by (simp add: mask_eq_exp_minus_1)
  let ?w = "push_bit 24 d OR push_bit 16 d OR push_bit 8 d OR d"
  have "ucast ?w = (ucast c :: u8)" "ucast (drop_bit 8 ?w) = (ucast c :: u8)"
    "ucast (drop_bit 16 ?w) = (ucast c :: u8)" "ucast (drop_bit 24 ?w) = (ucast c :: u8)"
    unfolding d_def m by (rule bit_word_eqI, auto simp: bit_simps)+
  then show ?thesis by (auto simp: put32_def fill_def fun_eq_iff)
qed

lemma fill_fill: "fill (a + n) k v (fill a n v m) = fill a (n + k) v m"
  by (auto simp: fill_def fun_eq_iff)

lemma stosl_fill:
  fixes c :: u32
  defines "d \<equiv> c AND 0xFF"
  shows "stosl a (push_bit 24 d OR push_bit 16 d OR push_bit 8 d OR d) n m = fill a (4 * n) (ucast c) m"
proof (induction n arbitrary: a m)
  case 0
  then show ?case by (auto simp: fill_def fun_eq_iff)
next
  case (Suc n)
  have "put32 a (push_bit 24 d OR push_bit 16 d OR push_bit 8 d OR d) m = fill a 4 (ucast c) m"
    unfolding d_def by (rule put32_same_bytes)
  then show ?case using Suc[of "a + 4"] fill_fill[of a 4] by simp
qed

lemma memset_fill: "memset dst c n m = fill dst n (ucast c) m"
proof (cases "dst mod 4 = 0 \<and> n mod 4 = 0")
  case True
  then have "4 * (n div 4) = n" by auto
  then show ?thesis using True stosl_fill[of dst c "n div 4" m] by (simp add: memset_def Let_def)
qed (simp only: memset_def stosb_fill if_False)

section \<open>Copying\<close>

fun copy_up :: "nat \<Rightarrow> nat \<Rightarrow> nat \<Rightarrow> bytemem \<Rightarrow> bytemem" where
  "copy_up d s 0 m = m"
| "copy_up d s (Suc n) m = copy_up (d + 1) (s + 1) n (m(d := m s))"

text \<open>The backward loop; \<open>d\<close> and \<open>s\<close> are the addresses after the last byte.\<close>

fun copy_down :: "nat \<Rightarrow> nat \<Rightarrow> nat \<Rightarrow> bytemem \<Rightarrow> bytemem" where
  "copy_down d s 0 m = m"
| "copy_down d s (Suc n) m = copy_down (d - 1) (s - 1) n (m(d - 1 := m (s - 1)))"

definition memmove :: "nat \<Rightarrow> nat \<Rightarrow> nat \<Rightarrow> bytemem \<Rightarrow> bytemem" where
  "memmove dst src n m =
     (if src < dst \<and> src + n > dst then copy_down (dst + n) (src + n) n m else copy_up dst src n m)"

definition memcpy :: "nat \<Rightarrow> nat \<Rightarrow> nat \<Rightarrow> bytemem \<Rightarrow> bytemem" where
  "memcpy dst src n m = memmove dst src n m"

lemma copy_up_ok: "d \<le> s \<or> s + n \<le> d \<Longrightarrow> copy_up d s n m = blit d m s n m"
proof (induction n arbitrary: d s m)
  case 0
  then show ?case by (auto simp: blit_def fun_eq_iff)
next
  case (Suc n)
  have "copy_up (d + 1) (s + 1) n (m(d := m s)) = blit (d + 1) (m(d := m s)) (s + 1) n (m(d := m s))"
    by (rule Suc.IH) (use Suc.prems in auto)
  also have "\<dots> = blit d m s (Suc n) m"
  proof
    fix k
    show "blit (d + 1) (m(d := m s)) (s + 1) n (m(d := m s)) k = blit d m s (Suc n) m k"
    proof (cases "d + 1 \<le> k \<and> k < d + 1 + n")
      case True
      then have "s + 1 + (k - (d + 1)) = s + (k - d)" "s + (k - d) \<noteq> d" using Suc.prems by auto
      then show ?thesis using True by (simp add: blit_def)
    next
      case False
      then show ?thesis by (auto simp: blit_def)
    qed
  qed
  finally show ?case by simp
qed

lemma copy_down_ok: "s \<le> d \<Longrightarrow> copy_down (d + n) (s + n) n m = blit d m s n m"
proof (induction n arbitrary: m)
  case 0
  then show ?case by (auto simp: blit_def fun_eq_iff)
next
  case (Suc n)
  let ?m = "m(d + n := m (s + n))"
  have "copy_down (d + Suc n) (s + Suc n) (Suc n) m = copy_down (d + n) (s + n) n ?m" by simp
  also have "\<dots> = blit d ?m s n ?m" by (rule Suc.IH[OF Suc.prems])
  also have "\<dots> = blit d m s (Suc n) m"
  proof
    fix k
    show "blit d ?m s n ?m k = blit d m s (Suc n) m k"
    proof (cases "d \<le> k \<and> k < d + n")
      case True
      then have "s + (k - d) < d + n" using Suc.prems by linarith
      then show ?thesis using True by (simp add: blit_def)
    next
      case False
      then show ?thesis by (auto simp: blit_def)
    qed
  qed
  finally show ?case .
qed

lemma memmove_blit: "memmove dst src n m = blit dst m src n m"
  using copy_up_ok[of dst src n m] copy_down_ok[of src dst n m] by (auto simp: memmove_def not_less)

section \<open>Comparing\<close>

fun memcmp :: "nat \<Rightarrow> nat \<Rightarrow> nat \<Rightarrow> bytemem \<Rightarrow> int" where
  "memcmp a b 0 m = 0"
| "memcmp a b (Suc n) m = (if m a \<noteq> m b then uint (m a) - uint (m b) else memcmp (a + 1) (b + 1) n m)"

lemma memcmp_zero: "memcmp a b n m = 0 \<longleftrightarrow> (\<forall>k<n. m (a + k) = m (b + k))"
proof (induction n arbitrary: a b)
  case (Suc n)
  show ?case
  proof (cases "m a = m b")
    case True
    have "(\<forall>k<Suc n. m (a + k) = m (b + k)) \<longleftrightarrow> (\<forall>k<n. m (a + 1 + k) = m (b + 1 + k))"
      using True by (auto simp: less_Suc_eq_0_disj)
    then show ?thesis using Suc True by simp
  next
    case False
    then have "uint (m a) \<noteq> uint (m b)" by (simp only: word_uint_eq_iff not_False_eq_True)
    then show ?thesis using False by (auto intro!: exI[of _ 0])
  qed
qed simp

text \<open>\<^verbatim>\<open>strncmp\<close> on two strings, given as functions from positions to bytes.\<close>

fun strncmp :: "(nat \<Rightarrow> u8) \<Rightarrow> (nat \<Rightarrow> u8) \<Rightarrow> nat \<Rightarrow> int" where
  "strncmp p q 0 = 0"
| "strncmp p q (Suc n) =
     (if p 0 \<noteq> 0 \<and> p 0 = q 0 then strncmp (\<lambda>k. p (k + 1)) (\<lambda>k. q (k + 1)) n
      else uint (p 0) - uint (q 0))"

text \<open>The first \<open>n\<close> bytes of a string, up to its terminating zero byte.\<close>

fun cstr :: "(nat \<Rightarrow> u8) \<Rightarrow> nat \<Rightarrow> u8 list" where
  "cstr p 0 = []"
| "cstr p (Suc n) = (if p 0 = 0 then [] else p 0 # cstr (\<lambda>k. p (k + 1)) n)"

lemma strncmp_zero: "strncmp p q n = 0 \<longleftrightarrow> cstr p n = cstr q n"
  by (induction p q n rule: strncmp.induct) (auto simp: word_uint_eq_iff)

section \<open>Strings\<close>

text \<open>
  \<^verbatim>\<open>strncpy\<close>: the first loop copies up to and including the zero byte, the second one pads.
  The destination is a function from positions to bytes.
\<close>

fun strncpy_at :: "nat \<Rightarrow> (nat \<Rightarrow> u8) \<Rightarrow> (nat \<Rightarrow> u8) \<Rightarrow> nat \<Rightarrow> nat \<Rightarrow> (nat \<Rightarrow> u8)" where
  "strncpy_at i s t j 0 = s"
| "strncpy_at i s t j (Suc n) =
     (let s = s(i := t j)
      in if t j \<noteq> 0 then strncpy_at (i + 1) s t (j + 1) n else stosb (i + 1) 0 n s)"

definition strncpy :: "(nat \<Rightarrow> u8) \<Rightarrow> (nat \<Rightarrow> u8) \<Rightarrow> nat \<Rightarrow> (nat \<Rightarrow> u8)" where
  "strncpy s t n = strncpy_at 0 s t 0 n"

fun safestrcpy_at :: "nat \<Rightarrow> (nat \<Rightarrow> u8) \<Rightarrow> (nat \<Rightarrow> u8) \<Rightarrow> nat \<Rightarrow> (nat \<Rightarrow> u8)" where
  "safestrcpy_at i s t 0 = s(i := 0)"
| "safestrcpy_at i s t (Suc n) =
     (let s = s(i := t i) in if t i \<noteq> 0 then safestrcpy_at (i + 1) s t n else s(i + 1 := 0))"

definition safestrcpy :: "(nat \<Rightarrow> u8) \<Rightarrow> (nat \<Rightarrow> u8) \<Rightarrow> int \<Rightarrow> (nat \<Rightarrow> u8)" where
  "safestrcpy s t n = (if n \<le> 0 then s else safestrcpy_at 0 s t (nat (n - 1)))"

partial_function (option) strlen_from :: "(nat \<Rightarrow> u8) \<Rightarrow> nat \<Rightarrow> nat option" where
  "strlen_from s n = (if s n = 0 then Some n else strlen_from s (n + 1))"

definition strlen :: "(nat \<Rightarrow> u8) \<Rightarrow> nat option" where
  "strlen s = strlen_from s 0"

lemma strlen_from_stop:
  assumes "\<And>k. n \<le> k \<Longrightarrow> k < n + d \<Longrightarrow> s k \<noteq> 0" and "s (n + d) = 0"
  shows "strlen_from s n = Some (n + d)"
  using assms
proof (induction d arbitrary: n)
  case 0
  then show ?case by (subst strlen_from.simps) simp
next
  case (Suc d)
  have "s n \<noteq> 0" using Suc.prems(1)[of n] by simp
  moreover have "strlen_from s (n + 1) = Some (n + 1 + d)"
    by (rule Suc.IH) (use Suc.prems in auto)
  ultimately show ?case by (subst strlen_from.simps) simp
qed

lemma strlen_ok: "(\<And>k. k < n \<Longrightarrow> s k \<noteq> 0) \<Longrightarrow> s n = 0 \<Longrightarrow> strlen s = Some n"
  using strlen_from_stop[of 0 n s] by (simp add: strlen_def)

end
