(* ===== verification/Fs_Defs.thy ===== *)
theory Fs_Defs
  imports Log_Defs Kstring
begin

text \<open>
  The file system, \<^verbatim>\<open>src/xv6/fs.c\<close>: the block bitmap, inodes and their cache, file contents,
  directories and path names. An inode in memory is its index in \<^verbatim>\<open>icache.inode\<close>. Files are
  read into and written from byte lists; a path and a path element are the bytes of the C
  string before its terminator. The device switch \<^verbatim>\<open>devsw\<close> is the argument \<open>D\<close> of the
  operations that may reach a device. The operations describe executions in which no other
  process holds the locks they need; waiting for one is the result \<open>Sleeps\<close>.
\<close>

section \<open>Layout\<close>

definition ROOTINO :: u32 where "ROOTINO = 1"
definition NDIRECT :: nat where "NDIRECT = 12"
definition NINDIRECT :: nat where "NINDIRECT = BSIZE div 4"
definition MAXFILE :: nat where "MAXFILE = NDIRECT + NINDIRECT"
definition DINODE_SIZE :: nat where "DINODE_SIZE = 12 + 4 * (NDIRECT + 1)"
definition IPB :: nat where "IPB = BSIZE div DINODE_SIZE"
definition BPB :: nat where "BPB = BSIZE * 8"
definition DIRSIZ :: nat where "DIRSIZ = 14"
definition DIRENT_SIZE :: nat where "DIRENT_SIZE = 2 + DIRSIZ"

definition T_DIR :: u16 where "T_DIR = 1"
definition T_FILE :: u16 where "T_FILE = 2"
definition T_DEV :: u16 where "T_DEV = 3"

definition IBLOCK :: "u32 \<Rightarrow> superblock \<Rightarrow> u32" where
  "IBLOCK i sb = i div of_nat IPB + sb_inodestart sb"

definition BBLOCK :: "u32 \<Rightarrow> superblock \<Rightarrow> u32" where
  "BBLOCK b sb = b div of_nat BPB + sb_bmapstart sb"

record inode =
  i_dev :: u32
  i_inum :: u32
  i_ref :: int
  i_lock :: sleeplock
  i_valid :: bool
  i_type :: u16
  i_major :: u16
  i_minor :: u16
  i_nlink :: u16
  i_size :: u32
  i_addrs :: "nat \<Rightarrow> u32"

record icache = log +
  fs_sb :: superblock
  inodes :: "nat \<Rightarrow> inode"

record 's devsw =
  dv_read :: "(nat \<Rightarrow> nat \<Rightarrow> int \<Rightarrow> 's \<Rightarrow> (int \<times> u8 list \<times> 's) res) option"
  dv_write :: "(nat \<Rightarrow> nat \<Rightarrow> u8 list \<Rightarrow> 's \<Rightarrow> (int \<times> 's) res) option"

definition upd_ino :: "nat \<Rightarrow> (inode \<Rightarrow> inode) \<Rightarrow> 'a icache_scheme \<Rightarrow> 'a icache_scheme" where
  "upd_ino ip f s = s\<lparr>inodes := (inodes s)(ip := f (inodes s ip))\<rparr>"

abbreviation set_data :: "nat \<Rightarrow> (block \<Rightarrow> block) \<Rightarrow> 'a bcache_scheme \<Rightarrow> 'a bcache_scheme" where
  "set_data b f \<equiv> upd_buf b (\<lambda>x. x\<lparr>b_data := f (b_data x)\<rparr>)"

section \<open>Blocks\<close>

definition bzero :: "nat \<Rightarrow> u32 \<Rightarrow> u32 \<Rightarrow> 'a log_scheme \<Rightarrow> 'a log_scheme res" where
  "bzero c dev bno s =
     bindR (bread c dev bno s) (\<lambda>(bp, s).
     bindR (log_write bp (set_data bp (fill 0 BSIZE 0) s)) (brelse c bp))"

text \<open>Bit \<open>bi\<close> of a bitmap block.\<close>

definition bm_free :: "block \<Rightarrow> nat \<Rightarrow> bool" where
  "bm_free b bi \<longleftrightarrow> b (bi div 8) AND push_bit (bi mod 8) 1 = 0"

definition bm_set :: "nat \<Rightarrow> block \<Rightarrow> block" where
  "bm_set bi b = b(bi div 8 := b (bi div 8) OR push_bit (bi mod 8) 1)"

definition bm_clear :: "nat \<Rightarrow> block \<Rightarrow> block" where
  "bm_clear bi b = b(bi div 8 := b (bi div 8) AND NOT (push_bit (bi mod 8) 1))"

text \<open>The outer loop of \<^verbatim>\<open>balloc\<close>; \<open>ks\<close> are the bitmap blocks still to be searched.\<close>

fun balloc_loop :: "nat \<Rightarrow> u32 \<Rightarrow> nat list \<Rightarrow> 'a icache_scheme \<Rightarrow> (u32 \<times> 'a icache_scheme) res" where
  "balloc_loop c dev [] s = Panic ''balloc: out of blocks''"
| "balloc_loop c dev (k # ks) s =
     (let b = k * BPB
      in bindR (bread c dev (BBLOCK (of_nat b) (fs_sb s)) s) (\<lambda>(bp, s).
         case find_first (bm_free (b_data (bufs s bp))) (min BPB (unat (sb_size (fs_sb s)) - b)) of
           Some bi \<Rightarrow>
             bindR (log_write bp (set_data bp (bm_set bi) s)) (\<lambda>s.
             bindR (brelse c bp s) (\<lambda>s.
             bindR (bzero c dev (of_nat (b + bi)) s) (\<lambda>s.
             Ok (of_nat (b + bi), s))))
         | None \<Rightarrow> bindR (brelse c bp s) (balloc_loop c dev ks)))"

definition balloc :: "nat \<Rightarrow> u32 \<Rightarrow> 'a icache_scheme \<Rightarrow> (u32 \<times> 'a icache_scheme) res" where
  "balloc c dev s = balloc_loop c dev [0..<(unat (sb_size (fs_sb s)) + BPB - 1) div BPB] s"

definition bfree :: "nat \<Rightarrow> u32 \<Rightarrow> u32 \<Rightarrow> 'a icache_scheme \<Rightarrow> 'a icache_scheme res" where
  "bfree c dev b s =
     bindR (readsb c dev s) (\<lambda>(sb, s).
     let s = s\<lparr>fs_sb := sb\<rparr>
     in bindR (bread c dev (BBLOCK b (fs_sb s)) s) (\<lambda>(bp, s).
        let bi = unat b mod BPB
        in if bm_free (b_data (bufs s bp)) bi then Panic ''freeing free block''
           else bindR (log_write bp (set_data bp (bm_clear bi) s)) (brelse c bp)))"

section \<open>Inodes\<close>

definition iinit :: "nat \<Rightarrow> u32 \<Rightarrow> 'a icache_scheme \<Rightarrow> 'a icache_scheme res" where
  "iinit c dev s =
     (let s = s\<lparr>inodes := (\<lambda>i. if i < NINODE then (inodes s i)\<lparr>i_lock := initsleeplock\<rparr> else inodes s i)\<rparr>
      in bindR (readsb c dev s) (\<lambda>(sb, s). Ok (s\<lparr>fs_sb := sb\<rparr>)))"

definition iget :: "u32 \<Rightarrow> u32 \<Rightarrow> 'a icache_scheme \<Rightarrow> (nat \<times> 'a icache_scheme) res" where
  "iget dev inum s =
     (case find_first (\<lambda>i. i_ref (inodes s i) > 0 \<and> i_dev (inodes s i) = dev \<and> i_inum (inodes s i) = inum) NINODE of
        Some ip \<Rightarrow> Ok (ip, upd_ino ip (\<lambda>x. x\<lparr>i_ref := i_ref x + 1\<rparr>) s)
      | None \<Rightarrow>
          (case find_first (\<lambda>i. i_ref (inodes s i) = 0) NINODE of
             None \<Rightarrow> Panic ''iget: no inodes''
           | Some ip \<Rightarrow>
               Ok (ip, upd_ino ip (\<lambda>x. x\<lparr>i_dev := dev, i_inum := inum, i_ref := 1, i_valid := False\<rparr>) s)))"

definition idup :: "nat \<Rightarrow> 'a icache_scheme \<Rightarrow> 'a icache_scheme" where
  "idup ip s = upd_ino ip (\<lambda>x. x\<lparr>i_ref := i_ref x + 1\<rparr>) s"

text \<open>\<^verbatim>\<open>struct dinode\<close> at byte offset \<open>at\<close> of a block, copied from and to an inode in memory.\<close>

definition dinode_off :: "u32 \<Rightarrow> nat" where
  "dinode_off inum = unat inum mod IPB * DINODE_SIZE"

definition get_dinode :: "block \<Rightarrow> nat \<Rightarrow> inode \<Rightarrow> inode" where
  "get_dinode b at x =
     x\<lparr>i_type := get16 b at, i_major := get16 b (at + 2), i_minor := get16 b (at + 4), i_nlink := get16 b (at + 6),
       i_size := get32 b (at + 8),
       i_addrs := (\<lambda>k. if k \<le> NDIRECT then get32 b (at + 12 + 4 * k) else i_addrs x k)\<rparr>"

definition put_dinode :: "nat \<Rightarrow> inode \<Rightarrow> block \<Rightarrow> block" where
  "put_dinode at x b =
     (let b = put16 at (i_type x) b; b = put16 (at + 2) (i_major x) b; b = put16 (at + 4) (i_minor x) b;
          b = put16 (at + 6) (i_nlink x) b; b = put32 (at + 8) (i_size x) b
      in fold (\<lambda>k. put32 (at + 12 + 4 * k) (i_addrs x k)) [0..<NDIRECT + 1] b)"

fun ialloc_loop :: "nat \<Rightarrow> u32 \<Rightarrow> u16 \<Rightarrow> nat list \<Rightarrow> 'a icache_scheme \<Rightarrow> (nat \<times> 'a icache_scheme) res" where
  "ialloc_loop c dev type [] s = Panic ''ialloc: no inodes''"
| "ialloc_loop c dev type (n # ns) s =
     (let inum = of_nat n
      in bindR (bread c dev (IBLOCK inum (fs_sb s)) s) (\<lambda>(bp, s).
         let at = dinode_off inum
         in if get16 (b_data (bufs s bp)) at = 0
            then bindR (log_write bp (set_data bp (\<lambda>b. put16 at type (fill at DINODE_SIZE 0 b)) s)) (\<lambda>s.
                 bindR (brelse c bp s) (iget dev inum))
            else bindR (brelse c bp s) (ialloc_loop c dev type ns)))"

definition ialloc :: "nat \<Rightarrow> u32 \<Rightarrow> u16 \<Rightarrow> 'a icache_scheme \<Rightarrow> (nat \<times> 'a icache_scheme) res" where
  "ialloc c dev type s = ialloc_loop c dev type [1..<unat (sb_ninodes (fs_sb s))] s"

definition iupdate :: "nat \<Rightarrow> nat \<Rightarrow> 'a icache_scheme \<Rightarrow> 'a icache_scheme res" where
  "iupdate c ip s =
     (let x = inodes s ip
      in bindR (bread c (i_dev x) (IBLOCK (i_inum x) (fs_sb s)) s) (\<lambda>(bp, s).
         bindR (log_write bp (set_data bp (put_dinode (dinode_off (i_inum x)) (inodes s ip)) s)) (brelse c bp)))"

definition ilock :: "nat \<Rightarrow> nat option \<Rightarrow> 'a icache_scheme \<Rightarrow> 'a icache_scheme res" where
  "ilock c ip s =
     (case ip of
        None \<Rightarrow> Panic ''ilock''
      | Some ip \<Rightarrow>
          if i_ref (inodes s ip) < 1 then Panic ''ilock''
          else bindR (acquiresleep c (ChanInodeLock ip) (i_lock (inodes s ip)) s) (\<lambda>lk.
            let s = upd_ino ip (\<lambda>x. x\<lparr>i_lock := lk\<rparr>) s; x = inodes s ip
            in if i_valid x then Ok s
               else bindR (bread c (i_dev x) (IBLOCK (i_inum x) (fs_sb s)) s) (\<lambda>(bp, s).
                    let s = upd_ino ip (get_dinode (b_data (bufs s bp)) (dinode_off (i_inum x))) s
                    in bindR (brelse c bp s) (\<lambda>s.
                       let s = upd_ino ip (\<lambda>x. x\<lparr>i_valid := True\<rparr>) s
                       in if i_type (inodes s ip) = 0 then Panic ''ilock: no type'' else Ok s))))"

definition iunlock :: "nat \<Rightarrow> nat option \<Rightarrow> 'a icache_scheme \<Rightarrow> 'a icache_scheme res" where
  "iunlock c ip s =
     (case ip of
        None \<Rightarrow> Panic ''iunlock''
      | Some ip \<Rightarrow>
          bindR (holdingsleep c (i_lock (inodes s ip)) s) (\<lambda>h.
            if \<not> h \<or> i_ref (inodes s ip) < 1 then Panic ''iunlock''
            else bindR (releasesleep (ChanInodeLock ip) (i_lock (inodes s ip)) s) (\<lambda>(lk, s).
                 Ok (upd_ino ip (\<lambda>x. x\<lparr>i_lock := lk\<rparr>) s))))"

section \<open>Contents\<close>

definition bmap :: "nat \<Rightarrow> nat \<Rightarrow> nat \<Rightarrow> 'a icache_scheme \<Rightarrow> (u32 \<times> 'a icache_scheme) res" where
  "bmap c ip bn s =
     (let x = inodes s ip
      in if bn < NDIRECT
         then if i_addrs x bn = 0
              then bindR (balloc c (i_dev x) s) (\<lambda>(addr, s).
                   Ok (addr, upd_ino ip (\<lambda>x. x\<lparr>i_addrs := (i_addrs x)(bn := addr)\<rparr>) s))
              else Ok (i_addrs x bn, s)
         else let bn = bn - NDIRECT
           in if bn < NINDIRECT
              then bindR (if i_addrs x NDIRECT = 0
                          then bindR (balloc c (i_dev x) s) (\<lambda>(addr, s).
                               Ok (addr, upd_ino ip (\<lambda>x. x\<lparr>i_addrs := (i_addrs x)(NDIRECT := addr)\<rparr>) s))
                          else Ok (i_addrs x NDIRECT, s)) (\<lambda>(addr, s).
                   bindR (bread c (i_dev x) addr s) (\<lambda>(bp, s).
                   let a = get32 (b_data (bufs s bp)) (4 * bn)
                   in if a = 0
                      then bindR (balloc c (i_dev x) s) (\<lambda>(a, s).
                           bindR (log_write bp (set_data bp (put32 (4 * bn) a) s)) (\<lambda>s.
                           bindR (brelse c bp s) (\<lambda>s. Ok (a, s))))
                      else bindR (brelse c bp s) (\<lambda>s. Ok (a, s))))
              else Panic ''bmap: out of range'')"

definition itrunc :: "nat \<Rightarrow> nat \<Rightarrow> 'a icache_scheme \<Rightarrow> 'a icache_scheme res" where
  "itrunc c ip s =
     bindR (foldR (\<lambda>i s.
              if i_addrs (inodes s ip) i \<noteq> 0
              then bindR (bfree c (i_dev (inodes s ip)) (i_addrs (inodes s ip) i) s) (\<lambda>s.
                   Ok (upd_ino ip (\<lambda>x. x\<lparr>i_addrs := (i_addrs x)(i := 0)\<rparr>) s))
              else Ok s) [0..<NDIRECT] s) (\<lambda>s.
     bindR (if i_addrs (inodes s ip) NDIRECT \<noteq> 0
            then bindR (bread c (i_dev (inodes s ip)) (i_addrs (inodes s ip) NDIRECT) s) (\<lambda>(bp, s).
                 bindR (foldR (\<lambda>j s.
                          let a = get32 (b_data (bufs s bp)) (4 * j)
                          in if a \<noteq> 0 then bfree c (i_dev (inodes s ip)) a s else Ok s) [0..<NINDIRECT] s) (\<lambda>s.
                 bindR (brelse c bp s) (\<lambda>s.
                 bindR (bfree c (i_dev (inodes s ip)) (i_addrs (inodes s ip) NDIRECT) s) (\<lambda>s.
                 Ok (upd_ino ip (\<lambda>x. x\<lparr>i_addrs := (i_addrs x)(NDIRECT := 0)\<rparr>) s)))))
            else Ok s) (\<lambda>s.
     iupdate c ip (upd_ino ip (\<lambda>x. x\<lparr>i_size := 0\<rparr>) s)))"

definition iput :: "nat \<Rightarrow> nat \<Rightarrow> 'a icache_scheme \<Rightarrow> 'a icache_scheme res" where
  "iput c ip s =
     bindR (acquiresleep c (ChanInodeLock ip) (i_lock (inodes s ip)) s) (\<lambda>lk.
     let s = upd_ino ip (\<lambda>x. x\<lparr>i_lock := lk\<rparr>) s
     in bindR (if i_valid (inodes s ip) \<and> i_nlink (inodes s ip) = 0 \<and> i_ref (inodes s ip) = 1
               then bindR (itrunc c ip s) (\<lambda>s.
                    bindR (iupdate c ip (upd_ino ip (\<lambda>x. x\<lparr>i_type := 0\<rparr>) s)) (\<lambda>s.
                    Ok (upd_ino ip (\<lambda>x. x\<lparr>i_valid := False\<rparr>) s)))
               else Ok s) (\<lambda>s.
        bindR (releasesleep (ChanInodeLock ip) (i_lock (inodes s ip)) s) (\<lambda>(lk, s).
        Ok (upd_ino ip (\<lambda>x. x\<lparr>i_lock := lk, i_ref := i_ref x - 1\<rparr>) s))))"

definition iunlockput :: "nat \<Rightarrow> nat \<Rightarrow> 'a icache_scheme \<Rightarrow> 'a icache_scheme res" where
  "iunlockput c ip s = bindR (iunlock c (Some ip) s) (iput c ip)"

record stat =
  st_type :: u16
  st_dev :: u32
  st_ino :: u32
  st_nlink :: u16
  st_size :: u32

definition stati :: "nat \<Rightarrow> 'a icache_scheme \<Rightarrow> stat" where
  "stati ip s =
     (let x = inodes s ip
      in \<lparr>st_type = i_type x, st_dev = i_dev x, st_ino = i_inum x, st_nlink = i_nlink x, st_size = i_size x\<rparr>)"

text \<open>
  The loops of \<^verbatim>\<open>readi\<close> and \<^verbatim>\<open>writei\<close>. Each iteration handles the part of one block, so the number
  of bytes left decreases.
\<close>

lemma chunk_less: "0 < n \<Longrightarrow> n - min n (BSIZE - off mod BSIZE) < n"
  by (simp add: BSIZE_def)

function readi_loop :: "nat \<Rightarrow> nat \<Rightarrow> nat \<Rightarrow> nat \<Rightarrow> 'a icache_scheme \<Rightarrow> (u8 list \<times> 'a icache_scheme) res" where
  "readi_loop c ip off n s =
     (if n = 0 then Ok ([], s)
      else let m = min n (BSIZE - off mod BSIZE)
        in bindR (bmap c ip (off div BSIZE) s) (\<lambda>(addr, s).
           bindR (bread c (i_dev (inodes s ip)) addr s) (\<lambda>(bp, s).
           let xs = bytes_of (b_data (bufs s bp)) (off mod BSIZE) m
           in bindR (brelse c bp s) (\<lambda>s.
              bindR (readi_loop c ip (off + m) (n - m) s) (\<lambda>(ys, s). Ok (xs @ ys, s))))))"
  by pat_completeness auto
termination
  by (relation "measure (\<lambda>(c, ip, off, n, s). n)") (simp, simp only: in_measure prod.case chunk_less)

definition readi ::
  "(nat \<Rightarrow> 'a icache_scheme devsw) \<Rightarrow> nat \<Rightarrow> nat \<Rightarrow> u32 \<Rightarrow> u32 \<Rightarrow> 'a icache_scheme \<Rightarrow>
   (int \<times> u8 list \<times> 'a icache_scheme) res" where
  "readi D c ip off n s =
     (let x = inodes s ip
      in if i_type x = T_DEV
         then if sint (i_major x) < 0 \<or> sint (i_major x) \<ge> int NDEV then Ok (-1, [], s)
              else (case dv_read (D (nat (sint (i_major x)))) of
                      None \<Rightarrow> Ok (-1, [], s)
                    | Some rd \<Rightarrow> rd c ip (sint n) s)
         else if off > i_size x \<or> off + n < off then Ok (-1, [], s)
         else let n = (if off + n > i_size x then i_size x - off else n)
              in bindR (readi_loop c ip (unat off) (unat n) s) (\<lambda>(xs, s). Ok (sint n, xs, s)))"

function writei_loop :: "nat \<Rightarrow> nat \<Rightarrow> u8 list \<Rightarrow> nat \<Rightarrow> 'a icache_scheme \<Rightarrow> 'a icache_scheme res" where
  "writei_loop c ip src off s =
     (if src = [] then Ok s
      else let m = min (length src) (BSIZE - off mod BSIZE)
        in bindR (bmap c ip (off div BSIZE) s) (\<lambda>(addr, s).
           bindR (bread c (i_dev (inodes s ip)) addr s) (\<lambda>(bp, s).
           bindR (log_write bp (set_data bp (blit (off mod BSIZE) (of_bytes src) 0 m) s)) (\<lambda>s.
           bindR (brelse c bp s) (\<lambda>s.
           writei_loop c ip (drop m src) (off + m) s)))))"
  by pat_completeness auto
termination
  by (relation "measure (\<lambda>(c, ip, src, off, s). length src)")
    (simp, simp only: in_measure prod.case length_drop chunk_less length_greater_0_conv not_False_eq_True)

definition writei ::
  "(nat \<Rightarrow> 'a icache_scheme devsw) \<Rightarrow> nat \<Rightarrow> nat \<Rightarrow> u8 list \<Rightarrow> u32 \<Rightarrow> 'a icache_scheme \<Rightarrow> (int \<times> 'a icache_scheme) res" where
  "writei D c ip src off s =
     (let x = inodes s ip; n = of_nat (length src) :: u32
      in if i_type x = T_DEV
         then if sint (i_major x) < 0 \<or> sint (i_major x) \<ge> int NDEV then Ok (-1, s)
              else (case dv_write (D (nat (sint (i_major x)))) of
                      None \<Rightarrow> Ok (-1, s)
                    | Some wr \<Rightarrow> wr c ip src s)
         else if off > i_size x \<or> off + n < off then Ok (-1, s)
         else if off + n > of_nat (MAXFILE * BSIZE) then Ok (-1, s)
         else bindR (writei_loop c ip src (unat off) s) (\<lambda>s.
              let off = off + n
              in if n > 0 \<and> off > i_size (inodes s ip)
                 then bindR (iupdate c ip (upd_ino ip (\<lambda>x. x\<lparr>i_size := off\<rparr>) s)) (\<lambda>s. Ok (sint n, s))
                 else Ok (sint n, s)))"

section \<open>Directories\<close>

definition namecmp :: "(nat \<Rightarrow> u8) \<Rightarrow> (nat \<Rightarrow> u8) \<Rightarrow> int" where
  "namecmp s t = strncmp s t DIRSIZ"

text \<open>\<^verbatim>\<open>struct dirent\<close>, as the bytes that \<^verbatim>\<open>readi\<close> delivers.\<close>

definition de_inum :: "u8 list \<Rightarrow> u16" where "de_inum de = get16 (of_bytes de) 0"
definition de_name :: "u8 list \<Rightarrow> nat \<Rightarrow> u8" where "de_name de = (\<lambda>k. of_bytes de (2 + k))"

definition mk_dirent :: "u16 \<Rightarrow> (nat \<Rightarrow> u8) \<Rightarrow> u8 list" where
  "mk_dirent inum name =
     bytes_of (blit 2 (strncpy (\<lambda>_. 0) name DIRSIZ) 0 DIRSIZ (put16 0 inum (\<lambda>_. 0))) 0 DIRENT_SIZE"

text \<open>The offsets of the entries of a directory.\<close>

definition dir_offs :: "u32 \<Rightarrow> nat list" where
  "dir_offs sz = map (\<lambda>k. k * DIRENT_SIZE) [0..<(unat sz + DIRENT_SIZE - 1) div DIRENT_SIZE]"

fun dirlookup_loop ::
  "(nat \<Rightarrow> 'a icache_scheme devsw) \<Rightarrow> nat \<Rightarrow> nat \<Rightarrow> u8 list \<Rightarrow> nat list \<Rightarrow> 'a icache_scheme \<Rightarrow>
   ((nat \<times> u32) option \<times> 'a icache_scheme) res" where
  "dirlookup_loop D c dp name [] s = Ok (None, s)"
| "dirlookup_loop D c dp name (off # offs) s =
     bindR (readi D c dp (of_nat off) (of_nat DIRENT_SIZE) s) (\<lambda>(r, de, s).
     if r \<noteq> int DIRENT_SIZE then Panic ''dirlookup read''
     else if de_inum de = 0 then dirlookup_loop D c dp name offs s
     else if namecmp (of_bytes name) (de_name de) = 0
     then bindR (iget (i_dev (inodes s dp)) (ucast (de_inum de)) s) (\<lambda>(ip, s). Ok (Some (ip, of_nat off), s))
     else dirlookup_loop D c dp name offs s)"

definition dirlookup ::
  "(nat \<Rightarrow> 'a icache_scheme devsw) \<Rightarrow> nat \<Rightarrow> nat \<Rightarrow> u8 list \<Rightarrow> 'a icache_scheme \<Rightarrow>
   ((nat \<times> u32) option \<times> 'a icache_scheme) res" where
  "dirlookup D c dp name s =
     (if i_type (inodes s dp) \<noteq> T_DIR then Panic ''dirlookup not DIR''
      else dirlookup_loop D c dp name (dir_offs (i_size (inodes s dp))) s)"

text \<open>The search for an empty entry: its offset, or the end of the directory.\<close>

fun dirlink_loop ::
  "(nat \<Rightarrow> 'a icache_scheme devsw) \<Rightarrow> nat \<Rightarrow> nat \<Rightarrow> nat list \<Rightarrow> nat \<Rightarrow> 'a icache_scheme \<Rightarrow> (nat \<times> 'a icache_scheme) res" where
  "dirlink_loop D c dp [] fin s = Ok (fin, s)"
| "dirlink_loop D c dp (off # offs) fin s =
     bindR (readi D c dp (of_nat off) (of_nat DIRENT_SIZE) s) (\<lambda>(r, de, s).
     if r \<noteq> int DIRENT_SIZE then Panic ''dirlink read''
     else if de_inum de = 0 then Ok (off, s)
     else dirlink_loop D c dp offs (off + DIRENT_SIZE) s)"

definition dirlink ::
  "(nat \<Rightarrow> 'a icache_scheme devsw) \<Rightarrow> nat \<Rightarrow> nat \<Rightarrow> u8 list \<Rightarrow> u32 \<Rightarrow> 'a icache_scheme \<Rightarrow> (int \<times> 'a icache_scheme) res" where
  "dirlink D c dp name inum s =
     bindR (dirlookup D c dp name s) (\<lambda>(r, s).
     case r of
       Some (ip, _) \<Rightarrow> bindR (iput c ip s) (\<lambda>s. Ok (-1, s))
     | None \<Rightarrow>
         bindR (dirlink_loop D c dp (dir_offs (i_size (inodes s dp))) 0 s) (\<lambda>(off, s).
         bindR (writei D c dp (mk_dirent (ucast inum) (of_bytes name)) (of_nat off) s) (\<lambda>(r, s).
         if r \<noteq> int DIRENT_SIZE then Panic ''dirlink'' else Ok (0, s))))"

section \<open>Paths\<close>

definition SLASH :: u8 where "SLASH = 47"

definition skipelem :: "u8 list \<Rightarrow> (u8 list \<times> u8 list) option" where
  "skipelem path =
     (let path = dropWhile (\<lambda>x. x = SLASH) path
      in if path = [] then None
         else let s = takeWhile (\<lambda>x. x \<noteq> SLASH) path;
                  path = dropWhile (\<lambda>x. x \<noteq> SLASH) path
              in Some (take DIRSIZ s, dropWhile (\<lambda>x. x = SLASH) path))"

lemma skipelem_shorter: "skipelem path = Some (name, rest) \<Longrightarrow> length rest < length path"
proof -
  let ?p = "dropWhile (\<lambda>x. x = SLASH) path"
  assume "skipelem path = Some (name, rest)"
  then have ne: "?p \<noteq> []" and r: "rest = dropWhile (\<lambda>x. x = SLASH) (dropWhile (\<lambda>x. x \<noteq> SLASH) ?p)"
    by (auto simp: skipelem_def Let_def split: if_splits)
  then obtain y ys where y: "?p = y # ys" "y \<noteq> SLASH" using hd_dropWhile[OF ne] by (cases ?p) auto
  have "length rest \<le> length ys"
    unfolding r y using y(2) by (auto intro: order_trans[OF length_dropWhile_le] length_dropWhile_le)
  moreover have "length ?p \<le> length path" by (rule length_dropWhile_le)
  ultimately show ?thesis using y(1) by simp
qed

function namex_loop ::
  "(nat \<Rightarrow> 'a icache_scheme devsw) \<Rightarrow> nat \<Rightarrow> bool \<Rightarrow> nat \<Rightarrow> u8 list \<Rightarrow> 'a icache_scheme \<Rightarrow>
   ((nat \<times> u8 list) option \<times> 'a icache_scheme) res" where
  "namex_loop D c parent ip path s =
     (case skipelem path of
        None \<Rightarrow> if parent then bindR (iput c ip s) (\<lambda>s. Ok (None, s)) else Ok (Some (ip, []), s)
      | Some (name, rest) \<Rightarrow>
          bindR (ilock c (Some ip) s) (\<lambda>s.
          if i_type (inodes s ip) \<noteq> T_DIR then bindR (iunlockput c ip s) (\<lambda>s. Ok (None, s))
          else if parent \<and> rest = [] then bindR (iunlock c (Some ip) s) (\<lambda>s. Ok (Some (ip, name), s))
          else bindR (dirlookup D c ip name s) (\<lambda>(r, s).
               bindR (iunlockput c ip s) (\<lambda>s.
               case r of
                 None \<Rightarrow> Ok (None, s)
               | Some (nxt, _) \<Rightarrow> namex_loop D c parent nxt rest s))))"
  by pat_completeness auto
termination
  by (relation "measure (\<lambda>(D, c, parent, ip, path, s). length path)") (auto dest: skipelem_shorter)

definition namex ::
  "(nat \<Rightarrow> 'a icache_scheme devsw) \<Rightarrow> nat \<Rightarrow> u8 list \<Rightarrow> bool \<Rightarrow> 'a icache_scheme \<Rightarrow>
   ((nat \<times> u8 list) option \<times> 'a icache_scheme) res" where
  "namex D c path parent s =
     bindR (if path \<noteq> [] \<and> hd path = SLASH then iget ROOTDEV ROOTINO s
            else case myproc c s of
                None \<Rightarrow> Fault
              | Some p \<Rightarrow> (case p_cwd (procs s p) of None \<Rightarrow> Fault | Some ip \<Rightarrow> Ok (ip, idup ip s))) (\<lambda>(ip, s).
     namex_loop D c parent ip path s)"

definition namei ::
  "(nat \<Rightarrow> 'a icache_scheme devsw) \<Rightarrow> nat \<Rightarrow> u8 list \<Rightarrow> 'a icache_scheme \<Rightarrow> (nat option \<times> 'a icache_scheme) res" where
  "namei D c path s = bindR (namex D c path False s) (\<lambda>(r, s). Ok (map_option fst r, s))"

definition nameiparent ::
  "(nat \<Rightarrow> 'a icache_scheme devsw) \<Rightarrow> nat \<Rightarrow> u8 list \<Rightarrow> 'a icache_scheme \<Rightarrow>
   ((nat \<times> u8 list) option \<times> 'a icache_scheme) res" where
  "nameiparent D c path s = namex D c path True s"

end
