(* ===== verification/File_Defs.thy ===== *)
theory File_Defs
  imports Fs_Defs
begin

text \<open>
  Open files and pipes, \<^verbatim>\<open>src/xv6/file.c\<close> and \<^verbatim>\<open>src/xv6/pipe.c\<close>. An open file is its index in
  \<^verbatim>\<open>ftable.file\<close>; a pipe is the address of the page that holds it, and \<open>pipes\<close> gives the
  structure in that page. The pipe operations can go to sleep in the middle of a transfer:
  their outcome tells how many bytes were transferred before the process fell asleep, from
  where the loop of the C function goes on when the process runs again.
\<close>

definition PIPESIZE :: u32 where "PIPESIZE = 512"

datatype ftype = FD_NONE | FD_PIPE | FD_INODE

record xfile =
  f_type :: ftype
  f_ref :: int
  f_readable :: bool
  f_writable :: bool
  f_pipe :: u32
  f_ip :: nat
  f_off :: u32

record pipe =
  pi_data :: "nat \<Rightarrow> u8"
  pi_nread :: u32
  pi_nwrite :: u32
  pi_readopen :: bool
  pi_writeopen :: bool

record ftable = icache +
  files :: "nat \<Rightarrow> xfile"
  pipes :: "u32 \<Rightarrow> pipe"

datatype io = Returned int | Asleep nat

definition upd_file :: "nat \<Rightarrow> (xfile \<Rightarrow> xfile) \<Rightarrow> 'a ftable_scheme \<Rightarrow> 'a ftable_scheme" where
  "upd_file f g s = s\<lparr>files := (files s)(f := g (files s f))\<rparr>"

definition upd_pipe :: "u32 \<Rightarrow> (pipe \<Rightarrow> pipe) \<Rightarrow> 'a ftable_scheme \<Rightarrow> 'a ftable_scheme" where
  "upd_pipe p g s = s\<lparr>pipes := (pipes s)(p := g (pipes s p))\<rparr>"

section \<open>Pipes\<close>

definition pipeclose :: "u32 \<Rightarrow> bool \<Rightarrow> 'a ftable_scheme \<Rightarrow> 'a ftable_scheme res" where
  "pipeclose p writable s =
     bindR (if writable
            then wakeup (ChanPipeRead p) (upd_pipe p (\<lambda>x. x\<lparr>pi_writeopen := False\<rparr>) s)
            else wakeup (ChanPipeWrite p) (upd_pipe p (\<lambda>x. x\<lparr>pi_readopen := False\<rparr>) s)) (\<lambda>s.
     if \<not> pi_readopen (pipes s p) \<and> \<not> pi_writeopen (pipes s p) then kfree p s else Ok s)"

definition pipe_full :: "pipe \<Rightarrow> bool" where
  "pipe_full x \<longleftrightarrow> pi_nwrite x = pi_nread x + PIPESIZE"

definition pipe_put :: "u8 \<Rightarrow> pipe \<Rightarrow> pipe" where
  "pipe_put v x =
     x\<lparr>pi_data := (pi_data x)(unat (pi_nwrite x mod PIPESIZE) := v), pi_nwrite := pi_nwrite x + 1\<rparr>"

definition pipe_get :: "pipe \<Rightarrow> u8 \<times> pipe" where
  "pipe_get x = (pi_data x (unat (pi_nread x mod PIPESIZE)), x\<lparr>pi_nread := pi_nread x + 1\<rparr>)"

text \<open>The loop of \<^verbatim>\<open>pipewrite\<close> with \<open>i\<close> bytes written and the bytes \<open>vs\<close> left.\<close>

fun pipewrite_loop :: "nat \<Rightarrow> u32 \<Rightarrow> nat \<Rightarrow> u8 list \<Rightarrow> 'a ftable_scheme \<Rightarrow> (io \<times> 'a ftable_scheme) res" where
  "pipewrite_loop c p i [] s = bindR (wakeup (ChanPipeRead p) s) (\<lambda>s. Ok (Returned (int i), s))"
| "pipewrite_loop c p i (v # vs) s =
     (if pipe_full (pipes s p)
      then (case myproc c s of
              None \<Rightarrow> Fault
            | Some q \<Rightarrow>
                if \<not> pi_readopen (pipes s p) \<or> p_killed (procs s q) then Ok (Returned (-1), s)
                else bindR (wakeup (ChanPipeRead p) s) (\<lambda>s.
                     bindR (sleep c (ChanPipeWrite p) s) (\<lambda>s. Ok (Asleep i, s))))
      else pipewrite_loop c p (i + 1) vs (upd_pipe p (pipe_put v) s))"

definition pipewrite :: "nat \<Rightarrow> u32 \<Rightarrow> u8 list \<Rightarrow> 'a ftable_scheme \<Rightarrow> (io \<times> 'a ftable_scheme) res" where
  "pipewrite c p vs s = pipewrite_loop c p 0 vs s"

fun piperead_loop :: "u32 \<Rightarrow> nat \<Rightarrow> 'a ftable_scheme \<Rightarrow> u8 list \<times> 'a ftable_scheme" where
  "piperead_loop p 0 s = ([], s)"
| "piperead_loop p (Suc n) s =
     (if pi_nread (pipes s p) = pi_nwrite (pipes s p) then ([], s)
      else let (v, x) = pipe_get (pipes s p); (vs, s) = piperead_loop p n (upd_pipe p (\<lambda>_. x) s)
           in (v # vs, s))"

definition piperead :: "nat \<Rightarrow> u32 \<Rightarrow> int \<Rightarrow> 'a ftable_scheme \<Rightarrow> (io \<times> u8 list \<times> 'a ftable_scheme) res" where
  "piperead c p n s =
     (if pi_nread (pipes s p) = pi_nwrite (pipes s p) \<and> pi_writeopen (pipes s p)
      then (case myproc c s of
              None \<Rightarrow> Fault
            | Some q \<Rightarrow>
                if p_killed (procs s q) then Ok (Returned (-1), [], s)
                else bindR (sleep c (ChanPipeRead p) s) (\<lambda>s. Ok (Asleep 0, [], s)))
      else let (vs, s) = piperead_loop p (nat n) s
           in bindR (wakeup (ChanPipeWrite p) s) (\<lambda>s. Ok (Returned (int (length vs)), vs, s)))"

section \<open>Open files\<close>

definition filealloc :: "'a ftable_scheme \<Rightarrow> nat option \<times> 'a ftable_scheme" where
  "filealloc s =
     (case find_first (\<lambda>f. f_ref (files s f) = 0) NFILE of
        None \<Rightarrow> (None, s)
      | Some f \<Rightarrow> (Some f, upd_file f (\<lambda>x. x\<lparr>f_ref := 1\<rparr>) s))"

definition filedup :: "nat \<Rightarrow> 'a ftable_scheme \<Rightarrow> 'a ftable_scheme res" where
  "filedup f s =
     (if f_ref (files s f) < 1 then Panic ''filedup''
      else Ok (upd_file f (\<lambda>x. x\<lparr>f_ref := f_ref x + 1\<rparr>) s))"

definition fileclose :: "nat \<Rightarrow> nat \<Rightarrow> 'a ftable_scheme \<Rightarrow> 'a ftable_scheme res" where
  "fileclose c f s =
     (if f_ref (files s f) < 1 then Panic ''fileclose''
      else let s = upd_file f (\<lambda>x. x\<lparr>f_ref := f_ref x - 1\<rparr>) s
        in if f_ref (files s f) > 0 then Ok s
           else let ff = files s f; s = upd_file f (\<lambda>x. x\<lparr>f_ref := 0, f_type := FD_NONE\<rparr>) s
             in (case f_type ff of
                   FD_PIPE \<Rightarrow> pipeclose (f_pipe ff) (f_writable ff) s
                 | FD_INODE \<Rightarrow>
                     bindR (begin_op s) (\<lambda>s.
                     bindR (iput c (f_ip ff) s) (\<lambda>s.
                     end_op c s))
                 | FD_NONE \<Rightarrow> Ok s))"

definition filestat :: "nat \<Rightarrow> nat \<Rightarrow> 'a ftable_scheme \<Rightarrow> (stat option \<times> 'a ftable_scheme) res" where
  "filestat c f s =
     (if f_type (files s f) = FD_INODE
      then bindR (ilock c (Some (f_ip (files s f))) s) (\<lambda>s.
           let st = stati (f_ip (files s f)) s
           in bindR (iunlock c (Some (f_ip (files s f))) s) (\<lambda>s. Ok (Some st, s)))
      else Ok (None, s))"

definition fileread ::
  "(nat \<Rightarrow> 'a ftable_scheme devsw) \<Rightarrow> nat \<Rightarrow> nat \<Rightarrow> int \<Rightarrow> 'a ftable_scheme \<Rightarrow> (io \<times> u8 list \<times> 'a ftable_scheme) res" where
  "fileread D c f n s =
     (if \<not> f_readable (files s f) then Ok (Returned (-1), [], s)
      else case f_type (files s f) of
          FD_PIPE \<Rightarrow> piperead c (f_pipe (files s f)) n s
        | FD_INODE \<Rightarrow>
            let ip = f_ip (files s f)
            in bindR (ilock c (Some ip) s) (\<lambda>s.
               bindR (readi D c ip (f_off (files s f)) (of_int n) s) (\<lambda>(r, vs, s).
               let s = (if r > 0 then upd_file f (\<lambda>x. x\<lparr>f_off := f_off x + of_int r\<rparr>) s else s)
               in bindR (iunlock c (Some ip) s) (\<lambda>s. Ok (Returned r, vs, s))))
        | FD_NONE \<Rightarrow> Panic ''fileread'')"

text \<open>
  The loop of \<^verbatim>\<open>filewrite\<close>: one transaction for each part of at most \<open>write_max\<close> bytes. The
  result tells whether everything was written.
\<close>

definition write_max :: nat where
  "write_max = (MAXOPBLOCKS - 1 - 1 - 2) div 2 * 512"

lemma write_max_pos: "0 < n \<Longrightarrow> n - min n write_max < n"
  by (simp add: write_max_def MAXOPBLOCKS_def)

function filewrite_loop ::
  "(nat \<Rightarrow> 'a ftable_scheme devsw) \<Rightarrow> nat \<Rightarrow> nat \<Rightarrow> u8 list \<Rightarrow> 'a ftable_scheme \<Rightarrow> (bool \<times> 'a ftable_scheme) res" where
  "filewrite_loop D c f vs s =
     (if vs = [] then Ok (True, s)
      else let n1 = min (length vs) write_max; ip = f_ip (files s f)
        in bindR (begin_op s) (\<lambda>s.
           bindR (ilock c (Some ip) s) (\<lambda>s.
           bindR (writei D c ip (take n1 vs) (f_off (files s f)) s) (\<lambda>(r, s).
           let s = (if r > 0 then upd_file f (\<lambda>x. x\<lparr>f_off := f_off x + of_int r\<rparr>) s else s)
           in bindR (iunlock c (Some ip) s) (\<lambda>s.
              bindR (end_op c s) (\<lambda>s.
              if r < 0 then Ok (False, s)
              else if r \<noteq> int n1 then Panic ''short filewrite''
              else filewrite_loop D c f (drop n1 vs) s))))))"
  by pat_completeness auto
termination
  by (relation "measure (\<lambda>(D, c, f, vs, s). length vs)")
    (simp, simp only: in_measure prod.case length_drop write_max_pos length_greater_0_conv not_False_eq_True)

definition filewrite ::
  "(nat \<Rightarrow> 'a ftable_scheme devsw) \<Rightarrow> nat \<Rightarrow> nat \<Rightarrow> u8 list \<Rightarrow> 'a ftable_scheme \<Rightarrow> (io \<times> 'a ftable_scheme) res" where
  "filewrite D c f vs s =
     (if \<not> f_writable (files s f) then Ok (Returned (-1), s)
      else case f_type (files s f) of
          FD_PIPE \<Rightarrow> pipewrite c (f_pipe (files s f)) vs s
        | FD_INODE \<Rightarrow>
            bindR (filewrite_loop D c f vs s) (\<lambda>(all, s).
            Ok (Returned (if all then int (length vs) else -1), s))
        | FD_NONE \<Rightarrow> Panic ''filewrite'')"

section \<open>Creating a pipe\<close>

definition pipealloc :: "nat \<Rightarrow> 'a ftable_scheme \<Rightarrow> ((nat \<times> nat) option \<times> 'a ftable_scheme) res" where
  "pipealloc c s =
     (case filealloc s of
        (None, s) \<Rightarrow> Ok (None, s)
      | (Some f0, s) \<Rightarrow>
          (case filealloc s of
             (None, s) \<Rightarrow> bindR (fileclose c f0 s) (\<lambda>s. Ok (None, s))
           | (Some f1, s) \<Rightarrow>
               let (p, s) = kalloc s
               in if p = 0
                  then bindR (fileclose c f0 s) (\<lambda>s. bindR (fileclose c f1 s) (\<lambda>s. Ok (None, s)))
                  else let s = upd_pipe p (\<lambda>x. x\<lparr>pi_readopen := True, pi_writeopen := True,
                                                 pi_nwrite := 0, pi_nread := 0\<rparr>) s;
                           s = upd_file f0 (\<lambda>x. x\<lparr>f_type := FD_PIPE, f_readable := True, f_writable := False,
                                                  f_pipe := p\<rparr>) s;
                           s = upd_file f1 (\<lambda>x. x\<lparr>f_type := FD_PIPE, f_readable := False, f_writable := True,
                                                  f_pipe := p\<rparr>) s
                       in Ok (Some (f0, f1), s)))"

end
