(* ===== verification/Digits.thy ===== *)
theory Digits
  imports Xv6_Prelude
begin

text \<open>
  The digit loop that \<^verbatim>\<open>printint\<close> has in \<^verbatim>\<open>src/xv6/console.c\<close> and in \<^verbatim>\<open>src/xv6/user/printf.c\<close>, and
  reading a number back from its digits.
\<close>

text \<open>
  The digits of \<open>x\<close> in the order in which \<^verbatim>\<open>printint\<close> stores them, least significant first. The
  callers pass base 10 or 16; a base below 2 stops at once.
\<close>

function int_digits :: "nat \<Rightarrow> nat \<Rightarrow> nat list" where
  "int_digits base x =
     (let d = x mod base; x = x div base in if x = 0 \<or> base < 2 then [d] else d # int_digits base x)"
  by pat_completeness auto
termination
proof (relation "measure snd")
  fix base x d y :: nat
  assume "y = x div base" and "\<not> (y = 0 \<or> base < 2)"
  moreover from this have "0 < x" by (cases x) auto
  ultimately show "((base, y), base, x) \<in> measure snd" by simp
qed simp

declare int_digits.simps [simp del]

fun from_digits :: "nat \<Rightarrow> nat list \<Rightarrow> nat" where
  "from_digits base [] = 0"
| "from_digits base (d # ds) = d + base * from_digits base ds"

lemma from_int_digits:
  assumes "2 \<le> base"
  shows "from_digits base (int_digits base x) = x"
  using assms
proof (induction base x rule: int_digits.induct)
  case (1 base x)
  show ?case
  proof (cases "x div base = 0")
    case True
    then show ?thesis using "1.prems" by (subst int_digits.simps) (simp add: div_eq_0_iff)
  next
    case False
    then have "from_digits base (int_digits base (x div base)) = x div base" using 1 by auto
    then show ?thesis using False "1.prems" by (subst int_digits.simps) (simp add: Let_def)
  qed
qed

lemma int_digits_bound:
  assumes "2 \<le> base" and "d \<in> set (int_digits base x)"
  shows "d < base"
  using assms
proof (induction base x rule: int_digits.induct)
  case (1 base x)
  show ?case
    using 1 by (subst (asm) (2) int_digits.simps) (auto simp: Let_def split: if_splits)
qed

lemma int_digits_nonempty: "int_digits base x \<noteq> []"
  by (subst int_digits.simps) (simp add: Let_def)

text \<open>At most ten decimal and eight hexadecimal digits: the buffer of 16 bytes is large enough.\<close>

lemma int_digits_length:
  assumes "2 \<le> base" and "x < base ^ n" and "0 < n"
  shows "length (int_digits base x) \<le> n"
  using assms
proof (induction base x arbitrary: n rule: int_digits.induct)
  case (1 base x)
  show ?case
  proof (cases "x div base = 0")
    case True
    then show ?thesis using "1.prems"(3) by (subst int_digits.simps) (simp add: Let_def)
  next
    case False
    then obtain m where n: "n = Suc m" "0 < m" using "1.prems" by (cases n; cases "n - 1") (auto simp: div_eq_0_iff)
    have "x div base < base ^ m" using "1.prems" n by (simp add: less_mult_imp_div_less mult.commute)
    then have "length (int_digits base (x div base)) \<le> m" using 1 False n(2) by auto
    then show ?thesis using False "1.prems"(1) n by (subst int_digits.simps) (simp add: Let_def)
  qed
qed

end
