(* ===== verification/Console.thy ===== *)
theory Console
  imports File_Defs Digits
begin

text \<open>
  The console, \<^verbatim>\<open>src/xv6/console.c\<close>: formatted output, the text screen, and the input line buffer
  that the keyboard and serial interrupts fill and \<^verbatim>\<open>consoleread\<close> empties. The record \<open>kern\<close> is
  the state of the whole kernel; besides the console it has the tick counter of \<^verbatim>\<open>trap.c\<close> and
  the flag of \<^verbatim>\<open>forkret\<close>. What is sent to the serial port is appended to \<open>uart_out\<close>; the cursor
  position lives in the registers of the display controller.
\<close>

record kern = ftable +
  ticks :: u32
  forkret_first :: bool
  in_buf :: "nat \<Rightarrow> u8"
  in_r :: u32
  in_w :: u32
  in_e :: u32
  crt :: "nat \<Rightarrow> u16"
  crt_pos :: int
  uart_out :: "int list"

definition INPUT_BUF :: u32 where "INPUT_BUF = 128"
definition BACKSPACE :: int where "BACKSPACE = 0x100"
definition CONSOLE :: nat where "CONSOLE = 1"

text \<open>\<^verbatim>\<open>C('D')\<close> and friends.\<close>

definition CTRL_D :: int where "CTRL_D = 4"
definition CTRL_H :: int where "CTRL_H = 8"
definition CTRL_P :: int where "CTRL_P = 16"
definition CTRL_U :: int where "CTRL_U = 21"
definition DEL :: int where "DEL = 0x7F"
definition NL :: int where "NL = 10"
definition CR :: int where "CR = 13"

lemmas key_defs = CTRL_D_def CTRL_H_def CTRL_P_def CTRL_U_def DEL_def NL_def CR_def BACKSPACE_def

section \<open>Formatted output\<close>

definition digit_char :: "nat \<Rightarrow> int" where
  "digit_char d = (if d < 10 then 48 + int d else 87 + int d)"

definition printint :: "u32 \<Rightarrow> nat \<Rightarrow> bool \<Rightarrow> int list" where
  "printint xx base sign =
     (let neg = sign \<and> sint xx < 0; x = (if neg then - xx else xx);
          buf = map digit_char (int_digits base (unat x)) @ (if neg then [45] else [])
      in rev buf)"

text \<open>The arguments of \<^verbatim>\<open>cprintf\<close>: words and strings; a null string pointer is \<open>None\<close>.\<close>

datatype carg = CInt u32 | CStr "u8 list option"

fun cprintf_out :: "u8 list \<Rightarrow> carg list \<Rightarrow> int list option" where
  "cprintf_out [] args = Some []"
| "cprintf_out (c # fmt) args =
     (if c \<noteq> 37 then map_option ((#) (uint c)) (cprintf_out fmt args)
      else case fmt of
          [] \<Rightarrow> Some []
        | d # fmt \<Rightarrow>
            if d = 100 then
              (case args of
                 CInt x # args \<Rightarrow> map_option ((@) (printint x 10 True)) (cprintf_out fmt args)
               | _ \<Rightarrow> None)
            else if d = 120 \<or> d = 112 then
              (case args of
                 CInt x # args \<Rightarrow> map_option ((@) (printint x 16 False)) (cprintf_out fmt args)
               | _ \<Rightarrow> None)
            else if d = 115 then
              (case args of
                 CStr s # args \<Rightarrow>
                   map_option ((@) (map uint (case s of None \<Rightarrow> [40, 110, 117, 108, 108, 41] | Some s \<Rightarrow> s)))
                     (cprintf_out fmt args)
               | _ \<Rightarrow> None)
            else if d = 37 then map_option ((#) 37) (cprintf_out fmt args)
            else map_option (\<lambda>r. 37 # uint d # r) (cprintf_out fmt args))"

section \<open>The screen\<close>

definition cgaputc :: "int \<Rightarrow> 'a kern_scheme \<Rightarrow> 'a kern_scheme res" where
  "cgaputc c s =
     (let pos = crt_pos s;
          (pos, m) = (if c = NL then (pos + (80 - pos mod 80), crt s)
                      else if c = BACKSPACE then (if pos > 0 then pos - 1 else pos, crt s)
                      else (pos + 1, (crt s)(nat pos := (of_int c AND 0xFF) OR 0x0700)))
      in if pos < 0 \<or> pos > 25 * 80 then Panic ''pos under/overflow''
         else let (pos, m) =
                    (if pos div 80 \<ge> 24
                     then (pos - 80, \<lambda>k. let k' = (if k < 23 * 80 then k + 80 else k)
                                         in if nat (pos - 80) \<le> k \<and> k < 24 * 80 then 0 else m k')
                     else (pos, m))
              in Ok (s\<lparr>crt := m(nat pos := 32 OR 0x0700), crt_pos := pos\<rparr>))"

definition consputc :: "int \<Rightarrow> 'a kern_scheme \<Rightarrow> 'a kern_scheme res" where
  "consputc c s =
     cgaputc c (s\<lparr>uart_out := uart_out s @ (if c = BACKSPACE then [8, 32, 8] else [c])\<rparr>)"

definition cprintf :: "string \<Rightarrow> carg list \<Rightarrow> 'a kern_scheme \<Rightarrow> 'a kern_scheme res" where
  "cprintf fmt args s =
     (case cprintf_out (chars fmt) args of None \<Rightarrow> Fault | Some cs \<Rightarrow> foldR consputc cs s)"

section \<open>Input\<close>

text \<open>The circular buffer \<^verbatim>\<open>input.buf\<close>: storing at \<^verbatim>\<open>input.e\<close> and taking at \<^verbatim>\<open>input.r\<close>.\<close>

definition input_full :: "'a kern_scheme \<Rightarrow> bool" where
  "input_full s \<longleftrightarrow> \<not> in_e s - in_r s < INPUT_BUF"

definition input_put :: "u8 \<Rightarrow> 'a kern_scheme \<Rightarrow> 'a kern_scheme" where
  "input_put c s = s\<lparr>in_buf := (in_buf s)(unat (in_e s mod INPUT_BUF) := c), in_e := in_e s + 1\<rparr>"

definition input_get :: "'a kern_scheme \<Rightarrow> u8 \<times> 'a kern_scheme" where
  "input_get s = (in_buf s (unat (in_r s mod INPUT_BUF)), s\<lparr>in_r := in_r s + 1\<rparr>)"

text \<open>Killing the line: the edit index goes back to the last newline that has not been read.\<close>

function kill_to :: "(nat \<Rightarrow> u8) \<Rightarrow> u32 \<Rightarrow> u32 \<Rightarrow> u32" where
  "kill_to buf w e =
     (if e \<noteq> w \<and> buf (unat ((e - 1) mod INPUT_BUF)) \<noteq> of_int NL then kill_to buf w (e - 1) else e)"
  by pat_completeness auto
termination
proof (relation "measure (\<lambda>(buf, w, e). unat (e - w))")
  fix buf :: "nat \<Rightarrow> u8" and w e :: u32
  assume "e \<noteq> w \<and> buf (unat ((e - 1) mod INPUT_BUF)) \<noteq> of_int NL"
  then have ne: "e - w \<noteq> 0" by simp
  have e: "e - 1 - w = e - w - 1" by simp
  have "unat (e - 1 - w) = unat (e - w) - 1" unfolding e by (rule unat_minus_one[OF ne])
  moreover have "0 < unat (e - w)" using ne by (simp only: unat_gt_0 not_False_eq_True)
  ultimately show "((buf, w, e - 1), buf, w, e) \<in> measure (\<lambda>(buf, w, e). unat (e - w))" by simp
qed simp

declare kill_to.simps [simp del]

definition kill_line :: "'a kern_scheme \<Rightarrow> 'a kern_scheme res" where
  "kill_line s =
     (let e = kill_to (in_buf s) (in_w s) (in_e s)
      in foldR (\<lambda>_. consputc BACKSPACE) [0..<unat (in_e s - e)] (s\<lparr>in_e := e\<rparr>))"

definition console_char :: "int \<Rightarrow> 'a kern_scheme \<Rightarrow> 'a kern_scheme res" where
  "console_char c s =
     (if c = CTRL_P then Ok s
      else if c = CTRL_U then kill_line s
      else if c = CTRL_H \<or> c = DEL
      then if in_e s \<noteq> in_w s then consputc BACKSPACE (s\<lparr>in_e := in_e s - 1\<rparr>) else Ok s
      else if c \<noteq> 0 \<and> \<not> input_full s
      then let c = (if c = CR then NL else c); s = input_put (of_int c) s
           in bindR (consputc c s) (\<lambda>s.
              if c = NL \<or> c = CTRL_D \<or> in_e s = in_r s + INPUT_BUF
              then wakeup ChanInput (s\<lparr>in_w := in_e s\<rparr>)
              else Ok s)
      else Ok s)"

text \<open>
  \<^verbatim>\<open>consoleintr\<close> on the characters that \<^verbatim>\<open>getc\<close> delivers before it returns a negative number;
  the process listing that control-P asks for is debugging output and is left out.
\<close>

definition consoleintr :: "int list \<Rightarrow> 'a kern_scheme \<Rightarrow> 'a kern_scheme res" where
  "consoleintr cs s = foldR console_char cs s"

text \<open>
  The loop of \<^verbatim>\<open>consoleread\<close>: \<open>n\<close> bytes are still wanted, \<open>full\<close> tells whether none has been
  delivered yet. The result is the delivered bytes and whether the process must wait for
  more input.
\<close>

fun consoleread_loop :: "nat \<Rightarrow> bool \<Rightarrow> 'a kern_scheme \<Rightarrow> u8 list \<times> bool \<times> 'a kern_scheme" where
  "consoleread_loop 0 full s = ([], False, s)"
| "consoleread_loop (Suc n) full s =
     (if in_r s = in_w s then ([], True, s)
      else let (c, s) = input_get s
        in if c = of_int CTRL_D then ([], False, if full then s else s\<lparr>in_r := in_r s - 1\<rparr>)
           else if c = of_int NL then ([c], False, s)
           else let (cs, w, s) = consoleread_loop n False s in (c # cs, w, s))"

definition consoleread :: "nat \<Rightarrow> nat \<Rightarrow> int \<Rightarrow> 'a kern_scheme \<Rightarrow> (int \<times> u8 list \<times> 'a kern_scheme) res" where
  "consoleread c ip n s =
     bindR (iunlock c (Some ip) s) (\<lambda>s.
     let (cs, wait, s) = consoleread_loop (nat n) True s
     in case myproc c s of
          None \<Rightarrow> Fault
        | Some p \<Rightarrow>
            if wait \<and> \<not> p_killed (procs s p) then Sleeps ChanInput
            else bindR (ilock c (Some ip) s) (\<lambda>s. Ok (if wait then -1 else int (length cs), cs, s)))"

definition consolewrite :: "nat \<Rightarrow> nat \<Rightarrow> u8 list \<Rightarrow> 'a kern_scheme \<Rightarrow> (int \<times> 'a kern_scheme) res" where
  "consolewrite c ip buf s =
     bindR (iunlock c (Some ip) s) (\<lambda>s.
     bindR (foldR (\<lambda>b. consputc (uint b)) buf s) (\<lambda>s.
     bindR (ilock c (Some ip) s) (\<lambda>s. Ok (int (length buf), s))))"

text \<open>The device switch after \<^verbatim>\<open>consoleinit\<close>.\<close>

definition devsw_table :: "nat \<Rightarrow> 'a kern_scheme devsw" where
  "devsw_table d =
     (if d = CONSOLE then \<lparr>dv_read = Some consoleread, dv_write = Some consolewrite\<rparr>
      else \<lparr>dv_read = None, dv_write = None\<rparr>)"

end
