(* ===== verification/Ring.thy ===== *)
theory Ring
  imports Xv6_Prelude
begin

text \<open>
  Circular buffers indexed by free-running 32-bit counters, as pipes and the console input
  use them: slot \<^verbatim>\<open>i % N\<close> holds the byte with number \<^verbatim>\<open>i\<close>, and the counters may wrap around
  because the size \<open>N\<close> divides \<open>2 ^ 32\<close>. The locale states the contract of a bounded queue and
  derives from it what a loop that stores or takes several elements does.
\<close>

section \<open>A bounded queue\<close>

locale bounded_queue =
  fixes qok :: "'q \<Rightarrow> bool" and contents :: "'q \<Rightarrow> 'v list" and cap :: nat
    and full :: "'q \<Rightarrow> bool" and put :: "'v \<Rightarrow> 'q \<Rightarrow> 'q" and get :: "'q \<Rightarrow> 'v \<times> 'q"
  assumes bound: "qok q \<Longrightarrow> length (contents q) \<le> cap"
    and full_iff: "qok q \<Longrightarrow> full q \<longleftrightarrow> length (contents q) = cap"
    and put_law: "qok q \<Longrightarrow> \<not> full q \<Longrightarrow> qok (put v q) \<and> contents (put v q) = contents q @ [v]"
    and get_law: "qok q \<Longrightarrow> contents q = v # vs \<Longrightarrow>
      fst (get q) = v \<and> qok (snd (get q)) \<and> contents (snd (get q)) = vs"
begin

lemma not_full:
  assumes "qok q" and "length (contents q) < cap"
  shows "\<not> full q"
  using assms full_iff by simp

lemma puts_law:
  assumes "qok q" and "length (contents q) + length vs \<le> cap"
  shows "qok (fold put vs q) \<and> contents (fold put vs q) = contents q @ vs"
  using assms
proof (induction vs arbitrary: q)
  case (Cons v vs)
  have "\<not> full q" using Cons.prems by (intro not_full) auto
  with Cons.prems put_law have "qok (put v q)" "contents (put v q) = contents q @ [v]" by auto
  with Cons.IH[of "put v q"] Cons.prems(2) show ?case by simp
qed simp

primrec gets :: "nat \<Rightarrow> 'q \<Rightarrow> 'v list \<times> 'q" where
  "gets 0 q = ([], q)"
| "gets (Suc n) q = (let (v, q) = get q; (vs, q) = gets n q in (v # vs, q))"

lemma gets_law:
  assumes "qok q" and "n \<le> length (contents q)"
  shows "fst (gets n q) = take n (contents q) \<and> qok (snd (gets n q)) \<and>
    contents (snd (gets n q)) = drop n (contents q)"
  using assms
proof (induction n arbitrary: q)
  case (Suc n)
  then obtain v vs where q: "contents q = v # vs" by (cases "contents q") auto
  from get_law[OF Suc.prems(1) this] have g: "fst (get q) = v" "qok (snd (get q))" "contents (snd (get q)) = vs"
    by auto
  have "n \<le> length (contents (snd (get q)))" using Suc.prems(2) q g(3) by simp
  from Suc.IH[OF g(2) this] g q show ?case by (simp add: split_beta Let_def)
qed simp

end

section \<open>Segments of a circular buffer\<close>

definition ring_seg :: "nat \<Rightarrow> (nat \<Rightarrow> 'v) \<Rightarrow> u32 \<Rightarrow> u32 \<Rightarrow> 'v list" where
  "ring_seg k buf a b = map (\<lambda>i. buf ((unat a + i) mod 2 ^ k)) [0..<unat (b - a)]"

lemma length_ring_seg [simp]: "length (ring_seg k buf a b) = unat (b - a)"
  by (simp add: ring_seg_def)

lemma ring_seg_same [simp]: "ring_seg k buf a a = []"
  by (simp add: ring_seg_def)

lemma ring_seg_Nil: "ring_seg k buf a b = [] \<longleftrightarrow> a = b"
  by (metis length_0_conv length_ring_seg right_minus_eq unat_eq_zero)

text \<open>The slot of a counter, reduced before or after the addition.\<close>

lemma unat_mod_pow:
  fixes a :: u32
  assumes "k \<le> 32"
  shows "(unat (a + of_nat i)) mod 2 ^ k = (unat a + i) mod 2 ^ k"
proof -
  have "(2 :: nat) ^ k dvd 2 ^ 32" using assms by (rule le_imp_power_dvd)
  moreover have "unat (a + of_nat i) = (unat a + i) mod 2 ^ 32"
    by (simp add: unat_word_ariths unat_of_nat mod_simps)
  ultimately show ?thesis by (simp add: mod_mod_cancel)
qed

lemma unat_diff_Suc:
  fixes a b :: u32
  assumes "unat (b - a) < 2 ^ 32 - 1"
  shows "unat (b + 1 - a) = Suc (unat (b - a))"
proof -
  have "unat ((b - a) + 1) = Suc (unat (b - a))" using assms by (subst unat_word_ariths) simp
  moreover have "b + 1 - a = (b - a) + 1" by simp
  ultimately show ?thesis by (simp only:)
qed

lemma unat_diff_pred:
  fixes a b :: u32
  assumes "a \<noteq> b"
  shows "unat (b - (a + 1)) = unat (b - a) - 1" and "unat (b - 1 - a) = unat (b - a) - 1" and "0 < unat (b - a)"
proof -
  have n: "b - a \<noteq> 0" using assms by simp
  then have "unat ((b - a) - 1) = unat (b - a) - 1" by (rule unat_minus_one)
  moreover have "b - (a + 1) = (b - a) - 1" and "b - 1 - a = (b - a) - 1" by simp_all
  ultimately show "unat (b - (a + 1)) = unat (b - a) - 1" and "unat (b - 1 - a) = unat (b - a) - 1"
    by (simp_all only:)
  show "0 < unat (b - a)" using n by (simp add: unat_gt_0)
qed

text \<open>The slot of the counter \<open>i\<close> after \<open>b\<close>, counted from an earlier \<open>a\<close>.\<close>

lemma slot_shift:
  fixes a b :: u32
  assumes "k \<le> 32"
  shows "(unat b + i) mod 2 ^ k = (unat a + (unat (b - a) + i)) mod 2 ^ k"
proof -
  have "a + of_nat (unat (b - a)) = b" by simp
  then have "unat b mod 2 ^ k = (unat a + unat (b - a)) mod 2 ^ k"
    using unat_mod_pow[OF assms, of a "unat (b - a)"] by simp
  then show ?thesis by (metis add.assoc mod_add_left_eq)
qed

lemma ring_seg_append:
  assumes "unat (c - a) = unat (b - a) + unat (c - b)" and "k \<le> 32"
  shows "ring_seg k buf a c = ring_seg k buf a b @ ring_seg k buf b c"
  unfolding ring_seg_def assms(1) slot_shift[OF assms(2), of b _ a]
  by (intro nth_equalityI) (auto simp: nth_append)

lemma ring_seg_uncons:
  assumes "a \<noteq> b" and "k \<le> 32"
  shows "ring_seg k buf a b = buf (unat a mod 2 ^ k) # ring_seg k buf (a + 1) b"
proof -
  have "unat (a + 1 - a) = 1" by simp
  then have "ring_seg k buf a b = ring_seg k buf a (a + 1) @ ring_seg k buf (a + 1) b"
    using unat_diff_pred[OF assms(1)] by (intro ring_seg_append[OF _ assms(2)]) simp
  moreover have "ring_seg k buf a (a + 1) = [buf (unat a mod 2 ^ k)]" by (simp add: ring_seg_def)
  ultimately show ?thesis by simp
qed

lemma ring_seg_snoc:
  assumes "unat (b - a) < 2 ^ k" and "k < 32"
  shows "ring_seg k (buf(unat b mod 2 ^ k := v)) a (b + 1) = ring_seg k buf a b @ [v]"
proof -
  let ?n = "unat (b - a)"
  have "(2 :: nat) ^ k \<le> 2 ^ 31" using assms(2) by (intro power_increasing) auto
  then have "unat (b + 1 - a) = Suc ?n" using assms(1) by (intro unat_diff_Suc) simp
  have last: "unat b mod 2 ^ k = (unat a + ?n) mod 2 ^ k"
    using slot_shift[of k b 0 a] assms(2) by simp
  have "(unat a + i) mod 2 ^ k \<noteq> (unat a + ?n) mod 2 ^ k" if "i < ?n" for i
  proof
    assume "(unat a + i) mod 2 ^ k = (unat a + ?n) mod 2 ^ k"
    then have "(2 :: nat) ^ k dvd (unat a + ?n) - (unat a + i)"
      using that by (intro mod_eq_dvd_iff_nat[THEN iffD1]) auto
    then have "(2 :: nat) ^ k dvd ?n - i" by simp
    then have "2 ^ k \<le> ?n - i" using that by (intro dvd_imp_le) auto
    then show False using assms(1) by simp
  qed
  then show ?thesis
    unfolding ring_seg_def using \<open>unat (b + 1 - a) = Suc ?n\<close> last by simp
qed

lemma ring_seg_butlast:
  assumes "a \<noteq> b"
  shows "ring_seg k buf a (b - 1) = butlast (ring_seg k buf a b)"
proof -
  obtain n where n: "unat (b - a) = Suc n" using unat_diff_pred(3)[OF assms] by (cases "unat (b - a)") auto
  then show ?thesis unfolding ring_seg_def using unat_diff_pred(2)[OF assms] by simp
qed

lemma ring_seg_last:
  assumes "a \<noteq> b" and "k \<le> 32"
  shows "ring_seg k buf a b \<noteq> []" and "last (ring_seg k buf a b) = buf (unat (b - 1) mod 2 ^ k)"
proof -
  obtain n where n: "unat (b - a) = Suc n" using unat_diff_pred(3)[OF assms(1)] by (cases "unat (b - a)") auto
  have "unat (b - 1) mod 2 ^ k = (unat a + n) mod 2 ^ k"
    using slot_shift[OF assms(2), of "b - 1" 0 a] unat_diff_pred(2)[OF assms(1)] n by simp
  with n show "ring_seg k buf a b \<noteq> []" "last (ring_seg k buf a b) = buf (unat (b - 1) mod 2 ^ k)"
    by (simp_all add: ring_seg_def)
qed

end
