(* ===== verification/Log_Reserve.thy ===== *)
theory Log_Reserve
  imports Log_Defs
begin

text \<open>
  The reservation of log space. \<^verbatim>\<open>begin_op\<close> admits a system call only if the log has room for
  \<^verbatim>\<open>MAXOPBLOCKS\<close> more blocks for every admitted call. The step relation interleaves the calls
  of any number of system calls; the list counts the blocks that each of them has logged.
\<close>

section \<open>What the cache keeps\<close>

lemma enqueue_more: "enqueue p s = Ok s' \<Longrightarrow> ptable.more s' = ptable.more s"
  by (auto simp: enqueue_def Let_def upd_proc_def split: if_splits option.splits)

lemma wakeup_more:
  assumes "wakeup ch s = Ok s'"
  shows "ptable.more s' = ptable.more s"
proof -
  have one: "ptable.more u = ptable.more t" if "wakeup_one ch p t = Ok u" for ch p and t u :: "'a ptable_scheme"
    using that by (auto simp: wakeup_one_def make_runnable_def upd_proc_def dest!: enqueue_more split: if_splits)
  show ?thesis
    using foldR_frame[where g = ptable.more, OF one] assms by (auto simp: wakeup_def wakeup1_def)
qed

lemma bcache_more_ptable: "ptable.more s' = ptable.more s \<Longrightarrow> bcache.more s' = bcache.more s"
  by (cases s; cases s') simp

lemma upd_buf_more [simp]: "bcache.more (upd_buf b f s) = bcache.more s"
  by (simp add: upd_buf_def)

lemma lock_buf_more: "lock_buf c b s = Ok (b', s') \<Longrightarrow> bcache.more s' = bcache.more s"
  by (auto simp: lock_buf_def res_iff)

lemma bget_more: "bget c d n s = Ok (b, s') \<Longrightarrow> bcache.more s' = bcache.more s"
  by (auto simp: bget_def res_iff dest!: lock_buf_more split: option.splits)

lemma iderw_more: "iderw c b s = Ok s' \<Longrightarrow> bcache.more s' = bcache.more s"
  by (auto simp: iderw_def res_iff Let_def split: if_splits)

lemma bread_more: "bread c d n s = Ok (b, s') \<Longrightarrow> bcache.more s' = bcache.more s"
  by (auto simp: bread_def res_iff dest!: bget_more iderw_more split: if_splits)

lemma bwrite_more: "bwrite c b s = Ok s' \<Longrightarrow> bcache.more s' = bcache.more s"
  by (auto simp: bwrite_def res_iff dest!: iderw_more split: if_splits)

lemma bcache_insert_more: "bcache_insert b s = Ok s' \<Longrightarrow> bcache.more s' = bcache.more s"
  by (auto simp: bcache_insert_def Let_def split: option.splits)

lemma brelse_more: "brelse c b s = Ok s' \<Longrightarrow> bcache.more s' = bcache.more s"
  by (auto simp: brelse_def res_iff bcache_unlink_def releasesleep_def Let_def
      dest!: wakeup_more bcache_insert_more bcache_more_ptable split: if_splits option.splits)

lemma log_of_more:
  assumes "bcache.more s' = bcache.more s"
  shows "lh_n s' = lh_n s" and "l_size s' = l_size s" and "l_outstanding s' = l_outstanding s"
    and "l_committing s' = l_committing s"
  using assms by (cases s; cases s'; simp)+

lemma write_head_log:
  assumes "write_head c s = Ok s'"
  shows "bcache.more s' = bcache.more s"
proof -
  from assms obtain b s1 s2 where "bread c (l_dev s) (l_start s) s = Ok (b, s1)"
    "bwrite c b (upd_buf b (\<lambda>x. x\<lparr>b_data := put_head (lh_n s1) (lh_block s1) (b_data x)\<rparr>) s1) = Ok s2"
    "brelse c b s2 = Ok s'" by (auto simp: write_head_def res_iff)
  from bread_more[OF this(1)] bwrite_more[OF this(2)] brelse_more[OF this(3)] show ?thesis by simp
qed

lemma copy_one_log:
  "install_one c t s = Ok s' \<Longrightarrow> bcache.more s' = bcache.more s"
  "write_log_one c t s = Ok s' \<Longrightarrow> bcache.more s' = bcache.more s"
  by (auto simp: install_one_def write_log_one_def res_iff Let_def dest!: bread_more bwrite_more brelse_more)

lemma commit_log:
  assumes "commit c s = Ok s'" and "0 \<le> lh_n s"
  shows "lh_n s' = 0" and "l_size s' = l_size s" and "l_outstanding s' = l_outstanding s" and "l_committing s' = l_committing s"
proof -
  have "lh_n s' = 0 \<and> l_size s' = l_size s \<and> l_outstanding s' = l_outstanding s \<and> l_committing s' = l_committing s"
  proof (cases "lh_n s > 0")
    case True
    with assms(1) obtain s1 s2 s3 where w: "write_log c s = Ok s1" "write_head c s1 = Ok s2" "install_trans c s2 = Ok s3"
      "write_head c (s3\<lparr>lh_n := 0\<rparr>) = Ok s'" by (auto simp: commit_def res_iff)
    have 1: "bcache.more s1 = bcache.more s"
      by (rule foldR_frame[where g = bcache.more, OF copy_one_log(2) w(1)[unfolded write_log_def]])
    have 2: "bcache.more s3 = bcache.more s2"
      by (rule foldR_frame[where g = bcache.more, OF copy_one_log(1) w(3)[unfolded install_trans_def]])
    show ?thesis
      using log_of_more[OF write_head_log[OF w(4)]] log_of_more[OF 2] log_of_more[OF write_head_log[OF w(2)]]
        log_of_more[OF 1] by simp
  next
    case False
    then show ?thesis using assms by (simp add: commit_def)
  qed
  then show "lh_n s' = 0" "l_size s' = l_size s" "l_outstanding s' = l_outstanding s" "l_committing s' = l_committing s"
    by blast+
qed

section \<open>Interleaved system calls\<close>

inductive log_step :: "nat \<Rightarrow> 'a log_scheme \<times> nat list \<Rightarrow> 'a log_scheme \<times> nat list \<Rightarrow> bool" for c where
  begin_step: "begin_op s = Ok s' \<Longrightarrow> log_step c (s, us) (s', 0 # us)"
| write_step: "log_write b s = Ok s' \<Longrightarrow> us = xs @ u # ys \<Longrightarrow> u < MAXOPBLOCKS \<Longrightarrow>
    log_step c (s, us) (s', xs @ Suc u # ys)"
| end_step: "end_op c s = Ok s' \<Longrightarrow> us = xs @ u # ys \<Longrightarrow> log_step c (s, us) (s', xs @ ys)"
| other_step: "bcache.more s' = bcache.more s \<Longrightarrow> log_step c (s, us) (s', us)"

definition reserved :: "'a log_scheme \<times> nat list \<Rightarrow> bool" where
  "reserved x \<longleftrightarrow> (case x of (s, us) \<Rightarrow>
     \<not> l_committing s \<and> l_outstanding s = int (length us) \<and> (\<forall>u\<in>set us. u \<le> MAXOPBLOCKS) \<and> 0 \<le> lh_n s \<and>
     nat (lh_n s) + (\<Sum>u\<leftarrow>us. MAXOPBLOCKS - u) \<le> LOGSIZE)"

lemma sum_list_le: "(\<Sum>u\<leftarrow>us. MAXOPBLOCKS - u) \<le> length us * MAXOPBLOCKS"
  by (induction us) auto

lemma log_write_log:
  assumes "log_write b s = Ok s'"
  shows "l_committing s' = l_committing s" and "l_outstanding s' = l_outstanding s" and "l_size s' = l_size s"
    and "lh_n s' = lh_n s \<or> lh_n s' = lh_n s + 1"
  using assms by (auto simp: log_write_def Let_def upd_buf_def split: if_splits option.splits)

lemma end_op_log:
  assumes e: "end_op c s = Ok s'" and r: "reserved (s, xs @ u # ys)"
  shows "l_size s' = l_size s" and "l_outstanding s' = l_outstanding s - 1" and "\<not> l_committing s'"
    and "lh_n s' = (if xs @ ys = [] then 0 else lh_n s)"
proof -
  have nc: "\<not> l_committing s" and o: "l_outstanding s = int (length (xs @ u # ys))" and p: "0 \<le> lh_n s"
    using r by (simp_all add: reserved_def)
  let ?s = "s\<lparr>l_outstanding := l_outstanding s - 1\<rparr>"
  have "l_size s' = l_size s \<and> l_outstanding s' = l_outstanding s - 1 \<and> \<not> l_committing s' \<and>
    lh_n s' = (if xs @ ys = [] then 0 else lh_n s)"
  proof (cases "xs @ ys = []")
    case True
    then have "l_outstanding ?s = 0" using o by simp
    with e nc obtain t where t: "commit c (?s\<lparr>l_committing := True\<rparr>) = Ok t"
      "wakeup ChanLog (t\<lparr>l_committing := False\<rparr>) = Ok s'" by (auto simp: end_op_def Let_def res_iff)
    have "bcache.more s' = bcache.more (t\<lparr>l_committing := False\<rparr>)"
      by (rule bcache_more_ptable[OF wakeup_more[OF t(2)]])
    then show ?thesis using log_of_more[of s' "t\<lparr>l_committing := False\<rparr>"] commit_log[OF t(1)] p True by simp
  next
    case False
    then have "0 < length xs + length ys" by (cases xs; cases ys) auto
    moreover have "l_outstanding ?s = int (length xs + length ys)" using o by simp
    ultimately have "l_outstanding ?s \<noteq> 0" by linarith
    with e nc have "wakeup ChanLog ?s = Ok s'" by (simp add: end_op_def Let_def)
    then have "bcache.more s' = bcache.more ?s" by (rule bcache_more_ptable[OF wakeup_more])
    then show ?thesis using log_of_more[of s' ?s] nc False by auto
  qed
  then show "l_size s' = l_size s" "l_outstanding s' = l_outstanding s - 1" "\<not> l_committing s'"
    "lh_n s' = (if xs @ ys = [] then 0 else lh_n s)" by blast+
qed

lemma log_step_reserved:
  assumes "log_step c x y" and "reserved x"
  shows "reserved y \<and> l_size (fst y) = l_size (fst x)"
  using assms
proof cases
  case (begin_step s s' us)
  then have s': "s' = s\<lparr>l_outstanding := l_outstanding s + 1\<rparr>" "lh_n s + (l_outstanding s + 1) * int MAXOPBLOCKS \<le> int LOGSIZE"
    by (auto simp: begin_op_def split: if_splits)
  have p: "0 \<le> lh_n s" "l_outstanding s = int (length us)" using assms(2) begin_step(1) by (simp_all add: reserved_def)
  have "int (nat (lh_n s)) + int ((length us + 1) * MAXOPBLOCKS) \<le> int LOGSIZE" using s'(2) p by (simp add: algebra_simps)
  then have "nat (lh_n s) + (length us + 1) * MAXOPBLOCKS \<le> LOGSIZE" by linarith
  then have "nat (lh_n s) + (MAXOPBLOCKS + (\<Sum>u\<leftarrow>us. MAXOPBLOCKS - u)) \<le> LOGSIZE"
    using sum_list_le[of us] by simp
  then show ?thesis using assms(2) begin_step s'(1) by (simp add: reserved_def)
next
  case (write_step b s s' us xs u ys)
  note W = log_write_log[OF write_step(3)]
  have "nat (lh_n s') \<le> Suc (nat (lh_n s))" "0 \<le> lh_n s'" using W(4) assms(2) write_step(1) by (auto simp: reserved_def)
  moreover have sum: "(\<Sum>u\<leftarrow>xs @ u # ys. MAXOPBLOCKS - u) = Suc (\<Sum>u\<leftarrow>xs @ Suc u # ys. MAXOPBLOCKS - u)"
    using write_step(5) by simp
  moreover have r: "reserved (s, xs @ u # ys)" using assms(2) write_step by simp
  ultimately have "nat (lh_n s') + (\<Sum>u\<leftarrow>xs @ Suc u # ys. MAXOPBLOCKS - u) \<le> LOGSIZE"
    unfolding reserved_def prod.case by linarith
  then show ?thesis using r write_step(1,2,5) W \<open>0 \<le> lh_n s'\<close> unfolding reserved_def prod.case by simp
next
  case (end_step s s' us xs u ys)
  have r: "reserved (s, xs @ u # ys)" using assms(2) end_step by simp
  note E = end_op_log[OF end_step(3) r]
  show ?thesis using r E end_step by (auto simp: reserved_def split: if_splits)
next
  case (other_step s' s us)
  then show ?thesis using assms(2) log_of_more[OF other_step(3)] by (simp add: reserved_def)
qed

end
