(* ===== verification/Bio.thy ===== *)
theory Bio
  imports Bio_Defs
begin

text \<open>
  The invariant of the buffer cache and what its operations do to the disk contents as the
  file system sees them: \<open>view\<close> gives the contents of a block, from the cache if it is there.
  \<open>bio_ok c H s\<close> says that \<open>H\<close> is the set of buffers that the process on processor \<open>c\<close> holds,
  that the LRU list links all buffers, that no block is cached twice, and that an unheld clean
  buffer agrees with the disk.
\<close>

section \<open>Scanning the list\<close>

lemma linked_rev: "linked f g xs \<longleftrightarrow> linked g f (rev xs)"
proof (induction f g xs rule: linked.induct)
  case (1 f g a b xs)
  have "rev (a # b # xs) = rev xs @ b # [a]" by simp
  then show ?case using 1 linked_append[of g f "rev xs" b "[a]"] by (simp add: conj_commute conj_left_commute)
qed simp_all

lemma bscan_linked:
  assumes "linked (\<lambda>i. link (bs i)) g (ys @ [bhead])" and "bhead \<notin> set ys" and "length ys < k"
  shows "bscan k link P (Some (hd (ys @ [bhead]))) bs = Ok (find (\<lambda>i. P (bs i)) ys)"
  using assms
proof (induction ys arbitrary: k)
  case Nil
  then show ?case by (cases k) auto
next
  case (Cons y ys)
  then obtain k' where k: "k = Suc k'" "length ys < k'" by (cases k) auto
  have l: "linked (\<lambda>i. link (bs i)) g (ys @ [bhead])" and n: "link (bs y) = Some (hd (ys @ [bhead]))"
    using Cons.prems(1) by (cases ys; simp)+
  have "bhead \<noteq> y" using Cons.prems(2) by simp
  then show ?case using Cons.IH[OF l _ k(2)] Cons.prems(2) n k(1) by auto
qed

section \<open>The invariant\<close>

abbreviation bnx :: "'a bcache_scheme \<Rightarrow> nat \<Rightarrow> nat option" where
  "bnx s i \<equiv> b_next (bufs s i)"

abbreviation bpv :: "'a bcache_scheme \<Rightarrow> nat \<Rightarrow> nat option" where
  "bpv s i \<equiv> b_prev (bufs s i)"

definition bvalid :: "buf \<Rightarrow> bool" where "bvalid x \<longleftrightarrow> b_flags x AND B_VALID \<noteq> 0"
definition bdirty :: "buf \<Rightarrow> bool" where "bdirty x \<longleftrightarrow> b_flags x AND B_DIRTY \<noteq> 0"

definition bkey :: "buf \<Rightarrow> u32 \<times> u32" where "bkey x = (b_dev x, b_blockno x)"

text \<open>The links form one circle through the sentinel and all buffers.\<close>

definition lru :: "'a bcache_scheme \<Rightarrow> nat list \<Rightarrow> bool" where
  "lru s xs \<longleftrightarrow> cdll (bnx s) (bpv s) (Some bhead) (bhead # xs) \<and> set xs = {..<NBUF}"

text \<open>The buffer of a block of the disk, and the contents of the block.\<close>

definition buffer_of :: "'a bcache_scheme \<Rightarrow> u32 \<Rightarrow> nat option" where
  "buffer_of s n = find_first (\<lambda>i. bkey (bufs s i) = (1, n) \<and> bvalid (bufs s i)) NBUF"

definition view :: "'a bcache_scheme \<Rightarrow> u32 \<Rightarrow> block" where
  "view s n = (case buffer_of s n of Some i \<Rightarrow> b_data (bufs s i) | None \<Rightarrow> disk s n)"

definition unique_keys :: "(nat \<Rightarrow> buf) \<Rightarrow> bool" where
  "unique_keys bs \<longleftrightarrow>
     (\<forall>i<NBUF. \<forall>j<NBUF. b_dev (bs i) \<noteq> 0 \<longrightarrow> bkey (bs i) = bkey (bs j) \<longrightarrow> i = j)"

text \<open>What holds of one buffer; \<open>held\<close> tells whether the process has it locked.\<close>

definition buf_ok :: "u32 \<Rightarrow> (u32 \<Rightarrow> block) \<Rightarrow> u32 \<Rightarrow> bool \<Rightarrow> buf \<Rightarrow> bool" where
  "buf_ok pid d n held x \<longleftrightarrow>
     (sl_locked (b_lock x) \<longleftrightarrow> held) \<and>
     (held \<longrightarrow> sl_pid (b_lock x) = pid \<and> bvalid x) \<and>
     b_refcnt x = (if held then 1 else 0) \<and>
     (bvalid x \<longrightarrow> b_dev x = 1 \<and> b_blockno x < n) \<and>
     (bdirty x \<longrightarrow> bvalid x) \<and>
     (b_dev x = 0 \<or> bvalid x) \<and>
     (\<not> held \<longrightarrow> bvalid x \<longrightarrow> \<not> bdirty x \<longrightarrow> b_data x = d (b_blockno x))"

definition bio_ok :: "nat \<Rightarrow> nat set \<Rightarrow> 'a bcache_scheme \<Rightarrow> bool" where
  "bio_ok c H s \<longleftrightarrow>
     ptable_ok s \<and> (\<exists>xs. lru s xs) \<and> unique_keys (bufs s) \<and> H \<subseteq> {..<NBUF} \<and>
     (\<exists>p. myproc c s = Some p \<and>
        (\<forall>i<NBUF. buf_ok (p_pid (procs s p)) (disk s) (disksize s) (i \<in> H) (bufs s i)))"

text \<open>\<open>pinned\<close> buffers cannot be recycled.\<close>

definition pinned :: "nat set \<Rightarrow> 'a bcache_scheme \<Rightarrow> nat set" where
  "pinned H s = {i. i < NBUF \<and> (i \<in> H \<or> bdirty (bufs s i))}"

lemma upd_buf_simps [simp]:
  "bufs (upd_buf b f s) = (bufs s)(b := f (bufs s b))" "disk (upd_buf b f s) = disk s"
  "disksize (upd_buf b f s) = disksize s" "procs (upd_buf b f s) = procs s"
  "dwrites (upd_buf b f s) = dwrites s" "queue (upd_buf b f s) = queue s" "cpus (upd_buf b f s) = cpus s" "myproc c (upd_buf b f s) = myproc c s"
  by (simp_all add: upd_buf_def myproc_def)

lemma ptable_ok_cong:
  fixes s :: "'a ptable_scheme" and s' :: "'b ptable_scheme"
  assumes "procs s' = procs s" and "queue s' = queue s" and "cpus s' = cpus s"
  shows "ptable_ok s' = ptable_ok s"
  unfolding ptable_ok_def refines_def absr_def queues_def live_ok_def assms by (rule refl)

lemma ptable_ok_upd_buf [simp]: "ptable_ok (upd_buf b f s) = ptable_ok s"
  by (rule ptable_ok_cong) simp_all

lemma holdingsleep_upd_buf [simp]: "holdingsleep c lk (upd_buf b f s) = holdingsleep c lk s"
  by (simp add: holdingsleep_def split: option.splits)

lemma bio_okE:
  assumes "bio_ok c H s"
  obtains xs p where "ptable_ok s" "lru s xs" "unique_keys (bufs s)" "H \<subseteq> {..<NBUF}" "myproc c s = Some p"
    "\<And>i. i < NBUF \<Longrightarrow> buf_ok (p_pid (procs s p)) (disk s) (disksize s) (i \<in> H) (bufs s i)"
  using assms unfolding bio_ok_def by blast

lemma bio_okI:
  assumes "ptable_ok s" "lru s xs" "unique_keys (bufs s)" "H \<subseteq> {..<NBUF}" "myproc c s = Some p"
    "\<And>i. i < NBUF \<Longrightarrow> buf_ok (p_pid (procs s p)) (disk s) (disksize s) (i \<in> H) (bufs s i)"
  shows "bio_ok c H s"
  using assms unfolding bio_ok_def by blast

section \<open>The two scans of \<^verbatim>\<open>bget\<close>\<close>

lemma bhead_bound [simp]: "\<not> bhead < NBUF" "i < NBUF \<Longrightarrow> i \<noteq> bhead"
  by (simp_all add: bhead_def)

lemma lru_facts:
  assumes "lru s xs"
  shows "distinct xs" and "set xs = {..<NBUF}" and "bhead \<notin> set xs" and "length xs = NBUF"
    and "linked (bnx s) (bpv s) (xs @ [bhead])" and "bnx s bhead = Some (hd (xs @ [bhead]))"
    and "linked (bpv s) (bnx s) (rev xs @ [bhead])" and "bpv s bhead = Some (hd (rev xs @ [bhead]))"
proof -
  from assms have c: "cdll (bnx s) (bpv s) (Some bhead) (bhead # xs)" and st: "set xs = {..<NBUF}"
    by (simp_all add: lru_def)
  show d: "distinct xs" using cdll_distinct[OF c] by simp
  show "set xs = {..<NBUF}" by (rule st)
  show "bhead \<notin> set xs" using st by simp
  show "length xs = NBUF" using distinct_card[OF d] st by simp
  have l: "linked (bnx s) (bpv s) (bhead # xs @ [bhead])" using c by (simp add: cdll_def)
  then show "linked (bnx s) (bpv s) (xs @ [bhead])" "bnx s bhead = Some (hd (xs @ [bhead]))"
    by (cases xs; simp)+
  have r: "linked (bpv s) (bnx s) (bhead # rev xs @ [bhead])" using l[unfolded linked_rev[of "bnx s"]] by simp
  then show "linked (bpv s) (bnx s) (rev xs @ [bhead])" "bpv s bhead = Some (hd (rev xs @ [bhead]))"
    by (cases "rev xs"; simp)+
qed

lemma scan_next:
  assumes "lru s xs"
  shows "bscan (NBUF + 1) b_next P (bnx s bhead) (bufs s) = Ok (find (\<lambda>i. P (bufs s i)) xs)"
  using bscan_linked[OF lru_facts(5)[OF assms] lru_facts(3)[OF assms], of "NBUF + 1" P]
    lru_facts(4,6)[OF assms] by simp

lemma scan_prev:
  assumes "lru s xs"
  shows "bscan (NBUF + 1) b_prev P (bpv s bhead) (bufs s) = Ok (find (\<lambda>i. P (bufs s i)) (rev xs))"
  using bscan_linked[OF lru_facts(7)[OF assms], of "NBUF + 1" P]
    lru_facts(3,4,8)[OF assms] by simp

section \<open>Flags\<close>

lemma bvalid_bit: "bvalid x \<longleftrightarrow> bit (b_flags x) 1"
  using and_exp_eq_0_iff_not_bit[of "b_flags x" 1] by (simp add: bvalid_def B_VALID_def)

lemma bdirty_bit: "bdirty x \<longleftrightarrow> bit (b_flags x) 2"
  using and_exp_eq_0_iff_not_bit[of "b_flags x" 2] by (simp add: bdirty_def B_DIRTY_def)

lemma flag_bits: "bit B_VALID n \<longleftrightarrow> n = 1" "bit B_DIRTY n \<longleftrightarrow> n = 2"
proof -
  have e: "B_VALID = 2 ^ 1" "B_DIRTY = 2 ^ 2" by (simp_all add: B_VALID_def B_DIRTY_def)
  show "bit B_VALID n \<longleftrightarrow> n = 1" unfolding e(1) bit_exp_iff by auto
  show "bit B_DIRTY n \<longleftrightarrow> n = 2" unfolding e(2) bit_exp_iff by auto
qed

lemma valid_only: "b_flags x AND (B_VALID OR B_DIRTY) = B_VALID \<longleftrightarrow> bvalid x \<and> \<not> bdirty x"
proof
  assume e: "b_flags x AND (B_VALID OR B_DIRTY) = B_VALID"
  have "bit (b_flags x AND (B_VALID OR B_DIRTY)) 1" "\<not> bit (b_flags x AND (B_VALID OR B_DIRTY)) 2"
    unfolding e by (simp_all add: flag_bits)
  then show "bvalid x \<and> \<not> bdirty x" by (simp add: bvalid_bit bdirty_bit bit_simps flag_bits)
next
  assume "bvalid x \<and> \<not> bdirty x"
  then show "b_flags x AND (B_VALID OR B_DIRTY) = B_VALID"
    by (intro bit_eqI) (auto simp: bvalid_bit bdirty_bit bit_simps flag_bits)
qed

lemma flags_simps:
  "b_flags x AND B_VALID = 0 \<longleftrightarrow> \<not> bvalid x" "b_flags x AND B_DIRTY = 0 \<longleftrightarrow> \<not> bdirty x"
  by (simp_all add: bvalid_def bdirty_def)

lemma flag_updates [simp]:
  "bvalid (x\<lparr>b_flags := f OR B_VALID\<rparr>)" "bdirty (x\<lparr>b_flags := f OR B_VALID\<rparr>) = bit f 2"
  "bdirty (x\<lparr>b_flags := f OR B_DIRTY\<rparr>)" "bvalid (x\<lparr>b_flags := f OR B_DIRTY\<rparr>) = bit f 1"
  "\<not> bdirty (x\<lparr>b_flags := f AND NOT B_DIRTY OR B_VALID\<rparr>)"
  "\<not> bvalid (x\<lparr>b_flags := 0\<rparr>)" "\<not> bdirty (x\<lparr>b_flags := 0\<rparr>)"
  by (auto simp: bvalid_bit bdirty_bit bit_simps flag_bits)

lemma other_updates [simp]:
  "bvalid (x\<lparr>b_lock := l\<rparr>) = bvalid x" "bdirty (x\<lparr>b_lock := l\<rparr>) = bdirty x" "bkey (x\<lparr>b_lock := l\<rparr>) = bkey x"
  "bvalid (x\<lparr>b_data := d\<rparr>) = bvalid x" "bdirty (x\<lparr>b_data := d\<rparr>) = bdirty x" "bkey (x\<lparr>b_data := d\<rparr>) = bkey x"
  "bvalid (x\<lparr>b_refcnt := r\<rparr>) = bvalid x" "bdirty (x\<lparr>b_refcnt := r\<rparr>) = bdirty x" "bkey (x\<lparr>b_refcnt := r\<rparr>) = bkey x"
  "bvalid (x\<lparr>b_next := n\<rparr>) = bvalid x" "bdirty (x\<lparr>b_next := n\<rparr>) = bdirty x" "bkey (x\<lparr>b_next := n\<rparr>) = bkey x"
  "bvalid (x\<lparr>b_prev := n\<rparr>) = bvalid x" "bdirty (x\<lparr>b_prev := n\<rparr>) = bdirty x" "bkey (x\<lparr>b_prev := n\<rparr>) = bkey x"
  "bkey (x\<lparr>b_flags := f\<rparr>) = bkey x"
  by (simp_all add: bvalid_def bdirty_def bkey_def)

section \<open>Getting a buffer\<close>

lemma find_None: "find P xs = None \<longleftrightarrow> (\<forall>x\<in>set xs. \<not> P x)"
  by (induction xs) auto

lemma find_SomeD: "find P xs = Some x \<Longrightarrow> x \<in> set xs \<and> P x"
  by (induction xs) (auto split: if_splits)

lemma buffer_of_Some:
  assumes "unique_keys (bufs s)" and "i < NBUF" and "bkey (bufs s i) = (1, n)" and "bvalid (bufs s i)"
  shows "buffer_of s n = Some i"
proof -
  have "buffer_of s n \<noteq> None" using assms by (auto simp: buffer_of_def find_first_None)
  then obtain j where j: "buffer_of s n = Some j" by blast
  then have "j < NBUF" "bkey (bufs s j) = (1, n)" by (auto simp: buffer_of_def find_first_Some)
  then have "j = i" using assms(1-3) unfolding unique_keys_def bkey_def by (metis fst_conv zero_neq_one)
  with j show ?thesis by simp
qed

lemma buffer_of_None: "(\<And>i. i < NBUF \<Longrightarrow> bkey (bufs s i) \<noteq> (1, n)) \<Longrightarrow> buffer_of s n = None"
  by (auto simp: buffer_of_def find_first_None)

text \<open>The buffer that \<^verbatim>\<open>bread\<close> returns, and how it differs from before.\<close>

definition got :: "u32 \<Rightarrow> u32 \<Rightarrow> block \<Rightarrow> buf \<Rightarrow> buf \<Rightarrow> bool" where
  "got pid n d x x' \<longleftrightarrow>
     b_next x' = b_next x \<and> b_prev x' = b_prev x \<and> bvalid x' \<and> bdirty x' = bdirty x \<and>
     bkey x' = (1, n) \<and> b_lock x' = \<lparr>sl_locked = True, sl_pid = pid\<rparr> \<and> b_refcnt x' = 1 \<and> b_data x' = d"

lemma bread_cases:
  fixes s :: "'a bcache_scheme"
  assumes ok: "bio_ok c H s" and n: "n < disksize s"
    and nh: "\<And>i. i \<in> H \<Longrightarrow> b_blockno (bufs s i) \<noteq> n" and av: "pinned H s \<noteq> {..<NBUF} \<or> buffer_of s n \<noteq> None"
  shows "\<exists>b x p. bread c 1 n s = Ok (b, upd_buf b (\<lambda>_. x) s) \<and> b < NBUF \<and> b \<notin> H \<and> myproc c s = Some p \<and>
     got (p_pid (procs s p)) n (view s n) (bufs s b) x \<and>
     (buffer_of s n = Some b \<or>
      \<not> bdirty (bufs s b) \<and> (\<forall>i<NBUF. bkey (bufs s i) \<noteq> (1, n)))"
proof -
  from ok obtain xs p where l: "lru s xs" and u: "unique_keys (bufs s)" and p: "myproc c s = Some p"
    and bo: "\<And>i. i < NBUF \<Longrightarrow> buf_ok (p_pid (procs s p)) (disk s) (disksize s) (i \<in> H) (bufs s i)"
    by (rule bio_okE) blast
  let ?P = "\<lambda>i. b_dev (bufs s i) = 1 \<and> b_blockno (bufs s i) = n"
  show ?thesis
  proof (cases "find ?P xs")
    case (Some b)
    then have b: "b < NBUF" "bkey (bufs s b) = (1, n)"
      using find_SomeD[OF Some] lru_facts(2)[OF l] by (auto simp: bkey_def)
    then have bH: "b \<notin> H" using nh by (auto simp: bkey_def)
    from bo[OF b(1)] bH b(2) have B: "\<not> sl_locked (b_lock (bufs s b))" "b_refcnt (bufs s b) = 0"
      "bvalid (bufs s b)" by (auto simp: buf_ok_def bkey_def)
    have bu: "buffer_of s n = Some b" by (rule buffer_of_Some[OF u b B(3)])
    let ?x = "(bufs s b)\<lparr>b_refcnt := 1, b_lock := \<lparr>sl_locked = True, sl_pid = p_pid (procs s p)\<rparr>\<rparr>"
    have e: "upd_buf b (\<lambda>x. x\<lparr>b_lock := (b_lock (bufs s b))\<lparr>sl_locked := True, sl_pid := p_pid (procs s p)\<rparr>\<rparr>)
        (upd_buf b (\<lambda>x. x\<lparr>b_refcnt := b_refcnt x + 1\<rparr>) s) = upd_buf b (\<lambda>_. ?x) s"
      using B(2) by (cases "b_lock (bufs s b)") (simp add: upd_buf_def)
    have "bget c 1 n s = Ok (b, upd_buf b (\<lambda>_. ?x) s)"
      unfolding bget_def scan_next[OF l] using Some B(1) p
      by (simp add: lock_buf_def acquiresleep_def e)
    then have "bread c 1 n s = Ok (b, upd_buf b (\<lambda>_. ?x) s)"
      using B(3) by (simp add: bread_def flags_simps)
    moreover have "got (p_pid (procs s p)) n (view s n) (bufs s b) ?x"
      using B(3) b(2) by (simp add: got_def view_def bu)
    ultimately show ?thesis using b(1) bH p bu by blast
  next
    case None
    then have nk: "bkey (bufs s i) \<noteq> (1, n)" if "i < NBUF" for i
      using that lru_facts(2)[OF l] by (auto simp: find_None bkey_def)
    then have bn: "buffer_of s n = None" by (rule buffer_of_None)
    let ?Q = "\<lambda>i. b_refcnt (bufs s i) = 0 \<and> b_flags (bufs s i) AND B_DIRTY = 0"
    from av bn obtain i where i: "i < NBUF" "i \<notin> H" "\<not> bdirty (bufs s i)" by (auto simp: pinned_def)
    have "?Q i" using bo[OF i(1)] i(2,3) by (auto simp: buf_ok_def flags_simps)
    then have "find ?Q (rev xs) \<noteq> None" using i(1) lru_facts(2)[OF l] by (auto simp: find_None)
    then obtain b where fb: "find ?Q (rev xs) = Some b" by blast
    then have b: "b < NBUF" and q: "?Q b" using find_SomeD[OF fb] lru_facts(2)[OF l] by auto
    have bH: "b \<notin> H" and lk: "\<not> sl_locked (b_lock (bufs s b))" and cl: "\<not> bdirty (bufs s b)"
      using bo[OF b] q by (auto simp: buf_ok_def flags_simps split: if_splits)
    let ?lk = "\<lparr>sl_locked = True, sl_pid = p_pid (procs s p)\<rparr>"
    let ?y = "(bufs s b)\<lparr>b_dev := 1, b_blockno := n, b_flags := 0, b_refcnt := 1, b_lock := ?lk\<rparr>"
    let ?x = "?y\<lparr>b_data := disk s n, b_flags := 0 OR B_VALID\<rparr>"
    have e: "upd_buf b (\<lambda>x. x\<lparr>b_lock := (b_lock (bufs s b))\<lparr>sl_locked := True, sl_pid := p_pid (procs s p)\<rparr>\<rparr>)
        (upd_buf b (\<lambda>x. x\<lparr>b_dev := 1, b_blockno := n, b_flags := 0, b_refcnt := 1\<rparr>) s) = upd_buf b (\<lambda>_. ?y) s"
      by (cases "b_lock (bufs s b)") (simp add: upd_buf_def)
    have g: "bget c 1 n s = Ok (b, upd_buf b (\<lambda>_. ?y) s)"
      unfolding bget_def scan_next[OF l] scan_prev[OF l] None fb using lk p
      by (simp add: lock_buf_def acquiresleep_def e)
    have "iderw c b (upd_buf b (\<lambda>_. ?y) s) = Ok (upd_buf b (\<lambda>_. ?x) s)"
      using n p by (simp add: iderw_def holdingsleep_def B_VALID_def Let_def linorder_not_le[symmetric])
        (simp add: upd_buf_def)
    then have "bread c 1 n s = Ok (b, upd_buf b (\<lambda>_. ?x) s)"
      using g by (simp add: bread_def)
    moreover have "got (p_pid (procs s p)) n (view s n) (bufs s b) ?x"
      using cl by (simp add: got_def view_def bn bkey_def bvalid_bit bdirty_bit flag_bits)
    ultimately show ?thesis using b bH p cl nk by blast
  qed
qed

lemma lru_links:
  assumes "lru s xs" and "\<And>i. bnx s' i = bnx s i" and "\<And>i. bpv s' i = bpv s i"
  shows "lru s' xs"
  using assms(1) cdll_frame[of "bnx s" "bpv s" "Some bhead" "bhead # xs" "bnx s'" "bpv s'"] assms(2,3)
  unfolding lru_def by blast

lemma view_upd:
  assumes u: "unique_keys (bufs s)" and u': "unique_keys ((bufs s)(b := x))" and b: "b < NBUF"
  shows "view (upd_buf b (\<lambda>_. x) s) m =
     (if bkey x = (1, m) \<and> bvalid x then b_data x
      else if bkey (bufs s b) = (1, m) \<and> bvalid (bufs s b) then disk s m else view s m)"
proof (cases "bkey x = (1, m) \<and> bvalid x")
  case True
  have "buffer_of (upd_buf b (\<lambda>_. x) s) m = Some b"
    by (rule buffer_of_Some) (use u' b True in simp_all)
  then show ?thesis using True by (simp add: view_def)
next
  case x: False
  show ?thesis
  proof (cases "bkey (bufs s b) = (1, m) \<and> bvalid (bufs s b)")
    case True
    have "bkey (bufs s i) \<noteq> (1, m)" if "i < NBUF" "i \<noteq> b" for i
      using u b that True unfolding unique_keys_def bkey_def by (metis fst_conv zero_neq_one)
    then have "buffer_of (upd_buf b (\<lambda>_. x) s) m = None"
      using x by (auto simp: buffer_of_def find_first_None)
    then show ?thesis using x True by (auto simp: view_def)
  next
    case False
    have "buffer_of (upd_buf b (\<lambda>_. x) s) m = buffer_of s m"
      unfolding buffer_of_def using x False by (intro arg_cong2[of _ _ _ _ find_first] ext) auto
    moreover have "buffer_of s m \<noteq> Some b" using False by (auto simp: buffer_of_def find_first_Some)
    ultimately show ?thesis using x False by (auto simp: view_def split: option.splits)
  qed
qed

lemma bio_ok_upd:
  fixes s :: "'a bcache_scheme"
  assumes ok: "bio_ok c H s" and b: "b < NBUF" and p: "myproc c s = Some p"
    and l: "b_next x = bnx s b" "b_prev x = bpv s b" and u: "unique_keys ((bufs s)(b := x))"
    and x: "buf_ok (p_pid (procs s p)) (disk s) (disksize s) (b \<in> H') x"
    and H': "\<And>i. i \<noteq> b \<Longrightarrow> i \<in> H' \<longleftrightarrow> i \<in> H"
  shows "bio_ok c H' (upd_buf b (\<lambda>_. x) s)"
proof -
  from ok obtain xs where L: "ptable_ok s" "lru s xs" "H \<subseteq> {..<NBUF}"
    and bo: "\<And>i. i < NBUF \<Longrightarrow> buf_ok (p_pid (procs s p)) (disk s) (disksize s) (i \<in> H) (bufs s i)"
    using p by (elim bio_okE) simp
  show ?thesis
  proof (rule bio_okI)
    show "ptable_ok (upd_buf b (\<lambda>_. x) s)" using L(1) by simp
    show "lru (upd_buf b (\<lambda>_. x) s) xs" by (rule lru_links[OF L(2)]) (use l in auto)
    show "unique_keys (bufs (upd_buf b (\<lambda>_. x) s))" using u by simp
    show "H' \<subseteq> {..<NBUF}"
    proof
      fix i assume "i \<in> H'"
      then show "i \<in> {..<NBUF}" using H'[of i] L(3) b by (cases "i = b") auto
    qed
    show "myproc c (upd_buf b (\<lambda>_. x) s) = Some p" using p by simp
    show "buf_ok (p_pid (procs (upd_buf b (\<lambda>_. x) s) p)) (disk (upd_buf b (\<lambda>_. x) s))
        (disksize (upd_buf b (\<lambda>_. x) s)) (i \<in> H') (bufs (upd_buf b (\<lambda>_. x) s) i)" if "i < NBUF" for i
      using bo[OF that] x H'[of i] by (cases "i = b") auto
  qed
qed

lemma unique_keys_cong:
  assumes "\<And>i. bkey (bs' i) = bkey (bs i)"
  shows "unique_keys bs' = unique_keys bs"
proof -
  have "b_dev (bs' i) = b_dev (bs i)" for i using assms[of i] by (simp add: bkey_def)
  then show ?thesis unfolding unique_keys_def assms by simp
qed

lemma unique_upd:
  assumes u: "unique_keys bs" and b: "b < NBUF"
    and k: "bkey x = bkey (bs b) \<or> (\<forall>i<NBUF. bkey (bs i) \<noteq> bkey x)"
  shows "unique_keys (bs(b := x))"
  unfolding unique_keys_def
proof (intro allI impI)
  fix i j assume a: "i < NBUF" "j < NBUF" "b_dev ((bs(b := x)) i) \<noteq> 0"
    "bkey ((bs(b := x)) i) = bkey ((bs(b := x)) j)"
  have dev: "b_dev y = b_dev z" if "bkey y = bkey z" for y z using that by (simp add: bkey_def)
  show "i = j"
  proof (cases "bkey x = bkey (bs b)")
    case True
    then have "bkey ((bs(b := x)) l) = bkey (bs l)" for l by simp
    then show ?thesis using a u dev[of "(bs(b := x)) i" "bs i"] unfolding unique_keys_def by metis
  next
    case False
    with k have k: "\<And>i. i < NBUF \<Longrightarrow> bkey (bs i) \<noteq> bkey x" by blast
    show ?thesis
    proof (cases "i = b \<or> j = b")
      case True
      then show ?thesis using a k[of i] k[of j] by (auto split: if_splits)
    next
      case False
      then show ?thesis using a u unfolding unique_keys_def by auto
    qed
  qed
qed

text \<open>Reading a block: the buffer holds its contents, and nothing visible changes.\<close>

lemma bread_ok:
  fixes s :: "'a bcache_scheme"
  assumes ok: "bio_ok c H s" and n: "n < disksize s"
    and nh: "\<And>i. i \<in> H \<Longrightarrow> b_blockno (bufs s i) \<noteq> n" and av: "pinned H s \<noteq> {..<NBUF} \<or> buffer_of s n \<noteq> None"
  shows "\<exists>b x. bread c 1 n s = Ok (b, upd_buf b (\<lambda>_. x) s) \<and> b < NBUF \<and> b \<notin> H \<and>
     bio_ok c (insert b H) (upd_buf b (\<lambda>_. x) s) \<and> bkey x = (1, n) \<and> b_data x = view s n \<and>
     bdirty x = bdirty (bufs s b) \<and> view (upd_buf b (\<lambda>_. x) s) = view s \<and> (bdirty x \<or> view s n = disk s n)"
proof -
  from bread_cases[OF ok n nh av] obtain b x p where
    1: "bread c 1 n s = Ok (b, upd_buf b (\<lambda>_. x) s)" "b < NBUF" "b \<notin> H" "myproc c s = Some p"
    and g: "got (p_pid (procs s p)) n (view s n) (bufs s b) x"
    and cs: "buffer_of s n = Some b \<or> \<not> bdirty (bufs s b) \<and> (\<forall>i<NBUF. bkey (bufs s i) \<noteq> (1, n))"
    by blast
  from ok obtain xs where u: "unique_keys (bufs s)"
    and bo: "\<And>i. i < NBUF \<Longrightarrow> buf_ok (p_pid (procs s p)) (disk s) (disksize s) (i \<in> H) (bufs s i)"
    using 1(4) by (elim bio_okE) simp
  have kx: "bkey x = (1, n)" "bvalid x" "b_data x = view s n" "bdirty x = bdirty (bufs s b)"
    using g by (simp_all add: got_def)
  have old: "bkey (bufs s b) = (1, n)" if "buffer_of s n = Some b"
    using that by (auto simp: buffer_of_def find_first_Some)
  have u': "unique_keys ((bufs s)(b := x))"
    by (rule unique_upd[OF u 1(2)]) (use cs old kx in auto)
  have coh: "view s m = disk s m" if "bkey (bufs s b) = (1, m)" "bvalid (bufs s b)" "\<not> bdirty (bufs s b)" for m
    using buffer_of_Some[OF u 1(2) that(1,2)] bo[OF 1(2)] 1(3) that by (auto simp: view_def buf_ok_def bkey_def)
  have v: "view (upd_buf b (\<lambda>_. x) s) = view s"
  proof
    fix m
    show "view (upd_buf b (\<lambda>_. x) s) m = view s m"
      using view_upd[OF u u' 1(2), of m] kx cs coh[of m] old by (auto split: if_splits)
  qed
  have dn: "bdirty x \<or> view s n = disk s n"
  proof (cases "buffer_of s n = Some b")
    case True
    then have "bkey (bufs s b) = (1, n)" "bvalid (bufs s b)" by (auto simp: buffer_of_def find_first_Some)
    then show ?thesis using coh[of n] kx(4) by blast
  next
    case False
    then have "buffer_of s n = None" using cs by (intro buffer_of_None) auto
    then show ?thesis by (simp add: view_def)
  qed
  have "bio_ok c (insert b H) (upd_buf b (\<lambda>_. x) s)"
  proof (rule bio_ok_upd[OF ok 1(2,4) _ _ u'])
    show "b_next x = bnx s b" "b_prev x = bpv s b" using g by (simp_all add: got_def)
    have "b_dev x = 1" "b_blockno x < disksize s" using kx(1) n by (simp_all add: bkey_def)
    then show "buf_ok (p_pid (procs s p)) (disk s) (disksize s) (b \<in> insert b H) x"
      using g by (simp add: buf_ok_def got_def)
  qed auto
  then show ?thesis using 1(1-3) kx v dn by blast
qed

section \<open>Moving a buffer to the front\<close>

definition links_only :: "'a bcache_scheme \<Rightarrow> 'a bcache_scheme \<Rightarrow> bool" where
  "links_only s u \<longleftrightarrow>
     u = s\<lparr>bufs := bufs u\<rparr> \<and> (\<forall>i. \<exists>n p. bufs u i = (bufs s i)\<lparr>b_prev := p, b_next := n\<rparr>)"

lemma links_only_refl: "links_only s s"
  unfolding links_only_def
proof (intro conjI allI)
  fix i
  show "\<exists>n p. bufs s i = (bufs s i)\<lparr>b_prev := p, b_next := n\<rparr>"
    by (rule exI[of _ "bnx s i"], rule exI[of _ "bpv s i"]) simp
qed simp

lemma links_only_upd:
  assumes "links_only s u" and "\<exists>n p. f (bufs u b) = (bufs u b)\<lparr>b_prev := p, b_next := n\<rparr>"
  shows "links_only s (upd_buf b f u)"
proof -
  have e: "u = s\<lparr>bufs := bufs u\<rparr>" using assms(1) by (simp add: links_only_def)
  have "upd_buf b f u = s\<lparr>bufs := bufs (upd_buf b f u)\<rparr>" by (subst e) (simp add: upd_buf_def)
  moreover have "\<exists>n p. bufs (upd_buf b f u) i = (bufs s i)\<lparr>b_prev := p, b_next := n\<rparr>" for i
  proof (cases "i = b")
    case True
    from assms obtain n p n' p' where "bufs u b = (bufs s b)\<lparr>b_prev := p, b_next := n\<rparr>"
      "f (bufs u b) = (bufs u b)\<lparr>b_prev := p', b_next := n'\<rparr>" unfolding links_only_def by blast
    then show ?thesis using True by auto
  next
    case False
    then show ?thesis using assms(1) unfolding links_only_def by auto
  qed
  ultimately show ?thesis unfolding links_only_def by blast
qed

lemma blink_updates:
  fixes x :: buf
  shows "\<exists>n p. x\<lparr>b_next := a\<rparr> = x\<lparr>b_prev := p, b_next := n\<rparr>"
    and "\<exists>n p. x\<lparr>b_prev := a\<rparr> = x\<lparr>b_prev := p, b_next := n\<rparr>"
    and "\<exists>n p. x\<lparr>b_next := a, b_prev := b\<rparr> = x\<lparr>b_prev := p, b_next := n\<rparr>"
  by (cases x, simp)+

lemma links_only_trans:
  assumes "links_only s t" and "links_only t u"
  shows "links_only s u"
proof -
  have e: "t = s\<lparr>bufs := bufs t\<rparr>" "u = t\<lparr>bufs := bufs u\<rparr>" using assms by (simp_all add: links_only_def)
  have "u = s\<lparr>bufs := bufs u\<rparr>" using e(2) by (subst e(1)[symmetric] e(2), subst e(1)) simp
  moreover have "\<exists>n p. bufs u i = (bufs s i)\<lparr>b_prev := p, b_next := n\<rparr>" for i
  proof -
    from assms obtain n p n' p' where "bufs t i = (bufs s i)\<lparr>b_prev := p, b_next := n\<rparr>"
      "bufs u i = (bufs t i)\<lparr>b_prev := p', b_next := n'\<rparr>" unfolding links_only_def by blast
    then show ?thesis by auto
  qed
  ultimately show ?thesis unfolding links_only_def by blast
qed

lemma bcache_insert_ok:
  assumes c: "cdll (bnx t) (bpv t) (Some bhead) (bhead # ys)" and b: "b \<notin> set (bhead # ys)"
  shows "\<exists>u. bcache_insert b t = Ok u \<and> cdll (bnx u) (bpv u) (Some bhead) (bhead # b # ys) \<and> links_only t u"
proof -
  let ?n = "hd (ys @ [bhead])"
  have l: "linked (bnx t) (bpv t) (bhead # ys @ [bhead])" using c by (simp add: cdll_def)
  then have n: "bnx t bhead = Some ?n" by (cases ys) auto
  have nb: "?n \<noteq> b" using b by (cases ys) auto
  let ?u1 = "upd_buf b (\<lambda>x. x\<lparr>b_next := Some ?n, b_prev := Some bhead\<rparr>) t"
  let ?u2 = "upd_buf ?n (\<lambda>x. x\<lparr>b_prev := Some b\<rparr>) ?u1"
  let ?u = "upd_buf bhead (\<lambda>x. x\<lparr>b_next := Some b\<rparr>) ?u2"
  have u: "bcache_insert b t = Ok ?u" by (simp add: bcache_insert_def n Let_def)
  have "cdll (bnx t) (bpv t) (Some (hd ([bhead] @ ys))) ([bhead] @ ys)" using c by simp
  from cdll_rotate[OF this] have r: "cdll (bnx t) (bpv t) (Some ?n) (ys @ [bhead])" by simp
  from cdll_append[OF r] b have
    "cdll ((bnx t)(bhead := Some b, b := Some ?n)) ((bpv t)(b := Some bhead, ?n := Some b)) (Some ?n) ((ys @ [bhead]) @ [b])"
    by simp
  then have "cdll ((bnx t)(bhead := Some b, b := Some ?n)) ((bpv t)(b := Some bhead, ?n := Some b))
      (Some (hd (ys @ [bhead, b]))) (ys @ [bhead, b])" by (cases ys) auto
  from cdll_rotate[OF this] have
    "cdll ((bnx t)(bhead := Some b, b := Some ?n)) ((bpv t)(b := Some bhead, ?n := Some b)) (Some bhead) (bhead # b # ys)"
    by simp
  moreover have "bnx ?u = (bnx t)(bhead := Some b, b := Some ?n)" "bpv ?u = (bpv t)(b := Some bhead, ?n := Some b)"
    using nb b by (auto simp: fun_eq_iff)
  ultimately have "cdll (bnx ?u) (bpv ?u) (Some bhead) (bhead # b # ys)" by simp
  moreover have "links_only t ?u"
    by (intro links_only_upd links_only_refl blink_updates)
  ultimately show ?thesis using u by blast
qed

lemma bcache_unlink_ok:
  assumes c: "cdll (bnx s) (bpv s) (Some bhead) (bhead # us @ b # vs)"
  shows "\<exists>t. bcache_unlink b s = Ok t \<and> cdll (bnx t) (bpv t) (Some bhead) (bhead # us @ vs) \<and> links_only s t"
proof -
  from cdll_links_in[OF c, of b] obtain n p where n: "bnx s b = Some n" and p: "bpv s b = Some p" by auto
  have d: "distinct (bhead # us @ b # vs)" by (rule cdll_distinct[OF c])
  let ?t1 = "upd_buf n (\<lambda>x. x\<lparr>b_prev := Some p\<rparr>) s"
  let ?t = "upd_buf p (\<lambda>x. x\<lparr>b_next := Some n\<rparr>) ?t1"
  have t: "bcache_unlink b s = Ok ?t" by (simp add: bcache_unlink_def n p Let_def)
  have "cdll ((bnx s)(p := Some n, b := None)) ((bpv s)(n := Some p, b := None))
      (if Some bhead = Some b then Some n else Some bhead) ((bhead # us) @ vs)"
    by (rule cdll_remove[of "bnx s" "bpv s"]) (use c n p in simp_all)
  moreover have "Some bhead \<noteq> Some b" using d by auto
  ultimately have r: "cdll ((bnx s)(p := Some n, b := None)) ((bpv s)(n := Some p, b := None)) (Some bhead) (bhead # us @ vs)"
    by simp
  have "cdll (bnx ?t) (bpv ?t) (Some bhead) (bhead # us @ vs)"
    by (rule cdll_frame[OF r]) (use d in auto)
  moreover have "links_only s ?t" by (intro links_only_upd links_only_refl blink_updates)
  ultimately show ?thesis using t by blast
qed

lemma lru_front:
  assumes l: "lru s xs" and b: "b < NBUF"
  shows "\<exists>u. bindR (bcache_unlink b s) (bcache_insert b) = Ok u \<and> lru u (b # remove1 b xs) \<and> links_only s u"
proof -
  have c: "cdll (bnx s) (bpv s) (Some bhead) (bhead # xs)" using l by (simp add: lru_def)
  from b lru_facts(2)[OF l] obtain us vs where xs: "xs = us @ b # vs" by (metis lessThan_iff split_list)
  from bcache_unlink_ok[OF c[unfolded xs]] obtain t where
    1: "bcache_unlink b s = Ok t" "cdll (bnx t) (bpv t) (Some bhead) (bhead # us @ vs)" "links_only s t" by blast
  have d: "distinct (us @ b # vs)" using lru_facts(1)[OF l] xs by simp
  have "b \<notin> set (bhead # us @ vs)" using d b by auto
  from bcache_insert_ok[OF 1(2) this] obtain u where
    2: "bcache_insert b t = Ok u" "cdll (bnx u) (bpv u) (Some bhead) (bhead # b # us @ vs)" "links_only t u" by blast
  have "remove1 b xs = us @ vs" using d by (simp add: xs remove1_append)
  moreover have "set (b # us @ vs) = {..<NBUF}" using lru_facts(2)[OF l] xs by auto
  ultimately show ?thesis using 1 2 links_only_trans[OF 1(3) 2(3)] by (auto simp: lru_def)
qed

section \<open>Writing and releasing a buffer\<close>

lemma held_facts:
  assumes "bio_ok c H s" and "b \<in> H"
  shows "b < NBUF" and "bvalid (bufs s b)" and "b_dev (bufs s b) = 1" and "b_blockno (bufs s b) < disksize s"
    and "bkey (bufs s b) = (1, b_blockno (bufs s b))" and "holdingsleep c (b_lock (bufs s b)) s = Ok True"
    and "b_refcnt (bufs s b) = 1"
  using assms by (auto elim!: bio_okE simp: buf_ok_def holdingsleep_def bkey_def subset_iff)

lemma bio_ok_unique: "bio_ok c H s \<Longrightarrow> unique_keys (bufs s)"
  by (simp add: bio_ok_def)

lemma view_held:
  assumes "bio_ok c H s" and "b \<in> H"
  shows "view s (b_blockno (bufs s b)) = b_data (bufs s b)"
  using buffer_of_Some[OF bio_ok_unique[OF assms(1)] held_facts(1,5,2)[OF assms]] by (simp add: view_def)

text \<open>Changing the contents or the dirty flag of a held buffer.\<close>

lemma held_upd:
  fixes s :: "'a bcache_scheme"
  assumes ok: "bio_ok c H s" and b: "b \<in> H" and k: "bkey x = bkey (bufs s b)" and v: "bvalid x"
    and l: "b_next x = bnx s b" "b_prev x = bpv s b" "b_lock x = b_lock (bufs s b)" "b_refcnt x = b_refcnt (bufs s b)"
  shows "bio_ok c H (upd_buf b (\<lambda>_. x) s)"
    and "view (upd_buf b (\<lambda>_. x) s) = (view s)(b_blockno (bufs s b) := b_data x)"
proof -
  note B = held_facts[OF ok b]
  from ok obtain p where p: "myproc c s = Some p" and u: "unique_keys (bufs s)"
    and bo: "\<And>i. i < NBUF \<Longrightarrow> buf_ok (p_pid (procs s p)) (disk s) (disksize s) (i \<in> H) (bufs s i)"
    by (rule bio_okE) blast
  have u': "unique_keys ((bufs s)(b := x))" by (rule unique_upd[OF u B(1)]) (use k in simp)
  have dx: "b_dev x = b_dev (bufs s b)" "b_blockno x = b_blockno (bufs s b)" using k by (simp_all add: bkey_def)
  show "bio_ok c H (upd_buf b (\<lambda>_. x) s)"
    by (rule bio_ok_upd[OF ok B(1) p l(1,2) u'])
      (use bo[OF B(1)] b v l(3,4) dx in \<open>simp_all add: buf_ok_def\<close>)
  show "view (upd_buf b (\<lambda>_. x) s) = (view s)(b_blockno (bufs s b) := b_data x)"
  proof
    fix m
    have "bkey x = (1, m) \<longleftrightarrow> m = b_blockno (bufs s b)" using k B(5) by auto
    then show "view (upd_buf b (\<lambda>_. x) s) m = ((view s)(b_blockno (bufs s b) := b_data x)) m"
      using view_upd[OF u u' B(1), of m] v k by auto
  qed
qed

lemma held_data:
  assumes "bio_ok c H s" and "b \<in> H"
  shows "bio_ok c H (upd_buf b (\<lambda>x. x\<lparr>b_data := f x\<rparr>) s)"
    and "view (upd_buf b (\<lambda>x. x\<lparr>b_data := f x\<rparr>) s) = (view s)(b_blockno (bufs s b) := f (bufs s b))"
proof -
  have e: "upd_buf b (\<lambda>x. x\<lparr>b_data := f x\<rparr>) s = upd_buf b (\<lambda>_. (bufs s b)\<lparr>b_data := f (bufs s b)\<rparr>) s"
    by (simp add: upd_buf_def)
  show "bio_ok c H (upd_buf b (\<lambda>x. x\<lparr>b_data := f x\<rparr>) s)"
    "view (upd_buf b (\<lambda>x. x\<lparr>b_data := f x\<rparr>) s) = (view s)(b_blockno (bufs s b) := f (bufs s b))"
    unfolding e using held_upd[OF assms, of "(bufs s b)\<lparr>b_data := f (bufs s b)\<rparr>"] held_facts(2)[OF assms]
    by simp_all
qed

lemma held_dirty:
  assumes "bio_ok c H s" and "b \<in> H"
  shows "bio_ok c H (upd_buf b (\<lambda>x. x\<lparr>b_flags := b_flags x OR B_DIRTY\<rparr>) s)"
    and "view (upd_buf b (\<lambda>x. x\<lparr>b_flags := b_flags x OR B_DIRTY\<rparr>) s) = view s"
proof -
  let ?x = "(bufs s b)\<lparr>b_flags := b_flags (bufs s b) OR B_DIRTY\<rparr>"
  have e: "upd_buf b (\<lambda>x. x\<lparr>b_flags := b_flags x OR B_DIRTY\<rparr>) s = upd_buf b (\<lambda>_. ?x) s"
    by (simp add: upd_buf_def)
  have v: "bvalid ?x" using held_facts(2)[OF assms] by (simp add: bvalid_bit bit_simps)
  show "bio_ok c H (upd_buf b (\<lambda>x. x\<lparr>b_flags := b_flags x OR B_DIRTY\<rparr>) s)"
    "view (upd_buf b (\<lambda>x. x\<lparr>b_flags := b_flags x OR B_DIRTY\<rparr>) s) = view s"
    unfolding e using held_upd[OF assms _ v] view_held[OF assms] by (simp_all add: fun_upd_idem)
qed

text \<open>\<^verbatim>\<open>bwrite\<close> makes the disk agree with the buffer.\<close>

lemma bwrite_ok:
  fixes s :: "'a bcache_scheme"
  assumes ok: "bio_ok c H s" and b: "b \<in> H"
  shows "\<exists>x. bwrite c b s = Ok ((upd_buf b (\<lambda>_. x) s)\<lparr>disk := (disk s)(b_blockno (bufs s b) := b_data (bufs s b)),
       dwrites := dwrites s @ [(b_blockno (bufs s b), b_data (bufs s b))]\<rparr>) \<and>
     bkey x = bkey (bufs s b) \<and> b_data x = b_data (bufs s b) \<and> \<not> bdirty x \<and>
     bio_ok c H ((upd_buf b (\<lambda>_. x) s)\<lparr>disk := (disk s)(b_blockno (bufs s b) := b_data (bufs s b)),
       dwrites := dwrites s @ [(b_blockno (bufs s b), b_data (bufs s b))]\<rparr>) \<and>
     view ((upd_buf b (\<lambda>_. x) s)\<lparr>disk := (disk s)(b_blockno (bufs s b) := b_data (bufs s b)),
       dwrites := dwrites s @ [(b_blockno (bufs s b), b_data (bufs s b))]\<rparr>) = view s"
proof -
  note B = held_facts[OF ok b]
  from ok obtain xs p where P: "ptable_ok s" "lru s xs" "unique_keys (bufs s)" "H \<subseteq> {..<NBUF}" "myproc c s = Some p"
    and bo: "\<And>i. i < NBUF \<Longrightarrow> buf_ok (p_pid (procs s p)) (disk s) (disksize s) (i \<in> H) (bufs s i)"
    by (rule bio_okE) blast
  let ?n = "b_blockno (bufs s b)"
  let ?y = "(bufs s b)\<lparr>b_flags := b_flags (bufs s b) OR B_DIRTY\<rparr>"
  let ?x = "(bufs s b)\<lparr>b_flags := (b_flags (bufs s b) OR B_DIRTY) AND NOT B_DIRTY OR B_VALID\<rparr>"
  let ?s = "(upd_buf b (\<lambda>_. ?x) s)\<lparr>disk := (disk s)(?n := b_data (bufs s b)),
       dwrites := dwrites s @ [(?n, b_data (bufs s b))]\<rparr>"
  have dy: "bdirty ?y" by simp
  have fl: "b_flags ?y AND B_DIRTY \<noteq> 0" "b_flags ?y AND (B_VALID OR B_DIRTY) \<noteq> B_VALID"
    using dy valid_only[of ?y] unfolding bdirty_def by blast+
  have w: "bwrite c b s = Ok ?s"
    using B(3,4,6) fl unfolding bwrite_def iderw_def
    by (simp add: Let_def linorder_not_le[symmetric]) (simp add: upd_buf_def)
  have x: "bkey ?x = bkey (bufs s b)" "bvalid ?x" "\<not> bdirty ?x" by (simp_all add: bit_simps flag_bits)
  have other: "b_blockno (bufs s i) \<noteq> ?n" if "i < NBUF" "i \<noteq> b" "b_dev (bufs s i) = 1" for i
    using P(3) that B(1,3) unfolding unique_keys_def bkey_def by force
  have "bio_ok c H ?s"
  proof (rule bio_okI)
    show "ptable_ok ?s" using P(1) ptable_ok_cong[of ?s s] by simp
    show "lru ?s xs" by (rule lru_links[OF P(2)]) auto
    show "unique_keys (bufs ?s)" using unique_upd[OF P(3) B(1), of ?x] x(1) by simp
    show "H \<subseteq> {..<NBUF}" "myproc c ?s = Some p" using P(4,5) by (simp_all add: myproc_def)
    show "buf_ok (p_pid (procs ?s p)) (disk ?s) (disksize ?s) (i \<in> H) (bufs ?s i)" if "i < NBUF" for i
      using bo[OF that] other[OF that] x b by (cases "i = b") (auto simp: buf_ok_def)
  qed
  moreover have "view ?s = view s"
  proof
    fix m
    have bo': "buffer_of ?s m = buffer_of s m"
      unfolding buffer_of_def using x B(2) by (intro arg_cong2[of _ _ _ _ find_first] ext) auto
    show "view ?s m = view s m"
      using buffer_of_Some[OF P(3) B(1,5,2)] by (auto simp: view_def bo' split: option.splits)
  qed
  ultimately show ?thesis using w x by (intro exI[of _ ?x]) simp
qed

text \<open>What operations of the cache may change besides the states of processes.\<close>

definition bio_frame :: "'a bcache_scheme \<Rightarrow> 'a bcache_scheme \<Rightarrow> bool" where
  "bio_frame s s' \<longleftrightarrow>
     s' = s\<lparr>procs := procs s', queue := queue s', bufs := bufs s', disk := disk s', dwrites := dwrites s'\<rparr> \<and>
     static s' = static s"

lemma links_only_fields:
  assumes "links_only s u"
  shows "bkey (bufs u i) = bkey (bufs s i)" and "b_data (bufs u i) = b_data (bufs s i)"
    and "b_flags (bufs u i) = b_flags (bufs s i)" and "b_lock (bufs u i) = b_lock (bufs s i)"
    and "b_refcnt (bufs u i) = b_refcnt (bufs s i)" and "bvalid (bufs u i) = bvalid (bufs s i)"
    and "bdirty (bufs u i) = bdirty (bufs s i)" and "b_dev (bufs u i) = b_dev (bufs s i)"
    and "b_blockno (bufs u i) = b_blockno (bufs s i)"
    and "procs u = procs s" and "queue u = queue s" and "cpus u = cpus s" and "disk u = disk s"
    and "disksize u = disksize s" and "dwrites u = dwrites s"
proof -
  have e: "u = s\<lparr>bufs := bufs u\<rparr>" using assms by (simp add: links_only_def)
  show "procs u = procs s" "queue u = queue s" "cpus u = cpus s" "disk u = disk s" "disksize u = disksize s"
    "dwrites u = dwrites s" by (subst e, simp)+
  from assms obtain n p where "bufs u i = (bufs s i)\<lparr>b_prev := p, b_next := n\<rparr>"
    unfolding links_only_def by blast
  then show "bkey (bufs u i) = bkey (bufs s i)" "b_data (bufs u i) = b_data (bufs s i)"
    "b_flags (bufs u i) = b_flags (bufs s i)" "b_lock (bufs u i) = b_lock (bufs s i)"
    "b_refcnt (bufs u i) = b_refcnt (bufs s i)" "bvalid (bufs u i) = bvalid (bufs s i)"
    "bdirty (bufs u i) = bdirty (bufs s i)" "b_dev (bufs u i) = b_dev (bufs s i)"
    "b_blockno (bufs u i) = b_blockno (bufs s i)" by simp_all
qed

lemma view_cong:
  assumes "\<And>i. i < NBUF \<Longrightarrow> bkey (bufs s' i) = bkey (bufs s i) \<and> bvalid (bufs s' i) = bvalid (bufs s i) \<and>
      b_data (bufs s' i) = b_data (bufs s i)" and "disk s' = disk s"
  shows "view s' = view s"
proof
  fix m
  have "buffer_of s' m = buffer_of s m"
    unfolding buffer_of_def by (rule find_first_cong) (use assms(1) in auto)
  moreover have "i < NBUF" if "buffer_of s m = Some i" for i
    using that by (auto simp: buffer_of_def find_first_Some)
  ultimately show "view s' m = view s m"
    using assms by (cases "buffer_of s m") (auto simp: view_def)
qed

lemma woken_fields:
  fixes s s' :: "'a bcache_scheme"
  assumes "woken s s'"
  shows "bufs s' = bufs s" and "disk s' = disk s" and "disksize s' = disksize s"
    and "s' = s\<lparr>procs := procs s', queue := queue s'\<rparr>" and "static s' = static s"
    and "dwrites s' = dwrites s"
proof -
  show e: "s' = s\<lparr>procs := procs s', queue := queue s'\<rparr>" and "static s' = static s"
    using assms by (simp_all add: woken_def)
  show "bufs s' = bufs s" "disk s' = disk s" "disksize s' = disksize s" "dwrites s' = dwrites s"
    by (subst e, simp)+
qed

text \<open>\<^verbatim>\<open>brelse\<close> gives the buffer up and moves it to the front; nothing visible changes.\<close>

lemma brelse_ok:
  fixes s :: "'a bcache_scheme"
  assumes ok: "bio_ok c H s" and b: "b \<in> H"
    and d: "bdirty (bufs s b) \<or> b_data (bufs s b) = disk s (b_blockno (bufs s b))"
  shows "\<exists>s'. brelse c b s = Ok s' \<and> bio_ok c (H - {b}) s' \<and> view s' = view s \<and> disk s' = disk s \<and> dwrites s' = dwrites s \<and>
     (\<forall>i. bkey (bufs s' i) = bkey (bufs s i) \<and> b_flags (bufs s' i) = b_flags (bufs s i) \<and>
          b_data (bufs s' i) = b_data (bufs s i)) \<and> bio_frame s s'"
proof -
  note B = held_facts[OF ok b]
  from ok obtain xs p where P: "ptable_ok s" "lru s xs" "unique_keys (bufs s)" "H \<subseteq> {..<NBUF}" "myproc c s = Some p"
    and bo: "\<And>i. i < NBUF \<Longrightarrow> buf_ok (p_pid (procs s p)) (disk s) (disksize s) (i \<in> H) (bufs s i)"
    by (rule bio_okE) blast
  from wakeup_ok[OF P(1), of "ChanBufLock b"] obtain s1 where
    w: "wakeup (ChanBufLock b) s = Ok s1" "ptable_ok s1" "woken s s1" by blast
  note W = woken_fields[OF w(3)] and M = woken_myproc[OF w(3)]
  let ?lk = "(b_lock (bufs s b))\<lparr>sl_locked := False, sl_pid := 0\<rparr>"
  let ?s2 = "upd_buf b (\<lambda>x. x\<lparr>b_lock := ?lk, b_refcnt := b_refcnt x - 1\<rparr>) s1"
  have l2: "lru ?s2 xs" by (rule lru_links[OF P(2)]) (use W(1) in auto)
  from lru_front[OF l2 B(1)] obtain s' where
    f: "bindR (bcache_unlink b ?s2) (bcache_insert b) = Ok s'" "lru s' (b # remove1 b xs)" "links_only ?s2 s'" by blast
  note F = links_only_fields[OF f(3)]
  have r: "brelse c b s = Ok s'"
    using B(6,7) w(1) f(1) W(1) by (simp add: brelse_def releasesleep_def Let_def)
  have keep: "bkey (bufs s' i) = bkey (bufs s i)" "b_flags (bufs s' i) = b_flags (bufs s i)"
    "b_data (bufs s' i) = b_data (bufs s i)" "bvalid (bufs s' i) = bvalid (bufs s i)"
    "bdirty (bufs s' i) = bdirty (bufs s i)" for i
    using F(1-9)[of i] W(1) by (auto simp: bvalid_def bdirty_def bkey_def)
  have "bio_ok c (H - {b}) s'"
  proof (rule bio_okI[OF _ f(2)])
    show "ptable_ok s'" using w(2) ptable_ok_cong[of s' s1] F(10-12) by simp
    have "unique_keys (bufs s') = unique_keys (bufs s)" by (rule unique_keys_cong) (rule keep(1))
    then show "unique_keys (bufs s')" using P(3) by simp
    show "H - {b} \<subseteq> {..<NBUF}" using P(4) by blast
    show "myproc c s' = Some p" using M(1)[of c] P(5) F(12) by (simp add: myproc_def)
    show "buf_ok (p_pid (procs s' p)) (disk s') (disksize s') (i \<in> H - {b}) (bufs s' i)" if i: "i < NBUF" for i
    proof (cases "i = b")
      case True
      then show ?thesis using bo[OF i] b d F(1-9)[of b] F(10,13,14) W(1-3) M(2) B(7) by (auto simp: buf_ok_def)
    next
      case False
      then show ?thesis using bo[OF i] F(1-9)[of i] F(10,13,14) W(1-3) M(2) by (auto simp: buf_ok_def)
    qed
  qed
  moreover have "view s' = view s" by (rule view_cong) (simp_all add: keep F(13) W(2))
  moreover have "bio_frame s s'"
  proof -
    have "s' = ?s2\<lparr>bufs := bufs s'\<rparr>" using f(3) by (simp add: links_only_def)
    also have "?s2\<lparr>bufs := bufs s'\<rparr> = s1\<lparr>bufs := bufs s'\<rparr>" by (simp add: upd_buf_def)
    also have "\<dots> = s\<lparr>procs := procs s1, queue := queue s1, bufs := bufs s'\<rparr>"
      using arg_cong[OF W(4), of "bufs_update (\<lambda>_. bufs s')"] by simp
    also have "\<dots> = s\<lparr>procs := procs s', queue := queue s', bufs := bufs s', disk := disk s', dwrites := dwrites s'\<rparr>"
      using F(10,11,13,15) W(2,6) by simp
    finally have "s' = s\<lparr>procs := procs s', queue := queue s', bufs := bufs s', disk := disk s', dwrites := dwrites s'\<rparr>" .
    moreover have "static s' = static s" using W(5) F(10) by (simp add: static_def fun_eq_iff)
    ultimately show ?thesis unfolding bio_frame_def by blast
  qed
  ultimately show ?thesis using r keep F(13,15) W(2,6) by auto
qed

lemma bio_frame_refl: "bio_frame s s"
  by (simp add: bio_frame_def)

lemma bio_frame_trans:
  assumes "bio_frame s t" and "bio_frame t u"
  shows "bio_frame s u"
proof -
  have e: "t = s\<lparr>procs := procs t, queue := queue t, bufs := bufs t, disk := disk t, dwrites := dwrites t\<rparr>"
    "u = t\<lparr>procs := procs u, queue := queue u, bufs := bufs u, disk := disk u, dwrites := dwrites u\<rparr>"
    using assms by (simp_all add: bio_frame_def)
  have "u = s\<lparr>procs := procs u, queue := queue u, bufs := bufs u, disk := disk u, dwrites := dwrites u\<rparr>"
    using e(2) by (subst e(1)[symmetric] e(2), subst e(1)) simp
  then show ?thesis using assms by (simp add: bio_frame_def)
qed

lemma bio_frame_upd: "bio_frame s (upd_buf b f s)"
  by (simp add: bio_frame_def static_def fun_eq_iff) (simp add: upd_buf_def)

lemma bio_frame_more:
  assumes "bio_frame s s'"
  shows "bcache.more s' = bcache.more s" and "disksize s' = disksize s" and "cpus s' = cpus s"
    and "mem s' = mem s" and "static s' = static s"
proof -
  have e: "s' = s\<lparr>procs := procs s', queue := queue s', bufs := bufs s', disk := disk s', dwrites := dwrites s'\<rparr>"
    using assms by (simp add: bio_frame_def)
  show "bcache.more s' = bcache.more s" "disksize s' = disksize s" "cpus s' = cpus s" "mem s' = mem s"
    by (subst e, simp)+
  show "static s' = static s" using assms by (simp add: bio_frame_def)
qed

section \<open>The cache seen from outside\<close>

text \<open>
  Clients see the contents of the blocks, the contents of the disk, the blocks with an
  unwritten change, and the blocks and contents of the buffers they hold.
\<close>

definition dirty_blocks :: "'a bcache_scheme \<Rightarrow> u32 set" where
  "dirty_blocks s = {b_blockno (bufs s i) | i. i < NBUF \<and> bdirty (bufs s i)}"

lemma dirty_key:
  assumes "bio_ok c H s" and "i < NBUF" and "bdirty (bufs s i)"
  shows "bkey (bufs s i) = (1, b_blockno (bufs s i))" and "bvalid (bufs s i)"
  using assms by (auto elim!: bio_okE simp: buf_ok_def bkey_def)

lemma dirty_iff:
  assumes ok: "bio_ok c H s" and i: "i < NBUF" "bkey (bufs s i) = (1, n)"
  shows "n \<in> dirty_blocks s \<longleftrightarrow> bdirty (bufs s i)"
proof
  assume "n \<in> dirty_blocks s"
  then obtain j where j: "j < NBUF" "bdirty (bufs s j)" "n = b_blockno (bufs s j)" by (auto simp: dirty_blocks_def)
  then have "bkey (bufs s j) = (1, n)" using dirty_key[OF ok] by auto
  then have "j = i" using bio_ok_unique[OF ok] i j(1) unfolding unique_keys_def bkey_def by auto
  then show "bdirty (bufs s i)" using j by simp
next
  assume "bdirty (bufs s i)"
  moreover have "b_blockno (bufs s i) = n" using i(2) by (simp add: bkey_def)
  ultimately show "n \<in> dirty_blocks s" using i(1) by (auto simp: dirty_blocks_def)
qed

lemma dirty_cached:
  assumes "bio_ok c H s" and "n \<in> dirty_blocks s"
  shows "buffer_of s n \<noteq> None"
proof -
  from assms(2) obtain i where i: "i < NBUF" "bdirty (bufs s i)" "n = b_blockno (bufs s i)"
    by (auto simp: dirty_blocks_def)
  from buffer_of_Some[OF bio_ok_unique[OF assms(1)] i(1) dirty_key[OF assms(1) i(1,2)]] show ?thesis
    using i(3) by simp
qed

lemma dirty_finite: "finite (dirty_blocks s)"
proof -
  have "dirty_blocks s = (\<lambda>i. b_blockno (bufs s i)) ` {i. i < NBUF \<and> bdirty (bufs s i)}"
    by (auto simp: dirty_blocks_def)
  then show ?thesis by simp
qed

lemma buffer_available:
  assumes ok: "bio_ok c H s" and lt: "card (dirty_blocks s) + card H < NBUF"
  shows "pinned H s \<noteq> {..<NBUF}"
proof
  assume e: "pinned H s = {..<NBUF}"
  let ?D = "{i. i < NBUF \<and> bdirty (bufs s i)}"
  have inj: "inj_on (\<lambda>i. b_blockno (bufs s i)) ?D"
  proof (rule inj_onI)
    fix i j assume ij: "i \<in> ?D" "j \<in> ?D" "b_blockno (bufs s i) = b_blockno (bufs s j)"
    then have "bkey (bufs s i) = bkey (bufs s j)" "b_dev (bufs s i) \<noteq> 0"
      using dirty_key(1)[OF ok, of i] dirty_key(1)[OF ok, of j] by (auto simp: bkey_def)
    then show "i = j" using ij bio_ok_unique[OF ok] unfolding unique_keys_def by auto
  qed
  have "(\<lambda>i. b_blockno (bufs s i)) ` ?D = dirty_blocks s" by (auto simp: dirty_blocks_def)
  then have c: "card ?D = card (dirty_blocks s)" using card_image[OF inj] by simp
  have H: "H \<subseteq> {..<NBUF}" using ok by (simp add: bio_ok_def)
  then have fin: "finite H" by (rule finite_subset) simp
  have "pinned H s \<subseteq> H \<union> ?D" by (auto simp: pinned_def)
  then have "card (pinned H s) \<le> card (H \<union> ?D)" using fin by (intro card_mono) auto
  also have "\<dots> \<le> card H + card ?D" by (rule card_Un_le)
  finally show False using lt c e by simp
qed

definition same_store :: "'a bcache_scheme \<Rightarrow> 'a bcache_scheme \<Rightarrow> bool" where
  "same_store s s' \<longleftrightarrow>
     view s' = view s \<and> disk s' = disk s \<and> dwrites s' = dwrites s \<and> dirty_blocks s' = dirty_blocks s \<and>
     bio_frame s s'"

lemma same_storeD:
  assumes "same_store s s'"
  shows "view s' = view s" and "disk s' = disk s" and "dwrites s' = dwrites s"
    and "dirty_blocks s' = dirty_blocks s" and "bio_frame s s'" and "disksize s' = disksize s"
  using assms bio_frame_more(2) by (auto simp: same_store_def)

lemma same_store_refl: "same_store s s"
  by (simp add: same_store_def bio_frame_refl)

lemma same_store_trans: "same_store s t \<Longrightarrow> same_store t u \<Longrightarrow> same_store s u"
  using bio_frame_trans by (auto simp: same_store_def)

text \<open>A buffer that the client holds, for block \<open>n\<close> with contents \<open>d\<close>.\<close>

definition holds_block :: "nat \<Rightarrow> u32 \<Rightarrow> block \<Rightarrow> 'a bcache_scheme \<Rightarrow> bool" where
  "holds_block b n d s \<longleftrightarrow> bkey (bufs s b) = (1, n) \<and> b_data (bufs s b) = d"

lemma dirty_blocks_upd:
  assumes "bdirty x = bdirty (bufs s b)" and "bdirty x \<Longrightarrow> b_blockno x = b_blockno (bufs s b)"
  shows "dirty_blocks (upd_buf b (\<lambda>_. x) s) = dirty_blocks s"
proof -
  have "n \<in> dirty_blocks (upd_buf b (\<lambda>_. x) s) \<longleftrightarrow> n \<in> dirty_blocks s" for n
    unfolding dirty_blocks_def using assms by (auto split: if_splits)
  then show ?thesis by blast
qed

lemma bread_rule:
  fixes s :: "'a bcache_scheme"
  assumes ok: "bio_ok c H s" and n: "n < disksize s"
    and nh: "\<And>i. i \<in> H \<Longrightarrow> b_blockno (bufs s i) \<noteq> n"
    and av: "card (dirty_blocks s) + card H < NBUF \<or> n \<in> dirty_blocks s"
  shows "\<exists>b s'. bread c 1 n s = Ok (b, s') \<and> b \<notin> H \<and> bio_ok c (insert b H) s' \<and> holds_block b n (view s n) s' \<and>
     same_store s s' \<and> (\<forall>i\<in>H. bufs s' i = bufs s i) \<and> (n \<in> dirty_blocks s \<or> view s n = disk s n)"
proof -
  have av': "pinned H s \<noteq> {..<NBUF} \<or> buffer_of s n \<noteq> None"
    using av buffer_available[OF ok] dirty_cached[OF ok] by blast
  from bread_ok[OF ok n nh av'] obtain b x where
    1: "bread c 1 n s = Ok (b, upd_buf b (\<lambda>_. x) s)" "b < NBUF" "b \<notin> H"
      "bio_ok c (insert b H) (upd_buf b (\<lambda>_. x) s)" and
    2: "bkey x = (1, n)" "b_data x = view s n" "bdirty x = bdirty (bufs s b)"
      "view (upd_buf b (\<lambda>_. x) s) = view s" "bdirty x \<or> view s n = disk s n" by blast
  have d: "n \<in> dirty_blocks (upd_buf b (\<lambda>_. x) s) \<longleftrightarrow> bdirty x"
    using dirty_iff[OF 1(4,2)] 2(1) by simp
  have bn: "b_blockno x = n" using 2(1) by (simp add: bkey_def)
  have db: "dirty_blocks (upd_buf b (\<lambda>_. x) s) = dirty_blocks s"
  proof (rule dirty_blocks_upd[OF 2(3)])
    assume dx: "bdirty x"
    then have db: "bdirty (bufs s b)" using 2(3) by simp
    from bread_cases[OF ok n nh av'] 1(1) obtain b' x' where
      b': "bread c 1 n s = Ok (b', upd_buf b' (\<lambda>_. x') s)" "buffer_of s n = Some b' \<or> \<not> bdirty (bufs s b')" by blast
    have "b' = b" using b'(1) 1(1) by simp
    then have "buffer_of s n = Some b" using b'(2) db by blast
    then have "bkey (bufs s b) = (1, n)" by (auto simp: buffer_of_def find_first_Some)
    then show "b_blockno x = b_blockno (bufs s b)" using bn by (simp add: bkey_def)
  qed
  have "same_store s (upd_buf b (\<lambda>_. x) s)"
    unfolding same_store_def using 2(4) db bio_frame_upd by simp
  moreover have "\<forall>i\<in>H. bufs (upd_buf b (\<lambda>_. x) s) i = bufs s i" using 1(3) by auto
  ultimately show ?thesis using 1 2 d db by (auto simp: holds_block_def)
qed

lemma brelse_rule:
  fixes s :: "'a bcache_scheme"
  assumes ok: "bio_ok c H s" and b: "b \<in> H" and h: "holds_block b n d s"
    and cl: "n \<in> dirty_blocks s \<or> d = disk s n"
  shows "\<exists>s'. brelse c b s = Ok s' \<and> bio_ok c (H - {b}) s' \<and> same_store s s' \<and>
     (\<forall>i. bkey (bufs s' i) = bkey (bufs s i) \<and> b_data (bufs s' i) = b_data (bufs s i))"
proof -
  note B = held_facts[OF ok b]
  have bn: "b_blockno (bufs s b) = n" and k: "bkey (bufs s b) = (1, n)" using h by (auto simp: holds_block_def bkey_def)
  have "bdirty (bufs s b) \<or> b_data (bufs s b) = disk s (b_blockno (bufs s b))"
    using cl dirty_iff[OF ok B(1) k] bn h by (auto simp: holds_block_def)
  from brelse_ok[OF ok b this] obtain s' where
    s': "brelse c b s = Ok s'" "bio_ok c (H - {b}) s'" "view s' = view s" "disk s' = disk s" "dwrites s' = dwrites s"
    "\<forall>i. bkey (bufs s' i) = bkey (bufs s i) \<and> b_flags (bufs s' i) = b_flags (bufs s i) \<and>
          b_data (bufs s' i) = b_data (bufs s i)" "bio_frame s s'" by blast
  have "bdirty (bufs s' i) = bdirty (bufs s i)" "b_blockno (bufs s' i) = b_blockno (bufs s i)" for i
    using s'(6)[rule_format, of i] by (simp_all add: bdirty_def bkey_def)
  then have "dirty_blocks s' = dirty_blocks s" by (simp add: dirty_blocks_def)
  then have "same_store s s'" using s'(3-5,7) by (simp add: same_store_def)
  then show ?thesis using s' by blast
qed

lemma modify_rule:
  fixes s :: "'a bcache_scheme"
  assumes ok: "bio_ok c H s" and b: "b \<in> H" and h: "holds_block b n d s"
  shows "bio_ok c H (upd_buf b (\<lambda>x. x\<lparr>b_data := f x\<rparr>) s)"
    and "view (upd_buf b (\<lambda>x. x\<lparr>b_data := f x\<rparr>) s) = (view s)(n := f (bufs s b))"
    and "holds_block b n (f (bufs s b)) (upd_buf b (\<lambda>x. x\<lparr>b_data := f x\<rparr>) s)"
    and "dirty_blocks (upd_buf b (\<lambda>x. x\<lparr>b_data := f x\<rparr>) s) = dirty_blocks s"
proof -
  have bn: "b_blockno (bufs s b) = n" using h by (auto simp: holds_block_def bkey_def)
  show "bio_ok c H (upd_buf b (\<lambda>x. x\<lparr>b_data := f x\<rparr>) s)"
    "view (upd_buf b (\<lambda>x. x\<lparr>b_data := f x\<rparr>) s) = (view s)(n := f (bufs s b))"
    using held_data[OF ok b, of f] bn by simp_all
  show "holds_block b n (f (bufs s b)) (upd_buf b (\<lambda>x. x\<lparr>b_data := f x\<rparr>) s)"
    using h by (simp add: holds_block_def)
  have "upd_buf b (\<lambda>x. x\<lparr>b_data := f x\<rparr>) s = upd_buf b (\<lambda>_. (bufs s b)\<lparr>b_data := f (bufs s b)\<rparr>) s"
    by (simp add: upd_buf_def)
  then show "dirty_blocks (upd_buf b (\<lambda>x. x\<lparr>b_data := f x\<rparr>) s) = dirty_blocks s"
    using dirty_blocks_upd[of "(bufs s b)\<lparr>b_data := f (bufs s b)\<rparr>" s b] by simp
qed

lemma bwrite_rule:
  fixes s :: "'a bcache_scheme"
  assumes ok: "bio_ok c H s" and b: "b \<in> H" and h: "holds_block b n d s"
  shows "\<exists>s'. bwrite c b s = Ok s' \<and> bio_ok c H s' \<and> view s' = view s \<and> disk s' = (disk s)(n := d) \<and>
     dwrites s' = dwrites s @ [(n, d)] \<and> dirty_blocks s' = dirty_blocks s - {n} \<and> bio_frame s s' \<and>
     (\<forall>i. bkey (bufs s' i) = bkey (bufs s i) \<and> b_data (bufs s' i) = b_data (bufs s i))"
proof -
  note B = held_facts[OF ok b]
  have bn: "b_blockno (bufs s b) = n" and k: "bkey (bufs s b) = (1, n)" and d: "b_data (bufs s b) = d"
    using h by (auto simp: holds_block_def bkey_def)
  from bwrite_ok[OF ok b] obtain x where
    x: "bwrite c b s = Ok ((upd_buf b (\<lambda>_. x) s)\<lparr>disk := (disk s)(n := d), dwrites := dwrites s @ [(n, d)]\<rparr>)"
    "bkey x = bkey (bufs s b)" "b_data x = b_data (bufs s b)" "\<not> bdirty x"
    "bio_ok c H ((upd_buf b (\<lambda>_. x) s)\<lparr>disk := (disk s)(n := d), dwrites := dwrites s @ [(n, d)]\<rparr>)"
    "view ((upd_buf b (\<lambda>_. x) s)\<lparr>disk := (disk s)(n := d), dwrites := dwrites s @ [(n, d)]\<rparr>) = view s"
    unfolding bn d by blast
  let ?s = "(upd_buf b (\<lambda>_. x) s)\<lparr>disk := (disk s)(n := d), dwrites := dwrites s @ [(n, d)]\<rparr>"
  have other: "b_blockno (bufs s i) \<noteq> n" if "i < NBUF" "i \<noteq> b" "bdirty (bufs s i)" for i
    using dirty_key(1)[OF ok that(1,3)] k bio_ok_unique[OF ok] that B(1)
    unfolding unique_keys_def bkey_def by force
  have "dirty_blocks ?s = dirty_blocks s - {n}"
    unfolding dirty_blocks_def using x(4) other bn by auto metis
  moreover have "bio_frame s ?s"
    by (simp add: bio_frame_def static_def fun_eq_iff) (simp add: upd_buf_def)
  ultimately show ?thesis using x by (intro exI[of _ ?s]) auto
qed

text \<open>The cache does not depend on the rest of the kernel state.\<close>

lemma bio_cong:
  fixes s :: "'a bcache_scheme" and s' :: "'b bcache_scheme"
  assumes "procs s' = procs s" and "queue s' = queue s" and "cpus s' = cpus s" and "bufs s' = bufs s"
    and "disk s' = disk s" and "disksize s' = disksize s"
  shows "bio_ok c H s' = bio_ok c H s" and "view s' = view s" and "dirty_blocks s' = dirty_blocks s"
    and "holds_block b n d s' = holds_block b n d s"
proof -
  show "bio_ok c H s' = bio_ok c H s"
    unfolding bio_ok_def lru_def myproc_def assms ptable_ok_cong[OF assms(1-3)] by (rule refl)
  show "view s' = view s" unfolding view_def buffer_of_def assms by (rule refl)
  show "dirty_blocks s' = dirty_blocks s" by (simp add: dirty_blocks_def assms)
  show "holds_block b n d s' = holds_block b n d s" by (simp add: holds_block_def assms)
qed

end
