(* ===== verification/Console_Line.thy ===== *)
theory Console_Line
  imports Console Ring Log_Reserve Bio
begin

text \<open>
  Correctness of the console of \<open>Console\<close>: the cursor stays on the screen, and the input buffer
  implements a line discipline on two lists, the bytes of complete lines that can be read
  and the line being edited.
\<close>

section \<open>The cursor\<close>

definition cursor_ok :: "'a kern_scheme \<Rightarrow> bool" where
  "cursor_ok s \<longleftrightarrow> 0 \<le> crt_pos s \<and> crt_pos s < 24 * 80"

definition cga_next :: "int \<Rightarrow> int \<Rightarrow> int" where
  "cga_next c pos =
     (if c = NL then pos + (80 - pos mod 80) else if c = BACKSPACE then (if pos > 0 then pos - 1 else pos) else pos + 1)"

lemma cgaputc_pos:
  assumes "0 \<le> cga_next c (crt_pos s)" and "cga_next c (crt_pos s) \<le> 25 * 80"
  shows "\<exists>m. cgaputc c s = Ok (s\<lparr>crt := m, crt_pos :=
    (if cga_next c (crt_pos s) div 80 \<ge> 24 then cga_next c (crt_pos s) - 80 else cga_next c (crt_pos s))\<rparr>)"
proof -
  let ?q = "cga_next c (crt_pos s)"
  define m where "m = (if c = NL \<or> c = BACKSPACE then crt s else (crt s)(nat (crt_pos s) := (of_int c AND 0xFF) OR 0x0700))"
  have "(if c = NL then (crt_pos s + (80 - crt_pos s mod 80), crt s)
         else if c = BACKSPACE then (if crt_pos s > 0 then crt_pos s - 1 else crt_pos s, crt s)
         else (crt_pos s + 1, (crt s)(nat (crt_pos s) := (of_int c AND 0xFF) OR 0x0700))) = (?q, m)"
    by (simp add: cga_next_def m_def)
  then show ?thesis using assms unfolding cgaputc_def by (auto simp: Let_def)
qed

lemma cgaputc_ok:
  assumes "cursor_ok s"
  shows "\<exists>m q. cgaputc c s = Ok (s\<lparr>crt := m, crt_pos := q\<rparr>) \<and> 0 \<le> q \<and> q < 24 * 80"
proof -
  let ?p = "crt_pos s" and ?q = "cga_next c (crt_pos s)"
  have p: "0 \<le> ?p" "?p < 1920" using assms by (simp_all add: cursor_ok_def)
  have q: "0 \<le> ?q" "?q \<le> 1920"
  proof -
    have "?p + (80 - ?p mod 80) = (?p div 80 + 1) * 80" by (simp add: algebra_simps minus_mod_eq_div_mult[symmetric])
    moreover have "?p div 80 < 24" "0 \<le> ?p div 80" using p by (simp_all add: div_less_iff_less_mult)
    ultimately show "0 \<le> ?q" "?q \<le> 1920" using p by (auto simp: cga_next_def)
  qed
  then have "?q div 80 \<ge> 24 \<longleftrightarrow> ?q = 1920" by linarith
  then have b: "0 \<le> (if ?q div 80 \<ge> 24 then ?q - 80 else ?q)" "(if ?q div 80 \<ge> 24 then ?q - 80 else ?q) < 24 * 80"
    using q by auto
  have "0 \<le> ?q" "?q \<le> 25 * 80" using q by simp_all
  from cgaputc_pos[OF this] b show ?thesis by blast
qed

lemma consputc_ok:
  assumes "cursor_ok s"
  shows "\<exists>m q xs. consputc c s = Ok (s\<lparr>uart_out := xs, crt := m, crt_pos := q\<rparr>) \<and> 0 \<le> q \<and> q < 24 * 80"
proof -
  let ?xs = "uart_out s @ (if c = BACKSPACE then [8, 32, 8] else [c])"
  have "cursor_ok (s\<lparr>uart_out := ?xs\<rparr>)" using assms by (simp add: cursor_ok_def)
  from cgaputc_ok[OF this, of c] show ?thesis unfolding consputc_def by blast
qed

text \<open>Output changes the screen and the serial line only.\<close>

definition same_input :: "'a kern_scheme \<Rightarrow> 'a kern_scheme \<Rightarrow> bool" where
  "same_input s s' \<longleftrightarrow>
     in_buf s' = in_buf s \<and> in_r s' = in_r s \<and> in_w s' = in_w s \<and> in_e s' = in_e s"

lemma output_ok:
  assumes "cursor_ok s"
  obtains s' where "consputc c s = Ok s'" and "cursor_ok s'" and "same_input s s'"
    and "procs s' = procs s" and "queue s' = queue s" and "cpus s' = cpus s"
proof -
  from consputc_ok[OF assms, of c] obtain m q xs
    where w: "consputc c s = Ok (s\<lparr>uart_out := xs, crt := m, crt_pos := q\<rparr>)" "0 \<le> q" "q < 24 * 80"
    by blast
  show ?thesis by (rule that[OF w(1)]) (use w in \<open>auto simp: cursor_ok_def same_input_def\<close>)
qed

section \<open>The input buffer as a queue\<close>

definition input_bytes :: "'a kern_scheme \<Rightarrow> u8 list" where
  "input_bytes s = ring_seg 7 (in_buf s) (in_r s) (in_e s)"

definition input_ok :: "'a kern_scheme \<Rightarrow> bool" where
  "input_ok s \<longleftrightarrow> unat (in_e s - in_r s) \<le> 128"

lemma input_slot: "unat (i mod INPUT_BUF) = unat i mod 2 ^ 7"
  by (simp add: INPUT_BUF_def unat_mod)

interpretation iq: bounded_queue input_ok input_bytes 128 input_full input_put input_get
proof unfold_locales
  fix s :: "'a kern_scheme" and v vs
  assume s: "input_ok s"
  show "length (input_bytes s) \<le> 128" using s by (simp add: input_ok_def input_bytes_def)
  show full: "input_full s \<longleftrightarrow> length (input_bytes s) = 128"
    using s by (auto simp: input_full_def input_ok_def input_bytes_def INPUT_BUF_def word_less_nat_alt)
  show "input_ok (input_put v s) \<and> input_bytes (input_put v s) = input_bytes s @ [v]" if "\<not> input_full s"
  proof -
    have n: "unat (in_e s - in_r s) < 128" using that full s by (simp add: input_ok_def input_bytes_def)
    then have "unat (in_e s + 1 - in_r s) = Suc (unat (in_e s - in_r s))" by (intro unat_diff_Suc) simp
    with n ring_seg_snoc[of "in_e s" "in_r s" 7 "in_buf s" v] show ?thesis
      by (simp add: input_ok_def input_bytes_def input_put_def input_slot)
  qed
  show "fst (input_get s) = v \<and> input_ok (snd (input_get s)) \<and> input_bytes (snd (input_get s)) = vs"
    if "input_bytes s = v # vs"
  proof -
    have ne: "in_r s \<noteq> in_e s" using that by (auto simp: input_bytes_def)
    from ring_seg_uncons[OF ne, of 7 "in_buf s"] unat_diff_pred[OF ne] that s show ?thesis
      by (simp add: input_ok_def input_bytes_def input_get_def input_slot)
  qed
qed

section \<open>The line discipline\<close>

text \<open>Complete lines, and the line being edited, which never holds a newline.\<close>

definition typed :: "'a kern_scheme \<Rightarrow> u8 list" where
  "typed s = ring_seg 7 (in_buf s) (in_r s) (in_w s)"

definition editing :: "'a kern_scheme \<Rightarrow> u8 list" where
  "editing s = ring_seg 7 (in_buf s) (in_w s) (in_e s)"

definition span_ok :: "'a kern_scheme \<Rightarrow> bool" where
  "span_ok s \<longleftrightarrow>
     input_ok s \<and> unat (in_e s - in_r s) = unat (in_w s - in_r s) + unat (in_e s - in_w s)"

definition line_ok :: "'a kern_scheme \<Rightarrow> bool" where
  "line_ok s \<longleftrightarrow> span_ok s \<and> of_int NL \<notin> set (editing s)"

definition a_char :: "int \<Rightarrow> u8 list \<times> u8 list \<Rightarrow> u8 list \<times> u8 list" where
  "a_char c = (\<lambda>(ready, line).
     if c = CTRL_P then (ready, line)
     else if c = CTRL_U then (ready, [])
     else if c = CTRL_H \<or> c = DEL then (ready, butlast line)
     else if c \<noteq> 0 \<and> length ready + length line < 128
     then let c = (if c = CR then NL else c); line = line @ [of_int c]
          in if c = NL \<or> c = CTRL_D \<or> length ready + length line = 128 then (ready @ line, [])
             else (ready, line)
     else (ready, line))"

fun a_read :: "nat \<Rightarrow> bool \<Rightarrow> u8 list \<Rightarrow> u8 list \<times> bool \<times> u8 list" where
  "a_read 0 full ready = ([], False, ready)"
| "a_read (Suc n) full [] = ([], True, [])"
| "a_read (Suc n) full (c # ready) =
     (if c = of_int CTRL_D then ([], False, if full then ready else c # ready)
      else if c = of_int NL then ([c], False, ready)
      else let (cs, w, ready) = a_read n False ready in (c # cs, w, ready))"

lemma line_append: "span_ok s \<Longrightarrow> input_bytes s = typed s @ editing s"
  unfolding input_bytes_def typed_def editing_def by (rule ring_seg_append) (simp_all add: span_ok_def)

lemma line_length:
  "span_ok s \<Longrightarrow> length (typed s) + length (editing s) = unat (in_e s - in_r s)"
  by (simp add: typed_def editing_def span_ok_def)

lemma same_input_line:
  assumes "same_input s s'"
  shows "typed s' = typed s" and "editing s' = editing s" and "line_ok s' = line_ok s" and "input_bytes s' = input_bytes s"
  using assms by (simp_all add: same_input_def typed_def editing_def line_ok_def span_ok_def input_ok_def input_bytes_def)

lemma same_input_trans: "same_input s t \<Longrightarrow> same_input t u \<Longrightarrow> same_input s u"
  by (simp add: same_input_def)

lemma put_line:
  assumes s: "span_ok s" and nf: "\<not> input_full s"
  shows "span_ok (input_put b s)" and "typed (input_put b s) = typed s" and "editing (input_put b s) = editing s @ [b]"
proof -
  let ?t = "input_put b s"
  have ok: "input_ok s" using s by (simp add: span_ok_def)
  note put = iq.put_law[OF ok nf, of b]
  have n: "unat (in_e s - in_r s) < 128" using nf ok iq.full_iff[OF ok] by (simp add: input_ok_def input_bytes_def)
  then have m: "unat (in_e s - in_w s) < 128" using s by (simp add: span_ok_def)
  have "unat (in_e s + 1 - in_r s) = Suc (unat (in_e s - in_r s))" "unat (in_e s + 1 - in_w s) = Suc (unat (in_e s - in_w s))"
    using n m by (intro unat_diff_Suc; simp)+
  then show sp: "span_ok ?t" using put s by (simp add: span_ok_def input_put_def)
  show ed: "editing ?t = editing s @ [b]"
    using ring_seg_snoc[of "in_e s" "in_w s" 7 "in_buf s" b] m by (simp add: editing_def input_put_def input_slot)
  have "typed ?t @ editing ?t = typed s @ editing s @ [b]"
    using put line_append[OF s] line_append[OF sp] by simp
  then show "typed ?t = typed s" unfolding ed by simp
qed

lemma kill_to_line:
  assumes "of_int NL \<notin> set (ring_seg 7 buf w e)"
  shows "kill_to buf w e = w"
  using assms
proof (induction "unat (e - w)" arbitrary: e)
  case 0
  then have "e = w" by (simp add: unat_eq_zero)
  then show ?case by (subst kill_to.simps) simp
next
  case (Suc n)
  then have ne: "w \<noteq> e" by auto
  note l = ring_seg_last[OF ne, of 7 buf]
  have "buf (unat ((e - 1) mod INPUT_BUF)) \<noteq> of_int NL"
    using Suc.prems l last_in_set[of "ring_seg 7 buf w e"] unfolding input_slot by auto
  moreover have "kill_to buf w (e - 1) = w"
    by (rule Suc.hyps(1)) (use unat_diff_pred(2)[OF ne] Suc ring_seg_butlast[OF ne, of 7 buf] in_set_butlastD in \<open>fastforce+\<close>)
  ultimately show ?case using ne by (subst kill_to.simps) simp
qed

lemma cut_line:
  assumes s: "line_ok s"
  shows "line_ok (s\<lparr>in_e := in_w s\<rparr>)" and "typed (s\<lparr>in_e := in_w s\<rparr>) = typed s" and "editing (s\<lparr>in_e := in_w s\<rparr>) = []"
    and "in_e s \<noteq> in_w s \<Longrightarrow> line_ok (s\<lparr>in_e := in_e s - 1\<rparr>)" and "typed (s\<lparr>in_e := in_e s - 1\<rparr>) = typed s"
    and "in_e s \<noteq> in_w s \<Longrightarrow> editing (s\<lparr>in_e := in_e s - 1\<rparr>) = butlast (editing s)"
    and "in_e s = in_w s \<longleftrightarrow> editing s = []"
proof -
  show "typed (s\<lparr>in_e := in_w s\<rparr>) = typed s" "editing (s\<lparr>in_e := in_w s\<rparr>) = []" "typed (s\<lparr>in_e := in_e s - 1\<rparr>) = typed s"
    by (simp_all add: typed_def editing_def)
  show "in_e s = in_w s \<longleftrightarrow> editing s = []" by (auto simp: editing_def ring_seg_Nil)
  show "line_ok (s\<lparr>in_e := in_w s\<rparr>)" using s by (simp add: line_ok_def span_ok_def input_ok_def editing_def)
  assume ne: "in_e s \<noteq> in_w s"
  then show b: "editing (s\<lparr>in_e := in_e s - 1\<rparr>) = butlast (editing s)"
    by (simp add: editing_def ring_seg_butlast)
  from ne have "0 < unat (in_e s - in_w s)" using unat_diff_pred(3)[of "in_w s" "in_e s"] by simp
  with s have "0 < unat (in_e s - in_r s)" by (simp add: line_ok_def span_ok_def)
  then have "in_r s \<noteq> in_e s" by auto
  from unat_diff_pred(2)[OF this] unat_diff_pred(2)[OF ne[symmetric]] \<open>0 < unat (in_e s - in_w s)\<close> b s in_set_butlastD[of _ "editing s"]
  show "line_ok (s\<lparr>in_e := in_e s - 1\<rparr>)" by (auto simp: line_ok_def span_ok_def input_ok_def)
qed

lemma commit_line:
  assumes s: "span_ok s"
  shows "line_ok (s\<lparr>in_w := in_e s\<rparr>)" and "typed (s\<lparr>in_w := in_e s\<rparr>) = typed s @ editing s"
    and "editing (s\<lparr>in_w := in_e s\<rparr>) = []"
  using s line_append[OF s] by (simp_all add: line_ok_def span_ok_def input_ok_def editing_def typed_def input_bytes_def)

section \<open>The interrupt handler refines the line discipline\<close>

definition console_ok :: "'a kern_scheme \<Rightarrow> bool" where
  "console_ok s \<longleftrightarrow> line_ok s \<and> cursor_ok s \<and> ptable_ok s"

lemma putc_console:
  assumes "cursor_ok s" and "ptable_ok s"
  obtains s' where "consputc c s = Ok s'" and "same_input s s'" and "cursor_ok s'" and "ptable_ok s'"
proof -
  from output_ok[OF assms(1), of c] obtain s' where s': "consputc c s = Ok s'" "cursor_ok s'" "same_input s s'"
    "procs s' = procs s" "queue s' = queue s" "cpus s' = cpus s" .
  with ptable_ok_cong[OF s'(4-6)] assms(2) that show ?thesis by blast
qed

lemma backspaces_console:
  assumes "cursor_ok s" and "ptable_ok s"
  obtains s' where "foldR (\<lambda>_. consputc BACKSPACE) xs s = Ok s'" and "same_input s s'" and "cursor_ok s'" and "ptable_ok s'"
proof -
  let ?I = "\<lambda>t. same_input s t \<and> cursor_ok t \<and> ptable_ok t"
  have "\<exists>s'. foldR (\<lambda>_. consputc BACKSPACE) xs s = Ok s' \<and> ?I s'"
  proof (rule foldR_invariant)
    fix x t assume t: "?I t"
    then obtain u where "consputc BACKSPACE t = Ok u" "same_input t u" "cursor_ok u" "ptable_ok u"
      using putc_console[of t BACKSPACE] by blast
    with t same_input_trans show "\<exists>u. consputc BACKSPACE t = Ok u \<and> ?I u" by blast
  next
    show "?I s" using assms by (simp add: same_input_def)
  qed
  with that show ?thesis by blast
qed

lemma wakeup_console:
  assumes "cursor_ok s" and "ptable_ok s"
  obtains s' where "wakeup ch s = Ok s'" and "same_input s s'" and "cursor_ok s'" and "ptable_ok s'"
proof -
  from wakeup_ok[OF assms(2), of ch] obtain s' where s': "wakeup ch s = Ok s'" "ptable_ok s'" by blast
  have "ptable.more s' = ptable.more s" by (rule wakeup_more[OF s'(1)])
  then have "same_input s s'" "crt_pos s' = crt_pos s" by (cases s; cases s'; simp add: same_input_def)+
  with s' assms that show ?thesis by (simp add: cursor_ok_def)
qed

lemma console_same:
  assumes "same_input s s'" and "line_ok s" and "cursor_ok s'" and "ptable_ok s'"
  shows "console_ok s'" and "(typed s', editing s') = (typed s, editing s)"
  using assms same_input_line[OF assms(1)] by (simp_all add: console_ok_def)

lemma in_e_update [simp]:
  "cursor_ok (s\<lparr>in_e := e\<rparr>) = cursor_ok s" "cursor_ok (s\<lparr>in_w := e\<rparr>) = cursor_ok s"
  "cursor_ok (input_put b s) = cursor_ok s"
  by (simp_all add: cursor_ok_def input_put_def)

lemma in_e_update_ptable [simp]:
  "ptable_ok (s\<lparr>in_e := e\<rparr>) = ptable_ok s" "ptable_ok (s\<lparr>in_w := e\<rparr>) = ptable_ok s"
  "ptable_ok (input_put b s) = ptable_ok s"
  by (rule ptable_ok_cong; simp add: input_put_def)+

lemma kill_line_refines:
  assumes "console_ok s"
  shows "\<exists>s'. kill_line s = Ok s' \<and> console_ok s' \<and> (typed s', editing s') = (typed s, [])"
proof -
  from assms have s: "line_ok s" "cursor_ok s" "ptable_ok s" by (simp_all add: console_ok_def)
  have k: "kill_to (in_buf s) (in_w s) (in_e s) = in_w s"
    by (rule kill_to_line) (use s(1) in \<open>simp add: line_ok_def editing_def\<close>)
  let ?t = "s\<lparr>in_e := in_w s\<rparr>"
  obtain s' where s': "foldR (\<lambda>_. consputc BACKSPACE) [0..<unat (in_e s - in_w s)] ?t = Ok s'"
    "same_input ?t s'" "cursor_ok s'" "ptable_ok s'"
    by (rule backspaces_console[of ?t "[0..<unat (in_e s - in_w s)]"]) (use s in simp_all)
  from console_same[OF s'(2) cut_line(1)[OF s(1)] s'(3,4)] cut_line(2,3)[OF s(1)] s'(1) k show ?thesis
    by (simp add: kill_line_def)
qed

lemma rubout_refines:
  assumes "console_ok s" and "in_e s \<noteq> in_w s"
  shows "\<exists>s'. consputc BACKSPACE (s\<lparr>in_e := in_e s - 1\<rparr>) = Ok s' \<and> console_ok s' \<and>
    (typed s', editing s') = (typed s, butlast (editing s))"
proof -
  from assms have s: "line_ok s" "cursor_ok s" "ptable_ok s" by (simp_all add: console_ok_def)
  let ?t = "s\<lparr>in_e := in_e s - 1\<rparr>"
  obtain s' where s': "consputc BACKSPACE ?t = Ok s'" "same_input ?t s'" "cursor_ok s'" "ptable_ok s'"
    by (rule putc_console[of ?t BACKSPACE]) (use s in simp_all)
  from console_same[OF s'(2) cut_line(4)[OF s(1) assms(2)] s'(3,4)] cut_line(5,6)[OF s(1)] assms(2) s'(1) show ?thesis
    by simp
qed

text \<open>Storing a character: it is echoed, and ends the line if it is the last one of it.\<close>

lemma store_refines:
  assumes "console_ok s" and nf: "\<not> input_full s" and c: "0 \<le> c" "c < 256"
  shows "\<exists>s'. bindR (consputc c (input_put (of_int c) s)) (\<lambda>s.
      if c = NL \<or> c = CTRL_D \<or> in_e s = in_r s + INPUT_BUF then wakeup ChanInput (s\<lparr>in_w := in_e s\<rparr>) else Ok s) = Ok s' \<and>
    console_ok s' \<and>
    (typed s', editing s') =
      (if c = NL \<or> c = CTRL_D \<or> length (typed s) + length (editing s) + 1 = 128
       then (typed s @ editing s @ [of_int c], []) else (typed s, editing s @ [of_int c]))"
proof -
  let ?t = "input_put (of_int c) s"
  from assms(1) have s: "span_ok s" "of_int NL \<notin> set (editing s)" "cursor_ok s" "ptable_ok s"
    by (simp_all add: console_ok_def line_ok_def)
  note p = put_line[OF s(1) nf, of "of_int c"]
  obtain u where u: "consputc c ?t = Ok u" "same_input ?t u" "cursor_ok u" "ptable_ok u"
    by (rule putc_console[of ?t c]) (use s in simp_all)
  note pu = same_input_line[OF u(2)]
  have spu: "span_ok u" using u(2) p(1) by (simp add: same_input_def span_ok_def input_ok_def)
  have "in_e u = in_r u + INPUT_BUF \<longleftrightarrow> in_e u - in_r u = 128" by (auto simp: INPUT_BUF_def algebra_simps)
  also have "\<dots> \<longleftrightarrow> unat (in_e u - in_r u) = 128" by (simp add: word_unat_eq_iff)
  also have "\<dots> \<longleftrightarrow> length (typed s) + length (editing s) + 1 = 128"
    using line_length[OF spu] pu p(2,3) by simp
  finally have full: "in_e u = in_r u + INPUT_BUF \<longleftrightarrow> length (typed s) + length (editing s) + 1 = 128" .
  show ?thesis
  proof (cases "c = NL \<or> c = CTRL_D \<or> in_e u = in_r u + INPUT_BUF")
    case True
    obtain v where v: "wakeup ChanInput (u\<lparr>in_w := in_e u\<rparr>) = Ok v" "same_input (u\<lparr>in_w := in_e u\<rparr>) v" "cursor_ok v" "ptable_ok v"
      by (rule wakeup_console[of "u\<lparr>in_w := in_e u\<rparr>" ChanInput]) (use u in simp_all)
    note cl = commit_line[OF spu]
    from console_same[OF v(2) cl(1) v(3,4)] cl(2,3) pu p(2,3) have "console_ok v" "(typed v, editing v) = (typed s @ editing s @ [of_int c], [])"
      by simp_all
    then show ?thesis using True u(1) v(1) full by (auto simp: bindR.simps)
  next
    case False
    have "of_int c \<noteq> (of_int NL :: u8)"
    proof
      assume "of_int c = (of_int NL :: u8)"
      then have "uint (of_int c :: u8) = uint (of_int NL :: u8)" by simp
      then show False using c False by (simp add: NL_def uint_word_of_int)
    qed
    with s(2) p pu spu have "line_ok u" by (auto simp: line_ok_def)
    then show ?thesis using False u pu p(2,3) full by (simp add: console_ok_def)
  qed
qed

lemma console_char_refines:
  assumes "console_ok s" and c: "0 \<le> c" "c < 256"
  shows "\<exists>s'. console_char c s = Ok s' \<and> console_ok s' \<and> (typed s', editing s') = a_char c (typed s, editing s)"
proof -
  have l: "line_ok s" "input_ok s" using assms(1) by (simp_all add: console_ok_def line_ok_def span_ok_def)
  have full: "\<not> input_full s \<longleftrightarrow> length (typed s) + length (editing s) < 128"
    using iq.full_iff[OF l(2)] iq.bound[OF l(2)] line_append[of s] l(1) by (auto simp: line_ok_def)
  consider "c = CTRL_P" | "c = CTRL_U" | "c = CTRL_H \<or> c = DEL"
    | "c \<noteq> CTRL_P" "c \<noteq> CTRL_U" "c \<noteq> CTRL_H" "c \<noteq> DEL" by blast
  then show ?thesis
  proof cases
    case 1
    then show ?thesis using assms(1) by (simp add: console_char_def a_char_def)
  next
    case 2
    then have "c \<noteq> CTRL_P" by (simp add: key_defs)
    then show ?thesis using 2 kill_line_refines[OF assms(1)] by (simp add: console_char_def a_char_def)
  next
    case 3
    then have "c \<noteq> CTRL_P" "c \<noteq> CTRL_U" by (auto simp: key_defs)
    then show ?thesis using 3 rubout_refines[OF assms(1)] cut_line(7)[OF l(1)] assms(1)
      by (cases "in_e s = in_w s") (simp_all add: console_char_def a_char_def)
  next
    case 4
    define d where "d = (if c = CR then NL else c)"
    have c': "0 \<le> d" "d < 256" using c by (auto simp: NL_def d_def)
    show ?thesis
    proof (cases "c \<noteq> 0 \<and> \<not> input_full s")
      case True
      then have nf: "\<not> input_full s" by simp
      have "console_char c s = bindR (consputc d (input_put (of_int d) s)) (\<lambda>s.
          if d = NL \<or> d = CTRL_D \<or> in_e s = in_r s + INPUT_BUF then wakeup ChanInput (s\<lparr>in_w := in_e s\<rparr>) else Ok s)"
        using 4 True unfolding console_char_def d_def by simp
      moreover have "a_char c (typed s, editing s) =
          (if d = NL \<or> d = CTRL_D \<or> length (typed s) + length (editing s) + 1 = 128
           then (typed s @ editing s @ [of_int d], []) else (typed s, editing s @ [of_int d]))"
        using 4 True full unfolding a_char_def d_def by simp
      ultimately show ?thesis using store_refines[OF assms(1) nf c'] by simp
    next
      case False
      then show ?thesis using 4 assms(1) full by (auto simp: console_char_def a_char_def)
    qed
  qed
qed

lemma consoleintr_refines:
  assumes "console_ok s" and "\<forall>c\<in>set cs. 0 \<le> c \<and> c < 256"
  shows "\<exists>s'. consoleintr cs s = Ok s' \<and> console_ok s' \<and> (typed s', editing s') = fold a_char cs (typed s, editing s)"
  using assms
proof (induction cs arbitrary: s)
  case Nil
  then show ?case by (simp add: consoleintr_def)
next
  case (Cons c cs)
  then obtain t where t: "console_char c s = Ok t" "console_ok t" "(typed t, editing t) = a_char c (typed s, editing s)"
    using console_char_refines[of s c] by auto
  with Cons.IH[OF t(2)] Cons.prems(2) show ?case by (simp add: consoleintr_def)
qed

lemma consoleread_loop_refines:
  assumes "line_ok s"
  shows "case consoleread_loop n full s of (cs, w, s') \<Rightarrow>
    (cs, w, typed s') = a_read n full (typed s) \<and> line_ok s' \<and> editing s' = editing s"
  using assms
proof (induction n arbitrary: full s)
  case 0
  then show ?case by simp
next
  case (Suc n)
  show ?case
  proof (cases "in_r s = in_w s")
    case True
    then show ?thesis using Suc.prems by (simp add: typed_def)
  next
    case False
    let ?c = "fst (input_get s)" and ?t = "snd (input_get s)"
    have ty: "typed s = ?c # typed ?t"
      using ring_seg_uncons[OF False, of 7 "in_buf s"] by (simp add: typed_def input_get_def input_slot)
    have ed: "editing ?t = editing s" by (simp add: editing_def input_get_def)
    have w: "0 < unat (in_w s - in_r s)" "unat (in_w s - (in_r s + 1)) = unat (in_w s - in_r s) - 1"
      using unat_diff_pred[OF False] by simp_all
    with Suc.prems have "0 < unat (in_e s - in_r s)" by (simp add: line_ok_def span_ok_def)
    then have "in_r s \<noteq> in_e s" by auto
    from unat_diff_pred(1)[OF this] w Suc.prems ed have lt: "line_ok ?t"
      by (auto simp: line_ok_def span_ok_def input_ok_def input_get_def)
    have undo: "?t\<lparr>in_r := in_r ?t - 1\<rparr> = s" by (cases s) (simp add: input_get_def)
    show ?thesis
      using False Suc.prems lt ed ty undo Suc.IH[OF lt, of False]
      by (simp add: split_beta Let_def prod_eq_iff)
  qed
qed

end
