(* ===== verification/Pipe.thy ===== *)
theory Pipe
  imports File_Defs Ring Log_Reserve Bio
begin

text \<open>
  Correctness of the pipes of \<open>File_Defs\<close>: a pipe is a bounded queue of bytes, whatever the
  counters are modulo \<open>2 ^ 32\<close>, a writer stores exactly the bytes that fit and a reader takes
  exactly the oldest ones, so that the bytes read are at any time the first bytes written.
\<close>

section \<open>A pipe as a queue\<close>

definition pipe_bytes :: "pipe \<Rightarrow> u8 list" where
  "pipe_bytes x = ring_seg 9 (pi_data x) (pi_nread x) (pi_nwrite x)"

definition pipe_ok :: "pipe \<Rightarrow> bool" where
  "pipe_ok x \<longleftrightarrow> unat (pi_nwrite x - pi_nread x) \<le> 512"

definition pipe_room :: "pipe \<Rightarrow> nat" where
  "pipe_room x = 512 - length (pipe_bytes x)"

lemma length_pipe_bytes: "length (pipe_bytes x) = unat (pi_nwrite x - pi_nread x)"
  by (simp add: pipe_bytes_def)

lemma pipe_slot: "unat (i mod PIPESIZE) = unat i mod 2 ^ 9"
  by (simp add: PIPESIZE_def unat_mod)

lemma pipe_full_iff: "pipe_full x \<longleftrightarrow> length (pipe_bytes x) = 512"
proof -
  have "pi_nwrite x = pi_nread x + 512 \<longleftrightarrow> pi_nwrite x - pi_nread x = 512" by (auto simp: algebra_simps)
  also have "\<dots> \<longleftrightarrow> unat (pi_nwrite x - pi_nread x) = 512" by (simp add: word_unat_eq_iff)
  finally show ?thesis by (simp add: pipe_full_def PIPESIZE_def length_pipe_bytes)
qed

interpretation pq: bounded_queue pipe_ok pipe_bytes 512 pipe_full pipe_put pipe_get
proof unfold_locales
  fix x v vs
  assume x: "pipe_ok x"
  show "length (pipe_bytes x) \<le> 512" using x by (simp add: pipe_ok_def length_pipe_bytes)
  show "pipe_full x \<longleftrightarrow> length (pipe_bytes x) = 512" by (rule pipe_full_iff)
  show "pipe_ok (pipe_put v x) \<and> pipe_bytes (pipe_put v x) = pipe_bytes x @ [v]" if "\<not> pipe_full x"
  proof -
    have n: "unat (pi_nwrite x - pi_nread x) < 512"
      using that x by (simp add: pipe_full_iff length_pipe_bytes pipe_ok_def)
    then have "unat (pi_nwrite x + 1 - pi_nread x) = Suc (unat (pi_nwrite x - pi_nread x))"
      by (intro unat_diff_Suc) simp
    with n ring_seg_snoc[of "pi_nwrite x" "pi_nread x" 9 "pi_data x" v] show ?thesis
      by (simp add: pipe_ok_def pipe_bytes_def pipe_put_def pipe_slot)
  qed
  show "fst (pipe_get x) = v \<and> pipe_ok (snd (pipe_get x)) \<and> pipe_bytes (snd (pipe_get x)) = vs"
    if "pipe_bytes x = v # vs"
  proof -
    have ne: "pi_nread x \<noteq> pi_nwrite x" using that by (auto simp: pipe_bytes_def)
    from ring_seg_uncons[OF ne, of 9 "pi_data x"] unat_diff_pred[OF ne] that x show ?thesis
      by (simp add: pipe_ok_def pipe_bytes_def pipe_get_def pipe_slot)
  qed
qed

section \<open>The loops\<close>

lemma upd_pipe_twice: "upd_pipe p g (upd_pipe p f s) = upd_pipe p (\<lambda>x. g (f x)) s"
  by (simp add: upd_pipe_def)

lemma upd_pipe_id [simp]: "upd_pipe p (\<lambda>x. x) s = s"
  by (cases s) (simp add: upd_pipe_def)

lemma upd_pipe_fields [simp]:
  "pipes (upd_pipe p f s) p = f (pipes s p)" "q \<noteq> p \<Longrightarrow> pipes (upd_pipe p f s) q = pipes s q"
  "procs (upd_pipe p f s) = procs s" "cpus (upd_pipe p f s) = cpus s" "myproc c (upd_pipe p f s) = myproc c s"
  by (simp_all add: upd_pipe_def myproc_def)

lemma pipewrite_loop_fill:
  assumes "pipe_ok (pipes s p)" and "length us \<le> pipe_room (pipes s p)"
  shows "pipewrite_loop c p i (us @ vs) s = pipewrite_loop c p (i + length us) vs (upd_pipe p (fold pipe_put us) s)"
  using assms
proof (induction us arbitrary: i s)
  case Nil
  show ?case by (simp add: id_def)
next
  case (Cons u us)
  let ?x = "pipes s p"
  have nf: "\<not> pipe_full ?x" using Cons.prems by (intro pq.not_full) (auto simp: pipe_room_def)
  have "pipe_ok (pipe_put u ?x)" "length us \<le> pipe_room (pipe_put u ?x)"
    using pq.put_law[OF Cons.prems(1) nf, of u] Cons.prems(2) by (auto simp: pipe_room_def)
  then have "pipewrite_loop c p (i + 1) (us @ vs) (upd_pipe p (pipe_put u) s) =
      pipewrite_loop c p (i + 1 + length us) vs (upd_pipe p (fold pipe_put us) (upd_pipe p (pipe_put u) s))"
    by (intro Cons.IH) simp_all
  moreover have "(\<lambda>x. fold pipe_put us (pipe_put u x)) = fold pipe_put (u # us)" by auto
  ultimately show ?case using nf by (simp add: upd_pipe_twice)
qed

text \<open>The state after a writer of \<open>vs\<close> has stored what fits.\<close>

definition filled :: "u32 \<Rightarrow> u8 list \<Rightarrow> 'a ftable_scheme \<Rightarrow> 'a ftable_scheme" where
  "filled p vs s = upd_pipe p (fold pipe_put (take (pipe_room (pipes s p)) vs)) s"

lemma filled_bytes:
  assumes "pipe_ok (pipes s p)"
  shows "pipe_ok (pipes (filled p vs s) p)"
    and "pipe_bytes (pipes (filled p vs s) p) = pipe_bytes (pipes s p) @ take (pipe_room (pipes s p)) vs"
  using pq.puts_law[OF assms, of "take (pipe_room (pipes s p)) vs"] pq.bound[OF assms]
  by (auto simp: filled_def pipe_room_def)

lemma pipewrite_cases:
  assumes ok: "pipe_ok (pipes s p)"
  shows "pipewrite c p vs s =
    (let t = filled p vs s
     in if length vs \<le> pipe_room (pipes s p)
        then bindR (wakeup (ChanPipeRead p) t) (\<lambda>s. Ok (Returned (int (length vs)), s))
        else case myproc c s of
            None \<Rightarrow> Fault
          | Some q \<Rightarrow>
              if \<not> pi_readopen (pipes t p) \<or> p_killed (procs s q) then Ok (Returned (-1), t)
              else bindR (wakeup (ChanPipeRead p) t) (\<lambda>u.
                   bindR (sleep c (ChanPipeWrite p) u) (\<lambda>u. Ok (Asleep (pipe_room (pipes s p)), u))))"
proof -
  let ?r = "pipe_room (pipes s p)" and ?t = "filled p vs s"
  have w: "pipewrite c p vs s = pipewrite_loop c p (length (take ?r vs)) (drop ?r vs) ?t"
    using pipewrite_loop_fill[OF ok, of "take ?r vs" c 0 "drop ?r vs"] by (simp add: pipewrite_def filled_def)
  show ?thesis
  proof (cases "length vs \<le> ?r")
    case True
    then show ?thesis using w by simp
  next
    case False
    then obtain v ws where d: "drop ?r vs = v # ws" by (cases "drop ?r vs") auto
    have "pipe_full (pipes ?t p)"
      using False filled_bytes(2)[OF ok, of vs] pq.bound[OF ok] by (simp add: pipe_full_iff pipe_room_def)
    moreover have "myproc c ?t = myproc c s" "procs ?t = procs s" by (simp_all add: filled_def)
    ultimately show ?thesis using False w d by (simp add: Let_def min_def cong: option.case_cong)
  qed
qed

lemma piperead_loop_gets:
  assumes "pipe_ok (pipes s p)" and "m = min n (length (pipe_bytes (pipes s p)))"
  shows "piperead_loop p n s = (fst (pq.gets m (pipes s p)), upd_pipe p (\<lambda>x. snd (pq.gets m x)) s)"
  using assms(1) unfolding assms(2)
proof (induction n arbitrary: s)
  case 0
  show ?case by simp
next
  case (Suc n)
  let ?x = "pipes s p"
  show ?case
  proof (cases "pi_nread ?x = pi_nwrite ?x")
    case True
    then show ?thesis by (simp add: pipe_bytes_def)
  next
    case False
    then obtain v vs where x: "pipe_bytes ?x = v # vs"
      by (cases "pipe_bytes ?x") (auto simp: pipe_bytes_def ring_seg_Nil)
    note g = pq.get_law[OF Suc.prems x]
    let ?t = "upd_pipe p (\<lambda>_. snd (pipe_get ?x)) s"
    have "pipe_ok (pipes ?t p)" using g by simp
    from Suc.IH[OF this] have "piperead_loop p n ?t =
        (fst (pq.gets (min n (length vs)) (snd (pipe_get ?x))),
         upd_pipe p (\<lambda>x. snd (pq.gets (min n (length vs)) x)) ?t)"
      using g by simp
    moreover have "upd_pipe p (\<lambda>x. snd (pq.gets k x)) ?t = upd_pipe p (\<lambda>x. snd (pq.gets k (snd (pipe_get x)))) s" for k
      by (simp add: upd_pipe_def)
    ultimately show ?thesis using False x by (simp add: split_beta Let_def)
  qed
qed

section \<open>Waking and sleeping leave the pipes alone\<close>

lemma pipes_of_more: "ptable.more s' = ptable.more s \<Longrightarrow> pipes s' = pipes s"
  by (cases s; cases s'; simp)

lemma sched_more: "sched c s = Ok s' \<Longrightarrow> ptable.more s' = ptable.more s"
  by (auto simp: sched_def set_cpu_proc_def switchkvm_def upd_cpu_def split: option.splits if_splits)

lemma sleep_more: "sleep c ch s = Ok s' \<Longrightarrow> ptable.more s' = ptable.more s"
  by (auto simp: sleep_def upd_proc_def dest!: sched_more split: option.splits)

lemmas pipes_frames = wakeup_more[THEN pipes_of_more] sleep_more[THEN pipes_of_more]

lemma pipewrite_bytes:
  assumes "pipe_ok (pipes s p)" and "pipewrite c p vs s = Ok (r, s')"
  shows "pipes s' = pipes (filled p vs s)"
  using assms(2) unfolding pipewrite_cases[OF assms(1)]
  by (auto simp: Let_def res_iff dest!: pipes_frames split: if_splits option.splits)

lemma piperead_bytes:
  assumes "pipe_ok (pipes s p)" and "piperead c p n s = Ok (r, vs, s')"
  shows "vs = take (length vs) (pipe_bytes (pipes s p))"
    and "pipe_bytes (pipes s' p) = drop (length vs) (pipe_bytes (pipes s p))"
    and "pipe_ok (pipes s' p)"
    and "r = Returned (-1) \<or> r = Asleep 0 \<or> (r = Returned (int (length vs)) \<and> length vs = min (nat n) (length (pipe_bytes (pipes s p))))"
proof -
  let ?x = "pipes s p"
  let ?m = "min (nat n) (length (pipe_bytes ?x))"
  note g = pq.gets_law[OF assms(1), of ?m]
  have "(vs = [] \<and> pipes s' = pipes s \<and> (r = Returned (-1) \<or> r = Asleep 0)) \<or>
      (vs = fst (pq.gets ?m ?x) \<and> pipes s' p = snd (pq.gets ?m ?x) \<and> r = Returned (int (length vs)))"
    using assms(2)
    by (auto simp: piperead_def piperead_loop_gets[OF assms(1) refl] res_iff
        dest!: pipes_frames split: if_splits option.splits)
  then consider "vs = []" "pipes s' = pipes s" "r = Returned (-1) \<or> r = Asleep 0"
    | "vs = take ?m (pipe_bytes ?x)" "pipe_bytes (pipes s' p) = drop ?m (pipe_bytes ?x)" "pipe_ok (pipes s' p)"
      "r = Returned (int (length vs))"
    using g by auto
  then have "vs = take (length vs) (pipe_bytes ?x) \<and>
    pipe_bytes (pipes s' p) = drop (length vs) (pipe_bytes ?x) \<and> pipe_ok (pipes s' p) \<and>
    (r = Returned (-1) \<or> r = Asleep 0 \<or> (r = Returned (int (length vs)) \<and> length vs = ?m))"
  proof cases
    case 1
    then show ?thesis using assms(1) by auto
  next
    case 2
    then show ?thesis by (simp add: min.commute)
  qed
  then show "vs = take (length vs) (pipe_bytes ?x)"
    "pipe_bytes (pipes s' p) = drop (length vs) (pipe_bytes ?x)" "pipe_ok (pipes s' p)"
    "r = Returned (-1) \<or> r = Asleep 0 \<or> (r = Returned (int (length vs)) \<and> length vs = ?m)"
    by blast+
qed

section \<open>The operations return\<close>

lemma sleep_ok:
  assumes "ptable_ok s" and "myproc c s = Some p"
  obtains s' where "sleep c ch s = Ok s'" and "ptable_ok s'"
proof -
  from assms(1) obtain a where r: "refines s a" by (rule ptable_okE)
  have "a_cpu a c = Some p" using refinesD(5)[OF r, of c] assms(2) by (simp add: myproc_def)
  from sleep_refines[OF r this, of ch] obtain s' where s': "sleep c ch s = Ok s'" by blast
  with step_sleep[OF assms(1) s'] that show ?thesis by blast
qed

lemma ptable_ok_upd_pipe [simp]: "ptable_ok (upd_pipe p f s) = ptable_ok s"
  by (rule ptable_ok_cong) (simp_all add: upd_pipe_def)

lemma pipewrite_returns:
  assumes ok: "pipe_ok (pipes s p)" and pt: "ptable_ok s" and q: "myproc c s = Some q"
  shows "\<exists>s'. pipewrite c p vs s =
      Ok (if length vs \<le> pipe_room (pipes s p) then Returned (int (length vs))
          else if \<not> pi_readopen (pipes s p) \<or> p_killed (procs s q) then Returned (-1)
          else Asleep (pipe_room (pipes s p)), s') \<and> ptable_ok s'"
proof -
  let ?t = "filled p vs s"
  have t: "ptable_ok ?t" "myproc c ?t = Some q" using pt q by (simp_all add: filled_def)
  have "pi_readopen (fold pipe_put us x) = pi_readopen x" for us x
    by (induction us arbitrary: x) (simp_all add: pipe_put_def)
  then have o: "pi_readopen (pipes ?t p) = pi_readopen (pipes s p)" by (simp add: filled_def)
  from wakeup_ok[OF t(1), of "ChanPipeRead p"] obtain u where
    u: "wakeup (ChanPipeRead p) ?t = Ok u" "ptable_ok u" "woken ?t u" by blast
  then have "myproc c u = Some q" using woken_myproc(1)[OF u(3)] t(2) by simp
  from sleep_ok[OF u(2) this, of "ChanPipeWrite p"] obtain v where v: "sleep c (ChanPipeWrite p) u = Ok v" "ptable_ok v" .
  show ?thesis unfolding pipewrite_cases[OF ok] Let_def using u v q o t(1) by simp
qed

lemma piperead_returns:
  assumes ok: "pipe_ok (pipes s p)" and pt: "ptable_ok s" and q: "myproc c s = Some q"
  shows "\<exists>vs s'. piperead c p n s =
      Ok (if pipe_bytes (pipes s p) = [] \<and> pi_writeopen (pipes s p)
          then if p_killed (procs s q) then Returned (-1) else Asleep 0
          else Returned (int (length vs)), vs, s') \<and> ptable_ok s' \<and>
      length vs = (if pipe_bytes (pipes s p) = [] then 0 else min (nat n) (length (pipe_bytes (pipes s p))))"
proof -
  let ?x = "pipes s p"
  let ?m = "min (nat n) (length (pipe_bytes ?x))"
  let ?t = "upd_pipe p (\<lambda>x. snd (pq.gets ?m x)) s"
  have e: "pi_nread ?x = pi_nwrite ?x \<longleftrightarrow> pipe_bytes ?x = []" by (simp add: pipe_bytes_def ring_seg_Nil)
  from wakeup_ok[of ?t "ChanPipeWrite p"] pt obtain u where u: "wakeup (ChanPipeWrite p) ?t = Ok u" "ptable_ok u" by auto
  from sleep_ok[OF pt q, of "ChanPipeRead p"] obtain v where v: "sleep c (ChanPipeRead p) s = Ok v" "ptable_ok v" .
  have "length (fst (pq.gets ?m ?x)) = ?m" using pq.gets_law[OF ok, of ?m] by simp
  then show ?thesis
    unfolding piperead_def e piperead_loop_gets[OF ok refl] using u v q pt by simp
qed

section \<open>Streams\<close>

text \<open>
  Histories of a pipe: the bytes stored since the beginning, the bytes taken, and the state.
  Between the operations on the pipe anything may happen that does not touch its buffer,
  such as closing one of its ends.
\<close>

inductive pipe_run :: "u32 \<Rightarrow> 'a ftable_scheme \<Rightarrow> u8 list \<Rightarrow> u8 list \<Rightarrow> 'a ftable_scheme \<Rightarrow> bool"
  for p :: u32 and s0 :: "'a ftable_scheme" where
  start: "pipe_run p s0 [] [] s0"
| writes: "pipe_run p s0 ws rs s \<Longrightarrow> pipewrite c p vs s = Ok (r, s') \<Longrightarrow>
    pipe_run p s0 (ws @ take (pipe_room (pipes s p)) vs) rs s'"
| reads: "pipe_run p s0 ws rs s \<Longrightarrow> piperead c p n s = Ok (r, vs, s') \<Longrightarrow> pipe_run p s0 ws (rs @ vs) s'"
| others: "pipe_run p s0 ws rs s \<Longrightarrow> pi_data (pipes s' p) = pi_data (pipes s p) \<Longrightarrow>
    pi_nread (pipes s' p) = pi_nread (pipes s p) \<Longrightarrow> pi_nwrite (pipes s' p) = pi_nwrite (pipes s p) \<Longrightarrow>
    pipe_run p s0 ws rs s'"

lemma pipe_run_stream:
  assumes "pipe_run p s0 ws rs s" and "pi_nread (pipes s0 p) = pi_nwrite (pipes s0 p)"
  shows "ws = rs @ pipe_bytes (pipes s p) \<and> pipe_ok (pipes s p)"
  using assms
proof (induction rule: pipe_run.induct)
  case start
  then show ?case by (simp add: pipe_bytes_def pipe_ok_def)
next
  case (writes ws rs s c vs r s')
  then have ok: "pipe_ok (pipes s p)" by simp
  from pipewrite_bytes[OF this writes.hyps(2)] filled_bytes[OF ok, of vs] writes show ?case by simp
next
  case (reads ws rs s c n r vs s')
  then have ok: "pipe_ok (pipes s p)" by simp
  note b = piperead_bytes[OF this reads.hyps(2)]
  have "rs @ pipe_bytes (pipes s p) = rs @ (vs @ drop (length vs) (pipe_bytes (pipes s p)))"
    using b(1) by (metis append_take_drop_id)
  with b reads show ?case by simp
next
  case (others ws rs s s')
  then show ?case by (simp add: pipe_bytes_def pipe_ok_def)
qed

end
