(* ===== verification/Log_Crash.thy ===== *)
theory Log_Crash
  imports Log_Defs
begin

text \<open>
  Crashes. The disk survives a crash with the writes that had reached it, that is, with a
  prefix of the writes of the operation that was under way; \<open>recovered\<close> is the disk after
  \<^verbatim>\<open>recover_from_log\<close> has then run. The theorems are about the sequence of disk writes of a
  commit and of a recovery; \<open>Log\<close> shows that \<^verbatim>\<open>commit\<close> and \<^verbatim>\<open>recover_from_log\<close> perform these
  sequences.
\<close>

type_synonym disk_image = "u32 \<Rightarrow> block"

definition apply_writes :: "(u32 \<times> block) list \<Rightarrow> disk_image \<Rightarrow> disk_image" where
  "apply_writes ws d = fold (\<lambda>(n, b) d. d(n := b)) ws d"

text \<open>The header block and the first \<open>n\<close> blocks after it.\<close>

definition log_area :: "u32 \<Rightarrow> nat \<Rightarrow> u32 set" where
  "log_area start n = (\<lambda>t. start + of_nat t) ` {..n}"

definition log_slot :: "u32 \<Rightarrow> nat \<Rightarrow> u32" where
  "log_slot start t = start + of_nat t + 1"

definition install_writes :: "u32 \<Rightarrow> nat \<Rightarrow> (nat \<Rightarrow> u32) \<Rightarrow> disk_image \<Rightarrow> (u32 \<times> block) list" where
  "install_writes start n blk d = map (\<lambda>t. (blk t, d (log_slot start t))) [0..<n]"

text \<open>The writes of \<^verbatim>\<open>recover_from_log\<close> and of \<^verbatim>\<open>commit\<close>.\<close>

definition recover_writes :: "u32 \<Rightarrow> disk_image \<Rightarrow> (u32 \<times> block) list" where
  "recover_writes start d =
     install_writes start (nat (hdr_n (d start))) (hdr_block (d start)) d
     @ [(start, put_head 0 (hdr_block (d start)) (d start))]"

definition recovered :: "u32 \<Rightarrow> disk_image \<Rightarrow> disk_image" where
  "recovered start d = apply_writes (recover_writes start d) d"

definition commit_writes :: "u32 \<Rightarrow> nat \<Rightarrow> (nat \<Rightarrow> u32) \<Rightarrow> (u32 \<Rightarrow> block) \<Rightarrow> block \<Rightarrow> (u32 \<times> block) list" where
  "commit_writes start n blk new h0 =
     map (\<lambda>t. (log_slot start t, new (blk t))) [0..<n]
     @ [(start, put_head (int n) blk h0)]
     @ map (\<lambda>t. (blk t, new (blk t))) [0..<n]
     @ [(start, put_head 0 blk (put_head (int n) blk h0))]"

section \<open>The header on disk\<close>

lemma get32_fold_put:
  "set is \<subseteq> {..<m} \<Longrightarrow> distinct is \<Longrightarrow>
   get32 (fold (\<lambda>i. put32 (4 + 4 * i) (blk i)) is b) (4 + 4 * j) =
     (if j \<in> set is then blk j else get32 b (4 + 4 * j))"
proof (induction "is" arbitrary: b)
  case (Cons i "is")
  show ?case
  proof (cases "j = i")
    case True
    then show ?thesis using Cons by simp
  next
    case False
    then have "get32 (put32 (4 + 4 * i) (blk i) b) (4 + 4 * j) = get32 b (4 + 4 * j)"
      by (intro get_put_other(4)) linarith
    then show ?thesis using Cons False by simp
  qed
qed simp

lemma get32_fold_put_0:
  "get32 (fold (\<lambda>i. put32 (4 + 4 * i) (blk i)) is b) 0 = get32 b 0"
proof (induction "is" arbitrary: b)
  case (Cons i "is")
  have "get32 (put32 (4 + 4 * i) (blk i) b) 0 = get32 b 0" by (rule get_put_other(4)) simp
  then show ?case using Cons by simp
qed simp

lemma hdr_put_head:
  assumes "0 \<le> n" and "n \<le> int LOGSIZE"
  shows "hdr_n (put_head n blk b) = n" and "i < nat n \<Longrightarrow> hdr_block (put_head n blk b) i = blk i"
proof -
  have "n < 2 ^ 31" using assms(2) by (simp add: param_defs)
  moreover from this have "uint (of_int n :: u32) = n"
    using assms(1) by (simp add: uint_word_of_int_eq take_bit_int_eq_self)
  ultimately have "sint (of_int n :: u32) = n"
    using assms(1) by (simp add: sint_uint signed_take_bit_int_eq_self)
  then show "hdr_n (put_head n blk b) = n"
    by (simp add: hdr_n_def put_head_def get32_fold_put_0)
  show "i < nat n \<Longrightarrow> hdr_block (put_head n blk b) i = blk i"
    using get32_fold_put[of "[0..<nat n]" "nat n" blk _ i] by (simp add: hdr_block_def put_head_def lessThan_atLeast0)
qed

lemma put_head_0: "hdr_n (put_head 0 blk b) = 0"
  by (rule hdr_put_head) simp_all

section \<open>Sequences of writes\<close>

lemma apply_writes_append [simp]: "apply_writes (xs @ ys) d = apply_writes ys (apply_writes xs d)"
  by (simp add: apply_writes_def)

lemma apply_writes_Nil [simp]: "apply_writes [] d = d"
  by (simp add: apply_writes_def)

lemma apply_writes_single [simp]: "apply_writes [(n, b)] d = d(n := b)"
  by (simp add: apply_writes_def)

lemma apply_writes_other: "m \<notin> fst ` set ws \<Longrightarrow> apply_writes ws d m = d m"
  unfolding apply_writes_def by (induction ws arbitrary: d) auto

lemma apply_writes_map:
  assumes "inj_on f (set ts)" and "distinct ts" and "t \<in> set ts"
  shows "apply_writes (map (\<lambda>t. (f t, g t)) ts) d (f t) = g t"
  using assms
proof (induction ts arbitrary: d)
  case (Cons u ts)
  have e: "apply_writes (map (\<lambda>t. (f t, g t)) (u # ts)) d =
      apply_writes (map (\<lambda>t. (f t, g t)) ts) (d(f u := g u))" by (simp add: apply_writes_def)
  show ?case
  proof (cases "t = u")
    case True
    then have "f t \<notin> fst ` set (map (\<lambda>t. (f t, g t)) ts)" using Cons.prems by (auto simp: inj_on_def)
    then show ?thesis unfolding e using True by (simp add: apply_writes_other)
  next
    case False
    then show ?thesis unfolding e using Cons by simp
  qed
qed simp

text \<open>Partially written sequences, when the written values are what is there or will be.\<close>

lemma apply_writes_map_cases:
  assumes "inj_on f (set ts)" and "distinct ts"
  shows "apply_writes (map (\<lambda>t. (f t, g t)) ts) d m =
     (if \<exists>t\<in>set ts. m = f t then g (THE t. t \<in> set ts \<and> m = f t) else d m)"
proof (cases "\<exists>t\<in>set ts. m = f t")
  case True
  then obtain t where t: "t \<in> set ts" "m = f t" by blast
  have "(THE t. t \<in> set ts \<and> m = f t) = t"
    by (rule the_equality) (use t assms(1) in \<open>auto simp: inj_on_def\<close>)
  then show ?thesis using apply_writes_map[OF assms t(1), of g d] t by auto
next
  case False
  then show ?thesis by (auto intro!: apply_writes_other)
qed

lemma slot_in_area: "t < n \<Longrightarrow> log_slot start t \<in> log_area start n"
  unfolding log_slot_def log_area_def by (rule image_eqI[of _ _ "Suc t"]) simp_all

lemma slot_facts:
  assumes "t < LOGSIZE"
  shows "log_slot start t \<noteq> start"
    and "u < LOGSIZE \<Longrightarrow> log_slot start t = log_slot start u \<longleftrightarrow> t = u"
proof -
  have lt: "Suc t < 2 ^ 32" using assms by (simp add: param_defs)
  have e: "log_slot start t = start + of_nat (Suc t)" by (simp add: log_slot_def)
  show "log_slot start t \<noteq> start"
  proof
    assume "log_slot start t = start"
    then have "(of_nat (Suc t) :: u32) = 0" unfolding e by (metis add_cancel_right_right)
    then have "unat (of_nat (Suc t) :: u32) = 0" by (simp only: unat_0)
    then show False using lt by (simp only: unat_of_nat) simp
  qed
  show "log_slot start t = log_slot start u \<longleftrightarrow> t = u" if "u < LOGSIZE"
  proof
    assume "log_slot start t = log_slot start u"
    then have "(of_nat t :: u32) = of_nat u" by (simp add: log_slot_def)
    then have "unat (of_nat t :: u32) = unat (of_nat u :: u32)" by simp
    then show "t = u" using assms that by (simp add: unat_of_nat param_defs)
  qed simp
qed

lemma start_in_area: "start \<in> log_area start n"
  unfolding log_area_def by (rule image_eqI[of _ _ 0]) simp_all

section \<open>Recovery\<close>

text \<open>A header whose blocks lie outside the log, as \<^verbatim>\<open>log_write\<close> records them.\<close>

definition head_ok :: "u32 \<Rightarrow> nat \<Rightarrow> (nat \<Rightarrow> u32) \<Rightarrow> bool" where
  "head_ok start n blk \<longleftrightarrow> n \<le> LOGSIZE \<and> inj_on blk {..<n} \<and> blk ` {..<n} \<inter> log_area start n = {}"

lemma head_okD:
  assumes "head_ok start n blk"
  shows "n \<le> LOGSIZE" and "inj_on blk (set [0..<n])" and "t < n \<Longrightarrow> blk t \<notin> log_area start n"
    and "t < n \<Longrightarrow> blk t \<noteq> start" and "t < n \<Longrightarrow> u < n \<Longrightarrow> blk t \<noteq> log_slot start u"
proof -
  show "n \<le> LOGSIZE" "inj_on blk (set [0..<n])" using assms by (simp_all add: head_ok_def lessThan_atLeast0)
  show o: "blk t \<notin> log_area start n" if "t < n" for t
    using assms that unfolding head_ok_def by blast
  show "blk t \<noteq> start" if "t < n" using o[OF that] start_in_area by metis
  show "blk t \<noteq> log_slot start u" if "t < n" "u < n"
    using o[OF that(1)] slot_in_area[OF that(2), of start] by metis
qed

lemma install_other:
  assumes "head_ok start n blk" and "m \<in> log_area start n"
  shows "apply_writes (map (\<lambda>t. (blk t, g t)) [0..<n]) d m = d m"
  by (rule apply_writes_other) (use head_okD(3)[OF assms(1)] assms(2) in auto)

lemma recovered_eq:
  assumes ok: "head_ok start n (hdr_block (d start))" and n: "n = nat (hdr_n (d start))" and m: "m \<notin> log_area start n"
  shows "t < n \<Longrightarrow> m = hdr_block (d start) t \<Longrightarrow> recovered start d m = d (log_slot start t)"
    and "m \<notin> hdr_block (d start) ` {..<n} \<Longrightarrow> recovered start d m = d m"
proof -
  have ne: "m \<noteq> start" using m start_in_area by auto
  have e: "recovered start d m =
      apply_writes (map (\<lambda>t. (hdr_block (d start) t, d (log_slot start t))) [0..<n]) d m"
    using ne by (simp add: recovered_def recover_writes_def install_writes_def n)
  show "t < n \<Longrightarrow> m = hdr_block (d start) t \<Longrightarrow> recovered start d m = d (log_slot start t)"
    unfolding e using apply_writes_map[OF head_okD(2)[OF ok], of t "\<lambda>t. d (log_slot start t)" d] by simp
  show "m \<notin> hdr_block (d start) ` {..<n} \<Longrightarrow> recovered start d m = d m"
    unfolding e by (rule apply_writes_other) auto
qed

lemma recovered_empty:
  assumes "hdr_n (d start) = 0" and "m \<noteq> start"
  shows "recovered start d m = d m"
  using assms by (simp add: recovered_def recover_writes_def install_writes_def)

text \<open>
  A disk whose header is \<open>n\<close>, \<open>blk\<close>, whose log holds the new contents and whose home blocks
  hold old or new contents is recovered to the new contents.
\<close>

lemma recovered_committed:
  assumes ok: "head_ok start n blk" and h: "hdr_n (d start) = int n" "\<And>t. t < n \<Longrightarrow> hdr_block (d start) t = blk t"
    and l: "\<And>t. t < n \<Longrightarrow> d (log_slot start t) = new (blk t)"
    and o: "m \<notin> blk ` {..<n} \<Longrightarrow> d m = d0 m" and m: "m \<notin> log_area start n"
  shows "recovered start d m = (if m \<in> blk ` {..<n} then new m else d0 m)"
proof -
  have im: "hdr_block (d start) ` {..<n} = blk ` {..<n}" using h(2) by (intro image_cong) simp_all
  have "inj_on (hdr_block (d start)) {..<n} = inj_on blk {..<n}" by (rule inj_on_cong) (use h(2) in simp)
  then have ok': "head_ok start n (hdr_block (d start))" using ok im by (simp add: head_ok_def)
  show ?thesis
  proof (cases "m \<in> blk ` {..<n}")
    case True
    then obtain t where t: "t < n" "m = blk t" by auto
    have "recovered start d m = d (log_slot start t)"
      by (rule recovered_eq(1)[of start n d, OF ok' _ m t(1)]) (use h t in simp_all)
    then show ?thesis using True l[OF t(1)] t(2) by simp
  next
    case False
    have "recovered start d m = d m"
      by (rule recovered_eq(2)[of start n d, OF ok' _ m]) (use h im False in simp_all)
    then show ?thesis using False o by simp
  qed
qed

section \<open>Crashing during a commit\<close>

lemma take_cases:
  "k \<le> length xs \<Longrightarrow> take k (xs @ ys) = take k xs"
  "take (length xs + j) (xs @ ys) = xs @ take j ys"
  by simp_all

text \<open>
  Wherever a commit is interrupted, recovery yields either the disk before the commit or the
  disk with all its blocks installed; the latter exactly when the header was written.
\<close>

lemma commit_crash:
  assumes ok: "head_ok start n blk" and h0: "h0 = d0 start" "hdr_n h0 = 0" and m: "m \<notin> log_area start n"
  shows "recovered start (apply_writes (take k (commit_writes start n blk new h0)) d0) m =
     (if n < k \<and> m \<in> blk ` {..<n} then new m else d0 m)"
proof -
  let ?L = "map (\<lambda>t. (log_slot start t, new (blk t))) [0..<n]"
  let ?I = "map (\<lambda>t. (blk t, new (blk t))) [0..<n]"
  let ?h1 = "put_head (int n) blk h0"
  let ?h2 = "put_head 0 blk ?h1"
  note N = head_okD[OF ok]
  have ms: "m \<noteq> start" using m start_in_area[of start n] by auto
  have ws: "commit_writes start n blk new h0 = ?L @ (start, ?h1) # ?I @ [(start, ?h2)]"
    by (simp add: commit_writes_def)
  have sl: "log_slot start t \<noteq> start" "log_slot start t \<in> log_area start n" if "t < n" for t
    using slot_facts(1)[of t start] slot_in_area[OF that] that N(1) by auto
  have injs: "inj_on (log_slot start) (set [0..<n])"
    using slot_facts(2) N(1) by (auto simp: inj_on_def)
  have L_other: "apply_writes (take j ?L) d0 x = d0 x" if "x = start \<or> x \<notin> log_area start n" for x j
  proof (rule apply_writes_other)
    have "x \<noteq> log_slot start t" if "t < n" for t
      using \<open>x = start \<or> x \<notin> log_area start n\<close> sl[OF that] by metis
    then have "x \<notin> log_slot start ` {..<n}" by blast
    moreover have "fst ` set (take j ?L) \<subseteq> log_slot start ` {..<n}" by (auto dest!: in_set_takeD)
    ultimately show "x \<notin> fst ` set (take j ?L)" by blast
  qed
  show ?thesis
  proof (cases "k \<le> n")
    case True
    then have "take k (commit_writes start n blk new h0) = take k ?L" by (simp add: ws)
    then have e: "apply_writes (take k (commit_writes start n blk new h0)) d0 = apply_writes (take k ?L) d0" by simp
    have "recovered start (apply_writes (take k ?L) d0) m = apply_writes (take k ?L) d0 m"
      by (rule recovered_empty[OF _ ms]) (use L_other[where x = start and j = k] h0 in simp)
    then show ?thesis unfolding e using L_other[where x = m and j = k] m True by auto
  next
    case False
    then obtain j where k: "k = n + Suc j" by (metis add_Suc_right less_iff_Suc_add not_le)
    let ?d1 = "(apply_writes ?L d0)(start := ?h1)"
    have tk: "apply_writes (take k (commit_writes start n blk new h0)) d0 =
        apply_writes (take j (?I @ [(start, ?h2)])) ?d1"
      using take_cases(2)[of ?L "Suc j"] by (simp add: ws k apply_writes_def)
    have d1L: "?d1 (log_slot start t) = new (blk t)" if "t < n" for t
      using apply_writes_map[OF injs, of t "\<lambda>t. new (blk t)" d0] that sl[OF that] by simp
    have d1m: "?d1 x = d0 x" if "x \<notin> log_area start n" for x
      using L_other[where x = x and j = n] that start_in_area[of start n] by auto
    show ?thesis
    proof (cases "j \<le> n")
      case True
      let ?d2 = "apply_writes (take j ?I) ?d1"
      have a: "?d2 x = ?d1 x" if "x \<in> log_area start n \<or> x \<notin> blk ` {..<n}" for x
        by (rule apply_writes_other) (use that N(3) in \<open>auto dest!: in_set_takeD\<close>)
      have st: "?d2 start = ?h1" using a[of start] start_in_area[of start n] by simp
      have le: "int n \<le> int LOGSIZE" using N(1) by simp
      have "recovered start ?d2 m = (if m \<in> blk ` {..<n} then new m else d0 m)"
      proof (rule recovered_committed[OF ok])
        show "hdr_n (?d2 start) = int n" unfolding st by (rule hdr_put_head(1)[OF _ le]) simp
        show "hdr_block (?d2 start) t = blk t" if "t < n" for t
          unfolding st by (rule hdr_put_head(2)[OF _ le]) (use that in simp_all)
        show "?d2 (log_slot start t) = new (blk t)" if "t < n" for t
          using a[of "log_slot start t"] sl[OF that] d1L[OF that] by simp
        show "?d2 m = d0 m" if "m \<notin> blk ` {..<n}" using a[of m] that d1m[OF m] by simp
      qed (rule m)
      moreover have "take j (?I @ [(start, ?h2)]) = take j ?I" using True by simp
      ultimately show ?thesis unfolding tk using k by simp
    next
      case False
      then have "take j (?I @ [(start, ?h2)]) = ?I @ [(start, ?h2)]" by simp
      then have e: "apply_writes (take k (commit_writes start n blk new h0)) d0 = (apply_writes ?I ?d1)(start := ?h2)"
        unfolding tk by simp
      have "recovered start ((apply_writes ?I ?d1)(start := ?h2)) m = ((apply_writes ?I ?d1)(start := ?h2)) m"
        by (rule recovered_empty[OF _ ms]) (simp add: put_head_0)
      also have "\<dots> = apply_writes ?I ?d1 m" using m start_in_area[of start n] by auto
      also have "\<dots> = (if m \<in> blk ` {..<n} then new m else d0 m)"
      proof (cases "m \<in> blk ` {..<n}")
        case True
        then obtain t where "t < n" "m = blk t" by auto
        then show ?thesis using apply_writes_map[OF N(2), of t "\<lambda>t. new (blk t)" ?d1] by auto
      next
        case False
        then have "apply_writes ?I ?d1 m = ?d1 m" by (intro apply_writes_other) auto
        then show ?thesis using False d1m[OF m] by simp
      qed
      finally show ?thesis unfolding e using k by simp
    qed
  qed
qed

section \<open>Crashing during recovery\<close>

lemma recover_crash:
  assumes ok: "head_ok start n blk" and n: "hdr_n (d start) = int n" and blk: "blk = hdr_block (d start)"
    and m: "m \<notin> log_area start n"
  shows "recovered start (apply_writes (take k (recover_writes start d)) d) m = recovered start d m"
proof -
  note N = head_okD[OF ok]
  have ms: "m \<noteq> start" using m start_in_area[of start n] by auto
  let ?I = "map (\<lambda>t. (blk t, d (log_slot start t))) [0..<n]"
  have ws: "recover_writes start d = ?I @ [(start, put_head 0 blk (d start))]"
    by (simp add: recover_writes_def install_writes_def n blk)
  have new: "d (log_slot start t) = recovered start d (blk t)" if "t < n" for t
    by (rule recovered_eq(1)[of start n d, OF ok[unfolded blk] _ N(3)[OF that] that, symmetric])
      (simp_all add: n blk)
  have old: "recovered start d x = d x" if "x \<notin> blk ` {..<n}" "x \<notin> log_area start n" for x
    by (rule recovered_eq(2)[of start n d, OF ok[unfolded blk]]) (use n that blk in simp_all)
  show ?thesis
  proof (cases "k \<le> n")
    case True
    let ?d2 = "apply_writes (take k ?I) d"
    have a: "?d2 x = d x" if "x \<in> log_area start n \<or> x \<notin> blk ` {..<n}" for x
      by (rule apply_writes_other) (use that N(3) in \<open>auto dest!: in_set_takeD\<close>)
    have st: "?d2 start = d start" using a[of start] start_in_area[of start n] by simp
    have "recovered start ?d2 m = (if m \<in> blk ` {..<n} then recovered start d m else d m)"
    proof (rule recovered_committed[OF ok])
      show "hdr_n (?d2 start) = int n" unfolding st by (rule n)
      show "hdr_block (?d2 start) t = blk t" if "t < n" for t unfolding st by (simp add: blk)
      show "?d2 (log_slot start t) = recovered start d (blk t)" if "t < n" for t
        using a[of "log_slot start t"] slot_in_area[OF that, of start] new[OF that] by auto
      show "?d2 m = d m" if "m \<notin> blk ` {..<n}" using a[of m] that by simp
    qed (rule m)
    moreover have "take k (recover_writes start d) = take k ?I" using True by (simp add: ws)
    ultimately show ?thesis using old[OF _ m] by auto
  next
    case False
    then have "take k (recover_writes start d) = recover_writes start d" by (simp add: ws)
    then have e: "apply_writes (take k (recover_writes start d)) d = recovered start d"
      by (simp add: recovered_def)
    have "hdr_n (recovered start d start) = 0" by (simp add: recovered_def ws put_head_0)
    then show ?thesis unfolding e by (rule recovered_empty[OF _ ms])
  qed
qed

end
