(* ===== verification/Log.thy ===== *)
theory Log
  imports Bio Log_Crash
begin

text \<open>
  What the functions of \<^verbatim>\<open>log.c\<close> do to the cache and the disk: \<^verbatim>\<open>commit\<close> and
  \<^verbatim>\<open>recover_from_log\<close> perform the write sequences that \<open>Log_Crash\<close> reasons about, and leave
  the disk up to date and the log empty.
\<close>

section \<open>Copying a block\<close>

lemma bio_frame_log:
  fixes s s' :: "'a log_scheme"
  assumes "bio_frame s s'"
  shows "l_start s' = l_start s" and "l_dev s' = l_dev s" and "lh_n s' = lh_n s" and "lh_block s' = lh_block s"
    and "l_size s' = l_size s" and "l_outstanding s' = l_outstanding s" and "l_committing s' = l_committing s"
proof -
  have e: "s' = s\<lparr>procs := procs s', queue := queue s', bufs := bufs s', disk := disk s', dwrites := dwrites s'\<rparr>"
    using assms by (simp add: bio_frame_def)
  show "l_start s' = l_start s" "l_dev s' = l_dev s" "lh_n s' = lh_n s" "lh_block s' = lh_block s"
    "l_size s' = l_size s" "l_outstanding s' = l_outstanding s" "l_committing s' = l_committing s"
    by (subst e, simp)+
qed

text \<open>The effect of writing \<open>d\<close> to block \<open>n\<close> through the cache.\<close>

definition wrote :: "u32 \<Rightarrow> block \<Rightarrow> 'a bcache_scheme \<Rightarrow> 'a bcache_scheme \<Rightarrow> bool" where
  "wrote n d s s' \<longleftrightarrow>
     view s' = (view s)(n := d) \<and> disk s' = (disk s)(n := d) \<and> dwrites s' = dwrites s @ [(n, d)] \<and>
     dirty_blocks s' = dirty_blocks s - {n} \<and> bio_frame s s'"

lemma same_wrote: "same_store s t \<Longrightarrow> wrote n d t u \<Longrightarrow> wrote n d s u"
  using bio_frame_trans by (auto simp: wrote_def same_store_def)

lemma wrote_same: "wrote n d s t \<Longrightarrow> same_store t u \<Longrightarrow> wrote n d s u"
  using bio_frame_trans by (auto simp: wrote_def same_store_def)

lemma modify_bwrite:
  fixes s :: "'a bcache_scheme"
  assumes ok: "bio_ok c H s" and b: "b \<in> H" and h: "holds_block b n d s"
  shows "\<exists>s'. bwrite c b (upd_buf b (\<lambda>x. x\<lparr>b_data := f x\<rparr>) s) = Ok s' \<and> bio_ok c H s' \<and>
     wrote n (f (bufs s b)) s s' \<and> holds_block b n (f (bufs s b)) s' \<and>
     (\<forall>i. i \<noteq> b \<longrightarrow> bkey (bufs s' i) = bkey (bufs s i) \<and> b_data (bufs s' i) = b_data (bufs s i))"
proof -
  note M = modify_rule[OF ok b h, of f]
  from bwrite_rule[OF M(1) b M(3)] obtain s' where
    "bwrite c b (upd_buf b (\<lambda>x. x\<lparr>b_data := f x\<rparr>) s) = Ok s'" "bio_ok c H s'"
    "view s' = view (upd_buf b (\<lambda>x. x\<lparr>b_data := f x\<rparr>) s)"
    "disk s' = (disk (upd_buf b (\<lambda>x. x\<lparr>b_data := f x\<rparr>) s))(n := f (bufs s b))"
    "dwrites s' = dwrites (upd_buf b (\<lambda>x. x\<lparr>b_data := f x\<rparr>) s) @ [(n, f (bufs s b))]"
    "dirty_blocks s' = dirty_blocks (upd_buf b (\<lambda>x. x\<lparr>b_data := f x\<rparr>) s) - {n}"
    "bio_frame (upd_buf b (\<lambda>x. x\<lparr>b_data := f x\<rparr>) s) s'"
    "\<forall>i. bkey (bufs s' i) = bkey (bufs (upd_buf b (\<lambda>x. x\<lparr>b_data := f x\<rparr>) s) i) \<and>
         b_data (bufs s' i) = b_data (bufs (upd_buf b (\<lambda>x. x\<lparr>b_data := f x\<rparr>) s) i)" by blast
  then show ?thesis
    using M(2,4) h bio_frame_trans[OF bio_frame_upd] by (auto simp: wrote_def holds_block_def)
qed

text \<open>Two buffers for two blocks, in the state after the second \<^verbatim>\<open>bread\<close>.\<close>

lemma bread_two:
  fixes s :: "'a bcache_scheme"
  assumes ok: "bio_ok c {} s" and lt: "m < disksize s" "n < disksize s" and ne: "m \<noteq> n"
    and av: "card (dirty_blocks s) < NBUF \<or> m \<in> dirty_blocks s"
      "card (dirty_blocks s) + 1 < NBUF \<or> n \<in> dirty_blocks s"
  shows "\<exists>a s1 b s2. bread c 1 m s = Ok (a, s1) \<and> bread c 1 n s1 = Ok (b, s2) \<and> a \<noteq> b \<and> bio_frame s s1 \<and>
     bio_ok c {a, b} s2 \<and> holds_block a m (view s m) s2 \<and> holds_block b n (view s n) s2 \<and> same_store s s2 \<and>
     (m \<in> dirty_blocks s \<or> view s m = disk s m) \<and> (n \<in> dirty_blocks s \<or> view s n = disk s n)"
proof -
  from bread_rule[OF ok lt(1)] av(1) obtain a s1 where
    1: "bread c 1 m s = Ok (a, s1)" "bio_ok c {a} s1" "holds_block a m (view s m) s1" "same_store s s1"
      "m \<in> dirty_blocks s \<or> view s m = disk s m" by auto
  note S = same_storeD[OF 1(4)]
  have "n < disksize s1" using lt(2) S(6) by simp
  moreover have "b_blockno (bufs s1 i) \<noteq> n" if "i \<in> {a}" for i
    using 1(3) ne that by (auto simp: holds_block_def bkey_def)
  moreover have "card (dirty_blocks s1) + card {a} < NBUF \<or> n \<in> dirty_blocks s1" using av(2) S(4) by simp
  ultimately obtain b s2 where
    2: "bread c 1 n s1 = Ok (b, s2)" "b \<notin> {a}" "bio_ok c (insert b {a}) s2" "holds_block b n (view s1 n) s2"
      "same_store s1 s2" "\<forall>i\<in>{a}. bufs s2 i = bufs s1 i" "n \<in> dirty_blocks s1 \<or> view s1 n = disk s1 n"
    using bread_rule[OF 1(2)] by blast
  have "holds_block a m (view s m) s2" using 1(3) 2(6) by (simp add: holds_block_def)
  then show ?thesis using 1 2 S same_store_trans[OF 1(4) 2(5)] by (auto simp: insert_commute)
qed

lemma brelse_two:
  fixes s :: "'a bcache_scheme"
  assumes ok: "bio_ok c {a, b} s" and ne: "a \<noteq> b" and h: "holds_block a m d s" "holds_block b n e s"
    and cl: "m \<in> dirty_blocks s \<or> d = disk s m" "n \<in> dirty_blocks s \<or> e = disk s n"
  shows "\<exists>s'. bindR (brelse c a s) (brelse c b) = Ok s' \<and> bio_ok c {} s' \<and> same_store s s'"
proof -
  from brelse_rule[OF ok _ h(1) cl(1)] obtain s1 where
    1: "brelse c a s = Ok s1" "bio_ok c ({a, b} - {a}) s1" "same_store s s1"
      "\<forall>i. bkey (bufs s1 i) = bkey (bufs s i) \<and> b_data (bufs s1 i) = b_data (bufs s i)" by auto
  note S = same_storeD[OF 1(3)]
  have h1: "holds_block b n e s1" using h(2) 1(4) by (simp add: holds_block_def)
  have H: "{a, b} - {a} = {b}" using ne by auto
  from brelse_rule[OF 1(2)[unfolded H] _ h1] cl(2) S obtain s' where
    "brelse c b s1 = Ok s'" "bio_ok c {} s'" "same_store s1 s'" by auto
  then show ?thesis using 1 same_store_trans[OF 1(3)] by auto
qed

lemma write_log_one_ok:
  fixes s :: "'a log_scheme"
  defines "slot \<equiv> \<lambda>s t. log_slot (l_start s) t"
  assumes ok: "bio_ok c {} s" and dev: "l_dev s = 1" and lt: "slot s t < disksize s" "lh_block s t < disksize s"
    and ne: "lh_block s t \<noteq> slot s t" and dt: "lh_block s t \<in> dirty_blocks s" and av: "card (dirty_blocks s) < NBUF"
  shows "\<exists>s'. write_log_one c t s = Ok s' \<and> bio_ok c {} s' \<and> wrote (slot s t) (view s (lh_block s t)) s s'"
proof -
  let ?m = "slot s t" and ?n = "lh_block s t"
  have e: "l_start s + of_nat t + 1 = ?m" by (simp add: slot_def log_slot_def)
  from bread_two[OF ok lt ne[symmetric]] av dt obtain a s1 b s2 where
    1: "bread c 1 ?m s = Ok (a, s1)" "bread c 1 ?n s1 = Ok (b, s2)" "a \<noteq> b" "bio_frame s s1" "bio_ok c {a, b} s2"
      "holds_block a ?m (view s ?m) s2" "holds_block b ?n (view s ?n) s2" "same_store s s2" by blast
  note F = bio_frame_log[OF 1(4)]
  from modify_bwrite[OF 1(5) _ 1(6), of "\<lambda>_. b_data (bufs s2 b)"] obtain s3 where
    3: "bwrite c a (upd_buf a (\<lambda>x. x\<lparr>b_data := b_data (bufs s2 b)\<rparr>) s2) = Ok s3" "bio_ok c {a, b} s3"
      "wrote ?m (b_data (bufs s2 b)) s2 s3" "holds_block a ?m (b_data (bufs s2 b)) s3"
      "\<forall>i. i \<noteq> a \<longrightarrow> bkey (bufs s3 i) = bkey (bufs s2 i) \<and> b_data (bufs s3 i) = b_data (bufs s2 i)" by auto
  have db: "b_data (bufs s2 b) = view s ?n" using 1(7) by (simp add: holds_block_def)
  have hb: "holds_block b ?n (view s ?n) s3" using 1(7) 3(5) 1(3) by (simp add: holds_block_def)
  have "?n \<in> dirty_blocks s3" using dt ne 3(3) same_storeD(4)[OF 1(8)] by (simp add: wrote_def)
  moreover have "b_data (bufs s2 b) = disk s3 ?m" using 3(3) by (simp add: wrote_def)
  ultimately obtain s' where
    4: "bindR (brelse c b s3) (brelse c a) = Ok s'" "bio_ok c {} s'" "same_store s3 s'"
    using brelse_two[of c b a s3 ?n "view s ?n" ?m, OF _ 1(3)[symmetric] hb 3(4)] 3(2)
    by (auto simp: insert_commute)
  have "write_log_one c t s = Ok s'"
    using 1(1,2) 3(1) 4(1) F by (simp add: write_log_one_def dev e)
  moreover have "wrote ?m (view s ?n) s s'"
    using wrote_same[OF same_wrote[OF 1(8) 3(3)] 4(3)] db by simp
  ultimately show ?thesis using 4(2) by blast
qed

lemma install_one_ok:
  fixes s :: "'a log_scheme"
  defines "slot \<equiv> \<lambda>s t. log_slot (l_start s) t"
  assumes ok: "bio_ok c {} s" and dev: "l_dev s = 1" and lt: "slot s t < disksize s" "lh_block s t < disksize s"
    and ne: "lh_block s t \<noteq> slot s t" and av: "card (dirty_blocks s) < NBUF"
    and av2: "card (dirty_blocks s) + 1 < NBUF \<or> lh_block s t \<in> dirty_blocks s" and nd: "slot s t \<notin> dirty_blocks s"
  shows "\<exists>s'. install_one c t s = Ok s' \<and> bio_ok c {} s' \<and> wrote (lh_block s t) (view s (slot s t)) s s' \<and>
           view s (slot s t) = disk s (slot s t)"
proof -
  let ?m = "slot s t" and ?n = "lh_block s t"
  have e: "l_start s + of_nat t + 1 = ?m" by (simp add: slot_def log_slot_def)
  from bread_two[OF ok lt ne[symmetric]] av av2 obtain a s1 b s2 where
    1: "bread c 1 ?m s = Ok (a, s1)" "bread c 1 ?n s1 = Ok (b, s2)" "a \<noteq> b" "bio_frame s s1" "bio_ok c {a, b} s2"
      "holds_block a ?m (view s ?m) s2" "holds_block b ?n (view s ?n) s2" "same_store s s2"
      "?m \<in> dirty_blocks s \<or> view s ?m = disk s ?m" by blast
  note F = bio_frame_log[OF 1(4)]
  have cm: "view s ?m = disk s ?m" using 1(9) nd by blast
  from modify_bwrite[OF 1(5) _ 1(7), of "\<lambda>_. b_data (bufs s2 a)"] obtain s3 where
    3: "bwrite c b (upd_buf b (\<lambda>x. x\<lparr>b_data := b_data (bufs s2 a)\<rparr>) s2) = Ok s3" "bio_ok c {a, b} s3"
      "wrote ?n (b_data (bufs s2 a)) s2 s3" "holds_block b ?n (b_data (bufs s2 a)) s3"
      "\<forall>i. i \<noteq> b \<longrightarrow> bkey (bufs s3 i) = bkey (bufs s2 i) \<and> b_data (bufs s3 i) = b_data (bufs s2 i)" by auto
  have da: "b_data (bufs s2 a) = view s ?m" using 1(6) by (simp add: holds_block_def)
  have ha: "holds_block a ?m (view s ?m) s3" using 1(6) 3(5) 1(3) by (simp add: holds_block_def)
  have "view s ?m = disk s3 ?m" using cm ne 3(3) same_storeD(2)[OF 1(8)] by (simp add: wrote_def)
  moreover have "b_data (bufs s2 a) = disk s3 ?n" using 3(3) by (simp add: wrote_def)
  ultimately obtain s' where
    4: "bindR (brelse c a s3) (brelse c b) = Ok s'" "bio_ok c {} s'" "same_store s3 s'"
    using brelse_two[OF 3(2) 1(3) ha 3(4)] by auto
  have "install_one c t s = Ok s'"
    using 1(1,2) 3(1) 4(1) F by (simp add: install_one_def dev e)
  moreover have "wrote ?n (view s ?m) s s'"
    using wrote_same[OF same_wrote[OF 1(8) 3(3)] 4(3)] da by simp
  ultimately show ?thesis using 4(2) cm by blast
qed

section \<open>The loops\<close>

definition wrote_all :: "(u32 \<times> block) list \<Rightarrow> 'a bcache_scheme \<Rightarrow> 'a bcache_scheme \<Rightarrow> bool" where
  "wrote_all ws s s' \<longleftrightarrow>
     view s' = apply_writes ws (view s) \<and> disk s' = apply_writes ws (disk s) \<and> dwrites s' = dwrites s @ ws \<and>
     dirty_blocks s' = dirty_blocks s - fst ` set ws \<and> bio_frame s s'"

lemma wrote_all_Nil: "wrote_all [] s s"
  by (simp add: wrote_all_def bio_frame_refl)

lemma wrote_all_append: "wrote_all ws s t \<Longrightarrow> wrote_all vs t u \<Longrightarrow> wrote_all (ws @ vs) s u"
  using bio_frame_trans by (auto simp: wrote_all_def)

lemma wrote_one: "wrote n d s s' \<longleftrightarrow> wrote_all [(n, d)] s s'"
  by (simp add: wrote_all_def wrote_def)

lemma wrote_allD:
  assumes "wrote_all ws s s'"
  shows "m \<notin> fst ` set ws \<Longrightarrow> view s' m = view s m" and "m \<notin> fst ` set ws \<Longrightarrow> disk s' m = disk s m"
    and "dirty_blocks s' = dirty_blocks s - fst ` set ws" and "bio_frame s s'" and "disksize s' = disksize s"
  using assms bio_frame_more(2) by (auto simp: wrote_all_def apply_writes_other)

text \<open>A transaction of \<open>n\<close> blocks \<open>blk\<close> recorded in the header in memory.\<close>

definition log_has :: "nat \<Rightarrow> (nat \<Rightarrow> u32) \<Rightarrow> 'a log_scheme \<Rightarrow> bool" where
  "log_has n blk s \<longleftrightarrow>
     l_dev s = 1 \<and> lh_n s = int n \<and> (\<forall>t<n. lh_block s t = blk t) \<and> head_ok (l_start s) n blk \<and>
     l_start s < disksize s \<and> (\<forall>t<n. blk t < disksize s \<and> log_slot (l_start s) t < disksize s)"

lemma log_has_frame: "log_has n blk s \<Longrightarrow> bio_frame s s' \<Longrightarrow> log_has n blk s'"
  using bio_frame_log[of s s'] bio_frame_more(2)[of s s'] by (simp add: log_has_def)

lemma write_log_loop:
  fixes s :: "'a log_scheme"
  assumes "bio_ok c {} s" and "log_has n blk s" and "blk ` {..<n} \<subseteq> dirty_blocks s"
    and "dirty_blocks s \<inter> log_area (l_start s) n = {}" and "card (dirty_blocks s) < NBUF"
    and "\<And>t. t < n \<Longrightarrow> view s (blk t) = new (blk t)" and "set ts \<subseteq> {..<n}"
  shows "\<exists>s'. foldR (write_log_one c) ts s = Ok s' \<and> bio_ok c {} s' \<and>
     wrote_all (map (\<lambda>t. (log_slot (l_start s) t, new (blk t))) ts) s s'"
  using assms
proof (induction ts arbitrary: s)
  case Nil
  then show ?case using wrote_all_Nil by auto
next
  case (Cons t ts)
  let ?st = "l_start s"
  have t: "t < n" using Cons.prems(7) by simp
  note L = Cons.prems(2)[unfolded log_has_def]
  have ho: "head_ok ?st n blk" using L by blast
  note N = head_okD[OF ho]
  have tl: "t < LOGSIZE" using t N(1) by simp
  have "\<exists>s1. write_log_one c t s = Ok s1 \<and> bio_ok c {} s1 \<and> wrote (log_slot ?st t) (view s (lh_block s t)) s s1"
    by (rule write_log_one_ok[OF Cons.prems(1)])
      (use L t N(5)[OF t t] Cons.prems(3,5) in auto)
  then obtain s1 where s1: "write_log_one c t s = Ok s1" "bio_ok c {} s1" "wrote (log_slot ?st t) (new (blk t)) s s1"
    using L t Cons.prems(6) by auto
  note W = s1(3)[unfolded wrote_one]
  note D = wrote_allD[OF W]
  have st1: "l_start s1 = ?st" using bio_frame_log(1)[OF D(4)] .
  have sl: "log_slot ?st t \<in> log_area ?st n" by (rule slot_in_area[OF t])
  then have db: "dirty_blocks s1 = dirty_blocks s" using Cons.prems(4) D(3) by auto
  have "\<exists>s'. foldR (write_log_one c) ts s1 = Ok s' \<and> bio_ok c {} s' \<and>
     wrote_all (map (\<lambda>t. (log_slot (l_start s1) t, new (blk t))) ts) s1 s'"
  proof (rule Cons.IH[OF s1(2) log_has_frame[OF Cons.prems(2) D(4)]])
    show "view s1 (blk u) = new (blk u)" if "u < n" for u
      using D(1)[of "blk u"] N(5)[OF that t] Cons.prems(6)[OF that] by simp
  qed (use Cons.prems db st1 in auto)
  then obtain s' where s': "foldR (write_log_one c) ts s1 = Ok s'" "bio_ok c {} s'"
    "wrote_all (map (\<lambda>t. (log_slot ?st t, new (blk t))) ts) s1 s'" unfolding st1 by blast
  have "wrote_all (map (\<lambda>t. (log_slot ?st t, new (blk t))) (t # ts)) s s'"
    using wrote_all_append[OF W s'(3)] by simp
  then show ?case using s1(1) s'(1,2) by auto
qed

lemma install_loop:
  fixes s :: "'a log_scheme"
  assumes "bio_ok c {} s" and "log_has n blk s" and "dirty_blocks s \<inter> log_area (l_start s) n = {}"
    and "card (dirty_blocks s) < NBUF" and "card (dirty_blocks s) + 1 < NBUF \<or> blk ` set ts \<subseteq> dirty_blocks s"
    and "\<And>t. t < n \<Longrightarrow> view s (log_slot (l_start s) t) = new t" and "set ts \<subseteq> {..<n}" and "distinct ts"
  shows "\<exists>s'. foldR (install_one c) ts s = Ok s' \<and> bio_ok c {} s' \<and>
     wrote_all (map (\<lambda>t. (blk t, new t)) ts) s s'"
  using assms
proof (induction ts arbitrary: s)
  case Nil
  then show ?case using wrote_all_Nil by auto
next
  case (Cons t ts)
  let ?st = "l_start s"
  have t: "t < n" using Cons.prems(7) by simp
  note L = Cons.prems(2)[unfolded log_has_def]
  have ho: "head_ok ?st n blk" using L by blast
  note N = head_okD[OF ho]
  have tl: "t < LOGSIZE" using t N(1) by simp
  have sl: "log_slot ?st t \<in> log_area ?st n" by (rule slot_in_area[OF t])
  have "\<exists>s1. install_one c t s = Ok s1 \<and> bio_ok c {} s1 \<and> wrote (lh_block s t) (view s (log_slot ?st t)) s s1 \<and>
      view s (log_slot ?st t) = disk s (log_slot ?st t)"
    by (rule install_one_ok[OF Cons.prems(1)])
      (use L t N(5)[OF t t] Cons.prems(3,4,5) sl in auto)
  then obtain s1 where s1: "install_one c t s = Ok s1" "bio_ok c {} s1" "wrote (blk t) (new t) s s1"
    using L t Cons.prems(6) by auto
  note W = s1(3)[unfolded wrote_one]
  note D = wrote_allD[OF W]
  have st1: "l_start s1 = ?st" using bio_frame_log(1)[OF D(4)] .
  have db: "dirty_blocks s1 = dirty_blocks s - {blk t}" using D(3) by simp
  have cd: "card (dirty_blocks s1) \<le> card (dirty_blocks s)"
    unfolding db by (rule card_mono[OF dirty_finite]) auto
  have "\<exists>s'. foldR (install_one c) ts s1 = Ok s' \<and> bio_ok c {} s' \<and> wrote_all (map (\<lambda>t. (blk t, new t)) ts) s1 s'"
  proof (rule Cons.IH[OF s1(2) log_has_frame[OF Cons.prems(2) D(4)]])
    show "view s1 (log_slot (l_start s1) u) = new u" if "u < n" for u
      using D(1)[of "log_slot ?st u"] N(5)[OF t, of u] that N(1) Cons.prems(6)[OF that] by (auto simp: st1)
    show "dirty_blocks s1 \<inter> log_area (l_start s1) n = {}" using Cons.prems(3) db st1 by auto
    show "card (dirty_blocks s1) < NBUF" using cd Cons.prems(4) by simp
    have "blk u \<noteq> blk t" if "u \<in> set ts" for u
    proof -
      have "u < n" "u \<noteq> t" using that Cons.prems(7,8) by auto
      then show ?thesis using inj_onD[OF N(2), of u t] t by auto
    qed
    then show "card (dirty_blocks s1) + 1 < NBUF \<or> blk ` set ts \<subseteq> dirty_blocks s1"
      using Cons.prems(5) cd db by auto
  qed (use Cons.prems in auto)
  then obtain s' where s': "foldR (install_one c) ts s1 = Ok s'" "bio_ok c {} s'"
    "wrote_all (map (\<lambda>t. (blk t, new t)) ts) s1 s'" by blast
  have "wrote_all (map (\<lambda>t. (blk t, new t)) (t # ts)) s s'"
    using wrote_all_append[OF W s'(3)] by simp
  then show ?case using s1(1) s'(1,2) by auto
qed

lemma write_head_ok:
  fixes s :: "'a log_scheme"
  assumes ok: "bio_ok c {} s" and dev: "l_dev s = 1" and lt: "l_start s < disksize s"
    and av: "card (dirty_blocks s) < NBUF"
  shows "\<exists>s'. write_head c s = Ok s' \<and> bio_ok c {} s' \<and>
     wrote_all [(l_start s, put_head (lh_n s) (lh_block s) (view s (l_start s)))] s s'"
proof -
  let ?n = "l_start s"
  from bread_rule[OF ok lt] av obtain b s1 where
    1: "bread c 1 ?n s = Ok (b, s1)" "bio_ok c {b} s1" "holds_block b ?n (view s ?n) s1" "same_store s s1" by auto
  note F = bio_frame_log[OF same_storeD(5)[OF 1(4)]]
  have d: "b_data (bufs s1 b) = view s ?n" using 1(3) by (simp add: holds_block_def)
  let ?f = "\<lambda>x. put_head (lh_n s) (lh_block s) (b_data x)"
  from modify_bwrite[OF 1(2) _ 1(3), of ?f] obtain s2 where
    2: "bwrite c b (upd_buf b (\<lambda>x. x\<lparr>b_data := ?f x\<rparr>) s1) = Ok s2" "bio_ok c {b} s2"
      "wrote ?n (?f (bufs s1 b)) s1 s2" "holds_block b ?n (?f (bufs s1 b)) s2" by auto
  have "?f (bufs s1 b) = disk s2 ?n" using 2(3) by (simp add: wrote_def)
  from brelse_rule[OF 2(2) _ 2(4)] this obtain s3 where
    3: "brelse c b s2 = Ok s3" "bio_ok c ({b} - {b}) s3" "same_store s2 s3" by auto
  have "write_head c s = Ok s3" using 1(1) 2(1) 3(1) F by (simp add: write_head_def dev)
  moreover have "wrote ?n (put_head (lh_n s) (lh_block s) (view s ?n)) s s3"
    using wrote_same[OF same_wrote[OF 1(4) 2(3)] 3(3)] d by simp
  ultimately show ?thesis using 3(2) by (auto simp: wrote_one)
qed

section \<open>Commit and recovery\<close>

lemma clean_view:
  assumes ok: "bio_ok c {} s" and nd: "m \<notin> dirty_blocks s"
  shows "view s m = disk s m"
proof (cases "buffer_of s m")
  case (Some i)
  then have i: "i < NBUF" "bkey (bufs s i) = (1, m)" "bvalid (bufs s i)"
    by (auto simp: buffer_of_def find_first_Some)
  have "\<not> bdirty (bufs s i)" using dirty_iff[OF ok i(1,2)] nd by simp
  then have "b_data (bufs s i) = disk s m" using ok i by (auto elim!: bio_okE simp: buf_ok_def bkey_def)
  then show ?thesis using Some by (simp add: view_def)
qed (simp add: view_def)

lemma commit_ok:
  fixes s :: "'a log_scheme"
  assumes ok: "bio_ok c {} s" and lg: "log_has n blk s" and db: "dirty_blocks s = blk ` {..<n}"
    and av: "n < NBUF" and n0: "0 < n"
  shows "\<exists>s'. commit c s = Ok s' \<and> bio_ok c {} s' \<and> lh_n s' = 0 \<and> lh_block s' = lh_block s \<and>
     l_start s' = l_start s \<and> l_dev s' = l_dev s \<and> l_size s' = l_size s \<and> l_outstanding s' = l_outstanding s \<and>
     disksize s' = disksize s \<and>
     dwrites s' = dwrites s @ commit_writes (l_start s) n (lh_block s) (view s) (disk s (l_start s)) \<and>
     disk s' = apply_writes (commit_writes (l_start s) n (lh_block s) (view s) (disk s (l_start s))) (disk s) \<and>
     dirty_blocks s' = {} \<and> static s' = static s"
proof -
  let ?st = "l_start s"
  let ?L = "map (\<lambda>t. (log_slot ?st t, view s (blk t))) [0..<n]"
  let ?I = "map (\<lambda>t. (blk t, view s (blk t))) [0..<n]"
  let ?h1 = "put_head (int n) (lh_block s) (disk s ?st)"
  let ?h2 = "put_head 0 (lh_block s) ?h1"
  note LG = lg[unfolded log_has_def]
  have ho: "head_ok ?st n blk" using LG by blast
  note N = head_okD[OF ho]
  have dn: "card (dirty_blocks s) = n" unfolding db using N(2) by (simp add: card_image lessThan_atLeast0)
  have disj: "dirty_blocks s \<inter> log_area ?st n = {}" using ho db by (simp add: head_ok_def)
  have nst: "?st \<notin> dirty_blocks s" using disj start_in_area by blast
  have slots: "fst ` set ?L \<subseteq> log_area ?st n" using slot_in_area by fastforce
  have nsl: "?st \<notin> fst ` set ?L"
  proof
    assume "?st \<in> fst ` set ?L"
    then obtain t where "t < n" "?st = log_slot ?st t" by auto
    then show False using slot_facts(1)[of t ?st] N(1) by simp
  qed
  have "\<exists>s1. foldR (write_log_one c) [0..<n] s = Ok s1 \<and> bio_ok c {} s1 \<and> wrote_all ?L s s1"
    by (rule write_log_loop[OF ok lg]) (use db disj dn av in auto)
  then obtain s1 where 1: "write_log c s = Ok s1" "bio_ok c {} s1" "wrote_all ?L s s1"
    using LG by (auto simp: write_log_def)
  note D1 = wrote_allD[OF 1(3)] and F1 = bio_frame_log[OF wrote_allD(4)[OF 1(3)]]
  have db1: "dirty_blocks s1 = dirty_blocks s" using D1(3) slots disj by blast
  from write_head_ok[OF 1(2)] LG F1 D1(5) db1 dn av obtain s2 where
    2: "write_head c s1 = Ok s2" "bio_ok c {} s2"
      "wrote_all [(?st, put_head (lh_n s1) (lh_block s1) (view s1 ?st))] s1 s2" by auto
  have h1: "put_head (lh_n s1) (lh_block s1) (view s1 ?st) = ?h1"
    using F1 D1(1)[OF nsl] clean_view[OF ok nst] LG by simp
  note W2 = 2(3)[unfolded h1]
  note D2 = wrote_allD[OF W2] and F2 = bio_frame_log[OF wrote_allD(4)[OF W2]]
  have db2: "dirty_blocks s2 = dirty_blocks s" using D2(3) db1 nst by auto
  have lg2: "log_has n blk s2" by (rule log_has_frame[OF log_has_frame[OF lg D1(4)] D2(4)])
  have v2: "view s2 (log_slot ?st t) = view s (blk t)" if "t < n" for t
  proof -
    have injs: "inj_on (log_slot ?st) (set [0..<n])"
      using slot_facts(2) N(1) by (auto simp: inj_on_def)
    have "view s1 (log_slot ?st t) = view s (blk t)"
      using 1(3) apply_writes_map[OF injs, of t "\<lambda>t. view s (blk t)" "view s"] that by (simp add: wrote_all_def)
    then show ?thesis using D2(1)[of "log_slot ?st t"] slot_facts(1)[of t ?st] that N(1) by auto
  qed
  have "\<exists>s3. foldR (install_one c) [0..<n] s2 = Ok s3 \<and> bio_ok c {} s3 \<and> wrote_all ?I s2 s3"
    by (rule install_loop[OF 2(2) lg2]) (use db2 db disj F1 F2 dn av v2 in auto)
  then obtain s3 where 3: "install_trans c s2 = Ok s3" "bio_ok c {} s3" "wrote_all ?I s2 s3"
    using lg2 by (auto simp: install_trans_def log_has_def)
  note D3 = wrote_allD[OF 3(3)] and F3 = bio_frame_log[OF wrote_allD(4)[OF 3(3)]]
  have db3: "dirty_blocks s3 = {}" using D3(3) db2 db by (auto simp: image_image)
  let ?s4 = "s3\<lparr>lh_n := 0\<rparr>"
  have bo4: "bio_ok c {} ?s4" and vw4: "view ?s4 = view s3" and db4: "dirty_blocks ?s4 = {}"
    using bio_cong[of ?s4 s3] 3(2) db3 by simp_all
  from write_head_ok[OF bo4] LG F1 F2 F3 D1(5) D2(5) D3(5) db4 av obtain s5 where
    5: "write_head c ?s4 = Ok s5" "bio_ok c {} s5"
      "wrote_all [(?st, put_head 0 (lh_block s) (view ?s4 ?st))] ?s4 s5" by auto
  have v3: "view s3 ?st = ?h1"
    using D3(1)[of ?st] N(4) W2 by (force simp: wrote_all_def)
  note W5 = 5(3)[unfolded vw4 v3]
  note D5 = wrote_allD[OF W5] and F5 = bio_frame_log[OF wrote_allD(4)[OF W5]]
  have cw: "commit_writes ?st n (lh_block s) (view s) (disk s ?st) = ?L @ [(?st, ?h1)] @ ?I @ [(?st, ?h2)]"
    using LG by (auto simp: commit_writes_def)
  have st: "static ?s4 = static s3" by (simp add: static_def fun_eq_iff)
  have dw: "dwrites s1 = dwrites s @ ?L" "dwrites s2 = dwrites s1 @ [(?st, ?h1)]" "dwrites s3 = dwrites s2 @ ?I"
    "dwrites s5 = dwrites ?s4 @ [(?st, ?h2)]" "dwrites ?s4 = dwrites s3"
    using 1(3) W2 3(3) W5 unfolding wrote_all_def by simp_all
  have dk: "disk s1 = apply_writes ?L (disk s)" "disk s2 = apply_writes [(?st, ?h1)] (disk s1)"
    "disk s3 = apply_writes ?I (disk s2)" "disk s5 = apply_writes [(?st, ?h2)] (disk ?s4)" "disk ?s4 = disk s3"
    using 1(3) W2 3(3) W5 unfolding wrote_all_def by simp_all
  have "dwrites s5 = dwrites s @ commit_writes ?st n (lh_block s) (view s) (disk s ?st)"
    unfolding cw dw by simp
  moreover have "disk s5 = apply_writes (commit_writes ?st n (lh_block s) (view s) (disk s ?st)) (disk s)"
    unfolding cw dk apply_writes_append ..
  moreover have "commit c s = Ok s5" using 1(1) 2(1) 3(1) 5(1) n0 LG by (simp add: commit_def)
  moreover have "static s5 = static s"
    using bio_frame_more(5)[OF D1(4)] bio_frame_more(5)[OF D2(4)] bio_frame_more(5)[OF D3(4)]
      bio_frame_more(5)[OF D5(4)] st by simp
  ultimately show ?thesis
    using 5(2) F1 F2 F3 F5 D1(5) D2(5) D3(5) D5(3,5) db4 by (intro exI[of _ s5]) simp
qed

lemma recover_ok:
  fixes s :: "'a log_scheme"
  assumes ok: "bio_ok c {} s" and db: "dirty_blocks s = {}" and dev: "l_dev s = 1" and lt: "l_start s < disksize s"
    and n: "hdr_n (disk s (l_start s)) = int n" and ho: "head_ok (l_start s) n (hdr_block (disk s (l_start s)))"
    and bl: "\<And>t. t < n \<Longrightarrow> hdr_block (disk s (l_start s)) t < disksize s \<and> log_slot (l_start s) t < disksize s"
  shows "\<exists>s'. recover_from_log c s = Ok s' \<and> bio_ok c {} s' \<and> lh_n s' = 0 \<and> l_start s' = l_start s \<and>
     l_dev s' = 1 \<and> l_size s' = l_size s \<and> disksize s' = disksize s \<and> dirty_blocks s' = {} \<and>
     dwrites s' = dwrites s @ recover_writes (l_start s) (disk s) \<and> disk s' = recovered (l_start s) (disk s) \<and>
     static s' = static s"
proof -
  let ?st = "l_start s" and ?hd = "disk s (l_start s)"
  let ?blk = "hdr_block ?hd"
  note N = head_okD[OF ho]
  have vd: "view s m = disk s m" for m using clean_view[OF ok] db by simp
  have nb: "0 < NBUF" "1 < NBUF" by (simp_all add: param_defs)
  from bread_rule[OF ok lt] db nb obtain b s1 where
    1: "bread c 1 ?st s = Ok (b, s1)" "bio_ok c {b} s1" "holds_block b ?st (view s ?st) s1" "same_store s s1" by auto
  note S1 = same_storeD[OF 1(4)] and F1 = bio_frame_log[OF same_storeD(5)[OF 1(4)]]
  have d: "b_data (bufs s1 b) = ?hd" using 1(3) vd by (simp add: holds_block_def)
  let ?lb = "\<lambda>i. if i < nat (int n) then ?blk i else lh_block s1 i"
  let ?s2 = "s1\<lparr>lh_n := int n, lh_block := ?lb\<rparr>"
  note C2 = bio_cong[of ?s2 s1, simplified]
  have "bio_ok c {b} ?s2" "holds_block b ?st ?hd ?s2" using 1(2,3) C2 vd by simp_all
  moreover have "?hd = disk ?s2 ?st" using S1(2) by simp
  ultimately obtain s3 where 3: "brelse c b ?s2 = Ok s3" "bio_ok c ({b} - {b}) s3" "same_store ?s2 s3"
    using brelse_rule[of c "{b}" ?s2 b ?st ?hd] by blast
  note S3 = same_storeD[OF 3(3)] and F3 = bio_frame_log[OF same_storeD(5)[OF 3(3)]]
  have rh: "read_head c s = Ok s3"
    unfolding read_head_def dev 1(1) bindR.simps prod.case Let_def d n using 3(1) N(1) by simp
  have bo3: "bio_ok c {} s3" using 3(2) by simp
  have ds3: "disk s3 = disk s" "dirty_blocks s3 = {}" "dwrites s3 = dwrites s" "disksize s3 = disksize s"
    using S3 S1 C2 db by simp_all
  have fl3: "l_start s3 = ?st" "l_dev s3 = 1" "lh_n s3 = int n" "\<And>t. t < n \<Longrightarrow> lh_block s3 t = ?blk t"
    using F1 F3 dev by simp_all
  have lg3: "log_has n ?blk s3" unfolding log_has_def using fl3 ds3 ho lt bl by simp
  have v3: "view s3 m = disk s m" for m using clean_view[OF bo3] ds3 by simp
  let ?I = "install_writes ?st n ?blk (disk s)"
  have "\<exists>s4. foldR (install_one c) [0..<n] s3 = Ok s4 \<and> bio_ok c {} s4 \<and> wrote_all ?I s3 s4"
    unfolding install_writes_def
    by (rule install_loop[OF bo3 lg3]) (use ds3 nb fl3 v3 in \<open>auto simp: fl3\<close>)
  then obtain s4 where 4: "install_trans c s3 = Ok s4" "bio_ok c {} s4" "wrote_all ?I s3 s4"
    using fl3(3) by (auto simp: install_trans_def)
  note D4 = wrote_allD[OF 4(3)] and F4 = bio_frame_log[OF wrote_allD(4)[OF 4(3)]]
  let ?s5 = "s4\<lparr>lh_n := 0\<rparr>"
  note C5 = bio_cong[of ?s5 s4, simplified]
  have st: "?st \<notin> fst ` set ?I" using N(4) by (force simp: install_writes_def)
  have "\<exists>s6. write_head c ?s5 = Ok s6 \<and> bio_ok c {} s6 \<and>
      wrote_all [(l_start ?s5, put_head (lh_n ?s5) (lh_block ?s5) (view ?s5 (l_start ?s5)))] ?s5 s6"
    by (rule write_head_ok) (use 4(2) C5 F4 fl3 D4(3,5) ds3 lt nb in auto)
  then obtain s6 where 6: "write_head c ?s5 = Ok s6" "bio_ok c {} s6"
      "wrote_all [(?st, put_head 0 ?blk ?hd)] ?s5 s6"
    using F4 fl3 C5 D4(1)[OF st] v3 by (auto simp: put_head_def)
  note D6 = wrote_allD[OF 6(3)] and F6 = bio_frame_log[OF wrote_allD(4)[OF 6(3)]]
  have rw: "recover_writes ?st (disk s) = ?I @ [(?st, put_head 0 ?blk ?hd)]"
    by (simp add: recover_writes_def n)
  have dw: "dwrites s4 = dwrites s @ ?I" "dwrites s6 = dwrites ?s5 @ [(?st, put_head 0 ?blk ?hd)]" "dwrites ?s5 = dwrites s4"
    using 4(3) 6(3) ds3 unfolding wrote_all_def by simp_all
  have dk: "disk s4 = apply_writes ?I (disk s)" "disk s6 = apply_writes [(?st, put_head 0 ?blk ?hd)] (disk ?s5)"
    "disk ?s5 = disk s4" using 4(3) 6(3) ds3 unfolding wrote_all_def by simp_all
  have sx: "static ?s5 = static s4" "static ?s2 = static s1" by (simp_all add: static_def fun_eq_iff)
  have sta: "static s6 = static s"
    using bio_frame_more(5)[OF D6(4)] bio_frame_more(5)[OF D4(4)] bio_frame_more(5)[OF S3(5)]
      bio_frame_more(5)[OF S1(5)] sx by simp
  have "recover_from_log c s = Ok s6" using rh 4(1) 6(1) by (simp add: recover_from_log_def)
  moreover have "dwrites s6 = dwrites s @ recover_writes ?st (disk s)" unfolding rw dw by simp
  moreover have "disk s6 = recovered ?st (disk s)" unfolding recovered_def rw dk apply_writes_append ..
  moreover have "dirty_blocks s6 = {}" using D6(3) C5 D4(3) ds3 by simp
  ultimately show ?thesis
    using 6(2) F1 F3 F4 F6 fl3 D4(5) D6(5) ds3 sta by (intro exI[of _ s6]) simp
qed

end
