(* ===== verification/Log_Tx.thy ===== *)
theory Log_Tx
  imports Log
begin

text \<open>
  Transactions as the file system uses them. \<open>logged c H s\<close> is the invariant of the log between
  commits: the changed blocks are exactly the ones the in-memory header lists, and the header
  on disk is empty. \<open>tx c H k s\<close> adds that \<open>k\<close> blocks may still be logged, within a system call
  that has begun its operation unless \<open>k\<close> is zero. The rules at the end are what \<^verbatim>\<open>fs.c\<close> needs: reading a block, and reading,
  changing, logging and releasing one.
\<close>

section \<open>The invariant\<close>

text \<open>The number of blocks a transaction may log.\<close>

definition log_len :: "'a log_scheme \<Rightarrow> nat" where
  "log_len s = min LOGSIZE (nat (l_size s - 1))"

definition logged :: "nat \<Rightarrow> nat set \<Rightarrow> 'a log_scheme \<Rightarrow> bool" where
  "logged c H s \<longleftrightarrow>
     bio_ok c H s \<and> 0 \<le> lh_n s \<and> nat (lh_n s) \<le> log_len s \<and> l_dev s = 1 \<and>
     inj_on (lh_block s) {..<nat (lh_n s)} \<and>
     dirty_blocks s = lh_block s ` {..<nat (lh_n s)} \<and>
     lh_block s ` {..<nat (lh_n s)} \<inter> log_area (l_start s) (log_len s) = {} \<and>
     (\<forall>n\<in>log_area (l_start s) (log_len s). n < disksize s) \<and>
     hdr_n (disk s (l_start s)) = 0"

definition tx :: "nat \<Rightarrow> nat set \<Rightarrow> nat \<Rightarrow> 'a log_scheme \<Rightarrow> bool" where
  "tx c H k s \<longleftrightarrow>
     logged c H s \<and> (0 < k \<longrightarrow> 1 \<le> l_outstanding s) \<and> nat (lh_n s) + k \<le> log_len s \<and> nat (lh_n s) + k + 1 < NBUF"

text \<open>What a transaction may change.\<close>

definition tx_frame :: "'a log_scheme \<Rightarrow> 'a log_scheme \<Rightarrow> bool" where
  "tx_frame s s' \<longleftrightarrow>
     s' = s\<lparr>procs := procs s', queue := queue s', bufs := bufs s', lh_n := lh_n s', lh_block := lh_block s'\<rparr> \<and>
     static s' = static s"

lemma tx_frame_refl: "tx_frame s s"
  by (simp add: tx_frame_def)

lemma tx_frame_trans:
  assumes "tx_frame s t" and "tx_frame t u"
  shows "tx_frame s u"
proof -
  have e: "t = s\<lparr>procs := procs t, queue := queue t, bufs := bufs t, lh_n := lh_n t, lh_block := lh_block t\<rparr>"
    "u = t\<lparr>procs := procs u, queue := queue u, bufs := bufs u, lh_n := lh_n u, lh_block := lh_block u\<rparr>"
    using assms by (simp_all add: tx_frame_def)
  have "u = s\<lparr>procs := procs u, queue := queue u, bufs := bufs u, lh_n := lh_n u, lh_block := lh_block u\<rparr>"
    using e(2) by (subst e(1)[symmetric] e(2), subst e(1)) simp
  then show ?thesis using assms by (simp add: tx_frame_def)
qed

lemma same_store_tx_frame:
  fixes s s' :: "'a log_scheme"
  assumes "same_store s s'"
  shows "tx_frame s s'"
proof -
  note S = same_storeD[OF assms]
  have "s' = s\<lparr>procs := procs s', queue := queue s', bufs := bufs s', disk := disk s', dwrites := dwrites s'\<rparr>"
    using S(5) by (simp add: bio_frame_def)
  also have "\<dots> = s\<lparr>procs := procs s', queue := queue s', bufs := bufs s', lh_n := lh_n s', lh_block := lh_block s'\<rparr>"
    using S(2,3) bio_frame_log[OF S(5)] by simp
  finally show ?thesis using bio_frame_more(5)[OF S(5)] by (simp add: tx_frame_def)
qed

lemma tx_frame_fields:
  assumes "tx_frame s s'"
  shows "disk s' = disk s" and "dwrites s' = dwrites s" and "disksize s' = disksize s"
    and "l_start s' = l_start s" and "l_size s' = l_size s" and "l_dev s' = l_dev s"
    and "l_outstanding s' = l_outstanding s" and "l_committing s' = l_committing s" and "log_len s' = log_len s"
    and "log.more s' = log.more s" and "cpus s' = cpus s" and "mem s' = mem s" and "myproc c s' = myproc c s"
proof -
  have e: "s' = s\<lparr>procs := procs s', queue := queue s', bufs := bufs s', lh_n := lh_n s', lh_block := lh_block s'\<rparr>"
    using assms by (simp add: tx_frame_def)
  show "disk s' = disk s" "dwrites s' = dwrites s" "disksize s' = disksize s" "l_start s' = l_start s"
    "l_size s' = l_size s" "l_dev s' = l_dev s" "l_outstanding s' = l_outstanding s"
    "l_committing s' = l_committing s" "log_len s' = log_len s" "log.more s' = log.more s" "cpus s' = cpus s"
    "mem s' = mem s" "myproc c s' = myproc c s"
    by (subst e, simp add: log_len_def myproc_def)+
qed

lemma logged_same_store:
  fixes s s' :: "'a log_scheme"
  assumes "logged c H s" and "same_store s s'" and "bio_ok c H' s'"
  shows "logged c H' s'"
  using assms same_storeD[OF assms(2)] bio_frame_log[OF same_storeD(5)[OF assms(2)]]
    tx_frame_fields(9)[OF same_store_tx_frame[OF assms(2)]]
  unfolding logged_def by simp

lemma tx_same_store:
  fixes s s' :: "'a log_scheme"
  assumes "tx c H k s" and "same_store s s'" and "bio_ok c H' s'"
  shows "tx c H' k s'"
  using assms logged_same_store[OF _ assms(2,3), of H] bio_frame_log[OF same_storeD(5)[OF assms(2)]]
    tx_frame_fields(9)[OF same_store_tx_frame[OF assms(2)]]
  unfolding tx_def by simp

lemma tx_logged: "tx c H k s \<Longrightarrow> logged c H s" and tx_bio: "tx c H k s \<Longrightarrow> bio_ok c H s"
  by (simp_all add: tx_def logged_def)

lemma tx_less: "tx c H k s \<Longrightarrow> j \<le> k \<Longrightarrow> tx c H j s"
  by (simp add: tx_def)

lemma logged_card: "logged c H s \<Longrightarrow> card (dirty_blocks s) = nat (lh_n s)"
  by (simp add: logged_def card_image)

section \<open>Logging a block\<close>

lemma log_write_ok:
  fixes s :: "'a log_scheme"
  assumes t: "tx c H (Suc k) s" and b: "b \<in> H" and h: "holds_block b n d s"
    and na: "n \<notin> log_area (l_start s) (log_len s)"
  shows "\<exists>s'. log_write b s = Ok s' \<and> tx c H k s' \<and> view s' = view s \<and> dirty_blocks s' = insert n (dirty_blocks s) \<and> tx_frame s s' \<and>
     (\<forall>i. bkey (bufs s' i) = bkey (bufs s i) \<and> b_data (bufs s' i) = b_data (bufs s i))"
proof -
  have L: "logged c H s" "1 \<le> l_outstanding s" and room: "nat (lh_n s) + Suc k \<le> log_len s" "nat (lh_n s) + Suc k + 1 < NBUF"
    using t by (simp_all add: tx_def)
  have bk: "b_blockno (bufs s b) = n" and key: "bkey (bufs s b) = (1, n)" using h by (auto simp: holds_block_def bkey_def)
  define m where "m = nat (lh_n s)"
  have lm: "lh_n s = int m" using L(1) by (simp add: logged_def m_def)
  define i where "i = (case find_first (\<lambda>i. lh_block s i = n) m of Some i \<Rightarrow> i | None \<Rightarrow> m)"
  define s1 where "s1 = (let s = s\<lparr>lh_block := (lh_block s)(i := n)\<rparr> in if i = m then s\<lparr>lh_n := lh_n s + 1\<rparr> else s)"
  define s' where "s' = upd_buf b (\<lambda>x. x\<lparr>b_flags := b_flags x OR B_DIRTY\<rparr>) s1"
  have le: "m < log_len s" using room by (simp add: m_def)
  then have "\<not> (lh_n s \<ge> int LOGSIZE \<or> lh_n s \<ge> l_size s - 1)" unfolding log_len_def lm by linarith
  then have w: "log_write b s = Ok s'"
    using L(2) unfolding log_write_def bk s'_def s1_def i_def m_def by (simp add: Let_def)
  have ok1: "bio_ok c H s1" "view s1 = view s"
    using bio_cong(1)[of s1 s c H] bio_cong(2)[of s1 s] tx_bio[OF t] by (simp_all add: s1_def Let_def)
  have ok': "bio_ok c H s'" "view s' = view s"
    using held_dirty[OF ok1(1) b] ok1(2) by (simp_all add: s'_def)
  have bb: "b < NBUF" using held_facts(1)[OF tx_bio[OF t] b] .
  have keys: "bkey (bufs s' j) = bkey (bufs s j)" "b_data (bufs s' j) = b_data (bufs s j)" for j
    by (auto simp: s'_def s1_def Let_def bkey_def)
  have dj: "bdirty (bufs s' j) \<longleftrightarrow> j = b \<or> bdirty (bufs s j)" "b_blockno (bufs s' j) = b_blockno (bufs s j)" for j
    by (auto simp: s'_def s1_def Let_def bdirty_bit bit_simps flag_bits)
  have db: "dirty_blocks s' = insert n (dirty_blocks s)"
    unfolding dirty_blocks_def dj using bb bk by auto
  have inj: "inj_on (lh_block s) {..<m}" and dm: "dirty_blocks s = lh_block s ` {..<m}"
    using L(1) by (simp_all add: logged_def m_def)
  have im: "inj_on (lh_block s') {..<nat (lh_n s')}" "lh_block s' ` {..<nat (lh_n s')} = insert n (lh_block s ` {..<m})"
    "0 \<le> lh_n s'" "nat (lh_n s') \<le> Suc m"
  proof -
    consider (old) "i < m" "lh_block s i = n" | (new) "i = m" "\<forall>j<m. lh_block s j \<noteq> n"
    proof (cases "find_first (\<lambda>i. lh_block s i = n) m")
      case None
      then have "i = m" "\<forall>j<m. lh_block s j \<noteq> n" by (simp_all add: i_def) (simp add: find_first_None)
      then show ?thesis by (rule that(2))
    next
      case (Some j)
      then have "i = j" "j < m" "lh_block s j = n" by (simp_all add: i_def) (simp_all add: find_first_Some)
      then show ?thesis using that(1) by simp
    qed
    then have "inj_on (lh_block s') {..<nat (lh_n s')} \<and> lh_block s' ` {..<nat (lh_n s')} = insert n (lh_block s ` {..<m}) \<and>
      0 \<le> lh_n s' \<and> nat (lh_n s') \<le> Suc m"
    proof cases
      case old
      then have "lh_block s' = lh_block s" "lh_n s' = int m" by (auto simp: s'_def s1_def Let_def upd_buf_def lm)
      then show ?thesis using inj old by auto
    next
      case new
      then have e: "lh_block s' = (lh_block s)(m := n)" "nat (lh_n s') = Suc m" "0 \<le> lh_n s'"
        by (auto simp: s'_def s1_def Let_def upd_buf_def lm)
      have "inj_on ((lh_block s)(m := n)) {..<Suc m}"
        using inj new(2) by (auto simp: inj_on_def lessThan_Suc)
      moreover have "((lh_block s)(m := n)) ` {..<Suc m} = insert n (lh_block s ` {..<m})"
        by (auto simp: lessThan_Suc)
      ultimately show ?thesis unfolding e using e(3) by simp
    qed
    then show "inj_on (lh_block s') {..<nat (lh_n s')}" "lh_block s' ` {..<nat (lh_n s')} = insert n (lh_block s ` {..<m})"
      "0 \<le> lh_n s'" "nat (lh_n s') \<le> Suc m" by blast+
  qed
  have fr: "tx_frame s s'"
    by (simp add: tx_frame_def static_def fun_eq_iff) (simp add: s'_def s1_def Let_def upd_buf_def)
  note F = tx_frame_fields[OF fr]
  have "logged c H s'"
    unfolding logged_def F
    using ok'(1) im le L(1) na db dm by (auto simp: logged_def)
  then have "tx c H k s'" unfolding tx_def F using L(2) im(4) room by (simp add: m_def)
  then show ?thesis using w ok'(2) db fr keys by (intro exI[of _ s']) simp
qed

section \<open>Reading and updating blocks\<close>

lemma tx_bread:
  fixes s :: "'a log_scheme"
  assumes t: "tx c H k s" and n: "n < disksize s" and nh: "\<And>i. i \<in> H \<Longrightarrow> b_blockno (bufs s i) \<noteq> n" and h: "card H \<le> 1"
  shows "\<exists>b s'. bread c 1 n s = Ok (b, s') \<and> b \<notin> H \<and> tx c (insert b H) k s' \<and> holds_block b n (view s n) s' \<and>
     same_store s s' \<and> (\<forall>i\<in>H. bufs s' i = bufs s i) \<and> (n \<in> dirty_blocks s \<or> view s n = disk s n)"
proof -
  have "card (dirty_blocks s) + card H < NBUF" using t h logged_card[of c H s] by (simp add: tx_def)
  then obtain b s' where r: "bread c 1 n s = Ok (b, s')" "b \<notin> H" "bio_ok c (insert b H) s'" "holds_block b n (view s n) s'"
    "same_store s s'" "\<forall>i\<in>H. bufs s' i = bufs s i" "n \<in> dirty_blocks s \<or> view s n = disk s n"
    using bread_rule[OF tx_bio[OF t] n nh] by blast
  then show ?thesis using tx_same_store[OF t r(5,3)] by blast
qed

lemma tx_brelse:
  fixes s :: "'a log_scheme"
  assumes t: "tx c H k s" and b: "b \<in> H" and h: "holds_block b n d s" and cl: "n \<in> dirty_blocks s \<or> d = disk s n"
  shows "\<exists>s'. brelse c b s = Ok s' \<and> tx c (H - {b}) k s' \<and> same_store s s' \<and>
     (\<forall>i. bkey (bufs s' i) = bkey (bufs s i) \<and> b_data (bufs s' i) = b_data (bufs s i))"
proof -
  from brelse_rule[OF tx_bio[OF t] b h cl] obtain s' where r: "brelse c b s = Ok s'" "bio_ok c (H - {b}) s'"
    "same_store s s'" "\<forall>i. bkey (bufs s' i) = bkey (bufs s i) \<and> b_data (bufs s' i) = b_data (bufs s i)" by blast
  then show ?thesis using tx_same_store[OF t r(3,2)] by blast
qed

lemma tx_modify:
  fixes s :: "'a log_scheme" and f :: "block \<Rightarrow> block"
  assumes t: "tx c H k s" and b: "b \<in> H" and h: "holds_block b n d s"
  defines "s' \<equiv> upd_buf b (\<lambda>x. x\<lparr>b_data := f (b_data x)\<rparr>) s"
  shows "tx c H k s'" and "view s' = (view s)(n := f d)" and "holds_block b n (f d) s'" and "tx_frame s s'"
    and "bkey (bufs s' i) = bkey (bufs s i)" and "i \<noteq> b \<Longrightarrow> bufs s' i = bufs s i" and "dirty_blocks s' = dirty_blocks s"
proof -
  have d: "b_data (bufs s b) = d" using h by (simp add: holds_block_def)
  note M = modify_rule[OF tx_bio[OF t] b h, of "\<lambda>x. f (b_data x)", folded s'_def, unfolded d]
  show fr: "tx_frame s s'"
    by (simp add: tx_frame_def static_def fun_eq_iff s'_def) (simp add: upd_buf_def)
  have l: "lh_n s' = lh_n s" "lh_block s' = lh_block s" by (simp_all add: s'_def upd_buf_def)
  have "logged c H s'" unfolding logged_def tx_frame_fields[OF fr] l
    using tx_logged[OF t] M(1,4) by (simp add: logged_def)
  then show "tx c H k s'" using t unfolding tx_def tx_frame_fields[OF fr] l by simp
  show "view s' = (view s)(n := f d)" "holds_block b n (f d) s'" using M(2,3) by simp_all
  show "bkey (bufs s' i) = bkey (bufs s i)" "i \<noteq> b \<Longrightarrow> bufs s' i = bufs s i"
    by (auto simp: s'_def bkey_def)
  show "dirty_blocks s' = dirty_blocks s" using M(4) .
qed

text \<open>Reading a block: the client may look at its contents.\<close>

lemma tx_read:
  fixes s :: "'a log_scheme"
  assumes t: "tx c H k s" and n: "n < disksize s" and nh: "\<And>i. i \<in> H \<Longrightarrow> b_blockno (bufs s i) \<noteq> n" and h: "card H \<le> 1"
  shows "\<exists>b s1 s'. bread c 1 n s = Ok (b, s1) \<and> b_data (bufs s1 b) = view s n \<and> same_store s s1 \<and> brelse c b s1 = Ok s' \<and>
     tx c H k s' \<and> same_store s s' \<and> (\<forall>i\<in>H. bkey (bufs s' i) = bkey (bufs s i) \<and> b_data (bufs s' i) = b_data (bufs s i))"
proof -
  from tx_bread[OF t n nh h] obtain b s1 where
    1: "bread c 1 n s = Ok (b, s1)" "b \<notin> H" "tx c (insert b H) k s1" "holds_block b n (view s n) s1" "same_store s s1"
      "\<forall>i\<in>H. bufs s1 i = bufs s i" "n \<in> dirty_blocks s \<or> view s n = disk s n" by blast
  have "n \<in> dirty_blocks s1 \<or> view s n = disk s1 n" using 1(7) same_storeD[OF 1(5)] by simp
  from tx_brelse[OF 1(3) _ 1(4) this] obtain s' where
    2: "brelse c b s1 = Ok s'" "tx c (insert b H - {b}) k s'" "same_store s1 s'"
      "\<forall>i. bkey (bufs s' i) = bkey (bufs s1 i) \<and> b_data (bufs s' i) = b_data (bufs s1 i)" by blast
  have "insert b H - {b} = H" using 1(2) by blast
  then show ?thesis using 1 2 same_store_trans[OF 1(5) 2(3)] by (auto simp: holds_block_def)
qed

text \<open>Changing a block: read, change, log and release it.\<close>

lemma tx_update:
  fixes s :: "'a log_scheme"
  assumes t: "tx c H (Suc k) s" and n: "n < disksize s" and nh: "\<And>i. i \<in> H \<Longrightarrow> b_blockno (bufs s i) \<noteq> n" and h: "card H \<le> 1"
    and na: "n \<notin> log_area (l_start s) (log_len s)"
  shows "\<exists>b s1 s'. bread c 1 n s = Ok (b, s1) \<and> b_data (bufs s1 b) = view s n \<and> same_store s s1 \<and>
     bindR (log_write b (upd_buf b (\<lambda>x. x\<lparr>b_data := f (b_data x)\<rparr>) s1)) (brelse c b) = Ok s' \<and>
     tx c H k s' \<and> view s' = (view s)(n := f (view s n)) \<and> dirty_blocks s' = insert n (dirty_blocks s) \<and> tx_frame s s' \<and>
     (\<forall>i\<in>H. bkey (bufs s' i) = bkey (bufs s i) \<and> b_data (bufs s' i) = b_data (bufs s i))"
proof -
  from tx_bread[OF t n nh h] obtain b s1 where
    1: "bread c 1 n s = Ok (b, s1)" "b \<notin> H" "tx c (insert b H) (Suc k) s1" "holds_block b n (view s n) s1" "same_store s s1"
      "\<forall>i\<in>H. bufs s1 i = bufs s i" by blast
  let ?s2 = "upd_buf b (\<lambda>x. x\<lparr>b_data := f (b_data x)\<rparr>) s1"
  note F1 = tx_frame_fields[OF same_store_tx_frame[OF 1(5)]]
  note M = tx_modify[OF 1(3) _ 1(4), where f = f]
  note F2 = tx_frame_fields[OF M(4)]
  have na2: "n \<notin> log_area (l_start ?s2) (log_len ?s2)" using na F1 F2 by simp
  from log_write_ok[OF M(1) _ M(3) na2] obtain s3 where
    3: "log_write b ?s2 = Ok s3" "tx c (insert b H) k s3" "view s3 = view ?s2" "dirty_blocks s3 = insert n (dirty_blocks ?s2)" "tx_frame ?s2 s3"
      "\<forall>i. bkey (bufs s3 i) = bkey (bufs ?s2 i) \<and> b_data (bufs s3 i) = b_data (bufs ?s2 i)" by blast
  have h3: "holds_block b n (f (view s n)) s3" using M(3) 3(6) by (simp add: holds_block_def)
  from tx_brelse[OF 3(2) _ h3] 3(4) obtain s' where
    4: "brelse c b s3 = Ok s'" "tx c (insert b H - {b}) k s'" "same_store s3 s'"
      "\<forall>i. bkey (bufs s' i) = bkey (bufs s3 i) \<and> b_data (bufs s' i) = b_data (bufs s3 i)" by blast
  have e: "insert b H - {b} = H" using 1(2) by blast
  have "tx_frame s s'"
    using tx_frame_trans[OF same_store_tx_frame[OF 1(5)] tx_frame_trans[OF M(4) tx_frame_trans[OF 3(5) same_store_tx_frame[OF 4(3)]]]]
    by blast
  moreover have "view s' = (view s)(n := f (view s n))"
    using same_storeD(1)[OF 4(3)] 3(3) M(2) same_storeD(1)[OF 1(5)] by simp
  moreover have "bkey (bufs s' i) = bkey (bufs s i) \<and> b_data (bufs s' i) = b_data (bufs s i)" if "i \<in> H" for i
  proof -
    have "i \<noteq> b" using that 1(2) by blast
    then show ?thesis using 4(4) 3(6) M(6)[of i] 1(6) that by simp
  qed
  moreover have "dirty_blocks s' = insert n (dirty_blocks s)"
    using same_storeD(4)[OF 4(3)] 3(4) M(7) same_storeD(4)[OF 1(5)] by simp
  ultimately show ?thesis using 1 3 4 e by (auto simp: holds_block_def)
qed

end
