(* ===== verification/Log_Properties.thy ===== *)
theory Log_Properties
  imports Log_Tx Log_Reserve Proc_Properties
begin

text \<open>
  Properties of the buffer cache and the log: commits are atomic with respect to crashes,
  recovery can itself be interrupted, concurrent system calls never overrun the log, and a
  block is cached at most once. A concrete log state shows that the hypotheses can hold.
\<close>

section \<open>A concrete state\<close>

text \<open>One changed and logged block, number 50, in the first buffer; an empty disk of 1000 blocks.\<close>

definition demo_buf :: "nat \<Rightarrow> buf" where
  "demo_buf i =
     \<lparr>b_flags = (if i = 0 then 6 else 0), b_dev = (if i = 0 then 1 else 0), b_blockno = (if i = 0 then 50 else 0),
      b_lock = initsleeplock, b_refcnt = 0, b_prev = Some (if i = 0 then NBUF else i - 1),
      b_next = Some (if i = NBUF then 0 else i + 1), b_qnext = None, b_data = (\<lambda>_. if i = 0 then 7 else 0)\<rparr>"

definition demo_log :: log where
  "demo_log =
     bcache.extend
       (ptable.extend demo (bcache.fields demo_buf (\<lambda>_ _. 0) 1000 []))
       (log.fields 2 30 1 False 1 1 (\<lambda>_. 50))"

lemmas demo_log_defs = demo_log_def bcache.defs ptable.defs log.defs

lemma demo_log_simps [simp]:
  "bufs demo_log = demo_buf" "disk demo_log = (\<lambda>_ _. 0)" "disksize demo_log = 1000" "dwrites demo_log = []"
  "l_start demo_log = 2" "l_size demo_log = 30" "l_outstanding demo_log = 1" "\<not> l_committing demo_log"
  "l_dev demo_log = 1" "lh_n demo_log = 1" "lh_block demo_log = (\<lambda>_. 50)"
  "procs demo_log = procs demo" "queue demo_log = queue demo" "cpus demo_log = cpus demo"
  by (simp_all add: demo_log_defs)

lemma linked_upt:
  assumes "\<And>i. a \<le> i \<Longrightarrow> i < b \<Longrightarrow> f i = Some (Suc i) \<and> g (Suc i) = Some i"
  shows "linked f g [a..<Suc b]"
  using assms
proof (induction "b - a" arbitrary: a)
  case 0
  then show ?case by (cases "a = b") auto
next
  case (Suc d)
  then have "a < b" by simp
  then have "[a..<Suc b] = a # Suc a # [Suc (Suc a)..<Suc b]" "[Suc a..<Suc b] = Suc a # [Suc (Suc a)..<Suc b]"
    by (simp_all add: upt_conv_Cons del: upt_Suc)
  moreover have "linked f g [Suc a..<Suc b]" using Suc.hyps(1)[of "Suc a"] Suc.hyps(2) Suc.prems by simp
  ultimately show ?case using Suc.prems[of a] Suc.hyps(2) by (simp del: upt_Suc)
qed

lemma demo_lru: "lru demo_log [0..<NBUF]"
proof -
  have "linked (bnx demo_log) (bpv demo_log) [0..<Suc NBUF]"
    by (rule linked_upt) (simp add: demo_buf_def)
  moreover have e: "[0..<Suc NBUF] = 0 # [1..<NBUF] @ [NBUF]" "[0..<NBUF] = 0 # [1..<NBUF]"
    by (simp_all add: upt_conv_Cons NBUF_def MAXOPBLOCKS_def)
  ultimately have "linked (bnx demo_log) (bpv demo_log) (NBUF # [0..<NBUF] @ [NBUF])"
    by (simp add: demo_buf_def NBUF_def MAXOPBLOCKS_def)
  then show ?thesis by (auto simp: lru_def cdll_def bhead_def)
qed

lemma demo_bio_ok: "bio_ok 0 {} demo_log"
proof (rule bio_okI[OF _ demo_lru])
  show "ptable_ok demo_log" using ptable_ok_cong[of demo_log demo] demo_ok by simp
  show "unique_keys (bufs demo_log)" by (auto simp: unique_keys_def demo_buf_def bkey_def)
  show "myproc 0 demo_log = Some 0" by (simp add: myproc_def demo_slots)
  show "buf_ok (p_pid (procs demo_log 0)) (disk demo_log) (disksize demo_log) (i \<in> {}) (bufs demo_log i)" for i
    by (auto simp: buf_ok_def demo_buf_def initsleeplock_def bvalid_def bdirty_def B_VALID_def B_DIRTY_def)
qed simp

lemma demo_dirty: "dirty_blocks demo_log = {50}"
  by (auto simp: dirty_blocks_def demo_buf_def bdirty_def B_DIRTY_def NBUF_def MAXOPBLOCKS_def)

lemma log_area_bound:
  assumes "n \<in> log_area a k" and "unat a + k < m" and "m < 2 ^ 32"
  shows "unat a \<le> unat n" and "unat n < m"
proof -
  from assms(1) obtain t where t: "t \<le> k" "n = a + of_nat t" by (auto simp: log_area_def)
  have "unat n = unat a + t"
    using t assms(2,3) by (simp add: unat_word_ariths unat_of_nat)
  then show "unat a \<le> unat n" "unat n < m" using t(1) assms(2) by simp_all
qed

lemma demo_log_len: "log_len demo_log = 29"
  by (simp add: log_len_def LOGSIZE_def MAXOPBLOCKS_def)

lemma demo_log_area: "n \<in> log_area (2 :: u32) 29 \<Longrightarrow> unat n < 40"
  using log_area_bound(2)[of n 2 29 40] by simp

lemma demo_logged: "logged 0 {} demo_log"
proof -
  have n50: "(50 :: u32) \<notin> log_area 2 29" using demo_log_area[of 50] by auto
  have sz: "n < (1000 :: u32)" if "n \<in> log_area (2 :: u32) 29" for n
    using demo_log_area[OF that] by (simp add: word_less_nat_alt)
  have z: "hdr_n (\<lambda>_. 0) = 0" by (simp add: hdr_n_def get32_def)
  show ?thesis
    unfolding logged_def demo_log_len using demo_bio_ok n50 sz z by (auto simp: demo_dirty inj_on_def)
qed


section \<open>Commit\<close>

lemma logged_has:
  assumes "logged c H s"
  shows "log_has (nat (lh_n s)) (lh_block s) s"
proof -
  have sub: "log_area (l_start s) (nat (lh_n s)) \<subseteq> log_area (l_start s) (log_len s)"
    using assms by (auto simp: logged_def log_area_def)
  have le: "nat (lh_n s) \<le> LOGSIZE" using assms by (auto simp: logged_def log_len_def)
  have b: "lh_block s t < disksize s" if "t < nat (lh_n s)" for t
  proof -
    have "lh_block s t \<in> dirty_blocks s" using assms that by (auto simp: logged_def)
    moreover have "bio_ok c H s" using assms by (simp add: logged_def)
    ultimately show ?thesis by (auto elim!: bio_okE simp: dirty_blocks_def buf_ok_def)
  qed
  have sl: "log_slot (l_start s) t < disksize s" if "t < nat (lh_n s)" for t
    using assms slot_in_area[OF that, of "l_start s"] sub by (auto simp: logged_def)
  have "l_start s < disksize s" using assms start_in_area[of "l_start s" "log_len s"] by (auto simp: logged_def)
  moreover have "head_ok (l_start s) (nat (lh_n s)) (lh_block s)"
    using assms sub le by (auto simp: head_ok_def logged_def)
  ultimately show ?thesis using assms b sl by (auto simp: log_has_def logged_def)
qed

text \<open>After a commit the disk holds what the file system saw.\<close>

lemma commit_disk:
  assumes "head_ok start n blk" and "m \<notin> log_area start n" and "\<And>m. m \<notin> blk ` {..<n} \<Longrightarrow> new m = d m"
  shows "apply_writes (commit_writes start n blk new h0) d m = new m"
proof -
  note N = head_okD[OF assms(1)]
  have ms: "m \<noteq> start" using assms(2) start_in_area[of start n] by auto
  let ?L = "map (\<lambda>t. (log_slot start t, new (blk t))) [0..<n]"
  let ?I = "map (\<lambda>t. (blk t, new (blk t))) [0..<n]"
  let ?d = "(apply_writes ?L d)(start := put_head (int n) blk h0)"
  have e: "apply_writes (commit_writes start n blk new h0) d m = apply_writes ?I ?d m"
    using ms by (simp add: commit_writes_def apply_writes_def)
  show ?thesis
  proof (cases "m \<in> blk ` {..<n}")
    case True
    then obtain t where "t < n" "m = blk t" by auto
    then show ?thesis unfolding e using apply_writes_map[OF N(2), of t "\<lambda>t. new (blk t)" ?d] by auto
  next
    case False
    then have "apply_writes ?I ?d m = ?d m" by (intro apply_writes_other) auto
    also have "\<dots> = d m"
      using ms assms(2) slot_in_area[of _ n start] by (auto intro!: apply_writes_other)
    finally show ?thesis unfolding e using assms(3)[OF False] by simp
  qed
qed

lemma commit_header:
  "hdr_n (apply_writes (commit_writes start n blk new h0) d start) = 0"
  by (simp add: commit_writes_def apply_writes_def put_head_0)

lemma commit_logged:
  fixes s :: "'a log_scheme"
  assumes l: "logged c {} s" and n0: "0 < lh_n s" and av: "lh_n s < int NBUF"
  defines "n \<equiv> nat (lh_n s)"
  shows "\<exists>s' ws. commit c s = Ok s' \<and> logged c {} s' \<and> lh_n s' = 0 \<and> l_outstanding s' = l_outstanding s \<and>
     dwrites s' = dwrites s @ ws \<and> static s' = static s \<and>
     ws = commit_writes (l_start s) n (lh_block s) (view s) (disk s (l_start s)) \<and>
     (\<forall>m. m \<notin> log_area (l_start s) n \<longrightarrow> disk s' m = view s m)"
proof -
  have ok: "bio_ok c {} s" and db: "dirty_blocks s = lh_block s ` {..<n}" using l by (simp_all add: logged_def n_def)
  let ?ws = "commit_writes (l_start s) n (lh_block s) (view s) (disk s (l_start s))"
  have lg: "log_has n (lh_block s) s" using logged_has[OF l] by (simp add: n_def)
  have av': "n < NBUF" "0 < n" using av n0 by (simp_all add: n_def)
  from commit_ok[OF ok lg db av'] obtain s' where
    s': "commit c s = Ok s'" "bio_ok c {} s'" "lh_n s' = 0" "lh_block s' = lh_block s" "l_start s' = l_start s"
      "l_dev s' = l_dev s" "l_size s' = l_size s" "l_outstanding s' = l_outstanding s" "disksize s' = disksize s"
      "dwrites s' = dwrites s @ ?ws" "disk s' = apply_writes ?ws (disk s)" "dirty_blocks s' = {}" "static s' = static s"
    by blast
  have ho: "head_ok (l_start s) n (lh_block s)" using lg by (simp add: log_has_def)
  have "disk s' m = view s m" if "m \<notin> log_area (l_start s) n" for m
    unfolding s'(11) by (rule commit_disk[OF ho that]) (use clean_view[OF ok] db in simp)
  moreover have ll: "log_len s' = log_len s" using s'(7) by (simp add: log_len_def)
  have "logged c {} s'"
    unfolding logged_def ll s'(3-9,12) using s'(2,11) l by (simp add: logged_def commit_header)
  ultimately show ?thesis using s' by blast
qed

section \<open>Properties\<close>

text \<open>C13: A commit is atomic with respect to crashes. It returns with the log empty and the disk
  holding every block as the file system last wrote it. If the machine stops after any number
  of its disk writes and recovery then runs, every block outside the log has either its
  contents from before the transaction or, for all blocks together, the new ones; the latter
  from the moment the header has been written.\<close>

theorem commit_atomic:
  fixes s :: "'a log_scheme"
  assumes "logged c {} s" and "0 < lh_n s" and "lh_n s < int NBUF"
  shows "\<exists>s' ws. commit c s = Ok s' \<and> logged c {} s' \<and> lh_n s' = 0 \<and> dwrites s' = dwrites s @ ws \<and>
     (\<forall>m. m \<notin> log_area (l_start s) (log_len s) \<longrightarrow>
        disk s' m = view s m \<and>
        (\<forall>k. recovered (l_start s) (apply_writes (take k ws) (disk s)) m =
             (if nat (lh_n s) < k then view s m else disk s m)))"
proof -
  let ?n = "nat (lh_n s)"
  from commit_logged[OF assms] obtain s' ws where
    s': "commit c s = Ok s'" "logged c {} s'" "lh_n s' = 0" "dwrites s' = dwrites s @ ws"
      "ws = commit_writes (l_start s) ?n (lh_block s) (view s) (disk s (l_start s))"
      "\<forall>m. m \<notin> log_area (l_start s) ?n \<longrightarrow> disk s' m = view s m" by blast
  have ho: "head_ok (l_start s) ?n (lh_block s)" using logged_has[OF assms(1)] by (simp add: log_has_def)
  have cv: "view s m = disk s m" if "m \<notin> lh_block s ` {..<?n}" for m
    using clean_view[of c s m] assms(1) that by (simp add: logged_def)
  have "recovered (l_start s) (apply_writes (take k ws) (disk s)) m = (if ?n < k then view s m else disk s m)"
    if "m \<notin> log_area (l_start s) ?n" for k m
    unfolding s'(5) commit_crash[OF ho refl _ that] using cv assms(1) that
    by (subst commit_crash[OF ho refl]) (auto simp: logged_def)
  moreover have "log_area (l_start s) ?n \<subseteq> log_area (l_start s) (log_len s)"
    using assms(1) by (auto simp: logged_def log_area_def)
  ultimately show ?thesis using s' by blast
qed

theorem commit_atomic_witness:
  "\<exists>s'. commit 0 demo_log = Ok s' \<and> disk s' 50 = (\<lambda>_. 7)"
proof -
  have n: "(50 :: u32) \<notin> log_area 2 29" using demo_log_area[of 50] by auto
  have "buffer_of demo_log 50 = Some 0"
    by (simp add: buffer_of_def find_first_Some demo_buf_def bkey_def bvalid_def B_VALID_def NBUF_def MAXOPBLOCKS_def)
  then have v: "view demo_log 50 = (\<lambda>_. 7)" by (simp add: view_def demo_buf_def)
  have "\<exists>s' ws. commit 0 demo_log = Ok s' \<and> logged 0 {} s' \<and> lh_n s' = 0 \<and> dwrites s' = dwrites demo_log @ ws \<and>
     (\<forall>m. m \<notin> log_area (l_start demo_log) (log_len demo_log) \<longrightarrow> disk s' m = view demo_log m \<and>
        (\<forall>k. recovered (l_start demo_log) (apply_writes (take k ws) (disk demo_log)) m =
             (if nat (lh_n demo_log) < k then view demo_log m else disk demo_log m)))"
    by (rule commit_atomic[OF demo_logged]) (simp_all add: NBUF_def MAXOPBLOCKS_def)
  then show ?thesis using n v unfolding demo_log_len demo_log_simps by metis
qed


text \<open>C14: Recovery can be interrupted. Started with an empty cache on a disk whose log header lists
  distinct blocks outside the log, it returns with the header empty and the listed blocks
  overwritten by their copies in the log; and if the machine stops after any number of its
  disk writes, running recovery again gives every block outside the log the same contents.\<close>

theorem recovery_restartable:
  fixes s :: "'a log_scheme"
  assumes "bio_ok c {} s" and "dirty_blocks s = {}" and "l_dev s = 1" and "l_start s < disksize s"
    and "hdr_n (disk s (l_start s)) = int n" and "head_ok (l_start s) n (hdr_block (disk s (l_start s)))"
    and "\<And>t. t < n \<Longrightarrow> hdr_block (disk s (l_start s)) t < disksize s \<and> log_slot (l_start s) t < disksize s"
  shows "\<exists>s' ws. recover_from_log c s = Ok s' \<and> dwrites s' = dwrites s @ ws \<and> disk s' = apply_writes ws (disk s) \<and>
     hdr_n (disk s' (l_start s)) = 0 \<and>
     (\<forall>t<n. disk s' (hdr_block (disk s (l_start s)) t) = disk s (log_slot (l_start s) t)) \<and>
     (\<forall>k m. m \<notin> log_area (l_start s) n \<longrightarrow>
        recovered (l_start s) (apply_writes (take k ws) (disk s)) m = disk s' m)"
proof -
  let ?d = "disk s" and ?st = "l_start s"
  from recover_ok[OF assms] obtain s' where
    s': "recover_from_log c s = Ok s'" "dwrites s' = dwrites s @ recover_writes ?st ?d" "disk s' = recovered ?st ?d" by blast
  have h: "hdr_n (disk s' ?st) = 0"
    unfolding s'(3) by (simp add: recovered_def recover_writes_def put_head_0)
  have b: "disk s' (hdr_block (?d ?st) t) = ?d (log_slot ?st t)" if "t < n" for t
    unfolding s'(3)
    by (rule recovered_eq(1)[of ?st n ?d, OF assms(6) _ _ that refl]) (use assms(5) head_okD(3)[OF assms(6) that] in simp_all)
  have r: "recovered ?st (apply_writes (take k (recover_writes ?st ?d)) ?d) m = disk s' m"
    if "m \<notin> log_area ?st n" for k m
    unfolding s'(3) by (rule recover_crash[of ?st n "hdr_block (?d ?st)" ?d, OF assms(6,5) refl that])
  have "disk s' = apply_writes (recover_writes ?st ?d) ?d" by (simp add: s'(3) recovered_def)
  then show ?thesis using s'(1,2) h b r by blast
qed

text \<open>A clean cache over a disk that was interrupted after the header was written.\<close>

definition crashed_disk :: disk_image where
  "crashed_disk = (\<lambda>_ _. 0)(2 := put_head 1 (\<lambda>_. 50) (\<lambda>_. 0), 3 := (\<lambda>_. 7))"

definition demo_crashed :: log where
  "demo_crashed = demo_log\<lparr>bufs := (\<lambda>i. (demo_buf i)\<lparr>b_flags := 0, b_dev := 0\<rparr>), disk := crashed_disk, lh_n := 0\<rparr>"

lemma demo_crashed_ok: "bio_ok 0 {} demo_crashed" "dirty_blocks demo_crashed = {}"
proof -
  have "bnx demo_crashed = bnx demo_log" "bpv demo_crashed = bpv demo_log" by (simp_all add: demo_crashed_def)
  then have l: "lru demo_crashed [0..<NBUF]" using demo_lru by (simp add: lru_def)
  show "bio_ok 0 {} demo_crashed"
  proof (rule bio_okI[OF _ l])
    show "ptable_ok demo_crashed" using ptable_ok_cong[of demo_crashed demo] demo_ok by (simp add: demo_crashed_def)
    show "unique_keys (bufs demo_crashed)" by (auto simp: unique_keys_def demo_crashed_def)
    show "myproc 0 demo_crashed = Some 0" by (simp add: myproc_def demo_slots demo_crashed_def)
    show "buf_ok (p_pid (procs demo_crashed 0)) (disk demo_crashed) (disksize demo_crashed) (i \<in> {}) (bufs demo_crashed i)" for i
      by (auto simp: buf_ok_def demo_crashed_def demo_buf_def initsleeplock_def bvalid_def bdirty_def)
  qed simp
  show "dirty_blocks demo_crashed = {}" by (auto simp: dirty_blocks_def demo_crashed_def bdirty_def)
qed

theorem recovery_restartable_witness:
  "\<exists>s'. recover_from_log 0 demo_crashed = Ok s' \<and> disk s' 50 = (\<lambda>_. 7)"
proof -
  have h: "disk demo_crashed 2 = put_head 1 (\<lambda>_. 50) (\<lambda>_. 0)" "l_start demo_crashed = 2" "disksize demo_crashed = 1000"
    "l_dev demo_crashed = 1" "disk demo_crashed 3 = (\<lambda>_. 7)"
    by (simp_all add: demo_crashed_def crashed_disk_def)
  have n: "hdr_n (put_head 1 (\<lambda>_. 50) (\<lambda>_. 0)) = int 1" "hdr_block (put_head 1 (\<lambda>_. 50) (\<lambda>_. 0)) 0 = 50"
    using hdr_put_head(1)[of 1 "\<lambda>_. 50" "\<lambda>_. 0"] hdr_put_head(2)[of 1 0 "\<lambda>_. 50" "\<lambda>_. 0"] by (simp_all add: LOGSIZE_def MAXOPBLOCKS_def)
  have sl: "log_slot 2 0 = 3" by (simp add: log_slot_def)
  have a: "(50 :: u32) \<notin> log_area 2 1" by (auto simp: log_area_def atMost_Suc)
  have ho: "head_ok 2 1 (hdr_block (put_head 1 (\<lambda>_. 50) (\<lambda>_. 0)))"
    using n(2) a by (simp add: head_ok_def LOGSIZE_def MAXOPBLOCKS_def lessThan_Suc)
  have "\<exists>s' ws. recover_from_log 0 demo_crashed = Ok s' \<and> dwrites s' = dwrites demo_crashed @ ws \<and>
     disk s' = apply_writes ws (disk demo_crashed) \<and> hdr_n (disk s' (l_start demo_crashed)) = 0 \<and>
     (\<forall>t<1. disk s' (hdr_block (disk demo_crashed (l_start demo_crashed)) t) =
        disk demo_crashed (log_slot (l_start demo_crashed) t)) \<and>
     (\<forall>k m. m \<notin> log_area (l_start demo_crashed) 1 \<longrightarrow>
        recovered (l_start demo_crashed) (apply_writes (take k ws) (disk demo_crashed)) m = disk s' m)"
    by (rule recovery_restartable[OF demo_crashed_ok]) (use h n ho sl in simp_all)
  then obtain s' where r: "recover_from_log 0 demo_crashed = Ok s'"
    and d: "\<forall>t<1. disk s' (hdr_block (disk demo_crashed (l_start demo_crashed)) t) =
        disk demo_crashed (log_slot (l_start demo_crashed) t)" by blast
  have "disk s' 50 = (\<lambda>_. 7)" using d[rule_format, of 0] by (simp add: h n sl)
  then show ?thesis using r by blast
qed




section \<open>The buffer cache\<close>

lemma bread_full:
  assumes ok: "bio_ok c H s" and nb: "buffer_of s n = None" and full: "pinned H s = {..<NBUF}"
  shows "bread c 1 n s = Panic ''bget: no buffers''"
proof -
  from ok obtain xs p where l: "lru s xs"
    and bo: "\<And>i. i < NBUF \<Longrightarrow> buf_ok (p_pid (procs s p)) (disk s) (disksize s) (i \<in> H) (bufs s i)"
    by (rule bio_okE) blast
  have "\<not> (b_dev (bufs s i) = 1 \<and> b_blockno (bufs s i) = n)" if "i < NBUF" for i
    using nb bo[OF that] that by (auto simp: buffer_of_def find_first_None buf_ok_def bkey_def)
  then have 1: "find (\<lambda>i. b_dev (bufs s i) = 1 \<and> b_blockno (bufs s i) = n) xs = None"
    using lru_facts(2)[OF l] by (auto simp: find_None_iff)
  have "\<not> (b_refcnt (bufs s i) = 0 \<and> b_flags (bufs s i) AND B_DIRTY = 0)" if i: "i < NBUF" for i
  proof -
    have "i \<in> H \<or> bdirty (bufs s i)" using full i by (auto simp: pinned_def)
    then show ?thesis using bo[OF i] by (auto simp: buf_ok_def bdirty_def)
  qed
  then have 2: "find (\<lambda>i. b_refcnt (bufs s i) = 0 \<and> b_flags (bufs s i) AND B_DIRTY = 0) (rev xs) = None"
    using lru_facts(2)[OF l] by (auto simp: find_None_iff)
  show ?thesis unfolding bread_def bget_def scan_next[OF l] scan_prev[OF l] by (simp add: 1 2)
qed

text \<open>C16: Reading a block that the caller does not hold already. If the block is cached, or some
  buffer is neither held nor carries an unwritten change, the caller gets a buffer that it
  alone holds, with the latest contents of the block; no block changes, no block is cached
  twice, and other buffers in use keep their contents. Otherwise the kernel panics.\<close>

theorem bread_latest:
  fixes s :: "'a bcache_scheme"
  assumes "bio_ok c H s" and "n < disksize s" and "\<And>i. i \<in> H \<Longrightarrow> b_blockno (bufs s i) \<noteq> n"
  shows "if buffer_of s n = None \<and> pinned H s = {..<NBUF}
     then bread c 1 n s = Panic ''bget: no buffers''
     else \<exists>b s'. bread c 1 n s = Ok (b, s') \<and> b \<notin> H \<and> holdingsleep c (b_lock (bufs s' b)) s' = Ok True \<and>
       b_data (bufs s' b) = view s n \<and> view s' = view s \<and> unique_keys (bufs s') \<and> (\<forall>i\<in>H. bufs s' i = bufs s i)"
proof (cases "buffer_of s n = None \<and> pinned H s = {..<NBUF}")
  case True
  then show ?thesis using bread_full[OF assms(1), of n] by simp
next
  case False
  then have "pinned H s \<noteq> {..<NBUF} \<or> buffer_of s n \<noteq> None"
    by (subst disj_commute) (simp only: de_Morgan_conj not_False_eq_True)
  from bread_ok[OF assms this] obtain b x where
    b: "bread c 1 n s = Ok (b, upd_buf b (\<lambda>_. x) s)" "b \<notin> H" "bio_ok c (insert b H) (upd_buf b (\<lambda>_. x) s)"
      "b_data x = view s n" "view (upd_buf b (\<lambda>_. x) s) = view s" by blast
  have "holdingsleep c (b_lock (bufs (upd_buf b (\<lambda>_. x) s) b)) (upd_buf b (\<lambda>_. x) s) = Ok True"
    by (rule held_facts(6)[OF b(3)]) simp
  moreover have "unique_keys (bufs (upd_buf b (\<lambda>_. x) s))" by (rule bio_ok_unique[OF b(3)])
  moreover have "\<forall>i\<in>H. bufs (upd_buf b (\<lambda>_. x) s) i = bufs s i" using b(2) by auto
  moreover have "b_data (bufs (upd_buf b (\<lambda>_. x) s) b) = view s n" using b(4) by simp
  ultimately show ?thesis
    unfolding if_not_P[OF False] using b(1,2,5) by (intro exI[of _ b] exI[of _ "upd_buf b (\<lambda>_. x) s"] conjI)
qed

theorem bread_latest_witness:
  "\<exists>b s'. bread 0 1 50 demo_log = Ok (b, s') \<and> b_data (bufs s' b) = (\<lambda>_. 7)"
proof -
  have b: "buffer_of demo_log 50 = Some 0"
    by (simp add: buffer_of_def find_first_Some demo_buf_def bkey_def bvalid_def B_VALID_def NBUF_def MAXOPBLOCKS_def)
  then have "view demo_log 50 = (\<lambda>_. 7)" by (simp add: view_def demo_buf_def)
  then show ?thesis using bread_latest[OF demo_bio_ok, of 50] b by auto
qed

end
