(* ===== verification/Demo.thy ===== *)
theory Demo
  imports Console_Line Pipe Log_Properties
begin

text \<open>
  A concrete machine for the witnesses: the process table and the log of the earlier theories,
  extended by an empty inode cache, open files, a pipe whose counters are about to wrap
  around, and an idle console.
\<close>

definition demo_sb :: superblock where
  "demo_sb = \<lparr>sb_size = 1000, sb_nblocks = 941, sb_ninodes = 200, sb_nlog = 30, sb_logstart = 2,
     sb_inodestart = 32, sb_bmapstart = 58\<rparr>"

definition blank_inode :: inode where
  "blank_inode = \<lparr>i_dev = 0, i_inum = 0, i_ref = 0, i_lock = initsleeplock, i_valid = False, i_type = 0,
     i_major = 0, i_minor = 0, i_nlink = 0, i_size = 0, i_addrs = (\<lambda>_. 0)\<rparr>"

definition blank_file :: xfile where
  "blank_file = \<lparr>f_type = FD_NONE, f_ref = 0, f_readable = False, f_writable = False, f_pipe = 0, f_ip = 0, f_off = 0\<rparr>"

definition demo_pipe :: pipe where
  "demo_pipe = \<lparr>pi_data = (\<lambda>_. 0), pi_nread = 0xFFFFFFFE, pi_nwrite = 0xFFFFFFFE, pi_readopen = True, pi_writeopen = True\<rparr>"

definition demo_kern :: kern where
  "demo_kern =
     ftable.extend
       (icache.extend (log.extend demo_log (icache.fields demo_sb (\<lambda>_. blank_inode)))
         (ftable.fields (\<lambda>_. blank_file) (\<lambda>_. demo_pipe)))
       (kern.fields 0 False (\<lambda>_. 0) 0 0 0 (\<lambda>_. 0) 0 [])"

lemmas demo_kern_defs = demo_kern_def ftable.defs icache.defs log.defs kern.defs

lemma demo_kern_simps [simp]:
  "pipes demo_kern = (\<lambda>_. demo_pipe)" "files demo_kern = (\<lambda>_. blank_file)" "inodes demo_kern = (\<lambda>_. blank_inode)"
  "fs_sb demo_kern = demo_sb"
  "procs demo_kern = procs demo" "queue demo_kern = queue demo" "cpus demo_kern = cpus demo"
  "in_buf demo_kern = (\<lambda>_. 0)" "in_r demo_kern = 0" "in_w demo_kern = 0" "in_e demo_kern = 0"
  "crt_pos demo_kern = 0" "ticks demo_kern = 0" "uart_out demo_kern = []"
proof -
  have "procs demo_kern = procs demo_log \<and> queue demo_kern = queue demo_log \<and> cpus demo_kern = cpus demo_log"
    by (simp add: demo_kern_defs)
  then show "procs demo_kern = procs demo" "queue demo_kern = queue demo" "cpus demo_kern = cpus demo" by simp_all
qed (simp_all add: demo_kern_defs)

lemma demo_kern_ok: "ptable_ok demo_kern"
  using demo_ok ptable_ok_cong[of demo_kern demo] by simp

lemma demo_kern_proc: "myproc 0 demo_kern = Some 0" "\<not> p_killed (procs demo 0)"
  by (simp_all add: myproc_def demo_slots) (simp add: demo_defs)

end
