(* ===== verification/Io_Properties.thy ===== *)
theory Io_Properties
  imports Demo
begin

text \<open>The properties of pipes and of the console.\<close>

section \<open>Pipes\<close>

lemma demo_pipe_empty:
  "pipe_ok demo_pipe" "pipe_bytes demo_pipe = []" "pipe_room demo_pipe = 512" "pi_writeopen demo_pipe"
  by (simp_all add: pipe_ok_def pipe_bytes_def pipe_room_def demo_pipe_def)

text \<open>C17: A pipe delivers every byte once and in order. Whatever the interleaving of writers and
  readers on an initially empty pipe, and although its counters wrap around, the bytes taken so
  far followed by the bytes in the buffer are the bytes stored so far, and at most 512 bytes
  are waiting.\<close>

theorem pipe_fifo:
  assumes "pipe_run p s0 ws rs s" and "pi_nread (pipes s0 p) = pi_nwrite (pipes s0 p)"
  shows "ws = rs @ pipe_bytes (pipes s p) \<and> length ws - length rs \<le> 512"
  using pipe_run_stream[OF assms] pq.bound[of "pipes s p"] by auto

theorem pipe_fifo_witness:
  "\<exists>rs s. pipe_run 0 demo_kern [1, 2, 3] rs s \<and> rs @ pipe_bytes (pipes s 0) = [1, 2, 3] \<and> length rs = 2"
proof -
  obtain s where w: "pipewrite 0 0 [1, 2, 3] demo_kern = Ok (Returned 3, s)" "ptable_ok s"
    using pipewrite_returns[of demo_kern 0 0 0 "[1, 2, 3]"] demo_kern_ok demo_kern_proc(1)
    by (auto simp: demo_pipe_empty)
  have r1: "pipe_run 0 demo_kern [1, 2, 3] [] s"
    using pipe_run.writes[OF pipe_run.start w(1)] by (simp add: demo_pipe_empty)
  have b: "pipes s 0 = pipes (filled 0 [1, 2, 3] demo_kern) 0" "pipe_bytes (pipes s 0) = [1, 2, 3]" "pipe_ok (pipes s 0)"
    using pipewrite_bytes[OF _ w(1)] filled_bytes[of demo_kern 0 "[1, 2, 3]"] by (simp_all add: demo_pipe_empty)
  have q: "myproc 0 s = Some 0"
    using w(1) demo_kern_proc(1) wakeup_ok[of "filled 0 [1, 2, 3] demo_kern" "ChanPipeRead 0"] demo_kern_ok
    by (auto simp: pipewrite_cases demo_pipe_empty filled_def Let_def res_iff woken_myproc)
  obtain vs t where r: "piperead 0 0 2 s = Ok (Returned 2, vs, t)"
    using piperead_returns[OF b(3) w(2) q, of 2] b(2) by auto
  have "length vs = 2" using piperead_bytes(4)[OF b(3) r] b(2) by auto
  moreover have "pipe_run 0 demo_kern [1, 2, 3] vs t" using pipe_run.reads[OF r1 r] by simp
  moreover from pipe_fifo[OF this] have "[1, 2, 3] = vs @ pipe_bytes (pipes t 0)"
    by (simp add: demo_pipe_def)
  ultimately show ?thesis by metis
qed

text \<open>C18: Every outcome of writing to and reading from a pipe. A writer stores all its bytes and
  returns their number if they fit; otherwise it stores as many as fit and fails if nobody can
  read the pipe or it has been killed, and sleeps if not. A reader of an empty pipe that can
  still be written to sleeps, or fails if killed; any other reader takes as many of the oldest
  bytes as it asked for and are there.\<close>

theorem pipe_outcomes:
  assumes "pipe_ok (pipes s p)" and "ptable_ok s" and "myproc c s = Some q"
  shows "(\<exists>r s'. pipewrite c p vs s = Ok (r, s') \<and>
      pipe_bytes (pipes s' p) = pipe_bytes (pipes s p) @ take (pipe_room (pipes s p)) vs \<and>
      r = (if length vs \<le> pipe_room (pipes s p) then Returned (int (length vs))
           else if \<not> pi_readopen (pipes s p) \<or> p_killed (procs s q) then Returned (-1)
           else Asleep (pipe_room (pipes s p)))) \<and>
    (\<exists>r us s'. piperead c p n s = Ok (r, us, s') \<and>
      us @ pipe_bytes (pipes s' p) = pipe_bytes (pipes s p) \<and>
      (if pipe_bytes (pipes s p) = [] \<and> pi_writeopen (pipes s p)
       then r = (if p_killed (procs s q) then Returned (-1) else Asleep 0)
       else r = Returned (int (length us)) \<and> length us = min (nat n) (length (pipe_bytes (pipes s p)))))"
proof
  from pipewrite_returns[OF assms] obtain s' where w: "pipewrite c p vs s =
      Ok (if length vs \<le> pipe_room (pipes s p) then Returned (int (length vs))
          else if \<not> pi_readopen (pipes s p) \<or> p_killed (procs s q) then Returned (-1)
          else Asleep (pipe_room (pipes s p)), s')" by blast
  show "\<exists>r s'. pipewrite c p vs s = Ok (r, s') \<and>
      pipe_bytes (pipes s' p) = pipe_bytes (pipes s p) @ take (pipe_room (pipes s p)) vs \<and>
      r = (if length vs \<le> pipe_room (pipes s p) then Returned (int (length vs))
           else if \<not> pi_readopen (pipes s p) \<or> p_killed (procs s q) then Returned (-1)
           else Asleep (pipe_room (pipes s p)))"
    using w pipewrite_bytes[OF assms(1) w] filled_bytes(2)[OF assms(1)] by simp
  from piperead_returns[OF assms] obtain us t where r: "piperead c p n s =
      Ok (if pipe_bytes (pipes s p) = [] \<and> pi_writeopen (pipes s p)
          then if p_killed (procs s q) then Returned (-1) else Asleep 0
          else Returned (int (length us)), us, t)"
    and l: "length us = (if pipe_bytes (pipes s p) = [] then 0 else min (nat n) (length (pipe_bytes (pipes s p))))"
    by blast
  note b = piperead_bytes[OF assms(1) r]
  have "us @ pipe_bytes (pipes t p) = pipe_bytes (pipes s p)"
    using b(1) unfolding b(2) by (metis append_take_drop_id)
  with r l show "\<exists>r us s'. piperead c p n s = Ok (r, us, s') \<and>
      us @ pipe_bytes (pipes s' p) = pipe_bytes (pipes s p) \<and>
      (if pipe_bytes (pipes s p) = [] \<and> pi_writeopen (pipes s p)
       then r = (if p_killed (procs s q) then Returned (-1) else Asleep 0)
       else r = Returned (int (length us)) \<and> length us = min (nat n) (length (pipe_bytes (pipes s p))))"
    by simp
qed

theorem pipe_outcomes_witness:
  "(\<exists>s. pipewrite 0 0 [65] demo_kern = Ok (Returned 1, s)) \<and> (\<exists>s. piperead 0 0 5 demo_kern = Ok (Asleep 0, [], s))"
  using pipe_outcomes[of demo_kern 0 0 0 "[65]" 5] demo_kern_ok demo_kern_proc
  by (auto simp: demo_pipe_empty)

section \<open>The console\<close>

lemma demo_console: "console_ok demo_kern" "typed demo_kern = []" "editing demo_kern = []"
  using demo_kern_ok
  by (simp_all add: console_ok_def line_ok_def span_ok_def input_ok_def cursor_ok_def typed_def editing_def)

text \<open>C19: The console implements its line discipline. The interrupt handler never fails and has
  on the input buffer the effect of editing a line: characters are appended while fewer than
  128 are waiting, backspace deletes the last one of the line, control-U the whole line, and a
  newline, control-D or a full buffer makes the line readable. A reader takes the readable
  bytes up to and with the first newline, or up to control-D.\<close>

theorem console_line_discipline:
  assumes "console_ok s" and "\<forall>c\<in>set cs. 0 \<le> c \<and> c < 256"
  shows "(\<exists>s'. consoleintr cs s = Ok s' \<and> console_ok s' \<and>
      (typed s', editing s') = fold a_char cs (typed s, editing s)) \<and>
    (\<exists>bs w s'. consoleread_loop n full s = (bs, w, s') \<and>
      (bs, w, typed s') = a_read n full (typed s) \<and> editing s' = editing s)"
proof
  show "\<exists>s'. consoleintr cs s = Ok s' \<and> console_ok s' \<and> (typed s', editing s') = fold a_char cs (typed s, editing s)"
    by (rule consoleintr_refines[OF assms])
  have "line_ok s" using assms(1) by (simp add: console_ok_def)
  from consoleread_loop_refines[OF this, of n full]
  show "\<exists>bs w s'. consoleread_loop n full s = (bs, w, s') \<and> (bs, w, typed s') = a_read n full (typed s) \<and> editing s' = editing s"
    by (auto split: prod.splits)
qed

theorem console_line_discipline_witness:
  "\<exists>s. consoleintr [108, 120, 8, 115, 13] demo_kern = Ok s \<and> typed s = [108, 115, 10] \<and> editing s = []"
  using console_line_discipline[OF demo_console(1), of "[108, 120, 8, 115, 13]" 0 True]
  by (auto simp: demo_console a_char_def key_defs)

end
