(* ===== verification/Umem.thy ===== *)
theory Umem
  imports Proc_Table
begin

text \<open>
  User memory as the kernel reaches it: the trap frame on the kernel stack, the page-fault
  case of \<^verbatim>\<open>trap\<close> (\<^verbatim>\<open>src/xv6/trap.c\<close>), which allocates the pages below the size of the process
  lazily, and the argument fetching of \<^verbatim>\<open>src/xv6/syscall.c\<close>. The kernel dereferences user
  pointers through the page table of the current process; a page that is not there yet is
  supplied by the page-fault handler, after which the processor repeats the access. An
  access that the handler cannot make possible is repeated forever; that is \<open>Exhausted\<close>.
\<close>

section \<open>The trap frame\<close>

text \<open>Byte offsets of the fields of \<^verbatim>\<open>struct trapframe\<close>.\<close>

definition tf_eax :: u32 where "tf_eax = 28"
definition tf_es :: u32 where "tf_es = 40"
definition tf_ds :: u32 where "tf_ds = 44"
definition tf_trapno :: u32 where "tf_trapno = 48"
definition tf_err :: u32 where "tf_err = 52"
definition tf_eip :: u32 where "tf_eip = 56"
definition tf_cs :: u32 where "tf_cs = 60"
definition tf_eflags :: u32 where "tf_eflags = 64"
definition tf_esp :: u32 where "tf_esp = 68"
definition tf_ss :: u32 where "tf_ss = 72"

lemmas tf_offsets = tf_eax_def tf_es_def tf_ds_def tf_trapno_def tf_err_def tf_eip_def tf_cs_def
  tf_eflags_def tf_esp_def tf_ss_def

definition get_tf :: "nat \<Rightarrow> u32 \<Rightarrow> 'a ptable_scheme \<Rightarrow> u32" where
  "get_tf p fld s = mem s (p_tf (procs s p) + fld)"

definition set_tf :: "nat \<Rightarrow> u32 \<Rightarrow> u32 \<Rightarrow> 'a ptable_scheme \<Rightarrow> 'a ptable_scheme" where
  "set_tf p fld v s = s\<lparr>mem := (mem s)(p_tf (procs s p) + fld := v)\<rparr>"

section \<open>Page faults\<close>

definition set_killed :: "nat \<Rightarrow> 'a ptable_scheme \<Rightarrow> 'a ptable_scheme" where
  "set_killed p s = upd_proc p (\<lambda>q. q\<lparr>p_killed := True\<rparr>) s"

definition page_fault :: "nat \<Rightarrow> u32 \<Rightarrow> u32 \<Rightarrow> 'a ptable_scheme \<Rightarrow> 'a ptable_scheme res" where
  "page_fault c fltaddr err s =
     (case myproc c s of
        None \<Rightarrow> Fault
      | Some p \<Rightarrow>
          if fltaddr \<ge> p_sz (procs s p) then Ok (set_killed p s)
          else let fltpage = PGROUNDDOWN fltaddr; pgdir = p_pgdir (procs s p);
                   pgfltpde = fst (walkpgdir pgdir fltpage False s)
            in if pgfltpde \<noteq> 0 \<and> mem s pgfltpde AND PTE_P \<noteq> 0
               then if err AND PTE_U = 0 then Panic ''kernel had a page fault''
                    else Ok (set_killed p s)
               else let (v, s) = kalloc s
                 in if v = 0 then Ok (set_killed p s)
                    else bindR (mappages pgdir fltpage PGSIZE (V2P v) (PTE_W OR PTE_U)
                                  (s\<lparr>mem := page_fill v 0 (mem s)\<rparr>)) (\<lambda>(r, s).
                         if r < 0 then Ok (set_killed p s) else Ok s))"

section \<open>Accesses of the kernel to user memory\<close>

text \<open>The entry that maps a user address, \<open>0\<close> if there is none.\<close>

definition upte :: "u32 \<Rightarrow> u32 \<Rightarrow> 'a kmem_scheme \<Rightarrow> u32" where
  "upte pgdir va s = (let pte = fst (walkpgdir pgdir va False s) in if pte = 0 then 0 else mem s pte)"

text \<open>The kernel address of the byte at user address \<open>va\<close>, faulting the page in if needed.\<close>

definition utouch :: "nat \<Rightarrow> u32 \<Rightarrow> 'a ptable_scheme \<Rightarrow> (u32 \<times> 'a ptable_scheme) res" where
  "utouch c va s =
     (case myproc c s of
        None \<Rightarrow> Fault
      | Some p \<Rightarrow>
          let pgdir = p_pgdir (procs s p); ka = (\<lambda>e. P2V (PTE_ADDR e) + (va - PGROUNDDOWN va))
          in if upte pgdir va s AND PTE_P \<noteq> 0 then Ok (ka (upte pgdir va s), s)
             else bindR (page_fault c va 0 s) (\<lambda>s.
                  if upte pgdir va s AND PTE_P \<noteq> 0 then Ok (ka (upte pgdir va s), s) else Exhausted))"

definition uload :: "nat \<Rightarrow> u32 \<Rightarrow> 'a ptable_scheme \<Rightarrow> (u8 \<times> 'a ptable_scheme) res" where
  "uload c va s = bindR (utouch c va s) (\<lambda>(a, s). Ok (load_byte (mem s) a, s))"

fun uload_bytes :: "nat \<Rightarrow> u32 \<Rightarrow> nat \<Rightarrow> 'a ptable_scheme \<Rightarrow> (u8 list \<times> 'a ptable_scheme) res" where
  "uload_bytes c va 0 s = Ok ([], s)"
| "uload_bytes c va (Suc n) s =
     bindR (uload c va s) (\<lambda>(b, s).
     bindR (uload_bytes c (va + 1) n s) (\<lambda>(bs, s). Ok (b # bs, s)))"

fun ustore_bytes :: "nat \<Rightarrow> u32 \<Rightarrow> u8 list \<Rightarrow> 'a ptable_scheme \<Rightarrow> 'a ptable_scheme res" where
  "ustore_bytes c va [] s = Ok s"
| "ustore_bytes c va (b # bs) s =
     bindR (utouch c va s) (\<lambda>(a, s).
     ustore_bytes c (va + 1) bs (s\<lparr>mem := store_byte (mem s) a b\<rparr>))"

definition word_bytes :: "u32 \<Rightarrow> u8 list" where
  "word_bytes w = map (\<lambda>i. ucast (drop_bit (8 * i) w)) [0..<4]"

definition bytes_word :: "u8 list \<Rightarrow> u32" where
  "bytes_word bs = foldr (\<lambda>b w. ucast b OR push_bit 8 w) bs 0"

section \<open>System call arguments\<close>

definition fetchint :: "nat \<Rightarrow> u32 \<Rightarrow> 'a ptable_scheme \<Rightarrow> (u32 option \<times> 'a ptable_scheme) res" where
  "fetchint c addr s =
     (case myproc c s of
        None \<Rightarrow> Fault
      | Some p \<Rightarrow>
          if addr \<ge> p_sz (procs s p) \<or> addr + 4 > p_sz (procs s p) then Ok (None, s)
          else bindR (uload_bytes c addr 4 s) (\<lambda>(bs, s). Ok (Some (bytes_word bs), s)))"

text \<open>The loop of \<^verbatim>\<open>fetchstr\<close> with \<open>n\<close> bytes left below the size of the process.\<close>

fun fetchstr_loop :: "nat \<Rightarrow> u32 \<Rightarrow> nat \<Rightarrow> 'a ptable_scheme \<Rightarrow> (u8 list option \<times> 'a ptable_scheme) res" where
  "fetchstr_loop c a 0 s = Ok (None, s)"
| "fetchstr_loop c a (Suc n) s =
     bindR (uload c a s) (\<lambda>(b, s).
     if b = 0 then Ok (Some [], s)
     else bindR (fetchstr_loop c (a + 1) n s) (\<lambda>(r, s). Ok (map_option ((#) b) r, s)))"

definition fetchstr :: "nat \<Rightarrow> u32 \<Rightarrow> 'a ptable_scheme \<Rightarrow> (u8 list option \<times> 'a ptable_scheme) res" where
  "fetchstr c addr s =
     (case myproc c s of
        None \<Rightarrow> Fault
      | Some p \<Rightarrow>
          if addr \<ge> p_sz (procs s p) then Ok (None, s)
          else fetchstr_loop c addr (unat (p_sz (procs s p)) - unat addr) s)"

definition argint :: "nat \<Rightarrow> u32 \<Rightarrow> 'a ptable_scheme \<Rightarrow> (u32 option \<times> 'a ptable_scheme) res" where
  "argint c n s =
     (case myproc c s of
        None \<Rightarrow> Fault
      | Some p \<Rightarrow> fetchint c (get_tf p tf_esp s + 4 + 4 * n) s)"

definition argptr :: "nat \<Rightarrow> u32 \<Rightarrow> int \<Rightarrow> 'a ptable_scheme \<Rightarrow> (u32 option \<times> 'a ptable_scheme) res" where
  "argptr c n len s =
     bindR (argint c n s) (\<lambda>(r, s).
     case (r, myproc c s) of
       (None, _) \<Rightarrow> Ok (None, s)
     | (Some i, None) \<Rightarrow> Fault
     | (Some i, Some p) \<Rightarrow>
         let sz = p_sz (procs s p)
         in if len < 0 \<or> i \<ge> sz \<or> i + of_int len > sz then Ok (None, s) else Ok (Some i, s))"

definition argstr :: "nat \<Rightarrow> u32 \<Rightarrow> 'a ptable_scheme \<Rightarrow> (u8 list option \<times> 'a ptable_scheme) res" where
  "argstr c n s =
     bindR (argint c n s) (\<lambda>(r, s).
     case r of None \<Rightarrow> Ok (None, s) | Some addr \<Rightarrow> fetchstr c addr s)"

end
