(* ===== verification/Proc_Sys.thy ===== *)
theory Proc_Sys
  imports Console Umem
begin

text \<open>
  The functions of \<^verbatim>\<open>src/xv6/proc.c\<close> that also touch files and address spaces: \<^verbatim>\<open>fork\<close>, \<^verbatim>\<open>exit\<close>,
  \<^verbatim>\<open>userinit\<close> and \<^verbatim>\<open>forkret\<close>, composed from the critical sections of \<open>Proc_Table\<close>, the open
  files and the file system.
\<close>

definition NAMELEN :: nat where "NAMELEN = 16"

text \<open>\<^verbatim>\<open>safestrcpy(p->name, name, sizeof(p->name))\<close>.\<close>

definition set_name :: "nat \<Rightarrow> (nat \<Rightarrow> u8) \<Rightarrow> 'a ptable_scheme \<Rightarrow> 'a ptable_scheme" where
  "set_name p name s =
     upd_proc p (\<lambda>q. q\<lparr>p_name := bytes_of (safestrcpy (of_bytes (p_name q)) name (int NAMELEN)) 0 NAMELEN\<rparr>) s"

text \<open>Copying the 19 words of a trap frame.\<close>

definition copy_tf :: "u32 \<Rightarrow> u32 \<Rightarrow> (u32 \<Rightarrow> u32) \<Rightarrow> (u32 \<Rightarrow> u32)" where
  "copy_tf dst src m = fold (\<lambda>i m. m(dst + 4 * of_nat i := m (src + 4 * of_nat i))) [0..<19] m"

definition dup_ofile :: "nat \<Rightarrow> nat \<Rightarrow> nat \<Rightarrow> 'a ftable_scheme \<Rightarrow> 'a ftable_scheme res" where
  "dup_ofile curproc np i s =
     (case p_ofile (procs s curproc) i of
        None \<Rightarrow> Ok s
      | Some f \<Rightarrow>
          bindR (filedup f s) (\<lambda>s. Ok (upd_proc np (\<lambda>q. q\<lparr>p_ofile := (p_ofile q)(i := Some f)\<rparr>) s)))"

definition fork :: "nat \<Rightarrow> 'a ftable_scheme \<Rightarrow> (u32 \<times> 'a ftable_scheme) res" where
  "fork c s =
     (case myproc c s of
        None \<Rightarrow> Fault
      | Some curproc \<Rightarrow>
          (case allocproc s of
             (None, s) \<Rightarrow> Ok (-1, s)
           | (Some np, s) \<Rightarrow>
               bindR (copyuvm (p_pgdir (procs s curproc)) (p_sz (procs s curproc)) s) (\<lambda>(d, s).
               let s = upd_proc np (\<lambda>q. q\<lparr>p_pgdir := d\<rparr>) s
               in if d = 0 then bindR (fork_abort np s) (\<lambda>s. Ok (-1, s))
                  else let s = upd_proc np (\<lambda>q. q\<lparr>p_sz := p_sz (procs s curproc), p_parent := Some curproc\<rparr>) s;
                           s = s\<lparr>mem := copy_tf (p_tf (procs s np)) (p_tf (procs s curproc)) (mem s)\<rparr>;
                           s = set_tf np tf_eax 0 s
                       in bindR (foldR (dup_ofile curproc np) [0..<NOFILE] s) (\<lambda>s.
                          case p_cwd (procs s curproc) of
                            None \<Rightarrow> Fault
                          | Some cwd \<Rightarrow>
                              let s = idup cwd s;
                                  s = upd_proc np (\<lambda>q. q\<lparr>p_cwd := Some cwd\<rparr>) s;
                                  s = set_name np (of_bytes (p_name (procs s curproc))) s;
                                  pid = p_pid (procs s np)
                              in bindR (fork_commit np s) (\<lambda>s. Ok (pid, s))))))"

definition close_ofile :: "nat \<Rightarrow> nat \<Rightarrow> nat \<Rightarrow> 'a ftable_scheme \<Rightarrow> 'a ftable_scheme res" where
  "close_ofile c curproc fd s =
     (case p_ofile (procs s curproc) fd of
        None \<Rightarrow> Ok s
      | Some f \<Rightarrow>
          bindR (fileclose c f s) (\<lambda>s.
          Ok (upd_proc curproc (\<lambda>q. q\<lparr>p_ofile := (p_ofile q)(fd := None)\<rparr>) s)))"

definition exit :: "nat \<Rightarrow> u32 \<Rightarrow> 'a ftable_scheme \<Rightarrow> 'a ftable_scheme res" where
  "exit c status s =
     (case myproc c s of
        None \<Rightarrow> Fault
      | Some curproc \<Rightarrow>
          if initproc s = Some curproc then Panic ''init exiting''
          else bindR (foldR (close_ofile c curproc) [0..<NOFILE] s) (\<lambda>s.
               bindR (begin_op s) (\<lambda>s.
               case p_cwd (procs s curproc) of
                 None \<Rightarrow> Fault
               | Some cwd \<Rightarrow>
                   bindR (iput c cwd s) (\<lambda>s.
                   bindR (end_op c s) (\<lambda>s.
                   exit_locked c status (upd_proc curproc (\<lambda>q. q\<lparr>p_cwd := None\<rparr>) s))))))"

text \<open>\<open>initcode\<close> is the binary image of \<^verbatim>\<open>initcode.S\<close>, linked into the kernel.\<close>

definition userinit ::
  "(nat \<Rightarrow> 'a ftable_scheme devsw) \<Rightarrow> nat \<Rightarrow> u8 list \<Rightarrow> 'a ftable_scheme \<Rightarrow> 'a ftable_scheme res" where
  "userinit D c initcode s =
     (case allocproc s of
        (None, s) \<Rightarrow> Fault
      | (Some p, s) \<Rightarrow>
          bindR (setupkvm (s\<lparr>initproc := Some p\<rparr>)) (\<lambda>(d, s).
          if d = 0 then Panic ''userinit: out of memory?''
          else bindR (inituvm d initcode (upd_proc p (\<lambda>q. q\<lparr>p_pgdir := d\<rparr>) s)) (\<lambda>s.
               let s = upd_proc p (\<lambda>q. q\<lparr>p_sz := PGSIZE\<rparr>) s;
                   s = fold (\<lambda>i. set_tf p (4 * of_nat i) 0) [0..<19] s;
                   s = set_tf p tf_cs (of_nat (SEG_UCODE * 8) OR DPL_USER) s;
                   ds = of_nat (SEG_UDATA * 8) OR DPL_USER;
                   s = set_tf p tf_ds ds s;
                   s = set_tf p tf_es ds s;
                   s = set_tf p tf_ss ds s;
                   s = set_tf p tf_eflags FL_IF s;
                   s = set_tf p tf_esp PGSIZE s;
                   s = set_tf p tf_eip 0 s;
                   s = set_name p (of_bytes [0x69, 0x6E, 0x69, 0x74, 0x63, 0x6F, 0x64, 0x65]) s
               in bindR (namei D c [SLASH] s) (\<lambda>(cwd, s).
                  userinit_commit p (upd_proc p (\<lambda>q. q\<lparr>p_cwd := cwd\<rparr>) s)))))"

definition forkret :: "nat \<Rightarrow> 'a kern_scheme \<Rightarrow> 'a kern_scheme res" where
  "forkret c s =
     (if forkret_first s
      then bindR (iinit c ROOTDEV (s\<lparr>forkret_first := False\<rparr>)) (initlog c ROOTDEV)
      else Ok s)"

end
