(* ===== verification/Fcntl.thy ===== *)
theory Fcntl
  imports Xv6_Prelude
begin

text \<open>The flags of \<^verbatim>\<open>open\<close>, \<^verbatim>\<open>src/xv6/fcntl.h\<close>, shared by the kernel and by user programs.\<close>

definition O_RDONLY :: u32 where "O_RDONLY = 0"
definition O_WRONLY :: u32 where "O_WRONLY = 1"
definition O_RDWR :: u32 where "O_RDWR = 2"
definition O_CREATE :: u32 where "O_CREATE = 0x200"

end
