(* ===== verification/Sysfile.thy ===== *)
theory Sysfile
  imports Proc_Sys Fcntl
begin

text \<open>
  The file system calls, \<^verbatim>\<open>src/xv6/sysfile.c\<close>. A call delivers the value for \<^verbatim>\<open>%eax\<close>; reading and
  writing a pipe may instead leave the process asleep, which is \<open>None\<close>. A C \<^verbatim>\<open>goto bad\<close> is a
  local function.
\<close>

type_synonym 's call = "(u32 option \<times> 's) res"

abbreviation returns :: "u32 \<Rightarrow> 's \<Rightarrow> 's call" where
  "returns r s \<equiv> Ok (Some r, s)"

definition io_result :: "io \<Rightarrow> u32 option" where
  "io_result r = (case r of Returned i \<Rightarrow> Some (of_int i) | Asleep _ \<Rightarrow> None)"

section \<open>File descriptors\<close>

definition argfd :: "nat \<Rightarrow> u32 \<Rightarrow> 'a ftable_scheme \<Rightarrow> ((nat \<times> nat) option \<times> 'a ftable_scheme) res" where
  "argfd c n s =
     bindR (argint c n s) (\<lambda>(r, s).
     case (r, myproc c s) of
       (None, _) \<Rightarrow> Ok (None, s)
     | (Some fd, None) \<Rightarrow> Fault
     | (Some fd, Some p) \<Rightarrow>
         if sint fd < 0 \<or> sint fd \<ge> int NOFILE then Ok (None, s)
         else Ok (map_option (\<lambda>f. (unat fd, f)) (p_ofile (procs s p) (unat fd)), s))"

definition set_ofile :: "nat \<Rightarrow> nat \<Rightarrow> nat option \<Rightarrow> 'a ptable_scheme \<Rightarrow> 'a ptable_scheme" where
  "set_ofile p fd f s = upd_proc p (\<lambda>q. q\<lparr>p_ofile := (p_ofile q)(fd := f)\<rparr>) s"

definition fdalloc :: "nat \<Rightarrow> nat \<Rightarrow> 'a ptable_scheme \<Rightarrow> (nat option \<times> 'a ptable_scheme) res" where
  "fdalloc c f s =
     (case myproc c s of
        None \<Rightarrow> Fault
      | Some p \<Rightarrow>
          (case find_first (\<lambda>fd. p_ofile (procs s p) fd = None) NOFILE of
             None \<Rightarrow> Ok (None, s)
           | Some fd \<Rightarrow> Ok (Some fd, set_ofile p fd (Some f) s)))"

definition sys_dup :: "nat \<Rightarrow> 'a ftable_scheme \<Rightarrow> 'a ftable_scheme call" where
  "sys_dup c s =
     bindR (argfd c 0 s) (\<lambda>(r, s).
     case r of
       None \<Rightarrow> returns (-1) s
     | Some (_, f) \<Rightarrow>
         bindR (fdalloc c f s) (\<lambda>(fd, s).
         case fd of
           None \<Rightarrow> returns (-1) s
         | Some fd \<Rightarrow> bindR (filedup f s) (returns (of_nat fd))))"

definition sys_dup2 :: "nat \<Rightarrow> 'a ftable_scheme \<Rightarrow> 'a ftable_scheme call" where
  "sys_dup2 c s =
     bindR (argfd c 0 s) (\<lambda>(r, s).
     case r of
       None \<Rightarrow> returns (-1) s
     | Some (oldfd, oldf) \<Rightarrow>
         bindR (argint c 1 s) (\<lambda>(r, s).
         case (r, myproc c s) of
           (None, _) \<Rightarrow> returns (-1) s
         | (Some newfd, None) \<Rightarrow> Fault
         | (Some newfd, Some p) \<Rightarrow>
             if sint newfd < 0 \<or> sint newfd \<ge> int NOFILE then returns (-1) s
             else if unat newfd = oldfd then returns newfd s
             else bindR (case p_ofile (procs s p) (unat newfd) of
                           None \<Rightarrow> Ok s
                         | Some newf \<Rightarrow> fileclose c newf s) (\<lambda>s.
                  bindR (filedup oldf s) (\<lambda>s.
                  returns newfd (set_ofile p (unat newfd) (Some oldf) s)))))"

definition sys_read ::
  "(nat \<Rightarrow> 'a ftable_scheme devsw) \<Rightarrow> nat \<Rightarrow> 'a ftable_scheme \<Rightarrow> 'a ftable_scheme call" where
  "sys_read D c s =
     bindR (argfd c 0 s) (\<lambda>(r, s).
     case r of
       None \<Rightarrow> returns (-1) s
     | Some (_, f) \<Rightarrow>
         bindR (argint c 2 s) (\<lambda>(r, s).
         case r of
           None \<Rightarrow> returns (-1) s
         | Some n \<Rightarrow>
             bindR (argptr c 1 (sint n) s) (\<lambda>(r, s).
             case r of
               None \<Rightarrow> returns (-1) s
             | Some p \<Rightarrow>
                 bindR (fileread D c f (sint n) s) (\<lambda>(r, vs, s).
                 bindR (ustore_bytes c p vs s) (\<lambda>s. Ok (io_result r, s))))))"

definition sys_write ::
  "(nat \<Rightarrow> 'a ftable_scheme devsw) \<Rightarrow> nat \<Rightarrow> 'a ftable_scheme \<Rightarrow> 'a ftable_scheme call" where
  "sys_write D c s =
     bindR (argfd c 0 s) (\<lambda>(r, s).
     case r of
       None \<Rightarrow> returns (-1) s
     | Some (_, f) \<Rightarrow>
         bindR (argint c 2 s) (\<lambda>(r, s).
         case r of
           None \<Rightarrow> returns (-1) s
         | Some n \<Rightarrow>
             bindR (argptr c 1 (sint n) s) (\<lambda>(r, s).
             case r of
               None \<Rightarrow> returns (-1) s
             | Some p \<Rightarrow>
                 bindR (uload_bytes c p (unat n) s) (\<lambda>(vs, s).
                 bindR (filewrite D c f vs s) (\<lambda>(r, s). Ok (io_result r, s))))))"

definition sys_close :: "nat \<Rightarrow> 'a ftable_scheme \<Rightarrow> 'a ftable_scheme call" where
  "sys_close c s =
     bindR (argfd c 0 s) (\<lambda>(r, s).
     case (r, myproc c s) of
       (None, _) \<Rightarrow> returns (-1) s
     | (Some (fd, f), None) \<Rightarrow> Fault
     | (Some (fd, f), Some p) \<Rightarrow> bindR (fileclose c f (set_ofile p fd None s)) (returns 0))"

text \<open>\<^verbatim>\<open>struct stat\<close> at a user address, field by field.\<close>

definition ustore_stat :: "nat \<Rightarrow> u32 \<Rightarrow> stat \<Rightarrow> 'a ptable_scheme \<Rightarrow> 'a ptable_scheme res" where
  "ustore_stat c a st s =
     bindR (ustore_bytes c (a + 4) (word_bytes (st_dev st)) s) (\<lambda>s.
     bindR (ustore_bytes c (a + 8) (word_bytes (st_ino st)) s) (\<lambda>s.
     bindR (ustore_bytes c a (take 2 (word_bytes (ucast (st_type st)))) s) (\<lambda>s.
     bindR (ustore_bytes c (a + 12) (take 2 (word_bytes (ucast (st_nlink st)))) s) (\<lambda>s.
     ustore_bytes c (a + 16) (word_bytes (st_size st)) s))))"

definition sys_fstat :: "nat \<Rightarrow> 'a ftable_scheme \<Rightarrow> 'a ftable_scheme call" where
  "sys_fstat c s =
     bindR (argfd c 0 s) (\<lambda>(r, s).
     case r of
       None \<Rightarrow> returns (-1) s
     | Some (_, f) \<Rightarrow>
         bindR (argptr c 1 20 s) (\<lambda>(r, s).
         case r of
           None \<Rightarrow> returns (-1) s
         | Some a \<Rightarrow>
             bindR (filestat c f s) (\<lambda>(r, s).
             case r of
               None \<Rightarrow> returns (-1) s
             | Some st \<Rightarrow> bindR (ustore_stat c a st s) (returns 0))))"

section \<open>Links\<close>

definition sys_link ::
  "(nat \<Rightarrow> 'a ftable_scheme devsw) \<Rightarrow> nat \<Rightarrow> 'a ftable_scheme \<Rightarrow> 'a ftable_scheme call" where
  "sys_link D c s =
     bindR (argstr c 0 s) (\<lambda>(r, s).
     case r of
       None \<Rightarrow> returns (-1) s
     | Some old \<Rightarrow>
         bindR (argstr c 1 s) (\<lambda>(r, s).
         case r of
           None \<Rightarrow> returns (-1) s
         | Some new \<Rightarrow>
             bindR (begin_op s) (\<lambda>s.
             bindR (namei D c old s) (\<lambda>(r, s).
             case r of
               None \<Rightarrow> bindR (end_op c s) (returns (-1))
             | Some ip \<Rightarrow>
                 let bad = (\<lambda>s.
                       bindR (ilock c (Some ip) s) (\<lambda>s.
                       bindR (iupdate c ip (upd_ino ip (\<lambda>x. x\<lparr>i_nlink := i_nlink x - 1\<rparr>) s)) (\<lambda>s.
                       bindR (iunlockput c ip s) (\<lambda>s.
                       bindR (end_op c s) (returns (-1))))))
                 in bindR (ilock c (Some ip) s) (\<lambda>s.
                    if i_type (inodes s ip) = T_DIR
                    then bindR (iunlockput c ip s) (\<lambda>s. bindR (end_op c s) (returns (-1)))
                    else bindR (iupdate c ip (upd_ino ip (\<lambda>x. x\<lparr>i_nlink := i_nlink x + 1\<rparr>) s)) (\<lambda>s.
                         bindR (iunlock c (Some ip) s) (\<lambda>s.
                         bindR (nameiparent D c new s) (\<lambda>(r, s).
                         case r of
                           None \<Rightarrow> bad s
                         | Some (dp, name) \<Rightarrow>
                             bindR (ilock c (Some dp) s) (\<lambda>s.
                             bindR (if i_dev (inodes s dp) \<noteq> i_dev (inodes s ip) then Ok (-1, s)
                                    else dirlink D c dp name (i_inum (inodes s ip)) s) (\<lambda>(r, s).
                             bindR (iunlockput c dp s) (\<lambda>s.
                             if r < 0 then bad s
                             else bindR (iput c ip s) (\<lambda>s.
                                  bindR (end_op c s) (returns 0)))))))))))))"

fun isdirempty_loop ::
  "(nat \<Rightarrow> 'a icache_scheme devsw) \<Rightarrow> nat \<Rightarrow> nat \<Rightarrow> nat list \<Rightarrow> 'a icache_scheme \<Rightarrow> (bool \<times> 'a icache_scheme) res" where
  "isdirempty_loop D c dp [] s = Ok (True, s)"
| "isdirempty_loop D c dp (off # offs) s =
     bindR (readi D c dp (of_nat off) (of_nat DIRENT_SIZE) s) (\<lambda>(r, de, s).
     if r \<noteq> int DIRENT_SIZE then Panic ''isdirempty: readi''
     else if de_inum de \<noteq> 0 then Ok (False, s)
     else isdirempty_loop D c dp offs s)"

definition isdirempty ::
  "(nat \<Rightarrow> 'a icache_scheme devsw) \<Rightarrow> nat \<Rightarrow> nat \<Rightarrow> 'a icache_scheme \<Rightarrow> (bool \<times> 'a icache_scheme) res" where
  "isdirempty D c dp s = isdirempty_loop D c dp (drop 2 (dir_offs (i_size (inodes s dp)))) s"

definition DOT :: u8 where "DOT = 46"

definition sys_unlink ::
  "(nat \<Rightarrow> 'a ftable_scheme devsw) \<Rightarrow> nat \<Rightarrow> 'a ftable_scheme \<Rightarrow> 'a ftable_scheme call" where
  "sys_unlink D c s =
     bindR (argstr c 0 s) (\<lambda>(r, s).
     case r of
       None \<Rightarrow> returns (-1) s
     | Some path \<Rightarrow>
         bindR (begin_op s) (\<lambda>s.
         bindR (nameiparent D c path s) (\<lambda>(r, s).
         case r of
           None \<Rightarrow> bindR (end_op c s) (returns (-1))
         | Some (dp, name) \<Rightarrow>
             let bad = (\<lambda>s. bindR (iunlockput c dp s) (\<lambda>s. bindR (end_op c s) (returns (-1))))
             in bindR (ilock c (Some dp) s) (\<lambda>s.
                if namecmp (of_bytes name) (of_bytes [DOT]) = 0 \<or> namecmp (of_bytes name) (of_bytes [DOT, DOT]) = 0
                then bad s
                else bindR (dirlookup D c dp name s) (\<lambda>(r, s).
                     case r of
                       None \<Rightarrow> bad s
                     | Some (ip, off) \<Rightarrow>
                         bindR (ilock c (Some ip) s) (\<lambda>s.
                         if sint (i_nlink (inodes s ip)) < 1 then Panic ''unlink: nlink < 1''
                         else bindR (if i_type (inodes s ip) = T_DIR then isdirempty D c ip s else Ok (True, s)) (\<lambda>(e, s).
                              if \<not> e then bindR (iunlockput c ip s) bad
                              else bindR (writei D c dp (replicate DIRENT_SIZE 0) off s) (\<lambda>(r, s).
                                   if r \<noteq> int DIRENT_SIZE then Panic ''unlink: writei''
                                   else bindR (if i_type (inodes s ip) = T_DIR
                                               then iupdate c dp (upd_ino dp (\<lambda>x. x\<lparr>i_nlink := i_nlink x - 1\<rparr>) s)
                                               else Ok s) (\<lambda>s.
                                        bindR (iunlockput c dp s) (\<lambda>s.
                                        bindR (iupdate c ip (upd_ino ip (\<lambda>x. x\<lparr>i_nlink := i_nlink x - 1\<rparr>) s)) (\<lambda>s.
                                        bindR (iunlockput c ip s) (\<lambda>s.
                                        bindR (end_op c s) (returns 0)))))))))))))"

section \<open>Creating and opening\<close>

definition create ::
  "(nat \<Rightarrow> 'a ftable_scheme devsw) \<Rightarrow> nat \<Rightarrow> u8 list \<Rightarrow> u16 \<Rightarrow> u16 \<Rightarrow> u16 \<Rightarrow> 'a ftable_scheme \<Rightarrow>
   (nat option \<times> 'a ftable_scheme) res" where
  "create D c path type major minor s =
     bindR (nameiparent D c path s) (\<lambda>(r, s).
     case r of
       None \<Rightarrow> Ok (None, s)
     | Some (dp, name) \<Rightarrow>
         bindR (ilock c (Some dp) s) (\<lambda>s.
         bindR (dirlookup D c dp name s) (\<lambda>(r, s).
         case r of
           Some (ip, _) \<Rightarrow>
             bindR (iunlockput c dp s) (\<lambda>s.
             bindR (ilock c (Some ip) s) (\<lambda>s.
             if type = T_FILE \<and> i_type (inodes s ip) = T_FILE then Ok (Some ip, s)
             else bindR (iunlockput c ip s) (\<lambda>s. Ok (None, s))))
         | None \<Rightarrow>
             bindR (ialloc c (i_dev (inodes s dp)) type s) (\<lambda>(ip, s).
             bindR (ilock c (Some ip) s) (\<lambda>s.
             bindR (iupdate c ip (upd_ino ip (\<lambda>x. x\<lparr>i_major := major, i_minor := minor, i_nlink := 1\<rparr>) s)) (\<lambda>s.
             bindR (if type = T_DIR
                    then bindR (iupdate c dp (upd_ino dp (\<lambda>x. x\<lparr>i_nlink := i_nlink x + 1\<rparr>) s)) (\<lambda>s.
                         bindR (dirlink D c ip [DOT] (i_inum (inodes s ip)) s) (\<lambda>(r, s).
                         if r < 0 then Panic ''create dots''
                         else bindR (dirlink D c ip [DOT, DOT] (i_inum (inodes s dp)) s) (\<lambda>(r, s).
                              if r < 0 then Panic ''create dots'' else Ok s)))
                    else Ok s) (\<lambda>s.
             bindR (dirlink D c dp name (i_inum (inodes s ip)) s) (\<lambda>(r, s).
             if r < 0 then Panic ''create: dirlink''
             else bindR (iunlockput c dp s) (\<lambda>s. Ok (Some ip, s))))))))))"

definition sys_open ::
  "(nat \<Rightarrow> 'a ftable_scheme devsw) \<Rightarrow> nat \<Rightarrow> 'a ftable_scheme \<Rightarrow> 'a ftable_scheme call" where
  "sys_open D c s =
     bindR (argstr c 0 s) (\<lambda>(r, s).
     case r of
       None \<Rightarrow> returns (-1) s
     | Some path \<Rightarrow>
         bindR (argint c 1 s) (\<lambda>(r, s).
         case r of
           None \<Rightarrow> returns (-1) s
         | Some omode \<Rightarrow>
             bindR (begin_op s) (\<lambda>s.
             bindR (if omode AND O_CREATE \<noteq> 0 then create D c path T_FILE 0 0 s
                    else bindR (namei D c path s) (\<lambda>(r, s).
                         case r of
                           None \<Rightarrow> Ok (None, s)
                         | Some ip \<Rightarrow>
                             bindR (ilock c (Some ip) s) (\<lambda>s.
                             if i_type (inodes s ip) = T_DIR \<and> omode \<noteq> O_RDONLY
                             then bindR (iunlockput c ip s) (\<lambda>s. Ok (None, s))
                             else Ok (Some ip, s)))) (\<lambda>(r, s).
             case r of
               None \<Rightarrow> bindR (end_op c s) (returns (-1))
             | Some ip \<Rightarrow>
                 let fail = (\<lambda>s. bindR (iunlockput c ip s) (\<lambda>s. bindR (end_op c s) (returns (-1))))
                 in (case filealloc s of
                       (None, s) \<Rightarrow> fail s
                     | (Some f, s) \<Rightarrow>
                         bindR (fdalloc c f s) (\<lambda>(fd, s).
                         case fd of
                           None \<Rightarrow> bindR (fileclose c f s) fail
                         | Some fd \<Rightarrow>
                             bindR (iunlock c (Some ip) s) (\<lambda>s.
                             bindR (end_op c s) (\<lambda>s.
                             returns (of_nat fd)
                               (upd_file f (\<lambda>x. x\<lparr>f_type := FD_INODE, f_ip := ip, f_off := 0,
                                                  f_readable := omode AND O_WRONLY = 0,
                                                  f_writable := omode AND O_WRONLY \<noteq> 0 \<or> omode AND O_RDWR \<noteq> 0\<rparr>) s)))))))))"

definition sys_mkdir ::
  "(nat \<Rightarrow> 'a ftable_scheme devsw) \<Rightarrow> nat \<Rightarrow> 'a ftable_scheme \<Rightarrow> 'a ftable_scheme call" where
  "sys_mkdir D c s =
     bindR (begin_op s) (\<lambda>s.
     bindR (argstr c 0 s) (\<lambda>(r, s).
     bindR (case r of None \<Rightarrow> Ok (None, s) | Some path \<Rightarrow> create D c path T_DIR 0 0 s) (\<lambda>(r, s).
     case r of
       None \<Rightarrow> bindR (end_op c s) (returns (-1))
     | Some ip \<Rightarrow> bindR (iunlockput c ip s) (\<lambda>s. bindR (end_op c s) (returns 0)))))"

definition sys_mknod ::
  "(nat \<Rightarrow> 'a ftable_scheme devsw) \<Rightarrow> nat \<Rightarrow> 'a ftable_scheme \<Rightarrow> 'a ftable_scheme call" where
  "sys_mknod D c s =
     bindR (begin_op s) (\<lambda>s.
     bindR (argstr c 0 s) (\<lambda>(path, s).
     bindR (if path = None then Ok (None, s) else argint c 1 s) (\<lambda>(major, s).
     bindR (if major = None then Ok (None, s) else argint c 2 s) (\<lambda>(minor, s).
     bindR (case (path, major, minor) of
              (Some path, Some major, Some minor) \<Rightarrow> create D c path T_DEV (ucast major) (ucast minor) s
            | _ \<Rightarrow> Ok (None, s)) (\<lambda>(r, s).
     case r of
       None \<Rightarrow> bindR (end_op c s) (returns (-1))
     | Some ip \<Rightarrow> bindR (iunlockput c ip s) (\<lambda>s. bindR (end_op c s) (returns 0)))))))"

definition sys_chdir ::
  "(nat \<Rightarrow> 'a ftable_scheme devsw) \<Rightarrow> nat \<Rightarrow> 'a ftable_scheme \<Rightarrow> 'a ftable_scheme call" where
  "sys_chdir D c s =
     (case myproc c s of
        None \<Rightarrow> Fault
      | Some curproc \<Rightarrow>
          bindR (begin_op s) (\<lambda>s.
          bindR (argstr c 0 s) (\<lambda>(r, s).
          bindR (case r of None \<Rightarrow> Ok (None, s) | Some path \<Rightarrow> namei D c path s) (\<lambda>(r, s).
          case r of
            None \<Rightarrow> bindR (end_op c s) (returns (-1))
          | Some ip \<Rightarrow>
              bindR (ilock c (Some ip) s) (\<lambda>s.
              if i_type (inodes s ip) \<noteq> T_DIR
              then bindR (iunlockput c ip s) (\<lambda>s. bindR (end_op c s) (returns (-1)))
              else bindR (iunlock c (Some ip) s) (\<lambda>s.
                   case p_cwd (procs s curproc) of
                     None \<Rightarrow> Fault
                   | Some cwd \<Rightarrow>
                       bindR (iput c cwd s) (\<lambda>s.
                       bindR (end_op c s) (\<lambda>s.
                       returns 0 (upd_proc curproc (\<lambda>q. q\<lparr>p_cwd := Some ip\<rparr>) s)))))))))"

definition sys_pipe :: "nat \<Rightarrow> 'a ftable_scheme \<Rightarrow> 'a ftable_scheme call" where
  "sys_pipe c s =
     bindR (argptr c 0 8 s) (\<lambda>(r, s).
     case (r, myproc c s) of
       (None, _) \<Rightarrow> returns (-1) s
     | (Some fd, None) \<Rightarrow> Fault
     | (Some fd, Some p) \<Rightarrow>
         bindR (pipealloc c s) (\<lambda>(r, s).
         case r of
           None \<Rightarrow> returns (-1) s
         | Some (rfile, wfile) \<Rightarrow>
             let fail = (\<lambda>s. bindR (fileclose c rfile s) (\<lambda>s. bindR (fileclose c wfile s) (returns (-1))))
             in bindR (fdalloc c rfile s) (\<lambda>(fd0, s).
                case fd0 of
                  None \<Rightarrow> fail s
                | Some fd0 \<Rightarrow>
                    bindR (fdalloc c wfile s) (\<lambda>(fd1, s).
                    case fd1 of
                      None \<Rightarrow> fail (set_ofile p fd0 None s)
                    | Some fd1 \<Rightarrow>
                        bindR (ustore_bytes c fd (word_bytes (of_nat fd0)) s) (\<lambda>s.
                        bindR (ustore_bytes c (fd + 4) (word_bytes (of_nat fd1)) s) (returns 0))))))"

end
