(* ===== verification/Exec.thy ===== *)
theory Exec
  imports Sysfile
begin

text \<open>
  \<^verbatim>\<open>exec\<close>, \<^verbatim>\<open>src/xv6/exec.c\<close>: loading a program from an ELF file into a fresh address space,
  building its stack and switching to it; \<^verbatim>\<open>loaduvm\<close> of \<^verbatim>\<open>vm.c\<close> and \<^verbatim>\<open>sys_exec\<close> of
  \<^verbatim>\<open>sysfile.c\<close>. The ELF structures of \<^verbatim>\<open>elf.h\<close> are read from the bytes that \<^verbatim>\<open>readi\<close> delivers.
\<close>

definition ELF_MAGIC :: u32 where "ELF_MAGIC = 0x464C457F"
definition ELF_PROG_LOAD :: u32 where "ELF_PROG_LOAD = 1"
definition ELFHDR_SIZE :: nat where "ELFHDR_SIZE = 52"
definition PROGHDR_SIZE :: nat where "PROGHDR_SIZE = 32"

definition eh_magic :: "u8 list \<Rightarrow> u32" where "eh_magic h = get32 (of_bytes h) 0"
definition eh_entry :: "u8 list \<Rightarrow> u32" where "eh_entry h = get32 (of_bytes h) 24"
definition eh_phoff :: "u8 list \<Rightarrow> u32" where "eh_phoff h = get32 (of_bytes h) 28"
definition eh_phnum :: "u8 list \<Rightarrow> u16" where "eh_phnum h = get16 (of_bytes h) 44"

definition ph_type :: "u8 list \<Rightarrow> u32" where "ph_type h = get32 (of_bytes h) 0"
definition ph_off :: "u8 list \<Rightarrow> u32" where "ph_off h = get32 (of_bytes h) 4"
definition ph_vaddr :: "u8 list \<Rightarrow> u32" where "ph_vaddr h = get32 (of_bytes h) 8"
definition ph_filesz :: "u8 list \<Rightarrow> u32" where "ph_filesz h = get32 (of_bytes h) 16"
definition ph_memsz :: "u8 list \<Rightarrow> u32" where "ph_memsz h = get32 (of_bytes h) 20"

section \<open>Loading a segment\<close>

fun loaduvm_loop ::
  "(nat \<Rightarrow> 'a icache_scheme devsw) \<Rightarrow> nat \<Rightarrow> u32 \<Rightarrow> u32 \<Rightarrow> nat \<Rightarrow> u32 \<Rightarrow> u32 \<Rightarrow> nat list \<Rightarrow> 'a icache_scheme \<Rightarrow>
   (int \<times> 'a icache_scheme) res" where
  "loaduvm_loop D c pgdir addr ip offset sz [] s = Ok (0, s)"
| "loaduvm_loop D c pgdir addr ip offset sz (k # ks) s =
     (let i = of_nat k * PGSIZE; (pte, s) = walkpgdir pgdir (addr + i) False s
      in if pte = 0 then Panic ''loaduvm: address should exist''
         else let pa = PTE_ADDR (mem s pte); n = (if sz - i < PGSIZE then sz - i else PGSIZE)
           in bindR (readi D c ip (offset + i) n s) (\<lambda>(r, bs, s).
              let s = s\<lparr>mem := store_bytes (mem s) (P2V pa) bs\<rparr>
              in if r \<noteq> sint n then Ok (-1, s) else loaduvm_loop D c pgdir addr ip offset sz ks s))"

definition loaduvm ::
  "(nat \<Rightarrow> 'a icache_scheme devsw) \<Rightarrow> nat \<Rightarrow> u32 \<Rightarrow> u32 \<Rightarrow> nat \<Rightarrow> u32 \<Rightarrow> u32 \<Rightarrow> 'a icache_scheme \<Rightarrow>
   (int \<times> 'a icache_scheme) res" where
  "loaduvm D c pgdir addr ip offset sz s =
     (if addr mod PGSIZE \<noteq> 0 then Panic ''loaduvm: addr must be page aligned''
      else loaduvm_loop D c pgdir addr ip offset sz [0..<(unat sz + 4095) div 4096] s)"

section \<open>The program headers\<close>

text \<open>
  The loop over the \<open>k\<close> remaining program headers, the next at offset \<open>off\<close>; \<open>None\<close> is
  \<^verbatim>\<open>goto bad\<close>, otherwise the result is the size of the image.
\<close>

fun exec_load ::
  "(nat \<Rightarrow> 'a icache_scheme devsw) \<Rightarrow> nat \<Rightarrow> nat \<Rightarrow> u32 \<Rightarrow> nat \<Rightarrow> u32 \<Rightarrow> u32 \<Rightarrow> 'a icache_scheme \<Rightarrow>
   (u32 option \<times> 'a icache_scheme) res" where
  "exec_load D c ip pgdir 0 off sz s = Ok (Some sz, s)"
| "exec_load D c ip pgdir (Suc k) off sz s =
     bindR (readi D c ip off (of_nat PROGHDR_SIZE) s) (\<lambda>(r, ph, s).
     let off' = off + of_nat PROGHDR_SIZE
     in if r \<noteq> int PROGHDR_SIZE then Ok (None, s)
        else if ph_type ph \<noteq> ELF_PROG_LOAD \<or> ph_memsz ph = 0 then exec_load D c ip pgdir k off' sz s
        else if ph_memsz ph < ph_filesz ph then Ok (None, s)
        else if ph_vaddr ph + ph_memsz ph < ph_vaddr ph then Ok (None, s)
        else bindR (allocuvm pgdir sz (ph_vaddr ph + ph_memsz ph) s) (\<lambda>(sz, s).
             if sz = 0 then Ok (None, s)
             else if ph_vaddr ph mod PGSIZE \<noteq> 0 then Ok (None, s)
             else bindR (loaduvm D c pgdir (ph_vaddr ph) ip (ph_off ph) (ph_filesz ph) s) (\<lambda>(r, s).
                  if r < 0 then Ok (None, s) else exec_load D c ip pgdir k off' sz s)))"

section \<open>The stack\<close>

text \<open>
  The loop that pushes the argument strings. \<open>us\<close> are the addresses pushed so far, in order;
  the result is the stack pointer and all addresses.
\<close>

fun push_args :: "u32 \<Rightarrow> u8 list list \<Rightarrow> u32 \<Rightarrow> u32 list \<Rightarrow> 'a kmem_scheme \<Rightarrow> ((u32 \<times> u32 list) option \<times> 'a kmem_scheme) res" where
  "push_args pgdir [] sp us s = Ok (Some (sp, us), s)"
| "push_args pgdir (arg # args) sp us s =
     (if length us \<ge> MAXARG then Ok (None, s)
      else let sp = (sp - of_nat (length arg + 1)) AND NOT 3
        in bindR (copyout pgdir sp (arg @ [0]) s) (\<lambda>(r, s).
           if r < 0 then Ok (None, s) else push_args pgdir args sp (us @ [sp]) s))"

definition ustack :: "u32 \<Rightarrow> u32 list \<Rightarrow> u32 list" where
  "ustack sp us = [0xFFFFFFFF, of_nat (length us), sp - of_nat ((length us + 1) * 4)] @ us @ [0]"

definition base_name :: "u8 list \<Rightarrow> u8 list" where
  "base_name path = rev (takeWhile (\<lambda>x. x \<noteq> SLASH) (rev path))"

section \<open>\<^verbatim>\<open>exec\<close>\<close>

definition exec ::
  "(nat \<Rightarrow> 'a ftable_scheme devsw) \<Rightarrow> nat \<Rightarrow> u8 list \<Rightarrow> u8 list list \<Rightarrow> 'a ftable_scheme \<Rightarrow> (int \<times> 'a ftable_scheme) res" where
  "exec D c path argv s =
     (case myproc c s of
        None \<Rightarrow> Fault
      | Some curproc \<Rightarrow>
          bindR (begin_op s) (\<lambda>s.
          bindR (namei D c path s) (\<lambda>(r, s).
          case r of
            None \<Rightarrow> bindR (end_op c s) (\<lambda>s. Ok (-1, s))
          | Some ip \<Rightarrow>
              let bad_ip = (\<lambda>s. bindR (iunlockput c ip s) (\<lambda>s. bindR (end_op c s) (\<lambda>s. Ok (-1, s))))
              in bindR (ilock c (Some ip) s) (\<lambda>s.
                 bindR (readi D c ip 0 (of_nat ELFHDR_SIZE) s) (\<lambda>(r, elf, s).
                 if r \<noteq> int ELFHDR_SIZE \<or> eh_magic elf \<noteq> ELF_MAGIC then bad_ip s
                 else bindR (setupkvm s) (\<lambda>(pgdir, s).
                      if pgdir = 0 then bad_ip s
                      else let bad = (\<lambda>s. bindR (freevm pgdir True s) (\<lambda>s. Ok (-1, s)))
                        in bindR (exec_load D c ip pgdir (unat (eh_phnum elf)) (eh_phoff elf) 0 s) (\<lambda>(r, s).
                           case r of
                             None \<Rightarrow> bindR (freevm pgdir True s) bad_ip
                           | Some sz \<Rightarrow>
                               bindR (iunlockput c ip s) (\<lambda>s.
                               bindR (end_op c s) (\<lambda>s.
                               let sz = PGROUNDUP sz
                               in bindR (allocuvm pgdir sz (sz + 2 * PGSIZE) s) (\<lambda>(sz, s).
                                  if sz = 0 then bad s
                                  else bindR (clearpteu pgdir (sz - 2 * PGSIZE) s) (\<lambda>s.
                                       bindR (push_args pgdir argv sz [] s) (\<lambda>(r, s).
                                       case r of
                                         None \<Rightarrow> bad s
                                       | Some (sp, us) \<Rightarrow>
                                           let words = ustack sp us;
                                               sp = sp - of_nat ((3 + length us + 1) * 4)
                                           in bindR (copyout pgdir sp (concat (map word_bytes words)) s) (\<lambda>(r, s).
                                              if r < 0 then bad s
                                              else let s = set_name curproc (of_bytes (base_name path)) s;
                                                       oldpgdir = p_pgdir (procs s curproc);
                                                       s = upd_proc curproc (\<lambda>q. q\<lparr>p_pgdir := pgdir, p_sz := sz\<rparr>) s;
                                                       s = set_tf curproc tf_eip (eh_entry elf) s;
                                                       s = set_tf curproc tf_esp sp s
                                                   in bindR (switchuvm c (Some curproc) s) (\<lambda>s.
                                                      bindR (freevm oldpgdir True s) (\<lambda>s.
                                                      Ok (0, s))))))))))))))))"

text \<open>The argument vector: at most \<^verbatim>\<open>MAXARG\<close> pointers, the last of them null.\<close>

fun sys_exec_args :: "nat \<Rightarrow> u32 \<Rightarrow> nat \<Rightarrow> 'a ptable_scheme \<Rightarrow> (u8 list list option \<times> 'a ptable_scheme) res" where
  "sys_exec_args c uargv 0 s = Ok (None, s)"
| "sys_exec_args c uargv (Suc k) s =
     bindR (fetchint c uargv s) (\<lambda>(r, s).
     case r of
       None \<Rightarrow> Ok (None, s)
     | Some uarg \<Rightarrow>
         if uarg = 0 then Ok (Some [], s)
         else bindR (fetchstr c uarg s) (\<lambda>(r, s).
              case r of
                None \<Rightarrow> Ok (None, s)
              | Some arg \<Rightarrow>
                  bindR (sys_exec_args c (uargv + 4) k s) (\<lambda>(r, s). Ok (map_option ((#) arg) r, s))))"

definition sys_exec ::
  "(nat \<Rightarrow> 'a ftable_scheme devsw) \<Rightarrow> nat \<Rightarrow> 'a ftable_scheme \<Rightarrow> 'a ftable_scheme call" where
  "sys_exec D c s =
     bindR (argstr c 0 s) (\<lambda>(r, s).
     case r of
       None \<Rightarrow> returns (-1) s
     | Some path \<Rightarrow>
         bindR (argint c 1 s) (\<lambda>(r, s).
         case r of
           None \<Rightarrow> returns (-1) s
         | Some uargv \<Rightarrow>
             bindR (sys_exec_args c uargv MAXARG s) (\<lambda>(r, s).
             case r of
               None \<Rightarrow> returns (-1) s
             | Some argv \<Rightarrow> bindR (exec D c path argv s) (\<lambda>(r, s). returns (of_int r) s))))"

end
