(* ===== verification/Cmos.thy ===== *)
theory Cmos
  imports Xv6_Prelude
begin

text \<open>
  The real-time clock, \<^verbatim>\<open>cmostime\<close> of \<^verbatim>\<open>src/xv6/lapic.c\<close>. The clock is a function \<open>m\<close> from the
  number of the read and the register to the byte read; the readers take and return the
  number of the next read. The loop that waits for two equal readings may run forever, which
  is the value \<open>None\<close>.
\<close>

definition CMOS_STATA :: u32 where "CMOS_STATA = 0x0A"
definition CMOS_STATB :: u32 where "CMOS_STATB = 0x0B"
definition CMOS_UIP :: u8 where "CMOS_UIP = 0x80"
definition SECS :: u32 where "SECS = 0"
definition MINS :: u32 where "MINS = 2"
definition HOURS :: u32 where "HOURS = 4"
definition DAY :: u32 where "DAY = 7"
definition MONTH :: u32 where "MONTH = 8"
definition YEAR :: u32 where "YEAR = 9"

record rtcdate =
  r_second :: u32
  r_minute :: u32
  r_hour :: u32
  r_day :: u32
  r_month :: u32
  r_year :: u32

type_synonym cmos = "nat \<Rightarrow> u32 \<Rightarrow> u8"

definition cmos_read :: "cmos \<Rightarrow> nat \<Rightarrow> u32 \<Rightarrow> u32" where
  "cmos_read m t reg = ucast (m t reg)"

definition fill_rtcdate :: "cmos \<Rightarrow> nat \<Rightarrow> rtcdate" where
  "fill_rtcdate m t =
     \<lparr>r_second = cmos_read m t SECS, r_minute = cmos_read m (t + 1) MINS, r_hour = cmos_read m (t + 2) HOURS,
      r_day = cmos_read m (t + 3) DAY, r_month = cmos_read m (t + 4) MONTH, r_year = cmos_read m (t + 5) YEAR\<rparr>"

partial_function (option) cmos_stable :: "cmos \<Rightarrow> nat \<Rightarrow> rtcdate option" where
  "cmos_stable m t =
     (let t1 = fill_rtcdate m t
      in if cmos_read m (t + 6) CMOS_STATA AND ucast CMOS_UIP \<noteq> 0 then cmos_stable m (t + 7)
         else let t2 = fill_rtcdate m (t + 7)
           in if t1 = t2 then Some t1 else cmos_stable m (t + 13))"

definition bcd_conv :: "u32 \<Rightarrow> u32" where
  "bcd_conv x = drop_bit 4 x * 10 + (x AND 0xF)"

definition cmostime :: "cmos \<Rightarrow> rtcdate option" where
  "cmostime m =
     (let sb = cmos_read m 0 CMOS_STATB; bcd = (sb AND 4 = 0)
      in case cmos_stable m 1 of
           None \<Rightarrow> None
         | Some t1 \<Rightarrow>
             let t1 = (if bcd
                       then \<lparr>r_second = bcd_conv (r_second t1), r_minute = bcd_conv (r_minute t1),
                             r_hour = bcd_conv (r_hour t1), r_day = bcd_conv (r_day t1),
                             r_month = bcd_conv (r_month t1), r_year = bcd_conv (r_year t1)\<rparr>
                       else t1)
             in Some (t1\<lparr>r_year := r_year t1 + 2000\<rparr>))"

section \<open>Correctness\<close>

text \<open>The two decimal digits of a number below 100, four bits each.\<close>

definition to_bcd :: "nat \<Rightarrow> u32" where
  "to_bcd n = of_nat (n div 10 * 16 + n mod 10)"

lemma bcd_conv_to_bcd:
  assumes "n < 100"
  shows "bcd_conv (to_bcd n) = of_nat n"
proof -
  let ?x = "n div 10 * 16 + n mod 10"
  have lt: "?x < 2 ^ 32" using assms by simp
  have u: "unat (to_bcd n) = ?x" unfolding to_bcd_def unat_of_nat using lt by (simp add: take_bit_nat_eq_self)
  have hi: "unat (drop_bit 4 (to_bcd n)) = n div 10"
    unfolding unat_drop_bit_eq u unfolding drop_bit_eq_div by simp
  have m: "(0xF :: u32) = mask 4" by (simp add: mask_eq_exp_minus_1)
  have lo: "unat (to_bcd n AND 0xF) = n mod 10"
    unfolding m take_bit_eq_mask[symmetric] unsigned_take_bit_eq u unfolding take_bit_eq_mod by simp
  have "unat (bcd_conv (to_bcd n)) = n"
    unfolding bcd_conv_def using assms hi lo by (simp add: unat_word_ariths unat_of_nat)
  then have "of_nat (unat (bcd_conv (to_bcd n))) = (of_nat n :: u32)" by simp
  then show ?thesis by simp
qed

text \<open>A reading with no update in progress, repeated with the same result.\<close>

lemma cmos_stable_now:
  assumes "m (t + 6) CMOS_STATA AND CMOS_UIP = 0" and "fill_rtcdate m (t + 7) = fill_rtcdate m t"
  shows "cmos_stable m t = Some (fill_rtcdate m t)"
proof -
  have "cmos_read m (t + 6) CMOS_STATA AND ucast CMOS_UIP = ucast (m (t + 6) CMOS_STATA AND CMOS_UIP)"
    unfolding cmos_read_def by (rule bit_word_eqI) (auto simp: bit_simps)
  then show ?thesis using assms by (subst cmos_stable.simps) (simp add: Let_def)
qed

lemma cmos_stable_result:
  assumes "cmos_stable m t = Some d"
  shows "\<exists>u\<ge>t. d = fill_rtcdate m u \<and> d = fill_rtcdate m (u + 7) \<and> cmos_read m (u + 6) CMOS_STATA AND ucast CMOS_UIP = 0"
proof (rule cmos_stable.raw_induct[of "\<lambda>m t d. \<exists>u\<ge>t. d = fill_rtcdate m u \<and> d = fill_rtcdate m (u + 7) \<and>
    cmos_read m (u + 6) CMOS_STATA AND ucast CMOS_UIP = 0", OF _ assms])
  fix f m t d
  assume IH: "\<And>m t d. f m t = Some d \<Longrightarrow> \<exists>u\<ge>t. d = fill_rtcdate m u \<and> d = fill_rtcdate m (u + 7) \<and>
      cmos_read m (u + 6) CMOS_STATA AND ucast CMOS_UIP = 0"
    and r: "(let t1 = fill_rtcdate m t
      in if cmos_read m (t + 6) CMOS_STATA AND ucast CMOS_UIP \<noteq> 0 then f m (t + 7)
         else let t2 = fill_rtcdate m (t + 7) in if t1 = t2 then Some t1 else f m (t + 13)) = Some d"
  consider (again) "f m (t + 7) = Some d" | (differ) "f m (t + 13) = Some d"
    | (settled) "cmos_read m (t + 6) CMOS_STATA AND ucast CMOS_UIP = 0" "fill_rtcdate m t = fill_rtcdate m (t + 7)"
        "d = fill_rtcdate m t"
    using r by (auto simp: Let_def split: if_splits)
  then show "\<exists>u\<ge>t. d = fill_rtcdate m u \<and> d = fill_rtcdate m (u + 7) \<and>
      cmos_read m (u + 6) CMOS_STATA AND ucast CMOS_UIP = 0"
  proof cases
    case again
    from IH[OF this] obtain u where u: "t + 7 \<le> u" "d = fill_rtcdate m u \<and> d = fill_rtcdate m (u + 7) \<and>
      cmos_read m (u + 6) CMOS_STATA AND ucast CMOS_UIP = 0" by blast
    show ?thesis by (rule exI[of _ u], rule conjI[OF _ u(2)]) (use u(1) in simp)
  next
    case differ
    from IH[OF this] obtain u where u: "t + 13 \<le> u" "d = fill_rtcdate m u \<and> d = fill_rtcdate m (u + 7) \<and>
      cmos_read m (u + 6) CMOS_STATA AND ucast CMOS_UIP = 0" by blast
    show ?thesis by (rule exI[of _ u], rule conjI[OF _ u(2)]) (use u(1) in simp)
  next
    case settled
    then show ?thesis by (intro exI[of _ t]) simp
  qed
qed

end
