(* ===== verification/Sysproc.thy ===== *)
theory Sysproc
  imports Exec Cmos
begin

text \<open>
  The process system calls, \<^verbatim>\<open>src/xv6/sysproc.c\<close>, and the dispatch of system calls,
  \<^verbatim>\<open>src/xv6/syscall.c\<close>. As in \<open>Sysfile\<close> a call delivers the value for \<^verbatim>\<open>%eax\<close>, or \<open>None\<close> when
  the process has gone to sleep or has exited.
\<close>

section \<open>Processes\<close>

definition sys_fork :: "nat \<Rightarrow> 'a ftable_scheme \<Rightarrow> 'a ftable_scheme call" where
  "sys_fork c s = bindR (fork c s) (\<lambda>(r, s). returns r s)"

definition sys_exit :: "nat \<Rightarrow> 'a ftable_scheme \<Rightarrow> 'a ftable_scheme call" where
  "sys_exit c s =
     bindR (argint c 0 s) (\<lambda>(r, s).
     case r of
       None \<Rightarrow> returns (-1) s
     | Some status \<Rightarrow> bindR (exit c (push_bit 8 status) s) (\<lambda>s. Ok (None, s)))"

text \<open>\<^verbatim>\<open>wait\<close> with the pointer for the status: a scan of the table, or going to sleep.\<close>

definition wait_at :: "nat \<Rightarrow> u32 \<Rightarrow> 'a ptable_scheme \<Rightarrow> 'a ptable_scheme call" where
  "wait_at c status s =
     (case wait c (status \<noteq> 0) s of
        Ok (pid, None, s) \<Rightarrow> returns pid s
      | Ok (pid, Some v, s) \<Rightarrow> bindR (ustore_bytes c status (word_bytes v) s) (returns pid)
      | Sleeps ch \<Rightarrow> bindR (sleep c ch s) (\<lambda>s. Ok (None, s))
      | Panic e \<Rightarrow> Panic e
      | Fault \<Rightarrow> Fault
      | Exhausted \<Rightarrow> Exhausted)"

definition sys_wait :: "nat \<Rightarrow> 'a ptable_scheme \<Rightarrow> 'a ptable_scheme call" where
  "sys_wait c s =
     bindR (argptr c 0 4 s) (\<lambda>(r, s).
     case r of None \<Rightarrow> returns (-1) s | Some status \<Rightarrow> wait_at c status s)"

definition sys_kill :: "nat \<Rightarrow> 'a ptable_scheme \<Rightarrow> 'a ptable_scheme call" where
  "sys_kill c s =
     bindR (argint c 0 s) (\<lambda>(r, s).
     case r of
       None \<Rightarrow> returns (-1) s
     | Some pid \<Rightarrow> bindR (kill pid s) (\<lambda>(r, s). returns (of_int r) s))"

definition sys_getpid :: "nat \<Rightarrow> 'a ptable_scheme \<Rightarrow> 'a ptable_scheme call" where
  "sys_getpid c s = (case myproc c s of None \<Rightarrow> Fault | Some p \<Rightarrow> returns (p_pid (procs s p)) s)"

text \<open>Growing only moves the size: the pages come with the page faults.\<close>

definition sys_sbrk :: "nat \<Rightarrow> 'a ptable_scheme \<Rightarrow> 'a ptable_scheme call" where
  "sys_sbrk c s =
     bindR (argint c 0 s) (\<lambda>(r, s).
     case (r, myproc c s) of
       (None, _) \<Rightarrow> returns (-1) s
     | (Some n, None) \<Rightarrow> Fault
     | (Some n, Some p) \<Rightarrow>
         let addr = p_sz (procs s p)
         in if sint n \<ge> 0
            then if p_sz (procs s p) + n \<ge> KERNBASE then returns (-1) s
                 else returns addr (upd_proc p (\<lambda>q. q\<lparr>p_sz := p_sz q + n\<rparr>) s)
            else bindR (growproc c n s) (\<lambda>(r, s).
                 if r < 0 then returns (-1) s else returns addr s))"

text \<open>
  The loop of \<^verbatim>\<open>sys_sleep\<close>, from its test: it is entered at first with the current tick and
  again each time the process is woken up.
\<close>

definition sleep_loop :: "nat \<Rightarrow> u32 \<Rightarrow> u32 \<Rightarrow> 'a kern_scheme \<Rightarrow> 'a kern_scheme call" where
  "sleep_loop c ticks0 n s =
     (if ticks s - ticks0 < n
      then (case myproc c s of
              None \<Rightarrow> Fault
            | Some p \<Rightarrow>
                if p_killed (procs s p) then returns (-1) s
                else bindR (sleep c ChanTicks s) (\<lambda>s. Ok (None, s)))
      else returns 0 s)"

definition sys_sleep :: "nat \<Rightarrow> 'a kern_scheme \<Rightarrow> 'a kern_scheme call" where
  "sys_sleep c s =
     bindR (argint c 0 s) (\<lambda>(r, s).
     case r of None \<Rightarrow> returns (-1) s | Some n \<Rightarrow> sleep_loop c (ticks s) n s)"

definition sys_uptime :: "'a kern_scheme \<Rightarrow> 'a kern_scheme call" where
  "sys_uptime s = returns (ticks s) s"

definition rtc_bytes :: "rtcdate \<Rightarrow> u8 list" where
  "rtc_bytes r =
     word_bytes (r_second r) @ word_bytes (r_minute r) @ word_bytes (r_hour r) @
     word_bytes (r_day r) @ word_bytes (r_month r) @ word_bytes (r_year r)"

definition sys_date :: "cmos \<Rightarrow> nat \<Rightarrow> 'a ptable_scheme \<Rightarrow> 'a ptable_scheme call" where
  "sys_date m c s =
     bindR (argptr c 0 24 s) (\<lambda>(r, s).
     case r of
       None \<Rightarrow> returns (-1) s
     | Some r \<Rightarrow>
         if r = 0 then returns (-1) s
         else case cmostime m of
             None \<Rightarrow> Exhausted
           | Some t \<Rightarrow> bindR (ustore_bytes c r (rtc_bytes t) s) (returns 0))"

definition sys_getprio :: "nat \<Rightarrow> 'a ptable_scheme \<Rightarrow> 'a ptable_scheme call" where
  "sys_getprio c s =
     bindR (argint c 0 s) (\<lambda>(r, s).
     case r of None \<Rightarrow> returns (-1) s | Some pid \<Rightarrow> returns (getprio pid s) s)"

definition sys_setprio :: "nat \<Rightarrow> 'a ptable_scheme \<Rightarrow> 'a ptable_scheme call" where
  "sys_setprio c s =
     bindR (argint c 0 s) (\<lambda>(r, s).
     case r of
       None \<Rightarrow> returns (-1) s
     | Some pid \<Rightarrow>
         bindR (argint c 1 s) (\<lambda>(r, s).
         case r of
           None \<Rightarrow> returns (-1) s
         | Some prio \<Rightarrow> bindR (setprio pid prio s) (\<lambda>(r, s). returns (of_int r) s)))"

section \<open>Dispatch\<close>

text \<open>The table \<^verbatim>\<open>syscalls\<close>, indexed by the numbers of \<^verbatim>\<open>src/xv6/syscall.h\<close>; entry 0 is empty.\<close>

definition syscalls :: "cmos \<Rightarrow> nat \<Rightarrow> ('a kern_scheme \<Rightarrow> 'a kern_scheme call) option list" where
  "syscalls m c =
     [None, Some (sys_fork c), Some (sys_exit c), Some (sys_wait c), Some (sys_pipe c),
      Some (sys_read devsw_table c), Some (sys_kill c), Some (sys_exec devsw_table c),
      Some (sys_fstat c), Some (sys_chdir devsw_table c), Some (sys_dup c), Some (sys_getpid c),
      Some (sys_sbrk c), Some (sys_sleep c), Some sys_uptime, Some (sys_open devsw_table c),
      Some (sys_write devsw_table c), Some (sys_mknod devsw_table c),
      Some (sys_unlink devsw_table c), Some (sys_link devsw_table c),
      Some (sys_mkdir devsw_table c), Some (sys_close c), Some (sys_date m c), Some (sys_dup2 c),
      Some (sys_getprio c), Some (sys_setprio c)]"

text \<open>\<^verbatim>\<open>syscall\<close>; the truth value tells whether the call has returned to its caller.\<close>

definition syscall :: "cmos \<Rightarrow> nat \<Rightarrow> 'a kern_scheme \<Rightarrow> (bool \<times> 'a kern_scheme) res" where
  "syscall m c s =
     (case myproc c s of
        None \<Rightarrow> Fault
      | Some p \<Rightarrow>
          let num = get_tf p tf_eax s; calls = syscalls m c
          in case (if 0 < sint num \<and> sint num < int (length calls) then calls ! unat num else None) of
               Some f \<Rightarrow>
                 bindR (f s) (\<lambda>(r, s).
                 case r of
                   None \<Rightarrow> Ok (False, s)
                 | Some v \<Rightarrow> Ok (True, set_tf p tf_eax v s))
             | None \<Rightarrow>
                 bindR (cprintf (''%d %s: unknown sys call %d'' @ [CHR 0x0A])
                          [CInt (p_pid (procs s p)),
                           CStr (Some (takeWhile (\<lambda>b. b \<noteq> 0) (p_name (procs s p)))), CInt num] s) (\<lambda>s.
                 Ok (True, set_tf p tf_eax (-1) s)))"

end
