(* ===== verification/Kbd.thy ===== *)
theory Kbd
  imports Xv6_Prelude
begin

text \<open>
  The keyboard driver, \<^verbatim>\<open>src/xv6/kbd.c\<close> with the tables of \<^verbatim>\<open>src/xv6/kbd.h\<close>. \<open>kbdgetc\<close> takes the
  byte waiting in the controller, if there is one, and the value of its static variable
  \<^verbatim>\<open>shift\<close>, and returns its result and the new value.
\<close>

definition NO :: u8 where "NO = 0"
definition SHIFT :: u32 where "SHIFT = 1"
definition CTL :: u32 where "CTL = 2"
definition ALT :: u32 where "ALT = 4"
definition CAPSLOCK :: u32 where "CAPSLOCK = 8"
definition NUMLOCK :: u32 where "NUMLOCK = 16"
definition SCROLLLOCK :: u32 where "SCROLLLOCK = 32"
definition E0ESC :: u32 where "E0ESC = 64"

lemmas modifier_defs = SHIFT_def CTL_def ALT_def CAPSLOCK_def NUMLOCK_def SCROLLLOCK_def E0ESC_def

definition shiftcode :: "nat \<Rightarrow> u32" where
  "shiftcode k =
     (if k = 0x1D then CTL else if k = 0x2A then SHIFT else if k = 0x36 then SHIFT
      else if k = 0x38 then ALT else if k = 0x9D then CTL else if k = 0xB8 then ALT else 0)"

definition togglecode :: "nat \<Rightarrow> u32" where
  "togglecode k =
     (if k = 0x3A then CAPSLOCK else if k = 0x45 then NUMLOCK else if k = 0x46 then SCROLLLOCK else 0)"

text \<open>A 256-entry table given by its first entries and by designated ones.\<close>

definition key_table :: "u8 list \<Rightarrow> (nat \<times> u8) list \<Rightarrow> nat \<Rightarrow> u8" where
  "key_table firsts others k =
     (case map_of others k of Some v \<Rightarrow> v | None \<Rightarrow> if k < length firsts then firsts ! k else NO)"

text \<open>
  The designated entries: keypad enter and divide, then \<^verbatim>\<open>KEY_UP\<close>, \<^verbatim>\<open>KEY_DN\<close>, \<^verbatim>\<open>KEY_PGUP\<close>,
  \<^verbatim>\<open>KEY_PGDN\<close>, \<^verbatim>\<open>KEY_LF\<close>, \<^verbatim>\<open>KEY_RT\<close>, \<^verbatim>\<open>KEY_HOME\<close>, \<^verbatim>\<open>KEY_END\<close>, \<^verbatim>\<open>KEY_INS\<close> and \<^verbatim>\<open>KEY_DEL\<close>.
\<close>

definition special_keys :: "u8 \<Rightarrow> u8 \<Rightarrow> (nat \<times> u8) list" where
  "special_keys kp_enter kp_div =
     [(0x9C, kp_enter), (0xB5, kp_div), (0xC8, 0xE2), (0xD0, 0xE3), (0xC9, 0xE6), (0xD1, 0xE7),
      (0xCB, 0xE4), (0xCD, 0xE5), (0x97, 0xE0), (0xCF, 0xE1), (0xD2, 0xE8), (0xD3, 0xE9)]"

definition normalmap :: "nat \<Rightarrow> u8" where
  "normalmap = key_table
     ([NO, 0x1B] @ chars ''1234567890-='' @ [8, 9] @
      chars ''qwertyuiop[]'' @ [10, NO] @ chars ''asdfghjkl;'' @
      [39, 96, NO, 92] @ chars ''zxcvbnm,./'' @ [NO] @ chars ''*'' @
      [NO, 32] @ replicate 6 NO @ replicate 7 NO @ chars ''789-456+1230.'' @ replicate 4 NO)
     (special_keys 10 47)"

definition shiftmap :: "nat \<Rightarrow> u8" where
  "shiftmap = key_table
     ([NO, 0x1B] @ chars ''!@#$%^&*()_+'' @ [8, 9] @
      chars ''QWERTYUIOP{}'' @ [10, NO] @ chars ''ASDFGHJKL:'' @
      [34, 126, NO, 124] @ chars ''ZXCVBNM<>?'' @ [NO] @ chars ''*'' @
      [NO, 32] @ replicate 6 NO @ replicate 7 NO @ chars ''789-456+1230.'' @ replicate 4 NO)
     (special_keys 10 47)"

text \<open>\<^verbatim>\<open>C(x)\<close> is \<^verbatim>\<open>x - '@'\<close>, stored in an unsigned byte.\<close>

definition ctls :: "string \<Rightarrow> u8 list" where
  "ctls = map (\<lambda>x. of_char x - 64)"

definition ctlmap :: "nat \<Rightarrow> u8" where
  "ctlmap = key_table
     (replicate 16 NO @ ctls ''QWERTYUIOP'' @ [NO, NO, 13, NO] @ ctls ''ASDFGHJKL'' @ [NO] @
      [NO, NO, NO, 28] @ ctls ''ZXCVBNM'' @ [NO, NO] @ ctls ''/'' @ [NO, NO])
     (special_keys 13 (47 - 64))"

definition charcode :: "u32 \<Rightarrow> nat \<Rightarrow> u8" where
  "charcode i = (if i = 0 then normalmap else if i = 1 then shiftmap else ctlmap)"

definition caps :: "u32 \<Rightarrow> u32" where
  "caps c =
     (if 97 \<le> c \<and> c \<le> 122 then c + (65 - 97)
      else if 65 \<le> c \<and> c \<le> 90 then c + (97 - 65) else c)"

definition kbdgetc :: "u8 option \<Rightarrow> u32 \<Rightarrow> int \<times> u32" where
  "kbdgetc port shift =
     (case port of
        None \<Rightarrow> (- 1, shift)
      | Some byte \<Rightarrow>
          let data = ucast byte :: u32
          in if data = 0xE0 then (0, shift OR E0ESC)
             else if data AND 0x80 \<noteq> 0
             then let data = (if shift AND E0ESC \<noteq> 0 then data else data AND 0x7F)
                  in (0, shift AND NOT (shiftcode (unat data) OR E0ESC))
             else let (data, shift) =
                        (if shift AND E0ESC \<noteq> 0 then (data OR 0x80, shift AND NOT E0ESC)
                         else (data, shift));
                      shift = shift OR shiftcode (unat data);
                      shift = shift XOR togglecode (unat data);
                      c = ucast (charcode (shift AND (CTL OR SHIFT)) (unat data));
                      c = (if shift AND CAPSLOCK \<noteq> 0 then caps c else c)
                  in (sint c, shift))"

text \<open>The characters that the loop of \<^verbatim>\<open>consoleintr\<close> gets until the controller is empty.\<close>

fun kbd_chars :: "u8 list \<Rightarrow> u32 \<Rightarrow> int list \<times> u32" where
  "kbd_chars [] shift = ([], snd (kbdgetc None shift))"
| "kbd_chars (b # bs) shift =
     (let (c, shift) = kbdgetc (Some b) shift; (cs, shift) = kbd_chars bs shift in (c # cs, shift))"

end
