(* ===== verification/Trap.thy ===== *)
theory Trap
  imports Sysproc Kbd Segments
begin

text \<open>
  Traps and interrupts, \<^verbatim>\<open>src/xv6/trap.c\<close> with the numbers of \<^verbatim>\<open>src/xv6/traps.h\<close>, the interrupt
  halves of the keyboard and the serial port, and the macros of \<^verbatim>\<open>src/xv6/user/user.h\<close> that
  decode an exit status. What the devices deliver at a trap is a record: the faulting
  address in \<^verbatim>\<open>cr2\<close>, the bytes waiting in the keyboard controller and in the serial port, and
  the real-time clock. The messages of the page fault handler are left out; the interrupt of
  the disk does nothing with the disk of \<^verbatim>\<open>memide.c\<close>.
\<close>

definition T_PGFLT :: u32 where "T_PGFLT = 14"
definition T_SYSCALL :: u32 where "T_SYSCALL = 64"
definition T_IRQ0 :: u32 where "T_IRQ0 = 32"
definition IRQ_TIMER :: u32 where "IRQ_TIMER = 0"
definition IRQ_KBD :: u32 where "IRQ_KBD = 1"
definition IRQ_COM1 :: u32 where "IRQ_COM1 = 4"
definition IRQ_IDE :: u32 where "IRQ_IDE = 14"
definition IRQ_SPURIOUS :: u32 where "IRQ_SPURIOUS = 31"

lemmas trap_number_defs =
  T_PGFLT_def T_SYSCALL_def T_IRQ0_def IRQ_TIMER_def IRQ_KBD_def IRQ_COM1_def IRQ_IDE_def IRQ_SPURIOUS_def

record hw =
  cr2 :: u32
  kbd_in :: "u8 list"
  uart_in :: "u8 list"
  rtc :: cmos

record trapstate = kern +
  idt :: "nat \<Rightarrow> gatedesc"
  kbd_shift :: u32
  uart :: bool

section \<open>The descriptor table\<close>

definition tvinit :: "(nat \<Rightarrow> u32) \<Rightarrow> 'a trapstate_scheme \<Rightarrow> 'a trapstate_scheme" where
  "tvinit vectors s =
     (let s = fold (\<lambda>i s. s\<lparr>idt := (idt s)(i := SETGATE False (of_nat (SEG_KCODE * 8)) (vectors i) 0)\<rparr>) [0..<256] s;
          n = unat T_SYSCALL
      in s\<lparr>idt := (idt s)(n := SETGATE True (of_nat (SEG_KCODE * 8)) (vectors n) DPL_USER)\<rparr>)"

section \<open>Interrupts of the input devices\<close>

definition kbdintr :: "u8 list \<Rightarrow> 'a trapstate_scheme \<Rightarrow> 'a trapstate_scheme res" where
  "kbdintr bs s = (let (cs, sh) = kbd_chars bs (kbd_shift s) in consoleintr cs (s\<lparr>kbd_shift := sh\<rparr>))"

definition uart_chars :: "bool \<Rightarrow> u8 list \<Rightarrow> int list" where
  "uart_chars there bs = (if there then map uint bs else [])"

definition uartintr :: "u8 list \<Rightarrow> 'a trapstate_scheme \<Rightarrow> 'a trapstate_scheme res" where
  "uartintr bs s = consoleintr (uart_chars (uart s) bs) s"

section \<open>The trap handler\<close>

definition trap_syscall :: "hw \<Rightarrow> nat \<Rightarrow> u32 \<Rightarrow> 'a trapstate_scheme \<Rightarrow> 'a trapstate_scheme res" where
  "trap_syscall h c tf s =
     (case myproc c s of
        None \<Rightarrow> Fault
      | Some p \<Rightarrow>
          if p_killed (procs s p) then exit c (mem s (tf + tf_trapno) + 1) s
          else bindR (syscall (rtc h) c (upd_proc p (\<lambda>q. q\<lparr>p_tf := tf\<rparr>) s)) (\<lambda>(back, s).
               if back \<and> p_killed (procs s p) then exit c (mem s (tf + tf_trapno) + 1) s else Ok s))"

definition trap_cause :: "hw \<Rightarrow> nat \<Rightarrow> u32 \<Rightarrow> 'a trapstate_scheme \<Rightarrow> 'a trapstate_scheme res" where
  "trap_cause h c tf s =
     (let trapno = mem s (tf + tf_trapno); cs = mem s (tf + tf_cs); eip = mem s (tf + tf_eip);
          err = mem s (tf + tf_err)
      in if trapno = T_IRQ0 + IRQ_TIMER
         then if c = 0 then wakeup ChanTicks (s\<lparr>ticks := ticks s + 1\<rparr>) else Ok s
         else if trapno = T_IRQ0 + IRQ_IDE then Ok s
         else if trapno = T_IRQ0 + IRQ_IDE + 1 then Ok s
         else if trapno = T_IRQ0 + IRQ_KBD then kbdintr (kbd_in h) s
         else if trapno = T_IRQ0 + IRQ_COM1 then uartintr (uart_in h) s
         else if trapno = T_IRQ0 + 7 \<or> trapno = T_IRQ0 + IRQ_SPURIOUS
         then cprintf (''cpu%d: spurious interrupt at %x:%x'' @ [CHR 0x0A]) [CInt (of_nat c), CInt (cs AND 0xFFFF), CInt eip] s
         else if trapno = T_PGFLT then page_fault c (cr2 h) err s
         else case myproc c s of
             None \<Rightarrow> Panic ''trap''
           | Some p \<Rightarrow>
               if cs AND 3 = 0 then Panic ''trap''
               else bindR (cprintf (''pid %d %s: trap %d err %d on cpu %d eip 0x%x addr 0x%x--kill proc'' @ [CHR 0x0A])
                             [CInt (p_pid (procs s p)),
                              CStr (Some (takeWhile (\<lambda>b. b \<noteq> 0) (p_name (procs s p)))),
                              CInt trapno, CInt err, CInt (of_nat c), CInt eip, CInt (cr2 h)] s) (\<lambda>s.
                    Ok (set_killed p s)))"

definition exit_due :: "nat \<Rightarrow> u32 \<Rightarrow> 'a ptable_scheme \<Rightarrow> bool" where
  "exit_due c tf s =
     (case myproc c s of
        None \<Rightarrow> False
      | Some p \<Rightarrow> p_killed (procs s p) \<and> mem s (tf + tf_cs) AND 3 = DPL_USER)"

text \<open>
  What follows the cause. A process that gives up the processor on a clock tick continues
  with \<open>trap_resumed\<close> when it is scheduled again.
\<close>

definition trap_resumed :: "nat \<Rightarrow> u32 \<Rightarrow> 'a ftable_scheme \<Rightarrow> 'a ftable_scheme res" where
  "trap_resumed c tf s = (if exit_due c tf s then exit c (mem s (tf + tf_trapno) + 1) s else Ok s)"

definition trap_end :: "nat \<Rightarrow> u32 \<Rightarrow> 'a ftable_scheme \<Rightarrow> 'a ftable_scheme res" where
  "trap_end c tf s =
     (if exit_due c tf s then exit c (mem s (tf + tf_trapno) + 1) s
      else case myproc c s of
          None \<Rightarrow> Ok s
        | Some p \<Rightarrow>
            if p_state (procs s p) = RUNNING \<and> mem s (tf + tf_trapno) = T_IRQ0 + IRQ_TIMER then yield c s
            else trap_resumed c tf s)"

definition trap :: "hw \<Rightarrow> nat \<Rightarrow> u32 \<Rightarrow> 'a trapstate_scheme \<Rightarrow> 'a trapstate_scheme res" where
  "trap h c tf s =
     (if mem s (tf + tf_trapno) = T_SYSCALL then trap_syscall h c tf s
      else bindR (trap_cause h c tf s) (trap_end c tf))"

section \<open>Exit statuses\<close>

definition WIFEXITED :: "u32 \<Rightarrow> bool" where "WIFEXITED status \<longleftrightarrow> status AND 0x7F = 0"
definition WEXITSTATUS :: "u32 \<Rightarrow> u32" where "WEXITSTATUS status = drop_bit 8 (status AND 0xFF00)"
definition WIFSIGNALED :: "u32 \<Rightarrow> bool" where "WIFSIGNALED status \<longleftrightarrow> status AND 0x7F \<noteq> 0"
definition WEXITTRAP :: "u32 \<Rightarrow> u32" where "WEXITTRAP status = (status AND 0x7F) - 1"

lemmas status_macros = WIFEXITED_def WEXITSTATUS_def WIFSIGNALED_def WEXITTRAP_def

lemma status_masks:
  "(0x7F :: u32) = mask 7" "(0xFF :: u32) = mask 8" "(0xFF00 :: u32) = push_bit 8 (mask 8)"
  by (simp_all add: mask_eq_exp_minus_1 push_bit_eq_mult)

lemma exited_status: "WIFEXITED (push_bit 8 n) \<and> WEXITSTATUS (push_bit 8 n) = n AND 0xFF"
proof -
  have "push_bit 8 n AND 0x7F = 0"
    unfolding status_masks by (rule bit_word_eqI) (auto simp: bit_simps)
  moreover have "drop_bit 8 (push_bit 8 n AND 0xFF00) = n AND 0xFF"
    unfolding status_masks by (rule bit_word_eqI) (auto simp: bit_simps)
  ultimately show ?thesis by (simp add: status_macros)
qed

lemma trapped_status:
  assumes "t < 0x7F"
  shows "WIFSIGNALED (t + 1) \<and> \<not> WIFEXITED (t + 1) \<and> WEXITTRAP (t + 1) = t"
proof -
  have t: "unat t < 127" using assms by (simp add: word_less_nat_alt)
  then have "unat (t + 1) = unat t + 1" by (simp add: unat_word_ariths)
  then have "unat ((t + 1) AND 0x7F) = unat (t + 1)"
    using t unfolding status_masks by (simp add: unat_and_mask)
  then have m: "(t + 1) AND 0x7F = t + 1" by (simp add: word_unat_eq_iff)
  have "t + 1 \<noteq> 0" using \<open>unat (t + 1) = unat t + 1\<close> by auto
  with m show ?thesis by (simp add: status_macros)
qed

end
