(* ===== verification/Ulib.thy ===== *)
theory Ulib
  imports Digits Kstring
begin

text \<open>
  The string functions of the user library, \<^verbatim>\<open>src/xv6/user/ulib.c\<close>, on the bytes from the pointer
  to the end of the memory object that holds the string. A zero byte, or the end of the list,
  is the terminator.
\<close>

fun at0 :: "u8 list \<Rightarrow> u8" where
  "at0 [] = 0"
| "at0 (x # xs) = x"

fun strlen_list :: "u8 list \<Rightarrow> nat" where
  "strlen_list [] = 0"
| "strlen_list (x # s) = (if x = 0 then 0 else Suc (strlen_list s))"

fun strchr :: "u8 list \<Rightarrow> u8 \<Rightarrow> u8 list option" where
  "strchr [] c = None"
| "strchr (x # s) c = (if x = 0 then None else if x = c then Some (x # s) else strchr s c)"

lemma strchr_Some:
  assumes "strchr p c = Some q"
  shows "\<exists>l r. p = l @ q \<and> q = c # r \<and> c \<notin> set l \<and> 0 \<notin> set l"
  using assms
proof (induction p c rule: strchr.induct)
  case (2 x s c)
  show ?case
  proof (cases "x = c")
    case True
    then show ?thesis using 2 by (auto split: if_splits)
  next
    case False
    with 2 obtain l r where "s = l @ q" "q = c # r" "c \<notin> set l" "0 \<notin> set l" "x \<noteq> 0" by (auto split: if_splits)
    with False show ?thesis by (intro exI[of _ "x # l"] exI[of _ r]) auto
  qed
qed simp

lemma strchr_None: "0 \<notin> set p \<Longrightarrow> strchr p c = None \<Longrightarrow> c \<notin> set p"
  by (induction p c rule: strchr.induct) (auto split: if_splits)

text \<open>The contents of a C string.\<close>

definition ustr :: "u8 list \<Rightarrow> u8 list" where
  "ustr s = takeWhile (\<lambda>b. b \<noteq> 0) s"

lemma strlen_list_ustr: "strlen_list s = length (ustr s)"
  by (induction s) (auto simp: ustr_def)

function strcmp :: "u8 list \<Rightarrow> u8 list \<Rightarrow> int" where
  "strcmp p q =
     (if at0 p \<noteq> 0 \<and> at0 p = at0 q then strcmp (tl p) (tl q) else uint (at0 p) - uint (at0 q))"
  by pat_completeness auto
termination
proof (relation "measure (\<lambda>(p, q). length p)")
  fix p q assume "at0 p \<noteq> 0 \<and> at0 p = at0 q"
  then show "((tl p, tl q), p, q) \<in> measure (\<lambda>(p, q). length p)" by (cases p) auto
qed simp

declare strcmp.simps [simp del]

text \<open>\<^verbatim>\<open>strcpy\<close> onto the object \<open>s\<close>; running over its end is \<open>None\<close>.\<close>

fun strcpy :: "u8 list \<Rightarrow> u8 list \<Rightarrow> u8 list option" where
  "strcpy [] t = None"
| "strcpy (x # s) t = (if at0 t = 0 then Some (0 # s) else map_option ((#) (at0 t)) (strcpy s (tl t)))"

text \<open>\<^verbatim>\<open>gets\<close> on the bytes that \<^verbatim>\<open>read\<close> will deliver: the string read and the bytes left.\<close>

fun gets_loop :: "nat \<Rightarrow> u8 list \<Rightarrow> u8 list \<times> u8 list" where
  "gets_loop 0 inp = ([], inp)"
| "gets_loop (Suc n) [] = ([], [])"
| "gets_loop (Suc n) (c # inp) =
     (if c = 10 \<or> c = 13 then ([c], inp)
      else let (cs, rest) = gets_loop n inp in (c # cs, rest))"

definition gets :: "int \<Rightarrow> u8 list \<Rightarrow> u8 list \<times> u8 list" where
  "gets limit inp = gets_loop (nat (limit - 1)) inp"

fun atoi_loop :: "u32 \<Rightarrow> u8 list \<Rightarrow> u32" where
  "atoi_loop n [] = n"
| "atoi_loop n (c # s) = (if 48 \<le> c \<and> c \<le> 57 then atoi_loop (n * 10 + ucast c - 48) s else n)"

definition atoi :: "u8 list \<Rightarrow> u32" where
  "atoi s = atoi_loop 0 s"

text \<open>The forward copy of the user \<^verbatim>\<open>memmove\<close>.\<close>

definition umemmove :: "nat \<Rightarrow> nat \<Rightarrow> int \<Rightarrow> bytemem \<Rightarrow> bytemem" where
  "umemmove dst src n m = copy_up dst src (nat n) m"

section \<open>Comparison\<close>

lemma at0_ustr: "at0 p \<noteq> 0 \<Longrightarrow> ustr p = at0 p # ustr (tl p)" "at0 p = 0 \<Longrightarrow> ustr p = []"
  by (cases p; simp add: ustr_def)+

lemma strcmp_order:
  "strcmp p q < 0 \<longleftrightarrow> ord_class.lexordp (ustr p) (ustr q)" "strcmp p q = 0 \<longleftrightarrow> ustr p = ustr q"
proof (induction p q rule: strcmp.induct)
  case (1 p q)
  have e: "uint a < uint b \<longleftrightarrow> a < b" "uint a = uint b \<longleftrightarrow> a = b" for a b :: u8
    by (simp_all add: word_less_def word_uint_eq_iff)
  consider "at0 p \<noteq> 0" "at0 p = at0 q" | "at0 p = 0" "at0 q = 0" | "at0 p = 0" "at0 q \<noteq> 0"
    | "at0 p \<noteq> 0" "at0 q = 0" | "at0 p \<noteq> 0" "at0 q \<noteq> 0" "at0 p \<noteq> at0 q" by auto
  then have "(strcmp p q < 0 \<longleftrightarrow> ord_class.lexordp (ustr p) (ustr q)) \<and> (strcmp p q = 0 \<longleftrightarrow> ustr p = ustr q)"
  proof cases
    case 1
    then show ?thesis using "1.IH" by (subst (1 2) strcmp.simps) (simp add: at0_ustr)
  next
    case 2
    then show ?thesis by (subst (1 2) strcmp.simps) (simp add: at0_ustr)
  next
    case 3
    then show ?thesis using e(1)[of 0 "at0 q"] by (subst (1 2) strcmp.simps) (simp add: at0_ustr word_neq_0_conv)
  next
    case 4
    then show ?thesis using e(2)[of "at0 p" 0] by (subst (1 2) strcmp.simps) (simp add: at0_ustr)
  next
    case 5
    then show ?thesis using e[of "at0 p" "at0 q"] linorder_less_linear[of "at0 p" "at0 q"]
      by (subst (1 2) strcmp.simps) (auto simp: at0_ustr)
  qed
  then show "strcmp p q < 0 \<longleftrightarrow> ord_class.lexordp (ustr p) (ustr q)" "strcmp p q = 0 \<longleftrightarrow> ustr p = ustr q" by simp_all
qed

section \<open>Copying\<close>

lemma strcpy_ok:
  "strcpy s t = (if length (ustr t) < length s then Some (ustr t @ 0 # drop (Suc (length (ustr t))) s) else None)"
  by (induction s t rule: strcpy.induct) (auto simp: at0_ustr)

section \<open>Numbers\<close>

definition digit :: "nat \<Rightarrow> u8" where
  "digit d = of_nat (48 + d)"

lemma digit_range:
  assumes "d < 10"
  shows "48 \<le> digit d" and "digit d \<le> 57" and "ucast (digit d) - 48 = (of_nat d :: u32)"
proof -
  have "unat (digit d) = 48 + d" unfolding digit_def using assms by (subst unat_of_nat) simp
  then show "48 \<le> digit d" "digit d \<le> 57" using assms by (simp_all add: word_le_nat_alt)
  have "unat (ucast (digit d) :: u32) = 48 + d"
    using \<open>unat (digit d) = 48 + d\<close> assms by (simp add: unsigned_ucast_eq take_bit_eq_mod)
  moreover have "unat (of_nat (48 + d) :: u32) = 48 + d" using assms by (subst unat_of_nat) simp
  ultimately have "ucast (digit d) = (of_nat (48 + d) :: u32)" by (simp only: word_unat_eq_iff)
  then show "ucast (digit d) - 48 = (of_nat d :: u32)" by simp
qed

lemma atoi_loop_digits:
  assumes "\<forall>d\<in>set ds. d < 10"
  shows "atoi_loop n (map digit ds @ s) = atoi_loop (foldl (\<lambda>x d. x * 10 + of_nat d) n ds) s"
  using assms
proof (induction ds arbitrary: n)
  case (Cons d ds)
  then have "d < 10" by simp
  note r = digit_range[OF this]
  have "n * 10 + ucast (digit d) - 48 = n * 10 + of_nat d" using r(3) by (metis add_diff_eq)
  moreover have "atoi_loop n (map digit (d # ds) @ s) = atoi_loop (n * 10 + ucast (digit d) - 48) (map digit ds @ s)"
    using r by simp
  ultimately show ?case using Cons by (simp only: foldl_Cons) simp
qed simp

lemma foldl_from_digits: "foldl (\<lambda>x d. x * 10 + of_nat d) 0 (rev ds) = (of_nat (from_digits 10 ds) :: u32)"
  by (induction ds) (simp_all add: mult.commute add.commute)

text \<open>Reading back a printed number, with anything after it that is not a digit.\<close>

lemma atoi_digits:
  assumes "\<not> (48 \<le> at0 s \<and> at0 s \<le> 57)"
  shows "atoi (map digit (rev (int_digits 10 n)) @ s) = of_nat n"
proof -
  have "atoi (map digit (rev (int_digits 10 n)) @ s) = atoi_loop (of_nat (from_digits 10 (int_digits 10 n))) s"
    unfolding atoi_def foldl_from_digits[symmetric]
    by (rule atoi_loop_digits) (use int_digits_bound[of 10 _ n] in auto)
  also have "\<dots> = of_nat n" using assms by (cases s) (auto simp: from_int_digits)
  finally show ?thesis .
qed

end
