(* ===== verification/Grep.thy ===== *)
theory Grep
  imports Ulib
begin

text \<open>
  The user program \<^verbatim>\<open>src/xv6/user/grep.c\<close>. A C string is the list of its bytes without the
  terminating zero, so that a pointer into a string is a suffix and \<^verbatim>\<open>*text == '\0'\<close> tests for
  the empty list.
\<close>

section \<open>The matcher\<close>

definition CARET :: u8 where "CARET = 94"
definition STAR :: u8 where "STAR = 42"
definition DOLLAR :: u8 where "DOLLAR = 36"
definition DOT :: u8 where "DOT = 46"

lemmas meta_defs = CARET_def STAR_def DOLLAR_def DOT_def

function matchhere :: "u8 list \<Rightarrow> u8 list \<Rightarrow> bool" and matchstar :: "u8 \<Rightarrow> u8 list \<Rightarrow> u8 list \<Rightarrow> bool" where
  "matchhere re tx =
     (case re of
        [] \<Rightarrow> True
      | c # re' \<Rightarrow>
          if re' \<noteq> [] \<and> hd re' = STAR then matchstar c (tl re') tx
          else if c = DOLLAR \<and> re' = [] then tx = []
          else if tx \<noteq> [] \<and> (c = DOT \<or> c = hd tx) then matchhere re' (tl tx)
          else False)"
| "matchstar c re tx =
     (if matchhere re tx then True
      else if tx \<noteq> [] \<and> (hd tx = c \<or> c = DOT) then matchstar c re (tl tx)
      else False)"
  by pat_completeness auto
termination
  by (relation "measure (\<lambda>x. case x of Inl (re, tx) \<Rightarrow> 2 * length re + length tx
                                       | Inr (c, re, tx) \<Rightarrow> 2 * length re + length tx + 1)")
    (auto simp: neq_Nil_conv)

declare matchhere.simps [simp del] matchstar.simps [simp del]

fun match_from :: "u8 list \<Rightarrow> u8 list \<Rightarrow> bool" where
  "match_from re [] = matchhere re []"
| "match_from re (x # tx) = (matchhere re (x # tx) \<or> match_from re tx)"

definition match :: "u8 list \<Rightarrow> u8 list \<Rightarrow> bool" where
  "match re tx = (if re \<noteq> [] \<and> hd re = CARET then matchhere (tl re) tx else match_from re tx)"

section \<open>What a pattern means\<close>

text \<open>
  A pattern is a sequence of items: a character or \<^verbatim>\<open>.\<close>, either followed by a star, and possibly
  a final \<^verbatim>\<open>$\<close>. \<open>matches is u v\<close> says that the items consume \<open>u\<close> when \<open>v\<close> follows it.
\<close>

datatype item = One u8 | Many u8 | Eol

fun parse_re :: "u8 list \<Rightarrow> item list" where
  "parse_re [] = []"
| "parse_re [c] = (if c = DOLLAR then [Eol] else [One c])"
| "parse_re (c # d # re) = (if d = STAR then Many c # parse_re re else One c # parse_re (d # re))"

definition accepts :: "u8 \<Rightarrow> u8 \<Rightarrow> bool" where
  "accepts c x \<longleftrightarrow> c = DOT \<or> c = x"

inductive matches :: "item list \<Rightarrow> u8 list \<Rightarrow> u8 list \<Rightarrow> bool" where
  empty: "matches [] [] v"
| one: "accepts c x \<Longrightarrow> matches is u v \<Longrightarrow> matches (One c # is) (x # u) v"
| none: "matches is u v \<Longrightarrow> matches (Many c # is) u v"
| more: "accepts c x \<Longrightarrow> matches (Many c # is) u v \<Longrightarrow> matches (Many c # is) (x # u) v"
| eol: "matches [Eol] [] []"

inductive_simps matches_simps:
  "matches [] u v" "matches (One c # is) u v" "matches [Eol] u v" "matches (Eol # is) u v"

inductive_cases matches_ManyE: "matches (Many c # is) u v"

definition matches_prefix :: "item list \<Rightarrow> u8 list \<Rightarrow> bool" where
  "matches_prefix is tx \<longleftrightarrow> (\<exists>u v. tx = u @ v \<and> matches is u v)"

lemma prefix_simps:
  "matches_prefix [] tx"
  "matches_prefix [Eol] tx \<longleftrightarrow> tx = []"
  "matches_prefix (One c # is) tx \<longleftrightarrow> tx \<noteq> [] \<and> accepts c (hd tx) \<and> matches_prefix is (tl tx)"
  "matches_prefix (Many c # is) tx \<longleftrightarrow>
     matches_prefix is tx \<or> (tx \<noteq> [] \<and> accepts c (hd tx) \<and> matches_prefix (Many c # is) (tl tx))"
proof -
  show "matches_prefix [] tx" by (auto simp: matches_prefix_def matches_simps)
  show "matches_prefix [Eol] tx \<longleftrightarrow> tx = []" by (auto simp: matches_prefix_def matches_simps)
  show "matches_prefix (One c # is) tx \<longleftrightarrow> tx \<noteq> [] \<and> accepts c (hd tx) \<and> matches_prefix is (tl tx)"
  proof
    assume "matches_prefix (One c # is) tx"
    then show "tx \<noteq> [] \<and> accepts c (hd tx) \<and> matches_prefix is (tl tx)"
      by (auto simp: matches_prefix_def matches_simps) blast
  next
    assume "tx \<noteq> [] \<and> accepts c (hd tx) \<and> matches_prefix is (tl tx)"
    then obtain x t u v where "tx = x # t" "accepts c x" "t = u @ v" "matches is u v"
      by (cases tx) (auto simp: matches_prefix_def)
    then show "matches_prefix (One c # is) tx"
      unfolding matches_prefix_def by (intro exI[of _ "x # u"] exI[of _ v]) (simp add: matches.one)
  qed
  show "matches_prefix (Many c # is) tx \<longleftrightarrow>
     matches_prefix is tx \<or> (tx \<noteq> [] \<and> accepts c (hd tx) \<and> matches_prefix (Many c # is) (tl tx))"
    (is "?l \<longleftrightarrow> ?r")
  proof
    assume ?l
    then obtain u v where uv: "tx = u @ v" "matches (Many c # is) u v" by (auto simp: matches_prefix_def)
    from uv(2) show ?r by (cases rule: matches_ManyE) (use uv(1) in \<open>auto simp: matches_prefix_def\<close>)
  next
    assume ?r
    then show ?l
    proof
      assume "matches_prefix is tx"
      then show ?l by (auto simp: matches_prefix_def intro: matches.none)
    next
      assume "tx \<noteq> [] \<and> accepts c (hd tx) \<and> matches_prefix (Many c # is) (tl tx)"
      then obtain x t u v where "tx = x # t" "accepts c x" "t = u @ v" "matches (Many c # is) u v"
        by (cases tx) (auto simp: matches_prefix_def)
      then show ?l unfolding matches_prefix_def by (intro exI[of _ "x # u"] exI[of _ v]) (simp add: matches.more)
    qed
  qed
qed

section \<open>The matcher implements the meaning\<close>

lemma matchhere_prefix:
  "matchhere re tx \<longleftrightarrow> matches_prefix (parse_re re) tx"
  "matchstar c re tx \<longleftrightarrow> matches_prefix (Many c # parse_re re) tx"
proof (induction re tx and c re tx rule: matchhere_matchstar.induct)
  case (1 re tx)
  show ?case
  proof (cases re rule: parse_re.cases)
    case 1
    then show ?thesis by (subst matchhere.simps) (simp add: prefix_simps)
  next
    case (2 c)
    have "matchhere [] t" for t by (subst matchhere.simps) simp
    then show ?thesis unfolding 2 by (subst matchhere.simps) (simp add: prefix_simps accepts_def)
  next
    case (3 c d re')
    show ?thesis
    proof (cases "d = STAR")
      case True
      then show ?thesis using 3 "1.IH"(1)[of c "d # re'"] by (subst matchhere.simps) simp
    next
      case False
      then show ?thesis using 3 "1.IH"(2)[of c "d # re'"] by (subst matchhere.simps) (auto simp: prefix_simps accepts_def)
    qed
  qed
next
  case (2 c re tx)
  show ?case
    by (subst matchstar.simps) (use 2 in \<open>auto simp: prefix_simps(4)[of c _ tx] accepts_def\<close>)
qed

lemma match_from_iff: "match_from re tx \<longleftrightarrow> (\<exists>pre t. tx = pre @ t \<and> matches_prefix (parse_re re) t)"
proof (induction tx)
  case Nil
  then show ?case by (simp add: matchhere_prefix)
next
  case (Cons x tx)
  have "(\<exists>pre t. x # tx = pre @ t \<and> P t) \<longleftrightarrow> P (x # tx) \<or> (\<exists>pre t. tx = pre @ t \<and> P t)" for P
    by (auto simp: Cons_eq_append_conv)
  with Cons show ?case by (simp add: matchhere_prefix)
qed

section \<open>Reading lines\<close>

definition LF :: u8 where "LF = 10"

text \<open>
  The inner loop of \<^verbatim>\<open>grep\<close> from the pointer \<open>p\<close> to the end of the buffer: what it writes, and
  the pointer after the last complete line.
\<close>

function grep_lines :: "u8 list \<Rightarrow> u8 list \<Rightarrow> u8 list \<times> u8 list" where
  "grep_lines re p =
     (case strchr p LF of
        None \<Rightarrow> ([], p)
      | Some q \<Rightarrow>
          let line = take (length p - length q) p; (out, rest) = grep_lines re (tl q)
          in ((if match re line then line @ [LF] else []) @ out, rest))"
  by pat_completeness auto
termination
proof (relation "measure (\<lambda>(re, p). length p)")
  fix re p q assume "strchr p LF = Some q"
  from strchr_Some[OF this] show "((re, tl q), re, p) \<in> measure (\<lambda>(re, p). length p)" by auto
qed simp

declare grep_lines.simps [simp del]

text \<open>
  The outer loop: \<open>held\<close> are the \<^verbatim>\<open>m\<close> bytes kept at the start of the buffer and the chunks are
  what the successive calls of \<^verbatim>\<open>read\<close> deliver.
\<close>

fun grep_loop :: "u8 list \<Rightarrow> u8 list \<Rightarrow> u8 list list \<Rightarrow> u8 list" where
  "grep_loop re held [] = []"
| "grep_loop re held (c # cs) =
     (let b = held @ c; (out, p) = grep_lines re b
      in out @ grep_loop re (if length p = length b then [] else p) cs)"

definition grep :: "u8 list \<Rightarrow> u8 list list \<Rightarrow> u8 list" where
  "grep re chunks = grep_loop re [] chunks"

section \<open>The lines of a text\<close>

fun complete_lines :: "u8 list \<Rightarrow> u8 list list" where
  "complete_lines [] = []"
| "complete_lines (x # xs) =
     (if x = LF then [] # complete_lines xs
      else case complete_lines xs of [] \<Rightarrow> [] | l # ls \<Rightarrow> (x # l) # ls)"

fun last_part :: "u8 list \<Rightarrow> u8 list" where
  "last_part [] = []"
| "last_part (x # xs) = (if LF \<in> set (x # xs) then last_part xs else x # xs)"

definition selected :: "u8 list \<Rightarrow> u8 list \<Rightarrow> u8 list" where
  "selected re xs = concat (map (\<lambda>l. l @ [LF]) (filter (match re) (complete_lines xs)))"

lemma complete_lines_none: "LF \<notin> set xs \<Longrightarrow> complete_lines xs = []"
  by (induction xs) auto

lemma last_part_none: "LF \<notin> set xs \<Longrightarrow> last_part xs = xs"
  by (cases xs) auto

lemma complete_lines_first: "LF \<notin> set l \<Longrightarrow> complete_lines (l @ LF # xs) = l # complete_lines xs"
  by (induction l) auto

lemma last_part_first: "last_part (l @ LF # xs) = last_part xs"
  by (induction l) (auto simp: last_part_none)

lemma last_part_clean: "LF \<notin> set (last_part xs)"
  by (induction xs) auto

lemma last_part_subset: "set (last_part xs) \<subseteq> set xs"
  by (induction xs) auto

lemma grep_lines_eq:
  assumes "0 \<notin> set p"
  shows "grep_lines re p = (selected re p, last_part p)"
  using assms
proof (induction re p rule: grep_lines.induct)
  case (1 re p)
  show ?case
  proof (cases "strchr p LF")
    case None
    then have "LF \<notin> set p" using strchr_None[OF "1.prems"] by (simp add: LF_def)
    then show ?thesis using None
      by (subst grep_lines.simps) (simp add: selected_def complete_lines_none last_part_none)
  next
    case (Some q)
    from strchr_Some[OF Some] obtain l r where p: "p = l @ LF # r" "q = LF # r" "LF \<notin> set l"
      by (metis list.collapse)
    have "grep_lines re r = (selected re r, last_part r)"
      using "1.IH"[OF Some refl] p "1.prems" by (simp add: selected_def)
    then show ?thesis using Some p
      by (subst grep_lines.simps) (simp add: selected_def complete_lines_first last_part_first)
  qed
qed

lemma complete_lines_append: "complete_lines (xs @ ys) = complete_lines xs @ complete_lines (last_part xs @ ys)"
proof (induction xs rule: length_induct)
  case (1 xs)
  show ?case
  proof (cases "LF \<in> set xs")
    case True
    then obtain l r where xs: "xs = l @ LF # r" "LF \<notin> set l" by (metis split_list_first)
    then have "complete_lines (r @ ys) = complete_lines r @ complete_lines (last_part r @ ys)" using 1 by simp
    then show ?thesis using xs complete_lines_first[of l] by (simp add: last_part_first)
  next
    case False
    then show ?thesis by (simp add: complete_lines_none last_part_none)
  qed
qed

lemma selected_append: "selected re (xs @ ys) = selected re xs @ selected re (last_part xs @ ys)"
  by (simp add: selected_def complete_lines_append[of xs ys])

lemma last_part_shorter: "length (last_part xs) \<le> length xs" "LF \<in> set xs \<Longrightarrow> length (last_part xs) < length xs"
proof -
  show le: "length (last_part xs) \<le> length xs" for xs by (induction xs) auto
  assume "LF \<in> set xs"
  then obtain l r where "xs = l @ LF # r" by (metis split_list)
  then show "length (last_part xs) < length xs" using le[of r] by (simp add: last_part_first)
qed

text \<open>
  The contract of \<^verbatim>\<open>read\<close> on the remaining space of the buffer of 1024 bytes, one of which is
  kept for the terminator, for chunks that each bring at least one newline.
\<close>

fun reads_ok :: "u8 list \<Rightarrow> u8 list list \<Rightarrow> bool" where
  "reads_ok held [] = True"
| "reads_ok held (c # cs) =
     (0 < length c \<and> length c \<le> 1024 - length held - 1 \<and> 0 \<notin> set c \<and> (cs \<noteq> [] \<longrightarrow> LF \<in> set c) \<and>
      reads_ok (last_part (held @ c)) cs)"

lemma grep_loop_selected:
  assumes "reads_ok held cs" and "0 \<notin> set held" and "LF \<notin> set held"
  shows "grep_loop re held cs = selected re (held @ concat cs)"
  using assms
proof (induction cs arbitrary: held)
  case Nil
  then show ?case by (simp add: selected_def complete_lines_none)
next
  case (Cons c cs)
  let ?b = "held @ c"
  have b: "grep_lines re ?b = (selected re ?b, last_part ?b)" using Cons.prems by (intro grep_lines_eq) simp
  show ?case
  proof (cases "cs = []")
    case True
    then show ?thesis using b by (simp add: split_beta Let_def)
  next
    case False
    then have "length (last_part ?b) < length ?b" using Cons.prems(1) by (intro last_part_shorter(2)) simp
    moreover have "grep_loop re (last_part ?b) cs = selected re (last_part ?b @ concat cs)"
      using Cons.prems last_part_subset[of ?b] by (intro Cons.IH) (auto simp: last_part_clean)
    ultimately show ?thesis using b selected_append[of re ?b "concat cs"] by (simp add: split_beta Let_def)
  qed
qed

section \<open>Properties\<close>

text \<open>C20: The matcher of \<^verbatim>\<open>grep\<close> decides the meaning of its patterns: a pattern that starts with
  \<^verbatim>\<open>^\<close> matches when the rest of it matches at the beginning of the text, any other pattern when
  it matches at some place of the text, where a character stands for itself, \<^verbatim>\<open>.\<close> for any
  character, a star for any number of repetitions and a final \<^verbatim>\<open>$\<close> for the end of the text.\<close>

theorem grep_match:
  "match re tx \<longleftrightarrow>
     (if re \<noteq> [] \<and> hd re = CARET then \<exists>u v. tx = u @ v \<and> matches (parse_re (tl re)) u v
      else \<exists>pre u v. tx = pre @ u @ v \<and> matches (parse_re re) u v)"
proof -
  have "(\<exists>pre t. tx = pre @ t \<and> matches_prefix is t) \<longleftrightarrow> (\<exists>pre u v. tx = pre @ u @ v \<and> matches is u v)" for "is"
    unfolding matches_prefix_def by blast
  then show ?thesis unfolding match_def match_from_iff matchhere_prefix by (simp add: matches_prefix_def)
qed

text \<open>C21: \<^verbatim>\<open>grep\<close> writes exactly the complete lines of its input that match, in order, whatever the
  sizes of the reads, as long as every read but the last brings a newline and the input
  contains no zero byte.\<close>

theorem grep_output:
  assumes "reads_ok [] chunks"
  shows "grep re chunks = concat (map (\<lambda>l. l @ [LF]) (filter (match re) (complete_lines (concat chunks))))"
  unfolding grep_def using grep_loop_selected[OF assms] by (simp add: selected_def)

theorem grep_output_witness:
  "grep [97, 46, 42, 36] [[98, 97, 10, 99], [100, 10, 97, 10]] = [98, 97, 10, 97, 10]"
proof -
  have "reads_ok [] [[98, 97, 10, 99], [100, 10, 97, 10]]" by (simp add: LF_def)
  from grep_output[OF this, of "[97, 46, 42, 36]"] show ?thesis
    by (simp add: LF_def match_def meta_defs matchhere.simps matchstar.simps)
qed

text \<open>A line that arrives in two reads, the first of them without a newline, is lost.\<close>

theorem grep_drops_partial_line:
  "grep [97, 98] [[97], [98, 10]] = []" "match [97, 98] [97, 98]" "complete_lines (concat [[97], [98, 10]]) = [[97, 98]]"
  by (simp_all add: grep_def grep_lines_eq selected_def LF_def match_def meta_defs matchhere.simps)

end
