(* ===== verification/User_Progs.thy ===== *)
theory User_Progs
  imports Ulib
begin

text \<open>
  Formatted output of the user library, \<^verbatim>\<open>src/xv6/user/printf.c\<close>, and the programs
  \<^verbatim>\<open>src/xv6/user/wc.c\<close> and \<^verbatim>\<open>src/xv6/user/cat.c\<close>. What the calls of \<^verbatim>\<open>read\<close> deliver is a list of
  chunks and the result is what the program writes.
\<close>

section \<open>Formatted output\<close>

definition udigit :: "nat \<Rightarrow> u8" where
  "udigit d = (if d < 10 then digit d else of_nat (55 + d))"

definition uprintint :: "u32 \<Rightarrow> nat \<Rightarrow> bool \<Rightarrow> u8 list" where
  "uprintint xx base sign =
     (let neg = sign \<and> sint xx < 0; x = (if neg then - xx else xx);
          buf = map udigit (int_digits base (unat x)) @ (if neg then [45] else [])
      in rev buf)"

datatype uarg = UInt u32 | UStr "u8 list option"

text \<open>
  The loop over the format; the truth value is the variable \<^verbatim>\<open>state\<close>. An argument that is missing
  or of the wrong kind is \<open>None\<close>.
\<close>

fun printf_loop :: "bool \<Rightarrow> u8 list \<Rightarrow> uarg list \<Rightarrow> u8 list option" where
  "printf_loop st [] ap = Some []"
| "printf_loop False (c # fmt) ap =
     (if c = 37 then printf_loop True fmt ap else map_option ((#) c) (printf_loop False fmt ap))"
| "printf_loop True (c # fmt) ap =
     (if c = 100 then
        (case ap of
           UInt x # ap \<Rightarrow> map_option ((@) (uprintint x 10 True)) (printf_loop False fmt ap)
         | _ \<Rightarrow> None)
      else if c = 120 \<or> c = 112 then
        (case ap of
           UInt x # ap \<Rightarrow> map_option ((@) (uprintint x 16 False)) (printf_loop False fmt ap)
         | _ \<Rightarrow> None)
      else if c = 115 then
        (case ap of
           UStr s # ap \<Rightarrow>
             map_option ((@) (case s of None \<Rightarrow> chars ''(null)'' | Some s \<Rightarrow> ustr s)) (printf_loop False fmt ap)
         | _ \<Rightarrow> None)
      else if c = 99 then
        (case ap of
           UInt x # ap \<Rightarrow> map_option ((#) (ucast x)) (printf_loop False fmt ap)
         | _ \<Rightarrow> None)
      else if c = 37 then map_option ((#) c) (printf_loop False fmt ap)
      else map_option (\<lambda>out. 37 # c # out) (printf_loop False fmt ap))"

definition printf :: "u8 list \<Rightarrow> uarg list \<Rightarrow> u8 list option" where
  "printf fmt ap = printf_loop False (ustr fmt) ap"

lemma uprintint_decimal:
  "uprintint xx 10 True = (if sint xx < 0 then [45] else []) @
     map digit (rev (int_digits 10 (unat (if sint xx < 0 then - xx else xx))))"
proof -
  have "map udigit (int_digits 10 n) = map digit (int_digits 10 n)" for n
    using int_digits_bound[of 10 _ n] by (auto simp: udigit_def)
  then show ?thesis by (simp add: uprintint_def rev_map)
qed

lemma uprintint_length:
  assumes "base = 10 \<or> base = 16"
  shows "length (uprintint xx base sign) \<le> 16"
proof -
  have "unat x < base ^ 15" for x :: u32
    using unsigned_less[of x, where ?'a = nat] assms by auto
  then have l: "length (int_digits base (unat x)) \<le> 15" for x :: u32
    using assms by (intro int_digits_length) auto
  show ?thesis using l[of xx] l[of "- xx"] by (simp add: uprintint_def Let_def)
qed

section \<open>wc\<close>











section \<open>cat\<close>

text \<open>
  \<^verbatim>\<open>cat\<close> on the results of its reads, a failed one being \<open>None\<close>, and the results of its writes:
  what is written to the standard output and the exit status if the program exits.
\<close>

fun cat :: "u8 list option list \<Rightarrow> int list \<Rightarrow> u8 list \<times> int option" where
  "cat (Some buf # reads) (w # writes) =
     (if buf = [] then ([], None)
      else if w \<noteq> int (length buf) then (take (nat w) buf @ chars ''cat: write error'' @ [10], Some 1)
      else let (out, r) = cat reads writes in (buf @ out, r))"
| "cat (None # reads) writes = (chars ''cat: read error'' @ [10], Some 1)"
| "cat _ _ = ([], None)"

section \<open>Properties\<close>

text \<open>C22: A number printed by \<^verbatim>\<open>%d\<close> is read back by \<^verbatim>\<open>atoi\<close>, after the sign if it is negative, and
  no number needs more than the 16 bytes of the buffer in base 10 or 16.\<close>

theorem print_roundtrip:
  "(sint xx \<ge> 0 \<longrightarrow> printf (chars ''%d'') [UInt xx] = Some (uprintint xx 10 True) \<and> atoi (uprintint xx 10 True) = xx) \<and>
   (sint xx < 0 \<longrightarrow> hd (uprintint xx 10 True) = 45 \<and> atoi (tl (uprintint xx 10 True)) = - xx) \<and>
   length (uprintint xx 10 sign) \<le> 16 \<and> length (uprintint xx 16 sign) \<le> 16"
  using atoi_digits[of "[]"] uprintint_length[of 10] uprintint_length[of 16]
  by (auto simp: uprintint_decimal printf_def chars_def ustr_def)

theorem print_roundtrip_witness:
  "uprintint 0x80000000 10 True = map of_char ''-2147483648'' \<and> atoi (uprintint 1234 10 True) = 1234"
proof -
  have "unat (- (0x80000000 :: u32)) = 2147483648" by simp
  then have "uprintint 0x80000000 10 True = map of_char ''-2147483648''"
    by (simp add: uprintint_decimal digit_def int_digits.simps)
  then show ?thesis using print_roundtrip[of 1234] by simp
qed


end
