(* ===== verification/Sh.thy ===== *)
theory Sh
  imports Ulib Fcntl
begin

text \<open>
  The parser of the shell, \<^verbatim>\<open>src/xv6/user/sh.c\<close>. The command line is the list of its bytes
  without the terminating zero, and a pointer into it is a suffix of that list, so that the
  pointer \<^verbatim>\<open>es\<close> to its end is the empty list and the byte there is zero. \<^verbatim>\<open>panic\<close> ends the
  process, which is the result \<open>Panic\<close>. The recursive functions take a number of steps and are
  \<open>Exhausted\<close> without any left; \<open>parsecmd\<close> gives them enough.
\<close>

section \<open>Commands\<close>

definition MAXARGS :: nat where "MAXARGS = 10"

text \<open>A counted string: the pointers \<^verbatim>\<open>q\<close> and \<^verbatim>\<open>eq\<close>.\<close>

type_synonym span = "u8 list \<times> u8 list"

datatype cmd =
    EXEC "span list"
  | REDIR cmd span u32 nat
  | PIPE cmd cmd
  | LIST cmd cmd
  | BACK cmd

section \<open>Tokens\<close>

definition whitespace :: "u8 list" where "whitespace = [32, 9, 13, 10, 11]"
definition symbols :: "u8 list" where "symbols = chars ''<|>&;()''"

definition is_ws :: "u8 \<Rightarrow> bool" where
  "is_ws c \<longleftrightarrow> strchr whitespace c \<noteq> None"

definition is_sym :: "u8 \<Rightarrow> bool" where
  "is_sym c \<longleftrightarrow> strchr symbols c \<noteq> None"

fun skipws :: "u8 list \<Rightarrow> u8 list" where
  "skipws [] = []"
| "skipws (c # s) = (if is_ws c then skipws s else c # s)"

fun wordend :: "u8 list \<Rightarrow> u8 list" where
  "wordend [] = []"
| "wordend (c # s) = (if \<not> is_ws c \<and> \<not> is_sym c then wordend s else c # s)"

definition gettoken :: "u8 list \<Rightarrow> u8 \<times> span \<times> u8 list" where
  "gettoken ps =
     (let s = skipws ps; q = s; c = at0 s;
          (ret, s) =
            (if c = 0 then (c, s)
             else if c \<in> {124, 40, 41, 59, 38, 60} then (c, tl s)
             else if c = 62 then let s = tl s in if at0 s = 62 then (43, tl s) else (c, s)
             else (97, wordend s))
      in (ret, (q, s), skipws s))"

definition peek :: "u8 list \<Rightarrow> u8 list \<Rightarrow> u8 list \<times> bool" where
  "peek ps toks = (let s = skipws ps in (s, at0 s \<noteq> 0 \<and> strchr toks (at0 s) \<noteq> None))"

section \<open>The grammar\<close>

fun parseredirs :: "nat \<Rightarrow> cmd \<Rightarrow> u8 list \<Rightarrow> (cmd \<times> u8 list) res" where
  "parseredirs 0 cmd ps = Exhausted"
| "parseredirs (Suc k) cmd ps =
     (let (ps, p) = peek ps (chars ''<>'')
      in if \<not> p then Ok (cmd, ps)
         else let (tok, _, ps) = gettoken ps; (t, q, ps) = gettoken ps
              in if t \<noteq> 97 then Panic ''missing file for redirection''
                 else if tok = 60 then parseredirs k (REDIR cmd q O_RDONLY 0) ps
                 else parseredirs k (REDIR cmd q (O_WRONLY OR O_CREATE) 1) ps)"

text \<open>
  The structure that \<^verbatim>\<open>parseexec\<close> fills in stays reachable under the redirections that
  \<^verbatim>\<open>parseredirs\<close> has put around it.
\<close>

fun add_arg :: "span \<Rightarrow> cmd \<Rightarrow> cmd" where
  "add_arg a (EXEC as) = EXEC (as @ [a])"
| "add_arg a (REDIR cmd f mode fd) = REDIR (add_arg a cmd) f mode fd"
| "add_arg a cmd = cmd"

fun parseargs :: "nat \<Rightarrow> nat \<Rightarrow> cmd \<Rightarrow> u8 list \<Rightarrow> (cmd \<times> u8 list) res" where
  "parseargs 0 argc ret ps = Exhausted"
| "parseargs (Suc k) argc ret ps =
     (let (ps, p) = peek ps (chars ''|)&;'')
      in if p then Ok (ret, ps)
         else let (tok, q, ps) = gettoken ps
              in if tok = 0 then Ok (ret, ps)
                 else if tok \<noteq> 97 then Panic ''syntax''
                 else if argc + 1 \<ge> MAXARGS then Panic ''too many args''
                 else bindR (parseredirs k (add_arg q ret) ps) (\<lambda>(ret, ps). parseargs k (argc + 1) ret ps))"

fun parsebacks :: "nat \<Rightarrow> cmd \<Rightarrow> u8 list \<Rightarrow> (cmd \<times> u8 list) res" where
  "parsebacks 0 cmd ps = Exhausted"
| "parsebacks (Suc k) cmd ps =
     (let (ps, p) = peek ps (chars ''&'')
      in if p then let (_, _, ps) = gettoken ps in parsebacks k (BACK cmd) ps else Ok (cmd, ps))"

fun parseline :: "nat \<Rightarrow> u8 list \<Rightarrow> (cmd \<times> u8 list) res"
  and parsepipe :: "nat \<Rightarrow> u8 list \<Rightarrow> (cmd \<times> u8 list) res"
  and parseblock :: "nat \<Rightarrow> u8 list \<Rightarrow> (cmd \<times> u8 list) res"
  and parseexec :: "nat \<Rightarrow> u8 list \<Rightarrow> (cmd \<times> u8 list) res" where
  "parseline 0 ps = Exhausted"
| "parseline (Suc k) ps =
     bindR (parsepipe k ps) (\<lambda>(cmd, ps).
     bindR (parsebacks k cmd ps) (\<lambda>(cmd, ps).
     let (ps, p) = peek ps (chars '';'')
     in if p then let (_, _, ps) = gettoken ps
                  in bindR (parseline k ps) (\<lambda>(right, ps). Ok (LIST cmd right, ps))
        else Ok (cmd, ps)))"
| "parsepipe 0 ps = Exhausted"
| "parsepipe (Suc k) ps =
     bindR (parseexec k ps) (\<lambda>(cmd, ps).
     let (ps, p) = peek ps (chars ''|'')
     in if p then let (_, _, ps) = gettoken ps
                  in bindR (parsepipe k ps) (\<lambda>(right, ps). Ok (PIPE cmd right, ps))
        else Ok (cmd, ps))"
| "parseblock 0 ps = Exhausted"
| "parseblock (Suc k) ps =
     (let (ps, p) = peek ps (chars ''('')
      in if \<not> p then Panic ''parseblock''
         else let (_, _, ps) = gettoken ps
              in bindR (parseline k ps) (\<lambda>(cmd, ps).
                 let (ps, p) = peek ps (chars '')'')
                 in if \<not> p then Panic ''syntax - missing )''
                    else let (_, _, ps) = gettoken ps in parseredirs k cmd ps))"
| "parseexec 0 ps = Exhausted"
| "parseexec (Suc k) ps =
     (let (ps, p) = peek ps (chars ''('')
      in if p then parseblock k ps
         else bindR (parseredirs k (EXEC []) ps) (\<lambda>(ret, ps). parseargs k 0 ret ps))"

section \<open>Terminating the strings\<close>

text \<open>The addresses of the terminators, as indices into the buffer of length \<open>n\<close>.\<close>

definition span_end :: "nat \<Rightarrow> span \<Rightarrow> nat" where
  "span_end n q = n - length (snd q)"

fun nulterminate :: "nat \<Rightarrow> cmd \<Rightarrow> (nat \<Rightarrow> u8) \<Rightarrow> (nat \<Rightarrow> u8)" where
  "nulterminate n (EXEC args) buf = fold (\<lambda>a buf. buf(span_end n a := 0)) args buf"
| "nulterminate n (REDIR cmd q mode fd) buf = (nulterminate n cmd buf)(span_end n q := 0)"
| "nulterminate n (PIPE left right) buf = nulterminate n right (nulterminate n left buf)"
| "nulterminate n (LIST left right) buf = nulterminate n right (nulterminate n left buf)"
| "nulterminate n (BACK cmd) buf = nulterminate n cmd buf"

definition parsecmd :: "u8 list \<Rightarrow> (cmd \<times> (nat \<Rightarrow> u8)) res" where
  "parsecmd s =
     bindR (parseline (4 * length s + 8) s) (\<lambda>(cmd, ps).
     let (ps, _) = peek ps []
     in if ps \<noteq> [] then Panic ''syntax''
        else Ok (cmd, nulterminate (length s) cmd (\<lambda>i. if i < length s then s ! i else 0)))"

end
