(* ===== verification/Sh_Parse.thy ===== *)
theory Sh_Parse
  imports Sh "HOL-Library.Sublist"
begin

text \<open>
  Correctness of the parser of the shell: it always ends with a command or a syntax error, its
  arrays of arguments do not overflow, the strings of the command are words of the input, and
  terminating them with zeros leaves every one of them intact.
\<close>

section \<open>Tokens\<close>

lemma skipws_suffix: "suffix (skipws s) s"
  by (induction s) (auto simp: suffix_ConsI)

lemma wordend_suffix: "suffix (wordend s) s"
  by (induction s) (auto simp: suffix_ConsI)

lemma skipws_nonws: "skipws s = c # t \<Longrightarrow> \<not> is_ws c"
  by (induction s) (auto split: if_splits)

lemma wordend_dropWhile: "wordend s = dropWhile (\<lambda>c. \<not> is_ws c \<and> \<not> is_sym c) s"
  by (induction s) auto

lemma wordend_split:
  "\<exists>w. s = w @ wordend s \<and> (\<forall>c\<in>set w. \<not> is_ws c \<and> \<not> is_sym c)"
proof (intro exI conjI)
  show "s = takeWhile (\<lambda>c. \<not> is_ws c \<and> \<not> is_sym c) s @ wordend s" by (simp add: wordend_dropWhile)
  show "\<forall>c\<in>set (takeWhile (\<lambda>c. \<not> is_ws c \<and> \<not> is_sym c) s). \<not> is_ws c \<and> \<not> is_sym c"
    by (auto dest: set_takeWhileD)
qed

lemma wordend_stop: "wordend s = [] \<or> is_ws (hd (wordend s)) \<or> is_sym (hd (wordend s))"
  by (induction s) auto

lemma tl_suffix: "suffix (tl s) s"
  by (cases s) (auto simp: suffix_ConsI)

lemma gettoken_suffix: "suffix (snd (snd (gettoken ps))) ps"
proof -
  have "suffix t (skipws ps)" if "t = skipws ps \<or> t = tl (skipws ps) \<or> t = tl (tl (skipws ps)) \<or> t = wordend (skipws ps)" for t
    using that tl_suffix wordend_suffix suffix_order.trans[OF tl_suffix tl_suffix, of "skipws ps"] by auto
  then have "suffix t ps" if "t = skipws ps \<or> t = tl (skipws ps) \<or> t = tl (tl (skipws ps)) \<or> t = wordend (skipws ps)" for t
    using that skipws_suffix suffix_order.trans by blast
  then have "suffix (skipws t) ps" if "t = skipws ps \<or> t = tl (skipws ps) \<or> t = tl (tl (skipws ps)) \<or> t = wordend (skipws ps)" for t
    using that skipws_suffix suffix_order.trans by blast
  then show ?thesis by (auto simp: gettoken_def Let_def)
qed

lemma sym_codes: "c \<in> {124, 40, 41, 59, 38, 60, 62} \<Longrightarrow> is_sym c"
  by (auto simp: is_sym_def symbols_def chars_def)

lemma is_sym_iff: "is_sym c \<longleftrightarrow> c \<in> {124, 40, 41, 59, 38, 60, 62}"
  by (auto simp: is_sym_def symbols_def chars_def)

text \<open>A token other than the end of the line consumes something.\<close>

lemma gettoken_less:
  assumes "at0 (skipws ps) \<noteq> 0"
  shows "length (snd (snd (gettoken ps))) < length ps"
proof -
  from assms obtain c t where s: "skipws ps = c # t" "c \<noteq> 0" by (cases "skipws ps") auto
  have l: "length (skipws ps) \<le> length ps" using skipws_suffix suffix_length_le by blast
  have nws: "\<not> is_ws c" by (rule skipws_nonws[OF s(1)])
  define u where "u = (if c \<in> {124, 40, 41, 59, 38, 60} then t else if c = 62 then (if at0 t = 62 then tl t else t) else wordend t)"
  have w: "wordend (c # t) = wordend t" if "c \<notin> {124, 40, 41, 59, 38, 60, 62}"
    using that nws is_sym_iff by auto
  have "snd (snd (gettoken ps)) = skipws u"
    unfolding gettoken_def u_def using s w by (auto simp: Let_def)
  moreover have "length u \<le> length t"
    unfolding u_def using wordend_suffix[of t] suffix_length_le[of "wordend t" t] by auto
  moreover have "length (skipws u) \<le> length u" using skipws_suffix suffix_length_le by blast
  ultimately show ?thesis using l s(1) by simp
qed

text \<open>A word of the input, ended by the end of the line, white space or a symbol.\<close>

definition span_ok :: "u8 list \<Rightarrow> span \<Rightarrow> bool" where
  "span_ok s = (\<lambda>(q, eq). \<exists>w. suffix q s \<and> q = w @ eq \<and> w \<noteq> [] \<and>
     (\<forall>c\<in>set w. \<not> is_ws c \<and> \<not> is_sym c) \<and> (eq = [] \<or> is_ws (hd eq) \<or> is_sym (hd eq)))"

lemma gettoken_word:
  assumes "gettoken ps = (97, q, ps')" and "suffix ps s"
  shows "span_ok s q"
proof -
  let ?s = "skipws ps"
  have r: "at0 ?s \<noteq> 0" "q = (?s, wordend ?s)" "at0 ?s \<notin> {124, 40, 41, 59, 38, 60, 62}"
    using assms(1) unfolding gettoken_def Let_def by (auto split: if_splits)
  then obtain c t where c: "?s = c # t" "c \<noteq> 0" by (cases ?s) auto
  have nws: "\<not> is_ws c" by (rule skipws_nonws[OF c(1)])
  have nsym: "\<not> is_sym c" using r(3) c(1) by (simp add: is_sym_iff)
  obtain w where w: "?s = w @ wordend ?s" "\<forall>c\<in>set w. \<not> is_ws c \<and> \<not> is_sym c" using wordend_split by blast
  have "w \<noteq> []"
  proof
    assume "w = []"
    then have "wordend ?s = ?s" using w(1) by simp
    moreover have "length (wordend t) \<le> length t" using wordend_suffix suffix_length_le by blast
    ultimately show False using c(1) nws nsym by simp
  qed
  moreover have "suffix ?s s" using skipws_suffix assms(2) suffix_order.trans by blast
  ultimately show ?thesis using r(2) w wordend_stop[of ?s] unfolding span_ok_def by auto
qed

section \<open>Commands\<close>

fun cmd_ok :: "u8 list \<Rightarrow> cmd \<Rightarrow> bool" where
  "cmd_ok s (EXEC args) = (length args < MAXARGS \<and> (\<forall>a\<in>set args. span_ok s a))"
| "cmd_ok s (REDIR cmd q mode fd) = (cmd_ok s cmd \<and> span_ok s q \<and> fd < 2)"
| "cmd_ok s (PIPE left right) = (cmd_ok s left \<and> cmd_ok s right)"
| "cmd_ok s (LIST left right) = (cmd_ok s left \<and> cmd_ok s right)"
| "cmd_ok s (BACK cmd) = cmd_ok s cmd"

fun argn :: "cmd \<Rightarrow> nat" where
  "argn (EXEC args) = length args"
| "argn (REDIR cmd q mode fd) = argn cmd"
| "argn _ = 0"

lemma add_arg_ok:
  assumes "cmd_ok s cmd" and "span_ok s a" and "argn cmd + 1 < MAXARGS"
  shows "cmd_ok s (add_arg a cmd)"
  using assms by (induction a cmd rule: add_arg.induct) auto

fun is_exec :: "cmd \<Rightarrow> bool" where
  "is_exec (EXEC args) = True"
| "is_exec (REDIR cmd q mode fd) = is_exec cmd"
| "is_exec _ = False"

lemma add_arg_argn: "is_exec cmd \<Longrightarrow> argn (add_arg a cmd) = argn cmd + 1 \<and> is_exec (add_arg a cmd)"
  by (induction a cmd rule: add_arg.induct) auto

section \<open>The parser ends\<close>

text \<open>A result on the input \<open>s\<close> with at most \<open>n\<close> bytes left.\<close>

definition parsed :: "u8 list \<Rightarrow> nat \<Rightarrow> (cmd \<times> u8 list) res \<Rightarrow> bool" where
  "parsed s n r \<longleftrightarrow> (case r of Ok (cmd, ps) \<Rightarrow> cmd_ok s cmd \<and> suffix ps s \<and> length ps \<le> n | Panic e \<Rightarrow> True | _ \<Rightarrow> False)"

lemma parsed_Ok [simp]: "parsed s n (Ok (cmd, ps)) \<longleftrightarrow> cmd_ok s cmd \<and> suffix ps s \<and> length ps \<le> n"
  by (simp add: parsed_def)

lemma parsed_Panic [simp]: "parsed s n (Panic e)"
  by (simp add: parsed_def)

lemma parsed_le: "parsed s m r \<Longrightarrow> m \<le> n \<Longrightarrow> parsed s n r"
  by (auto simp: parsed_def split: res.splits)

lemma parsed_bind:
  assumes "parsed s m r" and "\<And>cmd ps. r = Ok (cmd, ps) \<Longrightarrow> cmd_ok s cmd \<Longrightarrow> suffix ps s \<Longrightarrow> length ps \<le> m \<Longrightarrow> parsed s n (f (cmd, ps))"
  shows "parsed s n (bindR r f)"
  using assms by (cases r) (auto simp: parsed_def)

lemma skipws_skipws [simp]: "skipws (skipws s) = skipws s"
  by (induction s) auto

lemma peek_cases:
  assumes "suffix ps s"
  obtains t p where "peek ps toks = (t, p)" and "suffix t s" and "length t \<le> length ps"
    and "p \<longrightarrow> length (snd (snd (gettoken t))) < length t"
proof -
  have "suffix (skipws ps) s" using skipws_suffix assms suffix_order.trans by blast
  moreover have "length (skipws ps) \<le> length ps" using skipws_suffix suffix_length_le by blast
  ultimately show ?thesis
    by (intro that[of "skipws ps" "snd (peek ps toks)"]) (simp_all add: peek_def Let_def gettoken_less)
qed

lemma gettoken_cases:
  assumes "suffix ps s"
  obtains t q ps' where "gettoken ps = (t, q, ps')" and "suffix ps' s" and "length ps' \<le> length ps"
    and "t \<noteq> 0 \<longrightarrow> length ps' < length ps" and "t = 97 \<longrightarrow> span_ok s q"
proof -
  obtain t q ps' where g: "gettoken ps = (t, q, ps')" by (cases "gettoken ps") auto
  have 1: "suffix ps' ps" using gettoken_suffix[of ps] g by simp
  then have 2: "suffix ps' s" "length ps' \<le> length ps" using assms suffix_order.trans suffix_length_le by blast+
  have 3: "length ps' < length ps" if "t \<noteq> 0"
  proof -
    have "at0 (skipws ps) \<noteq> 0" using that g by (auto simp: gettoken_def Let_def split: if_splits)
    from gettoken_less[OF this] g show ?thesis by simp
  qed
  show ?thesis by (rule that[OF g 2]) (use 3 gettoken_word[of ps q ps' s] g assms in auto)
qed

lemma parseredirs_parsed:
  assumes "suffix ps s" and "cmd_ok s cmd" and "length ps < k"
  shows "parsed s (length ps) (parseredirs k cmd ps)"
  using assms
proof (induction k arbitrary: cmd ps)
  case (Suc k)
  obtain t p where p: "peek ps (chars ''<>'') = (t, p)" "suffix t s" "length t \<le> length ps"
    "p \<longrightarrow> length (snd (snd (gettoken t))) < length t"
    by (rule peek_cases[OF Suc.prems(1)])
  obtain c q u where g: "gettoken t = (c, q, u)" "suffix u s" by (rule gettoken_cases[OF p(2)])
  obtain d r v where h: "gettoken u = (d, r, v)" "suffix v s" "length v \<le> length u" "d = 97 \<longrightarrow> span_ok s r"
    by (rule gettoken_cases[OF g(2)])
  have IH: "parsed s (length ps) (parseredirs k cmd' v)" if "p" "cmd_ok s cmd'" for cmd'
    using parsed_le[OF Suc.IH[OF h(2) that(2)]] p(3) p(4) that(1) g(1) h(3) Suc.prems(3) by simp
  show ?case
    using p(1-3) g(1) h(1,4) Suc.prems(2) IH by (simp add: Let_def)
qed simp

lemma parseredirs_argn:
  "parseredirs k cmd ps = Ok (cmd', ps') \<Longrightarrow> argn cmd' = argn cmd \<and> is_exec cmd' = is_exec cmd"
proof (induction k arbitrary: cmd ps)
  case (Suc k)
  then show ?case by (auto simp: Let_def split_beta split: if_splits)
qed simp

lemma parseargs_parsed:
  assumes "suffix ps s" and "cmd_ok s ret" and "is_exec ret" and "argn ret = argc" and "length ps < k"
  shows "parsed s (length ps) (parseargs k argc ret ps)"
  using assms
proof (induction k arbitrary: argc ret ps)
  case (Suc k)
  obtain t p where p: "peek ps (chars ''|)&;'') = (t, p)" "suffix t s" "length t \<le> length ps"
    by (rule peek_cases[OF Suc.prems(1)])
  obtain c q u where g: "gettoken t = (c, q, u)" "suffix u s" "length u \<le> length t"
    "c \<noteq> 0 \<longrightarrow> length u < length t" "c = 97 \<longrightarrow> span_ok s q" by (rule gettoken_cases[OF p(2)])
  have step: "parsed s (length ps) (bindR (parseredirs k (add_arg q ret) u) (\<lambda>(ret, ps). parseargs k (argc + 1) ret ps))"
    if c: "c = 97" "argc + 1 < MAXARGS"
  proof (rule parsed_bind)
    have u: "length u < k" "length u < length ps" using g(4) c(1) p(3) Suc.prems(5) by auto
    show "parsed s (length u) (parseredirs k (add_arg q ret) u)"
      using add_arg_ok[OF Suc.prems(2)] g(2,5) c Suc.prems(4) u by (intro parseredirs_parsed) auto
    fix ret' ps'
    assume r: "parseredirs k (add_arg q ret) u = Ok (ret', ps')" "cmd_ok s ret'" "suffix ps' s" "length ps' \<le> length u"
    have "argn ret' = argc + 1" "is_exec ret'"
      using parseredirs_argn[OF r(1)] add_arg_argn[OF Suc.prems(3), of q] Suc.prems(4) by simp_all
    then have "parsed s (length ps') (parseargs k (argc + 1) ret' ps')" using r u by (intro Suc.IH) auto
    then show "parsed s (length ps) (case (ret', ps') of (ret, ps) \<Rightarrow> parseargs k (argc + 1) ret ps)"
      using r(4) u parsed_le by simp
  qed
  show ?case using p g(1-3) step Suc.prems(2) by (auto simp: Let_def)
qed simp

lemma parsebacks_parsed:
  assumes "suffix ps s" and "cmd_ok s cmd" and "length ps < k"
  shows "parsed s (length ps) (parsebacks k cmd ps)"
  using assms
proof (induction k arbitrary: cmd ps)
  case (Suc k)
  obtain t p where p: "peek ps (chars ''&'') = (t, p)" "suffix t s" "length t \<le> length ps"
    "p \<longrightarrow> length (snd (snd (gettoken t))) < length t"
    by (rule peek_cases[OF Suc.prems(1)])
  obtain c q u where g: "gettoken t = (c, q, u)" "suffix u s" by (rule gettoken_cases[OF p(2)])
  have "parsed s (length ps) (parsebacks k (BACK cmd) u)" if p
    using parsed_le[OF Suc.IH[OF g(2), of "BACK cmd"]] p(3) p(4) that g(1) Suc.prems(2,3) by simp
  then show ?case using p g Suc.prems(2) by (simp add: Let_def)
qed simp

lemma parsed_right:
  assumes "suffix ps s" and "cmd_ok s cmd" and "length ps \<le> n"
    and "\<And>ps'. suffix ps' s \<Longrightarrow> length ps' < length ps \<Longrightarrow> parsed s (length ps') (f ps')"
    and "\<And>right. cmd_ok s right \<Longrightarrow> cmd_ok s (g cmd right)"
  shows "parsed s n
    (let (ps, p) = peek ps toks
     in if p then let (_, _, ps) = gettoken ps in bindR (f ps) (\<lambda>(right, ps). Ok (g cmd right, ps)) else Ok (cmd, ps))"
proof -
  obtain t p where p: "peek ps toks = (t, p)" "suffix t s" "length t \<le> length ps"
    "p \<longrightarrow> length (snd (snd (gettoken t))) < length t"
    by (rule peek_cases[OF assms(1)])
  obtain c q u where g: "gettoken t = (c, q, u)" "suffix u s" by (rule gettoken_cases[OF p(2)])
  have "parsed s n (bindR (f u) (\<lambda>(right, ps). Ok (g cmd right, ps)))" if p
  proof (rule parsed_bind)
    show "parsed s (length u) (f u)" using that p(3,4) g by (intro assms(4)) auto
    fix r v assume "cmd_ok s r" "suffix v s" "length v \<le> length u"
    moreover have "length u \<le> n" using that p(3,4) g assms(3) by simp
    ultimately show "parsed s n (case (r, v) of (right, ps) \<Rightarrow> Ok (g cmd right, ps))" using assms(5) by simp
  qed
  then show ?thesis using p(1-3) g(1) assms(2,3) by simp
qed

text \<open>
  Every opened parenthesis costs four nested calls and one byte, so that four steps per byte of
  the input are enough.
\<close>

lemma grammar_parsed:
  assumes "suffix ps s"
  shows "4 * length ps + 4 \<le> k \<Longrightarrow> parsed s (length ps) (parseline k ps)"
    and "4 * length ps + 3 \<le> k \<Longrightarrow> parsed s (length ps) (parsepipe k ps)"
    and "4 * length ps + 1 \<le> k \<Longrightarrow> parsed s (length ps) (parseblock k ps)"
    and "4 * length ps + 2 \<le> k \<Longrightarrow> parsed s (length ps) (parseexec k ps)"
  using assms
proof (induction k arbitrary: ps)
  case 0
  {
    case 1 then show ?case by simp
  next
    case 2 then show ?case by simp
  next
    case 3 then show ?case by simp
  next
    case 4 then show ?case by simp
  }
next
  case (Suc k)
  {
    case 1
    have "parsed s (length ps) (parsepipe k ps)" using 1 by (intro Suc(2)) simp_all
    then show ?case
      unfolding parseline.simps
    proof (rule parsed_bind, simp only: prod.case)
      fix cmd ps1 assume c: "cmd_ok s cmd" "suffix ps1 s" "length ps1 \<le> length ps"
      have "parsed s (length ps1) (parsebacks k cmd ps1)" using c 1 by (intro parsebacks_parsed) auto
      then show "parsed s (length ps) (bindR (parsebacks k cmd ps1) (\<lambda>(cmd, ps).
          let (ps, p) = peek ps (chars '';'')
          in if p then let (_, _, ps) = gettoken ps in bindR (parseline k ps) (\<lambda>(right, ps). Ok (LIST cmd right, ps))
             else Ok (cmd, ps)))"
      proof (rule parsed_bind, simp only: prod.case)
        fix cmd ps2 assume d: "cmd_ok s cmd" "suffix ps2 s" "length ps2 \<le> length ps1"
        show "parsed s (length ps) (let (ps, p) = peek ps2 (chars '';'')
            in if p then let (_, _, ps) = gettoken ps in bindR (parseline k ps) (\<lambda>(right, ps). Ok (LIST cmd right, ps))
               else Ok (cmd, ps))"
          by (rule parsed_right[OF d(2,1)]) (use c d 1 Suc(1) in auto)
      qed
    qed
  next
    case 2
    have "parsed s (length ps) (parseexec k ps)" using 2 by (intro Suc(4)) simp_all
    then show ?case
      unfolding parsepipe.simps
    proof (rule parsed_bind, simp only: prod.case)
      fix cmd ps1 assume c: "cmd_ok s cmd" "suffix ps1 s" "length ps1 \<le> length ps"
      show "parsed s (length ps) (let (ps, p) = peek ps1 (chars ''|'')
          in if p then let (_, _, ps) = gettoken ps in bindR (parsepipe k ps) (\<lambda>(right, ps). Ok (PIPE cmd right, ps))
             else Ok (cmd, ps))"
        by (rule parsed_right[OF c(2,1)]) (use c 2 Suc(2) in auto)
    qed
  next
    case 3
    obtain t p where p: "peek ps (chars ''('') = (t, p)" "suffix t s" "length t \<le> length ps"
      "p \<longrightarrow> length (snd (snd (gettoken t))) < length t"
      by (rule peek_cases[OF 3(2)])
    obtain c q u where g: "gettoken t = (c, q, u)" "suffix u s" by (rule gettoken_cases[OF p(2)])
    have "parsed s (length ps) (bindR (parseline k u) (\<lambda>(cmd, ps).
        let (ps, p) = peek ps (chars '')'')
        in if \<not> p then Panic ''syntax - missing )'' else let (_, _, ps) = gettoken ps in parseredirs k cmd ps))" if p
    proof (rule parsed_bind, simp_all only: prod.case)
      have u: "length u < length ps" using that p(3,4) g(1) by simp
      show "parsed s (length u) (parseline k u)" using u 3 g(2) by (intro Suc(1)) auto
      fix cmd ps1 assume c: "cmd_ok s cmd" "suffix ps1 s" "length ps1 \<le> length u"
      obtain t1 p1 where p1: "peek ps1 (chars '')'') = (t1, p1)" "suffix t1 s" "length t1 \<le> length ps1"
        by (rule peek_cases[OF c(2)])
      obtain c1 q1 u1 where g1: "gettoken t1 = (c1, q1, u1)" "suffix u1 s" "length u1 \<le> length t1"
        by (rule gettoken_cases[OF p1(2)])
      have "parsed s (length u1) (parseredirs k cmd u1)" using g1 p1 c u 3 by (intro parseredirs_parsed) auto
      then have "parsed s (length ps) (parseredirs k cmd u1)" using g1 p1 c u by (elim parsed_le) simp
      then show "parsed s (length ps) (let (ps, p) = peek ps1 (chars '')'')
          in if \<not> p then Panic ''syntax - missing )'' else let (_, _, ps) = gettoken ps in parseredirs k cmd ps)"
        using p1(1) g1(1) by simp
    qed
    then show ?case using p(1) g(1) by simp
  next
    case 4
    obtain t p where p: "peek ps (chars ''('') = (t, p)" "suffix t s" "length t \<le> length ps"
      by (rule peek_cases[OF 4(2)])
    have "parsed s (length t) (parseblock k t)" using 4 p by (intro Suc(3)) auto
    moreover have "parsed s (length t) (bindR (parseredirs k (EXEC []) t) (\<lambda>(ret, ps). parseargs k 0 ret ps))"
    proof (rule parsed_bind, simp_all only: prod.case)
      show "parsed s (length t) (parseredirs k (EXEC []) t)" using 4 p by (intro parseredirs_parsed) (auto simp: MAXARGS_def)
      fix ret ps1 assume c: "parseredirs k (EXEC []) t = Ok (ret, ps1)" "cmd_ok s ret" "suffix ps1 s" "length ps1 \<le> length t"
      then have "parsed s (length ps1) (parseargs k 0 ret ps1)"
        using parseredirs_argn[OF c(1)] 4 p by (intro parseargs_parsed) auto
      then show "parsed s (length t) (parseargs k 0 ret ps1)" using c(4) parsed_le by blast
    qed
    ultimately show ?case using p by (auto simp: Let_def elim: parsed_le)
  }
qed

section \<open>Terminating the strings\<close>

fun spans :: "cmd \<Rightarrow> span set" where
  "spans (EXEC args) = set args"
| "spans (REDIR cmd q mode fd) = insert q (spans cmd)"
| "spans (PIPE left right) = spans left \<union> spans right"
| "spans (LIST left right) = spans left \<union> spans right"
| "spans (BACK cmd) = spans cmd"

lemma cmd_ok_spans: "cmd_ok s cmd \<Longrightarrow> q \<in> spans cmd \<Longrightarrow> span_ok s q"
  by (induction cmd) auto

lemma fold_zero: "fold (\<lambda>a buf. buf(f a := 0)) as buf i = (if i \<in> f ` set as then 0 else buf i)"
  by (induction as arbitrary: buf) auto

lemma nulterminate_writes:
  "nulterminate n cmd buf i = (if i \<in> span_end n ` spans cmd then 0 else buf i)"
  by (induction cmd arbitrary: buf) (auto simp: fold_zero)

definition span_text :: "span \<Rightarrow> u8 list" where
  "span_text = (\<lambda>(q, eq). take (length q - length eq) q)"

text \<open>A zero-terminated string at an index of the buffer.\<close>

definition string_at :: "(nat \<Rightarrow> u8) \<Rightarrow> nat \<Rightarrow> u8 list \<Rightarrow> bool" where
  "string_at buf i w \<longleftrightarrow> (\<forall>j<length w. buf (i + j) = w ! j \<and> w ! j \<noteq> 0) \<and> buf (i + length w) = 0"

lemma span_end_delimits:
  assumes "span_ok s q" and "i = span_end (length s) q"
  shows "i < length s \<longrightarrow> is_ws (s ! i) \<or> is_sym (s ! i)"
proof
  assume i: "i < length s"
  obtain a e where q: "q = (a, e)" by (cases q)
  from assms(1) obtain w t where w: "s = t @ w @ e" "e = [] \<or> is_ws (hd e) \<or> is_sym (hd e)"
    by (auto simp: span_ok_def q suffix_def)
  then have "e \<noteq> []" "s ! i = hd e" using i assms(2) by (auto simp: span_end_def q nth_append hd_conv_nth)
  with w(2) show "is_ws (s ! i) \<or> is_sym (s ! i)" by simp
qed

lemma nulterminate_string:
  assumes ok: "cmd_ok s cmd" and z: "0 \<notin> set s" and q: "(q, eq) \<in> spans cmd"
  shows "string_at (nulterminate (length s) cmd (\<lambda>i. if i < length s then s ! i else 0)) (length s - length q) (span_text (q, eq))"
proof -
  let ?b = "nulterminate (length s) cmd (\<lambda>i. if i < length s then s ! i else 0)"
  from cmd_ok_spans[OF ok q] obtain w t where w: "q = w @ eq" "s = t @ w @ eq" "\<forall>c\<in>set w. \<not> is_ws c \<and> \<not> is_sym c"
    by (auto simp: span_ok_def suffix_def)
  have tx: "span_text (q, eq) = w" by (simp add: span_text_def w(1))
  have i: "length s - length q = length t" by (simp add: w)
  have "?b (length t + j) = w ! j \<and> w ! j \<noteq> 0" if "j < length w" for j
  proof -
    have sj: "s ! (length t + j) = w ! j" "length t + j < length s" using that by (simp_all add: w(2) nth_append)
    have "length t + j \<notin> span_end (length s) ` spans cmd"
    proof
      assume "length t + j \<in> span_end (length s) ` spans cmd"
      then obtain r where "r \<in> spans cmd" "length t + j = span_end (length s) r" by auto
      from span_end_delimits[OF cmd_ok_spans[OF ok this(1)] this(2)] sj w(3) that show False by auto
    qed
    moreover have "w ! j \<noteq> 0" using z that by (auto simp: w(2) in_set_conv_nth)
    ultimately show ?thesis using sj by (simp add: nulterminate_writes)
  qed
  moreover have "?b (length t + length w) = 0"
  proof -
    have "length t + length w = span_end (length s) (q, eq)" by (simp add: span_end_def w(2))
    with q show ?thesis by (auto simp: nulterminate_writes)
  qed
  ultimately show ?thesis unfolding string_at_def tx i by blast
qed

lemma parsecmd_result:
  "(\<exists>e. parsecmd s = Panic e) \<or> (\<exists>cmd. cmd_ok s cmd \<and>
     parsecmd s = Ok (cmd, nulterminate (length s) cmd (\<lambda>i. if i < length s then s ! i else 0)))"
proof -
  have "parsed s (length s) (parseline (4 * length s + 8) s)" by (rule grammar_parsed(1)) auto
  then consider e where "parseline (4 * length s + 8) s = Panic e"
    | cmd ps where "parseline (4 * length s + 8) s = Ok (cmd, ps)" "cmd_ok s cmd"
    by (cases "parseline (4 * length s + 8) s") (auto simp: parsed_def)
  then show ?thesis
  proof cases
    case (2 cmd ps)
    then show ?thesis by (cases "skipws ps = []") (auto simp: parsecmd_def peek_def Let_def)
  qed (simp add: parsecmd_def)
qed

section \<open>Properties\<close>

text \<open>C26: The parser ends on every command line, with a command or with a syntax error, and in the
  command every array of arguments has room for the terminating null pointer.\<close>

theorem parse_ends:
  "(\<exists>e. parsecmd s = Panic e) \<or> (\<exists>cmd buf. parsecmd s = Ok (cmd, buf) \<and> cmd_ok s cmd)"
  using parsecmd_result[of s] by blast

text \<open>C25: Every string of a parsed command is a word of the command line, not empty and without white
  space or symbols, and after the terminators have been written into the line each of them
  stands there unharmed as a zero-terminated string.\<close>

theorem parse_strings:
  assumes "parsecmd s = Ok (cmd, buf)" and "0 \<notin> set s" and "(q, eq) \<in> spans cmd"
  shows "span_text (q, eq) \<noteq> [] \<and> (\<forall>c\<in>set (span_text (q, eq)). \<not> is_ws c \<and> \<not> is_sym c) \<and>
    suffix q s \<and> string_at buf (length s - length q) (span_text (q, eq))"
proof -
  have ok: "cmd_ok s cmd" and buf: "buf = nulterminate (length s) cmd (\<lambda>i. if i < length s then s ! i else 0)"
    using parsecmd_result[of s] assms(1) by auto
  from cmd_ok_spans[OF ok assms(3)] obtain w where
    "suffix q s" "q = w @ eq" "w \<noteq> []" "\<forall>c\<in>set w. \<not> is_ws c \<and> \<not> is_sym c" by (auto simp: span_ok_def)
  then show ?thesis
    using nulterminate_string[OF ok assms(2,3)] unfolding buf by (simp add: span_text_def)
qed

lemma demo_line:
  "case parsecmd (chars ''ls >f'') of
     Ok (cmd, buf) \<Rightarrow> cmd = REDIR (EXEC [(chars ''ls >f'', chars '' >f'')]) (chars ''f'', []) 0x201 1
   | _ \<Rightarrow> False"
  by code_simp

theorem parse_strings_witness:
  "\<exists>cmd buf. parsecmd (chars ''ls >f'') = Ok (cmd, buf) \<and> string_at buf 0 (chars ''ls'') \<and> string_at buf 4 (chars ''f'')"
proof -
  from demo_line obtain buf where
    p: "parsecmd (chars ''ls >f'') = Ok (REDIR (EXEC [(chars ''ls >f'', chars '' >f'')]) (chars ''f'', []) 0x201 1, buf)"
    by (auto split: res.splits)
  have z: "0 \<notin> set (chars ''ls >f'')" by (simp add: chars_def)
  from parse_strings[OF p z, of "chars ''ls >f''" "chars '' >f''"] parse_strings[OF p z, of "chars ''f''" "[]"] p
  show ?thesis by (simp add: span_text_def chars_def numeral_eq_Suc)
qed

end
