(* ===== verification/Sh_Print.thy ===== *)
theory Sh_Print
  imports Sh_Parse
begin

text \<open>
  The parser of the shell inverts printing: an abstract command, printed with one space after
  every token and parentheses around lists, pipelines and background commands where the
  grammar wants a simple command, is parsed back to itself.
\<close>

section \<open>Abstract commands and their tokens\<close>

datatype acmd =
    AExec "u8 list list"
  | ARedir acmd "u8 list" u32 nat
  | APipe acmd acmd
  | AList acmd acmd
  | ABack acmd

fun abs_cmd :: "cmd \<Rightarrow> acmd" where
  "abs_cmd (EXEC args) = AExec (map span_text args)"
| "abs_cmd (REDIR cmd q mode fd) = ARedir (abs_cmd cmd) (span_text q) mode fd"
| "abs_cmd (PIPE left right) = APipe (abs_cmd left) (abs_cmd right)"
| "abs_cmd (LIST left right) = AList (abs_cmd left) (abs_cmd right)"
| "abs_cmd (BACK cmd) = ABack (abs_cmd cmd)"

abbreviation BAR :: "u8 list" where "BAR \<equiv> [124]"
abbreviation LPAR :: "u8 list" where "LPAR \<equiv> [40]"
abbreviation RPAR :: "u8 list" where "RPAR \<equiv> [41]"
abbreviation SEMI :: "u8 list" where "SEMI \<equiv> [59]"
abbreviation AMP :: "u8 list" where "AMP \<equiv> [38]"
abbreviation LT :: "u8 list" where "LT \<equiv> [60]"
abbreviation GT :: "u8 list" where "GT \<equiv> [62]"

definition redir_toks :: "u8 list \<Rightarrow> nat \<Rightarrow> u8 list list" where
  "redir_toks f fd = [if fd = 0 then LT else GT, f]"

fun pr_line :: "acmd \<Rightarrow> u8 list list" and pr_back :: "acmd \<Rightarrow> u8 list list"
  and pr_pipe :: "acmd \<Rightarrow> u8 list list" and pr_exec :: "acmd \<Rightarrow> u8 list list" where
  "pr_line (AList l r) = pr_back l @ SEMI # pr_line r"
| "pr_line (AExec args) = args"
| "pr_line (ARedir c f mode fd) = pr_exec c @ redir_toks f fd"
| "pr_line (APipe l r) = pr_exec l @ BAR # pr_pipe r"
| "pr_line (ABack c) = pr_back c @ [AMP]"
| "pr_back (ABack c) = pr_back c @ [AMP]"
| "pr_back (AExec args) = args"
| "pr_back (ARedir c f mode fd) = pr_exec c @ redir_toks f fd"
| "pr_back (APipe l r) = pr_exec l @ BAR # pr_pipe r"
| "pr_back (AList l r) = LPAR # (pr_back l @ SEMI # pr_line r) @ [RPAR]"
| "pr_pipe (APipe l r) = pr_exec l @ BAR # pr_pipe r"
| "pr_pipe (AExec args) = args"
| "pr_pipe (ARedir c f mode fd) = pr_exec c @ redir_toks f fd"
| "pr_pipe (AList l r) = LPAR # (pr_back l @ SEMI # pr_line r) @ [RPAR]"
| "pr_pipe (ABack c) = LPAR # (pr_back c @ [AMP]) @ [RPAR]"
| "pr_exec (AExec args) = args"
| "pr_exec (ARedir c f mode fd) = pr_exec c @ redir_toks f fd"
| "pr_exec (APipe l r) = LPAR # (pr_exec l @ BAR # pr_pipe r) @ [RPAR]"
| "pr_exec (AList l r) = LPAR # (pr_back l @ SEMI # pr_line r) @ [RPAR]"
| "pr_exec (ABack c) = LPAR # (pr_back c @ [AMP]) @ [RPAR]"

definition flat :: "u8 list list \<Rightarrow> u8 list" where
  "flat ts = concat (map (\<lambda>t. t @ [32]) ts)"

definition word_ok :: "u8 list \<Rightarrow> bool" where
  "word_ok w \<longleftrightarrow> w \<noteq> [] \<and> (\<forall>c\<in>set w. c \<noteq> 0 \<and> \<not> is_ws c \<and> \<not> is_sym c)"

fun acmd_ok :: "acmd \<Rightarrow> bool" where
  "acmd_ok (AExec args) = (length args < MAXARGS \<and> (\<forall>w\<in>set args. word_ok w))"
| "acmd_ok (ARedir c f mode fd) =
     (acmd_ok c \<and> word_ok f \<and> (mode = O_RDONLY \<and> fd = 0 \<or> mode = O_WRONLY OR O_CREATE \<and> fd = 1))"
| "acmd_ok (APipe l r) = (acmd_ok l \<and> acmd_ok r)"
| "acmd_ok (AList l r) = (acmd_ok l \<and> acmd_ok r)"
| "acmd_ok (ABack c) = acmd_ok c"

section \<open>Scanning printed tokens\<close>

definition tok_ok :: "u8 list \<Rightarrow> bool" where
  "tok_ok t \<longleftrightarrow> word_ok t \<or> t \<in> {BAR, LPAR, RPAR, SEMI, AMP, LT, GT}"

lemma flat_simps [simp]: "flat [] = []" "flat (t # ts) = t @ 32 # flat ts" "flat (ts @ us) = flat ts @ flat us"
  by (simp_all add: flat_def)

lemma ws_iff: "is_ws c \<longleftrightarrow> c \<in> {32, 9, 13, 10, 11}"
  by (auto simp: is_ws_def whitespace_def)

lemma tok_head:
  assumes "tok_ok t"
  obtains c u where "t = c # u" and "c \<noteq> 0" and "\<not> is_ws c"
  using assms by (cases t) (auto simp: tok_ok_def word_ok_def ws_iff)

lemma skipws_flat:
  assumes "ts = [] \<or> tok_ok (hd ts)"
  shows "skipws (flat ts) = flat ts"
proof (cases ts)
  case (Cons t us)
  then obtain c u where "t = c # u" "\<not> is_ws c" using assms tok_head by (metis list.sel(1) list.distinct(1))
  then show ?thesis using Cons by simp
qed simp

lemma peek_flat:
  assumes "ts = [] \<or> tok_ok (hd ts)"
  shows "peek (flat ts) toks = (flat ts, ts \<noteq> [] \<and> strchr toks (hd (hd ts)) \<noteq> None)"
proof (cases ts)
  case Nil
  then show ?thesis by (simp add: peek_def)
next
  case (Cons t us)
  then obtain c u where "t = c # u" "c \<noteq> 0" "\<not> is_ws c" using assms tok_head by (metis list.sel(1) list.distinct(1))
  then show ?thesis using Cons by (simp add: peek_def)
qed

lemma wordend_word: "\<forall>c\<in>set w. \<not> is_ws c \<and> \<not> is_sym c \<Longrightarrow> wordend (w @ 32 # s) = 32 # s"
  by (induction w) (auto simp: ws_iff)

lemma word_head: "word_ok t \<Longrightarrow> hd t \<noteq> 0 \<and> hd t \<notin> {124, 40, 41, 59, 38, 60, 62}"
  by (cases t) (auto simp: word_ok_def is_sym_iff)

lemma gettoken_flat:
  assumes "tok_ok t" and "ts = [] \<or> tok_ok (hd ts)"
  shows "gettoken (flat (t # ts)) = (if word_ok t then 97 else hd t, (flat (t # ts), 32 # flat ts), flat ts)"
proof -
  have s: "skipws (flat (t # ts)) = flat (t # ts)" by (rule skipws_flat) (use assms(1) in simp)
  have r: "skipws (32 # flat ts) = flat ts" using skipws_flat[OF assms(2)] by (simp add: ws_iff)
  show ?thesis
  proof (cases "word_ok t")
    case True
    then have w: "wordend (flat (t # ts)) = 32 # flat ts" "at0 (flat (t # ts)) = hd t"
      using wordend_word[of t "flat ts"] by (cases t; auto simp: word_ok_def)+
    then show ?thesis using True s r word_head[OF True] by (simp add: gettoken_def Let_def)
  next
    case False
    then have "t \<in> {BAR, LPAR, RPAR, SEMI, AMP, LT, GT}" using assms(1) by (simp add: tok_ok_def)
    then show ?thesis using False r by (elim insertE emptyE) (simp_all add: gettoken_def ws_iff)
  qed
qed

lemma span_text_flat: "span_text (flat (t # ts), 32 # flat ts) = t"
  by (simp add: span_text_def)

section \<open>Redirections\<close>

type_synonym redir = "u8 list \<times> u32 \<times> nat"

definition rtoks :: "redir list \<Rightarrow> u8 list list" where
  "rtoks rs = concat (map (\<lambda>(f, mode, fd). redir_toks f fd) rs)"

fun aredirs :: "redir list \<Rightarrow> acmd \<Rightarrow> acmd" where
  "aredirs [] c = c"
| "aredirs ((f, mode, fd) # rs) c = aredirs rs (ARedir c f mode fd)"

definition redir_ok :: "redir \<Rightarrow> bool" where
  "redir_ok = (\<lambda>(f, mode, fd). word_ok f \<and> (mode = O_RDONLY \<and> fd = 0 \<or> mode = O_WRONLY OR O_CREATE \<and> fd = 1))"

text \<open>The tokens that may follow: none, or one of a set.\<close>

definition follows :: "u8 list set \<Rightarrow> u8 list list \<Rightarrow> bool" where
  "follows X ts \<longleftrightarrow> ts = [] \<or> hd ts \<in> X"

definition toks_ok :: "u8 list list \<Rightarrow> bool" where
  "toks_ok ts \<longleftrightarrow> (\<forall>t\<in>set ts. tok_ok t)"

lemma toks_ok_hd: "toks_ok ts \<Longrightarrow> ts = [] \<or> tok_ok (hd ts)"
  by (cases ts) (auto simp: toks_ok_def)

lemma toks_ok_simps [simp]:
  "toks_ok []" "toks_ok (t # ts) \<longleftrightarrow> tok_ok t \<and> toks_ok ts" "toks_ok (ts @ us) \<longleftrightarrow> toks_ok ts \<and> toks_ok us"
  by (auto simp: toks_ok_def)

lemma tok_ok_syms [simp]: "tok_ok BAR" "tok_ok LPAR" "tok_ok RPAR" "tok_ok SEMI" "tok_ok AMP" "tok_ok LT" "tok_ok GT"
  by (simp_all add: tok_ok_def)

lemma sym_not_word [simp]:
  "\<not> word_ok BAR" "\<not> word_ok LPAR" "\<not> word_ok RPAR" "\<not> word_ok SEMI" "\<not> word_ok AMP" "\<not> word_ok LT" "\<not> word_ok GT"
  by (simp_all add: word_ok_def is_sym_iff)

lemma word_tok: "word_ok w \<Longrightarrow> tok_ok w"
  by (simp add: tok_ok_def)

lemma rtoks_simps [simp]:
  "rtoks [] = []" "rtoks ((f, mode, fd) # rs) = (if fd = 0 then LT else GT) # f # rtoks rs"
  by (simp_all add: rtoks_def redir_toks_def)

lemma rtoks_ok: "\<forall>r\<in>set rs. redir_ok r \<Longrightarrow> toks_ok (rtoks rs)"
  by (induction rs) (auto simp: redir_ok_def word_tok)

lemma peek_toks:
  assumes "toks_ok ts"
  shows "peek (flat ts) toks = (flat ts, ts \<noteq> [] \<and> strchr toks (hd (hd ts)) \<noteq> None)"
  by (rule peek_flat[OF toks_ok_hd[OF assms]])

lemma gettoken_toks:
  assumes "toks_ok (t # ts)"
  shows "gettoken (flat (t # ts)) = (if word_ok t then 97 else hd t, (flat (t # ts), 32 # flat ts), flat ts)"
  using assms by (intro gettoken_flat toks_ok_hd) simp_all

lemma peek_word:
  assumes "toks_ok ts" and "ts \<noteq> []" and "word_ok (hd ts)" and "set toks \<subseteq> {124, 40, 41, 59, 38, 60, 62}"
  shows "peek (flat ts) toks = (flat ts, False)"
proof -
  have "hd (hd ts) \<notin> set toks" using word_head[OF assms(3)] assms(4) by auto
  then have "strchr toks (hd (hd ts)) = None" by (induction toks) auto
  then show ?thesis by (simp add: peek_toks[OF assms(1)])
qed

lemma follows_mono: "follows X ts \<Longrightarrow> X \<subseteq> Y \<Longrightarrow> follows Y ts"
  by (auto simp: follows_def)

lemma parseredirs_flat:
  assumes "\<forall>r\<in>set rs. redir_ok r" and "toks_ok rest" and "follows {BAR, LPAR, RPAR, SEMI, AMP} rest \<or> word_ok (hd rest)"
    and "length rs < k"
  shows "\<exists>c'. parseredirs k c (flat (rtoks rs @ rest)) = Ok (c', flat rest) \<and> abs_cmd c' = aredirs rs (abs_cmd c)"
  using assms(1,4)
proof (induction rs arbitrary: c k)
  case Nil
  then obtain j where k: "k = Suc j" by (cases k) auto
  have "peek (flat rest) (chars ''<>'') = (flat rest, False)"
  proof (cases "rest \<noteq> [] \<and> word_ok (hd rest)")
    case True
    then show ?thesis by (intro peek_word[OF assms(2)]) (auto simp: chars_def)
  next
    case False
    then show ?thesis using assms(3) unfolding peek_toks[OF assms(2)] by (auto simp: follows_def chars_def)
  qed
  then show ?case by (simp add: k)
next
  case (Cons r rs)
  obtain f mode fd where r: "r = (f, mode, fd)" by (cases r)
  from Cons.prems(2) obtain j where k: "k = Suc j" "length rs < j" by (cases k) auto
  have f: "word_ok f" and m: "mode = O_RDONLY \<and> fd = 0 \<or> mode = O_WRONLY OR O_CREATE \<and> fd = 1"
    using Cons.prems(1) r by (auto simp: redir_ok_def)
  let ?op = "if fd = 0 then LT else GT" and ?ts = "f # rtoks rs @ rest"
  have t: "toks_ok (?op # ?ts)" using f rtoks_ok[of rs] Cons.prems(1) assms(2) by (simp add: word_tok)
  have p: "peek (flat (?op # ?ts)) (chars ''<>'') = (flat (?op # ?ts), True)"
    unfolding peek_toks[OF t] by (simp add: chars_def)
  have g: "gettoken (flat (?op # ?ts)) = (if fd = 0 then 60 else 62, (flat (?op # ?ts), 32 # flat ?ts), flat ?ts)"
    unfolding gettoken_toks[OF t] by simp
  have t2: "toks_ok ?ts" using t by simp
  have g2: "gettoken (flat ?ts) = (97, (flat ?ts, 32 # flat (rtoks rs @ rest)), flat (rtoks rs @ rest))"
    unfolding gettoken_toks[OF t2] using f by simp
  let ?c = "REDIR c (flat ?ts, 32 # flat (rtoks rs @ rest)) mode fd"
  have "parseredirs k c (flat (?op # ?ts)) = parseredirs j ?c (flat (rtoks rs @ rest))"
    unfolding k(1) parseredirs.simps p prod.case Let_def g g2 using m by auto
  moreover have "\<exists>c'. parseredirs j ?c (flat (rtoks rs @ rest)) = Ok (c', flat rest) \<and> abs_cmd c' = aredirs rs (abs_cmd ?c)"
    by (rule Cons.IH) (use Cons.prems(1) k(2) in simp_all)
  ultimately show ?case using span_text_flat[of f "rtoks rs @ rest"] r by simp
qed

section \<open>Arguments\<close>

abbreviation ends :: "u8 list set" where "ends \<equiv> {BAR, RPAR, AMP, SEMI}"

lemma parseargs_stop:
  assumes "toks_ok rest" and "follows ends rest"
  shows "parseargs (Suc k) argc ret (flat rest) = Ok (ret, flat rest)"
proof (cases rest)
  case Nil
  then show ?thesis by (simp add: peek_def gettoken_def Let_def)
next
  case (Cons t ts)
  have "peek (flat rest) (chars ''|)&;'') = (flat rest, True)"
    using assms Cons unfolding peek_toks[OF assms(1)] by (auto simp: follows_def chars_def)
  then show ?thesis by simp
qed

lemma parseargs_flat:
  assumes "\<forall>w\<in>set args. word_ok w" and "args \<noteq> []" and "argc + length args < MAXARGS" and "length as = argc"
    and rs: "\<forall>r\<in>set rs. redir_ok r" and rest: "toks_ok rest" "follows ends rest"
    and "length args + length rs < k"
  shows "\<exists>c'. parseargs k argc (EXEC as) (flat (args @ rtoks rs @ rest)) = Ok (c', flat rest) \<and>
    abs_cmd c' = aredirs rs (AExec (map span_text as @ args))"
  using assms(1-4,8)
proof (induction args arbitrary: argc as k)
  case (Cons w ws)
  from Cons.prems(5) obtain j where k: "k = Suc j" "length ws + length rs < j" by (cases k) auto
  have w: "word_ok w" "\<forall>w\<in>set ws. word_ok w" using Cons.prems(1) by simp_all
  let ?ts = "ws @ rtoks rs @ rest"
  have t: "toks_ok (w # ?ts)" using w rtoks_ok[OF rs] rest(1) by (auto simp: word_tok toks_ok_def)
  have p: "peek (flat (w # ?ts)) (chars ''|)&;'') = (flat (w # ?ts), False)"
    by (rule peek_word[OF t]) (use w in \<open>auto simp: chars_def\<close>)
  let ?a = "(flat (w # ?ts), 32 # flat ?ts)"
  have g: "gettoken (flat (w # ?ts)) = (97, ?a, flat ?ts)" unfolding gettoken_toks[OF t] using w by simp
  let ?d = "as @ [?a]"
  have d: "map span_text ?d = map span_text as @ [w]" using span_text_flat[of w ?ts] by simp
  have step: "parseargs k argc (EXEC as) (flat (w # ?ts)) =
      bindR (parseredirs j (EXEC ?d) (flat ?ts)) (\<lambda>(ret, ps). parseargs j (argc + 1) ret ps)"
    unfolding k(1) parseargs.simps p prod.case Let_def g using Cons.prems(3) by simp
  show ?case
  proof (cases "ws = []")
    case True
    have "follows {BAR, LPAR, RPAR, SEMI, AMP} rest" using rest(2) by (auto simp: follows_def)
    then obtain c' where "parseredirs j (EXEC ?d) (flat (rtoks rs @ rest)) = Ok (c', flat rest)"
      "abs_cmd c' = aredirs rs (abs_cmd (EXEC ?d))"
      using parseredirs_flat[OF rs rest(1), of j "EXEC ?d"] k(2) by auto
    moreover obtain i where "j = Suc i" using k(2) by (cases j) auto
    ultimately show ?thesis using True step d parseargs_stop[OF rest] by simp
  next
    case False
    have "toks_ok ?ts" using t by simp
    moreover have "word_ok (hd ?ts)" using False w(2) by (cases ws) auto
    ultimately have "parseredirs j (EXEC ?d) (flat ?ts) = Ok (EXEC ?d, flat ?ts)"
      using k(2) peek_word[of ?ts "chars ''<>''"] False by (cases j) (auto simp: chars_def)
    moreover have "\<exists>c'. parseargs j (argc + 1) (EXEC ?d) (flat ?ts) = Ok (c', flat rest) \<and>
        abs_cmd c' = aredirs rs (AExec (map span_text ?d @ ws))"
      by (rule Cons.IH) (use w False Cons.prems k in auto)
    ultimately show ?thesis using step d by simp
  qed
qed simp

section \<open>The grammar\<close>

text \<open>What it means that a level of the grammar parses a printed command back.\<close>

definition exec_rt :: "acmd \<Rightarrow> bool" where
  "exec_rt a \<longleftrightarrow> (\<forall>k rest. toks_ok (pr_exec a @ rest) \<longrightarrow> follows ends rest \<longrightarrow>
     4 * length (flat (pr_exec a @ rest)) + 2 \<le> k \<longrightarrow>
     (\<exists>cmd. parseexec k (flat (pr_exec a @ rest)) = Ok (cmd, flat rest) \<and> abs_cmd cmd = a))"

definition pipe_rt :: "acmd \<Rightarrow> bool" where
  "pipe_rt a \<longleftrightarrow> (\<forall>k rest. toks_ok (pr_pipe a @ rest) \<longrightarrow> follows {RPAR, AMP, SEMI} rest \<longrightarrow>
     4 * length (flat (pr_pipe a @ rest)) + 3 \<le> k \<longrightarrow>
     (\<exists>cmd. parsepipe k (flat (pr_pipe a @ rest)) = Ok (cmd, flat rest) \<and> abs_cmd cmd = a))"

definition back_rt :: "acmd \<Rightarrow> bool" where
  "back_rt a \<longleftrightarrow> (\<forall>k rest. toks_ok (pr_back a @ rest) \<longrightarrow> follows {RPAR, SEMI} rest \<longrightarrow>
     4 * length (flat (pr_back a @ rest)) + 3 \<le> k \<longrightarrow>
     (\<exists>cmd. bindR (parsepipe k (flat (pr_back a @ rest))) (\<lambda>(cmd, ps). parsebacks k cmd ps) = Ok (cmd, flat rest) \<and>
       abs_cmd cmd = a))"

definition line_rt :: "acmd \<Rightarrow> bool" where
  "line_rt a \<longleftrightarrow> (\<forall>k rest. toks_ok (pr_line a @ rest) \<longrightarrow> follows {RPAR} rest \<longrightarrow>
     4 * length (flat (pr_line a @ rest)) + 4 \<le> k \<longrightarrow>
     (\<exists>cmd. parseline k (flat (pr_line a @ rest)) = Ok (cmd, flat rest) \<and> abs_cmd cmd = a))"

lemma peek_follow:
  assumes "toks_ok rest" and "follows {BAR, LPAR, RPAR, AMP, SEMI} rest"
  shows "peek (flat rest) [c] = (flat rest, rest \<noteq> [] \<and> c \<noteq> 0 \<and> hd rest = [c])"
  using assms(2) unfolding peek_toks[OF assms(1)] by (auto simp: follows_def)

lemma length_flat: "toks_ok ts \<Longrightarrow> length ts \<le> length (flat ts)"
  by (induction ts) auto

lemma rtoks_length: "2 * length rs = length (rtoks rs)"
  by (induction rs) auto

lemma pipe_of_exec:
  assumes "exec_rt a" and "pr_pipe a = pr_exec a"
  shows "pipe_rt a"
  unfolding pipe_rt_def
proof (intro allI impI)
  fix k rest
  assume t: "toks_ok (pr_pipe a @ rest)" and f: "follows {RPAR, AMP, SEMI} rest"
    and k: "4 * length (flat (pr_pipe a @ rest)) + 3 \<le> k"
  from k obtain j where j: "k = Suc j" by (cases k) auto
  have "follows ends rest" using f by (rule follows_mono) auto
  then obtain cmd where c: "parseexec j (flat (pr_exec a @ rest)) = Ok (cmd, flat rest)" "abs_cmd cmd = a"
    using assms(1)[unfolded exec_rt_def, rule_format, of rest j] t k assms(2) j by auto
  have "peek (flat rest) [124] = (flat rest, False)"
    using t f peek_follow[of rest 124] by (auto simp: follows_def)
  then show "\<exists>cmd. parsepipe k (flat (pr_pipe a @ rest)) = Ok (cmd, flat rest) \<and> abs_cmd cmd = a"
    using c assms(2) j by (simp add: chars_def)
qed

lemma pipe_pipe:
  assumes "exec_rt l" and "pipe_rt r"
  shows "pipe_rt (APipe l r)"
  unfolding pipe_rt_def
proof (intro allI impI)
  fix k rest
  assume t: "toks_ok (pr_pipe (APipe l r) @ rest)" and f: "follows {RPAR, AMP, SEMI} rest"
    and k: "4 * length (flat (pr_pipe (APipe l r) @ rest)) + 3 \<le> k"
  let ?rest = "BAR # pr_pipe r @ rest"
  from k obtain j where j: "k = Suc j" by (cases k) auto
  have "follows ends ?rest" by (simp add: follows_def)
  then obtain cl where l: "parseexec j (flat (pr_exec l @ ?rest)) = Ok (cl, flat ?rest)" "abs_cmd cl = l"
    using assms(1)[unfolded exec_rt_def, rule_format, of ?rest j] t k j by auto
  have tr: "toks_ok ?rest" "toks_ok (pr_pipe r @ rest)" using t by auto
  obtain cr where r: "parsepipe j (flat (pr_pipe r @ rest)) = Ok (cr, flat rest)" "abs_cmd cr = r"
    using assms(2)[unfolded pipe_rt_def, rule_format, of rest j] tr f k j by auto
  have "peek (flat ?rest) [124] = (flat ?rest, True)" using peek_toks[OF tr(1)] by simp
  moreover have "gettoken (flat ?rest) = (124, (flat ?rest, 32 # flat (pr_pipe r @ rest)), flat (pr_pipe r @ rest))"
    using gettoken_toks[OF tr(1)] by simp
  ultimately show "\<exists>cmd. parsepipe k (flat (pr_pipe (APipe l r) @ rest)) = Ok (cmd, flat rest) \<and> abs_cmd cmd = APipe l r"
    using l r j by (simp add: chars_def)
qed

text \<open>A command under a number of background marks.\<close>

fun core :: "acmd \<Rightarrow> acmd" where
  "core (ABack c) = core c"
| "core c = c"

fun marks :: "acmd \<Rightarrow> nat" where
  "marks (ABack c) = Suc (marks c)"
| "marks c = 0"

lemma core_marks: "pr_back a = pr_pipe (core a) @ replicate (marks a) AMP" "a = (ABack ^^ marks a) (core a)"
proof -
  show "pr_back a = pr_pipe (core a) @ replicate (marks a) AMP"
    by (induction a) (simp_all add: replicate_append_same)
  show "a = (ABack ^^ marks a) (core a)" by (induction a) simp_all
qed

lemma core_size: "size (core a) \<le> size a" "core a = ABack c \<Longrightarrow> False"
  by (induction a) auto

lemma parsebacks_flat:
  assumes "toks_ok rest" and "follows {RPAR, SEMI} rest" and "n < k"
  shows "\<exists>c'. parsebacks k c (flat (replicate n AMP @ rest)) = Ok (c', flat rest) \<and> abs_cmd c' = (ABack ^^ n) (abs_cmd c)"
  using assms(3)
proof (induction n arbitrary: c k)
  case 0
  then obtain j where k: "k = Suc j" by (cases k) auto
  have "peek (flat rest) [38] = (flat rest, False)"
    using assms(1,2) peek_follow[of rest 38] by (auto simp: follows_def)
  then show ?case by (simp add: k chars_def)
next
  case (Suc n)
  then obtain j where k: "k = Suc j" "n < j" by (cases k) auto
  let ?ts = "replicate n AMP @ rest"
  have t: "toks_ok (AMP # ?ts)" using assms(1) by (auto simp: toks_ok_def)
  have "parsebacks k c (flat (AMP # ?ts)) = parsebacks j (BACK c) (flat ?ts)"
    using peek_toks[OF t, of "[38]"] gettoken_toks[OF t] k(1) by (simp add: chars_def)
  then show ?case using Suc.IH[OF k(2), of "BACK c"] by (simp add: funpow_swap1)
qed

lemma back_of_pipe:
  assumes "pipe_rt (core a)"
  shows "back_rt a"
  unfolding back_rt_def
proof (intro allI impI)
  fix k rest
  assume t: "toks_ok (pr_back a @ rest)" and f: "follows {RPAR, SEMI} rest"
    and k: "4 * length (flat (pr_back a @ rest)) + 3 \<le> k"
  let ?rest = "replicate (marks a) AMP @ rest"
  have e: "pr_back a @ rest = pr_pipe (core a) @ ?rest" by (simp add: core_marks(1))
  have fo: "follows {RPAR, AMP, SEMI} ?rest" using f by (cases "marks a") (auto simp: follows_def)
  obtain c where c: "parsepipe k (flat (pr_pipe (core a) @ ?rest)) = Ok (c, flat ?rest)" "abs_cmd c = core a"
    using assms[unfolded pipe_rt_def, rule_format, of ?rest k] t k fo unfolding e by blast
  have "toks_ok rest" "marks a < k"
    using t length_flat[OF t] k unfolding e by simp_all
  then obtain d where "parsebacks k c (flat ?rest) = Ok (d, flat rest)" "abs_cmd d = (ABack ^^ marks a) (abs_cmd c)"
    using parsebacks_flat[of rest "marks a" k c] f by blast
  then show "\<exists>cmd. bindR (parsepipe k (flat (pr_back a @ rest))) (\<lambda>(cmd, ps). parsebacks k cmd ps) = Ok (cmd, flat rest) \<and> abs_cmd cmd = a"
    using c core_marks(2)[of a] unfolding e by simp
qed

lemma parseline_backs:
  assumes "bindR (parsepipe k ps) (\<lambda>(cmd, ps). parsebacks k cmd ps) = Ok (cmd, ps')"
  shows "parseline (Suc k) ps =
    (let (ps, p) = peek ps' [59]
     in if p then let (_, _, ps) = gettoken ps in bindR (parseline k ps) (\<lambda>(right, ps). Ok (LIST cmd right, ps))
        else Ok (cmd, ps))"
  using assms by (auto simp: res_iff chars_def split_beta)

lemma line_of_back:
  assumes "back_rt a" and "pr_line a = pr_back a"
  shows "line_rt a"
  unfolding line_rt_def
proof (intro allI impI)
  fix k rest
  assume t: "toks_ok (pr_line a @ rest)" and f: "follows {RPAR} rest" and k: "4 * length (flat (pr_line a @ rest)) + 4 \<le> k"
  from k obtain j where j: "k = Suc j" by (cases k) auto
  have "follows {RPAR, SEMI} rest" using f by (rule follows_mono) auto
  then obtain cmd where c: "bindR (parsepipe j (flat (pr_back a @ rest))) (\<lambda>(cmd, ps). parsebacks j cmd ps) = Ok (cmd, flat rest)" "abs_cmd cmd = a"
    using assms(1)[unfolded back_rt_def, rule_format, of rest j] t k assms(2) j by auto
  have "peek (flat rest) [59] = (flat rest, False)"
    using t f peek_follow[of rest 59] by (auto simp: follows_def)
  then show "\<exists>cmd. parseline k (flat (pr_line a @ rest)) = Ok (cmd, flat rest) \<and> abs_cmd cmd = a"
    using parseline_backs[OF c(1)] c(2) assms(2) j by simp
qed

lemma line_list:
  assumes "back_rt l" and "line_rt r"
  shows "line_rt (AList l r)"
  unfolding line_rt_def
proof (intro allI impI)
  fix k rest
  assume t: "toks_ok (pr_line (AList l r) @ rest)" and f: "follows {RPAR} rest"
    and k: "4 * length (flat (pr_line (AList l r) @ rest)) + 4 \<le> k"
  let ?rest = "SEMI # pr_line r @ rest"
  from k obtain j where j: "k = Suc j" by (cases k) auto
  have tr: "toks_ok ?rest" "toks_ok (pr_line r @ rest)" using t by auto
  have "follows {RPAR, SEMI} ?rest" by (simp add: follows_def)
  then obtain cl where l: "bindR (parsepipe j (flat (pr_back l @ ?rest))) (\<lambda>(cmd, ps). parsebacks j cmd ps) = Ok (cl, flat ?rest)" "abs_cmd cl = l"
    using assms(1)[unfolded back_rt_def, rule_format, of ?rest j] t k j by auto
  obtain cr where r: "parseline j (flat (pr_line r @ rest)) = Ok (cr, flat rest)" "abs_cmd cr = r"
    using assms(2)[unfolded line_rt_def, rule_format, of rest j] tr f k j by auto
  have "peek (flat ?rest) [59] = (flat ?rest, True)" using peek_toks[OF tr(1)] by simp
  moreover have "gettoken (flat ?rest) = (59, (flat ?rest, 32 # flat (pr_line r @ rest)), flat (pr_line r @ rest))"
    using gettoken_toks[OF tr(1)] by simp
  ultimately show "\<exists>cmd. parseline k (flat (pr_line (AList l r) @ rest)) = Ok (cmd, flat rest) \<and> abs_cmd cmd = AList l r"
    using parseline_backs[OF l(1)] l(2) r j by simp
qed

text \<open>Simple commands and blocks with their redirections.\<close>

lemma pr_exec_aredirs: "pr_exec (aredirs rs c) = pr_exec c @ rtoks rs"
  by (induction rs arbitrary: c) (auto simp: redir_toks_def)

lemma exec_simple:
  assumes args: "\<forall>w\<in>set args. word_ok w" "length args < MAXARGS" and rs: "\<forall>r\<in>set rs. redir_ok r"
  shows "exec_rt (aredirs rs (AExec args))"
  unfolding exec_rt_def pr_exec_aredirs pr_exec.simps
proof (intro allI impI)
  fix k rest
  let ?ts = "(args @ rtoks rs) @ rest"
  assume t: "toks_ok ?ts" and f: "follows ends rest" and k: "4 * length (flat ?ts) + 2 \<le> k"
  from k obtain j where j: "k = Suc j" by (cases k) auto
  have tr: "toks_ok rest" using t by simp
  have n: "length args + 2 * length rs \<le> length (flat ?ts)" using length_flat[OF t] rtoks_length[of rs] by simp
  have fo: "follows {BAR, LPAR, RPAR, SEMI, AMP} rest" using f by (rule follows_mono) auto
  have "peek (flat ?ts) [40] = (flat ?ts, False)"
  proof (cases "args = [] \<and> rs = []")
    case True
    then show ?thesis using peek_follow[of rest 40] tr f by (auto simp: follows_def)
  next
    case False
    then have "hd (hd ?ts) \<noteq> 40"
    proof (cases args)
      case Nil
      with False show ?thesis by (cases rs) (auto split: if_splits)
    next
      case (Cons w ws)
      then show ?thesis using args(1) word_head[of w] by simp
    qed
    then show ?thesis unfolding peek_toks[OF t] by simp
  qed
  then have e: "parseexec k (flat ?ts) = bindR (parseredirs j (EXEC []) (flat ?ts)) (\<lambda>(ret, ps). parseargs j 0 ret ps)"
    using j by (simp add: chars_def)
  show "\<exists>cmd. parseexec k (flat ?ts) = Ok (cmd, flat rest) \<and> abs_cmd cmd = aredirs rs (AExec args)"
  proof (cases "args = []")
    case True
    obtain c where c: "parseredirs j (EXEC []) (flat (rtoks rs @ rest)) = Ok (c, flat rest)" "abs_cmd c = aredirs rs (AExec [])"
      using parseredirs_flat[OF rs tr, of j "EXEC []"] fo n k j by auto
    moreover obtain i where "j = Suc i" using k j by (cases j) auto
    ultimately show ?thesis using True e parseargs_stop[OF tr f] by simp
  next
    case False
    have "word_ok (hd ?ts)" using False args(1) by (cases args) auto
    then have "parseredirs j (EXEC []) (flat ?ts) = Ok (EXEC [], flat ?ts)"
      using k j peek_word[OF t, of "chars ''<>''"] False by (cases j) (auto simp: chars_def)
    moreover obtain c where "parseargs j 0 (EXEC []) (flat (args @ rtoks rs @ rest)) = Ok (c, flat rest)"
      "abs_cmd c = aredirs rs (AExec args)"
      using parseargs_flat[OF args(1) False _ _ rs tr f, of 0 "[]" j] args(2) n k j by auto
    ultimately show ?thesis using e by simp
  qed
qed

lemma exec_block:
  assumes "line_rt b" and "pr_exec b = LPAR # pr_line b @ [RPAR]" and rs: "\<forall>r\<in>set rs. redir_ok r"
  shows "exec_rt (aredirs rs b)"
  unfolding exec_rt_def pr_exec_aredirs assms(2)
proof (intro allI impI)
  fix k rest
  let ?body = "pr_line b @ RPAR # rtoks rs @ rest"
  let ?ts = "((LPAR # pr_line b @ [RPAR]) @ rtoks rs) @ rest"
  assume t: "toks_ok ?ts" and f: "follows ends rest" and k: "4 * length (flat ?ts) + 2 \<le> k"
  from k obtain i where j: "k = Suc (Suc i)" by (cases k; cases "k - 1") auto
  have ts: "?ts = LPAR # ?body" by simp
  have tb: "toks_ok (LPAR # ?body)" "toks_ok ?body" "toks_ok (RPAR # rtoks rs @ rest)" "toks_ok (rtoks rs @ rest)" "toks_ok rest"
    using t by auto
  have "follows {RPAR} (RPAR # rtoks rs @ rest)" by (simp add: follows_def)
  then obtain c where c: "parseline i (flat ?body) = Ok (c, flat (RPAR # rtoks rs @ rest))" "abs_cmd c = b"
    using assms(1)[unfolded line_rt_def, rule_format, of "RPAR # rtoks rs @ rest" i] tb(2) k j by auto
  have n: "length rs < i" using length_flat[OF tb(4)] rtoks_length[of rs] k j by simp
  have fo: "follows {BAR, LPAR, RPAR, SEMI, AMP} rest" using f by (rule follows_mono) auto
  obtain d where d: "parseredirs i c (flat (rtoks rs @ rest)) = Ok (d, flat rest)" "abs_cmd d = aredirs rs (abs_cmd c)"
    using parseredirs_flat[OF rs tb(5) _ n, of c] fo by auto
  have p: "peek (flat (LPAR # ?body)) [40] = (flat (LPAR # ?body), True)" using peek_toks[OF tb(1)] by simp
  have g: "gettoken (flat (LPAR # ?body)) = (40, (flat (LPAR # ?body), 32 # flat ?body), flat ?body)"
    using gettoken_toks[OF tb(1)] by simp
  have p2: "peek (flat (RPAR # rtoks rs @ rest)) [41] = (flat (RPAR # rtoks rs @ rest), True)"
    using peek_toks[OF tb(3)] by simp
  have g2: "gettoken (flat (RPAR # rtoks rs @ rest)) = (41, (flat (RPAR # rtoks rs @ rest), 32 # flat (rtoks rs @ rest)), flat (rtoks rs @ rest))"
    using gettoken_toks[OF tb(3)] by simp
  have "parseexec k (flat ?ts) = Ok (d, flat rest)"
    unfolding ts j parseexec.simps parseblock.simps chars_def using p g p2 g2 c(1) d(1) by simp
  then show "\<exists>cmd. parseexec k (flat ?ts) = Ok (cmd, flat rest) \<and> abs_cmd cmd = aredirs rs b" using c(2) d(2) by blast
qed

section \<open>Printing and parsing\<close>

fun unredir :: "acmd \<Rightarrow> acmd \<times> redir list" where
  "unredir (ARedir c f mode fd) = (let (b, rs) = unredir c in (b, rs @ [(f, mode, fd)]))"
| "unredir c = (c, [])"

lemma aredirs_snoc: "aredirs (rs @ [(f, mode, fd)]) c = ARedir (aredirs rs c) f mode fd"
  by (induction rs c rule: aredirs.induct) simp_all

lemma redir_ok_simp [simp]:
  "redir_ok (f, mode, fd) \<longleftrightarrow> word_ok f \<and> (mode = O_RDONLY \<and> fd = 0 \<or> mode = O_WRONLY OR O_CREATE \<and> fd = 1)"
  by (simp add: redir_ok_def)

lemma unredir_ok:
  assumes "unredir a = (b, rs)" and "acmd_ok a"
  shows "a = aredirs rs b" and "acmd_ok b" and "\<forall>r\<in>set rs. redir_ok r" and "size b + length rs \<le> size a"
    and "\<And>c f mode fd. b \<noteq> ARedir c f mode fd"
proof -
  have "a = aredirs rs b \<and> acmd_ok b \<and> (\<forall>r\<in>set rs. redir_ok r) \<and> size b + length rs \<le> size a \<and> (\<forall>c f mode fd. b \<noteq> ARedir c f mode fd)"
    using assms
    by (induction a arbitrary: b rs) (auto simp: aredirs_snoc split: prod.splits)
  then show "a = aredirs rs b" "acmd_ok b" "\<forall>r\<in>set rs. redir_ok r" "size b + length rs \<le> size a" "\<And>c f mode fd. b \<noteq> ARedir c f mode fd"
    by blast+
qed

lemma all_rt:
  assumes "acmd_ok a"
  shows "exec_rt a \<and> pipe_rt a \<and> back_rt a \<and> line_rt a"
  using assms
proof (induction a rule: measure_induct_rule[of size])
  case (less a)
  have core: "back_rt a" if "core a \<noteq> a"
  proof -
    have "size (core a) < size a" using that core_size(1)[of a] by (cases a) (auto simp: le_imp_less_Suc core_size(1))
    moreover have "acmd_ok (core a)" using less.prems by (induction a) auto
    ultimately show ?thesis using less.IH back_of_pipe by blast
  qed
  have finish: ?case if "exec_rt a" "pr_pipe a = pr_exec a" "pr_line a = pr_back a" "core a = a"
    using that pipe_of_exec[of a] back_of_pipe[of a] line_of_back[of a] by simp
  show ?case
  proof (cases a)
    case (AExec args)
    then have "exec_rt a" using exec_simple[of args "[]"] less.prems by simp
    then show ?thesis by (rule finish) (simp_all add: AExec)
  next
    case (ARedir c f mode fd)
    obtain b rs where u: "unredir a = (b, rs)" by (cases "unredir a")
    note b = unredir_ok[OF u less.prems]
    have "rs \<noteq> []" using u ARedir by (auto split: prod.splits)
    then have "size b < size a" using b(4) by (cases rs) auto
    then have "line_rt b" using less.IH b(2) by blast
    have "exec_rt a"
    proof (cases b)
      case (AExec args)
      then show ?thesis using exec_simple[of args rs] b by simp
    next
      case ARedir
      then show ?thesis using b(5) by blast
    qed (use exec_block[OF \<open>line_rt b\<close> _ b(3)] b(1) in simp_all)
    then show ?thesis by (rule finish) (simp_all add: ARedir)
  next
    case (APipe l r)
    then have "exec_rt l" "pipe_rt r" using less by auto
    then have p: "pipe_rt a" using pipe_pipe APipe by simp
    then have bk: "back_rt a" using back_of_pipe[of a] APipe by simp
    then have ln: "line_rt a" using line_of_back[of a] APipe by simp
    then have "exec_rt a" using exec_block[of a "[]"] APipe by simp
    then show ?thesis using p bk ln by blast
  next
    case (AList l r)
    then have "back_rt l" "line_rt r" using less by auto
    then have ln: "line_rt a" using line_list AList by simp
    then have e: "exec_rt a" using exec_block[of a "[]"] AList by simp
    then have p: "pipe_rt a" using pipe_of_exec[of a] AList by simp
    then have "back_rt a" using back_of_pipe[of a] AList by simp
    then show ?thesis using e p ln by blast
  next
    case (ABack c)
    have "core a \<noteq> a" using core_size(2)[of a] ABack by auto
    then have bk: "back_rt a" by (rule core)
    then have ln: "line_rt a" using line_of_back[of a] ABack by simp
    then have e: "exec_rt a" using exec_block[of a "[]"] ABack by simp
    then have "pipe_rt a" using pipe_of_exec[of a] ABack by simp
    then show ?thesis using e bk ln by blast
  qed
qed

lemma pr_toks_ok:
  "acmd_ok a \<Longrightarrow> toks_ok (pr_line a) \<and> toks_ok (pr_back a) \<and> toks_ok (pr_pipe a) \<and> toks_ok (pr_exec a)"
  by (induction a) (auto simp: redir_toks_def word_tok toks_ok_def)

text \<open>C24: Parsing inverts printing: every command with at most nine arguments, made of words without
  white space, symbols and zero bytes, is parsed back from its printed form, whatever the
  nesting of lists, pipelines, background commands, blocks and redirections.\<close>

theorem parse_print:
  assumes "acmd_ok a"
  shows "\<exists>cmd buf. parsecmd (flat (pr_line a)) = Ok (cmd, buf) \<and> abs_cmd cmd = a"
proof -
  let ?s = "flat (pr_line a)"
  obtain cmd where c: "parseline (4 * length ?s + 8) ?s = Ok (cmd, [])" "abs_cmd cmd = a"
    using all_rt[OF assms] pr_toks_ok[OF assms] unfolding line_rt_def
    by (auto simp: follows_def dest!: spec[of _ "4 * length ?s + 8"] spec[of _ "[]"])
  then show ?thesis by (simp add: parsecmd_def peek_def)
qed

theorem parse_print_witness:
  "\<exists>cmd buf. parsecmd (chars ''( ls | wc ) > f ; sh & '') = Ok (cmd, buf) \<and>
     abs_cmd cmd = AList (ARedir (APipe (AExec [chars ''ls'']) (AExec [chars ''wc''])) (chars ''f'') (O_WRONLY OR O_CREATE) 1)
                         (ABack (AExec [chars ''sh'']))"
proof -
  let ?a = "AList (ARedir (APipe (AExec [chars ''ls'']) (AExec [chars ''wc''])) (chars ''f'') (O_WRONLY OR O_CREATE) 1)
                  (ABack (AExec [chars ''sh'']))"
  have "flat (pr_line ?a) = chars ''( ls | wc ) > f ; sh & ''" by (simp add: chars_def redir_toks_def)
  moreover have "acmd_ok ?a" by (simp add: MAXARGS_def chars_def word_ok_def ws_iff is_sym_iff)
  ultimately show ?thesis using parse_print[of ?a] by simp
qed

end
