(* ===== verification/Fd_Table.thy ===== *)
theory Fd_Table
  imports Xv6_Prelude
begin

text \<open>
  The file descriptors of a process, as the programs that set up pipelines see them: a call that
  opens something gets the lowest free descriptor below the limit. What the system interface
  promises about \<^verbatim>\<open>open\<close>, \<^verbatim>\<open>close\<close>, \<^verbatim>\<open>dup2\<close> and \<^verbatim>\<open>pipe\<close> is all that is used of it.
\<close>

datatype fref = Inherited nat | Opened "u8 list" u32 | ReadEnd nat | WriteEnd nat

type_synonym fds = "nat \<Rightarrow> fref option"

definition fd_free :: "nat \<Rightarrow> fds \<Rightarrow> nat option" where
  "fd_free limit t = find_first (\<lambda>i. t i = None) limit"

definition fd_open :: "nat \<Rightarrow> fref \<Rightarrow> fds \<Rightarrow> (nat \<times> fds) option" where
  "fd_open limit f t = (case fd_free limit t of None \<Rightarrow> None | Some i \<Rightarrow> Some (i, t(i \<mapsto> f)))"

definition fd_pipe :: "nat \<Rightarrow> nat \<Rightarrow> fds \<Rightarrow> (nat \<times> nat \<times> fds) option" where
  "fd_pipe limit n t =
     (case fd_open limit (ReadEnd n) t of
        None \<Rightarrow> None
      | Some (r, t) \<Rightarrow> (case fd_open limit (WriteEnd n) t of None \<Rightarrow> None | Some (w, t) \<Rightarrow> Some (r, w, t)))"

definition fd_close :: "nat \<Rightarrow> fds \<Rightarrow> fds" where
  "fd_close i t = t(i := None)"

definition fd_dup2 :: "nat \<Rightarrow> nat \<Rightarrow> fds \<Rightarrow> fds" where
  "fd_dup2 old new t = (if t old = None then t else t(new := t old))"

section \<open>Tables with standard descriptors\<close>

text \<open>The three standard descriptors are open, and two descriptors are free.\<close>

definition std_fds :: "nat \<Rightarrow> fds \<Rightarrow> bool" where
  "std_fds limit t \<longleftrightarrow> t 0 \<noteq> None \<and> t 1 \<noteq> None \<and> t 2 \<noteq> None
     \<and> (\<exists>i j. i < j \<and> j < limit \<and> t i = None \<and> t j = None)"

lemma std_fds_upd: "std_fds limit t \<Longrightarrow> i < 3 \<Longrightarrow> std_fds limit (t(i \<mapsto> f))"
  unfolding std_fds_def
proof (elim conjE exE)
  fix a b assume a: "i < 3" "t 0 \<noteq> None" "t 1 \<noteq> None" "t 2 \<noteq> None" "a < b" "b < limit" "t a = None" "t b = None"
  then have "a \<noteq> i" "b \<noteq> i" by (auto simp: less_Suc_eq numeral_eq_Suc)
  then show "(t(i \<mapsto> f)) 0 \<noteq> None \<and> (t(i \<mapsto> f)) 1 \<noteq> None \<and> (t(i \<mapsto> f)) 2 \<noteq> None
     \<and> (\<exists>a b. a < b \<and> b < limit \<and> (t(i \<mapsto> f)) a = None \<and> (t(i \<mapsto> f)) b = None)"
    using a by (intro conjI exI [of _ a] exI [of _ b]) auto
qed

lemma std_fds_free: "std_fds limit t \<Longrightarrow> t k = None \<Longrightarrow> 3 \<le> k"
  by (cases "k = 0"; cases "k = 1"; cases "k = 2") (auto simp: std_fds_def)

lemma reopen_std:
  assumes "std_fds limit t" and "i < 3"
  shows "fd_open limit f (fd_close i t) = Some (i, t(i \<mapsto> f))"
proof -
  obtain j where "j < limit" "t j = None" using assms(1) by (auto simp: std_fds_def)
  then have "i < limit" using std_fds_free [OF assms(1), of j] assms(2) by simp
  then have "fd_free limit (fd_close i t) = Some i"
    using assms by (auto simp: fd_free_def find_first_Some fd_close_def std_fds_def less_Suc_eq numeral_eq_Suc)
  then show ?thesis by (simp add: fd_open_def fd_close_def)
qed

lemma pipe_std:
  assumes "std_fds limit t"
  obtains r w where "fd_pipe limit n t = Some (r, w, t(r \<mapsto> ReadEnd n, w \<mapsto> WriteEnd n))"
    and "t r = None" and "t w = None" and "r \<noteq> w" and "3 \<le> r" and "3 \<le> w"
proof -
  obtain i j where ij: "i < j" "j < limit" "t i = None" "t j = None" using assms by (auto simp: std_fds_def)
  obtain r where r: "fd_free limit t = Some r" using ij by (cases "fd_free limit t") (auto simp: fd_free_def find_first_None)
  then have r': "t r = None" "r \<le> i" using ij by (auto simp: fd_free_def find_first_Some not_le [symmetric])
  let ?t = "t(r \<mapsto> ReadEnd n)"
  have "?t j = None" using ij r'(2) by simp
  then obtain w where w: "fd_free limit ?t = Some w"
    using ij(2) by (cases "fd_free limit ?t") (auto simp: fd_free_def find_first_None)
  then have w': "?t w = None" by (auto simp: fd_free_def find_first_Some)
  then have w2: "r \<noteq> w" "t w = None" by (auto split: if_splits)
  show ?thesis
    using that [of r w] r r'(1) w w2 std_fds_free [OF assms] by (simp add: fd_pipe_def fd_open_def)
qed

text \<open>
  A child that moves one end of a fresh pipe to a standard descriptor and closes both
  descriptors of the pipe has, apart from that standard descriptor, the table of its parent.
\<close>

lemma pipe_child:
  assumes "t r = None" and "t w = None" and "r \<noteq> w" and "3 \<le> r" and "3 \<le> w" and "i < 3"
  shows "fd_close w (fd_close r (fd_dup2 w i (t(r \<mapsto> f, w \<mapsto> g)))) = t(i \<mapsto> g)"
    and "fd_close w (fd_close r (fd_dup2 r i (t(r \<mapsto> f, w \<mapsto> g)))) = t(i \<mapsto> f)"
    and "fd_close w (fd_close r (t(r \<mapsto> f, w \<mapsto> g))) = t"
  using assms by (auto simp: fd_close_def fd_dup2_def fun_eq_iff)

end
