(* ===== verification/Sh_Run.thy ===== *)
theory Sh_Run
  imports Sh_Parse Fd_Table User_Progs Trap
begin

text \<open>
  The execution of commands by the shell, \<^verbatim>\<open>runcmd\<close> and \<^verbatim>\<open>main\<close> of \<^verbatim>\<open>src/xv6/user/sh.c\<close>. The
  processes that a command gives rise to are listed in the order in which they are started, each with
  the call of \<^verbatim>\<open>exec\<close> that it makes and its file descriptors at that moment, or with the message
  with which it ends before. Pipes are numbered in the order of their creation; whether the
  next call of \<^verbatim>\<open>fork\<close> succeeds is told by a list, and it does when the list is empty. Which
  files can be opened is a parameter. The strings of a command are read from the buffer through
  the function \<open>str\<close>.
\<close>

datatype outcome = Exec "u8 list list" fds | Fails string

type_synonym shell_env = "nat \<times> bool list"

definition fork1 :: "shell_env \<Rightarrow> bool \<times> shell_env" where
  "fork1 e = (case e of (n, []) \<Rightarrow> (True, n, []) | (n, b # bs) \<Rightarrow> (b, n, bs))"

fun runcmd :: "(u8 list \<Rightarrow> u32 \<Rightarrow> bool) \<Rightarrow> (span \<Rightarrow> u8 list) \<Rightarrow> cmd \<Rightarrow> fds \<Rightarrow> shell_env \<Rightarrow> outcome list \<times> shell_env" where
  "runcmd can_open str (EXEC args) t e =
     (if args = [] then ([], e) else ([Exec (map str args) t], e))"
| "runcmd can_open str (REDIR cmd q mode fd) t e =
     (let t = fd_close fd t
      in case (if can_open (str q) mode then fd_open NOFILE (Opened (str q) mode) t else None) of
           None \<Rightarrow> ([Fails ''open''], e)
         | Some (_, t) \<Rightarrow> runcmd can_open str cmd t e)"
| "runcmd can_open str (LIST left right) t e =
     (case fork1 e of
        (False, e) \<Rightarrow> ([Fails ''fork''], e)
      | (True, e) \<Rightarrow>
          let (os1, e) = runcmd can_open str left t e; (os2, e) = runcmd can_open str right t e in (os1 @ os2, e))"
| "runcmd can_open str (PIPE left right) t e =
     (case fd_pipe NOFILE (fst e) t of
        None \<Rightarrow> ([Fails ''pipe''], e)
      | Some (p0, p1, t) \<Rightarrow>
          (case fork1 (Suc (fst e), snd e) of
             (False, e) \<Rightarrow> ([Fails ''fork''], e)
           | (True, e) \<Rightarrow>
               let (os1, e) = runcmd can_open str left (fd_close p1 (fd_close p0 (fd_dup2 p1 1 t))) e
               in (case fork1 e of
                     (False, e) \<Rightarrow> (os1 @ [Fails ''fork''], e)
                   | (True, e) \<Rightarrow>
                       let (os2, e) = runcmd can_open str right (fd_close p1 (fd_close p0 (fd_dup2 p0 0 t))) e
                       in (os1 @ os2, e))))"
| "runcmd can_open str (BACK cmd) t e =
     (case fork1 e of
        (False, e) \<Rightarrow> ([Fails ''fork''], e)
      | (True, e) \<Rightarrow> runcmd can_open str cmd t e)"

text \<open>The zero-terminated string that starts at a pointer into the buffer of the line.\<close>

definition buf_str :: "nat \<Rightarrow> (nat \<Rightarrow> u8) \<Rightarrow> span \<Rightarrow> u8 list" where
  "buf_str n buf q = takeWhile (\<lambda>c. c \<noteq> 0) (map buf [n - length (fst q)..<n])"

text \<open>The child that \<^verbatim>\<open>main\<close> starts for a line.\<close>

definition run_line :: "(u8 list \<Rightarrow> u32 \<Rightarrow> bool) \<Rightarrow> u8 list \<Rightarrow> fds \<Rightarrow> shell_env \<Rightarrow> (outcome list \<times> shell_env) res" where
  "run_line can_open s t e =
     bindR (parsecmd s) (\<lambda>(cmd, buf). Ok (runcmd can_open (buf_str (length s) buf) cmd t e))"

section \<open>The main loop\<close>

text \<open>Opening the console until three descriptors are open, in at most \<open>NOFILE\<close> steps.\<close>

fun open_console :: "nat \<Rightarrow> fds \<Rightarrow> fds" where
  "open_console 0 t = t"
| "open_console (Suc k) t =
     (case fd_open NOFILE (Opened (chars ''console'') O_RDWR) t of
        None \<Rightarrow> t
      | Some (fd, t) \<Rightarrow> if fd \<ge> 3 then fd_close fd t else open_console k t)"

definition getcmd :: "u8 list \<Rightarrow> (u8 list \<times> u8 list) option" where
  "getcmd inp = (let (buf, inp) = gets 100 inp; buf = ustr buf in if buf = [] then None else Some (buf, inp))"

text \<open>What the shell prints about the status of its child, and the descriptor it prints to.\<close>

definition report_status :: "u32 \<Rightarrow> (nat \<times> u8 list) option" where
  "report_status status =
     (if WIFEXITED status
      then map_option (Pair 1) (printf (chars ''Output code: %d'' @ [10]) [UInt (WEXITSTATUS status)])
      else if WIFSIGNALED status
      then map_option (Pair 2) (printf (chars ''Failed. Trap code: %d'' @ [10]) [UInt (WEXITTRAP status)])
      else None)"

text \<open>
  What \<^verbatim>\<open>main\<close> does with the lines of its input: it changes its own directory, or starts a child,
  waits for it and reports its status, or ends because it cannot start a child. The statuses
  that \<^verbatim>\<open>wait\<close> delivers are a parameter.
\<close>

datatype sh_event = Chdir "u8 list" | Child "outcome list res" "(nat \<times> u8 list) option" | Died

fun sh_loop :: "nat \<Rightarrow> (u8 list \<Rightarrow> u32 \<Rightarrow> bool) \<Rightarrow> fds \<Rightarrow> (nat \<Rightarrow> u32) \<Rightarrow> u8 list \<Rightarrow> shell_env \<Rightarrow> sh_event list res" where
  "sh_loop 0 can_open t statuses inp e = Exhausted"
| "sh_loop (Suc k) can_open t statuses inp e =
     (case getcmd inp of
        None \<Rightarrow> Ok []
      | Some (buf, inp) \<Rightarrow>
          if take 3 buf = chars ''cd ''
          then bindR (sh_loop k can_open t statuses inp e) (\<lambda>evs. Ok (Chdir (drop 3 (butlast buf)) # evs))
          else (case fork1 e of
                  (False, e) \<Rightarrow> Ok [Died]
                | (True, e) \<Rightarrow>
                    let r = run_line can_open buf t e;
                        e = (case r of Ok (_, e) \<Rightarrow> e | _ \<Rightarrow> e)
                    in bindR (sh_loop k can_open t (statuses \<circ> Suc) inp e) (\<lambda>evs.
                       Ok (Child (bindR r (\<lambda>(os, _). Ok os)) (report_status (statuses 0)) # evs))))"

definition sh_main :: "(u8 list \<Rightarrow> u32 \<Rightarrow> bool) \<Rightarrow> fds \<Rightarrow> (nat \<Rightarrow> u32) \<Rightarrow> u8 list \<Rightarrow> shell_env \<Rightarrow> sh_event list res" where
  "sh_main can_open t statuses inp e =
     sh_loop (Suc (length inp)) can_open (open_console NOFILE t) statuses inp e"

section \<open>The meaning of a command\<close>













section \<open>The shell ends\<close>

lemma gets_loop_length: "length (snd (gets_loop k inp)) + length (fst (gets_loop k inp)) = length inp"
  by (induction k inp rule: gets_loop.induct) (auto split: prod.splits)

lemma getcmd_less: "getcmd inp = Some (buf, rest) \<Longrightarrow> length rest < length inp"
  using gets_loop_length [of "nat (100 - 1)" inp]
  by (cases "fst (gets_loop (nat (100 - 1)) inp)")
     (auto simp: getcmd_def gets_def ustr_def Let_def split: prod.splits if_splits)

lemma sh_main_ends: "\<exists>evs. sh_main can_open t statuses inp e = Ok evs"
proof -
  have "length inp < k \<Longrightarrow> \<exists>evs. sh_loop k can_open t statuses inp e = Ok evs" for k t
  proof (induction k arbitrary: inp statuses e)
    case (Suc k)
    show ?case
    proof (cases "getcmd inp")
      case (Some r)
      then obtain buf rest where r: "getcmd inp = Some (buf, rest)" by (cases r) auto
      have IH: "\<exists>evs. sh_loop k can_open t st rest e' = Ok evs" for st e'
        using Suc.IH [of rest] getcmd_less [OF r] Suc.prems by simp
      show ?thesis
      proof (cases "take 3 buf = chars ''cd ''")
        case True
        then show ?thesis using r IH [of statuses e] by auto
      next
        case False
        obtain b e1 where f: "fork1 e = (b, e1)" by (cases "fork1 e")
        obtain evs where "sh_loop k can_open t (statuses \<circ> Suc) rest
            (case run_line can_open buf t e1 of Ok (_, e) \<Rightarrow> e | _ \<Rightarrow> e1) = Ok evs" using IH by blast
        then show ?thesis using r f False by (cases b) (simp_all add: Let_def)
      qed
    qed simp
  qed simp
  then show ?thesis unfolding sh_main_def by blast
qed

end
