(* ===== verification/Merge.thy ===== *)
theory Merge
  imports Ulib
begin

text \<open>
  The program \<^verbatim>\<open>src/syscalls/merge_files.c\<close>, which merges the lines of several files in turn. The
  files are streams of bytes. How much a call of \<^verbatim>\<open>read\<close> or \<^verbatim>\<open>write\<close> of the operating system
  transfers is up to it: a descriptor carries the numbers of bytes its successive calls are
  willing to transfer beyond the first, \<open>None\<close> standing for a failing call; a call transfers
  at least one byte unless it fails, the request is empty or the file is at its end. Ending
  the program with an error is the result \<open>Panic\<close>, with the name of the failed call.
\<close>

datatype indicator = STATUS_OK | READ_ENDING | READ_ENDED

record fd =
  fd_in :: "u8 list"
  fd_reads :: "nat option list"
  fd_out :: "u8 list"
  fd_writes :: "nat option list"

record mfile =
  mf_fd :: fd
  mf_bufsize :: nat
  mf_offset :: nat
  mf_avail :: int
  mf_buffer :: "u8 list"
  mf_status :: indicator

section \<open>The system interface\<close>

definition transfer :: "nat option list \<Rightarrow> nat \<Rightarrow> nat option" where
  "transfer sched n = (case sched of [] \<Rightarrow> Some n | None # _ \<Rightarrow> None | Some j # _ \<Rightarrow> Some (min (Suc j) n))"

definition fd_read :: "nat \<Rightarrow> fd \<Rightarrow> u8 list option \<times> fd" where
  "fd_read n d =
     (let rs = tl (fd_reads d)
      in case transfer (fd_reads d) n of
           None \<Rightarrow> (None, d\<lparr>fd_reads := rs\<rparr>)
         | Some k \<Rightarrow> (Some (take k (fd_in d)), d\<lparr>fd_in := drop k (fd_in d), fd_reads := rs\<rparr>))"

definition fd_write :: "u8 list \<Rightarrow> fd \<Rightarrow> nat option \<times> fd" where
  "fd_write bs d =
     (let ws = tl (fd_writes d)
      in case transfer (fd_writes d) (length bs) of
           None \<Rightarrow> (None, d\<lparr>fd_writes := ws\<rparr>)
         | Some k \<Rightarrow> (Some k, d\<lparr>fd_out := fd_out d @ take k bs, fd_writes := ws\<rparr>))"

section \<open>Buffered input and output\<close>

text \<open>\<^verbatim>\<open>read_all\<close>: the bytes read into the buffer.\<close>

function read_all :: "nat \<Rightarrow> fd \<Rightarrow> (u8 list \<times> fd) res" where
  "read_all read_count d =
     (if read_count > 0 then
        (case fd_read read_count d of
           (None, d) \<Rightarrow> Panic ''read''
         | (Some bs, d) \<Rightarrow>
             if bs = [] then Ok ([], d)
             else bindR (read_all (read_count - length bs) d) (\<lambda>(cs, d). Ok (bs @ cs, d)))
      else Ok ([], d))"
  by pat_completeness auto
termination
proof (relation "measure fst")
  fix n :: nat and d :: fd and x :: "u8 list option \<times> fd" and o' d' bs
  assume "0 < n" and "bs \<noteq> []"
  then show "((n - length bs, d'), n, d) \<in> measure fst" by (cases bs) auto
qed simp

declare read_all.simps [simp del]

definition EOF :: u8 where "EOF = 0xFF"

definition read_char :: "mfile \<Rightarrow> (u8 \<times> mfile) res" where
  "read_char f =
     (if mf_status f = READ_ENDED then Ok (EOF, f)
      else bindR (if mf_status f = STATUS_OK \<and> mf_avail f \<le> 0
                  then bindR (read_all (mf_bufsize f) (mf_fd f)) (\<lambda>(bs, d).
                       let f = f\<lparr>mf_fd := d, mf_offset := 0, mf_avail := int (length bs),
                                 mf_buffer := bs @ drop (length bs) (mf_buffer f)\<rparr>
                       in Ok (if mf_avail f < int (mf_bufsize f) then f\<lparr>mf_status := READ_ENDING\<rparr> else f))
                  else Ok f) (\<lambda>f.
           if mf_status f = READ_ENDING \<and> mf_avail f \<le> 0
           then Ok (EOF, f\<lparr>mf_status := READ_ENDED\<rparr>)
           else if mf_offset f < length (mf_buffer f)
           then Ok (mf_buffer f ! mf_offset f, f\<lparr>mf_avail := mf_avail f - 1, mf_offset := mf_offset f + 1\<rparr>)
           else Fault))"

function write_all :: "u8 list \<Rightarrow> fd \<Rightarrow> fd res" where
  "write_all bs d =
     (if bs \<noteq> [] then
        (case fd_write bs d of
           (None, d) \<Rightarrow> Panic ''write''
         | (Some k, d) \<Rightarrow> if k = 0 then Ok d else write_all (drop k bs) d)
      else Ok d)"
  by pat_completeness auto
termination
proof (relation "measure (\<lambda>(bs, d). length bs)")
  fix bs :: "u8 list" and d d' :: fd and k :: nat and x y
  assume "bs \<noteq> []" and "k \<noteq> 0"
  then show "((drop k bs, d'), bs, d) \<in> measure (\<lambda>(bs, d). length bs)" by (cases bs) auto
qed simp

declare write_all.simps [simp del]

definition flush_file :: "mfile \<Rightarrow> mfile res" where
  "flush_file f =
     bindR (write_all (take (nat (mf_avail f)) (mf_buffer f)) (mf_fd f)) (\<lambda>d.
     Ok (f\<lparr>mf_fd := d, mf_avail := 0, mf_offset := 0\<rparr>))"

definition write_char :: "mfile \<Rightarrow> u8 \<Rightarrow> mfile res" where
  "write_char f c =
     bindR (if mf_avail f \<ge> int (mf_bufsize f) then flush_file f else Ok f) (\<lambda>f.
     if mf_offset f < length (mf_buffer f)
     then Ok (f\<lparr>mf_buffer := (mf_buffer f)[mf_offset f := c], mf_avail := mf_avail f + 1, mf_offset := mf_offset f + 1\<rparr>)
     else Fault)"

section \<open>Merging\<close>

definition NEW_LINE :: u8 where "NEW_LINE = 10"

text \<open>
  The loop of \<^verbatim>\<open>copy_line\<close>, which gets one step more than the source has bytes left.
\<close>

fun copy_loop :: "nat \<Rightarrow> mfile \<Rightarrow> mfile \<Rightarrow> (mfile \<times> mfile) res" where
  "copy_loop 0 src dst = Exhausted"
| "copy_loop (Suc k) src dst =
     bindR (read_char src) (\<lambda>(c, src).
     bindR (if mf_status src \<noteq> READ_ENDED then write_char dst c else Ok dst) (\<lambda>dst.
     if mf_status src \<noteq> READ_ENDED \<and> c \<noteq> NEW_LINE then copy_loop k src dst else Ok (src, dst)))"

definition unread :: "mfile \<Rightarrow> nat" where
  "unread f = nat (mf_avail f) + length (fd_in (mf_fd f))"

definition copy_line :: "mfile \<Rightarrow> mfile \<Rightarrow> (mfile \<times> mfile) res" where
  "copy_line src dst = copy_loop (Suc (unread src)) src dst"

text \<open>
  The loop of \<^verbatim>\<open>shuffle_lines\<close>. Going once through the files takes from each at least one
  byte or finds its end, which bounds the number of steps.
\<close>

fun shuffle_loop :: "nat \<Rightarrow> nat \<Rightarrow> nat \<Rightarrow> mfile list \<Rightarrow> mfile \<Rightarrow> (mfile list \<times> mfile) res" where
  "shuffle_loop 0 remaining i files dst = (if remaining > 0 then Exhausted else Ok (files, dst))"
| "shuffle_loop (Suc k) remaining i files dst =
     (if remaining > 0 then
        if i < length files then
          bindR (if mf_status (files ! i) \<noteq> READ_ENDED
                 then bindR (copy_line (files ! i) dst) (\<lambda>(f, dst).
                      Ok (if mf_status f = READ_ENDED then remaining - 1 else remaining, files[i := f], dst))
                 else Ok (remaining, files, dst)) (\<lambda>(remaining, files, dst).
          shuffle_loop k remaining ((i + 1) mod length files) files dst)
        else Fault
      else Ok (files, dst))"

definition shuffle_lines :: "mfile list \<Rightarrow> mfile \<Rightarrow> (mfile list \<times> mfile) res" where
  "shuffle_lines files dst =
     bindR (shuffle_loop (length files * (length files + sum_list (map unread files))) (length files) 0 files dst) (\<lambda>(files, dst).
     bindR (flush_file dst) (\<lambda>dst. Ok (files, dst)))"

text \<open>\<^verbatim>\<open>_init_file\<close> on an open descriptor.\<close>

definition init_file :: "nat \<Rightarrow> fd \<Rightarrow> mfile" where
  "init_file bufsize d =
     \<lparr>mf_fd = d, mf_bufsize = bufsize, mf_offset = 0, mf_avail = 0, mf_buffer = replicate bufsize 0,
      mf_status = STATUS_OK\<rparr>"

section \<open>The program\<close>

text \<open>
  The options found by \<^verbatim>\<open>getopt\<close> and the conversion \<^verbatim>\<open>atoi\<close> of the C library, the checks
  of \<^verbatim>\<open>access\<close> and the descriptors that \<^verbatim>\<open>open\<close> yields are parameters. Ending with success after
  printing the help text is \<open>Ok None\<close>. An allocation that fails is not modelled.
\<close>

record configuration =
  cfg_bufsize :: int
  cfg_output :: "string option"
  cfg_inputs :: "string list"

definition MIN_BUFSIZE :: int where "MIN_BUFSIZE = 1"
definition DEFAULT_BUFSIZE :: int where "DEFAULT_BUFSIZE = 1024"
definition MAX_BUFSIZE :: int where "MAX_BUFSIZE = 134217728"
definition MAX_INPUT_FILES :: nat where "MAX_INPUT_FILES = 16"
definition MIN_INPUT_FILES :: nat where "MIN_INPUT_FILES = 1"

datatype access_mode = F_OK | W_OK | R_OK

definition validate_configuration_files ::
  "(string \<Rightarrow> access_mode \<Rightarrow> bool) \<Rightarrow> configuration \<Rightarrow> configuration res" where
  "validate_configuration_files access config =
     (let valid_files = filter (\<lambda>f. access f R_OK) (cfg_inputs config)
      in if (case cfg_output config of Some out \<Rightarrow> access out F_OK \<and> \<not> access out W_OK | None \<Rightarrow> False)
         then Panic ''output denied''
         else if valid_files = [] then Panic ''all input invalid''
         else Ok (config\<lparr>cfg_inputs := valid_files\<rparr>))"

fun parse_options :: "(string \<Rightarrow> int) \<Rightarrow> (char \<times> string) list \<Rightarrow> configuration \<Rightarrow> configuration option res" where
  "parse_options libc_atoi [] config = Ok (Some config)"
| "parse_options libc_atoi ((arg, optarg) # opts) config =
     (if arg = CHR ''t'' then
        let config = config\<lparr>cfg_bufsize := libc_atoi optarg\<rparr>
        in if cfg_bufsize config < MIN_BUFSIZE \<or> cfg_bufsize config > MAX_BUFSIZE
           then Panic ''buffer size'' else parse_options libc_atoi opts config
      else if arg = CHR ''o'' then parse_options libc_atoi opts (config\<lparr>cfg_output := Some optarg\<rparr>)
      else if arg = CHR ''h'' then Ok None
      else Panic ''usage'')"

definition init_configuration ::
  "(string \<Rightarrow> int) \<Rightarrow> (string \<Rightarrow> access_mode \<Rightarrow> bool) \<Rightarrow> (char \<times> string) list \<Rightarrow> string list \<Rightarrow> configuration option res"
where
  "init_configuration libc_atoi access opts operands =
     bindR (parse_options libc_atoi opts \<lparr>cfg_bufsize = DEFAULT_BUFSIZE, cfg_output = None, cfg_inputs = []\<rparr>) (\<lambda>r.
     case r of
       None \<Rightarrow> Ok None
     | Some config \<Rightarrow>
         if length operands < MIN_INPUT_FILES then Panic ''no input files''
         else if length operands > MAX_INPUT_FILES then Panic ''too many input files''
         else bindR (validate_configuration_files access (config\<lparr>cfg_inputs := operands\<rparr>)) (\<lambda>config. Ok (Some config)))"

definition init_output_file :: "(string \<Rightarrow> fd option) \<Rightarrow> fd \<Rightarrow> configuration \<Rightarrow> mfile res" where
  "init_output_file open_out stdout config =
     (case cfg_output config of
        Some out \<Rightarrow> (case open_out out of None \<Rightarrow> Panic ''open''
                    | Some d \<Rightarrow> Ok (init_file (nat (cfg_bufsize config)) d))
      | None \<Rightarrow> Ok (init_file (nat (cfg_bufsize config)) stdout))"

fun init_input_files :: "(string \<Rightarrow> fd option) \<Rightarrow> nat \<Rightarrow> string list \<Rightarrow> mfile list res" where
  "init_input_files open_in bufsize [] = Ok []"
| "init_input_files open_in bufsize (f # fs) =
     (case open_in f of None \<Rightarrow> Panic ''open''
      | Some d \<Rightarrow> bindR (init_input_files open_in bufsize fs) (\<lambda>files. Ok (init_file bufsize d # files)))"

text \<open>The whole program; the result is the output file after it was flushed.\<close>

definition merge_main ::
  "(string \<Rightarrow> int) \<Rightarrow> (string \<Rightarrow> access_mode \<Rightarrow> bool) \<Rightarrow> (string \<Rightarrow> fd option) \<Rightarrow> (string \<Rightarrow> fd option) \<Rightarrow> fd
   \<Rightarrow> (char \<times> string) list \<Rightarrow> string list \<Rightarrow> mfile option res" where
  "merge_main libc_atoi access open_out open_in stdout opts operands =
     bindR (init_configuration libc_atoi access opts operands) (\<lambda>r.
     case r of
       None \<Rightarrow> Ok None
     | Some config \<Rightarrow>
         bindR (init_output_file open_out stdout config) (\<lambda>output_file.
         bindR (init_input_files open_in (nat (cfg_bufsize config)) (cfg_inputs config)) (\<lambda>input_files.
         bindR (shuffle_lines input_files output_file) (\<lambda>(input_files, output_file).
         Ok (Some output_file)))))"

section \<open>The lines of a file\<close>

fun file_lines :: "u8 list \<Rightarrow> u8 list list" where
  "file_lines [] = []"
| "file_lines (c # cs) =
     (if c = NEW_LINE then [c] # file_lines cs
      else case file_lines cs of [] \<Rightarrow> [[c]] | l # ls \<Rightarrow> (c # l) # ls)"

definition line1 :: "u8 list \<Rightarrow> u8 list" where
  "line1 xs = takeWhile (\<lambda>c. c \<noteq> NEW_LINE) xs @ take 1 (dropWhile (\<lambda>c. c \<noteq> NEW_LINE) xs)"

definition rest1 :: "u8 list \<Rightarrow> u8 list" where
  "rest1 xs = tl (dropWhile (\<lambda>c. c \<noteq> NEW_LINE) xs)"

lemma line1_simps [simp]:
  "line1 [] = []" "line1 (c # cs) = c # (if c = NEW_LINE then [] else line1 cs)"
  "rest1 [] = []" "rest1 (c # cs) = (if c = NEW_LINE then cs else rest1 cs)"
  by (simp_all add: line1_def rest1_def)

lemma length_rest1: "length (rest1 xs) \<le> length xs - 1"
  by (induction xs) auto

lemma file_lines_step: "xs \<noteq> [] \<Longrightarrow> file_lines xs = line1 xs # file_lines (rest1 xs)"
proof (induction xs)
  case (Cons c cs)
  then show ?case by (cases cs) auto
qed simp

lemma file_lines_hd_tl:
  "concat (take 1 (file_lines xs)) = line1 xs" "tl (file_lines xs) = file_lines (rest1 xs)"
  using file_lines_step [of xs] by (cases "xs = []"; simp)+

lemma concat_file_lines: "concat (file_lines xs) = xs"
  by (induction xs) (auto split: list.splits)

section \<open>Taking turns\<close>

text \<open>
  The lines of the files in turn are the rows of the transposed table of lines. Serving the
  first file means to put out its first line and to queue what is left of it.
\<close>

definition in_turn :: "u8 list list \<Rightarrow> u8 list" where
  "in_turn xss = concat (concat (transpose (map file_lines xss)))"

lemma transpose_nonempty: "transpose (filter (\<lambda>ys. ys \<noteq> []) xss) = transpose xss"
proof (induction xss rule: transpose.induct)
  case (3 x xs xss)
  have "concat (map (case_list [] (\<lambda>h t. [h])) (filter (\<lambda>ys. ys \<noteq> []) xss)) = concat (map (case_list [] (\<lambda>h t. [h])) xss)"
    "concat (map (case_list [] (\<lambda>h t. [t])) (filter (\<lambda>ys. ys \<noteq> []) xss)) = concat (map (case_list [] (\<lambda>h t. [t])) xss)"
    by (induction xss) (auto split: list.splits)
  then show ?case by simp
qed simp_all

lemma transpose_tails: "transpose (concat (map (case_list [] (\<lambda>h t. [t])) xss)) = transpose (map tl xss)"
proof -
  have "filter (\<lambda>ys. ys \<noteq> []) (concat (map (case_list [] (\<lambda>h t. [t])) xss)) = filter (\<lambda>ys. ys \<noteq> []) (map tl xss)"
    by (induction xss) (auto split: list.splits)
  then show ?thesis by (metis transpose_nonempty)
qed

lemma concat_transpose:
  "concat (transpose yss) = concat (map (take 1) yss) @ concat (transpose (map tl yss))"
proof (induction yss)
  case (Cons ys yss)
  show ?case
  proof (cases ys)
    case Nil
    then show ?thesis using Cons by simp
  next
    case (Cons y zs)
    have "concat (map (case_list [] (\<lambda>h t. [h])) yss) = concat (map (take 1) yss)"
      by (induction yss) (auto split: list.splits)
    moreover have "transpose (zs # concat (map (case_list [] (\<lambda>h t. [t])) yss)) = transpose (zs # map tl yss)"
      using transpose_tails [of "(y # zs) # yss"] by simp
    ultimately show ?thesis using Cons by simp
  qed
qed simp

lemma concat_transpose_turn:
  "concat (transpose (xs # xss)) = take 1 xs @ concat (transpose (xss @ [tl xs]))"
proof (induction "length xs" arbitrary: xs xss)
  case 0
  have "transpose (xss @ [[]]) = transpose (xss :: 'a list list)" for xss
    using transpose_nonempty [of "xss @ [[]]"] transpose_nonempty [of xss] by simp
  then show ?case using 0 by simp
next
  case (Suc n)
  have "concat (transpose (xs # xss)) = take 1 xs @ concat (map (take 1) xss) @ concat (transpose (tl xs # map tl xss))"
    by (subst concat_transpose) simp
  moreover have "concat (transpose (tl xs # map tl xss)) = take 1 (tl xs) @ concat (transpose (map tl xss @ [tl (tl xs)]))"
    using Suc by (intro Suc.hyps(1)) simp
  moreover have "concat (transpose (xss @ [tl xs])) = concat (map (take 1) xss) @ take 1 (tl xs) @ concat (transpose (map tl xss @ [tl (tl xs)]))"
    by (subst concat_transpose) simp
  ultimately show ?case by simp
qed

lemma in_turn_step: "in_turn (xs # xss) = line1 xs @ in_turn (xss @ [rest1 xs])"
  by (simp only: in_turn_def list.map map_append concat_transpose_turn concat_append file_lines_hd_tl)

lemma in_turn_empty: "\<forall>xs\<in>set xss. xs = [] \<Longrightarrow> in_turn xss = []"
proof -
  assume "\<forall>xs\<in>set xss. xs = []"
  then have "filter (\<lambda>ys. ys \<noteq> []) (map file_lines xss) = []" by (auto simp: filter_empty_conv)
  then show ?thesis using transpose_nonempty [of "map file_lines xss"] by (simp add: in_turn_def)
qed

section \<open>Buffered input and output are transparent\<close>

definition reads_succeed :: "fd \<Rightarrow> bool" where
  "reads_succeed d = (None \<notin> set (fd_reads d))"

definition writes_succeed :: "fd \<Rightarrow> bool" where
  "writes_succeed d = (None \<notin> set (fd_writes d))"

lemma transfer_ok:
  assumes "None \<notin> set sched" and "0 < n"
  obtains k where "transfer sched n = Some k" and "0 < k" and "k \<le> n"
proof (cases sched)
  case Nil
  then show ?thesis using that [of n] assms(2) by (simp add: transfer_def)
next
  case (Cons a list)
  then obtain j where "a = Some j" using assms(1) by (cases a) auto
  then show ?thesis using that [of "min (Suc j) n"] Cons assms(2) by (simp add: transfer_def)
qed

lemma not_in_tl: "x \<notin> set xs \<Longrightarrow> x \<notin> set (tl xs)"
  by (cases xs) auto

lemma read_all_ok:
  assumes "reads_succeed d"
  shows "\<exists>rs. read_all n d = Ok (take n (fd_in d), d\<lparr>fd_in := drop n (fd_in d), fd_reads := rs\<rparr>) \<and> None \<notin> set rs"
  using assms
proof (induction n d rule: read_all.induct)
  case (1 n d)
  show ?case
  proof (cases "0 < n")
    case True
    obtain k where k: "transfer (fd_reads d) n = Some k" "0 < k" "k \<le> n"
      using 1(2) True by (auto simp: reads_succeed_def elim: transfer_ok)
    define d' where "d' = d\<lparr>fd_in := drop k (fd_in d), fd_reads := tl (fd_reads d)\<rparr>"
    have rd: "fd_read n d = (Some (take k (fd_in d)), d')" using k by (simp add: fd_read_def d'_def)
    have ok': "reads_succeed d'" using 1(2) by (simp add: reads_succeed_def d'_def not_in_tl)
    show ?thesis
    proof (cases "fd_in d = []")
      case True
      then show ?thesis using rd 1(2) \<open>0 < n\<close>
        by (intro exI [of _ "tl (fd_reads d)"]) (simp add: read_all.simps [of n] d'_def not_in_tl reads_succeed_def)
    next
      case False
      then have ne: "take k (fd_in d) \<noteq> []" using k(2) by simp
      let ?m = "n - length (take k (fd_in d))"
      obtain rs where rs: "read_all ?m d' = Ok (take ?m (fd_in d'), d'\<lparr>fd_in := drop ?m (fd_in d'), fd_reads := rs\<rparr>)"
        "None \<notin> set rs"
        using 1(1) [OF \<open>0 < n\<close> rd [symmetric] refl ne ok'] by blast
      have "take k (fd_in d) @ take ?m (drop k (fd_in d)) = take n (fd_in d)"
        "drop ?m (drop k (fd_in d)) = drop n (fd_in d)"
        using k(3) by (cases "k \<le> length (fd_in d)"; simp add: take_add [symmetric] min_def)+
      then show ?thesis using rs rd ne \<open>0 < n\<close>
        by (intro exI [of _ rs]) (simp add: read_all.simps [of n d] d'_def)
    qed
  next
    case False
    then show ?thesis using 1(2)
      by (intro exI [of _ "fd_reads d"]) (simp add: read_all.simps reads_succeed_def)
  qed
qed

lemma write_all_ok:
  assumes "writes_succeed d"
  shows "\<exists>ws. write_all bs d = Ok (d\<lparr>fd_out := fd_out d @ bs, fd_writes := ws\<rparr>) \<and> None \<notin> set ws"
  using assms
proof (induction bs d rule: write_all.induct)
  case (1 bs d)
  show ?case
  proof (cases "bs = []")
    case False
    then obtain k where k: "transfer (fd_writes d) (length bs) = Some k" "0 < k" "k \<le> length bs"
      using 1(2) by (auto simp: writes_succeed_def elim: transfer_ok [where n = "length bs"])
    define d' where "d' = d\<lparr>fd_out := fd_out d @ take k bs, fd_writes := tl (fd_writes d)\<rparr>"
    have wr: "fd_write bs d = (Some k, d')" using k by (simp add: fd_write_def d'_def)
    have ok': "writes_succeed d'" using 1(2) by (simp add: writes_succeed_def d'_def not_in_tl)
    have k0: "k \<noteq> 0" using k(2) by simp
    obtain ws where ws: "write_all (drop k bs) d' = Ok (d'\<lparr>fd_out := fd_out d' @ drop k bs, fd_writes := ws\<rparr>)"
      "None \<notin> set ws"
      using 1(1) [OF False wr [symmetric] refl k0 ok'] by blast
    then show ?thesis using wr k0 False
      by (intro exI [of _ ws]) (simp add: write_all.simps [of bs d] d'_def)
  next
    case True
    then show ?thesis using 1(2)
      by (intro exI [of _ "fd_writes d"]) (simp add: write_all.simps writes_succeed_def)
  qed
qed

text \<open>What is still to come from an input file, and what was put into an output file.\<close>

definition in_rest :: "mfile \<Rightarrow> u8 list" where
  "in_rest f =
     (case mf_status f of
        READ_ENDED \<Rightarrow> []
      | _ \<Rightarrow> take (nat (mf_avail f)) (drop (mf_offset f) (mf_buffer f)) @ fd_in (mf_fd f))"

definition in_ok :: "mfile \<Rightarrow> bool" where
  "in_ok f = (reads_succeed (mf_fd f) \<and> 0 < mf_bufsize f \<and> length (mf_buffer f) = mf_bufsize f \<and> 0 \<le> mf_avail f
     \<and> mf_offset f + nat (mf_avail f) \<le> mf_bufsize f \<and> (mf_status f \<noteq> STATUS_OK \<longrightarrow> fd_in (mf_fd f) = [])
     \<and> (mf_status f = READ_ENDED \<longrightarrow> mf_avail f = 0))"

definition written :: "mfile \<Rightarrow> u8 list" where
  "written f = fd_out (mf_fd f) @ take (nat (mf_avail f)) (mf_buffer f)"

definition out_ok :: "mfile \<Rightarrow> bool" where
  "out_ok f = (writes_succeed (mf_fd f) \<and> 0 < mf_bufsize f \<and> length (mf_buffer f) = mf_bufsize f
     \<and> mf_avail f = int (mf_offset f) \<and> mf_offset f \<le> mf_bufsize f)"

lemma read_char_buffered:
  assumes "in_ok f" and "mf_status f \<noteq> READ_ENDED" and "0 < mf_avail f"
  shows "\<exists>c f'. read_char f = Ok (c, f') \<and> in_ok f' \<and> mf_status f' = mf_status f \<and> in_rest f = c # in_rest f'
           \<and> unread f = Suc (unread f')"
proof -
  let ?f = "f\<lparr>mf_avail := mf_avail f - 1, mf_offset := mf_offset f + 1\<rparr>"
  have lt: "mf_offset f < length (mf_buffer f)" using assms by (auto simp: in_ok_def)
  obtain n where n: "nat (mf_avail f) = Suc n" using assms(3) by (metis gr0_implies_Suc zero_less_nat_eq)
  have "read_char f = Ok (mf_buffer f ! mf_offset f, ?f)" using assms lt by (simp add: read_char_def)
  moreover have "in_ok ?f" using assms by (auto simp: in_ok_def)
  moreover have "in_rest f = mf_buffer f ! mf_offset f # in_rest ?f"
    using assms(2) lt n by (simp add: in_rest_def nat_diff_distrib' Cons_nth_drop_Suc [symmetric] split: indicator.splits)
  moreover have "unread f = Suc (unread ?f)" using assms(3) by (simp add: unread_def)
  ultimately show ?thesis by (intro exI conjI) auto
qed

lemma read_char_refill:
  assumes "in_ok f" and "mf_status f = STATUS_OK" and "mf_avail f \<le> 0"
  shows "(in_rest f = [] \<longrightarrow> (\<exists>f'. read_char f = Ok (EOF, f') \<and> in_ok f' \<and> mf_status f' = READ_ENDED))
       \<and> (in_rest f \<noteq> [] \<longrightarrow> (\<exists>f'. read_char f = read_char f' \<and> in_ok f' \<and> mf_status f' \<noteq> READ_ENDED
            \<and> 0 < mf_avail f' \<and> in_rest f' = in_rest f \<and> unread f' = unread f))"
proof -
  let ?n = "mf_bufsize f" and ?xs = "fd_in (mf_fd f)"
  have a: "mf_avail f = 0" and n: "0 < ?n" and len: "length (mf_buffer f) = ?n" using assms by (auto simp: in_ok_def)
  have r: "in_rest f = ?xs" using a assms(2) by (simp add: in_rest_def)
  obtain rs where rs: "read_all ?n (mf_fd f) = Ok (take ?n ?xs, (mf_fd f)\<lparr>fd_in := drop ?n ?xs, fd_reads := rs\<rparr>)"
    "None \<notin> set rs"
    using read_all_ok [of "mf_fd f" ?n] assms(1) by (auto simp: in_ok_def)
  define f' where "f' = f\<lparr>mf_fd := (mf_fd f)\<lparr>fd_in := drop ?n ?xs, fd_reads := rs\<rparr>, mf_offset := 0,
     mf_avail := int (length (take ?n ?xs)), mf_buffer := take ?n ?xs @ drop (length (take ?n ?xs)) (mf_buffer f),
     mf_status := if length ?xs < ?n then READ_ENDING else STATUS_OK\<rparr>"
  have ok: "in_ok f'" using n len rs(2) by (auto simp: in_ok_def f'_def reads_succeed_def)
  show ?thesis
  proof (cases "?xs = []")
    case True
    have "read_char f = Ok (EOF, f'\<lparr>mf_status := READ_ENDED\<rparr>)"
      using True assms(2) a n rs(1) by (simp add: read_char_def f'_def)
    moreover have "in_ok (f'\<lparr>mf_status := READ_ENDED\<rparr>)" using ok True by (simp add: in_ok_def f'_def)
    ultimately show ?thesis using True r by auto
  next
    case False
    have pos: "0 < mf_avail f'" using False n by (simp add: f'_def)
    have "read_char f = read_char f'"
      using False assms(2) a n rs(1) len by (auto simp: read_char_def f'_def min_def not_le)
    moreover have "in_rest f' = ?xs" by (auto simp: in_rest_def f'_def)
    moreover have "unread f' = unread f" using a by (auto simp: unread_def f'_def)
    moreover have "mf_status f' \<noteq> READ_ENDED" by (simp add: f'_def)
    ultimately show ?thesis using False r ok pos by auto
  qed
qed

text \<open>
  Reading a character yields the bytes of the file one after another, and then its end, however
  the operating system cuts the file up.
\<close>

lemma read_char_ok:
  assumes "in_ok f" and "mf_status f \<noteq> READ_ENDED"
  shows "\<exists>c f'. read_char f = Ok (c, f') \<and> in_ok f'
           \<and> (case in_rest f of [] \<Rightarrow> mf_status f' = READ_ENDED \<and> c = EOF
              | x # xs \<Rightarrow> mf_status f' \<noteq> READ_ENDED \<and> c = x \<and> in_rest f' = xs \<and> unread f = Suc (unread f'))"
proof (cases "0 < mf_avail f")
  case True
  then show ?thesis using read_char_buffered [OF assms True] assms(2) by (auto split: list.splits)
next
  case False
  show ?thesis
  proof (cases "mf_status f")
    case STATUS_OK
    show ?thesis
    proof (cases "in_rest f = []")
      case True
      then show ?thesis using read_char_refill [OF assms(1) STATUS_OK] False by auto
    next
      case ne: False
      then obtain g where g: "read_char f = read_char g" "in_ok g" "mf_status g \<noteq> READ_ENDED" "0 < mf_avail g"
        "in_rest g = in_rest f" "unread g = unread f"
        using read_char_refill [OF assms(1) STATUS_OK] False by auto
      from read_char_buffered [OF g(2,3,4)] obtain c f' where "read_char g = Ok (c, f')" "in_ok f'"
        "mf_status f' = mf_status g" "in_rest g = c # in_rest f'" "unread g = Suc (unread f')" by blast
      then show ?thesis using g by auto
    qed
  next
    case READ_ENDING
    have "in_rest f = []" using READ_ENDING False assms(1) by (simp add: in_rest_def in_ok_def)
    moreover have "read_char f = Ok (EOF, f\<lparr>mf_status := READ_ENDED\<rparr>)"
      using READ_ENDING False by (simp add: read_char_def)
    moreover have "in_ok (f\<lparr>mf_status := READ_ENDED\<rparr>)" using assms(1) READ_ENDING False by (simp add: in_ok_def)
    ultimately show ?thesis by auto
  qed (use assms in simp)
qed

lemma flush_file_ok:
  assumes "out_ok f"
  shows "\<exists>f'. flush_file f = Ok f' \<and> out_ok f' \<and> written f' = written f \<and> mf_avail f' = 0 \<and> mf_offset f' = 0
           \<and> fd_out (mf_fd f') = written f"
proof -
  obtain ws where "write_all (take (nat (mf_avail f)) (mf_buffer f)) (mf_fd f)
      = Ok ((mf_fd f)\<lparr>fd_out := written f, fd_writes := ws\<rparr>)" "None \<notin> set ws"
    using write_all_ok [of "mf_fd f"] assms by (auto simp: out_ok_def written_def)
  then show ?thesis using assms by (auto simp: flush_file_def out_ok_def written_def writes_succeed_def)
qed

lemma write_char_ok:
  assumes "out_ok f"
  shows "\<exists>f'. write_char f c = Ok f' \<and> out_ok f' \<and> written f' = written f @ [c]"
proof -
  have *: "\<exists>f'. write_char f c = Ok f' \<and> out_ok f' \<and> written f' = written f @ [c]"
    if "out_ok f" "mf_offset f < mf_bufsize f" for f
    using that by (auto simp: write_char_def out_ok_def written_def take_Suc_conv_app_nth nat_add_distrib)
  show ?thesis
  proof (cases "mf_offset f < mf_bufsize f")
    case False
    obtain g where g: "flush_file f = Ok g" "out_ok g" "written g = written f" "mf_avail g = 0" "mf_offset g = 0"
      using flush_file_ok [OF assms] by auto
    then have "write_char f c = write_char g c"
      using False assms by (simp add: write_char_def out_ok_def)
    then show ?thesis using * [of g] g by (auto simp: out_ok_def)
  qed (use * assms in blast)
qed

text \<open>Copying a line moves the first line of what is left.\<close>

lemma copy_loop_ok:
  assumes "in_ok src" and "mf_status src \<noteq> READ_ENDED" and "out_ok dst" and "unread src < k"
  shows "\<exists>src' dst'. copy_loop k src dst = Ok (src', dst') \<and> in_ok src' \<and> out_ok dst'
           \<and> written dst' = written dst @ line1 (in_rest src) \<and> in_rest src' = rest1 (in_rest src)
           \<and> (mf_status src' = READ_ENDED \<or> in_rest src \<noteq> [])"
  using assms
proof (induction k arbitrary: src dst)
  case (Suc k)
  obtain c f where f: "read_char src = Ok (c, f)" "in_ok f"
    and c: "case in_rest src of [] \<Rightarrow> mf_status f = READ_ENDED \<and> c = EOF
              | x # xs \<Rightarrow> mf_status f \<noteq> READ_ENDED \<and> c = x \<and> in_rest f = xs \<and> unread src = Suc (unread f)"
    using read_char_ok [OF Suc.prems(1,2)] by blast
  show ?case
  proof (cases "in_rest src")
    case Nil
    then have "mf_status f = READ_ENDED" using c by simp
    then show ?thesis using f Nil Suc.prems(3) by (simp add: in_rest_def)
  next
    case (Cons x xs)
    then have x: "mf_status f \<noteq> READ_ENDED" "c = x" "in_rest f = xs" "unread src = Suc (unread f)" using c by auto
    obtain g where g: "write_char dst x = Ok g" "out_ok g" "written g = written dst @ [x]"
      using write_char_ok [OF Suc.prems(3)] by blast
    show ?thesis
    proof (cases "x = NEW_LINE")
      case True
      then show ?thesis using f g x Cons by simp
    next
      case False
      have "\<exists>src' dst'. copy_loop k f g = Ok (src', dst') \<and> in_ok src' \<and> out_ok dst'
           \<and> written dst' = written g @ line1 (in_rest f) \<and> in_rest src' = rest1 (in_rest f)
           \<and> (mf_status src' = READ_ENDED \<or> in_rest f \<noteq> [])"
        using Suc.prems(4) x Cons f g by (intro Suc.IH) auto
      then show ?thesis using f g x Cons False by auto
    qed
  qed
qed simp

lemmas copy_line_ok = copy_loop_ok [of src _ "Suc (unread src)" for src, OF _ _ _ lessI, folded copy_line_def]

section \<open>The files take turns\<close>

definition weight :: "mfile \<Rightarrow> nat" where
  "weight f = (if mf_status f = READ_ENDED then 0 else Suc (length (in_rest f)))"

definition live :: "mfile list \<Rightarrow> nat" where
  "live files = length (filter (\<lambda>f. mf_status f \<noteq> READ_ENDED) files)"

lemma turn_split:
  assumes "i < length files"
  shows "files = take i files @ files ! i # drop (Suc i) files"
    and "rotate i files = files ! i # drop (Suc i) files @ take i files"
    and "rotate ((i + 1) mod length files) (files[i := f]) = drop (Suc i) files @ take i files @ [f]"
proof -
  show 1: "files = take i files @ files ! i # drop (Suc i) files" by (rule id_take_nth_drop [OF assms])
  show "rotate i files = files ! i # drop (Suc i) files @ take i files"
    using assms by (simp add: rotate_drop_take Cons_nth_drop_Suc [symmetric])
  show "rotate ((i + 1) mod length files) (files[i := f]) = drop (Suc i) files @ take i files @ [f]"
  proof (cases "Suc i = length files")
    case True
    then show ?thesis by (simp add: upd_conv_take_nth_drop [OF assms])
  next
    case False
    then show ?thesis using assms
      by (simp add: rotate_drop_take upd_conv_take_nth_drop [OF assms] min_def take_Suc_conv_app_nth)
  qed
qed

lemma turn_sums:
  assumes "i < length files"
  shows "live files = (if mf_status (files ! i) \<noteq> READ_ENDED then 1 else 0) + live (take i files @ drop (Suc i) files)"
    and "live (files[i := f]) = (if mf_status f \<noteq> READ_ENDED then 1 else 0) + live (take i files @ drop (Suc i) files)"
    and "sum_list (map weight files) = weight (files ! i) + sum_list (map weight (take i files @ drop (Suc i) files))"
    and "sum_list (map weight (files[i := f])) = weight f + sum_list (map weight (take i files @ drop (Suc i) files))"
  by (subst turn_split(1) [OF assms], simp add: live_def)
     (simp add: upd_conv_take_nth_drop [OF assms] live_def,
      subst turn_split(1) [OF assms], simp,
      simp add: upd_conv_take_nth_drop [OF assms])

lemma live_0: "live files = 0 \<longleftrightarrow> (\<forall>f\<in>set files. mf_status f = READ_ENDED)"
  by (auto simp: live_def filter_empty_conv)

lemma takeWhile_short: "\<exists>x\<in>set xs. \<not> P x \<Longrightarrow> length (takeWhile P xs) < length xs"
  by (metis length_takeWhile_le nat_less_le takeWhile_eq_all_conv takeWhile_eq_take take_all_iff order_refl)

lemma live_weight: "live files \<le> sum_list (map weight files)"
  by (induction files) (auto simp: live_def weight_def)

text \<open>
  The number of steps that serving the files needs: the finished files passed before the next
  live one, and a full turn for every unit of weight.
\<close>

definition turns :: "nat \<Rightarrow> mfile list \<Rightarrow> nat" where
  "turns i files = length (takeWhile (\<lambda>f. mf_status f = READ_ENDED) (rotate i files))
     + length files * sum_list (map weight files)"

lemma turns_pass:
  assumes "i < length files" and "mf_status (files ! i) = READ_ENDED" and "0 < live files"
  shows "turns ((i + 1) mod length files) files < turns i files"
proof -
  let ?rest = "drop (Suc i) files @ take i files" and ?P = "\<lambda>f. mf_status f = READ_ENDED"
  have ne: "\<exists>f\<in>set ?rest. \<not> ?P f"
  proof -
    obtain f where "f \<in> set files" "\<not> ?P f" using assms(3) live_0 [of files] by auto
    then show ?thesis using turn_split(1) [OF assms(1)] assms(2)
      by (metis Un_iff insert_iff list.simps(15) set_append)
  qed
  have "rotate ((i + 1) mod length files) files = ?rest @ [files ! i]"
    using turn_split(3) [OF assms(1), of "files ! i"] by simp
  moreover have "takeWhile ?P (?rest @ [files ! i]) = takeWhile ?P ?rest" using ne takeWhile_append1 [of _ ?rest ?P] by blast
  moreover have "takeWhile ?P (rotate i files) = files ! i # takeWhile ?P ?rest"
    using turn_split(2) [OF assms(1)] assms(2) by simp
  ultimately show ?thesis by (simp add: turns_def)
qed

lemma turns_serve:
  assumes "i < length files" and "weight f < weight (files ! i)" and "0 < live (files[i := f])"
  shows "turns ((i + 1) mod length files) (files[i := f]) < turns i files"
proof -
  let ?fs = "files[i := f]" and ?P = "\<lambda>f. mf_status f = READ_ENDED"
  have "\<exists>g\<in>set (rotate ((i + 1) mod length files) ?fs). \<not> ?P g" using assms(3) live_0 [of ?fs] by auto
  then have 1: "length (takeWhile ?P (rotate ((i + 1) mod length files) ?fs)) < length files"
    using takeWhile_short [of "rotate ((i + 1) mod length files) ?fs" ?P] by simp
  have "sum_list (map weight ?fs) + 1 \<le> sum_list (map weight files)"
    using turn_sums(3,4) [OF assms(1)] assms(2) by simp
  then have "length files * sum_list (map weight ?fs) + length files \<le> length files * sum_list (map weight files)"
    using mult_le_mono2 [of "sum_list (map weight ?fs) + 1" "sum_list (map weight files)" "length files"] by simp
  then show ?thesis using 1 by (simp add: turns_def)
qed

lemma shuffle_done:
  assumes "live files = 0"
  shows "shuffle_loop k (live files) i files dst = Ok (files, dst)"
    and "in_turn (map in_rest (rotate i files)) = []" and "\<forall>f\<in>set files. mf_status f = READ_ENDED"
proof -
  show all: "\<forall>f\<in>set files. mf_status f = READ_ENDED" using assms by (simp add: live_0)
  then show "in_turn (map in_rest (rotate i files)) = []" by (intro in_turn_empty) (auto simp: in_rest_def)
  show "shuffle_loop k (live files) i files dst = Ok (files, dst)" using assms by (cases k) auto
qed

lemma shuffle_loop_ok:
  assumes "\<forall>f\<in>set files. in_ok f" and "out_ok dst" and "i < length files" and "turns i files \<le> k"
  shows "\<exists>files' dst'. shuffle_loop k (live files) i files dst = Ok (files', dst') \<and> out_ok dst'
           \<and> written dst' = written dst @ in_turn (map in_rest (rotate i files))
           \<and> (\<forall>f\<in>set files'. mf_status f = READ_ENDED)"
proof (cases "live files = 0")
  case True
  then show ?thesis using shuffle_done [OF True] assms(2) by auto
next
  case False
  then show ?thesis using assms
  proof (induction k arbitrary: i files dst)
    case 0
    have "0 < length files * sum_list (map weight files)"
      using 0(4) live_weight [of files] 0(1) by auto
    then have False using 0(5) by (simp only: turns_def)
    then show ?case ..
  next
    case (Suc k)
    let ?f = "files ! i" and ?j = "(i + 1) mod length files"
    have j: "?j < length files" using Suc.prems(4) by (intro mod_less_divisor) auto
    show ?case
    proof (cases "mf_status ?f = READ_ENDED")
      case True
      have "\<exists>files' dst'. shuffle_loop k (live files) ?j files dst = Ok (files', dst') \<and> out_ok dst'
           \<and> written dst' = written dst @ in_turn (map in_rest (rotate ?j files))
           \<and> (\<forall>f\<in>set files'. mf_status f = READ_ENDED)"
        using Suc.prems j turns_pass [OF Suc.prems(4) True] by (intro Suc.IH) auto
      moreover have "in_turn (map in_rest (rotate i files)) = in_turn (map in_rest (rotate ?j files))"
        using turn_split(2) [OF Suc.prems(4)] turn_split(3) [OF Suc.prems(4), of ?f] True
        by (simp add: in_turn_step [of "in_rest ?f"]) (simp add: in_rest_def in_turn_step)
      ultimately show ?thesis using True Suc.prems(1,4) by simp
    next
      case alive: False
      obtain f d where f: "copy_line ?f dst = Ok (f, d)" "in_ok f" "out_ok d"
        "written d = written dst @ line1 (in_rest ?f)" "in_rest f = rest1 (in_rest ?f)"
        "mf_status f = READ_ENDED \<or> in_rest ?f \<noteq> []"
        using copy_line_ok [of ?f dst] Suc.prems(2,3,4) alive by auto
      let ?fs = "files[i := f]"
      have lt: "weight f < weight ?f"
        using f(5,6) alive length_rest1 [of "in_rest ?f"] by (cases "in_rest ?f") (auto simp: weight_def)
      have lv: "(if mf_status f = READ_ENDED then live files - 1 else live files) = live ?fs"
        using turn_sums(1,2) [OF Suc.prems(4)] alive by simp
      have ok: "\<forall>f\<in>set ?fs. in_ok f" using Suc.prems(2) f(2) set_update_subset_insert by fastforce
      have tu: "in_turn (map in_rest (rotate i files)) = line1 (in_rest ?f) @ in_turn (map in_rest (rotate ?j ?fs))"
        using turn_split(2) [OF Suc.prems(4)] turn_split(3) [OF Suc.prems(4), of f] f(5) by (simp add: in_turn_step)
      have "\<exists>files' dst'. shuffle_loop k (live ?fs) ?j ?fs d = Ok (files', dst') \<and> out_ok dst'
           \<and> written dst' = written d @ in_turn (map in_rest (rotate ?j ?fs))
           \<and> (\<forall>f\<in>set files'. mf_status f = READ_ENDED)"
      proof (cases "live ?fs = 0")
        case True
        then show ?thesis using shuffle_done [OF True] f(3) by auto
      next
        case False
        then show ?thesis using turns_serve [OF Suc.prems(4) lt] Suc.prems(4,5) ok f(3) j
          by (intro Suc.IH) auto
      qed
      then show ?thesis using f(1,4) lv tu alive Suc.prems(1,4) by simp
    qed
  qed
qed

lemma unread_initial: "in_rest (init_file n d) = fd_in d" "unread (init_file n d) = length (fd_in d)"
  "weight (init_file n d) = Suc (length (fd_in d))" "written (init_file n d) = fd_out d"
  by (simp_all add: in_rest_def init_file_def unread_def weight_def written_def)

lemma init_file_ok:
  "0 < n \<Longrightarrow> reads_succeed d \<Longrightarrow> in_ok (init_file n d)" "0 < n \<Longrightarrow> writes_succeed d \<Longrightarrow> out_ok (init_file n d)"
  by (simp_all add: in_ok_def out_ok_def init_file_def)

lemma turns_initial: "turns 0 (map (init_file n) ds) \<le> length ds * (length ds + sum_list (map unread (map (init_file n) ds)))"
proof -
  have "takeWhile (\<lambda>f. mf_status f = READ_ENDED) (map (init_file n) ds) = []"
    by (cases ds) (simp_all add: init_file_def)
  moreover have "sum_list (map weight (map (init_file n) ds)) = length ds + sum_list (map unread (map (init_file n) ds))"
    by (induction ds) (simp_all add: unread_initial)
  ultimately show ?thesis by (simp add: turns_def)
qed

lemma shuffle_lines_ok:
  assumes "0 < n" and "0 < m" and "ds \<noteq> []" and "\<forall>d\<in>set ds. reads_succeed d" and "writes_succeed e"
  shows "\<exists>files out. shuffle_lines (map (init_file n) ds) (init_file m e) = Ok (files, out)
           \<and> fd_out (mf_fd out) = fd_out e @ in_turn (map fd_in ds)"
proof -
  let ?fs = "map (init_file n) ds"
  have live: "live ?fs = length ds" by (simp add: live_def init_file_def)
  obtain files out where 1: "shuffle_loop (length ds * (length ds + sum_list (map unread ?fs))) (length ds) 0 ?fs (init_file m e)
      = Ok (files, out)" "out_ok out" "written out = fd_out e @ in_turn (map fd_in ds)"
    using shuffle_loop_ok [of ?fs "init_file m e" 0 "length ds * (length ds + sum_list (map unread ?fs))"]
      assms turns_initial [of n ds] init_file_ok live
    by (auto simp: unread_initial comp_def)
  obtain out' where "flush_file out = Ok out'" "fd_out (mf_fd out') = written out"
    using flush_file_ok [OF 1(2)] by auto
  then show ?thesis using 1 by (simp add: shuffle_lines_def comp_def)
qed

lemma init_input_files_ok:
  "init_input_files open_in n fs
     = (if None \<in> set (map open_in fs) then Panic ''open'' else Ok (map (init_file n) (map (the \<circ> open_in) fs)))"
  by (induction fs) (auto split: option.splits)

lemma parse_options_bufsize:
  "parse_options libc_atoi opts config = Ok (Some config') \<Longrightarrow> cfg_bufsize config \<in> {MIN_BUFSIZE..MAX_BUFSIZE}
     \<Longrightarrow> cfg_bufsize config' \<in> {MIN_BUFSIZE..MAX_BUFSIZE}"
proof (induction opts arbitrary: config)
  case (Cons o' opts)
  then show ?case by (cases o') (auto simp: Let_def split: if_splits)
qed simp

lemma init_configuration_ok:
  assumes "init_configuration libc_atoi access opts operands = Ok (Some config)"
  shows "cfg_bufsize config \<in> {MIN_BUFSIZE..MAX_BUFSIZE}" and "cfg_inputs config \<noteq> []"
    and "cfg_inputs config = filter (\<lambda>f. access f R_OK) operands" and "length operands \<le> MAX_INPUT_FILES"
proof -
  let ?c0 = "\<lparr>cfg_bufsize = DEFAULT_BUFSIZE, cfg_output = None, cfg_inputs = []\<rparr>"
  obtain c where c: "parse_options libc_atoi opts ?c0 = Ok (Some c)"
    and v: "validate_configuration_files access (c\<lparr>cfg_inputs := operands\<rparr>) = Ok config"
    and l: "length operands \<le> MAX_INPUT_FILES"
    using assms by (auto simp: init_configuration_def res_iff split: option.splits if_splits)
  have "cfg_bufsize c \<in> {MIN_BUFSIZE..MAX_BUFSIZE}"
    by (rule parse_options_bufsize [OF c]) (simp add: MIN_BUFSIZE_def MAX_BUFSIZE_def DEFAULT_BUFSIZE_def)
  then show "cfg_bufsize config \<in> {MIN_BUFSIZE..MAX_BUFSIZE}" and "cfg_inputs config \<noteq> []"
    and "cfg_inputs config = filter (\<lambda>f. access f R_OK) operands" and "length operands \<le> MAX_INPUT_FILES"
    using v l by (auto simp: validate_configuration_files_def Let_def split: if_splits)
qed

text \<open>
  C28: the program merges the files. With any accepted command line, when the readable input
  files and the output file can be opened and no call of \<^verbatim>\<open>read\<close> or \<^verbatim>\<open>write\<close> fails, the program
  ends, and has appended to the output the lines of the readable input files in turn, one line of each
  file until it has none left; this does not depend on the size of the buffers or on how many bytes the single
  calls of \<^verbatim>\<open>read\<close> and \<^verbatim>\<open>write\<close> transfer.
\<close>

theorem merge_output:
  assumes "init_configuration libc_atoi access opts operands = Ok (Some config)"
    and "\<forall>f\<in>set (cfg_inputs config). \<exists>d. open_in f = Some d \<and> reads_succeed d"
    and "(case cfg_output config of None \<Rightarrow> Some stdout | Some f \<Rightarrow> open_out f) = Some e" and "writes_succeed e"
  shows "\<exists>out. merge_main libc_atoi access open_out open_in stdout opts operands = Ok (Some out)
           \<and> fd_out (mf_fd out)
               = fd_out e @ in_turn (map (\<lambda>f. fd_in (the (open_in f))) (filter (\<lambda>f. access f R_OK) operands))"
proof -
  note c = init_configuration_ok [OF assms(1)]
  let ?n = "nat (cfg_bufsize config)" and ?ds = "map (the \<circ> open_in) (cfg_inputs config)"
  have n: "0 < ?n" using c(1) by (simp add: MIN_BUFSIZE_def)
  have "\<forall>d\<in>set ?ds. reads_succeed d" using assms(2) by fastforce
  then obtain files out where "shuffle_lines (map (init_file ?n) ?ds) (init_file ?n e) = Ok (files, out)"
    "fd_out (mf_fd out) = fd_out e @ in_turn (map fd_in ?ds)"
    using shuffle_lines_ok [OF n n, of ?ds e] c(2) assms(4) by auto
  moreover have "None \<notin> set (map open_in (cfg_inputs config))" using assms(2) by fastforce
  then have "init_input_files open_in ?n (cfg_inputs config) = Ok (map (init_file ?n) ?ds)"
    by (simp add: init_input_files_ok)
  moreover have "init_output_file open_out stdout config = Ok (init_file ?n e)"
    using assms(3) by (auto simp: init_output_file_def split: option.splits)
  ultimately show ?thesis using assms(1) c(3) by (simp add: merge_main_def comp_def)
qed

definition demo_fd :: "u8 list \<Rightarrow> fd" where
  "demo_fd bs = \<lparr>fd_in = bs, fd_reads = [Some 0, Some 2], fd_out = [], fd_writes = [Some 1]\<rparr>"

definition demo_open :: "string \<Rightarrow> fd option" where
  "demo_open f = Some (demo_fd (if f = ''a'' then [65, 10, 66] else [67, 10, 68, 10, 69]))"

lemma demo_config:
  "init_configuration (\<lambda>_. 2) (\<lambda>_ _. True) [(CHR ''t'', ''2'')] [''a'', ''b'']
     = Ok (Some \<lparr>cfg_bufsize = 2, cfg_output = None, cfg_inputs = [''a'', ''b'']\<rparr>)"
  by (simp add: init_configuration_def validate_configuration_files_def Let_def MIN_BUFSIZE_def MAX_BUFSIZE_def
      MIN_INPUT_FILES_def MAX_INPUT_FILES_def)

theorem merge_output_witness:
  "\<exists>out. merge_main (\<lambda>_. 2) (\<lambda>_ _. True) demo_open demo_open (demo_fd []) [(CHR ''t'', ''2'')] [''a'', ''b''] = Ok (Some out)
     \<and> fd_out (mf_fd out) = [65, 10, 67, 10, 66, 68, 10, 69]"
proof -
  have "in_turn [[65, 10, 66], [67, 10, 68, 10, 69]] = [65, 10, 67, 10, 66, 68, 10, 69]"
    by (simp add: in_turn_def NEW_LINE_def)
  then show ?thesis
    using merge_output [OF demo_config, of demo_open "demo_fd []" demo_open "demo_fd []"]
    by (simp add: demo_open_def demo_fd_def reads_succeed_def writes_succeed_def)
qed

end
