(* ===== verification/Exec_Lines.thy ===== *)
theory Exec_Lines
  imports Merge
begin

text \<open>
  The program \<^verbatim>\<open>src/syscalls/exec_lines.c\<close>, which executes the lines of its input as commands,
  a limited number of them at the same time. The static variables of \<^verbatim>\<open>read_character\<close> and
  \<^verbatim>\<open>read_line\<close> are the record \<open>input\<close>. The children are seen through the calls of the parent:
  its trace is the sequence of its calls of \<^verbatim>\<open>fork\<close>, with the arguments that the child passes to
  \<^verbatim>\<open>execvp\<close>, and of \<^verbatim>\<open>wait\<close>.
\<close>

record input =
  stdin :: fd
  read_buffer :: "u8 list"
  available_bytes :: int
  char_offset :: nat
  char_eof :: bool
  line_eof :: bool

definition LINE_SIZE :: nat where "LINE_SIZE = 128"
definition READ_SIZE :: nat where "READ_SIZE = 16"
definition SPACE :: u8 where "SPACE = 32"

text \<open>\<^verbatim>\<open>isgraph\<close> of the C library, in the C locale.\<close>

definition isgraph :: "u8 \<Rightarrow> bool" where
  "isgraph c = (33 \<le> c \<and> c \<le> 126)"

definition init_input :: "fd \<Rightarrow> input" where
  "init_input d = \<lparr>stdin = d, read_buffer = replicate READ_SIZE 0, available_bytes = 0, char_offset = 0,
     char_eof = False, line_eof = False\<rparr>"

definition read_character :: "input \<Rightarrow> (u8 \<times> input) res" where
  "read_character s =
     bindR (if \<not> char_eof s \<and> available_bytes s \<le> 0
            then bindR (read_all READ_SIZE (stdin s)) (\<lambda>(bs, d).
                 let s = s\<lparr>stdin := d, char_offset := 0, available_bytes := int (length bs),
                           read_buffer := bs @ drop (length bs) (read_buffer s)\<rparr>
                 in Ok (if available_bytes s < int READ_SIZE then s\<lparr>char_eof := True\<rparr> else s))
            else Ok s) (\<lambda>s.
     if char_eof s \<and> available_bytes s \<le> 0 then Ok (EOF, s)
     else if char_offset s < length (read_buffer s)
     then Ok (read_buffer s ! char_offset s,
              s\<lparr>available_bytes := available_bytes s - 1, char_offset := char_offset s + 1\<rparr>)
     else Fault)"

text \<open>
  The loop of \<^verbatim>\<open>read_line\<close>; the first argument is the space left in the buffer, the list the
  line read so far.
\<close>

fun read_line_loop :: "nat \<Rightarrow> bool \<Rightarrow> nat \<Rightarrow> u8 list \<Rightarrow> input \<Rightarrow> (u8 list \<times> nat \<times> input) res" where
  "read_line_loop 0 at_token token_count line s = Panic ''max line size exceeded''"
| "read_line_loop (Suc k) at_token token_count line s =
     bindR (read_character s) (\<lambda>(next_character, s).
     let token_count = (if isgraph next_character \<and> \<not> at_token then token_count + 1 else token_count);
         at_token = isgraph next_character;
         line = line @ [if next_character = EOF then NEW_LINE else next_character];
         s = (if next_character = EOF then s\<lparr>line_eof := True\<rparr> else s)
     in if next_character \<noteq> EOF \<and> next_character \<noteq> NEW_LINE
        then read_line_loop k at_token token_count line s
        else Ok (line, token_count, s))"

definition read_line :: "nat \<Rightarrow> input \<Rightarrow> (u8 list \<times> nat \<times> input) res" where
  "read_line bufsize s = (if line_eof s then Ok ([], 0, s) else read_line_loop bufsize False 0 [] s)"

text \<open>
  One step of the loop of \<^verbatim>\<open>build_argv\<close>, on the buffer, the flag and the pointers stored in the
  array, which are offsets into the buffer. The array has room for \<open>token_count + 1\<close> pointers.
\<close>

definition build_char :: "nat \<Rightarrow> nat \<Rightarrow> u8 list \<times> bool \<times> nat list \<Rightarrow> (u8 list \<times> bool \<times> nat list) res" where
  "build_char token_count offset st =
     (case st of (buf, at_token, argv) \<Rightarrow>
        if isgraph (buf ! offset) \<and> \<not> at_token
        then if length argv < token_count + 1 then Ok (buf, True, argv @ [offset]) else Fault
        else if buf ! offset = SPACE \<or> buf ! offset = NEW_LINE then Ok (buf[offset := 0], False, argv)
        else Ok (buf, at_token, argv))"

definition build_argv :: "u8 list \<Rightarrow> nat \<Rightarrow> nat \<Rightarrow> (u8 list \<times> nat list) res" where
  "build_argv buf line_length token_count =
     bindR (foldR (build_char token_count) [0..<line_length] (buf, False, [])) (\<lambda>(buf, at_token, argv). Ok (buf, argv))"

text \<open>
  The arguments that \<^verbatim>\<open>execvp\<close> is called with: the strings in the buffer up to the null pointer
  that ends the array, which is missing if the array is full.
\<close>

definition exec_args :: "u8 list \<Rightarrow> nat \<Rightarrow> u8 list list res" where
  "exec_args line token_count =
     bindR (build_argv line (length line) token_count) (\<lambda>(buf, argv).
     if length argv < token_count + 1 then Ok (map (\<lambda>p. takeWhile (\<lambda>c. c \<noteq> 0) (drop p buf)) argv) else Fault)"

datatype call = Fork "u8 list list" | Wait

text \<open>
  The loop of \<^verbatim>\<open>execute_lines\<close>. Whether the next call of \<^verbatim>\<open>fork\<close> succeeds is told by the list of
  its outcomes; it does when the list is empty.
\<close>

fun execute_loop :: "nat \<Rightarrow> bool list \<Rightarrow> nat \<Rightarrow> nat \<Rightarrow> input \<Rightarrow> call list res" where
  "execute_loop 0 forks num_process process_count s = Exhausted"
| "execute_loop (Suc k) forks num_process process_count s =
     bindR (read_line LINE_SIZE s) (\<lambda>(line, token_count, s).
     if length line > 0 then
       let waits = (if process_count \<ge> num_process then [Wait] else []);
           process_count = process_count - length waits
       in if token_count > 0 then
            if forks \<noteq> [] \<and> \<not> hd forks then Panic ''fork''
            else bindR (exec_args line token_count) (\<lambda>argv.
                 bindR (execute_loop k (tl forks) num_process (process_count + 1) s) (\<lambda>calls.
                 Ok (waits @ Fork argv # calls)))
          else bindR (execute_loop k forks num_process process_count s) (\<lambda>calls. Ok (waits @ calls))
     else Ok (replicate process_count Wait))"

definition execute_lines :: "bool list \<Rightarrow> nat \<Rightarrow> fd \<Rightarrow> call list res" where
  "execute_lines forks num_process d = execute_loop (length (fd_in d) + 3) forks num_process 0 (init_input d)"

definition MIN_NUMPROC :: int where "MIN_NUMPROC = 1"
definition MAX_NUMPROC :: int where "MAX_NUMPROC = 8"
definition DEFAULT_NUMPROC :: int where "DEFAULT_NUMPROC = 1"

fun parse_args :: "(string \<Rightarrow> int) \<Rightarrow> (char \<times> string) list \<Rightarrow> int \<Rightarrow> int option res" where
  "parse_args libc_atoi [] numproc = Ok (Some numproc)"
| "parse_args libc_atoi ((arg, optarg) # opts) numproc =
     (if arg = CHR ''p'' then
        let numproc = libc_atoi optarg
        in if numproc < MIN_NUMPROC \<or> numproc > MAX_NUMPROC then Panic ''numproc'' else parse_args libc_atoi opts numproc
      else if arg = CHR ''h'' then Ok None
      else Panic ''usage'')"

definition exec_main :: "(string \<Rightarrow> int) \<Rightarrow> (char \<times> string) list \<Rightarrow> bool list \<Rightarrow> fd \<Rightarrow> call list option res" where
  "exec_main libc_atoi opts forks d =
     bindR (parse_args libc_atoi opts DEFAULT_NUMPROC) (\<lambda>r.
     case r of None \<Rightarrow> Ok None
     | Some numproc \<Rightarrow> bindR (execute_lines forks (nat numproc) d) (\<lambda>calls. Ok (Some calls)))"

section \<open>The words of a line\<close>

definition separator :: "u8 \<Rightarrow> bool" where
  "separator c = (c = SPACE \<or> c = NEW_LINE)"

fun line_fields :: "u8 list \<Rightarrow> u8 list list" where
  "line_fields [] = [[]]"
| "line_fields (c # cs) = (if separator c then [] # line_fields cs else (c # hd (line_fields cs)) # tl (line_fields cs))"

text \<open>A word starts with the first graphical character after a separator and extends to the next one.\<close>

definition field_words :: "u8 list list \<Rightarrow> u8 list list" where
  "field_words fs = filter (\<lambda>w. w \<noteq> []) (map (dropWhile (\<lambda>c. \<not> isgraph c)) fs)"

definition line_words :: "u8 list \<Rightarrow> u8 list list" where
  "line_words cs = field_words (line_fields cs)"

lemma fields_ne [simp]: "line_fields cs \<noteq> []"
  by (cases cs) auto

lemma hd_fields: "hd (line_fields cs) = takeWhile (\<lambda>c. \<not> separator c) cs"
  by (induction cs) auto

lemma fields_newline: "line_fields (cs @ [NEW_LINE]) = line_fields cs @ [[]]"
  by (induction cs) (auto simp: separator_def)

lemma line_words_newline [simp]: "line_words (cs @ [NEW_LINE]) = line_words cs"
  by (simp add: line_words_def field_words_def fields_newline)

lemma separator_not_graph: "separator c \<Longrightarrow> \<not> isgraph c"
  by (auto simp: separator_def isgraph_def SPACE_def NEW_LINE_def)

text \<open>The tokens that \<^verbatim>\<open>read_line\<close> counts and the offsets that \<^verbatim>\<open>build_argv\<close> stores.\<close>

fun count_tokens :: "bool \<Rightarrow> u8 list \<Rightarrow> nat" where
  "count_tokens a [] = 0"
| "count_tokens a (c # cs) = (if isgraph c \<and> \<not> a then 1 else 0) + count_tokens (isgraph c) cs"

fun starts :: "nat \<Rightarrow> bool \<Rightarrow> u8 list \<Rightarrow> nat list" where
  "starts p a [] = []"
| "starts p a (c # cs) =
     (if isgraph c \<and> \<not> a then p # starts (Suc p) True cs
      else starts (Suc p) (a \<and> \<not> separator c) cs)"

definition terminate_at :: "u8 \<Rightarrow> u8" where
  "terminate_at c = (if separator c then 0 else c)"

lemma starts_bound: "(b \<longrightarrow> a) \<Longrightarrow> length (starts p a cs) \<le> count_tokens b cs"
proof (induction cs arbitrary: p a b)
  case (Cons c cs)
  then show ?case using separator_not_graph [of c] by (cases "isgraph c"; cases a; cases b) (force intro: le_SucI)+
qed simp

lemma count_newline [simp]: "count_tokens a (cs @ [NEW_LINE]) = count_tokens a cs"
  by (induction cs arbitrary: a) (auto simp: isgraph_def NEW_LINE_def)

lemma count_tokens_0: "count_tokens False cs = 0 \<longleftrightarrow> (\<forall>c\<in>set cs. \<not> isgraph c)"
proof -
  have "(\<forall>c\<in>set cs. \<not> isgraph c) \<Longrightarrow> count_tokens a cs = 0" for a by (induction cs arbitrary: a) auto
  moreover have "count_tokens False cs = 0 \<Longrightarrow> \<forall>c\<in>set cs. \<not> isgraph c" by (induction cs) (auto split: if_splits)
  ultimately show ?thesis by blast
qed

lemma fields_set: "c \<in> set cs \<Longrightarrow> \<not> separator c \<Longrightarrow> \<exists>f\<in>set (line_fields cs). c \<in> set f"
proof (induction cs)
  case (Cons d cs)
  then show ?case by (cases "line_fields cs") auto
qed simp

lemma fields_subset: "f \<in> set (line_fields cs) \<Longrightarrow> set f \<subseteq> set cs"
proof (induction cs arbitrary: f)
  case (Cons d cs)
  then show ?case by (cases "line_fields cs") (fastforce split: if_splits)+
qed simp

lemma line_words_empty: "line_words cs = [] \<longleftrightarrow> count_tokens False cs = 0"
  unfolding count_tokens_0 line_words_def field_words_def
  using fields_set [of _ cs] fields_subset [of _ cs] separator_not_graph
  by (fastforce simp: filter_empty_conv)

lemma build_fold:
  assumes "length argv + length (starts (length pre) a cs) \<le> n"
  shows "\<exists>a'. foldR (build_char n) [length pre..<length pre + length cs] (pre @ cs, a, argv)
           = Ok (pre @ map terminate_at cs, a', argv @ starts (length pre) a cs)"
  using assms
proof (induction cs arbitrary: pre a argv)
  case (Cons c cs)
  have up: "[length pre..<length pre + length (c # cs)] = length pre # [length (pre @ [terminate_at c])..<length (pre @ [terminate_at c]) + length cs]"
    by (simp add: upt_conv_Cons del: upt_Suc)
  obtain b w where step: "build_char n (length pre) (pre @ c # cs, a, argv) = Ok ((pre @ [terminate_at c]) @ cs, b, argv @ w)"
    and w: "starts (length pre) a (c # cs) = w @ starts (length (pre @ [terminate_at c])) b cs"
  proof (cases "isgraph c \<and> \<not> a")
    case True
    then have "\<not> separator c" using separator_not_graph by blast
    then show ?thesis using that [of True "[length pre]"] True Cons.prems by (simp add: build_char_def terminate_at_def)
  next
    case False
    then show ?thesis using that [of "a \<and> \<not> separator c" "[]"]
      by (auto simp: build_char_def terminate_at_def separator_def list_update_append)
  qed
  show ?case using Cons.IH [of "argv @ w" "pre @ [terminate_at c]" b] Cons.prems w
    unfolding up foldR.simps step by simp
qed simp

lemma takeWhile_terminated:
  "0 \<notin> set cs \<Longrightarrow> takeWhile (\<lambda>c. c \<noteq> 0) (map terminate_at cs) = takeWhile (\<lambda>c. \<not> separator c) cs"
  by (induction cs) (auto simp: terminate_at_def)

lemma starts_words:
  assumes "0 \<notin> set cs"
  shows "map (\<lambda>p. takeWhile (\<lambda>c. c \<noteq> 0) (drop p (pre @ map terminate_at cs))) (starts (length pre) a cs)
           = field_words (if a then tl (line_fields cs) else line_fields cs)"
  using assms
proof (induction cs arbitrary: pre a)
  case (Cons c cs)
  have IH: "map (\<lambda>p. takeWhile (\<lambda>c. c \<noteq> 0) (drop p (pre @ map terminate_at (c # cs)))) (starts (Suc (length pre)) b cs)
           = field_words (if b then tl (line_fields cs) else line_fields cs)" for b
    using Cons.IH [of "pre @ [terminate_at c]" b] Cons.prems by simp
  show ?case
  proof (cases "isgraph c \<and> \<not> a")
    case True
    then have ns: "\<not> separator c" using separator_not_graph by blast
    have "takeWhile (\<lambda>c. c \<noteq> 0) (map terminate_at (c # cs)) = c # hd (line_fields cs)"
      using ns Cons.prems takeWhile_terminated [of "c # cs"] by (simp add: hd_fields)
    then show ?thesis using True ns IH [of True] by (simp add: field_words_def)
  next
    case False
    then show ?thesis using IH [of "a \<and> \<not> separator c"] separator_not_graph [of c]
      by (cases a; cases "line_fields cs") (auto simp: field_words_def)
  qed
qed (simp add: field_words_def)

lemma exec_args_words:
  assumes "0 \<notin> set cs" and "count_tokens False cs \<le> n"
  shows "exec_args cs n = Ok (line_words cs)"
proof -
  have "length (starts 0 False cs) \<le> n" using starts_bound [of False False 0 cs] assms(2) by simp
  then show ?thesis using build_fold [of "[]" "[]" False cs n] starts_words [OF assms(1), of "[]" False]
    by (auto simp: exec_args_def build_argv_def line_words_def)
qed

section \<open>Reading lines\<close>

text \<open>
  The reader is the one of the program \<^verbatim>\<open>merge_files\<close>, except that it does not tell the end of
  the input from having seen it.
\<close>

definition as_file :: "input \<Rightarrow> mfile" where
  "as_file s = \<lparr>mf_fd = stdin s, mf_bufsize = READ_SIZE, mf_offset = char_offset s, mf_avail = available_bytes s,
     mf_buffer = read_buffer s, mf_status = (if char_eof s then READ_ENDING else STATUS_OK)\<rparr>"

lemma read_character_char:
  "read_character s = bindR (read_char (as_file s)) (\<lambda>(c, f).
     Ok (c, s\<lparr>stdin := mf_fd f, read_buffer := mf_buffer f, available_bytes := mf_avail f, char_offset := mf_offset f,
             char_eof := (mf_status f \<noteq> STATUS_OK)\<rparr>))"
  by (cases "read_all READ_SIZE (stdin s)") (auto simp: read_character_def read_char_def as_file_def Let_def)

definition input_ok :: "input \<Rightarrow> bool" where
  "input_ok s = in_ok (as_file s)"

abbreviation still :: "input \<Rightarrow> u8 list" where
  "still s \<equiv> in_rest (as_file s)"

text \<open>
  What is left to be read as lines: the byte 255 is the value of \<^verbatim>\<open>EOF\<close> as a character and taken
  for the end of the input.
\<close>

definition upcoming :: "input \<Rightarrow> u8 list" where
  "upcoming s = (if line_eof s then [] else takeWhile (\<lambda>c. c \<noteq> EOF) (still s))"

lemma read_char_bufsize: "read_char f = Ok (c, f') \<Longrightarrow> mf_bufsize f' = mf_bufsize f"
  by (cases "read_all (mf_bufsize f) (mf_fd f)") (auto simp: read_char_def Let_def split: if_splits)

lemma read_character_ok:
  assumes "input_ok s"
  shows "\<exists>s'. read_character s = Ok (case still s of [] \<Rightarrow> EOF | x # xs \<Rightarrow> x, s') \<and> input_ok s' \<and> line_eof s' = line_eof s
           \<and> still s' = tl (still s)"
proof -
  have live: "mf_status (as_file s) \<noteq> READ_ENDED" by (simp add: as_file_def)
  obtain c f where f: "read_char (as_file s) = Ok (c, f)" "in_ok f"
    and c: "case still s of [] \<Rightarrow> mf_status f = READ_ENDED \<and> c = EOF
              | x # xs \<Rightarrow> mf_status f \<noteq> READ_ENDED \<and> c = x \<and> in_rest f = xs \<and> unread (as_file s) = Suc (unread f)"
    using read_char_ok [of "as_file s"] assms(1) live unfolding input_ok_def by blast
  define s' where "s' = s\<lparr>stdin := mf_fd f, read_buffer := mf_buffer f, available_bytes := mf_avail f,
     char_offset := mf_offset f, char_eof := (mf_status f \<noteq> STATUS_OK)\<rparr>"
  have rd: "read_character s = Ok (c, s')" using f(1) by (simp add: read_character_char s'_def)
  have size: "mf_bufsize f = READ_SIZE" using read_char_bufsize [OF f(1)] by (simp add: as_file_def)
  have eof: "line_eof s' = line_eof s" by (simp add: s'_def)
  show ?thesis
  proof (cases "still s")
    case Nil
    then have st: "mf_status f = READ_ENDED" "c = EOF" using c by auto
    then have "mf_avail f = 0" "fd_in (mf_fd f) = []" using f(2) by (auto simp: in_ok_def)
    then have "still s' = []" "in_ok (as_file s')"
      using f(2) st size by (auto simp: in_rest_def as_file_def s'_def in_ok_def)
    then show ?thesis using rd Nil st eof by (auto simp: input_ok_def)
  next
    case (Cons x xs)
    then have st: "mf_status f \<noteq> READ_ENDED" "c = x" "in_rest f = xs" using c by auto
    then have "as_file s' = f" using size by (cases "mf_status f") (simp_all add: as_file_def s'_def)
    then show ?thesis using rd Cons st f(2) eof by (auto simp: input_ok_def)
  qed
qed

abbreviation line_text :: "u8 list \<Rightarrow> u8 list" where
  "line_text xs \<equiv> takeWhile (\<lambda>c. c \<noteq> NEW_LINE) xs"

text \<open>Reading a line yields the next line, with a newline also at the end of the input, and its number of tokens.\<close>

lemma read_line_loop_ok:
  assumes "input_ok s" and "\<not> line_eof s" and "length (line_text (upcoming s)) < k"
  shows "\<exists>s'. read_line_loop k a n line s
           = Ok (line @ line_text (upcoming s) @ [NEW_LINE], n + count_tokens a (line_text (upcoming s)), s')
         \<and> input_ok s' \<and> upcoming s' = rest1 (upcoming s) \<and> line_eof s' = (NEW_LINE \<notin> set (upcoming s))"
  using assms
proof (induction k arbitrary: a n line s)
  case (Suc k)
  let ?c = "case still s of [] \<Rightarrow> EOF | x # xs \<Rightarrow> x"
  obtain s1 where s1: "read_character s = Ok (?c, s1)" "input_ok s1" "\<not> line_eof s1" "still s1 = tl (still s)"
    using read_character_ok [OF Suc.prems(1)] Suc.prems(2) by blast
  show ?case
  proof (cases "?c = EOF")
    case True
    then have "upcoming s = []" using Suc.prems(2) by (cases "still s") (simp_all add: upcoming_def)
    moreover have "input_ok (s1\<lparr>line_eof := True\<rparr>)" using s1 by (simp add: input_ok_def as_file_def)
    ultimately show ?thesis using s1 True by (simp add: Let_def isgraph_def EOF_def upcoming_def)
  next
    case x: False
    then have up: "upcoming s = ?c # upcoming s1" using Suc.prems(2) s1 by (cases "still s") (auto simp: upcoming_def)
    show ?thesis
    proof (cases "?c = NEW_LINE")
      case True
      then show ?thesis using s1 x up by (simp add: Let_def isgraph_def NEW_LINE_def)
    next
      case False
      let ?n = "if isgraph ?c \<and> \<not> a then n + 1 else n"
      obtain s' where "read_line_loop k (isgraph ?c) ?n (line @ [?c]) s1
           = Ok ((line @ [?c]) @ line_text (upcoming s1) @ [NEW_LINE], ?n + count_tokens (isgraph ?c) (line_text (upcoming s1)), s')
         \<and> input_ok s' \<and> upcoming s' = rest1 (upcoming s1) \<and> line_eof s' = (NEW_LINE \<notin> set (upcoming s1))"
        using Suc.IH [OF s1(2,3)] Suc.prems(3) up False by fastforce
      then show ?thesis using s1 x up False by (auto simp: Let_def)
    qed
  qed
qed simp

section \<open>Executing the lines\<close>

definition commands :: "u8 list \<Rightarrow> u8 list list list" where
  "commands xs = filter (\<lambda>ws. ws \<noteq> []) (map line_words (file_lines xs))"

text \<open>
  A trace that starts with \<open>n\<close> children: at no point are there more than \<open>N\<close> of them, the parent
  waits only for children that it has, and none is left in the end.
\<close>

fun supervised :: "nat \<Rightarrow> nat \<Rightarrow> call list \<Rightarrow> bool" where
  "supervised N n [] = (n = 0)"
| "supervised N n (Fork argv # calls) = (n < N \<and> supervised N (Suc n) calls)"
| "supervised N n (Wait # calls) = (0 < n \<and> supervised N (n - 1) calls)"

fun forked :: "call list \<Rightarrow> u8 list list list" where
  "forked [] = []"
| "forked (Fork argv # calls) = argv # forked calls"
| "forked (Wait # calls) = forked calls"

lemma supervised_end: "supervised N n (replicate n Wait)" "forked (replicate n Wait) = []"
  by (induction n) simp_all

lemma line1_text: "line1 xs = line_text xs \<or> line1 xs = line_text xs @ [NEW_LINE]" "line_text (line1 xs) = line_text xs"
  by (induction xs) auto

lemma line_words_line1: "line_words (line1 xs) = line_words (line_text xs)"
  using line1_text(1) [of xs] by (elim disjE) (simp_all only: line_words_newline)

lemma commands_step:
  "commands xs = (if line_words (line_text xs) = [] then [] else [line_words (line_text xs)]) @ commands (rest1 xs)"
proof (cases "xs = []")
  case True
  then show ?thesis by (simp add: commands_def line_words_def field_words_def)
next
  case False
  show ?thesis by (simp add: commands_def file_lines_step [OF False] line_words_line1)
qed

definition short_lines :: "u8 list \<Rightarrow> bool" where
  "short_lines xs = (\<forall>l\<in>set (file_lines xs). length (line_text l) < LINE_SIZE)"

lemma short_lines_step: "short_lines xs \<Longrightarrow> length (line_text xs) < LINE_SIZE \<and> short_lines (rest1 xs)"
proof (cases "xs = []")
  case False
  then show "short_lines xs \<Longrightarrow> ?thesis" by (simp add: short_lines_def file_lines_step line1_text(2))
qed (simp add: short_lines_def LINE_SIZE_def)

lemma rest1_subset: "set (rest1 xs) \<subseteq> set xs"
  by (induction xs) auto

definition steps_left :: "input \<Rightarrow> nat" where
  "steps_left s = (if line_eof s then 1 else length (upcoming s) + 2)"

lemma execute_loop_ok:
  assumes "input_ok s" and "0 \<notin> set (upcoming s)" and "short_lines (upcoming s)"
    and "False \<notin> set forks" and "0 < N" and "n \<le> N" and "steps_left s \<le> k"
  shows "\<exists>calls. execute_loop k forks N n s = Ok calls \<and> supervised N n calls \<and> forked calls = commands (upcoming s)"
  using assms
proof (induction k arbitrary: forks n s)
  case 0
  then show ?case by (simp add: steps_left_def split: if_splits)
next
  case (Suc k)
  show ?case
  proof (cases "line_eof s")
    case True
    then have "upcoming s = []" by (simp add: upcoming_def)
    then show ?thesis using True supervised_end by (simp add: read_line_def commands_def)
  next
    case False
    let ?t = "line_text (upcoming s)" and ?m = "if n \<ge> N then n - 1 else n" and ?w = "if n \<ge> N then [Wait] else []"
    have short: "length ?t < LINE_SIZE" "short_lines (rest1 (upcoming s))" using short_lines_step Suc.prems(3) by auto
    obtain s' where rd: "read_line LINE_SIZE s = Ok (?t @ [NEW_LINE], count_tokens False ?t, s')"
      and s': "input_ok s'" "upcoming s' = rest1 (upcoming s)" "line_eof s' = (NEW_LINE \<notin> set (upcoming s))"
      using read_line_loop_ok [OF Suc.prems(1) False short(1), of False 0 "[]"] False
      by (auto simp: read_line_def)
    have sub: "0 \<notin> set (upcoming s')" "short_lines (upcoming s')"
      using Suc.prems(2) rest1_subset [of "upcoming s"] short(2) s'(2) by auto
    have left: "steps_left s' \<le> k"
    proof (cases "NEW_LINE \<in> set (upcoming s)")
      case True
      then have "upcoming s \<noteq> []" by auto
      then have "Suc (length (upcoming s')) \<le> length (upcoming s)"
        using length_rest1 [of "upcoming s"] s'(2) by (cases "upcoming s") auto
      then show ?thesis using Suc.prems(7) True False s'(3) by (simp add: steps_left_def)
    qed (use Suc.prems(7) False s'(3) in \<open>simp add: steps_left_def\<close>)
    have IH: "\<exists>calls. execute_loop k fs N j s' = Ok calls \<and> supervised N j calls \<and> forked calls = commands (upcoming s')"
      if "False \<notin> set fs" "j \<le> N" for fs j
      using Suc.IH [OF s'(1) sub that(1) Suc.prems(5) that(2) left] .
    have "?m < N" and "n - length ?w = ?m" using Suc.prems(5,6) by auto
    note m = this
    have w: "supervised N n (?w @ cs) = supervised N ?m cs" "forked (?w @ cs) = forked cs" for cs using Suc.prems(5) by auto
    show ?thesis
    proof (cases "count_tokens False ?t = 0")
      case True
      obtain calls where "execute_loop k forks N ?m s' = Ok calls" "supervised N ?m calls" "forked calls = commands (upcoming s')"
        using IH [OF Suc.prems(4), of ?m] m(1) by auto
      then show ?thesis using rd True m w commands_step [of "upcoming s"] line_words_empty [of ?t] s'(2)
        by (simp add: Let_def split del: if_split)
    next
      case False
      have "0 \<notin> set (?t @ [NEW_LINE])" using Suc.prems(2) by (auto simp: NEW_LINE_def dest: set_takeWhileD)
      then have args: "exec_args (?t @ [NEW_LINE]) (count_tokens False ?t) = Ok (line_words ?t)"
        using exec_args_words [of "?t @ [NEW_LINE]" "count_tokens False ?t"] by simp
      obtain calls where "execute_loop k (tl forks) N (?m + 1) s' = Ok calls" "supervised N (?m + 1) calls"
        "forked calls = commands (upcoming s')"
        using IH [of "tl forks" "?m + 1"] m(1) not_in_tl [OF Suc.prems(4)] by auto
      moreover have "forks = [] \<or> hd forks" using Suc.prems(4) by (cases forks) auto
      ultimately show ?thesis using rd False m w args commands_step [of "upcoming s"] line_words_empty [of ?t] s'(2)
        by (simp add: Let_def split del: if_split) auto
    qed
  qed
qed

lemma parse_args_ok:
  "parse_args libc_atoi opts p = Ok (Some numproc) \<Longrightarrow> 1 \<le> p \<Longrightarrow> p \<le> 8 \<Longrightarrow> 1 \<le> numproc \<and> numproc \<le> 8"
proof (induction opts arbitrary: p)
  case (Cons o' opts)
  then show ?case by (cases o') (auto simp: Let_def MIN_NUMPROC_def MAX_NUMPROC_def split: if_splits)
qed simp

lemma init_input_ok: "reads_succeed d \<Longrightarrow> input_ok (init_input d)"
  "upcoming (init_input d) = takeWhile (\<lambda>c. c \<noteq> EOF) (fd_in d)"
  by (simp_all add: input_ok_def upcoming_def init_input_def as_file_def in_ok_def in_rest_def READ_SIZE_def)

lemma execute_lines_ok:
  assumes "reads_succeed d" and "False \<notin> set forks" and "xs = takeWhile (\<lambda>c. c \<noteq> 255) (fd_in d)"
    and "0 \<notin> set xs" and "short_lines xs" and "0 < N"
  shows "\<exists>calls. execute_lines forks N d = Ok calls \<and> supervised N 0 calls \<and> forked calls = commands xs"
proof -
  have up: "upcoming (init_input d) = xs" using assms(3) by (simp add: init_input_ok EOF_def)
  have "length xs \<le> length (fd_in d)" using assms(3) by (simp add: length_takeWhile_le)
  then have "steps_left (init_input d) \<le> length (fd_in d) + 3" using up by (simp add: steps_left_def init_input_def)
  then show ?thesis
    using execute_loop_ok [OF init_input_ok(1) [OF assms(1)], of forks N 0 "length (fd_in d) + 3"] assms(2,4-6) up
    by (auto simp: execute_lines_def)
qed

text \<open>
  C29: the program executes the lines of its input. When the options are accepted, the calls of \<^verbatim>\<open>read\<close>
  and \<^verbatim>\<open>fork\<close> succeed, no line has more than 127 characters before its newline and no byte is null, the
  program ends; each line with a graphical character starts one command, in the order of the input,
  whose arguments are the words of the line; the array of arguments is never overrun; there are never
  more children than the requested number, between 1 and 8, and every child is waited for. The
  input ends for the program at the first byte 255.
\<close>

theorem exec_lines_runs:
  assumes "parse_args libc_atoi opts DEFAULT_NUMPROC = Ok (Some numproc)" and "reads_succeed d"
    and "False \<notin> set forks" and "xs = takeWhile (\<lambda>c. c \<noteq> 255) (fd_in d)"
    and "0 \<notin> set xs" and "short_lines xs"
  shows "\<exists>calls. exec_main libc_atoi opts forks d = Ok (Some calls) \<and> 1 \<le> numproc \<and> numproc \<le> 8
           \<and> supervised (nat numproc) 0 calls \<and> forked calls = commands xs"
proof -
  have p: "1 \<le> numproc" "numproc \<le> 8" using parse_args_ok [OF assms(1)] by (auto simp: DEFAULT_NUMPROC_def)
  obtain calls where "execute_lines forks (nat numproc) d = Ok calls" "supervised (nat numproc) 0 calls" "forked calls = commands xs"
    using execute_lines_ok [OF assms(2-6), of "nat numproc"] p(1) by auto
  then show ?thesis using assms(1) p by (simp add: exec_main_def)
qed

theorem exec_lines_runs_witness:
  "\<exists>calls. exec_main (\<lambda>_. 2) [(CHR ''p'', ''2'')] [True]
       \<lparr>fd_in = [108, 115, 32, 32, 97, 10, 10, 112, 115], fd_reads = [Some 3], fd_out = [], fd_writes = []\<rparr> = Ok (Some calls)
     \<and> supervised 2 0 calls \<and> forked calls = [[[108, 115], [97]], [[112, 115]]]"
proof -
  let ?xs = "[108, 115, 32, 32, 97, 10, 10, 112, 115] :: u8 list"
  let ?d = "\<lparr>fd_in = ?xs, fd_reads = [Some 3], fd_out = [], fd_writes = []\<rparr>"
  have "commands ?xs = [[[108, 115], [97]], [[112, 115]]]"
    by (simp add: commands_def line_words_def field_words_def separator_def SPACE_def NEW_LINE_def isgraph_def)
  moreover have "short_lines ?xs" by (simp add: short_lines_def NEW_LINE_def LINE_SIZE_def)
  moreover have "parse_args (\<lambda>_. 2) [(CHR ''p'', ''2'')] DEFAULT_NUMPROC = Ok (Some 2)"
    by (simp add: MIN_NUMPROC_def MAX_NUMPROC_def)
  ultimately show ?thesis
    using exec_lines_runs [of "\<lambda>_. 2" "[(CHR ''p'', ''2'')]" 2 ?d "[True]" ?xs] by (simp add: reads_succeed_def)
qed

end
