(* ===== verification/Tee.thy ===== *)
theory Tee
  imports Fd_Table Exec_Lines Digits
begin

text \<open>
  The program \<^verbatim>\<open>src/syscalls/merge_tee_exec.c\<close>, which connects \<^verbatim>\<open>merge_files\<close>, \<^verbatim>\<open>tee\<close> and
  \<^verbatim>\<open>exec_lines\<close> by two pipes. As for the shell, a child is the call of \<^verbatim>\<open>execvp\<close> that it makes, with
  its file descriptors at that moment. Every call whose result the program tests can fail: \<^verbatim>\<open>close\<close>
  and \<^verbatim>\<open>dup2\<close> on a descriptor that is not open, \<^verbatim>\<open>pipe\<close> without free descriptors, \<^verbatim>\<open>wait\<close> without
  children, and \<^verbatim>\<open>fork\<close> as a list of outcomes tells. The program then ends, which is \<open>Panic\<close>. The
  options found by \<^verbatim>\<open>getopt\<close> and the conversion \<^verbatim>\<open>atoi\<close> are parameters.
\<close>

definition MAX_STR_SIZE :: nat where "MAX_STR_SIZE = 16"
definition EXEC_LINES_ARGV_SIZE :: nat where "EXEC_LINES_ARGV_SIZE = 4"
definition TEE_ARGV_SIZE :: nat where "TEE_ARGV_SIZE = 3"
definition MERGE_FILES_ARGV_MIN_SIZE :: nat where "MERGE_FILES_ARGV_MIN_SIZE = 4"
definition TOTAL_PROGRAMS :: nat where "TOTAL_PROGRAMS = 3"

record tee_configuration =
  tc_bufsize :: int
  tc_numproc :: int
  tc_log_file :: "u8 list option"
  tc_input_files :: "u8 list list"

section \<open>The command line\<close>

fun tee_options :: "(u8 list \<Rightarrow> int) \<Rightarrow> (char \<times> u8 list) list \<Rightarrow> tee_configuration \<Rightarrow> tee_configuration option res" where
  "tee_options libc_atoi [] config = Ok (Some config)"
| "tee_options libc_atoi ((arg, optarg) # opts) config =
     (if arg = CHR ''t'' then
        let config = config\<lparr>tc_bufsize := libc_atoi optarg\<rparr>
        in if tc_bufsize config < MIN_BUFSIZE \<or> tc_bufsize config > MAX_BUFSIZE then Panic ''buffer size''
           else tee_options libc_atoi opts config
      else if arg = CHR ''l'' then tee_options libc_atoi opts (config\<lparr>tc_log_file := Some optarg\<rparr>)
      else if arg = CHR ''p'' then
        let config = config\<lparr>tc_numproc := libc_atoi optarg\<rparr>
        in if tc_numproc config < MIN_NUMPROC \<or> tc_numproc config > MAX_NUMPROC then Panic ''numproc''
           else tee_options libc_atoi opts config
      else if arg = CHR ''h'' then Ok None
      else Panic ''usage'')"

definition tee_init_configuration ::
  "(u8 list \<Rightarrow> int) \<Rightarrow> (char \<times> u8 list) list \<Rightarrow> u8 list list \<Rightarrow> tee_configuration option res" where
  "tee_init_configuration libc_atoi opts operands =
     bindR (tee_options libc_atoi opts
       \<lparr>tc_bufsize = DEFAULT_BUFSIZE, tc_numproc = DEFAULT_NUMPROC, tc_log_file = None, tc_input_files = []\<rparr>) (\<lambda>r.
     case r of
       None \<Rightarrow> Ok None
     | Some config \<Rightarrow>
         if tc_log_file config = None then Panic ''no log file''
         else if length operands < MIN_INPUT_FILES then Panic ''no input files''
         else if length operands > MAX_INPUT_FILES then Panic ''too many input files''
         else Ok (Some (config\<lparr>tc_input_files := operands\<rparr>)))"

section \<open>Arguments\<close>

text \<open>\<^verbatim>\<open>sprintf\<close> with \<^verbatim>\<open>%d\<close> into a buffer of \<^verbatim>\<open>MAX_STR_SIZE\<close> bytes.\<close>

definition decimal :: "int \<Rightarrow> u8 list" where
  "decimal n = (if n < 0 then [45] else []) @ map (\<lambda>d. 48 + of_nat d) (rev (int_digits 10 (nat \<bar>n\<bar>)))"

definition to_string :: "int \<Rightarrow> u8 list res" where
  "to_string n = (if length (decimal n) < MAX_STR_SIZE then Ok (decimal n) else Fault)"

text \<open>An array of pointers from \<^verbatim>\<open>calloc\<close> that holds these arguments and a null pointer after them.\<close>

definition argv_array :: "nat \<Rightarrow> u8 list list \<Rightarrow> u8 list list res" where
  "argv_array n args = (if length args < n then Ok args else Fault)"

definition merge_files_argv :: "tee_configuration \<Rightarrow> u8 list list res" where
  "merge_files_argv config =
     bindR (to_string (tc_bufsize config)) (\<lambda>n.
     argv_array (MERGE_FILES_ARGV_MIN_SIZE + length (tc_input_files config))
       ([chars ''./merge_files'', chars ''-t'', n] @ tc_input_files config))"

definition tee_argv :: "tee_configuration \<Rightarrow> u8 list list res" where
  "tee_argv config =
     (case tc_log_file config of
        None \<Rightarrow> argv_array TEE_ARGV_SIZE [chars ''tee'']
      | Some f \<Rightarrow> argv_array TEE_ARGV_SIZE [chars ''tee'', f])"

definition exec_lines_argv :: "tee_configuration \<Rightarrow> u8 list list res" where
  "exec_lines_argv config =
     bindR (to_string (tc_numproc config)) (\<lambda>n.
     argv_array EXEC_LINES_ARGV_SIZE [chars ''./exec_lines'', chars ''-p'', n])"

section \<open>Processes\<close>

record sys =
  sys_fds :: fds
  sys_pipes :: nat
  sys_forks :: "bool list"
  sys_started :: "(u8 list list \<times> fds) res list"
  sys_children :: nat

definition try_close :: "nat \<Rightarrow> fds \<Rightarrow> fds res" where
  "try_close i t = (if t i = None then Panic ''close'' else Ok (fd_close i t))"

definition try_dup2 :: "nat \<Rightarrow> nat \<Rightarrow> fds \<Rightarrow> fds res" where
  "try_dup2 old new t = (if t old = None then Panic ''dup2'' else Ok (fd_dup2 old new t))"

definition try_pipe :: "nat \<Rightarrow> sys \<Rightarrow> (nat \<times> nat \<times> sys) res" where
  "try_pipe limit s =
     (case fd_pipe limit (sys_pipes s) (sys_fds s) of
        None \<Rightarrow> Panic ''pipe''
      | Some (r, w, t) \<Rightarrow> Ok (r, w, s\<lparr>sys_fds := t, sys_pipes := sys_pipes s + 1\<rparr>))"

text \<open>\<^verbatim>\<open>fork\<close> with what the child does on its copy of the descriptors up to its call of \<^verbatim>\<open>execvp\<close>.\<close>

definition spawn :: "(fds \<Rightarrow> (u8 list list \<times> fds) res) \<Rightarrow> sys \<Rightarrow> sys res" where
  "spawn child s =
     (if sys_forks s \<noteq> [] \<and> \<not> hd (sys_forks s) then Panic ''fork''
      else Ok (s\<lparr>sys_forks := tl (sys_forks s), sys_started := sys_started s @ [child (sys_fds s)],
                  sys_children := sys_children s + 1\<rparr>))"

definition try_wait :: "sys \<Rightarrow> sys res" where
  "try_wait s = (if sys_children s = 0 then Panic ''wait'' else Ok (s\<lparr>sys_children := sys_children s - 1\<rparr>))"

definition merge_files :: "tee_configuration \<Rightarrow> nat \<times> nat \<Rightarrow> sys \<Rightarrow> sys res" where
  "merge_files config output_pipe =
     spawn (\<lambda>t.
       bindR (try_close (fst output_pipe) t) (\<lambda>t.
       bindR (try_dup2 (snd output_pipe) 1 t) (\<lambda>t.
       bindR (try_close (snd output_pipe) t) (\<lambda>t.
       bindR (merge_files_argv config) (\<lambda>argv. Ok (argv, t))))))"

definition tee :: "tee_configuration \<Rightarrow> nat \<times> nat \<Rightarrow> nat \<times> nat \<Rightarrow> sys \<Rightarrow> sys res" where
  "tee config input_pipe output_pipe =
     spawn (\<lambda>t.
       bindR (try_close (fst output_pipe) t) (\<lambda>t.
       bindR (try_close (snd input_pipe) t) (\<lambda>t.
       bindR (try_dup2 (fst input_pipe) 0 t) (\<lambda>t.
       bindR (try_dup2 (snd output_pipe) 1 t) (\<lambda>t.
       bindR (try_close (fst input_pipe) t) (\<lambda>t.
       bindR (try_close (snd output_pipe) t) (\<lambda>t.
       bindR (tee_argv config) (\<lambda>argv. Ok (argv, t)))))))))"

definition exec_lines :: "tee_configuration \<Rightarrow> nat \<times> nat \<Rightarrow> sys \<Rightarrow> sys res" where
  "exec_lines config inputfd =
     spawn (\<lambda>t.
       bindR (try_close (snd inputfd) t) (\<lambda>t.
       bindR (try_dup2 (fst inputfd) 0 t) (\<lambda>t.
       bindR (try_close (fst inputfd) t) (\<lambda>t.
       bindR (exec_lines_argv config) (\<lambda>argv. Ok (argv, t))))))"

definition close_pipe :: "nat \<times> nat \<Rightarrow> sys \<Rightarrow> sys res" where
  "close_pipe p s =
     bindR (try_close (fst p) (sys_fds s)) (\<lambda>t. bindR (try_close (snd p) t) (\<lambda>t. Ok (s\<lparr>sys_fds := t\<rparr>)))"

definition merge_tee_exec :: "nat \<Rightarrow> tee_configuration \<Rightarrow> sys \<Rightarrow> sys res" where
  "merge_tee_exec limit config s =
     bindR (try_pipe limit s) (\<lambda>(r1, w1, s).
     bindR (merge_files config (r1, w1) s) (\<lambda>s.
     bindR (try_pipe limit s) (\<lambda>(r2, w2, s).
     bindR (tee config (r1, w1) (r2, w2) s) (\<lambda>s.
     bindR (close_pipe (r1, w1) s) (\<lambda>s.
     bindR (exec_lines config (r2, w2) s) (\<lambda>s.
     bindR (close_pipe (r2, w2) s) (\<lambda>s.
     foldR (\<lambda>_. try_wait) [0..<TOTAL_PROGRAMS] s)))))))"

definition tee_main ::
  "nat \<Rightarrow> (u8 list \<Rightarrow> int) \<Rightarrow> (char \<times> u8 list) list \<Rightarrow> u8 list list \<Rightarrow> sys \<Rightarrow> sys option res" where
  "tee_main limit libc_atoi opts operands s =
     bindR (tee_init_configuration libc_atoi opts operands) (\<lambda>r.
     case r of
       None \<Rightarrow> Ok None
     | Some config \<Rightarrow> bindR (merge_tee_exec limit config s) (\<lambda>s. Ok (Some s)))"

section \<open>The pipeline\<close>

lemma two_free:
  fixes t :: fds
  assumes "2 \<le> card {i. i < limit \<and> t i = None}"
  shows "\<exists>i j. i < j \<and> j < limit \<and> t i = None \<and> t j = None"
proof -
  obtain B where B: "B \<subseteq> {i. i < limit \<and> t i = None}" "card B = 2"
    using obtain_subset_with_card_n [OF assms] by blast
  then obtain x y :: nat where "B = {x, y}" "x \<noteq> y" by (auto simp: card_2_iff)
  then show ?thesis using B(1) by (cases "x < y") (auto simp: not_less le_less)
qed

definition roomy_fds :: "nat \<Rightarrow> fds \<Rightarrow> bool" where
  "roomy_fds limit t \<longleftrightarrow> t 0 \<noteq> None \<and> t 1 \<noteq> None \<and> t 2 \<noteq> None \<and> 4 \<le> card {i. i < limit \<and> t i = None}"

lemma roomy_std: "roomy_fds limit t \<Longrightarrow> std_fds limit t"
  using two_free [of limit t] by (simp add: roomy_fds_def std_fds_def)

lemma roomy_after_pipe:
  assumes "roomy_fds limit t" and "3 \<le> r" and "3 \<le> w"
  shows "std_fds limit (t(r \<mapsto> f, w \<mapsto> g))"
proof -
  let ?F = "{i. i < limit \<and> t i = None}" and ?t = "t(r \<mapsto> f, w \<mapsto> g)"
  have "card ?F - card {r, w} \<le> card (?F - {r, w})" by (rule diff_card_le_card_Diff) simp
  moreover have "card {r, w} \<le> 2" by (simp add: card_insert_if)
  moreover have "{i. i < limit \<and> ?t i = None} = ?F - {r, w}" by (auto split: if_splits)
  moreover have "4 \<le> card ?F" using assms(1) by (simp add: roomy_fds_def)
  ultimately have "2 \<le> card {i. i < limit \<and> ?t i = None}" by (simp only:)
  then show ?thesis using two_free [of limit ?t] assms by (simp add: roomy_fds_def std_fds_def)
qed

lemma decimal_length: "\<bar>n\<bar> < 10 ^ 10 \<Longrightarrow> length (decimal n) \<le> 11"
  using int_digits_length [of 10 "nat \<bar>n\<bar>" 10] by (cases "n < 0") (simp_all add: decimal_def nat_less_iff)

lemma to_string_ok: "\<bar>n\<bar> < 10 ^ 10 \<Longrightarrow> to_string n = Ok (decimal n)"
  using decimal_length [of n] by (simp add: to_string_def MAX_STR_SIZE_def)

lemma tee_options_ok:
  "tee_options libc_atoi opts config = Ok (Some config') \<Longrightarrow> tc_bufsize config \<in> {MIN_BUFSIZE..MAX_BUFSIZE}
     \<Longrightarrow> tc_numproc config \<in> {MIN_NUMPROC..MAX_NUMPROC}
     \<Longrightarrow> tc_bufsize config' \<in> {MIN_BUFSIZE..MAX_BUFSIZE} \<and> tc_numproc config' \<in> {MIN_NUMPROC..MAX_NUMPROC}"
proof (induction opts arbitrary: config)
  case (Cons o' opts)
  then show ?case by (cases o') (auto simp: Let_def split: if_splits)
qed simp

lemma tee_init_ok:
  assumes "tee_init_configuration libc_atoi opts operands = Ok (Some config)"
  shows "1 \<le> tc_bufsize config" and "tc_bufsize config \<le> 2 ^ 27" and "1 \<le> tc_numproc config" and "tc_numproc config \<le> 8"
    and "\<exists>f. tc_log_file config = Some f" and "tc_input_files config = operands" and "operands \<noteq> []" and "length operands \<le> 16"
proof -
  let ?c0 = "\<lparr>tc_bufsize = DEFAULT_BUFSIZE, tc_numproc = DEFAULT_NUMPROC, tc_log_file = None, tc_input_files = []\<rparr>"
  obtain c where c: "tee_options libc_atoi opts ?c0 = Ok (Some c)" "tc_log_file c \<noteq> None"
    "length operands \<ge> MIN_INPUT_FILES" "length operands \<le> MAX_INPUT_FILES" "config = c\<lparr>tc_input_files := operands\<rparr>"
    using assms by (auto simp: tee_init_configuration_def res_iff split: option.splits if_splits)
  have "tc_bufsize c \<in> {MIN_BUFSIZE..MAX_BUFSIZE} \<and> tc_numproc c \<in> {MIN_NUMPROC..MAX_NUMPROC}"
    by (rule tee_options_ok [OF c(1)])
       (simp_all add: DEFAULT_BUFSIZE_def DEFAULT_NUMPROC_def MIN_BUFSIZE_def MAX_BUFSIZE_def MIN_NUMPROC_def MAX_NUMPROC_def)
  then show "1 \<le> tc_bufsize config" "tc_bufsize config \<le> 2 ^ 27" "1 \<le> tc_numproc config" "tc_numproc config \<le> 8"
    "\<exists>f. tc_log_file config = Some f" "tc_input_files config = operands" "operands \<noteq> []" "length operands \<le> 16"
    using c(2-5) by (auto simp: MIN_BUFSIZE_def MAX_BUFSIZE_def MIN_NUMPROC_def MAX_NUMPROC_def MIN_INPUT_FILES_def MAX_INPUT_FILES_def)
qed

lemma argvs_ok:
  assumes "tee_init_configuration libc_atoi opts operands = Ok (Some config)"
  shows "merge_files_argv config = Ok ([chars ''./merge_files'', chars ''-t'', decimal (tc_bufsize config)] @ operands)"
    and "tee_argv config = Ok [chars ''tee'', the (tc_log_file config)]"
    and "exec_lines_argv config = Ok [chars ''./exec_lines'', chars ''-p'', decimal (tc_numproc config)]"
  using tee_init_ok [OF assms]
  by (auto simp: merge_files_argv_def tee_argv_def exec_lines_argv_def argv_array_def to_string_ok
      MERGE_FILES_ARGV_MIN_SIZE_def TEE_ARGV_SIZE_def EXEC_LINES_ARGV_SIZE_def)

lemma fd_apply:
  "fd_close i t j = (if j = i then None else t j)"
  "fd_dup2 old new t j = (if t old \<noteq> None \<and> j = new then t old else t j)"
  by (simp_all add: fd_close_def fd_dup2_def)

lemma try_ok:
  "t i \<noteq> None \<Longrightarrow> try_close i t = Ok (fd_close i t)"
  "t old \<noteq> None \<Longrightarrow> try_dup2 old new t = Ok (fd_dup2 old new t)"
  by (simp_all add: try_close_def try_dup2_def)

text \<open>The descriptors of the children and of the parent, for pipes on the descriptors \<open>r1\<close>, \<open>w1\<close> and \<open>r2\<close>, \<open>w2\<close>.\<close>

lemma pipeline_fds:
  assumes "t r1 = None" and "t w1 = None" and "t r2 = None" and "t w2 = None" and "distinct [r1, w1, r2, w2]"
    and "\<forall>i\<in>{r1, w1, r2, w2}. 3 \<le> i"
  shows "fd_close w1 (fd_dup2 w1 1 (fd_close r1 (t(r1 \<mapsto> a, w1 \<mapsto> b)))) = t(1 \<mapsto> b)"
    and "fd_close w2 (fd_close r1 (fd_dup2 w2 1 (fd_dup2 r1 0 (fd_close w1 (fd_close r2 (t(r1 \<mapsto> a, w1 \<mapsto> b, r2 \<mapsto> c, w2 \<mapsto> d))))))) = t(0 \<mapsto> a, 1 \<mapsto> d)"
    and "fd_close w1 (fd_close r1 (t(r1 \<mapsto> a, w1 \<mapsto> b, r2 \<mapsto> c, w2 \<mapsto> d))) = t(r2 \<mapsto> c, w2 \<mapsto> d)"
    and "fd_close r2 (fd_dup2 r2 0 (fd_close w2 (t(r2 \<mapsto> c, w2 \<mapsto> d)))) = t(0 \<mapsto> c)"
    and "fd_close w2 (fd_close r2 (t(r2 \<mapsto> c, w2 \<mapsto> d))) = t"
proof -
  have ne: "r1 \<noteq> 0" "r1 \<noteq> Suc 0" "w1 \<noteq> 0" "w1 \<noteq> Suc 0" "r2 \<noteq> 0" "r2 \<noteq> Suc 0" "w2 \<noteq> 0" "w2 \<noteq> Suc 0"
    "r1 \<noteq> w1" "r1 \<noteq> r2" "r1 \<noteq> w2" "w1 \<noteq> r2" "w1 \<noteq> w2" "r2 \<noteq> w2"
    using assms(5,6) by auto
  note simps = fd_apply ne ne [symmetric] assms(1-4)
  show "fd_close w1 (fd_dup2 w1 1 (fd_close r1 (t(r1 \<mapsto> a, w1 \<mapsto> b)))) = t(1 \<mapsto> b)"
    by (rule ext) (simp add: simps)
  show "fd_close w2 (fd_close r1 (fd_dup2 w2 1 (fd_dup2 r1 0 (fd_close w1 (fd_close r2 (t(r1 \<mapsto> a, w1 \<mapsto> b, r2 \<mapsto> c, w2 \<mapsto> d))))))) = t(0 \<mapsto> a, 1 \<mapsto> d)"
    by (rule ext) (simp add: simps)
  show "fd_close w1 (fd_close r1 (t(r1 \<mapsto> a, w1 \<mapsto> b, r2 \<mapsto> c, w2 \<mapsto> d))) = t(r2 \<mapsto> c, w2 \<mapsto> d)"
    by (rule ext) (simp add: simps)
  show "fd_close r2 (fd_dup2 r2 0 (fd_close w2 (t(r2 \<mapsto> c, w2 \<mapsto> d)))) = t(0 \<mapsto> c)"
    by (rule ext) (simp add: simps)
  show "fd_close w2 (fd_close r2 (t(r2 \<mapsto> c, w2 \<mapsto> d))) = t"
    by (rule ext) (simp add: simps)
qed

lemma merge_tee_exec_ok:
  assumes "roomy_fds limit (sys_fds s)" and "False \<notin> set (sys_forks s)"
    and "merge_files_argv config = Ok as1" and "tee_argv config = Ok as2" and "exec_lines_argv config = Ok as3"
  shows "\<exists>s'. merge_tee_exec limit config s = Ok s' \<and> sys_fds s' = sys_fds s \<and> sys_children s' = sys_children s
    \<and> sys_started s' = sys_started s @
        [Ok (as1, (sys_fds s)(1 \<mapsto> WriteEnd (sys_pipes s))),
         Ok (as2, (sys_fds s)(0 \<mapsto> ReadEnd (sys_pipes s), 1 \<mapsto> WriteEnd (sys_pipes s + 1))),
         Ok (as3, (sys_fds s)(0 \<mapsto> ReadEnd (sys_pipes s + 1)))]"
proof -
  let ?t = "sys_fds s" and ?n = "sys_pipes s" and ?F = "sys_forks s"
  obtain r1 w1 where p1: "fd_pipe limit ?n ?t = Some (r1, w1, ?t(r1 \<mapsto> ReadEnd ?n, w1 \<mapsto> WriteEnd ?n))"
    "?t r1 = None" "?t w1 = None" "r1 \<noteq> w1" "3 \<le> r1" "3 \<le> w1" by (rule pipe_std [OF roomy_std [OF assms(1)]])
  let ?t1 = "?t(r1 \<mapsto> ReadEnd ?n, w1 \<mapsto> WriteEnd ?n)"
  obtain r2 w2 where p2: "fd_pipe limit (Suc ?n) ?t1 = Some (r2, w2, ?t1(r2 \<mapsto> ReadEnd (Suc ?n), w2 \<mapsto> WriteEnd (Suc ?n)))"
    "?t1 r2 = None" "?t1 w2 = None" "r2 \<noteq> w2" "3 \<le> r2" "3 \<le> w2" by (rule pipe_std [OF roomy_after_pipe [OF assms(1) p1(5,6)]])
  have d: "distinct [r1, w1, r2, w2]" "?t r2 = None" "?t w2 = None"
    using p1 p2(2-4) by (auto split: if_splits)
  have ge: "\<forall>i\<in>{r1, w1, r2, w2}. 3 \<le> i" using p1 p2 by auto
  note fds = pipeline_fds [OF p1(2,3) d(2,3,1) ge]
  have forks: "?F = [] \<or> hd ?F" "tl ?F = [] \<or> hd (tl ?F)" "tl (tl ?F) = [] \<or> hd (tl (tl ?F))"
    using assms(2) by (cases ?F; cases "tl ?F"; cases "tl (tl ?F)"; auto)+
  have ne: "r1 \<noteq> 0" "r1 \<noteq> Suc 0" "w1 \<noteq> 0" "w1 \<noteq> Suc 0" "r2 \<noteq> 0" "r2 \<noteq> Suc 0" "w2 \<noteq> 0" "w2 \<noteq> Suc 0"
    "r1 \<noteq> w1" "r1 \<noteq> r2" "r1 \<noteq> w2" "w1 \<noteq> r2" "w1 \<noteq> w2" "r2 \<noteq> w2"
    using ge d(1) by auto
  note ne = ne ne [symmetric]
  let ?t2 = "?t1(r2 \<mapsto> ReadEnd (Suc ?n), w2 \<mapsto> WriteEnd (Suc ?n))"
    and ?t3 = "?t(r2 \<mapsto> ReadEnd (Suc ?n), w2 \<mapsto> WriteEnd (Suc ?n))"
  have c1: "merge_files config (r1, w1) u = Ok (u\<lparr>sys_forks := tl (sys_forks u),
      sys_started := sys_started u @ [Ok (as1, ?t(1 \<mapsto> WriteEnd ?n))], sys_children := sys_children u + 1\<rparr>)"
    if "sys_fds u = ?t1" "sys_forks u = [] \<or> hd (sys_forks u)" for u
    using that ne fds(1) assms(3) by (auto simp: merge_files_def spawn_def try_ok fd_apply)
  have c2: "tee config (r1, w1) (r2, w2) u = Ok (u\<lparr>sys_forks := tl (sys_forks u),
      sys_started := sys_started u @ [Ok (as2, ?t(0 \<mapsto> ReadEnd ?n, 1 \<mapsto> WriteEnd (Suc ?n)))], sys_children := sys_children u + 1\<rparr>)"
    if "sys_fds u = ?t2" "sys_forks u = [] \<or> hd (sys_forks u)" for u
    using that ne fds(2) assms(4) by (auto simp: tee_def spawn_def try_ok fd_apply)
  have c3: "exec_lines config (r2, w2) u = Ok (u\<lparr>sys_forks := tl (sys_forks u),
      sys_started := sys_started u @ [Ok (as3, ?t(0 \<mapsto> ReadEnd (Suc ?n)))], sys_children := sys_children u + 1\<rparr>)"
    if "sys_fds u = ?t3" "sys_forks u = [] \<or> hd (sys_forks u)" for u
    using that ne fds(4) assms(5) by (auto simp: exec_lines_def spawn_def try_ok fd_apply)
  have c4: "close_pipe (r1, w1) u = Ok (u\<lparr>sys_fds := ?t3\<rparr>)" if "sys_fds u = ?t2" for u
    using that ne fds(3) by (simp add: close_pipe_def try_ok fd_apply)
  have c5: "close_pipe (r2, w2) u = Ok (u\<lparr>sys_fds := ?t\<rparr>)" if "sys_fds u = ?t3" for u
    using that ne fds(5) by (simp add: close_pipe_def try_ok fd_apply)
  have c6: "foldR (\<lambda>_. try_wait) [0..<TOTAL_PROGRAMS] u = Ok (u\<lparr>sys_children := k\<rparr>)" if "sys_children u = k + 3" for u k
    using that by (simp add: TOTAL_PROGRAMS_def try_wait_def numeral_eq_Suc)
  show ?thesis
    using p1(1) p2(1) c1 c2 c3 c4 c5 c6 forks
    by (simp add: merge_tee_exec_def try_pipe_def del: fun_upd_apply)
qed

text \<open>
  C30: \<^verbatim>\<open>merge_tee_exec\<close> builds the pipeline. With an accepted command line, the standard descriptors
  open, four free descriptors and no failing \<^verbatim>\<open>fork\<close>, it starts \<^verbatim>\<open>merge_files\<close> with the buffer size and
  the input files, \<^verbatim>\<open>tee\<close> with the log file and \<^verbatim>\<open>exec_lines\<close> with the number of processes, within the
  arrays of arguments; one pipe leads from the first to the second, another from the second to the
  third; no program keeps any other end of a pipe, so that each sees the end of its input; and
  the parent has its descriptors back and has waited for all three.
\<close>

theorem pipeline_wired:
  assumes "tee_init_configuration libc_atoi opts operands = Ok (Some config)"
    and "roomy_fds limit t" and "s = \<lparr>sys_fds = t, sys_pipes = n, sys_forks = forks, sys_started = [], sys_children = 0\<rparr>"
    and "False \<notin> set forks"
  shows "\<exists>s'. tee_main limit libc_atoi opts operands s = Ok (Some s') \<and> sys_fds s' = t \<and> sys_children s' = 0
    \<and> sys_started s' =
        [Ok ([chars ''./merge_files'', chars ''-t'', decimal (tc_bufsize config)] @ operands, t(1 \<mapsto> WriteEnd n)),
         Ok ([chars ''tee'', the (tc_log_file config)], t(0 \<mapsto> ReadEnd n, 1 \<mapsto> WriteEnd (n + 1))),
         Ok ([chars ''./exec_lines'', chars ''-p'', decimal (tc_numproc config)], t(0 \<mapsto> ReadEnd (n + 1)))]"
  using merge_tee_exec_ok [of limit s config, OF _ _ argvs_ok [OF assms(1)]] assms
  by (auto simp: tee_main_def)

lemma demo_tee_config:
  "tee_init_configuration (\<lambda>_. 2) [(CHR ''l'', chars ''log''), (CHR ''p'', chars ''2'')] [chars ''a'', chars ''b'']
     = Ok (Some \<lparr>tc_bufsize = 1024, tc_numproc = 2, tc_log_file = Some (chars ''log''), tc_input_files = [chars ''a'', chars ''b'']\<rparr>)"
  by (simp add: tee_init_configuration_def Let_def MIN_NUMPROC_def MAX_NUMPROC_def MIN_INPUT_FILES_def MAX_INPUT_FILES_def
      DEFAULT_BUFSIZE_def)

theorem pipeline_wired_witness:
  "\<exists>s'. tee_main 16 (\<lambda>_. 2) [(CHR ''l'', chars ''log''), (CHR ''p'', chars ''2'')] [chars ''a'', chars ''b'']
        \<lparr>sys_fds = [0 \<mapsto> Inherited 0, 1 \<mapsto> Inherited 1, 2 \<mapsto> Inherited 2], sys_pipes = 0, sys_forks = [], sys_started = [],
         sys_children = 0\<rparr> = Ok (Some s')
     \<and> map (\<lambda>r. case r of Ok (argv, t) \<Rightarrow> (argv, t 0, t 1) | _ \<Rightarrow> ([], None, None)) (sys_started s') =
        [([chars ''./merge_files'', chars ''-t'', chars ''1024'', chars ''a'', chars ''b''], Some (Inherited 0), Some (WriteEnd 0)),
         ([chars ''tee'', chars ''log''], Some (ReadEnd 0), Some (WriteEnd 1)),
         ([chars ''./exec_lines'', chars ''-p'', chars ''2''], Some (ReadEnd 1), Some (Inherited 1))]"
proof -
  let ?t = "[0 \<mapsto> Inherited 0, 1 \<mapsto> Inherited 1, 2 \<mapsto> Inherited 2] :: fds"
  have "{3, 4, 5, 6} \<subseteq> {i. i < 16 \<and> ?t i = None}" by auto
  then have "card {3, 4, 5, 6 :: nat} \<le> card {i. i < 16 \<and> ?t i = None}" by (intro card_mono) auto
  then have r: "roomy_fds 16 ?t" by (simp add: roomy_fds_def)
  have dec: "decimal 1024 = chars ''1024''" "decimal 2 = chars ''2''"
    by (simp_all add: decimal_def chars_def int_digits.simps)
  show ?thesis
    using pipeline_wired [OF demo_tee_config r refl, of "[]" 0] by (auto simp: dec)
qed

section \<open>What the pipeline executes\<close>

text \<open>A text that ends with a newline, if it is not empty.\<close>

definition terminated :: "u8 list \<Rightarrow> bool" where
  "terminated xs \<longleftrightarrow> xs = [] \<or> last xs = NEW_LINE"

definition whole_line :: "u8 list \<Rightarrow> bool" where
  "whole_line l \<longleftrightarrow> (\<exists>u. l = u @ [NEW_LINE] \<and> NEW_LINE \<notin> set u)"

lemma file_lines_whole: "NEW_LINE \<notin> set u \<Longrightarrow> file_lines (u @ NEW_LINE # xs) = (u @ [NEW_LINE]) # file_lines xs"
  by (induction u) auto

lemma file_lines_concat: "\<forall>l\<in>set ls. whole_line l \<Longrightarrow> file_lines (concat ls) = ls"
proof (induction ls)
  case (Cons l ls)
  then obtain u where "l = u @ [NEW_LINE]" "NEW_LINE \<notin> set u" by (auto simp: whole_line_def)
  then show ?case using Cons file_lines_whole [of u "concat ls"] by simp
qed simp

lemma terminated_lines: "terminated xs \<Longrightarrow> l \<in> set (file_lines xs) \<Longrightarrow> whole_line l"
proof (induction xs arbitrary: l)
  case (Cons c cs)
  have t: "terminated cs" using Cons.prems(1) by (cases cs) (auto simp: terminated_def split: if_splits)
  show ?case
  proof (cases "c = NEW_LINE")
    case True
    then show ?thesis using Cons.prems(2) Cons.IH [OF t] by (auto simp: whole_line_def)
  next
    case False
    then have "cs \<noteq> []" using Cons.prems(1) by (auto simp: terminated_def)
    then obtain k ks where k: "file_lines cs = k # ks" by (metis file_lines_step)
    then obtain u where "k = u @ [NEW_LINE]" "NEW_LINE \<notin> set u" using Cons.IH [OF t, of k] by (auto simp: whole_line_def)
    then have "whole_line (c # k)" using False by (auto simp: whole_line_def intro: exI [of _ "c # u"])
    then show ?thesis using Cons.prems(2) Cons.IH [OF t] False k by auto
  qed
qed simp

lemma transpose_set: "x \<in> set (concat (transpose xss)) \<Longrightarrow> \<exists>xs\<in>set xss. x \<in> set xs"
proof (induction xss rule: transpose.induct)
  case (3 y ys yss)
  let ?hs = "concat (map (case_list [] (\<lambda>h t. [h])) yss)" and ?ts = "concat (map (case_list [] (\<lambda>h t. [t])) yss)"
  have hs: "\<exists>zs\<in>set yss. x \<in> set zs" if "x \<in> set ?hs"
    using that by (induction yss) (auto split: list.splits)
  have ts: "\<exists>us\<in>set yss. x \<in> set us" if "zs \<in> set ?ts" "x \<in> set zs" for zs
    using that by (induction yss) (auto split: list.splits)
  from 3(2) consider "x = y" | "x \<in> set ?hs" | "x \<in> set (concat (transpose (ys # ?ts)))" by auto
  then show ?case
  proof cases
    case 3
    then obtain zs where "zs \<in> set (ys # ?ts)" "x \<in> set zs" using "3.IH" by blast
    then show ?thesis using ts by auto
  qed (use hs in auto)
qed simp_all

lemma in_turn_lines:
  assumes "\<forall>xs\<in>set xss. terminated xs"
  shows "file_lines (in_turn xss) = concat (transpose (map file_lines xss))"
  unfolding in_turn_def
proof (rule file_lines_concat, rule ballI)
  fix l assume "l \<in> set (concat (transpose (map file_lines xss)))"
  then obtain ls where "ls \<in> set (map file_lines xss)" "l \<in> set ls" using transpose_set by metis
  then show "whole_line l" using terminated_lines assms by auto
qed

lemma in_turn_set: "c \<in> set (in_turn xss) \<Longrightarrow> \<exists>xs\<in>set xss. c \<in> set xs"
proof -
  assume "c \<in> set (in_turn xss)"
  then obtain l where l: "l \<in> set (concat (transpose (map file_lines xss)))" "c \<in> set l"
    unfolding in_turn_def set_concat [of "concat _"] by blast
  then obtain xs where xs: "xs \<in> set xss" "l \<in> set (file_lines xs)" using transpose_set [OF l(1)] by auto
  then have "c \<in> set (concat (file_lines xs))" using l(2) by auto
  then show ?thesis using xs(1) by (auto simp: concat_file_lines)
qed

text \<open>
  C31: the programs of the pipeline work together. When the files consist of complete lines of at most
  127 characters, without the bytes 0 and 255, what \<^verbatim>\<open>merge_files\<close> writes makes \<^verbatim>\<open>exec_lines\<close>
  start the commands of the lines of the files in turn, one per non-blank line, never more than
  \<open>N\<close> at a time, whatever the sizes of buffers and transfers on both sides.
\<close>

theorem pipeline_executes:
  assumes "0 < n" and "ds \<noteq> []" and "\<forall>d\<in>set ds. reads_succeed d" and "writes_succeed e" and "fd_out e = []"
    and "\<forall>d\<in>set ds. terminated (fd_in d) \<and> short_lines (fd_in d) \<and> 0 \<notin> set (fd_in d) \<and> 255 \<notin> set (fd_in d)"
    and "0 < N" and "False \<notin> set forks"
  shows "\<exists>files out. shuffle_lines (map (init_file n) ds) (init_file n e) = Ok (files, out)
    \<and> (\<forall>d. fd_in d = fd_out (mf_fd out) \<and> reads_succeed d \<longrightarrow>
         (\<exists>calls. execute_lines forks N d = Ok calls \<and> supervised N 0 calls
            \<and> forked calls = filter (\<lambda>ws. ws \<noteq> []) (map line_words (concat (transpose (map (file_lines \<circ> fd_in) ds))))))"
proof -
  let ?xs = "in_turn (map fd_in ds)"
  obtain files out where out: "shuffle_lines (map (init_file n) ds) (init_file n e) = Ok (files, out)" "fd_out (mf_fd out) = ?xs"
    using shuffle_lines_ok [OF assms(1,1,2-4)] assms(5) by auto
  have lines: "file_lines ?xs = concat (transpose (map (file_lines \<circ> fd_in) ds))"
    using in_turn_lines [of "map fd_in ds"] assms(6) by simp
  have z: "0 \<notin> set ?xs" "255 \<notin> set ?xs" using in_turn_set [of _ "map fd_in ds"] assms(6) by auto
  have sh: "short_lines ?xs"
    unfolding short_lines_def lines
  proof
    fix l assume "l \<in> set (concat (transpose (map (file_lines \<circ> fd_in) ds)))"
    then obtain d where "d \<in> set ds" "l \<in> set (file_lines (fd_in d))" using transpose_set by fastforce
    then show "length (line_text l) < LINE_SIZE" using assms(6) by (auto simp: short_lines_def)
  qed
  have "\<exists>calls. execute_lines forks N d = Ok calls \<and> supervised N 0 calls \<and> forked calls = commands ?xs"
    if "fd_in d = ?xs" "reads_succeed d" for d
  proof (rule execute_lines_ok [OF that(2) assms(8) _ z(1) sh assms(7)])
    have "takeWhile (\<lambda>c. c \<noteq> 255) ?xs = ?xs" using z(2) by (auto simp: takeWhile_eq_all_conv)
    then show "?xs = takeWhile (\<lambda>c. c \<noteq> 255) (fd_in d)" using that(1) by (simp only:)
  qed
  then show ?thesis using out lines by (auto simp: commands_def)
qed

theorem pipeline_executes_witness:
  "\<exists>out. fd_in out = [97, 10, 99, 10, 98, 10] \<and> (\<exists>calls. execute_lines [] 1 out = Ok calls
     \<and> supervised 1 0 calls \<and> forked calls = [[[97]], [[99]], [[98]]])"
proof -
  let ?ds = "[demo_fd [97, 10, 98, 10], demo_fd [99, 10]]"
  obtain files out where out: "shuffle_lines (map (init_file 2) ?ds) (init_file 2 (demo_fd [])) = Ok (files, out)"
    "fd_out (mf_fd out) = [97, 10, 99, 10, 98, 10]"
    using shuffle_lines_ok [of 2 2 ?ds "demo_fd []"]
    by (auto simp: demo_fd_def reads_succeed_def writes_succeed_def in_turn_def NEW_LINE_def)
  let ?d = "\<lparr>fd_in = fd_out (mf_fd out), fd_reads = [], fd_out = [], fd_writes = []\<rparr>"
  have words: "line_words [97, 10] = [[97]]" "line_words [98, 10] = [[98]]" "line_words [99, 10] = [[99]]"
    by (simp_all add: line_words_def field_words_def separator_def SPACE_def NEW_LINE_def isgraph_def)
  have "\<exists>calls. execute_lines [] 1 ?d = Ok calls \<and> supervised 1 0 calls \<and> forked calls = [[[97]], [[99]], [[98]]]"
    using pipeline_executes [of 2 ?ds "demo_fd []" 1 "[]"] out(1)
    by (auto simp: demo_fd_def reads_succeed_def writes_succeed_def terminated_def short_lines_def NEW_LINE_def LINE_SIZE_def words)
  then show ?thesis using out(2) by (intro exI [of _ ?d]) simp
qed

end
