(* ===== verification/Fs_Tx.thy ===== *)
theory Fs_Tx
  imports Log_Tx Fs_Defs
begin

text \<open>
  Transactions of the file system, with the blocks they may write. In \<open>fstx c H D k s\<close> the blocks
  logged so far are in \<open>D\<close>, the log has room for all of \<open>D\<close> and for \<open>k\<close> further blocks, and \<open>H\<close> are
  the buffers held by the process: writing a block of \<open>D\<close> again costs nothing, as \<^verbatim>\<open>log_write\<close>
  absorbs it.
\<close>

definition fstx :: "nat \<Rightarrow> nat set \<Rightarrow> u32 set \<Rightarrow> nat \<Rightarrow> 'a log_scheme \<Rightarrow> bool" where
  "fstx c H D k s \<longleftrightarrow>
     logged c H s \<and> 1 \<le> l_outstanding s \<and> dirty_blocks s \<subseteq> D \<and> finite D \<and>
     card D + k < log_len s \<and> card D + k + 2 < NBUF \<and>
     (\<forall>n\<in>D. n < disksize s \<and> n \<notin> log_area (l_start s) (log_len s))"

lemma fstx_tx: "fstx c H D k s \<Longrightarrow> tx c H (Suc 0) s"
  using logged_card[of c H s] card_mono[of D "dirty_blocks s"] by (auto simp: fstx_def tx_def)

lemma tx_fstx:
  assumes "fstx c H D k s" and "tx c H' j s'" and "dirty_blocks s' \<subseteq> D" and "tx_frame s s'"
  shows "fstx c H' D k s'"
  using assms(1,2,3) unfolding fstx_def tx_frame_fields[OF assms(4)] by (simp add: tx_def)

lemma fstx_extend:
  assumes "fstx c H D (Suc k) s" and "n < disksize s" and "n \<notin> log_area (l_start s) (log_len s)"
  shows "fstx c H (insert n D) k s"
  using assms by (auto simp: fstx_def card_insert_if)

lemma fstx_less: "fstx c H D k s \<Longrightarrow> j \<le> k \<Longrightarrow> fstx c H D j s"
  by (auto simp: fstx_def)

section \<open>Buffers in a transaction\<close>

lemma fstx_bread:
  fixes s :: "'a log_scheme"
  assumes "fstx c H D k s" and "n < disksize s" and "\<And>i. i \<in> H \<Longrightarrow> b_blockno (bufs s i) \<noteq> n" and "card H \<le> 1"
  obtains b s' where "bread c 1 n s = Ok (b, s')" and "b \<notin> H" and "fstx c (insert b H) D k s'"
    and "holds_block b n (view s n) s'" and "same_store s s'" and "\<forall>i\<in>H. bufs s' i = bufs s i"
    and "n \<in> dirty_blocks s' \<or> view s n = disk s' n"
proof -
  obtain b s' where r: "bread c 1 n s = Ok (b, s')" "b \<notin> H" "tx c (insert b H) (Suc 0) s'"
    "holds_block b n (view s n) s'" "same_store s s'" "\<forall>i\<in>H. bufs s' i = bufs s i" "n \<in> dirty_blocks s \<or> view s n = disk s n"
    using tx_bread[OF fstx_tx[OF assms(1)] assms(2,3,4)] by blast
  have "fstx c (insert b H) D k s'"
    using assms(1) same_storeD(4)[OF r(5)] by (intro tx_fstx[OF assms(1) r(3) _ same_store_tx_frame[OF r(5)]]) (simp add: fstx_def)
  then show ?thesis using r same_storeD[OF r(5)] by (intro that[of b s']) auto
qed

lemma fstx_brelse:
  fixes s :: "'a log_scheme"
  assumes "fstx c H D k s" and "b \<in> H" and "holds_block b n d s" and "n \<in> dirty_blocks s \<or> d = disk s n"
  obtains s' where "brelse c b s = Ok s'" and "fstx c (H - {b}) D k s'" and "same_store s s'"
    and "\<forall>i. bkey (bufs s' i) = bkey (bufs s i) \<and> b_data (bufs s' i) = b_data (bufs s i)"
proof -
  obtain s' where r: "brelse c b s = Ok s'" "tx c (H - {b}) (Suc 0) s'" "same_store s s'"
    "\<forall>i. bkey (bufs s' i) = bkey (bufs s i) \<and> b_data (bufs s' i) = b_data (bufs s i)"
    using tx_brelse[OF fstx_tx[OF assms(1)] assms(2-4)] by blast
  have "fstx c (H - {b}) D k s'"
    using assms(1) same_storeD(4)[OF r(3)] by (intro tx_fstx[OF assms(1) r(2) _ same_store_tx_frame[OF r(3)]]) (simp add: fstx_def)
  then show ?thesis using r by (intro that[of s']) auto
qed

lemma fstx_log_write:
  fixes s :: "'a log_scheme" and f :: "block \<Rightarrow> block"
  assumes "fstx c H D k s" and "b \<in> H" and "holds_block b n d s" and "n \<in> D"
  obtains s' where "log_write b (set_data b f s) = Ok s'" and "fstx c H D k s'" and "view s' = (view s)(n := f d)"
    and "holds_block b n (f d) s'" and "n \<in> dirty_blocks s'" and "tx_frame s s'"
    and "\<forall>i. bkey (bufs s' i) = bkey (bufs s i) \<and> (i \<noteq> b \<longrightarrow> b_data (bufs s' i) = b_data (bufs s i))"
proof -
  note M = tx_modify[OF fstx_tx[OF assms(1)] assms(2,3), where f = f]
  have na: "n \<notin> log_area (l_start (set_data b f s)) (log_len (set_data b f s))"
    unfolding tx_frame_fields[OF M(4)] using assms(1,4) by (simp add: fstx_def)
  obtain s' where r: "log_write b (set_data b f s) = Ok s'" "tx c H 0 s'" "view s' = view (set_data b f s)"
    "dirty_blocks s' = insert n (dirty_blocks (set_data b f s))" "tx_frame (set_data b f s) s'"
    "\<forall>i. bkey (bufs s' i) = bkey (bufs (set_data b f s) i) \<and> b_data (bufs s' i) = b_data (bufs (set_data b f s) i)"
    using log_write_ok[OF M(1) assms(2) M(3) na] by blast
  have fr: "tx_frame s s'" by (rule tx_frame_trans[OF M(4) r(5)])
  have "fstx c H D k s'" using assms(1,4) r(4) M(7) by (intro tx_fstx[OF assms(1) r(2) _ fr]) (auto simp: fstx_def)
  moreover have "holds_block b n (f d) s'" using M(3) r(6) by (simp add: holds_block_def)
  ultimately show ?thesis using r M(2,5,6) fr by (intro that[of s']) auto
qed

text \<open>The two patterns of \<^verbatim>\<open>fs.c\<close>: reading a block, and changing one.\<close>

definition keeps :: "nat set \<Rightarrow> 'a bcache_scheme \<Rightarrow> 'a bcache_scheme \<Rightarrow> bool" where
  "keeps H s s' \<longleftrightarrow> (\<forall>i\<in>H. bkey (bufs s' i) = bkey (bufs s i) \<and> b_data (bufs s' i) = b_data (bufs s i))"

lemma keeps_refl: "keeps H s s" and keeps_trans: "keeps H s t \<Longrightarrow> keeps H t u \<Longrightarrow> keeps H s u"
  and keeps_mono: "keeps H s t \<Longrightarrow> G \<subseteq> H \<Longrightarrow> keeps G s t"
  by (auto simp: keeps_def)

lemma keeps_holds: "keeps H s s' \<Longrightarrow> b \<in> H \<Longrightarrow> holds_block b n d s' = holds_block b n d s"
  by (simp add: keeps_def holds_block_def)

lemma fstx_read:
  fixes s :: "'a log_scheme"
  assumes "fstx c H D k s" and "n < disksize s" and "\<And>i. i \<in> H \<Longrightarrow> b_blockno (bufs s i) \<noteq> n" and "card H \<le> 1"
  obtains b s1 s' where "bread c 1 n s = Ok (b, s1)" and "b_data (bufs s1 b) = view s n" and "tx_frame s s1"
    and "brelse c b s1 = Ok s'" and "fstx c H D k s'" and "same_store s s'" and "keeps H s s'"
proof -
  obtain b s1 where 1: "bread c 1 n s = Ok (b, s1)" "b \<notin> H" "fstx c (insert b H) D k s1"
    "holds_block b n (view s n) s1" "same_store s s1" "\<forall>i\<in>H. bufs s1 i = bufs s i" "n \<in> dirty_blocks s1 \<or> view s n = disk s1 n"
    by (rule fstx_bread[OF assms])
  obtain s' where 2: "brelse c b s1 = Ok s'" "fstx c (insert b H - {b}) D k s'" "same_store s1 s'"
    "\<forall>i. bkey (bufs s' i) = bkey (bufs s1 i) \<and> b_data (bufs s' i) = b_data (bufs s1 i)"
    by (rule fstx_brelse[OF 1(3) insertI1 1(4,7)])
  have "insert b H - {b} = H" using 1(2) by blast
  then show ?thesis
    using 1 2 same_store_trans[OF 1(5) 2(3)] same_store_tx_frame[OF 1(5)]
    by (intro that[of b s1 s']) (auto simp: holds_block_def keeps_def)
qed

lemma fstx_update:
  fixes s :: "'a log_scheme" and f :: "block \<Rightarrow> block"
  assumes "fstx c H D k s" and "n \<in> D" and "\<And>i. i \<in> H \<Longrightarrow> b_blockno (bufs s i) \<noteq> n" and "card H \<le> 1"
  obtains b s1 s2 s' where "bread c 1 n s = Ok (b, s1)" and "b_data (bufs s1 b) = view s n" and "tx_frame s s1"
    and "log_write b (set_data b f s1) = Ok s2" and "brelse c b s2 = Ok s'"
    and "fstx c H D k s'" and "view s' = (view s)(n := f (view s n))" and "tx_frame s s'" and "keeps H s s'"
proof -
  have n: "n < disksize s" using assms(1,2) by (simp add: fstx_def)
  obtain b s1 where 1: "bread c 1 n s = Ok (b, s1)" "b \<notin> H" "fstx c (insert b H) D k s1"
    "holds_block b n (view s n) s1" "same_store s s1" "\<forall>i\<in>H. bufs s1 i = bufs s i" "n \<in> dirty_blocks s1 \<or> view s n = disk s1 n"
    by (rule fstx_bread[OF assms(1) n assms(3,4)])
  obtain s2 where 2: "log_write b (set_data b f s1) = Ok s2" "fstx c (insert b H) D k s2"
    "view s2 = (view s1)(n := f (view s n))" "holds_block b n (f (view s n)) s2" "n \<in> dirty_blocks s2" "tx_frame s1 s2"
    "\<forall>i. bkey (bufs s2 i) = bkey (bufs s1 i) \<and> (i \<noteq> b \<longrightarrow> b_data (bufs s2 i) = b_data (bufs s1 i))"
    by (rule fstx_log_write[OF 1(3) insertI1 1(4) assms(2)])
  obtain s' where 3: "brelse c b s2 = Ok s'" "fstx c (insert b H - {b}) D k s'" "same_store s2 s'"
    "\<forall>i. bkey (bufs s' i) = bkey (bufs s2 i) \<and> b_data (bufs s' i) = b_data (bufs s2 i)"
    by (rule fstx_brelse[OF 2(2) insertI1 2(4)]) (use 2(5) in auto)
  have "insert b H - {b} = H" using 1(2) by blast
  moreover have "tx_frame s s'"
    using tx_frame_trans[OF same_store_tx_frame[OF 1(5)] tx_frame_trans[OF 2(6) same_store_tx_frame[OF 3(3)]]] .
  moreover have "keeps H s s'" using 1(2,6) 2(7) 3(4) by (auto simp: keeps_def)
  ultimately show ?thesis
    using 1 2 3 same_storeD(1)[OF 1(5)] same_storeD(1)[OF 3(3)] same_store_tx_frame[OF 1(5)]
    by (intro that[of b s1 s2 s']) (auto simp: holds_block_def)
qed

section \<open>The inode cache\<close>

lemma tx_frame_icache:
  fixes s s' :: "'a icache_scheme"
  assumes "tx_frame s s'"
  shows "fs_sb s' = fs_sb s" and "inodes s' = inodes s" and "icache.more s' = icache.more s"
proof -
  have "log.more s' = log.more s" by (rule tx_frame_fields(10)[OF assms])
  then show "fs_sb s' = fs_sb s" "inodes s' = inodes s" "icache.more s' = icache.more s"
    by (cases s rule: icache.cases_scheme, cases s' rule: icache.cases_scheme, simp)+
qed

lemma inodes_upd_ino [simp]:
  "inodes (upd_ino ip f s) = (inodes s)(ip := f (inodes s ip))" "fs_sb (upd_ino ip f s) = fs_sb s"
  "bufs (upd_ino ip f s) = bufs s" "disksize (upd_ino ip f s) = disksize s"
  "l_start (upd_ino ip f s) = l_start s" "log_len (upd_ino ip f s) = log_len s" "disk (upd_ino ip f s) = disk s"
  "dirty_blocks (upd_ino ip f s) = dirty_blocks s"
  by (simp_all add: upd_ino_def log_len_def dirty_blocks_def)

lemma view_upd_ino [simp]: "view (upd_ino ip f s) = view s"
  by (rule bio_cong) (simp_all add: upd_ino_def)

lemma fstx_upd_ino [simp]: "fstx c H D k (upd_ino ip f s) = fstx c H D k s"
proof -
  have "bio_ok c H (upd_ino ip f s) = bio_ok c H s" by (rule bio_cong) (simp_all add: upd_ino_def)
  then have "logged c H (upd_ino ip f s) = logged c H s"
    unfolding logged_def by (simp add: upd_ino_def log_len_def dirty_blocks_def)
  then show ?thesis unfolding fstx_def by (simp add: upd_ino_def log_len_def dirty_blocks_def)
qed

end
