(* ===== verification/Fs_Alloc.thy ===== *)
theory Fs_Alloc
  imports Fs_Tx
begin

text \<open>
  The block bitmap of \<^verbatim>\<open>src/xv6/fs.c\<close>: what \<^verbatim>\<open>balloc\<close> and \<^verbatim>\<open>bfree\<close> do to the set of used blocks. The
  contents of the blocks are those that the processes see, \<open>view\<close>.
\<close>

section \<open>Bits\<close>

lemma bm_free_bit: "bm_free b i \<longleftrightarrow> \<not> bit (b (i div 8)) (i mod 8)"
  by (simp add: bm_free_def push_bit_eq_mult and_exp_eq_0_iff_not_bit)

lemma div_mod_8: "i div 8 = j div 8 \<Longrightarrow> i mod 8 = j mod 8 \<Longrightarrow> i = (j :: nat)"
  by (metis div_mult_mod_eq)

lemma bm_free_set: "bm_free (bm_set i b) j \<longleftrightarrow> j \<noteq> i \<and> bm_free b j"
  by (auto simp: bm_free_bit bm_set_def bit_simps dest: div_mod_8)

lemma bm_free_clear: "bm_free (bm_clear i b) j \<longleftrightarrow> j = i \<or> bm_free b j"
  by (auto simp: bm_free_bit bm_clear_def bit_simps dest: div_mod_8)

lemma bm_clear_set: "bm_free b i \<Longrightarrow> bm_clear i (bm_set i b) = b"
proof
  fix k assume f: "bm_free b i"
  show "bm_clear i (bm_set i b) k = b k"
  proof (cases "k = i div 8")
    case True
    then show ?thesis using f by (intro bit_word_eqI) (auto simp: bm_free_bit bm_clear_def bm_set_def bit_simps)
  qed (simp add: bm_clear_def bm_set_def)
qed

definition used :: "superblock \<Rightarrow> (u32 \<Rightarrow> block) \<Rightarrow> u32 \<Rightarrow> bool" where
  "used sb V b \<longleftrightarrow> \<not> bm_free (V (BBLOCK b sb)) (unat b mod BPB)"

definition mark :: "superblock \<Rightarrow> u32 \<Rightarrow> (u32 \<Rightarrow> block) \<Rightarrow> (u32 \<Rightarrow> block)" where
  "mark sb b V = V(BBLOCK b sb := bm_set (unat b mod BPB) (V (BBLOCK b sb)))"

definition unmark :: "superblock \<Rightarrow> u32 \<Rightarrow> (u32 \<Rightarrow> block) \<Rightarrow> (u32 \<Rightarrow> block)" where
  "unmark sb b V = V(BBLOCK b sb := bm_clear (unat b mod BPB) (V (BBLOCK b sb)))"

lemma BPB_eq: "BPB = 4096"
  by (simp add: BPB_def BSIZE_def)

lemma same_bitmap: "BBLOCK b sb = BBLOCK b' sb \<longleftrightarrow> unat b div BPB = unat b' div BPB"
proof -
  have "BBLOCK b sb = BBLOCK b' sb \<longleftrightarrow> b div 4096 = b' div 4096" by (simp add: BBLOCK_def BPB_eq)
  also have "\<dots> \<longleftrightarrow> unat b div 4096 = unat b' div 4096"
    by (simp add: word_unat_eq_iff unat_div_distrib)
  finally show ?thesis by (simp add: BPB_eq)
qed

lemma used_mark [simp]: "used sb (mark sb b V) b' \<longleftrightarrow> b' = b \<or> used sb V b'"
proof (cases "BBLOCK b' sb = BBLOCK b sb")
  case True
  then have d: "unat b' div BPB = unat b div BPB" by (simp add: same_bitmap)
  have "unat b' mod BPB = unat b mod BPB \<longleftrightarrow> b' = b"
    using d by (metis div_mult_mod_eq word_unat_eq_iff)
  then show ?thesis using True by (auto simp: used_def mark_def bm_free_set)
next
  case False
  then show ?thesis by (auto simp: used_def mark_def)
qed

lemma used_unmark [simp]: "used sb (unmark sb b V) b' \<longleftrightarrow> b' \<noteq> b \<and> used sb V b'"
proof (cases "BBLOCK b' sb = BBLOCK b sb")
  case True
  then have d: "unat b' div BPB = unat b div BPB" by (simp add: same_bitmap)
  have "unat b' mod BPB = unat b mod BPB \<longleftrightarrow> b' = b"
    using d by (metis div_mult_mod_eq word_unat_eq_iff)
  then show ?thesis using True by (auto simp: used_def unmark_def bm_free_clear)
next
  case False
  then show ?thesis by (auto simp: used_def unmark_def)
qed

lemma used_other: "n \<notin> {BBLOCK b sb | b. b < sb_size sb} \<Longrightarrow> b < sb_size sb \<Longrightarrow> used sb (V(n := x)) b = used sb V b"
  by (auto simp: used_def)

lemma unmark_mark: "\<not> used sb V b \<Longrightarrow> unmark sb b (mark sb b V) = V"
  by (auto simp: used_def mark_def unmark_def fun_eq_iff bm_clear_set)

section \<open>The layout of the disk\<close>

definition bitmaps :: "superblock \<Rightarrow> u32 set" where
  "bitmaps sb = {BBLOCK b sb | b. b < sb_size sb}"

definition inode_blocks :: "superblock \<Rightarrow> u32 set" where
  "inode_blocks sb = {IBLOCK i sb | i. i < sb_ninodes sb}"

text \<open>The blocks that never belong to a file: the boot block, the super block, the bitmap, the inodes and the log.\<close>

definition meta :: "'a icache_scheme \<Rightarrow> u32 set" where
  "meta s = {0, 1} \<union> bitmaps (fs_sb s) \<union> inode_blocks (fs_sb s) \<union> log_area (l_start s) (log_len s)"

definition fs_ok :: "'a icache_scheme \<Rightarrow> bool" where
  "fs_ok s \<longleftrightarrow>
     sb_size (fs_sb s) \<le> disksize s \<and> unat (sb_size (fs_sb s)) + BPB < 2 ^ 32 \<and>
     (\<forall>n\<in>meta s. n < sb_size (fs_sb s) \<and> used (fs_sb s) (view s) n) \<and>
     1 \<notin> bitmaps (fs_sb s) \<union> inode_blocks (fs_sb s) \<and> 0 \<notin> inode_blocks (fs_sb s) \<and> bitmaps (fs_sb s) \<inter> inode_blocks (fs_sb s) = {} \<and>
     (insert 1 (bitmaps (fs_sb s) \<union> inode_blocks (fs_sb s))) \<inter> log_area (l_start s) (log_len s) = {} \<and>
     decode_sb (view s 1) = fs_sb s"

lemma meta_frame: "tx_frame s s' \<Longrightarrow> meta s' = meta s"
  by (simp add: meta_def tx_frame_icache tx_frame_fields(4,9))

lemma fs_ok_view:
  fixes s s' :: "'a icache_scheme"
  assumes "fs_ok s" and "tx_frame s s'" and "\<And>n. n \<in> meta s \<Longrightarrow> used (fs_sb s) (view s') n" and "view s' 1 = view s 1"
  shows "fs_ok s'"
  using assms(1,3,4)
  unfolding fs_ok_def meta_frame[OF assms(2)] tx_frame_icache[OF assms(2)] tx_frame_fields(3,4,9)[OF assms(2)] by simp

lemma meta_upd_ino [simp]: "meta (upd_ino ip f s) = meta s" and fs_ok_upd_ino [simp]: "fs_ok (upd_ino ip f s) = fs_ok s"
  by (simp_all add: meta_def fs_ok_def)

section \<open>Allocating a block\<close>

definition zeroed :: "u32 \<Rightarrow> (u32 \<Rightarrow> block) \<Rightarrow> (u32 \<Rightarrow> block)" where
  "zeroed b V = V(b := fill 0 BSIZE 0 (V b))"

text \<open>The buffers held by the caller, at most one, are of blocks of files.\<close>

definition file_bufs :: "nat set \<Rightarrow> 'a icache_scheme \<Rightarrow> bool" where
  "file_bufs H s \<longleftrightarrow> card H \<le> 1 \<and>
     (\<forall>i\<in>H. b_blockno (bufs s i) \<notin> meta s \<and> used (fs_sb s) (view s) (b_blockno (bufs s i)))"

lemma bzero_ok:
  fixes s :: "'a log_scheme"
  assumes "fstx c H D k s" and "n \<in> D" and "\<And>i. i \<in> H \<Longrightarrow> b_blockno (bufs s i) \<noteq> n" and "card H \<le> 1"
  obtains s' where "bzero c 1 n s = Ok s'" and "fstx c H D k s'" and "view s' = zeroed n (view s)"
    and "tx_frame s s'" and "keeps H s s'"
proof -
  obtain b s1 s2 s' where "bread c 1 n s = Ok (b, s1)" "log_write b (set_data b (fill 0 BSIZE 0) s1) = Ok s2"
    "brelse c b s2 = Ok s'" "fstx c H D k s'" "view s' = (view s)(n := fill 0 BSIZE 0 (view s n))" "tx_frame s s'" "keeps H s s'"
    by (rule fstx_update[OF assms, where f = "fill 0 BSIZE 0"])
  then show ?thesis by (intro that[of s']) (simp_all add: bzero_def zeroed_def)
qed

text \<open>
  What an allocation does: it finds an unused block, marks it in the bitmap and clears it. The new
  block joins the blocks that the transaction may write.
\<close>

definition allocates :: "nat \<Rightarrow> nat set \<Rightarrow> u32 set \<Rightarrow> nat \<Rightarrow> 'a icache_scheme \<Rightarrow> u32 \<Rightarrow> 'a icache_scheme \<Rightarrow> bool" where
  "allocates c H D k s b s' \<longleftrightarrow>
     b < sb_size (fs_sb s) \<and> \<not> used (fs_sb s) (view s) b \<and>
     view s' = zeroed b (mark (fs_sb s) b (view s)) \<and>
     fstx c H (insert b D) k s' \<and> tx_frame s s' \<and> keeps H s s'"

lemma BBLOCK_bitmap: "b < sb_size sb \<Longrightarrow> BBLOCK b sb \<in> bitmaps sb"
  by (auto simp: bitmaps_def)

lemma fs_ok_meta:
  assumes "fs_ok s" and "n \<in> meta s"
  shows "n < sb_size (fs_sb s)" and "used (fs_sb s) (view s) n" and "n < disksize s"
  using assms by (auto simp: fs_ok_def dest: order.strict_trans2)

lemma unused_not_meta: "fs_ok s \<Longrightarrow> \<not> used (fs_sb s) (view s) b \<Longrightarrow> b \<notin> meta s"
  using fs_ok_meta(2) by blast

lemma metaI: "n \<in> bitmaps (fs_sb s) \<Longrightarrow> n \<in> meta s" "n \<in> inode_blocks (fs_sb s) \<Longrightarrow> n \<in> meta s"
  "n \<in> log_area (l_start s) (log_len s) \<Longrightarrow> n \<in> meta s" "0 \<in> meta s" "1 \<in> meta s"
  by (auto simp: meta_def)

lemma keeps_blockno: "keeps H s s' \<Longrightarrow> i \<in> H \<Longrightarrow> b_blockno (bufs s' i) = b_blockno (bufs s i)"
  by (auto simp: keeps_def bkey_def)

lemma u32_of_nat: "n < 2 ^ 32 \<Longrightarrow> unat (of_nat n :: u32) = n"
  by (simp add: unat_of_nat)

lemma balloc_found:
  fixes s :: "'a icache_scheme"
  assumes t: "fstx c H D (Suc k) s" and ok: "fs_ok s" and D: "bitmaps (fs_sb s) \<subseteq> D" and H: "file_bufs H s"
    and f: "find_first (bm_free (view s (BBLOCK (of_nat (j * BPB)) (fs_sb s)))) (min BPB (unat (sb_size (fs_sb s)) - j * BPB)) = Some bi"
  obtains s' where "balloc_loop c 1 (j # js) s = Ok (of_nat (j * BPB + bi), s')"
    and "allocates c H D k s (of_nat (j * BPB + bi)) s'"
proof -
  let ?sb = "fs_sb s" and ?b = "of_nat (j * BPB + bi) :: u32" and ?n = "BBLOCK (of_nat (j * BPB)) (fs_sb s)"
  have bi: "bi < BPB" "j * BPB + bi < unat (sb_size ?sb)" "bm_free (view s ?n) bi"
    using f by (auto simp: find_first_Some)
  note [simp del] = of_nat_add of_nat_mult
  have small: "j * BPB + bi < 2 ^ 32" "j * BPB < 2 ^ 32" using bi(2) ok by (simp_all add: fs_ok_def)
  then have u: "unat ?b = j * BPB + bi" "unat (of_nat (j * BPB) :: u32) = j * BPB"
    by (simp_all only: u32_of_nat)
  have lt: "?b < sb_size ?sb" using u(1) bi(2) by (simp add: word_less_nat_alt)
  have n: "?n = BBLOCK ?b ?sb" unfolding same_bitmap u using bi(1) by simp
  have nu: "\<not> used ?sb (view s) ?b" unfolding used_def n[symmetric] u using bi(1,3) by simp
  have nm: "?n \<in> bitmaps ?sb" "?b \<notin> meta s" using BBLOCK_bitmap[OF lt] n unused_not_meta[OF ok nu] by simp_all
  have nb: "?b \<noteq> ?n" using nm metaI(1)[of ?n s] by auto
  have h: "b_blockno (bufs s i) \<noteq> ?n" "b_blockno (bufs s i) \<noteq> ?b" if "i \<in> H" for i
    using H that nm metaI(1)[of ?n s] nu by (auto simp: file_bufs_def)
  have h1: "card H \<le> 1" using H by (simp add: file_bufs_def)
  obtain b s1 s2 s3 where 1: "bread c 1 ?n s = Ok (b, s1)" "b_data (bufs s1 b) = view s ?n" "tx_frame s s1"
    "log_write b (set_data b (bm_set bi) s1) = Ok s2" "brelse c b s2 = Ok s3" "fstx c H D (Suc k) s3"
    "view s3 = (view s)(?n := bm_set bi (view s ?n))" "tx_frame s s3" "keeps H s s3"
    by (rule fstx_update[OF t _ h(1) h1, where f = "bm_set bi"]) (use D nm(1) in auto)
  have m: "view s3 = mark ?sb ?b (view s)" unfolding 1(7) mark_def n u using bi(1) by simp
  have "?b < disksize s" using lt ok by (auto simp: fs_ok_def)
  then have ex: "fstx c H (insert ?b D) k s3"
    using fstx_extend[OF 1(6), of ?b] nm(2) metaI(3)[of ?b s] tx_frame_fields(3,4,9)[OF 1(8)] by auto
  have h3: "b_blockno (bufs s3 i) \<noteq> ?b" if "i \<in> H" for i using h(2) keeps_blockno[OF 1(9)] that by simp
  obtain s' where 2: "bzero c 1 ?b s3 = Ok s'" "fstx c H (insert ?b D) k s'" "view s' = zeroed ?b (view s3)"
    "tx_frame s3 s'" "keeps H s3 s'"
    by (rule bzero_ok[OF ex insertI1 h3 h1])
  have "balloc_loop c 1 (j # js) s = Ok (?b, s')"
    using f 1(1,2,4,5) 2(1) by (simp add: tx_frame_icache[OF 1(3)])
  moreover have "allocates c H D k s ?b s'"
    unfolding allocates_def
    using lt nu 2 m tx_frame_trans[OF 1(8) 2(4)] keeps_trans[OF 1(9) 2(5)] by simp
  ultimately show ?thesis by (rule that)
qed

lemma used_index:
  assumes "j * BPB \<le> unat b" and "unat b < Suc j * BPB"
  shows "used sb V b \<longleftrightarrow> \<not> bm_free (V (BBLOCK (of_nat (j * BPB)) sb)) (unat b - j * BPB)"
proof -
  have "j * BPB < 2 ^ 32" using assms(1) u32_bound[of b] by simp
  then have u: "unat (of_nat (j * BPB) :: u32) = j * BPB" by (rule u32_of_nat)
  have q: "unat b div BPB = j" "unat b mod BPB = unat b - j * BPB"
    using assms by (auto simp: div_nat_eqI mult.commute modulo_nat_def)
  have "BBLOCK (of_nat (j * BPB)) sb = BBLOCK b sb" unfolding same_bitmap u q by (simp add: BPB_eq)
  then show ?thesis unfolding used_def q by simp
qed

lemma allocates_frame:
  fixes s t u :: "'a icache_scheme"
  assumes "allocates c H D k t b u" and "tx_frame s t" and "view t = view s" and "keeps H s t"
  shows "allocates c H D k s b u"
  using assms(1) tx_frame_trans[OF assms(2)] keeps_trans[OF assms(4)]
  unfolding allocates_def tx_frame_icache[OF assms(2)] assms(3) by blast

lemma balloc_loop_ok:
  fixes s :: "'a icache_scheme"
  assumes "fstx c H D (Suc k) s" and "fs_ok s" and "bitmaps (fs_sb s) \<subseteq> D" and "file_bufs H s"
    and "\<forall>i. j \<le> i \<and> i < N \<longrightarrow> i * BPB < unat (sb_size (fs_sb s))"
  shows "(\<exists>b s'. balloc_loop c 1 [j..<N] s = Ok (b, s') \<and> allocates c H D k s b s' \<and>
            (\<forall>b'. j * BPB \<le> unat b' \<and> b' < b \<longrightarrow> used (fs_sb s) (view s) b'))
       \<or> (balloc_loop c 1 [j..<N] s = Panic ''balloc: out of blocks'' \<and>
            (\<forall>b'. j * BPB \<le> unat b' \<and> unat b' < N * BPB \<and> b' < sb_size (fs_sb s) \<longrightarrow> used (fs_sb s) (view s) b'))"
  using assms
proof (induction "N - j" arbitrary: j s)
  case 0
  have "N * BPB \<le> j * BPB" using 0(1) by (intro mult_le_mono1) simp
  then have "\<not> (j * BPB \<le> x \<and> x < N * BPB)" for x by linarith
  then show ?case using 0(1) by auto
next
  case (Suc m)
  let ?sb = "fs_sb s" and ?n = "BBLOCK (of_nat (j * BPB)) (fs_sb s)"
  have up: "[j..<N] = j # [Suc j..<N]" using Suc.hyps(2) by (simp add: upt_conv_Cons)
  have jb: "j * BPB < unat (sb_size ?sb)" using Suc.prems(5) Suc.hyps(2) by simp
  show ?case
  proof (cases "find_first (bm_free (view s ?n)) (min BPB (unat (sb_size ?sb) - j * BPB))")
    case (Some bi)
    obtain s' where s': "balloc_loop c 1 (j # [Suc j..<N]) s = Ok (of_nat (j * BPB + bi), s')"
      "allocates c H D k s (of_nat (j * BPB + bi)) s'"
      by (rule balloc_found[OF Suc.prems(1-4) Some])
    have bi: "bi < BPB" "j * BPB + bi < unat (sb_size ?sb)" "\<forall>l<bi. \<not> bm_free (view s ?n) l"
      using Some by (auto simp: find_first_Some)
    have u: "unat (of_nat (j * BPB + bi) :: u32) = j * BPB + bi"
      using bi(2) u32_bound[of "sb_size ?sb"] by (intro u32_of_nat) simp
    have "used ?sb (view s) b'" if "j * BPB \<le> unat b'" "b' < of_nat (j * BPB + bi)" for b'
    proof -
      have lt: "unat b' < j * BPB + bi" using that(2) u by (simp add: word_less_nat_alt)
      then have "unat b' < Suc j * BPB" "unat b' - j * BPB < bi" using bi(1) that(1) by simp_all
      then show ?thesis using used_index[OF that(1)] bi(3) by simp
    qed
    then show ?thesis unfolding up using s' by blast
  next
    case None
    have nm: "?n \<in> bitmaps ?sb"
    proof (rule BBLOCK_bitmap)
      show "of_nat (j * BPB) < sb_size ?sb"
        using jb u32_of_nat[of "j * BPB"] u32_bound[of "sb_size ?sb"] by (simp add: word_less_nat_alt del: of_nat_mult)
    qed
    have h: "b_blockno (bufs s i) \<noteq> ?n" if "i \<in> H" for i
      using Suc.prems(4) that metaI(1)[OF nm] by (auto simp: file_bufs_def)
    have h1: "card H \<le> 1" using Suc.prems(4) by (simp add: file_bufs_def)
    obtain b s1 t where 1: "bread c 1 ?n s = Ok (b, s1)" "b_data (bufs s1 b) = view s ?n" "tx_frame s s1"
      "brelse c b s1 = Ok t" "fstx c H D (Suc k) t" "same_store s t" "keeps H s t"
      by (rule fstx_read[OF Suc.prems(1) fs_ok_meta(3)[OF Suc.prems(2) metaI(1)[OF nm]] h h1])
    note fr = same_store_tx_frame[OF 1(6)]
    have v: "view t = view s" by (rule same_storeD(1)[OF 1(6)])
    note sb = tx_frame_icache(1)[OF fr]
    have ok: "fs_ok t" using fs_ok_view[OF Suc.prems(2) fr] v fs_ok_meta(2)[OF Suc.prems(2)] by simp
    have hb: "file_bufs H t"
      using Suc.prems(4) keeps_blockno[OF 1(7)] unfolding file_bufs_def meta_frame[OF fr] sb v by simp
    have step: "balloc_loop c 1 (j # [Suc j..<N]) s = balloc_loop c 1 [Suc j..<N] t"
      using 1(1,2,4) None by (simp add: tx_frame_icache[OF 1(3)])
    have here: "used ?sb (view s) b'" if "j * BPB \<le> unat b'" "unat b' < Suc j * BPB" "b' < sb_size ?sb" for b'
    proof -
      have "unat b' - j * BPB < min BPB (unat (sb_size ?sb) - j * BPB)" using that by (auto simp: word_less_nat_alt)
      then show ?thesis using None used_index[OF that(1,2)] by (auto simp: find_first_None)
    qed
    have IH: "(\<exists>b s'. balloc_loop c 1 [Suc j..<N] t = Ok (b, s') \<and> allocates c H D k t b s' \<and>
            (\<forall>b'. Suc j * BPB \<le> unat b' \<and> b' < b \<longrightarrow> used (fs_sb t) (view t) b'))
       \<or> (balloc_loop c 1 [Suc j..<N] t = Panic ''balloc: out of blocks'' \<and>
            (\<forall>b'. Suc j * BPB \<le> unat b' \<and> unat b' < N * BPB \<and> b' < sb_size (fs_sb t) \<longrightarrow> used (fs_sb t) (view t) b'))"
    proof (rule Suc.hyps(1))
      show "m = N - Suc j" using Suc.hyps(2) by simp
      show "\<forall>i. Suc j \<le> i \<and> i < N \<longrightarrow> i * BPB < unat (sb_size (fs_sb t))" using Suc.prems(5) sb by simp
    qed (use 1(5) ok hb Suc.prems(3) sb in simp_all)
    then show ?thesis
    proof (elim disjE exE conjE)
      fix b s' assume r: "balloc_loop c 1 [Suc j..<N] t = Ok (b, s')" "allocates c H D k t b s'"
        "\<forall>b'. Suc j * BPB \<le> unat b' \<and> b' < b \<longrightarrow> used (fs_sb t) (view t) b'"
      have al: "allocates c H D k s b s'" by (rule allocates_frame[OF r(2) fr v 1(7)])
      have "used ?sb (view s) b'" if "j * BPB \<le> unat b'" "b' < b" for b'
      proof (cases "unat b' < Suc j * BPB")
        case True
        have "b' < sb_size ?sb" using that(2) al by (auto simp: allocates_def)
        then show ?thesis using here that(1) True by blast
      next
        case False
        then show ?thesis using r(3) that(2) v sb by simp
      qed
      then show ?thesis unfolding up step using r(1) al by blast
    next
      assume r: "balloc_loop c 1 [Suc j..<N] t = Panic ''balloc: out of blocks''"
        "\<forall>b'. Suc j * BPB \<le> unat b' \<and> unat b' < N * BPB \<and> b' < sb_size (fs_sb t) \<longrightarrow> used (fs_sb t) (view t) b'"
      have "used ?sb (view s) b'" if "j * BPB \<le> unat b'" "unat b' < N * BPB" "b' < sb_size ?sb" for b'
        using here[OF that(1) _ that(3)] r(2) that(2,3) v sb by (cases "unat b' < Suc j * BPB") simp_all
      then show ?thesis unfolding up step using r(1) by blast
    qed
  qed
qed

lemma balloc_ok:
  fixes s :: "'a icache_scheme"
  assumes "fstx c H D (Suc k) s" and "fs_ok s" and "bitmaps (fs_sb s) \<subseteq> D" and "file_bufs H s"
  shows "(\<exists>b s'. balloc c 1 s = Ok (b, s') \<and> allocates c H D k s b s' \<and> (\<forall>b'<b. used (fs_sb s) (view s) b'))
       \<or> (balloc c 1 s = Panic ''balloc: out of blocks'' \<and> (\<forall>b' < sb_size (fs_sb s). used (fs_sb s) (view s) b'))"
proof -
  let ?n = "unat (sb_size (fs_sb s))" and ?N = "(unat (sb_size (fs_sb s)) + BPB - 1) div BPB"
  have "i * BPB < ?n" if "i < ?N" for i
  proof -
    have "Suc i \<le> ?N" using that by simp
    then have "Suc i * BPB \<le> ?n + BPB - 1" by (simp add: less_eq_div_iff_mult_less_eq BPB_eq)
    then show ?thesis by (simp add: BPB_eq)
  qed
  moreover have "?n \<le> ?N * BPB"
    using div_mult_mod_eq[of "?n + BPB - 1" BPB] mod_less_divisor[of BPB "?n + BPB - 1"] by (simp add: BPB_eq)
  ultimately show ?thesis
    using balloc_loop_ok[OF assms, of 0 ?N] unfolding balloc_def by (auto simp: word_less_nat_alt)
qed

lemma allocates_facts:
  fixes s s' :: "'a icache_scheme"
  assumes "allocates c H D k s b s'" and "fs_ok s"
  shows "b \<notin> meta s" and "b \<noteq> 0" and "fs_ok s'" and "fs_sb s' = fs_sb s" and "inodes s' = inodes s"
    and "n < sb_size (fs_sb s) \<Longrightarrow> used (fs_sb s) (view s') n \<longleftrightarrow> n = b \<or> used (fs_sb s) (view s) n"
    and "n \<noteq> b \<Longrightarrow> n \<notin> bitmaps (fs_sb s) \<Longrightarrow> view s' n = view s n"
    and "i < BSIZE \<Longrightarrow> view s' b i = 0"
proof -
  let ?sb = "fs_sb s"
  have a: "b < sb_size ?sb" "\<not> used ?sb (view s) b" "view s' = zeroed b (mark ?sb b (view s))" "tx_frame s s'"
    using assms(1) by (simp_all add: allocates_def)
  show nm: "b \<notin> meta s" by (rule unused_not_meta[OF assms(2) a(2)])
  then show "b \<noteq> 0" using metaI(4) by auto
  show "fs_sb s' = ?sb" "inodes s' = inodes s" using tx_frame_icache[OF a(4)] by simp_all
  have nb: "b \<notin> {BBLOCK b ?sb | b. b < sb_size ?sb}" using nm by (auto simp: meta_def bitmaps_def)
  have us: "used ?sb (view s') n \<longleftrightarrow> n = b \<or> used ?sb (view s) n" if "n < sb_size ?sb" for n
    unfolding a(3) zeroed_def using used_other[OF nb that] by simp
  then show "n < sb_size ?sb \<Longrightarrow> used ?sb (view s') n \<longleftrightarrow> n = b \<or> used ?sb (view s) n" .
  show same: "n \<noteq> b \<Longrightarrow> n \<notin> bitmaps ?sb \<Longrightarrow> view s' n = view s n" for n
    using BBLOCK_bitmap[OF a(1)] unfolding a(3) zeroed_def mark_def by auto
  show "i < BSIZE \<Longrightarrow> view s' b i = 0" unfolding a(3) by (simp add: zeroed_def fill_def)
  show "fs_ok s'"
  proof (rule fs_ok_view[OF assms(2) a(4)])
    fix n assume n: "n \<in> meta s"
    then show "used ?sb (view s') n" using us fs_ok_meta[OF assms(2) n] by blast
  next
    have "1 \<noteq> b" "1 \<notin> bitmaps ?sb" using nm metaI(5) assms(2) by (auto simp: fs_ok_def)
    then show "view s' 1 = view s 1" by (rule same)
  qed
qed

section \<open>Releasing a block\<close>

text \<open>The number of free blocks.\<close>

definition nfree :: "'a icache_scheme \<Rightarrow> nat" where
  "nfree s = card {b. b < sb_size (fs_sb s) \<and> \<not> used (fs_sb s) (view s) b}"

lemma nfree_upd_ino [simp]: "nfree (upd_ino ip f s) = nfree s"
  by (simp add: nfree_def)

lemma nfree_cong:
  assumes "fs_sb s' = fs_sb s" and "\<And>n. n < sb_size (fs_sb s) \<Longrightarrow> used (fs_sb s) (view s') n = used (fs_sb s) (view s) n"
  shows "nfree s' = nfree s"
  unfolding nfree_def assms(1) using assms(2) by (intro arg_cong[of _ _ card]) blast

lemma nfree_allocates:
  fixes s s' :: "'a icache_scheme"
  assumes "allocates c H D k s b s'" and "fs_ok s"
  shows "nfree s = Suc (nfree s')"
proof -
  note A = allocates_facts[OF assms]
  have b: "b < sb_size (fs_sb s)" "\<not> used (fs_sb s) (view s) b" using assms(1) by (simp_all add: allocates_def)
  have "{n. n < sb_size (fs_sb s) \<and> \<not> used (fs_sb s) (view s) n} = insert b {n. n < sb_size (fs_sb s) \<and> \<not> used (fs_sb s) (view s') n}"
    using b A(6) by auto
  moreover have "used (fs_sb s) (view s') b" using A(6)[OF b(1)] by simp
  ultimately show ?thesis unfolding nfree_def A(4) by simp
qed

lemma nfree_write:
  assumes "fs_sb s' = fs_sb s" and "view s' = (view s)(n := x)" and "n \<notin> bitmaps (fs_sb s)"
  shows "nfree s' = nfree s"
  using assms by (intro nfree_cong) (auto simp: used_other bitmaps_def)

definition releases :: "nat \<Rightarrow> nat set \<Rightarrow> u32 set \<Rightarrow> nat \<Rightarrow> 'a icache_scheme \<Rightarrow> u32 \<Rightarrow> 'a icache_scheme \<Rightarrow> bool" where
  "releases c H D k s b s' \<longleftrightarrow>
     view s' = unmark (fs_sb s) b (view s) \<and> fstx c H D k s' \<and> tx_frame s s' \<and> keeps H s s'"

lemma bfree_ok:
  fixes s :: "'a icache_scheme"
  assumes t: "fstx c H D k s" and ok: "fs_ok s" and D: "bitmaps (fs_sb s) \<subseteq> D" and H: "file_bufs H s"
    and b: "b < sb_size (fs_sb s)"
  shows "used (fs_sb s) (view s) b \<Longrightarrow> \<exists>s'. bfree c 1 b s = Ok s' \<and> releases c H D k s b s'"
    and "\<not> used (fs_sb s) (view s) b \<Longrightarrow> bfree c 1 b s = Panic ''freeing free block''"
proof -
  let ?sb = "fs_sb s" and ?bi = "unat b mod BPB"
  have h1: "card H \<le> 1" using H by (simp add: file_bufs_def)
  have h: "b_blockno (bufs s i) \<noteq> n" if "i \<in> H" "n \<in> meta s" for i n using H that by (auto simp: file_bufs_def)
  obtain p s1 t where 1: "bread c 1 1 s = Ok (p, s1)" "b_data (bufs s1 p) = view s 1" "tx_frame s s1"
    "brelse c p s1 = Ok t" "fstx c H D k t" "same_store s t" "keeps H s t"
    by (rule fstx_read[OF t fs_ok_meta(3)[OF ok metaI(5)] h[OF _ metaI(5)] h1])
  note fr = same_store_tx_frame[OF 1(6)]
  have v: "view t = view s" by (rule same_storeD(1)[OF 1(6)])
  note sb = tx_frame_icache(1)[OF fr]
  have rs: "readsb c 1 s = Ok (?sb, t)" using 1(1,2,4) ok by (simp add: readsb_def fs_ok_def Let_def)
  have same: "t\<lparr>fs_sb := ?sb\<rparr> = t" using sb by (cases t rule: icache.cases_scheme) simp
  have bf: "bfree c 1 b s = bindR (bread c 1 (BBLOCK b ?sb) t) (\<lambda>(bp, s).
      if bm_free (b_data (bufs s bp)) ?bi then Panic ''freeing free block''
      else bindR (log_write bp (set_data bp (bm_clear ?bi) s)) (brelse c bp))"
    by (simp add: bfree_def rs same Let_def)
  have nm: "BBLOCK b ?sb \<in> bitmaps ?sb" by (rule BBLOCK_bitmap[OF b])
  have ht: "b_blockno (bufs t i) \<noteq> BBLOCK b ?sb" if "i \<in> H" for i
    using h[OF that metaI(1)[OF nm]] keeps_blockno[OF 1(7) that] by simp
  show "\<exists>s'. bfree c 1 b s = Ok s' \<and> releases c H D k s b s'" if u: "used ?sb (view s) b"
  proof -
    obtain p2 s2 s3 s' where 2: "bread c 1 (BBLOCK b ?sb) t = Ok (p2, s2)" "b_data (bufs s2 p2) = view t (BBLOCK b ?sb)"
      "tx_frame t s2" "log_write p2 (set_data p2 (bm_clear ?bi) s2) = Ok s3" "brelse c p2 s3 = Ok s'" "fstx c H D k s'"
      "view s' = (view t)(BBLOCK b ?sb := bm_clear ?bi (view t (BBLOCK b ?sb)))" "tx_frame t s'" "keeps H t s'"
      by (rule fstx_update[OF 1(5) _ ht h1, where f = "bm_clear ?bi"]) (use D nm in auto)
    have "bfree c 1 b s = Ok s'" using 2(1,2,4,5) u v by (simp add: bf used_def)
    moreover have "releases c H D k s b s'"
      unfolding releases_def unmark_def
      using 2(6,7) v tx_frame_trans[OF fr 2(8)] keeps_trans[OF 1(7) 2(9)] by simp
    ultimately show ?thesis by blast
  qed
  show "bfree c 1 b s = Panic ''freeing free block''" if u: "\<not> used ?sb (view s) b"
  proof -
    have "BBLOCK b ?sb < disksize t" using fs_ok_meta(3)[OF ok metaI(1)[OF nm]] tx_frame_fields(3)[OF fr] by simp
    from fstx_bread[OF 1(5) this ht h1] obtain p2 s2 where
      2: "bread c 1 (BBLOCK b ?sb) t = Ok (p2, s2)" "holds_block p2 (BBLOCK b ?sb) (view t (BBLOCK b ?sb)) s2" by blast
    then show ?thesis using u v by (simp add: bf used_def holds_block_def)
  qed
qed

lemma releases_facts:
  fixes s s' :: "'a icache_scheme"
  assumes "releases c H D k s b s'" and "fs_ok s" and "b < sb_size (fs_sb s)" and "b \<notin> meta s"
  shows "fs_ok s'" and "fs_sb s' = fs_sb s" and "inodes s' = inodes s"
    and "used (fs_sb s) (view s') n \<longleftrightarrow> n \<noteq> b \<and> used (fs_sb s) (view s) n"
    and "n \<notin> bitmaps (fs_sb s) \<Longrightarrow> view s' n = view s n"
proof -
  let ?sb = "fs_sb s"
  have a: "view s' = unmark ?sb b (view s)" "tx_frame s s'" using assms(1) by (simp_all add: releases_def)
  show "fs_sb s' = ?sb" "inodes s' = inodes s" using tx_frame_icache[OF a(2)] by simp_all
  show us: "used ?sb (view s') n \<longleftrightarrow> n \<noteq> b \<and> used ?sb (view s) n" for n unfolding a(1) by simp
  show same: "n \<notin> bitmaps ?sb \<Longrightarrow> view s' n = view s n" for n
    using BBLOCK_bitmap[OF assms(3)] unfolding a(1) unmark_def by auto
  show "fs_ok s'"
    using fs_ok_view[OF assms(2) a(2)] us fs_ok_meta[OF assms(2)] assms(2,4) same by (auto simp: fs_ok_def)
qed

end
