(* ===== verification/Fs_Bmap.thy ===== *)
theory Fs_Bmap
  imports Fs_Alloc
begin

text \<open>
  The blocks of a file: \<^verbatim>\<open>bmap\<close> of \<^verbatim>\<open>src/xv6/fs.c\<close>. The pointers of an inode are numbered as
  slots, first the direct ones, then the pointer to the indirect block, then the entries of the indirect
  block.
\<close>

definition NSLOTS :: nat where "NSLOTS = NDIRECT + 1 + NINDIRECT"

definition slot :: "inode \<Rightarrow> (u32 \<Rightarrow> block) \<Rightarrow> nat \<Rightarrow> u32" where
  "slot x V k =
     (if k \<le> NDIRECT then i_addrs x k
      else if i_addrs x NDIRECT = 0 then 0
      else get32 (V (i_addrs x NDIRECT)) (4 * (k - NDIRECT - 1)))"

definition slot_of :: "nat \<Rightarrow> nat" where
  "slot_of bn = (if bn < NDIRECT then bn else bn + 1)"

text \<open>The slots point to distinct used blocks of the data area.\<close>

definition slots_ok :: "'a icache_scheme \<Rightarrow> (nat \<Rightarrow> u32) \<Rightarrow> bool" where
  "slots_ok s \<sigma> \<longleftrightarrow>
     (\<forall>k<NSLOTS. \<sigma> k \<noteq> 0 \<longrightarrow> \<sigma> k < sb_size (fs_sb s) \<and> \<sigma> k \<notin> meta s \<and> used (fs_sb s) (view s) (\<sigma> k)) \<and>
     (\<forall>j<NSLOTS. \<forall>k<NSLOTS. \<sigma> j \<noteq> 0 \<longrightarrow> \<sigma> j = \<sigma> k \<longrightarrow> j = k)"

abbreviation slots :: "'a icache_scheme \<Rightarrow> nat \<Rightarrow> nat \<Rightarrow> u32" where
  "slots s ip \<equiv> slot (inodes s ip) (view s)"

definition file_ok :: "'a icache_scheme \<Rightarrow> nat \<Rightarrow> bool" where
  "file_ok s ip \<longleftrightarrow> i_dev (inodes s ip) = 1 \<and> slots_ok s (slots s ip)"

text \<open>The bytes of a file; a block that is not allocated reads as zero.\<close>

definition fbyte :: "'a icache_scheme \<Rightarrow> nat \<Rightarrow> nat \<Rightarrow> u8" where
  "fbyte s ip i =
     (let a = slots s ip (slot_of (i div BSIZE)) in if a = 0 then 0 else view s a (i mod BSIZE))"

section \<open>Changing an inode and the disk\<close>

text \<open>Only the pointers of the inode \<open>ip\<close> change, apart from buffers and log.\<close>

definition ino_frame :: "nat \<Rightarrow> 'a icache_scheme \<Rightarrow> 'a icache_scheme \<Rightarrow> bool" where
  "ino_frame ip s s' \<longleftrightarrow> (\<exists>A. tx_frame (upd_ino ip (\<lambda>x. x\<lparr>i_addrs := A\<rparr>) s) s')"

lemma tx_frame_upd_ino:
  assumes "tx_frame s s'"
  shows "tx_frame (upd_ino ip f s) (upd_ino ip f s')"
proof -
  have e: "s' = s\<lparr>procs := procs s', queue := queue s', bufs := bufs s', lh_n := lh_n s', lh_block := lh_block s'\<rparr>"
    and st: "static s' = static s" using assms by (simp_all add: tx_frame_def)
  have i: "inodes s' = inodes s" by (rule tx_frame_icache(2)[OF assms])
  have eq: "upd_ino ip f s' = (upd_ino ip f s)\<lparr>procs := procs s', queue := queue s', bufs := bufs s', lh_n := lh_n s', lh_block := lh_block s'\<rparr>"
    unfolding upd_ino_def i by (subst e) simp
  have "static (upd_ino ip f t) = static t" for t :: "'a icache_scheme"
    by (simp add: static_def upd_ino_def fun_eq_iff)
  then have eq2: "static (upd_ino ip f s') = static (upd_ino ip f s)" using st by simp
  have sel: "procs (upd_ino ip f s') = procs s'" "queue (upd_ino ip f s') = queue s'" "bufs (upd_ino ip f s') = bufs s'"
    "lh_n (upd_ino ip f s') = lh_n s'" "lh_block (upd_ino ip f s') = lh_block s'" by (simp_all add: upd_ino_def)
  show ?thesis unfolding tx_frame_def sel by (rule conjI[OF eq eq2])
qed

lemma upd_ino_same: "upd_ino ip (\<lambda>x. x\<lparr>i_addrs := i_addrs (inodes s ip)\<rparr>) s = s"
  by (simp add: upd_ino_def fun_upd_idem)

lemma upd_ino_twice:
  "upd_ino ip (\<lambda>x. x\<lparr>i_addrs := A\<rparr>) (upd_ino ip (\<lambda>x. x\<lparr>i_addrs := B\<rparr>) s) = upd_ino ip (\<lambda>x. x\<lparr>i_addrs := A\<rparr>) s"
  by (simp add: upd_ino_def)

lemma ino_frame_tx: "tx_frame s s' \<Longrightarrow> ino_frame ip s s'"
  unfolding ino_frame_def using upd_ino_same by metis

lemma ino_frame_upd: "ino_frame ip s (upd_ino ip (\<lambda>x. x\<lparr>i_addrs := A\<rparr>) s)"
  unfolding ino_frame_def using tx_frame_refl by metis

lemma ino_frame_trans: "ino_frame ip s t \<Longrightarrow> ino_frame ip t u \<Longrightarrow> ino_frame ip s u"
  unfolding ino_frame_def
proof (elim exE)
  fix A B
  assume a: "tx_frame (upd_ino ip (\<lambda>x. x\<lparr>i_addrs := A\<rparr>) s) t" "tx_frame (upd_ino ip (\<lambda>x. x\<lparr>i_addrs := B\<rparr>) t) u"
  have "tx_frame (upd_ino ip (\<lambda>x. x\<lparr>i_addrs := B\<rparr>) s) (upd_ino ip (\<lambda>x. x\<lparr>i_addrs := B\<rparr>) t)"
    using tx_frame_upd_ino[OF a(1), of ip "\<lambda>x. x\<lparr>i_addrs := B\<rparr>"] by (simp add: upd_ino_twice)
  then show "\<exists>C. tx_frame (upd_ino ip (\<lambda>x. x\<lparr>i_addrs := C\<rparr>) s) u" using tx_frame_trans a(2) by blast
qed

lemma ino_frame_fields:
  fixes s s' :: "'a icache_scheme"
  assumes "ino_frame ip s s'"
  shows "fs_sb s' = fs_sb s" and "meta s' = meta s" and "disksize s' = disksize s" and "l_start s' = l_start s"
    and "log_len s' = log_len s" and "\<exists>A. inodes s' = (inodes s)(ip := (inodes s ip)\<lparr>i_addrs := A\<rparr>)"
    and "icache.more s' = icache.more s"
proof -
  from assms obtain A where a: "tx_frame (upd_ino ip (\<lambda>x. x\<lparr>i_addrs := A\<rparr>) s) s'" by (auto simp: ino_frame_def)
  note F = tx_frame_fields[OF a] and I = tx_frame_icache[OF a]
  show "fs_sb s' = fs_sb s" "disksize s' = disksize s" "l_start s' = l_start s" "log_len s' = log_len s"
    using F(3,4,9) I by simp_all
  show "icache.more s' = icache.more s" using I(3) by (simp add: upd_ino_def)
  show "meta s' = meta s" using meta_frame[OF a] by simp
  show "\<exists>A. inodes s' = (inodes s)(ip := (inodes s ip)\<lparr>i_addrs := A\<rparr>)" unfolding I(2) by (intro exI[of _ A]) simp
qed

lemma ino_frame_inode:
  assumes "ino_frame ip s s'"
  shows "i_dev (inodes s' ip) = i_dev (inodes s ip)" and "i_inum (inodes s' ip) = i_inum (inodes s ip)"
    and "i_size (inodes s' ip) = i_size (inodes s ip)" and "i_type (inodes s' ip) = i_type (inodes s ip)"
    and "i_ref (inodes s' ip) = i_ref (inodes s ip)" and "i_valid (inodes s' ip) = i_valid (inodes s ip)"
    and "jp \<noteq> ip \<Longrightarrow> inodes s' jp = inodes s jp"
  using ino_frame_fields(6)[OF assms] by auto

lemma fs_ok_ino_frame:
  fixes s s' :: "'a icache_scheme"
  assumes "fs_ok s" and "ino_frame ip s s'" and "\<And>n. n \<in> meta s \<Longrightarrow> used (fs_sb s) (view s') n" and "view s' 1 = view s 1"
  shows "fs_ok s'"
proof -
  from assms(2) obtain A where a: "tx_frame (upd_ino ip (\<lambda>x. x\<lparr>i_addrs := A\<rparr>) s) s'" by (auto simp: ino_frame_def)
  show ?thesis by (rule fs_ok_view[OF _ a]) (use assms in simp_all)
qed

section \<open>Growing a file\<close>

text \<open>
  A step that may allocate blocks for the file \<open>ip\<close>: it keeps the bytes of the file and all blocks of
  other files.
\<close>

definition grows :: "nat \<Rightarrow> 'a icache_scheme \<Rightarrow> 'a icache_scheme \<Rightarrow> bool" where
  "grows ip s s' \<longleftrightarrow>
     fs_ok s' \<and> file_ok s' ip \<and> ino_frame ip s s' \<and>
     (\<forall>i<MAXFILE * BSIZE. fbyte s' ip i = fbyte s ip i) \<and>
     (\<forall>j<NSLOTS. slots s ip j \<noteq> 0 \<longrightarrow> slots s' ip j = slots s ip j) \<and>
     (\<forall>n < sb_size (fs_sb s). used (fs_sb s) (view s) n \<longrightarrow> used (fs_sb s) (view s') n) \<and>
     (\<forall>n < sb_size (fs_sb s). used (fs_sb s) (view s) n \<and> n \<noteq> 0 \<and> n \<notin> bitmaps (fs_sb s) \<and> n \<noteq> slots s' ip NDIRECT \<longrightarrow> view s' n = view s n)"

lemma NSLOTS_NDIRECT: "NDIRECT < NSLOTS" and slot_of_less: "bn < MAXFILE \<Longrightarrow> slot_of bn < NSLOTS \<and> slot_of bn \<noteq> NDIRECT"
  by (auto simp: NSLOTS_def MAXFILE_def slot_of_def)

lemma file_okD:
  assumes "file_ok s ip" and "k < NSLOTS" and "slots s ip k \<noteq> 0"
  shows "slots s ip k < sb_size (fs_sb s)" and "slots s ip k \<notin> meta s" and "used (fs_sb s) (view s) (slots s ip k)"
  using assms by (auto simp: file_ok_def slots_ok_def)

lemma file_ok_inj: "file_ok s ip \<Longrightarrow> j < NSLOTS \<Longrightarrow> k < NSLOTS \<Longrightarrow> slots s ip j \<noteq> 0 \<Longrightarrow> slots s ip j = slots s ip k \<Longrightarrow> j = k"
  by (auto simp: file_ok_def slots_ok_def)

lemma grows_refl: "fs_ok s \<Longrightarrow> file_ok s ip \<Longrightarrow> grows ip s s"
  by (simp add: grows_def ino_frame_tx tx_frame_refl)

lemma grows_trans:
  fixes s t u :: "'a icache_scheme"
  assumes "grows ip s t" and "grows ip t u"
  shows "grows ip s u"
proof -
  have fr: "ino_frame ip s t" "ino_frame ip t u" using assms by (simp_all add: grows_def)
  note F = ino_frame_fields[OF fr(1)]
  have 1: "slots u ip j = slots s ip j" if "j < NSLOTS" "slots s ip j \<noteq> 0" for j
    using assms that by (auto simp: grows_def)
  have 2: "used (fs_sb s) (view t) n" "used (fs_sb s) (view u) n" if "n < sb_size (fs_sb s)" "used (fs_sb s) (view s) n" for n
    using assms that F(1) by (auto simp: grows_def)
  have 3: "view u n = view s n"
    if n: "n < sb_size (fs_sb s)" "used (fs_sb s) (view s) n" "n \<noteq> 0" "n \<notin> bitmaps (fs_sb s)" "n \<noteq> slots u ip NDIRECT" for n
  proof -
    have "n \<noteq> slots t ip NDIRECT"
    proof (cases "slots t ip NDIRECT = 0")
      case True
      then show ?thesis using n(3) by simp
    next
      case False
      then show ?thesis using assms(2) n(5) NSLOTS_NDIRECT by (auto simp: grows_def)
    qed
    then have "view t n = view s n" using assms(1) n by (auto simp: grows_def)
    moreover have "view u n = view t n" using assms(2) n 2(1)[OF n(1,2)] F(1) by (auto simp: grows_def)
    ultimately show ?thesis by simp
  qed
  have "\<forall>i<MAXFILE * BSIZE. fbyte u ip i = fbyte s ip i" "fs_ok u" "file_ok u ip" using assms by (auto simp: grows_def)
  then show ?thesis unfolding grows_def using 1 2 3 ino_frame_trans[OF fr] by blast
qed

lemma growsI:
  fixes s s' :: "'a icache_scheme"
  assumes ok: "fs_ok s" "file_ok s ip" and fr: "ino_frame ip s s'"
    and k: "k < NSLOTS" "slots s ip k = 0" and sl: "\<And>j. j < NSLOTS \<Longrightarrow> slots s' ip j = (if j = k then b else slots s ip j)"
    and b: "b < sb_size (fs_sb s)" "b \<notin> meta s" "\<not> used (fs_sb s) (view s) b"
    and us: "\<And>n. n < sb_size (fs_sb s) \<Longrightarrow> used (fs_sb s) (view s') n \<longleftrightarrow> n = b \<or> used (fs_sb s) (view s) n"
    and vw: "\<And>n. n \<noteq> b \<Longrightarrow> n \<notin> bitmaps (fs_sb s) \<Longrightarrow> n \<noteq> slots s' ip NDIRECT \<Longrightarrow> view s' n = view s n"
    and z: "\<And>i. k \<noteq> NDIRECT \<Longrightarrow> i < BSIZE \<Longrightarrow> view s' b i = 0"
  shows "grows ip s s'"
proof -
  note F = ino_frame_fields[OF fr]
  have b0: "b \<noteq> 0" using b(2) metaI(4) by auto
  have ne: "slots s ip j \<noteq> b" if "j < NSLOTS" for j using file_okD(3)[OF ok(2) that] b(3) b0 by metis
  have old: "slots s' ip j = slots s ip j" if "j < NSLOTS" "slots s ip j \<noteq> 0" for j using sl[OF that(1)] k(2) that(2) by auto
  have ind: "slots s' ip NDIRECT \<notin> meta s \<or> slots s' ip NDIRECT = 0"
    using sl[OF NSLOTS_NDIRECT] b(2) file_okD(2)[OF ok(2) NSLOTS_NDIRECT] by (cases "k = NDIRECT") auto
  have v1: "view s' 1 = view s 1"
    by (rule vw) (use b(2) metaI(5)[of s] ok(1) ind in \<open>auto simp: fs_ok_def\<close>)
  have fs': "fs_ok s'"
    by (rule fs_ok_ino_frame[OF ok(1) fr _ v1]) (use us fs_ok_meta[OF ok(1)] in blast)
  have "slots_ok s' (slots s' ip)"
    unfolding slots_ok_def F(1,2)
  proof (intro conjI allI impI)
    fix j assume j: "j < NSLOTS" "slots s' ip j \<noteq> 0"
    have "slots s' ip j < sb_size (fs_sb s) \<and> slots s' ip j \<notin> meta s \<and> used (fs_sb s) (view s') (slots s' ip j)"
    proof (cases "j = k")
      case True
      then show ?thesis using sl[OF j(1)] b us by simp
    next
      case False
      then show ?thesis using sl[OF j(1)] j file_okD[OF ok(2) j(1)] us by simp
    qed
    then show "slots s' ip j < sb_size (fs_sb s)" "slots s' ip j \<notin> meta s" "used (fs_sb s) (view s') (slots s' ip j)" by auto
  next
    fix i j assume ij: "i < NSLOTS" "j < NSLOTS" "slots s' ip i \<noteq> 0" "slots s' ip i = slots s' ip j"
    then show "i = j"
      using sl[OF ij(1)] sl[OF ij(2)] ne[OF ij(1)] ne[OF ij(2)] file_ok_inj[OF ok(2) ij(1,2)] by (auto split: if_splits)
  qed
  moreover have "i_dev (inodes s' ip) = 1" using ok(2) ino_frame_inode(1)[OF fr] by (simp add: file_ok_def)
  ultimately have fo: "file_ok s' ip" by (simp add: file_ok_def)
  have fb: "fbyte s' ip i = fbyte s ip i" if i: "i < MAXFILE * BSIZE" for i
  proof -
    let ?j = "slot_of (i div BSIZE)"
    have j: "?j < NSLOTS" "?j \<noteq> NDIRECT" using i slot_of_less[of "i div BSIZE"] by (auto simp: less_mult_imp_div_less)
    show ?thesis
    proof (cases "?j = k")
      case True
      then show ?thesis using sl[OF j(1)] k(2) z j(2) b0 by (simp add: fbyte_def Let_def BSIZE_def)
    next
      case False
      have "view s' (slots s ip ?j) = view s (slots s ip ?j)" if n: "slots s ip ?j \<noteq> 0"
      proof (rule vw)
        show "slots s ip ?j \<noteq> b" by (rule ne[OF j(1)])
        show "slots s ip ?j \<notin> bitmaps (fs_sb s)" using file_okD(2)[OF ok(2) j(1) n] metaI(1) by blast
        show "slots s ip ?j \<noteq> slots s' ip NDIRECT"
          using sl[OF NSLOTS_NDIRECT] file_ok_inj[OF ok(2) j(1) NSLOTS_NDIRECT n] j(2) ne[OF j(1)] by (auto split: if_splits)
      qed
      then show ?thesis using sl[OF j(1)] False by (simp add: fbyte_def Let_def)
    qed
  qed
  have vs: "view s' n = view s n"
    if "n < sb_size (fs_sb s)" "used (fs_sb s) (view s) n" "n \<notin> bitmaps (fs_sb s)" "n \<noteq> slots s' ip NDIRECT" for n
    using vw[of n] that b(3) by blast
  show ?thesis unfolding grows_def using fs' fo fr fb old us vs by blast
qed

lemma get32_zero: "(\<And>k. i \<le> k \<Longrightarrow> k < i + 4 \<Longrightarrow> b k = 0) \<Longrightarrow> get32 b i = 0"
  by (simp add: get32_def)

lemma entry_fits: "j < NINDIRECT \<Longrightarrow> 4 * j + 4 \<le> BSIZE"
  by (simp add: NINDIRECT_def BSIZE_def)

lemma slots_upd:
  "slots (upd_ino ip (\<lambda>x. x\<lparr>i_addrs := A\<rparr>) s) ip = slot ((inodes s ip)\<lparr>i_addrs := A\<rparr>) (view s)"
  by simp

text \<open>Storing a fresh block in one of the pointers of the inode.\<close>

lemma grows_addr:
  fixes s s1 :: "'a icache_scheme"
  assumes ok: "fs_ok s" "file_ok s ip" and al: "allocates c {} D j s b s1" and k: "k \<le> NDIRECT" "i_addrs (inodes s ip) k = 0"
  defines "s' \<equiv> upd_ino ip (\<lambda>x. x\<lparr>i_addrs := (i_addrs x)(k := b)\<rparr>) s1"
  shows "grows ip s s'" and "slots s' ip k = b" and "fstx c {} (insert b D) j s'"
    and "k \<noteq> NDIRECT \<Longrightarrow> slots s' ip NDIRECT = slots s ip NDIRECT"
proof -
  note A = allocates_facts[OF al ok(1)]
  let ?x = "inodes s ip"
  have s': "s' = upd_ino ip (\<lambda>x. x\<lparr>i_addrs := (i_addrs ?x)(k := b)\<rparr>) s1" by (simp add: s'_def upd_ino_def A(5))
  have tf: "tx_frame s s1" "b < sb_size (fs_sb s)" "\<not> used (fs_sb s) (view s) b" "fstx c {} (insert b D) j s1"
    using al by (simp_all add: allocates_def)
  have fr: "ino_frame ip s s'" unfolding s' by (rule ino_frame_trans[OF ino_frame_tx[OF tf(1)] ino_frame_upd])
  have sl: "slots s' ip i = (if i = k then b else slots s ip i)" if i: "i < NSLOTS" for i
  proof (cases "i \<le> NDIRECT")
    case True
    then show ?thesis unfolding s' slots_upd A(5) by (simp add: slot_def)
  next
    case False
    then have fit: "4 * (i - NDIRECT - 1) + 4 \<le> BSIZE" using i entry_fits[of "i - NDIRECT - 1"] by (simp add: NSLOTS_def)
    show ?thesis
    proof (cases "k = NDIRECT")
      case True
      have "get32 (view s1 b) (4 * (i - NDIRECT - 1)) = 0" using fit by (intro get32_zero A(8)) simp
      then show ?thesis unfolding s' slots_upd A(5) using False True k(2) by (simp add: slot_def)
    next
      case kn: False
      have "view s1 (i_addrs ?x NDIRECT) = view s (i_addrs ?x NDIRECT)" if n: "i_addrs ?x NDIRECT \<noteq> 0"
      proof (rule A(7))
        have n': "slots s ip NDIRECT \<noteq> 0" using n by (simp add: slot_def)
        show "i_addrs ?x NDIRECT \<noteq> b" "i_addrs ?x NDIRECT \<notin> bitmaps (fs_sb s)"
          using file_okD[OF ok(2) NSLOTS_NDIRECT n'] tf(3) metaI(1)[of _ s] by (auto simp: slot_def)
      qed
      then show ?thesis unfolding s' slots_upd A(5) using False kn k(1) by (auto simp: slot_def)
    qed
  qed
  have kN: "k < NSLOTS" "slots s ip k = 0" using k by (simp_all add: NSLOTS_def slot_def)
  show "grows ip s s'"
  proof (rule growsI[OF ok fr kN sl tf(2) A(1) tf(3)])
    show "view s' n = view s n" if "n \<noteq> b" "n \<notin> bitmaps (fs_sb s)" for n using A(7)[OF that] by (simp add: s')
    show "used (fs_sb s) (view s') n = (n = b \<or> used (fs_sb s) (view s) n)" if "n < sb_size (fs_sb s)" for n
      using A(6)[OF that] by (simp add: s')
    show "view s' b i = 0" if "i < BSIZE" for i using A(8)[OF that] by (simp add: s')
  qed
  show "slots s' ip k = b" using sl[OF kN(1)] by simp
  show "fstx c {} (insert b D) j s'" using tf(4) by (simp add: s')
  show "k \<noteq> NDIRECT \<Longrightarrow> slots s' ip NDIRECT = slots s ip NDIRECT" using sl[OF NSLOTS_NDIRECT] by simp
qed

text \<open>Storing a fresh block in an entry of the indirect block.\<close>

lemma grows_entry:
  fixes s s' :: "'a icache_scheme"
  assumes ok: "fs_ok s" "file_ok s ip" and fr: "tx_frame s s'" and ind: "slots s ip NDIRECT = a" "a \<noteq> 0"
    and j: "j < NINDIRECT" "slots s ip (NDIRECT + 1 + j) = 0"
    and b: "b < sb_size (fs_sb s)" "\<not> used (fs_sb s) (view s) b"
    and v: "view s' = (zeroed b (mark (fs_sb s) b (view s)))(a := put32 (4 * j) b (view s a))"
  shows "grows ip s s'" and "slots s' ip (NDIRECT + 1 + j) = b" and "slots s' ip NDIRECT = a"
proof -
  let ?x = "inodes s ip" and ?k = "NDIRECT + 1 + j" and ?sb = "fs_sb s"
  have x: "inodes s' = inodes s" by (rule tx_frame_icache(2)[OF fr])
  have a: "i_addrs ?x NDIRECT = a" using ind by (simp add: slot_def)
  have am: "a \<notin> meta s" "a < sb_size ?sb" "used ?sb (view s) a" using file_okD[OF ok(2) NSLOTS_NDIRECT] ind by auto
  have ab: "a \<noteq> b" "a \<notin> bitmaps ?sb" using am b(2) metaI(1) by auto
  have bm: "b \<notin> meta s" by (rule unused_not_meta[OF ok(1) b(2)])
  have kN: "?k < NSLOTS" using j(1) by (simp add: NSLOTS_def)
  have sl: "slots s' ip i = (if i = ?k then b else slots s ip i)" if "i < NSLOTS" for i
  proof (cases "i \<le> NDIRECT")
    case False
    define i' where "i' = i - NDIRECT - 1"
    have i': "i = NDIRECT + 1 + i'" using False by (simp add: i'_def)
    have "get32 (put32 (4 * j) b (view s a)) (4 * i') = get32 (view s a) (4 * i')" if "i' \<noteq> j"
      using that by (intro get_put_other(4)) linarith
    then show ?thesis unfolding x v i' using a ind(2) by (cases "i' = j") (auto simp: slot_def)
  qed (simp add: x slot_def)
  have us: "used ?sb (view s') n = (n = b \<or> used ?sb (view s) n)" if n: "n < sb_size ?sb" for n
  proof -
    have "used ?sb (view s') n = used ?sb (zeroed b (mark ?sb b (view s))) n"
      unfolding v using ab(2) n by (intro used_other) (auto simp: bitmaps_def)
    also have "\<dots> = used ?sb (mark ?sb b (view s)) n"
      unfolding zeroed_def using bm metaI(1)[of b s] n by (intro used_other) (auto simp: bitmaps_def)
    finally show ?thesis by simp
  qed
  show "slots s' ip ?k = b" "slots s' ip NDIRECT = a" using sl[OF kN] sl[OF NSLOTS_NDIRECT] ind by simp_all
  show "grows ip s s'"
  proof (rule growsI[OF ok ino_frame_tx[OF fr] kN j(2) sl b(1) bm b(2) us])
    show "view s' n = view s n" if "n \<noteq> b" "n \<notin> bitmaps ?sb" "n \<noteq> slots s' ip NDIRECT" for n
      using that BBLOCK_bitmap[OF b(1)] sl[OF NSLOTS_NDIRECT] ind(1) unfolding v zeroed_def mark_def by auto
    show "view s' b i = 0" if "i < BSIZE" for i using that ab(1) by (auto simp: v zeroed_def fill_def)
  qed
qed

section \<open>\<^verbatim>\<open>bmap\<close>\<close>

text \<open>The number of blocks that the pointer to the indirect block may still cost.\<close>

definition need :: "'a icache_scheme \<Rightarrow> nat \<Rightarrow> nat" where
  "need s ip = (if slots s ip NDIRECT = 0 then 1 else 0)"

text \<open>A transaction that may write the bitmap and the indirect block of the file.\<close>

definition filetx :: "nat \<Rightarrow> nat set \<Rightarrow> u32 set \<Rightarrow> nat \<Rightarrow> nat \<Rightarrow> 'a icache_scheme \<Rightarrow> bool" where
  "filetx c H D k ip s \<longleftrightarrow> fstx c H D k s \<and> bitmaps (fs_sb s) \<subseteq> D \<and> (slots s ip NDIRECT \<noteq> 0 \<longrightarrow> slots s ip NDIRECT \<in> D)"

lemma file_bufs_empty [simp]: "file_bufs {} s"
  by (simp add: file_bufs_def)

lemma filetx_extend:
  fixes s :: "'a icache_scheme"
  assumes t: "filetx c H D (Suc k) ip s" and ok: "fs_ok s" "file_ok s ip" and j: "j < NSLOTS" "slots s ip j \<noteq> 0"
  shows "filetx c H (insert (slots s ip j) D) k ip s"
proof -
  have "slots s ip j < disksize s" "slots s ip j \<notin> log_area (l_start s) (log_len s)"
    using file_okD[OF ok(2) j] ok(1) metaI(3)[of _ s] by (auto simp: fs_ok_def)
  then show ?thesis using t fstx_extend[of c H D k s] by (auto simp: filetx_def)
qed

lemma slots_same:
  fixes s t :: "'a icache_scheme"
  assumes "tx_frame s t" and "view t = view s"
  shows "slots t ip = slots s ip" and "fs_ok s \<Longrightarrow> fs_ok t" and "file_ok s ip \<Longrightarrow> file_ok t ip"
    and "fbyte t ip = fbyte s ip" and "need t ip = need s ip"
    and "filetx c H D k ip s \<Longrightarrow> fstx c H' D k t \<Longrightarrow> filetx c H' D k ip t"
proof -
  note I = tx_frame_icache[OF assms(1)]
  show sl: "slots t ip = slots s ip" by (simp add: I assms(2))
  show "fs_ok s \<Longrightarrow> fs_ok t" by (rule fs_ok_view[OF _ assms(1)]) (simp_all add: assms(2) fs_ok_meta)
  show "file_ok s ip \<Longrightarrow> file_ok t ip" unfolding file_ok_def slots_ok_def meta_frame[OF assms(1)] sl by (simp add: I assms(2))
  show "fbyte t ip = fbyte s ip" by (simp add: fbyte_def fun_eq_iff I assms(2) Let_def)
  show "need t ip = need s ip" by (simp add: need_def sl)
  show "filetx c H D k ip s \<Longrightarrow> fstx c H' D k t \<Longrightarrow> filetx c H' D k ip t" by (simp add: filetx_def sl I assms(2))
qed

lemma grows_same:
  fixes s t :: "'a icache_scheme"
  assumes "fs_ok s" and "file_ok s ip" and "tx_frame s t" and "view t = view s"
  shows "grows ip s t"
  using slots_same[OF assms(3,4)] assms ino_frame_tx[OF assms(3)] unfolding grows_def by simp

lemma filetx_addr:
  fixes s :: "'a icache_scheme"
  assumes t: "filetx c {} D (Suc j) ip s" and ok: "fs_ok s" "file_ok s ip" and k: "k \<le> NDIRECT" "i_addrs (inodes s ip) k = 0"
  obtains (alloc) b s1 where "balloc c 1 s = Ok (b, s1)" and "b \<noteq> 0"
      and "grows ip s (upd_ino ip (\<lambda>x. x\<lparr>i_addrs := (i_addrs x)(k := b)\<rparr>) s1)"
      and "slots (upd_ino ip (\<lambda>x. x\<lparr>i_addrs := (i_addrs x)(k := b)\<rparr>) s1) ip k = b"
      and "filetx c {} (insert b D) j ip (upd_ino ip (\<lambda>x. x\<lparr>i_addrs := (i_addrs x)(k := b)\<rparr>) s1)"
      and "k \<noteq> NDIRECT \<Longrightarrow> need (upd_ino ip (\<lambda>x. x\<lparr>i_addrs := (i_addrs x)(k := b)\<rparr>) s1) ip = need s ip"
      and "nfree s = Suc (nfree (upd_ino ip (\<lambda>x. x\<lparr>i_addrs := (i_addrs x)(k := b)\<rparr>) s1))"
  | (full) "balloc c 1 s = Panic ''balloc: out of blocks''" and "nfree s = 0"
proof -
  have "fstx c {} D (Suc j) s" "bitmaps (fs_sb s) \<subseteq> D" using t by (simp_all add: filetx_def)
  from balloc_ok[OF this(1) ok(1) this(2) file_bufs_empty]
  consider (a) b s1 where "balloc c 1 s = Ok (b, s1)" "allocates c {} D j s b s1" | (f) "balloc c 1 s = Panic ''balloc: out of blocks''" "nfree s = 0"
    by (auto simp: nfree_def)
  then show ?thesis
  proof cases
    case a
    let ?s' = "upd_ino ip (\<lambda>x. x\<lparr>i_addrs := (i_addrs x)(k := b)\<rparr>) s1"
    note g = grows_addr[OF ok a(2) k]
    have b0: "b \<noteq> 0" by (rule allocates_facts(2)[OF a(2) ok(1)])
    have sb: "fs_sb ?s' = fs_sb s" using allocates_facts(4)[OF a(2) ok(1)] by simp
    have ind: "slots ?s' ip NDIRECT = (if k = NDIRECT then b else slots s ip NDIRECT)" using g(2,4) by auto
    have ft: "filetx c {} (insert b D) j ip ?s'"
      unfolding filetx_def ind sb using g(3) t by (auto simp: filetx_def)
    show ?thesis by (rule alloc[OF a(1) b0 g(1,2) ft]) (simp only: need_def ind if_False, simp add: nfree_allocates[OF a(2) ok(1)])
  qed (rule full)
qed

text \<open>
  What a successful call of \<^verbatim>\<open>bmap\<close> does: it returns the block of the file, allocated if
  necessary, which the transaction may then write.
\<close>

definition bmaps :: "nat \<Rightarrow> u32 set \<Rightarrow> nat \<Rightarrow> nat \<Rightarrow> nat \<Rightarrow> 'a icache_scheme \<Rightarrow> u32 \<Rightarrow> 'a icache_scheme \<Rightarrow> bool" where
  "bmaps c D k ip bn s a s' \<longleftrightarrow>
     grows ip s s' \<and> slots s' ip (slot_of bn) = a \<and> a \<noteq> 0 \<and> nfree s + need s' ip \<le> nfree s' + Suc (need s ip) \<and>
     (\<exists>D'. insert a D \<subseteq> D' \<and> filetx c {} D' (k + need s' ip) ip s')"

lemma bmap_direct:
  fixes s :: "'a icache_scheme"
  assumes t: "filetx c {} D (Suc (k + need s ip)) ip s" and ok: "fs_ok s" "file_ok s ip" and bn: "bn < NDIRECT"
  shows "(\<exists>a s'. bmap c ip bn s = Ok (a, s') \<and> bmaps c D k ip bn s a s') \<or>
         (bmap c ip bn s = Panic ''balloc: out of blocks'' \<and> nfree s \<le> need s ip)"
proof -
  have dev: "i_dev (inodes s ip) = 1" using ok(2) by (simp add: file_ok_def)
  have so: "slot_of bn = bn" using bn by (simp add: slot_of_def)
  have sl: "slots s ip bn = i_addrs (inodes s ip) bn" using bn by (simp add: slot_def)
  show ?thesis
  proof (cases "i_addrs (inodes s ip) bn = 0")
    case True
    show ?thesis
    proof (rule filetx_addr[OF t ok _ True])
      fix b and s1 :: "'a icache_scheme"
      let ?s' = "upd_ino ip (\<lambda>x. x\<lparr>i_addrs := (i_addrs x)(bn := b)\<rparr>) s1"
      assume r: "balloc c 1 s = Ok (b, s1)" "b \<noteq> 0" "grows ip s ?s'" "slots ?s' ip bn = b"
        "filetx c {} (insert b D) (k + need s ip) ip ?s'" "bn \<noteq> NDIRECT \<Longrightarrow> need ?s' ip = need s ip"
        "nfree s = Suc (nfree ?s')"
      have n: "need ?s' ip = need s ip" using r(6) bn by simp
      have "bmaps c D k ip bn s b ?s'"
        unfolding bmaps_def so n by (intro conjI r(2,3,4) exI[of _ "insert b D"] r(5)) (simp_all add: r(7))
      moreover have "bmap c ip bn s = Ok (b, ?s')" using r(1) bn True dev by (simp add: bmap_def)
      ultimately show ?thesis by blast
    qed (use bn True dev in \<open>simp_all add: bmap_def\<close>)
  next
    case False
    have "filetx c {} (insert (slots s ip bn) D) (k + need s ip) ip s"
      using False bn sl by (intro filetx_extend[OF t ok]) (simp_all add: NSLOTS_def)
    then have "bmaps c D k ip bn s (i_addrs (inodes s ip) bn) s"
      unfolding bmaps_def so using grows_refl[OF ok] False sl by auto
    moreover have "bmap c ip bn s = Ok (i_addrs (inodes s ip) bn, s)" using bn False by (simp add: bmap_def)
    ultimately show ?thesis by blast
  qed
qed

text \<open>The part of \<^verbatim>\<open>bmap\<close> for a block behind the indirect block \<open>a\<close>.\<close>

definition bmap_entry :: "nat \<Rightarrow> nat \<Rightarrow> u32 \<Rightarrow> 'a icache_scheme \<Rightarrow> (u32 \<times> 'a icache_scheme) res" where
  "bmap_entry c bn addr s =
     bindR (bread c 1 addr s) (\<lambda>(bp, s).
       let a = get32 (b_data (bufs s bp)) (4 * bn)
       in if a = 0
          then bindR (balloc c 1 s) (\<lambda>(a, s).
               bindR (log_write bp (set_data bp (put32 (4 * bn) a) s)) (\<lambda>s.
               bindR (brelse c bp s) (\<lambda>s. Ok (a, s))))
          else bindR (brelse c bp s) (\<lambda>s. Ok (a, s)))"

lemma bmap_indirect:
  assumes "i_dev (inodes s ip) = 1" and "\<not> bn < NDIRECT" and "bn < MAXFILE"
  shows "bmap c ip bn s =
    (if i_addrs (inodes s ip) NDIRECT = 0
     then bindR (balloc c 1 s) (\<lambda>(addr, s).
          bmap_entry c (bn - NDIRECT) addr (upd_ino ip (\<lambda>x. x\<lparr>i_addrs := (i_addrs x)(NDIRECT := addr)\<rparr>) s))
     else bmap_entry c (bn - NDIRECT) (i_addrs (inodes s ip) NDIRECT) s)"
proof -
  have "bn - NDIRECT < NINDIRECT" using assms(2,3) by (simp add: MAXFILE_def less_diff_conv2 add.commute)
  then show ?thesis
    unfolding bmap_def bmap_entry_def Let_def assms(1)
    using assms(2) by (cases "balloc c 1 s") (simp_all split: prod.splits)
qed

lemma bmap_entry_ok:
  fixes s :: "'a icache_scheme"
  assumes t: "filetx c {} D (Suc k) ip s" and ok: "fs_ok s" "file_ok s ip" and ind: "slots s ip NDIRECT = a" "a \<noteq> 0"
    and j: "j < NINDIRECT"
  shows "(\<exists>b s'. bmap_entry c j a s = Ok (b, s') \<and> grows ip s s' \<and> slots s' ip (NDIRECT + 1 + j) = b \<and> b \<noteq> 0 \<and>
            need s' ip = 0 \<and> filetx c {} (insert b D) k ip s' \<and> nfree s \<le> Suc (nfree s')) \<or>
         (bmap_entry c j a s = Panic ''balloc: out of blocks'' \<and> nfree s = 0)"
proof -
  let ?sb = "fs_sb s" and ?k = "NDIRECT + 1 + j"
  have kN: "?k < NSLOTS" using j by (simp add: NSLOTS_def)
  have am: "a < sb_size ?sb" "a \<notin> meta s" "used ?sb (view s) a" using file_okD[OF ok(2) NSLOTS_NDIRECT] ind by auto
  have ad: "a < disksize s" using am(1) ok(1) by (auto simp: fs_ok_def)
  have aD: "a \<in> D" using t ind by (simp add: filetx_def)
  have ft: "fstx c {} D (Suc k) s" using t by (simp add: filetx_def)
  have i: "i_addrs (inodes s ip) NDIRECT = a" using ind by (simp add: slot_def)
  have e: "get32 (view s a) (4 * j) = slots s ip ?k" using i ind(2) by (simp add: slot_def)
  from fstx_bread[OF ft ad] obtain p s1 where 1: "bread c 1 a s = Ok (p, s1)" "fstx c {p} D (Suc k) s1"
    "holds_block p a (view s a) s1" "same_store s s1" "a \<in> dirty_blocks s1 \<or> view s a = disk s1 a"
    by auto
  note fr1 = same_store_tx_frame[OF 1(4)] and v1 = same_storeD(1)[OF 1(4)]
  have pd: "b_data (bufs s1 p) = view s a" using 1(3) by (simp add: holds_block_def)
  have ok1: "fs_ok s1" by (rule slots_same(2)[OF fr1 v1 ok(1)])
  have n0: "need u ip = 0" if "slots u ip NDIRECT = a" for u :: "'a icache_scheme" using that ind(2) by (simp add: need_def)
  show ?thesis
  proof (cases "slots s ip ?k = 0")
    case False
    obtain s' where 2: "brelse c p s1 = Ok s'" "fstx c ({p} - {p}) D (Suc k) s'" "same_store s1 s'"
      by (rule fstx_brelse[OF 1(2) insertI1 1(3,5)])
    note fr = same_store_tx_frame[OF same_store_trans[OF 1(4) 2(3)]]
    have v: "view s' = view s" using same_storeD(1)[OF 2(3)] v1 by simp
    note S = slots_same[OF fr v]
    have "filetx c {} D (Suc k) ip s'" using S(6)[OF t, of "{}"] 2(2) by simp
    from filetx_extend[OF this S(2)[OF ok(1)] S(3)[OF ok(2)] kN] have "filetx c {} (insert (slots s ip ?k) D) k ip s'"
      using False S(1) by simp
    moreover have "bmap_entry c j a s = Ok (slots s ip ?k, s')"
      using 1(1) 2(1) pd e False by (simp add: bmap_entry_def)
    moreover have "need s' ip = 0" by (rule n0) (simp only: S(1) ind)
    moreover have "nfree s' = nfree s" using tx_frame_icache(1)[OF fr] v by (simp add: nfree_def)
    ultimately show ?thesis using grows_same[OF ok fr v] S(1) False by auto
  next
    case True
    have fb: "file_bufs {p} s1"
      using 1(3) am meta_frame[OF fr1] v1 tx_frame_icache(1)[OF fr1] by (auto simp: file_bufs_def holds_block_def bkey_def)
    have bD: "bitmaps (fs_sb s1) \<subseteq> D" using t tx_frame_icache(1)[OF fr1] by (simp add: filetx_def)
    have nf1: "nfree s1 = nfree s" using tx_frame_icache(1)[OF fr1] v1 by (simp add: nfree_def)
    from balloc_ok[OF 1(2) ok1 bD fb]
    consider (al) b s2 where "balloc c 1 s1 = Ok (b, s2)" "allocates c {p} D k s1 b s2"
      | (full) "balloc c 1 s1 = Panic ''balloc: out of blocks''" "nfree s1 = 0"
      by (auto simp: nfree_def)
    then show ?thesis
    proof cases
      case al
      have nf: "nfree s1 = Suc (nfree s2)" by (rule nfree_allocates[OF al(2) ok1])
      from al have a2: "b < sb_size ?sb" "\<not> used ?sb (view s) b" "view s2 = zeroed b (mark ?sb b (view s))"
        "fstx c {p} (insert b D) k s2" "tx_frame s1 s2" "keeps {p} s1 s2"
        using v1 tx_frame_icache(1)[OF fr1] by (simp_all add: allocates_def)
      have ab: "a \<noteq> b" using am(3) a2(2) by auto
      have abm: "a \<notin> bitmaps ?sb" using am(2) metaI(1) by blast
      have va: "view s2 a = view s a"
        using ab abm BBLOCK_bitmap[OF a2(1)] unfolding a2(3) zeroed_def mark_def by auto
      have h2: "holds_block p a (view s a) s2" using keeps_holds[OF a2(6)] 1(3) by simp
      obtain s3 where 3: "log_write p (set_data p (put32 (4 * j) b) s2) = Ok s3" "fstx c {p} (insert b D) k s3"
        "view s3 = (view s2)(a := put32 (4 * j) b (view s a))" "holds_block p a (put32 (4 * j) b (view s a)) s3"
        "a \<in> dirty_blocks s3" "tx_frame s2 s3"
        by (rule fstx_log_write[OF a2(4) insertI1 h2, where f = "put32 (4 * j) b"]) (use aD in auto)
      obtain s' where 4: "brelse c p s3 = Ok s'" "fstx c ({p} - {p}) (insert b D) k s'" "same_store s3 s'"
        by (rule fstx_brelse[OF 3(2) insertI1 3(4)]) (use 3(5) in auto)
      have fr: "tx_frame s s'"
        using tx_frame_trans[OF fr1 tx_frame_trans[OF a2(5) tx_frame_trans[OF 3(6) same_store_tx_frame[OF 4(3)]]]] .
      have v: "view s' = (zeroed b (mark ?sb b (view s)))(a := put32 (4 * j) b (view s a))"
        using same_storeD(1)[OF 4(3)] 3(3) a2(3) by simp
      note g = grows_entry[OF ok fr ind j True a2(1,2) v]
      have "filetx c {} (insert b D) k ip s'"
        unfolding filetx_def g(3) tx_frame_icache(1)[OF fr] using 4(2) aD t by (auto simp: filetx_def)
      moreover have "bmap_entry c j a s = Ok (b, s')"
        using 1(1) pd e True al(1) 3(1) 4(1) by (simp add: bmap_entry_def)
      moreover have "b \<noteq> 0" using unused_not_meta[OF ok(1) a2(2)] metaI(4)[of s] by auto
      moreover have "nfree s' = nfree s2"
        using tx_frame_icache(1)[OF fr] tx_frame_icache(1)[OF tx_frame_trans[OF fr1 a2(5)]] abm
        by (intro nfree_write[where n = a]) (simp_all add: v a2(3))
      ultimately show ?thesis using g n0[OF g(3)] nf nf1 by (intro disjI1) auto
    next
      case full
      then show ?thesis using 1(1) pd e True nf1 by (simp add: bmap_entry_def)
    qed
  qed
qed

lemma bmap_ok:
  fixes s :: "'a icache_scheme"
  assumes t: "filetx c {} D (Suc (k + need s ip)) ip s" and ok: "fs_ok s" "file_ok s ip" and bn: "bn < MAXFILE"
  shows "(\<exists>a s'. bmap c ip bn s = Ok (a, s') \<and> bmaps c D k ip bn s a s') \<or>
         (bmap c ip bn s = Panic ''balloc: out of blocks'' \<and> nfree s \<le> need s ip)"
proof (cases "bn < NDIRECT")
  case True
  then show ?thesis by (rule bmap_direct[OF t ok])
next
  case False
  have dev: "i_dev (inodes s ip) = 1" using ok(2) by (simp add: file_ok_def)
  have so: "slot_of bn = NDIRECT + 1 + (bn - NDIRECT)" using False by (simp add: slot_of_def)
  have j: "bn - NDIRECT < NINDIRECT" using False bn by (simp add: MAXFILE_def less_diff_conv2 add.commute)
  have i: "slots s ip NDIRECT = i_addrs (inodes s ip) NDIRECT" by (simp add: slot_def)
  note bm = bmap_indirect[OF dev False bn, of c]
  show ?thesis
  proof (cases "i_addrs (inodes s ip) NDIRECT = 0")
    case True
    have n: "Suc (k + need s ip) = Suc (Suc k)" using True i by (simp add: need_def)
    show ?thesis
    proof (rule filetx_addr[OF t[unfolded n] ok order_refl True])
      fix b and s1 :: "'a icache_scheme"
      let ?s1 = "upd_ino ip (\<lambda>x. x\<lparr>i_addrs := (i_addrs x)(NDIRECT := b)\<rparr>) s1"
      assume r: "balloc c 1 s = Ok (b, s1)" "b \<noteq> 0" "grows ip s ?s1" "slots ?s1 ip NDIRECT = b" "filetx c {} (insert b D) (Suc k) ip ?s1"
        "nfree s = Suc (nfree ?s1)"
      have ok1: "fs_ok ?s1" "file_ok ?s1 ip" using r(3) by (simp_all add: grows_def)
      from bmap_entry_ok[OF r(5) ok1 r(4,2) j] show ?thesis
      proof (elim disjE exE conjE)
        fix a s' assume q: "bmap_entry c (bn - NDIRECT) b ?s1 = Ok (a, s')" "grows ip ?s1 s'" "slots s' ip (NDIRECT + 1 + (bn - NDIRECT)) = a"
          "a \<noteq> 0" "need s' ip = 0" "filetx c {} (insert a (insert b D)) k ip s'" "nfree ?s1 \<le> Suc (nfree s')"
        have "bmaps c D k ip bn s a s'"
          unfolding bmaps_def so q(5)
          by (intro conjI grows_trans[OF r(3) q(2)] q(3,4) exI[of _ "insert a (insert b D)"]) (use q(6,7) r(6) n in auto)
        then show ?thesis using bm True r(1) q(1) by simp
      next
        assume "bmap_entry c (bn - NDIRECT) b ?s1 = Panic ''balloc: out of blocks''" "nfree ?s1 = 0"
        then show ?thesis using bm True r(1,6) n by simp
      qed
    qed (use bm True in simp)
  next
    case False
    have n: "Suc (k + need s ip) = Suc k" using False i by (simp add: need_def)
    from bmap_entry_ok[OF t[unfolded n] ok i False j] show ?thesis
    proof (elim disjE exE conjE)
      fix a s' assume q: "bmap_entry c (bn - NDIRECT) (i_addrs (inodes s ip) NDIRECT) s = Ok (a, s')" "grows ip s s'"
        "slots s' ip (NDIRECT + 1 + (bn - NDIRECT)) = a" "a \<noteq> 0" "need s' ip = 0" "filetx c {} (insert a D) k ip s'" "nfree s \<le> Suc (nfree s')"
      have "bmaps c D k ip bn s a s'"
        unfolding bmaps_def so q(5) by (intro conjI q(2,3,4) exI[of _ "insert a D"]) (use q(6,7) n in auto)
      then show ?thesis using bm False q(1) by simp
    qed (use bm False in simp)
  qed
qed

text \<open>For a block that the file has, \<^verbatim>\<open>bmap\<close> only looks it up.\<close>

lemma bmap_present:
  fixes s :: "'a icache_scheme"
  assumes t: "tx c {} 0 s" and ok: "fs_ok s" "file_ok s ip" and bn: "bn < MAXFILE" "slots s ip (slot_of bn) \<noteq> 0"
  obtains s' where "bmap c ip bn s = Ok (slots s ip (slot_of bn), s')" and "tx c {} 0 s'" and "same_store s s'"
proof (cases "bn < NDIRECT")
  case True
  then have "bmap c ip bn s = Ok (slots s ip (slot_of bn), s)" using bn(2) by (simp add: bmap_def slot_of_def slot_def)
  then show ?thesis using that t same_store_refl by blast
next
  case False
  let ?a = "i_addrs (inodes s ip) NDIRECT"
  have dev: "i_dev (inodes s ip) = 1" using ok(2) by (simp add: file_ok_def)
  have e: "slots s ip (slot_of bn) = get32 (view s ?a) (4 * (bn - NDIRECT))" and a0: "?a \<noteq> 0"
    using bn(2) False by (auto simp: slot_of_def slot_def split: if_splits)
  have "slots s ip NDIRECT \<noteq> 0" using a0 by (simp add: slot_def)
  from file_okD[OF ok(2) NSLOTS_NDIRECT this] have ad: "?a < disksize s" using ok(1) by (auto simp: fs_ok_def slot_def)
  obtain b s1 s' where 1: "bread c 1 ?a s = Ok (b, s1)" "b_data (bufs s1 b) = view s ?a" "brelse c b s1 = Ok s'"
    "tx c {} 0 s'" "same_store s s'"
    using tx_read[OF t ad] by auto
  have "bmap c ip bn s = Ok (slots s ip (slot_of bn), s')"
    using bmap_indirect[OF dev False bn(1), of c] a0 1(1-3) e bn(2) by (simp add: bmap_entry_def)
  then show ?thesis using that 1(4,5) by blast
qed

end
