(* ===== verification/Fs_File.thy ===== *)
theory Fs_File
  imports Fs_Bmap
begin

text \<open>
  Reading and writing files: \<^verbatim>\<open>readi\<close>, \<^verbatim>\<open>writei\<close> and \<^verbatim>\<open>iupdate\<close> of \<^verbatim>\<open>src/xv6/fs.c\<close> on the bytes of a
  file, \<open>fbyte\<close>.
\<close>

declare readi_loop.simps [simp del] writei_loop.simps [simp del]

section \<open>Pieces of blocks\<close>

lemma BSIZE_pos: "0 < BSIZE"
  by (simp add: BSIZE_def)

lemma piece_index:
  assumes "off \<le> i" and "i < off + m" and "m \<le> BSIZE - off mod BSIZE"
  shows "i div BSIZE = off div BSIZE" and "i mod BSIZE = off mod BSIZE + (i - off)"
proof -
  have "off mod BSIZE + (i - off) < BSIZE" using assms mod_less_divisor[OF BSIZE_pos, of off] by linarith
  moreover have "i = off div BSIZE * BSIZE + (off mod BSIZE + (i - off))" using assms(1) by simp
  ultimately show "i div BSIZE = off div BSIZE" "i mod BSIZE = off mod BSIZE + (i - off)"
    by (metis div_mult_self3 BSIZE_pos add.right_neutral div_less less_not_refl2, metis mod_less mod_mult_self3)
qed

text \<open>The number of blocks that a range of bytes touches.\<close>

definition touched :: "nat \<Rightarrow> nat \<Rightarrow> nat" where
  "touched off n = (if n = 0 then 0 else (off + n - 1) div BSIZE - off div BSIZE + 1)"

lemma touched_step:
  assumes "0 < n" and "m = min n (BSIZE - off mod BSIZE)"
  shows "touched off n = Suc (touched (off + m) (n - m))"
proof (cases "n \<le> BSIZE - off mod BSIZE")
  case True
  then have "(off + n - 1) div BSIZE = off div BSIZE"
    using assms(1) by (intro piece_index(1)[of off _ n]) auto
  then show ?thesis using True assms by (simp add: touched_def)
next
  case False
  then have m: "m = BSIZE - off mod BSIZE" "m < n" using assms(2) by auto
  have "off + m = (off div BSIZE + 1) * BSIZE"
    using m(1) mod_less_divisor[OF BSIZE_pos, of off] div_mult_mod_eq[of off BSIZE]
    by (simp only: add_mult_distrib mult_1)
  then have d: "(off + m) div BSIZE = off div BSIZE + 1" using BSIZE_pos by simp
  have "(off + m) div BSIZE \<le> (off + n - 1) div BSIZE" using m(2) by (intro div_le_mono) simp
  then show ?thesis using m(2) assms(1) d by (simp add: touched_def)
qed

section \<open>Reading\<close>

definition present :: "'a icache_scheme \<Rightarrow> nat \<Rightarrow> nat \<Rightarrow> nat \<Rightarrow> bool" where
  "present s ip off n \<longleftrightarrow> off + n \<le> MAXFILE * BSIZE \<and>
     (\<forall>i. off \<le> i \<and> i < off + n \<longrightarrow> slots s ip (slot_of (i div BSIZE)) \<noteq> 0)"

lemma same_store_slots:
  fixes s t :: "'a icache_scheme"
  assumes "same_store s t"
  shows "slots t ip = slots s ip" and "fs_ok s \<Longrightarrow> fs_ok t" and "file_ok s ip \<Longrightarrow> file_ok t ip"
    and "fbyte t ip = fbyte s ip" and "present t ip off n = present s ip off n" and "inodes t = inodes s"
proof -
  note S = slots_same[OF same_store_tx_frame[OF assms] same_storeD(1)[OF assms]]
  show sl: "slots t ip = slots s ip" by (rule S(1))
  show "present t ip off n = present s ip off n" unfolding present_def sl ..
  show "inodes t = inodes s" by (rule tx_frame_icache(2)[OF same_store_tx_frame[OF assms]])
  show "fs_ok s \<Longrightarrow> fs_ok t" "file_ok s ip \<Longrightarrow> file_ok t ip" "fbyte t ip = fbyte s ip" by (fact S)+
qed

lemma bytes_of_piece:
  fixes s :: "'a icache_scheme"
  assumes "m \<le> BSIZE - off mod BSIZE" and "slots s ip (slot_of (off div BSIZE)) = a" and "a \<noteq> 0"
  shows "bytes_of (view s a) (off mod BSIZE) m = map (fbyte s ip) [off..<off + m]"
proof (rule nth_equalityI)
  fix k assume "k < length (bytes_of (view s a) (off mod BSIZE) m)"
  then have k: "k < m" by simp
  then have "(off + k) div BSIZE = off div BSIZE" "(off + k) mod BSIZE = off mod BSIZE + k"
    using piece_index[of off "off + k" m] assms(1) by auto
  then show "bytes_of (view s a) (off mod BSIZE) m ! k = map (fbyte s ip) [off..<off + m] ! k"
    using k assms(2,3) by (simp add: fbyte_def)
qed simp

lemma readi_loop_ok:
  fixes s :: "'a icache_scheme"
  assumes "tx c {} 0 s" and "fs_ok s" and "file_ok s ip" and "present s ip off n"
  shows "\<exists>s'. readi_loop c ip off n s = Ok (map (fbyte s ip) [off..<off + n], s') \<and> tx c {} 0 s' \<and> same_store s s'"
  using assms
proof (induction n arbitrary: off s rule: less_induct)
  case (less n)
  show ?case
  proof (cases "n = 0")
    case True
    then show ?thesis using less.prems(1) same_store_refl by (auto simp: readi_loop.simps)
  next
    case False
    define m where "m = min n (BSIZE - off mod BSIZE)"
    let ?bn = "off div BSIZE" and ?a = "slots s ip (slot_of (off div BSIZE))"
    have m: "0 < m" "m \<le> n" "m \<le> BSIZE - off mod BSIZE"
      using False mod_less_divisor[OF BSIZE_pos, of off] by (auto simp: m_def)
    have off: "off < MAXFILE * BSIZE" and a0: "?a \<noteq> 0" using less.prems(4) False by (auto simp: present_def)
    have bn: "?bn < MAXFILE" using off by (simp add: less_mult_imp_div_less)
    obtain s1 where s1: "bmap c ip ?bn s = Ok (?a, s1)" "tx c {} 0 s1" "same_store s s1"
      by (rule bmap_present[OF less.prems(1-3) bn a0])
    note S1 = same_store_slots[OF s1(3)]
    have dev: "i_dev (inodes s1 ip) = 1" using less.prems(3) S1(6) by (simp add: file_ok_def)
    have "?a < disksize s1"
      using file_okD(1)[OF less.prems(3) _ a0] slot_of_less[OF bn] less.prems(2) same_storeD(6)[OF s1(3)]
      by (auto simp: fs_ok_def)
    from tx_read[OF s1(2) this] obtain b s2 s3 where 2: "bread c 1 ?a s1 = Ok (b, s2)" "b_data (bufs s2 b) = view s1 ?a"
      "brelse c b s2 = Ok s3" "tx c {} 0 s3" "same_store s1 s3" by auto
    have ss: "same_store s s3" by (rule same_store_trans[OF s1(3) 2(5)])
    note S3 = same_store_slots[OF ss]
    have pr: "present s3 ip (off + m) (n - m)" using less.prems(4) m(2) S3(1) by (auto simp: present_def)
    obtain s' where 3: "readi_loop c ip (off + m) (n - m) s3 = Ok (map (fbyte s3 ip) [off + m..<off + m + (n - m)], s')"
      "tx c {} 0 s'" "same_store s3 s'"
      using less.IH[OF _ 2(4) S3(2)[OF less.prems(2)] S3(3)[OF less.prems(3)] pr] m(1,2) by auto
    have "map (fbyte s ip) [off..<off + m] @ map (fbyte s ip) [off + m..<off + n] = map (fbyte s ip) [off..<off + n]"
      using m(2) upt_add_eq_append[of off "off + m" "n - m"] by (simp flip: map_append)
    then have "readi_loop c ip off n s = Ok (map (fbyte s ip) [off..<off + n], s')"
      using s1(1) 2(1-3) 3(1) False dev same_storeD(1)[OF s1(3)] bytes_of_piece[OF m(3) refl a0] S3(4) m(2)
      by (subst readi_loop.simps) (simp add: m_def[symmetric] Let_def)
    then show ?thesis using 3(2) same_store_trans[OF ss 3(3)] by blast
  qed
qed

text \<open>Within its size a file has all its blocks.\<close>

definition full :: "'a icache_scheme \<Rightarrow> nat \<Rightarrow> bool" where
  "full s ip \<longleftrightarrow> present s ip 0 (unat (i_size (inodes s ip)))"

lemma full_present: "full s ip \<Longrightarrow> off + n \<le> unat (i_size (inodes s ip)) \<Longrightarrow> present s ip off n"
  by (auto simp: full_def present_def)

section \<open>Writing\<close>

text \<open>
  The effect of writing the bytes \<open>xs\<close> at \<open>off\<close>: these bytes of the file and no others change, the
  blocks they are in are allocated, and no block of another file changes.
\<close>

definition writes :: "nat \<Rightarrow> nat \<Rightarrow> u8 list \<Rightarrow> 'a icache_scheme \<Rightarrow> 'a icache_scheme \<Rightarrow> bool" where
  "writes ip off xs s s' \<longleftrightarrow>
     fs_ok s' \<and> file_ok s' ip \<and> ino_frame ip s s' \<and>
     (\<forall>i<MAXFILE * BSIZE. fbyte s' ip i = (if off \<le> i \<and> i < off + length xs then xs ! (i - off) else fbyte s ip i)) \<and>
     (\<forall>j<NSLOTS. slots s ip j \<noteq> 0 \<longrightarrow> slots s' ip j = slots s ip j) \<and>
     (\<forall>i. off \<le> i \<and> i < off + length xs \<longrightarrow> i < MAXFILE * BSIZE \<and> slots s' ip (slot_of (i div BSIZE)) \<noteq> 0) \<and>
     (\<forall>n < sb_size (fs_sb s). used (fs_sb s) (view s) n \<longrightarrow> used (fs_sb s) (view s') n) \<and>
     (\<forall>n < sb_size (fs_sb s). used (fs_sb s) (view s) n \<and> n \<noteq> 0 \<and> n \<notin> bitmaps (fs_sb s) \<and> (\<forall>j<NSLOTS. slots s' ip j \<noteq> n) \<longrightarrow> view s' n = view s n)"

lemma grows_writes: "grows ip s s' \<Longrightarrow> writes ip off [] s s'"
  using NSLOTS_NDIRECT unfolding grows_def writes_def by auto

lemma writes_trans:
  fixes s t u :: "'a icache_scheme"
  assumes st: "writes ip off xs s t" and tu: "writes ip (off + length xs) ys t u"
  shows "writes ip off (xs @ ys) s u"
proof -
  have fr: "ino_frame ip s t" "ino_frame ip t u" using assms by (simp_all add: writes_def)
  note F = ino_frame_fields[OF fr(1)]
  have sl: "slots u ip j = slots t ip j" if "j < NSLOTS" "slots t ip j \<noteq> 0" for j using tu that by (simp add: writes_def)
  have us: "used (fs_sb s) (view t) n" if "n < sb_size (fs_sb s)" "used (fs_sb s) (view s) n" for n
    using st that by (simp add: writes_def)
  have 1: "\<forall>i<MAXFILE * BSIZE. fbyte u ip i = (if off \<le> i \<and> i < off + length (xs @ ys) then (xs @ ys) ! (i - off) else fbyte s ip i)"
    using st tu by (auto simp: writes_def nth_append)
  have 2: "i < MAXFILE * BSIZE \<and> slots u ip (slot_of (i div BSIZE)) \<noteq> 0" if i: "off \<le> i" "i < off + length (xs @ ys)" for i
  proof (cases "i < off + length xs")
    case True
    then have b: "i < MAXFILE * BSIZE" "slots t ip (slot_of (i div BSIZE)) \<noteq> 0" using st i(1) by (simp_all add: writes_def)
    then have "slot_of (i div BSIZE) < NSLOTS" using slot_of_less less_mult_imp_div_less by blast
    then show ?thesis using b sl by simp
  next
    case False
    then show ?thesis using tu i by (simp add: writes_def)
  qed
  have 3: "view u n = view s n"
    if n: "n < sb_size (fs_sb s)" "used (fs_sb s) (view s) n" "n \<noteq> 0" "n \<notin> bitmaps (fs_sb s)" "\<forall>j<NSLOTS. slots u ip j \<noteq> n" for n
  proof -
    have "slots t ip j \<noteq> n" if "j < NSLOTS" for j
      using n(3,5) that sl[OF that] by (cases "slots t ip j = 0") auto
    then have "view t n = view s n" using st n by (simp add: writes_def)
    moreover have "view u n = view t n" using tu n us[OF n(1,2)] F(1) by (simp add: writes_def)
    ultimately show ?thesis by simp
  qed
  have 4: "\<forall>j<NSLOTS. slots s ip j \<noteq> 0 \<longrightarrow> slots u ip j = slots s ip j" using st sl by (auto simp: writes_def)
  have 5: "\<forall>n < sb_size (fs_sb s). used (fs_sb s) (view s) n \<longrightarrow> used (fs_sb s) (view u) n"
    using us tu F(1) by (auto simp: writes_def)
  show ?thesis unfolding writes_def using 1 2 3 4 5 ino_frame_trans[OF fr] tu by (simp add: writes_def)
qed

text \<open>Writing one piece into a block of the file.\<close>

lemma writes_piece:
  fixes s s' :: "'a icache_scheme"
  assumes ok: "fs_ok s" "file_ok s ip" and fr: "tx_frame s s'" and bn: "off div BSIZE < MAXFILE"
    and a: "slots s ip (slot_of (off div BSIZE)) = a" "a \<noteq> 0" and m: "length xs \<le> BSIZE - off mod BSIZE"
    and v: "view s' = (view s)(a := blit (off mod BSIZE) (of_bytes (xs @ ys)) 0 (length xs) (view s a))"
  shows "writes ip off xs s s'"
proof -
  let ?j = "slot_of (off div BSIZE)"
  have j: "?j < NSLOTS" "?j \<noteq> NDIRECT" using slot_of_less[OF bn] by auto
  have am: "a < sb_size (fs_sb s)" "a \<notin> meta s" "used (fs_sb s) (view s) a" using file_okD[OF ok(2) j(1)] a by auto
  have x: "inodes s' = inodes s" "fs_sb s' = fs_sb s" by (rule tx_frame_icache[OF fr])+
  have ne: "i_addrs (inodes s ip) NDIRECT \<noteq> a"
    using file_ok_inj[OF ok(2) j(1) NSLOTS_NDIRECT] a j(2) by (auto simp: slot_def)
  have sl: "slots s' ip = slots s ip" using ne unfolding x v by (auto simp: slot_def fun_eq_iff)
  have us: "used (fs_sb s) (view s') n = used (fs_sb s) (view s) n" if "n < sb_size (fs_sb s)" for n
    unfolding v using am(2) metaI(1)[of a s] that by (intro used_other) (auto simp: bitmaps_def)
  have "a \<noteq> 1" using am(2) metaI(5)[of s] by auto
  then have fs': "fs_ok s'"
    using fs_ok_view[OF ok(1) fr] us fs_ok_meta[OF ok(1)] by (simp add: v)
  have fo: "file_ok s' ip"
    using ok(2) us unfolding file_ok_def slots_ok_def sl[unfolded x] meta_frame[OF fr] x by simp
  have fb: "fbyte s' ip i = (if off \<le> i \<and> i < off + length xs then xs ! (i - off) else fbyte s ip i)" if i: "i < MAXFILE * BSIZE" for i
  proof (cases "i div BSIZE = off div BSIZE")
    case True
    then have q: "i = off div BSIZE * BSIZE + i mod BSIZE" "off = off div BSIZE * BSIZE + off mod BSIZE"
      using div_mult_mod_eq[of i BSIZE] by simp_all
    have r: "off mod BSIZE \<le> i mod BSIZE \<and> i mod BSIZE < off mod BSIZE + length xs \<longleftrightarrow> off \<le> i \<and> i < off + length xs"
      using q by (intro iffI conjI) linarith+
    have e: "i mod BSIZE - off mod BSIZE = i - off"
      using q by linarith
    have "fbyte s' ip i = blit (off mod BSIZE) (of_bytes (xs @ ys)) 0 (length xs) (view s a) (i mod BSIZE)"
      unfolding fbyte_def sl True a(1) using a(2) by (simp add: v)
    also have "\<dots> = (if off \<le> i \<and> i < off + length xs then xs ! (i - off) else view s a (i mod BSIZE))"
      unfolding blit_def r e by (auto simp: of_bytes_def nth_append)
    finally show ?thesis using a True by (simp add: fbyte_def)
  next
    case False
    have k: "slot_of (i div BSIZE) < NSLOTS" using i slot_of_less less_mult_imp_div_less by blast
    have "slot_of (i div BSIZE) \<noteq> ?j" using False by (auto simp: slot_of_def split: if_splits)
    then have "slots s ip (slot_of (i div BSIZE)) \<noteq> 0 \<Longrightarrow> slots s ip (slot_of (i div BSIZE)) \<noteq> a"
      using file_ok_inj[OF ok(2) k j(1)] a by auto
    then have "fbyte s' ip i = fbyte s ip i" unfolding fbyte_def sl Let_def by (auto simp: v)
    moreover have "\<not> (off \<le> i \<and> i < off + length xs)" using False piece_index(1)[of off i "length xs"] m by blast
    ultimately show ?thesis by (simp only: if_False)
  qed
  have pr: "i < MAXFILE * BSIZE \<and> slots s' ip (slot_of (i div BSIZE)) \<noteq> 0" if i: "off \<le> i" "i < off + length xs" for i
  proof -
    have d: "i div BSIZE = off div BSIZE" using piece_index(1)[OF i m] .
    then have "i < MAXFILE * BSIZE" using bn by (metis BSIZE_pos div_less_iff_less_mult)
    then show ?thesis using sl a d by simp
  qed
  have vs: "view s' n = view s n" if "\<forall>k<NSLOTS. slots s' ip k \<noteq> n" for n
    using that j(1) a(1) sl by (auto simp: v)
  show ?thesis
    unfolding writes_def using fs' fo ino_frame_tx[OF fr] fb sl pr us vs by simp
qed

lemma writei_loop_step:
  fixes s :: "'a icache_scheme"
  assumes t: "filetx c {} D (Suc (k + need s ip)) ip s" and ok: "fs_ok s" "file_ok s ip"
    and src: "src \<noteq> []" and m: "m = min (length src) (BSIZE - off mod BSIZE)" and bound: "off < MAXFILE * BSIZE"
  shows "(\<exists>s' D'. writei_loop c ip src off s = writei_loop c ip (drop m src) (off + m) s' \<and> writes ip off (take m src) s s' \<and>
            D \<subseteq> D' \<and> filetx c {} D' (k + need s' ip) ip s' \<and> nfree s + need s' ip \<le> nfree s' + Suc (need s ip)) \<or>
         (writei_loop c ip src off s = Panic ''balloc: out of blocks'' \<and> nfree s \<le> need s ip)"
proof -
  let ?bn = "off div BSIZE"
  have bn: "?bn < MAXFILE" using bound by (simp add: less_mult_imp_div_less)
  from bmap_ok[OF t ok bn] show ?thesis
  proof (elim disjE exE conjE)
    assume "bmap c ip ?bn s = Panic ''balloc: out of blocks''" "nfree s \<le> need s ip"
    then show ?thesis using src by (subst (2) writei_loop.simps) (simp add: Let_def)
  next
    fix a and s1 :: "'a icache_scheme"
    assume b: "bmap c ip ?bn s = Ok (a, s1)" "bmaps c D k ip ?bn s a s1"
    then obtain D' where g: "grows ip s s1" "slots s1 ip (slot_of ?bn) = a" "a \<noteq> 0" and D': "insert a D \<subseteq> D'"
      and ft: "filetx c {} D' (k + need s1 ip) ip s1" and nf: "nfree s + need s1 ip \<le> nfree s1 + Suc (need s ip)" by (auto simp: bmaps_def)
    have ok1: "fs_ok s1" "file_ok s1 ip" using g(1) by (simp_all add: grows_def)
    then have dev: "i_dev (inodes s1 ip) = 1" by (simp add: file_ok_def)
    let ?f = "blit (off mod BSIZE) (of_bytes src) 0 m"
    obtain b s2 s3 s4 where u: "bread c 1 a s1 = Ok (b, s2)" "log_write b (set_data b ?f s2) = Ok s3" "brelse c b s3 = Ok s4"
      and f4: "fstx c {} D' (k + need s1 ip) s4" and v4: "view s4 = (view s1)(a := ?f (view s1 a))" and fr: "tx_frame s1 s4"
      by (rule fstx_update[where H = "{}" and n = a and s = s1 and f = ?f]) (use ft D' in \<open>auto simp: filetx_def\<close>)
    have w: "writes ip off (take m src) s1 s4"
      by (rule writes_piece[OF ok1 fr bn g(2,3), where ys = "drop m src"]) (use v4 m in simp_all)
    have "slots s4 ip NDIRECT = slots s1 ip NDIRECT" "fs_sb s4 = fs_sb s1"
      using tx_frame_icache[OF fr] by (simp_all add: slot_def)
    then have ft4: "filetx c {} D' (k + need s4 ip) ip s4" "need s4 ip = need s1 ip" using ft f4 by (simp_all add: filetx_def need_def)
    have "a \<notin> bitmaps (fs_sb s1)" using file_okD(2)[OF ok1(2), of "slot_of ?bn"] slot_of_less[OF bn] g(2,3) metaI(1)[of a s1] by auto
    then have nf4: "nfree s4 = nfree s1" using tx_frame_icache(1)[OF fr] v4 by (intro nfree_write)
    have "writei_loop c ip src off s = writei_loop c ip (drop m src) (off + m) s4"
      using src b(1) dev u by (subst writei_loop.simps) (simp add: Let_def m[symmetric])
    moreover have "writes ip off (take m src) s s4" using writes_trans[OF grows_writes[OF g(1)]] w by fastforce
    ultimately show ?thesis using ft4 D' nf nf4 by (intro disjI1 exI[of _ s4] exI[of _ D']) auto
  qed
qed

lemma writei_loop_ok:
  fixes s :: "'a icache_scheme"
  assumes "filetx c {} D (touched off (length src) + need s ip) ip s" and "fs_ok s" and "file_ok s ip"
    and "off + length src \<le> MAXFILE * BSIZE"
  shows "(\<exists>s' D'. writei_loop c ip src off s = Ok s' \<and> writes ip off src s s' \<and> D \<subseteq> D' \<and> filetx c {} D' (need s' ip) ip s' \<and>
            nfree s + need s' ip \<le> nfree s' + touched off (length src) + need s ip) \<or>
         (writei_loop c ip src off s = Panic ''balloc: out of blocks'' \<and> nfree s < touched off (length src) + need s ip)"
  using assms
proof (induction "length src" arbitrary: src off s D rule: less_induct)
  case less
  show ?case
  proof (cases "src = []")
    case True
    then show ?thesis using less.prems grows_writes[OF grows_refl[OF less.prems(2,3)]]
      by (subst (1 2) writei_loop.simps) (auto simp: touched_def)
  next
    case False
    define m where "m = min (length src) (BSIZE - off mod BSIZE)"
    have l: "0 < length src" using False by simp
    have m: "0 < m" "m \<le> length src" using False mod_less_divisor[OF BSIZE_pos, of off] by (auto simp: m_def)
    let ?k = "touched (off + m) (length src - m)"
    have t: "filetx c {} D (Suc (?k + need s ip)) ip s" using less.prems(1) touched_step[OF l m_def] by simp
    have "off < MAXFILE * BSIZE" using less.prems(4) l by linarith
    from writei_loop_step[OF t less.prems(2,3) False m_def this] show ?thesis
    proof (elim disjE exE conjE)
      fix s1 D1
      assume s1: "writei_loop c ip src off s = writei_loop c ip (drop m src) (off + m) s1" "writes ip off (take m src) s s1"
        "D \<subseteq> D1" "filetx c {} D1 (?k + need s1 ip) ip s1" "nfree s + need s1 ip \<le> nfree s1 + Suc (need s ip)"
      have "(\<exists>s' D'. writei_loop c ip (drop m src) (off + m) s1 = Ok s' \<and> writes ip (off + m) (drop m src) s1 s' \<and> D1 \<subseteq> D' \<and>
               filetx c {} D' (need s' ip) ip s' \<and> nfree s1 + need s' ip \<le> nfree s' + touched (off + m) (length (drop m src)) + need s1 ip) \<or>
             (writei_loop c ip (drop m src) (off + m) s1 = Panic ''balloc: out of blocks'' \<and> nfree s1 < touched (off + m) (length (drop m src)) + need s1 ip)"
        using s1(2,4) less.prems(4) m by (intro less.hyps) (simp_all add: writes_def)
      moreover have "writes ip off src s s'" if "writes ip (off + m) (drop m src) s1 s'" for s'
        using writes_trans[OF s1(2), of "drop m src" s'] that m(2) by (simp add: min_absorb2)
      moreover have "touched off (length src) = Suc (touched (off + m) (length (drop m src)))" using touched_step[OF l m_def] by simp
      ultimately show ?thesis unfolding s1(1) using s1(3,5) by (elim disjE exE conjE) (intro disjI1 exI conjI, auto)
    qed (use touched_step[OF l m_def] in simp)
  qed
qed

end
