(* ===== verification/Fs_Rw.thy ===== *)
theory Fs_Rw
  imports Fs_File
begin

text \<open>
  \<^verbatim>\<open>iupdate\<close>, \<^verbatim>\<open>writei\<close> and \<^verbatim>\<open>readi\<close> of \<^verbatim>\<open>src/xv6/fs.c\<close> as operations on a file that is a list of
  bytes, \<open>fdata\<close>: inodes are stored on disk and read back unchanged, a write replaces a part of the list
  and may extend it, and a read delivers a part of it.
\<close>

section \<open>Inodes on disk\<close>

abbreviation put_addrs :: "nat \<Rightarrow> (nat \<Rightarrow> u32) \<Rightarrow> nat \<Rightarrow> block \<Rightarrow> block" where
  "put_addrs at A n b \<equiv> fold (\<lambda>k. put32 (at + 12 + 4 * k) (A k)) [0..<n] b"

lemma get32_put_addrs: "get32 (put_addrs at A n b) (at + 12 + 4 * j) = (if j < n then A j else get32 b (at + 12 + 4 * j))"
proof (induction n)
  case (Suc n)
  show ?case
  proof (cases "j = n")
    case False
    then have "get32 (put32 (at + 12 + 4 * n) (A n) (put_addrs at A n b)) (at + 12 + 4 * j) = get32 (put_addrs at A n b) (at + 12 + 4 * j)"
      by (intro get_put_other(4)) linarith
    then show ?thesis using Suc False by simp
  qed simp
qed simp

lemma put_addrs_other: "k < at + 12 \<or> at + 12 + 4 * n \<le> k \<Longrightarrow> put_addrs at A n b k = b k"
  by (induction n) (auto simp: put_other(2))

lemma put_dinode_other:
  assumes "k < at \<or> at + DINODE_SIZE \<le> k"
  shows "put_dinode at x b k = b k"
proof -
  have "k < at + 12 \<or> at + 12 + 4 * (NDIRECT + 1) \<le> k" using assms by (auto simp: DINODE_SIZE_def)
  from put_addrs_other[OF this] show ?thesis
    using assms unfolding put_dinode_def Let_def by (auto simp: put_other DINODE_SIZE_def)
qed

lemma get_put_dinode:
  "get_dinode (put_dinode at x b) at y =
     y\<lparr>i_type := i_type x, i_major := i_major x, i_minor := i_minor x, i_nlink := i_nlink x, i_size := i_size x,
       i_addrs := (\<lambda>k. if k \<le> NDIRECT then i_addrs x k else i_addrs y k)\<rparr>"
proof -
  let ?h = "put32 (at + 8) (i_size x) (put16 (at + 6) (i_nlink x) (put16 (at + 4) (i_minor x) (put16 (at + 2) (i_major x) (put16 at (i_type x) b))))"
  let ?b = "put_dinode at x b"
  have e: "?b = put_addrs at (i_addrs x) (NDIRECT + 1) ?h" by (simp add: put_dinode_def Let_def)
  have lo: "?b k = ?h k" if "k < at + 12" for k unfolding e by (rule put_addrs_other) (use that in blast)
  have "get16 ?b at = get16 ?h at" "get16 ?b (at + 2) = get16 ?h (at + 2)" "get16 ?b (at + 4) = get16 ?h (at + 4)"
    "get16 ?b (at + 6) = get16 ?h (at + 6)" "get32 ?b (at + 8) = get32 ?h (at + 8)"
    by (rule get_cong; rule lo; linarith)+
  then have hs: "get16 ?b at = i_type x" "get16 ?b (at + 2) = i_major x" "get16 ?b (at + 4) = i_minor x"
    "get16 ?b (at + 6) = i_nlink x" "get32 ?b (at + 8) = i_size x"
    by (simp_all add: get_put_other)
  have "get32 ?b (at + 12 + 4 * k) = i_addrs x k" if "k \<le> NDIRECT" for k
    unfolding e get32_put_addrs using that by simp
  then show ?thesis unfolding get_dinode_def hs by (simp cong: if_cong)
qed

lemma get_dinode_cong:
  assumes "\<And>k. at \<le> k \<Longrightarrow> k < at + DINODE_SIZE \<Longrightarrow> b' k = b k"
  shows "get_dinode b' at x = get_dinode b at x"
proof -
  have "get16 b' at = get16 b at" "get16 b' (at + 2) = get16 b (at + 2)" "get16 b' (at + 4) = get16 b (at + 4)"
    "get16 b' (at + 6) = get16 b (at + 6)" "get32 b' (at + 8) = get32 b (at + 8)"
    by (rule get_cong; rule assms; simp add: DINODE_SIZE_def)+
  moreover have "get32 b' (at + 12 + 4 * k) = get32 b (at + 12 + 4 * k)" if "k \<le> NDIRECT" for k
    by (rule get_cong; rule assms; use that in \<open>simp add: DINODE_SIZE_def\<close>)
  ultimately show ?thesis by (simp add: get_dinode_def cong: if_cong)
qed

text \<open>Different inodes of the same block do not overlap.\<close>

lemma IPB_pos: "0 < IPB"
  by (simp add: IPB_def BSIZE_def DINODE_SIZE_def NDIRECT_def)

lemma dinode_apart:
  assumes "IBLOCK i sb = IBLOCK j sb" and "i \<noteq> j"
  shows "dinode_off i + DINODE_SIZE \<le> dinode_off j \<or> dinode_off j + DINODE_SIZE \<le> dinode_off i"
proof -
  have "IPB < 2 ^ 32" by (simp add: IPB_def BSIZE_def DINODE_SIZE_def NDIRECT_def)
  then have u: "unat (x div of_nat IPB) = unat x div IPB" for x :: u32 by (simp add: unat_div u32_of_nat)
  have "i div of_nat IPB = j div of_nat IPB" using assms(1) by (simp add: IBLOCK_def)
  then have "unat i div IPB = unat j div IPB" by (metis u)
  then have "unat i mod IPB \<noteq> unat j mod IPB" using assms(2) by (metis div_mult_mod_eq word_unat_eq_iff)
  then have "Suc (unat i mod IPB) \<le> unat j mod IPB \<or> Suc (unat j mod IPB) \<le> unat i mod IPB" by linarith
  then have "Suc (unat i mod IPB) * DINODE_SIZE \<le> unat j mod IPB * DINODE_SIZE \<or> Suc (unat j mod IPB) * DINODE_SIZE \<le> unat i mod IPB * DINODE_SIZE"
    by (meson mult_le_mono1)
  then show ?thesis unfolding dinode_off_def by (simp add: add.commute)
qed

section \<open>\<^verbatim>\<open>iupdate\<close>\<close>

lemma iupdate_ok:
  fixes s :: "'a icache_scheme"
  assumes t: "filetx c {} D k ip s" and ok: "fs_ok s" "file_ok s ip"
    and ib: "IBLOCK (i_inum (inodes s ip)) (fs_sb s) \<in> D" "i_inum (inodes s ip) < sb_ninodes (fs_sb s)"
  defines "ibk \<equiv> IBLOCK (i_inum (inodes s ip)) (fs_sb s)" and "at \<equiv> dinode_off (i_inum (inodes s ip))"
  obtains s' where "iupdate c ip s = Ok s'" and "filetx c {} D k ip s'" and "tx_frame s s'" and "fs_ok s'" and "file_ok s' ip"
    and "view s' = (view s)(ibk := put_dinode at (inodes s ip) (view s ibk))" and "slots s' ip = slots s ip"
    and "\<And>i. i < MAXFILE * BSIZE \<Longrightarrow> fbyte s' ip i = fbyte s ip i"
proof -
  have dev: "i_dev (inodes s ip) = 1" using ok(2) by (simp add: file_ok_def)
  have ibm: "ibk \<in> inode_blocks (fs_sb s)" using ib(2) by (auto simp: inode_blocks_def ibk_def)
  have nb: "ibk \<notin> bitmaps (fs_sb s)" "ibk \<noteq> 1" "ibk \<noteq> 0" using ibm ok(1) by (auto simp: fs_ok_def)
  let ?f = "put_dinode at (inodes s ip)"
  have ft: "fstx c {} D k s" using t by (simp add: filetx_def)
  obtain b s1 s2 s' where u: "bread c 1 ibk s = Ok (b, s1)" "tx_frame s s1" "log_write b (set_data b ?f s1) = Ok s2" "brelse c b s2 = Ok s'"
    and f': "fstx c {} D k s'" and v: "view s' = (view s)(ibk := ?f (view s ibk))" and fr: "tx_frame s s'"
    by (rule fstx_update[where H = "{}" and n = ibk and s = s and f = ?f]) (use ft ib(1) in \<open>auto simp: ibk_def\<close>)
  note I = tx_frame_icache[OF fr]
  have r: "iupdate c ip s = Ok s'"
    using u(1,3,4) dev tx_frame_icache(2)[OF u(2)] unfolding iupdate_def Let_def ibk_def at_def by simp
  have other: "view s' (slots s ip j) = view s (slots s ip j)" if "j < NSLOTS" for j
  proof (cases "slots s ip j = 0")
    case False
    then show ?thesis using file_okD(2)[OF ok(2) that] metaI(2)[OF ibm] by (auto simp: v)
  qed (use nb in \<open>simp add: v\<close>)
  have "view s' (i_addrs (inodes s ip) NDIRECT) = view s (i_addrs (inodes s ip) NDIRECT)"
    using other[OF NSLOTS_NDIRECT] by (simp add: slot_def)
  then have sl: "slots s' ip = slots s ip" unfolding I by (intro ext) (simp add: slot_def)
  have us: "used (fs_sb s) (view s') n = used (fs_sb s) (view s) n" if "n < sb_size (fs_sb s)" for n
    unfolding v using nb(1) that by (intro used_other) (auto simp: bitmaps_def)
  have fs': "fs_ok s'" using fs_ok_view[OF ok(1) fr] us fs_ok_meta[OF ok(1)] nb(2) by (simp add: v)
  have fo: "file_ok s' ip"
    using ok(2) us unfolding file_ok_def slots_ok_def sl[unfolded I] meta_frame[OF fr] I by simp
  have fb: "fbyte s' ip i = fbyte s ip i" if "i < MAXFILE * BSIZE" for i
    using other[of "slot_of (i div BSIZE)"] slot_of_less[of "i div BSIZE"] that
    unfolding fbyte_def sl by (simp add: less_mult_imp_div_less Let_def)
  have "filetx c {} D k ip s'" using t f' sl[unfolded I] I unfolding filetx_def by simp
  then show ?thesis using r fr fs' fo v sl fb by (intro that[of s']) auto
qed

section \<open>Files as lists of bytes\<close>

definition fdata :: "'a icache_scheme \<Rightarrow> nat \<Rightarrow> u8 list" where
  "fdata s ip = map (fbyte s ip) [0..<unat (i_size (inodes s ip))]"

definition splice :: "nat \<Rightarrow> 'b list \<Rightarrow> 'b list \<Rightarrow> 'b list" where
  "splice off ys xs = take off xs @ ys @ drop (off + length ys) xs"

lemma length_fdata [simp]: "length (fdata s ip) = unat (i_size (inodes s ip))"
  by (simp add: fdata_def)

lemma fdata_splice:
  assumes "off \<le> unat (i_size (inodes s ip))" and "unat (i_size (inodes s' ip)) = max (unat (i_size (inodes s ip))) (off + length src)"
    and "\<And>i. i < unat (i_size (inodes s' ip)) \<Longrightarrow> fbyte s' ip i = (if off \<le> i \<and> i < off + length src then src ! (i - off) else fbyte s ip i)"
  shows "fdata s' ip = splice off src (fdata s ip)"
proof (rule nth_equalityI)
  show "length (fdata s' ip) = length (splice off src (fdata s ip))" using assms(1,2) by (simp add: splice_def)
  fix i assume "i < length (fdata s' ip)"
  then have i: "i < unat (i_size (inodes s' ip))" by simp
  show "fdata s' ip ! i = splice off src (fdata s ip) ! i"
    using i assms(1,2) assms(3)[OF i] by (auto simp: splice_def fdata_def nth_append)
qed

lemma splice_read: "off \<le> length xs \<Longrightarrow> take (length ys) (drop off (splice off ys xs)) = ys"
  by (simp add: splice_def)

text \<open>The bytes of a file between two offsets.\<close>

lemma fdata_part:
  assumes "off + n \<le> unat (i_size (inodes s ip))"
  shows "map (fbyte s ip) [off..<off + n] = take n (drop off (fdata s ip))"
  using assms by (intro nth_equalityI) (auto simp: fdata_def)

section \<open>\<^verbatim>\<open>writei\<close>\<close>

lemma sint_small: "unat (w :: u32) < 2 ^ 31 \<Longrightarrow> sint w = int (unat w)"
proof -
  assume "unat w < 2 ^ 31"
  then have "int (unat w) < int (2 ^ 31)" by (simp only: of_nat_less_iff)
  then have "uint w < 2 ^ 31" by (simp only: uint_nat of_nat_power of_nat_numeral)
  moreover have "- (2 ^ 31) \<le> uint w" by (rule order_trans[OF _ uint_ge_0]) simp
  ultimately show ?thesis unfolding sint_uint uint_nat[symmetric] by (subst signed_take_bit_int_eq_self) simp_all
qed

text \<open>The inode with number \<open>i\<close> on disk, copied over the inode \<open>x\<close> in memory.\<close>

abbreviation dinode_at :: "'a icache_scheme \<Rightarrow> u32 \<Rightarrow> inode \<Rightarrow> inode" where
  "dinode_at s i \<equiv> get_dinode (view s (IBLOCK i (fs_sb s))) (dinode_off i)"

text \<open>
  The effect of a write: the new contents, the new size, also on disk, and nothing else: all other inodes,
  in memory and on disk, and all blocks of other files are as before.
\<close>

definition wrote :: "nat \<Rightarrow> nat \<Rightarrow> u8 list \<Rightarrow> 'a icache_scheme \<Rightarrow> 'a icache_scheme \<Rightarrow> bool" where
  "wrote ip off src s s' \<longleftrightarrow>
     fs_ok s' \<and> file_ok s' ip \<and> full s' ip \<and> fdata s' ip = splice off src (fdata s ip) \<and>
     fs_sb s' = fs_sb s \<and> (\<forall>jp. jp \<noteq> ip \<longrightarrow> inodes s' jp = inodes s jp) \<and> i_type (inodes s' ip) = i_type (inodes s ip) \<and>
     (\<forall>n < sb_size (fs_sb s). used (fs_sb s) (view s) n \<and> n \<notin> meta s \<and> (\<forall>j<NSLOTS. slots s' ip j \<noteq> n) \<longrightarrow> view s' n = view s n) \<and>
     (\<forall>i < sb_ninodes (fs_sb s). i \<noteq> i_inum (inodes s ip) \<longrightarrow> dinode_at s' i = dinode_at s i) \<and>
     (unat (i_size (inodes s ip)) < off + length src \<longrightarrow> dinode_at s' (i_inum (inodes s ip)) (inodes s' ip) = inodes s' ip)"

lemma inode_block_kept:
  fixes s s' :: "'a icache_scheme"
  assumes w: "writes ip off src s s'" and ok: "fs_ok s" and i: "i < sb_ninodes (fs_sb s)"
  shows "view s' (IBLOCK i (fs_sb s)) = view s (IBLOCK i (fs_sb s))"
proof -
  have ib: "IBLOCK i (fs_sb s) \<in> inode_blocks (fs_sb s)" using i by (auto simp: inode_blocks_def)
  then have m: "IBLOCK i (fs_sb s) \<in> meta s" by (rule metaI(2))
  have nb: "IBLOCK i (fs_sb s) \<notin> bitmaps (fs_sb s)" "IBLOCK i (fs_sb s) \<noteq> 0" using ib ok by (auto simp: fs_ok_def)
  have f: "file_ok s' ip" "ino_frame ip s s'" using w by (simp_all add: writes_def)
  have "slots s' ip j \<noteq> IBLOCK i (fs_sb s)" if "j < NSLOTS" for j
    using file_okD(2)[OF f(1) that] nb(2) m ino_frame_fields(2)[OF f(2)] by metis
  then show ?thesis using w nb fs_ok_meta[OF ok m] by (simp add: writes_def)
qed

lemma writes_full:
  fixes s s' :: "'a icache_scheme"
  assumes w: "writes ip off src s s'" and f: "full s ip" and off: "off \<le> unat (i_size (inodes s ip))"
    and n: "n \<le> max (unat (i_size (inodes s ip))) (off + length src)" and b: "n \<le> MAXFILE * BSIZE"
  shows "present s' ip 0 n"
proof -
  have "slots s' ip (slot_of (i div BSIZE)) \<noteq> 0" if i: "i < n" for i
  proof (cases "i < unat (i_size (inodes s ip))")
    case True
    then have "slots s ip (slot_of (i div BSIZE)) \<noteq> 0" using f by (simp add: full_def present_def)
    moreover have "slot_of (i div BSIZE) < NSLOTS" using i b slot_of_less[of "i div BSIZE"] by (simp add: less_mult_imp_div_less)
    ultimately show ?thesis using w by (simp add: writes_def)
  next
    case False
    then have "off \<le> i" "i < off + length src" using off i n by linarith+
    then show ?thesis using w by (simp add: writes_def)
  qed
  then show ?thesis using b by (simp add: present_def)
qed

lemma wrote_within:
  fixes s s' :: "'a icache_scheme"
  assumes w: "writes ip off src s s'" and ok: "fs_ok s" "full s ip" and off: "off + length src \<le> unat (i_size (inodes s ip))"
  shows "wrote ip off src s s'"
proof -
  have fr: "ino_frame ip s s'" using w by (simp add: writes_def)
  note F = ino_frame_fields[OF fr] and I = ino_frame_inode[OF fr]
  have sz: "unat (i_size (inodes s ip)) \<le> MAXFILE * BSIZE" using ok(2) by (simp add: full_def present_def)
  have "full s' ip" unfolding full_def I(3) using off sz by (intro writes_full[OF w ok(2)]) auto
  moreover have "fdata s' ip = splice off src (fdata s ip)"
    using off sz w by (intro fdata_splice) (auto simp: I(3) writes_def)
  moreover have "view s' n = view s n"
    if "n < sb_size (fs_sb s)" "used (fs_sb s) (view s) n" "n \<notin> meta s" "\<forall>j<NSLOTS. slots s' ip j \<noteq> n" for n
    using w that metaI(1)[of n s] metaI(4)[of s] by (auto simp: writes_def)
  moreover have "dinode_at s' i = dinode_at s i" if "i < sb_ninodes (fs_sb s)" for i
    using inode_block_kept[OF w ok(1) that] F(1) by simp
  ultimately show ?thesis using w off F(1) I unfolding wrote_def by (simp add: writes_def)
qed

lemma slot_size [simp]: "slot (x\<lparr>i_size := z\<rparr>) V = slot x V"
  by (simp add: slot_def fun_eq_iff)

lemma file_ok_size [simp]: "file_ok (upd_ino ip (\<lambda>x. x\<lparr>i_size := z\<rparr>) s) ip = file_ok s ip"
  and fbyte_size [simp]: "fbyte (upd_ino ip (\<lambda>x. x\<lparr>i_size := z\<rparr>) s) ip = fbyte s ip"
  and filetx_size [simp]: "filetx c H D k ip (upd_ino ip (\<lambda>x. x\<lparr>i_size := z\<rparr>) s) = filetx c H D k ip s"
  unfolding file_ok_def slots_ok_def filetx_def fbyte_def view_upd_ino by (simp_all add: fun_eq_iff)

lemma wrote_grow:
  fixes s s1 :: "'a icache_scheme"
  assumes w: "writes ip off src s s1" and ok: "fs_ok s" "full s ip" and off: "off \<le> unat (i_size (inodes s ip))"
    and z: "unat z = off + length src" "unat (i_size (inodes s ip)) < off + length src" "off + length src \<le> MAXFILE * BSIZE"
    and ib: "IBLOCK (i_inum (inodes s ip)) (fs_sb s) \<in> D" "i_inum (inodes s ip) < sb_ninodes (fs_sb s)" and t: "filetx c {} D k ip s1"
  obtains s' where "iupdate c ip (upd_ino ip (\<lambda>x. x\<lparr>i_size := z\<rparr>) s1) = Ok s'" and "wrote ip off src s s'" and "filetx c {} D k ip s'"
    and "slots s' ip NDIRECT = slots s1 ip NDIRECT"
proof -
  let ?s2 = "upd_ino ip (\<lambda>x. x\<lparr>i_size := z\<rparr>) s1"
  have fr: "ino_frame ip s s1" and ok1: "fs_ok s1" "file_ok s1 ip" using w by (simp_all add: writes_def)
  note F = ino_frame_fields[OF fr] and I = ino_frame_inode[OF fr]
  let ?i = "i_inum (inodes s ip)"
  let ?ib = "IBLOCK ?i (fs_sb s)" and ?at = "dinode_off ?i" and ?x = "(inodes s1 ip)\<lparr>i_size := z\<rparr>"
  obtain s' where u: "iupdate c ip ?s2 = Ok s'" "filetx c {} D k ip s'" "tx_frame ?s2 s'" "fs_ok s'" "file_ok s' ip"
    "view s' = (view ?s2)(?ib := put_dinode ?at ?x (view ?s2 ?ib))" "slots s' ip = slots ?s2 ip"
    "\<And>i. i < MAXFILE * BSIZE \<Longrightarrow> fbyte s' ip i = fbyte ?s2 ip i"
    by (rule iupdate_ok[where s = ?s2 and ip = ip and c = c and D = D and k = k]) (use t ok1 ib F(1) I(2) in auto)
  note X = tx_frame_icache[OF u(3)]
  have x: "inodes s' ip = ?x" "\<And>jp. jp \<noteq> ip \<Longrightarrow> inodes s' jp = inodes s jp" "fs_sb s' = fs_sb s"
    using X F(1) I(7) by simp_all
  have v: "view s' = (view s1)(?ib := put_dinode ?at ?x (view s1 ?ib))" and sl: "slots s' ip = slots s1 ip"
    using u(6,7) by simp_all
  have fb: "fbyte s' ip i = fbyte s1 ip i" if "i < MAXFILE * BSIZE" for i using u(8)[OF that] by simp
  have "present s1 ip 0 (unat z)" using z by (intro writes_full[OF w ok(2) off]) auto
  then have full: "full s' ip" using sl x(1) by (simp add: full_def present_def)
  have fd: "fdata s' ip = splice off src (fdata s ip)"
    using off z w fb by (intro fdata_splice) (auto simp: x(1) writes_def)
  have ibm: "?ib \<in> meta s" using ib(2) by (intro metaI(2)) (auto simp: inode_blocks_def)
  have vw: "view s' n = view s n"
    if "n < sb_size (fs_sb s)" "used (fs_sb s) (view s) n" "n \<notin> meta s" "\<forall>j<NSLOTS. slots s' ip j \<noteq> n" for n
    using w that metaI(1)[of n s] metaI(4)[of s] ibm sl unfolding v by (auto simp: writes_def)
  have oth: "dinode_at s' i = dinode_at s i" if i: "i < sb_ninodes (fs_sb s)" "i \<noteq> ?i" for i
  proof
    fix y
    have "dinode_at s' i y = get_dinode (view s1 (IBLOCK i (fs_sb s))) (dinode_off i) y"
    proof (cases "IBLOCK i (fs_sb s) = ?ib")
      case True
      then show ?thesis unfolding v x(3) using dinode_apart[OF True i(2)]
        by (auto intro!: get_dinode_cong put_dinode_other)
    qed (simp add: v x(3))
    then show "dinode_at s' i y = dinode_at s i y" using inode_block_kept[OF w ok(1) i(1)] by simp
  qed
  have self: "dinode_at s' ?i (inodes s' ip) = inodes s' ip"
    unfolding v x(1,3) by (simp add: get_put_dinode)
  have "wrote ip off src s s'"
    unfolding wrote_def using u(4,5) full fd x vw oth self I(4) by simp
  then show ?thesis using u(1,2) sl by (intro that[of s']) auto
qed

lemma writei_ok:
  fixes s :: "'a icache_scheme"
  assumes t: "filetx c {} D (touched (unat off) (length src) + need s ip) ip s" and ok: "fs_ok s" "file_ok s ip" "full s ip"
    and ib: "IBLOCK (i_inum (inodes s ip)) (fs_sb s) \<in> D" "i_inum (inodes s ip) < sb_ninodes (fs_sb s)"
    and ty: "i_type (inodes s ip) \<noteq> T_DEV" and off: "off \<le> i_size (inodes s ip)" and fit: "unat off + length src \<le> MAXFILE * BSIZE"
  shows "(\<exists>s' D'. writei dv c ip src off s = Ok (int (length src), s') \<and> wrote ip (unat off) src s s' \<and> filetx c {} D' (need s' ip) ip s') \<or>
         (writei dv c ip src off s = Panic ''balloc: out of blocks'' \<and> nfree s < touched (unat off) (length src) + need s ip)"
proof -
  have mf: "MAXFILE * BSIZE = 71680" by (simp add: MAXFILE_def NDIRECT_def NINDIRECT_def BSIZE_def)
  define n where "n = (of_nat (length src) :: u32)"
  have n: "unat n = length src" unfolding n_def using fit mf by (intro u32_of_nat) simp
  have on: "unat (off + n) = unat off + length src" using fit mf n by (simp add: unat_add_lem[THEN iffD1])
  have sn: "sint n = int (length src)" using n fit mf by (subst sint_small) simp_all
  have offn: "unat off \<le> unat (i_size (inodes s ip))" using off by (simp add: word_le_nat_alt)
  have g: "\<not> (off > i_size (inodes s ip) \<or> off + n < off)" "\<not> off + n > of_nat (MAXFILE * BSIZE)"
    using offn on fit mf by (auto simp: word_less_nat_alt not_less)
  have n0: "0 < n \<longleftrightarrow> src \<noteq> []" using n by (simp add: word_less_nat_alt)
  have red: "writei dv c ip src off s = bindR (writei_loop c ip src (unat off) s) (\<lambda>s.
      if n > 0 \<and> off + n > i_size (inodes s ip)
      then bindR (iupdate c ip (upd_ino ip (\<lambda>x. x\<lparr>i_size := off + n\<rparr>) s)) (\<lambda>s. Ok (sint n, s)) else Ok (sint n, s))"
    unfolding writei_def Let_def n_def[symmetric] using g ty by simp
  from writei_loop_ok[OF t ok(1,2) fit] show ?thesis
  proof (elim disjE exE conjE)
    fix s1 :: "'a icache_scheme" and D1
    assume l: "writei_loop c ip src (unat off) s = Ok s1" and w: "writes ip (unat off) src s s1" and D1: "D \<subseteq> D1" and t1: "filetx c {} D1 (need s1 ip) ip s1"
    have sz: "i_size (inodes s1 ip) = i_size (inodes s ip)" using w ino_frame_inode(3) by (auto simp: writes_def)
    show ?thesis
    proof (cases "n > 0 \<and> off + n > i_size (inodes s ip)")
      case True
      then have gr: "unat (i_size (inodes s ip)) < unat off + length src" by (simp add: word_less_nat_alt on)
      obtain s' where u: "iupdate c ip (upd_ino ip (\<lambda>x. x\<lparr>i_size := off + n\<rparr>) s1) = Ok s'" "wrote ip (unat off) src s s'"
        "filetx c {} D1 (need s1 ip) ip s'" "slots s' ip NDIRECT = slots s1 ip NDIRECT"
        by (rule wrote_grow[OF w ok(1,3) offn on gr fit _ ib(2) t1]) (use D1 ib(1) in auto)
      then show ?thesis using True by (auto simp: red l sz sn need_def)
    next
      case False
      then have "unat off + length src \<le> unat (i_size (inodes s ip))"
        using n0 offn on by (auto simp: word_less_nat_alt not_less)
      then show ?thesis using wrote_within[OF w ok(1,3)] t1 False by (auto simp: red l sz sn)
    qed
  qed (simp add: red)
qed

text \<open>Requests that are refused.\<close>

lemma writei_refused:
  assumes "i_type (inodes s ip) \<noteq> T_DEV" and "length src < 2 ^ 32"
    and "off > i_size (inodes s ip) \<or> unat off + length src > MAXFILE * BSIZE"
  shows "writei dv c ip src off s = Ok (-1, s)"
proof -
  have mf: "MAXFILE * BSIZE = 71680" by (simp add: MAXFILE_def NDIRECT_def NINDIRECT_def BSIZE_def)
  have n: "unat (of_nat (length src) :: u32) = length src" using assms(2) by (rule u32_of_nat)
  consider "off > i_size (inodes s ip)" | "off + of_nat (length src) < off" | "off + of_nat (length src) > of_nat (MAXFILE * BSIZE)"
  proof (cases "unat off + length src < 2 ^ 32")
    case True
    then have "unat (off + of_nat (length src)) = unat off + length src" using n by (simp add: unat_add_lem[THEN iffD1])
    then show ?thesis using that assms(3) mf by (auto simp: word_less_nat_alt)
  next
    case False
    then have "off + of_nat (length src) < off" using n by (simp add: no_olen_add_nat flip: not_le)
    then show ?thesis using that by blast
  qed
  then show ?thesis using assms(1) by cases (auto simp: writei_def Let_def)
qed

section \<open>\<^verbatim>\<open>readi\<close>\<close>

lemma fdata_same_store: "same_store s (s' :: 'a icache_scheme) \<Longrightarrow> fdata s' ip = fdata s ip"
  using same_store_slots(4,6)[of s s'] by (simp add: fdata_def)

lemma full_same_store: "same_store s (s' :: 'a icache_scheme) \<Longrightarrow> full s' ip = full s ip"
  using same_store_slots(5,6)[of s s'] by (simp add: full_def)

lemma full_size: "full s ip \<Longrightarrow> unat (i_size (inodes s ip)) \<le> 71680"
  by (simp add: full_def present_def MAXFILE_def NDIRECT_def NINDIRECT_def BSIZE_def)

lemma readi_ok:
  fixes s :: "'a icache_scheme"
  assumes t: "tx c {} 0 s" and ok: "fs_ok s" "file_ok s ip" "full s ip" and ty: "i_type (inodes s ip) \<noteq> T_DEV"
    and off: "off \<le> i_size (inodes s ip)" and ov: "unat off + unat n < 2 ^ 32"
  defines "ys \<equiv> take (unat n) (drop (unat off) (fdata s ip))"
  shows "\<exists>s'. readi dv c ip off n s = Ok (int (length ys), ys, s') \<and> tx c {} 0 s' \<and> same_store s s'"
proof -
  let ?sz = "i_size (inodes s ip)"
  define m where "m = (if off + n > ?sz then ?sz - off else n)"
  have o: "unat off \<le> unat ?sz" using off by (simp add: word_le_nat_alt)
  have on: "unat (off + n) = unat off + unat n" using ov by (simp add: unat_add_lem[THEN iffD1])
  have m: "unat m = min (unat n) (unat ?sz - unat off)"
    using o on off by (auto simp: m_def word_less_nat_alt unat_sub)
  have mb: "unat off + unat m \<le> unat ?sz" using m o by simp
  have ys: "ys = map (fbyte s ip) [unat off..<unat off + unat m]"
    unfolding fdata_part[OF mb] by (simp add: ys_def m min_def)
  have len: "length ys = unat m" by (simp add: ys)
  have sm: "sint m = int (unat m)" using mb full_size[OF ok(3)] by (intro sint_small) simp
  obtain s' where r: "readi_loop c ip (unat off) (unat m) s = Ok (ys, s')" "tx c {} 0 s'" "same_store s s'"
    using readi_loop_ok[OF t ok(1,2) full_present[OF ok(3) mb]] unfolding ys by blast
  have "\<not> (off > ?sz \<or> off + n < off)" using o on by (auto simp: word_less_nat_alt)
  then have "readi dv c ip off n s = Ok (int (length ys), ys, s')"
    using ty r(1) sm len unfolding readi_def Let_def m_def[symmetric] by simp
  then show ?thesis using r(2,3) by blast
qed

lemma readi_refused:
  assumes "i_type (inodes s ip) \<noteq> T_DEV" and "off > i_size (inodes s ip) \<or> 2 ^ 32 \<le> unat off + unat n"
  shows "readi dv c ip off n s = Ok (-1, [], s)"
proof -
  have "off > i_size (inodes s ip) \<or> off + n < off"
    using assms(2) by (auto simp: no_olen_add_nat simp flip: not_le)
  then show ?thesis using assms(1) by (auto simp: readi_def Let_def)
qed

end
