(* ===== verification/Fs_Dir.thy ===== *)
theory Fs_Dir
  imports Fs_Rw
begin

text \<open>
  Directories, \<^verbatim>\<open>dirlookup\<close> and \<^verbatim>\<open>dirlink\<close> of \<^verbatim>\<open>src/xv6/fs.c\<close>, as finite maps from names to inode
  numbers. A name is the bytes before the terminating zero byte, at most \<^verbatim>\<open>DIRSIZ\<close> of them.
\<close>

section \<open>Entries\<close>

abbreviation fname :: "u8 list \<Rightarrow> u8 list" where
  "fname name \<equiv> cstr (of_bytes name) DIRSIZ"

definition dname :: "u8 list \<Rightarrow> u8 list" where
  "dname de = cstr (de_name de) DIRSIZ"

definition dirents :: "'a icache_scheme \<Rightarrow> nat \<Rightarrow> u8 list list" where
  "dirents s dp =
     map (\<lambda>k. take DIRENT_SIZE (drop (k * DIRENT_SIZE) (fdata s dp))) [0..<unat (i_size (inodes s dp)) div DIRENT_SIZE]"

definition hit :: "u8 list \<Rightarrow> u8 list \<Rightarrow> bool" where
  "hit nm de \<longleftrightarrow> de_inum de \<noteq> 0 \<and> dname de = nm"

definition dmap :: "u8 list list \<Rightarrow> u8 list \<Rightarrow> u16 option" where
  "dmap des nm = map_option de_inum (find (hit nm) des)"

definition dir_ok :: "'a icache_scheme \<Rightarrow> nat \<Rightarrow> bool" where
  "dir_ok s dp \<longleftrightarrow> fs_ok s \<and> file_ok s dp \<and> full s dp \<and> i_type (inodes s dp) = T_DIR \<and> DIRENT_SIZE dvd unat (i_size (inodes s dp))"

lemma namecmp_hit: "de_inum de \<noteq> 0 \<and> namecmp (of_bytes name) (de_name de) = 0 \<longleftrightarrow> hit (fname name) de"
  by (auto simp: namecmp_def strncmp_zero hit_def dname_def)

lemma strncpy_at_below: "k < i \<Longrightarrow> strncpy_at i s t j n k = s k"
  by (induction n arbitrary: i s j) (auto simp: Let_def stosb_fill fill_def)

lemma cstr_strncpy_at: "cstr (\<lambda>k. strncpy_at i s t j n (i + k)) n = cstr (\<lambda>k. t (j + k)) n"
proof (induction n arbitrary: i s j)
  case (Suc n)
  show ?case
  proof (cases "t j = 0")
    case True
    then show ?thesis by (simp add: Let_def stosb_fill fill_def)
  next
    case False
    then show ?thesis using Suc[of "i + 1" "s(i := t j)" "j + 1"] by (simp add: Let_def strncpy_at_below fun_upd_same del: fun_upd_apply)
  qed
qed simp

lemma cstr_cong: "(\<And>k. k < n \<Longrightarrow> p k = q k) \<Longrightarrow> cstr p n = cstr q n"
proof (induction n arbitrary: p q)
  case (Suc n)
  have "p 0 = q 0" by (rule Suc.prems) simp
  moreover have "cstr (\<lambda>k. p (k + 1)) n = cstr (\<lambda>k. q (k + 1)) n" by (rule Suc.IH, rule Suc.prems) simp
  ultimately show ?case by simp
qed simp

lemma mk_dirent: "length (mk_dirent inum name) = DIRENT_SIZE" "de_inum (mk_dirent inum name) = inum"
  "dname (mk_dirent inum name) = cstr name DIRSIZ"
proof -
  let ?b = "blit 2 (strncpy (\<lambda>_. 0) name DIRSIZ) 0 DIRSIZ (put16 0 inum (\<lambda>_. 0))"
  show "length (mk_dirent inum name) = DIRENT_SIZE" by (simp add: mk_dirent_def)
  have k: "of_bytes (mk_dirent inum name) k = ?b k" if "k < DIRENT_SIZE" for k
    using that of_bytes_of[OF that, of ?b 0] by (simp add: mk_dirent_def)
  have "get16 (of_bytes (mk_dirent inum name)) 0 = get16 ?b 0" by (rule get_cong) (use k in \<open>simp add: DIRENT_SIZE_def\<close>)
  also have "\<dots> = get16 (put16 0 inum (\<lambda>_. 0)) 0" by (rule get_cong) (simp add: blit_def)
  finally show "de_inum (mk_dirent inum name) = inum" by (simp add: de_inum_def)
  have "dname (mk_dirent inum name) = cstr (strncpy (\<lambda>_. 0) name DIRSIZ) DIRSIZ"
    unfolding dname_def de_name_def by (rule cstr_cong) (use k in \<open>simp add: DIRENT_SIZE_def blit_def\<close>)
  then show "dname (mk_dirent inum name) = cstr name DIRSIZ"
    using cstr_strncpy_at[of 0 "\<lambda>_. 0" name 0 DIRSIZ] by (simp add: strncpy_def)
qed

section \<open>\<^verbatim>\<open>dirlookup\<close>\<close>

lemma DIRENT_SIZE_val: "DIRENT_SIZE = 16"
  by (simp add: DIRENT_SIZE_def DIRSIZ_def)

abbreviation nents :: "'a icache_scheme \<Rightarrow> nat \<Rightarrow> nat" where
  "nents s dp \<equiv> unat (i_size (inodes s dp)) div DIRENT_SIZE"

lemma dir_offs_eq: "dir_ok s dp \<Longrightarrow> dir_offs (i_size (inodes s dp)) = map (\<lambda>k. k * DIRENT_SIZE) [0..<nents s dp]"
  unfolding dir_offs_def dir_ok_def DIRENT_SIZE_val by (elim conjE dvdE) simp

lemma length_dirents [simp]: "length (dirents s dp) = nents s dp"
  by (simp add: dirents_def)

lemma dirents_nth: "k < nents s dp \<Longrightarrow> dirents s dp ! k = take DIRENT_SIZE (drop (k * DIRENT_SIZE) (fdata s dp))"
  by (simp add: dirents_def)

lemma dir_same_store:
  fixes s s' :: "'a icache_scheme"
  assumes "same_store s s'"
  shows "dir_ok s dp \<Longrightarrow> dir_ok s' dp" and "dirents s' dp = dirents s dp" and "inodes s' = inodes s"
  using same_store_slots(2,3,6)[OF assms] fdata_same_store[OF assms] full_same_store[OF assms]
  by (simp_all add: dir_ok_def dirents_def)

text \<open>Reading one entry.\<close>

lemma dirent_read:
  fixes s :: "'a icache_scheme"
  assumes t: "tx c {} 0 s" and ok: "dir_ok s dp" and k: "k < nents s dp"
  shows "\<exists>s'. readi dv c dp (of_nat (k * DIRENT_SIZE)) (of_nat DIRENT_SIZE) s = Ok (int DIRENT_SIZE, dirents s dp ! k, s') \<and>
     tx c {} 0 s' \<and> same_store s s'"
proof -
  let ?sz = "unat (i_size (inodes s dp))"
  have K: "k * DIRENT_SIZE + DIRENT_SIZE \<le> ?sz" using k by (simp add: DIRENT_SIZE_val)
  have sz: "?sz \<le> 71680" using ok full_size by (auto simp: dir_ok_def)
  have u: "unat (of_nat (k * DIRENT_SIZE) :: u32) = k * DIRENT_SIZE" "unat (of_nat DIRENT_SIZE :: u32) = DIRENT_SIZE"
    using K sz by (intro u32_of_nat; simp)+
  have ty: "i_type (inodes s dp) \<noteq> T_DEV" using ok by (simp add: dir_ok_def T_DIR_def T_DEV_def)
  have "of_nat (k * DIRENT_SIZE) \<le> i_size (inodes s dp)" using K u(1) by (simp add: word_le_nat_alt del: of_nat_mult)
  moreover have "unat (of_nat (k * DIRENT_SIZE) :: u32) + unat (of_nat DIRENT_SIZE :: u32) < 2 ^ 32" unfolding u using K sz by simp
  ultimately have "\<exists>s'. readi dv c dp (of_nat (k * DIRENT_SIZE)) (of_nat DIRENT_SIZE) s =
      Ok (int (length (dirents s dp ! k)), dirents s dp ! k, s') \<and> tx c {} 0 s' \<and> same_store s s'"
    using readi_ok[OF t _ _ _ ty, of "of_nat (k * DIRENT_SIZE)" "of_nat DIRENT_SIZE" dv] ok
    unfolding dirents_nth[OF k] u by (simp add: dir_ok_def)
  moreover have "length (dirents s dp ! k) = DIRENT_SIZE" using K by (simp add: dirents_nth[OF k])
  ultimately show ?thesis by simp
qed

text \<open>What a search among the entries from \<open>k\<close> on returns.\<close>

lemma dirlookup_loop_ok:
  fixes s :: "'a icache_scheme"
  assumes "tx c {} 0 s" and "dir_ok s dp" and "k \<le> nents s dp"
  shows "\<exists>s'. tx c {} 0 s' \<and> same_store s s' \<and>
     dirlookup_loop dv c dp name (map (\<lambda>k. k * DIRENT_SIZE) [k..<nents s dp]) s =
       (case find (\<lambda>k. hit (fname name) (dirents s dp ! k)) [k..<nents s dp] of
          None \<Rightarrow> Ok (None, s')
        | Some j \<Rightarrow> bindR (iget (i_dev (inodes s dp)) (ucast (de_inum (dirents s dp ! j))) s')
                     (\<lambda>(ip, s). Ok (Some (ip, of_nat (j * DIRENT_SIZE)), s)))"
  using assms
proof (induction "nents s dp - k" arbitrary: k s)
  case 0
  then show ?case using same_store_refl by auto
next
  case (Suc n)
  then have k: "k < nents s dp" by simp
  then have up: "[k..<nents s dp] = k # [Suc k..<nents s dp]" by (simp add: upt_conv_Cons)
  obtain s1 where s1: "readi dv c dp (of_nat (k * DIRENT_SIZE)) (of_nat DIRENT_SIZE) s = Ok (int DIRENT_SIZE, dirents s dp ! k, s1)"
    "tx c {} 0 s1" "same_store s s1" using dirent_read[OF Suc.prems(1,2) k] by blast
  note S = dir_same_store[OF s1(3)]
  show ?case
  proof (cases "hit (fname name) (dirents s dp ! k)")
    case True
    then show ?thesis unfolding up using s1 S(3) by (auto simp flip: namecmp_hit simp del: of_nat_mult)
  next
    case False
    then have "dirlookup_loop dv c dp name (map (\<lambda>k. k * DIRENT_SIZE) [k..<nents s dp]) s =
        dirlookup_loop dv c dp name (map (\<lambda>k. k * DIRENT_SIZE) [Suc k..<nents s1 dp]) s1"
      unfolding up S(3) using s1(1) by (auto simp flip: namecmp_hit simp del: of_nat_mult)
    moreover have h: "n = nents s1 dp - Suc k" "Suc k \<le> nents s1 dp" using Suc.hyps(2) S(3) k by simp_all
    moreover from Suc.hyps(1)[OF h(1) s1(2) S(1)[OF Suc.prems(2)] h(2)] obtain s' where "tx c {} 0 s'" "same_store s1 s'"
      "dirlookup_loop dv c dp name (map (\<lambda>k. k * DIRENT_SIZE) [Suc k..<nents s1 dp]) s1 =
       (case find (\<lambda>k. hit (fname name) (dirents s1 dp ! k)) [Suc k..<nents s1 dp] of
          None \<Rightarrow> Ok (None, s')
        | Some j \<Rightarrow> bindR (iget (i_dev (inodes s1 dp)) (ucast (de_inum (dirents s1 dp ! j))) s')
                     (\<lambda>(ip, s). Ok (Some (ip, of_nat (j * DIRENT_SIZE)), s)))"
      by blast
    ultimately show ?thesis using False same_store_trans[OF s1(3)] unfolding up S(2,3) by auto
  qed
qed

lemma find_map: "find P (map f xs) = map_option f (find (\<lambda>x. P (f x)) xs)"
  by (induction xs) auto

lemma find_nth: "map_option ((!) xs) (find (\<lambda>k. P (xs ! k)) [0..<length xs]) = find P xs"
  using find_map[of P "(!) xs" "[0..<length xs]"] by (simp add: map_nth)

text \<open>
  \<^verbatim>\<open>dirlookup\<close> consults the map of the directory; the inode it returns is that of \<^verbatim>\<open>iget\<close>, and the offset
  that of the entry.
\<close>

lemma dirlookup_ok:
  fixes s :: "'a icache_scheme"
  assumes t: "tx c {} 0 s" and ok: "dir_ok s dp"
  obtains (none) s' where "dmap (dirents s dp) (fname name) = None" and "dirlookup dv c dp name s = Ok (None, s')"
      and "tx c {} 0 s'" and "same_store s s'"
  | (some) inum k s' where "dmap (dirents s dp) (fname name) = Some inum" and "k < nents s dp" and "de_inum (dirents s dp ! k) = inum"
      and "hit (fname name) (dirents s dp ! k)"
      and "dirlookup dv c dp name s =
        bindR (iget (i_dev (inodes s dp)) (ucast inum) s') (\<lambda>(ip, s). Ok (Some (ip, of_nat (k * DIRENT_SIZE)), s))"
      and "tx c {} 0 s'" and "same_store s s'"
proof -
  let ?f = "find (\<lambda>k. hit (fname name) (dirents s dp ! k)) [0..<nents s dp]"
  have d: "dmap (dirents s dp) (fname name) = map_option (\<lambda>k. de_inum (dirents s dp ! k)) ?f"
    unfolding dmap_def find_nth[of "dirents s dp", symmetric] by (simp add: option.map_comp comp_def)
  have "i_type (inodes s dp) = T_DIR" using ok by (simp add: dir_ok_def)
  then have e: "dirlookup dv c dp name s = dirlookup_loop dv c dp name (map (\<lambda>k. k * DIRENT_SIZE) [0..<nents s dp]) s"
    unfolding dirlookup_def dir_offs_eq[OF ok] by simp
  show ?thesis
  proof (cases ?f)
    case None
    then show ?thesis using dirlookup_loop_ok[OF t ok, of 0 dv name] none d unfolding e by auto
  next
    case (Some k)
    then have "k < nents s dp" "hit (fname name) (dirents s dp ! k)" by (auto simp: find_Some_iff)
    then show ?thesis using Some dirlookup_loop_ok[OF t ok, of 0 dv name] some[of _ k] d unfolding e by auto
  qed
qed

section \<open>\<^verbatim>\<open>dirlink\<close>\<close>

abbreviation free_slot :: "u8 list list \<Rightarrow> nat" where
  "free_slot des \<equiv> length (takeWhile (\<lambda>de. de_inum de \<noteq> 0) des)"

lemma takeWhile_split:
  "k \<le> length xs \<Longrightarrow> (\<And>i. i < k \<Longrightarrow> P (xs ! i)) \<Longrightarrow> k + length (takeWhile P (drop k xs)) = length (takeWhile P xs)"
proof (induction k arbitrary: xs)
  case (Suc k)
  then obtain x ys where xs: "xs = x # ys" by (cases xs) auto
  have "P x" using Suc.prems(2)[of 0] xs by simp
  moreover have "k + length (takeWhile P (drop k ys)) = length (takeWhile P ys)"
    using Suc.prems(1) Suc.prems(2)[of "Suc _"] xs by (intro Suc.IH) auto
  ultimately show ?case using xs by simp
qed simp

lemma dirlink_loop_ok:
  fixes s :: "'a icache_scheme"
  assumes "tx c {} 0 s" and "dir_ok s dp" and "k \<le> nents s dp" and "\<And>i. i < k \<Longrightarrow> de_inum (dirents s dp ! i) \<noteq> 0"
  shows "\<exists>s'. tx c {} 0 s' \<and> same_store s s' \<and>
     dirlink_loop dv c dp (map (\<lambda>k. k * DIRENT_SIZE) [k..<nents s dp]) (k * DIRENT_SIZE) s =
       Ok (free_slot (dirents s dp) * DIRENT_SIZE, s')"
  using assms
proof (induction "nents s dp - k" arbitrary: k s)
  case 0
  then have "k = nents s dp" by simp
  moreover have "free_slot (dirents s dp) = k" using 0 takeWhile_split[of k "dirents s dp" "\<lambda>de. de_inum de \<noteq> 0"] by simp
  ultimately show ?case using 0 same_store_refl by auto
next
  case (Suc n)
  then have k: "k < nents s dp" by simp
  then have up: "[k..<nents s dp] = k # [Suc k..<nents s dp]" by (simp add: upt_conv_Cons)
  obtain s1 where s1: "readi dv c dp (of_nat (k * DIRENT_SIZE)) (of_nat DIRENT_SIZE) s = Ok (int DIRENT_SIZE, dirents s dp ! k, s1)"
    "tx c {} 0 s1" "same_store s s1" using dirent_read[OF Suc.prems(1,2) k] by blast
  note S = dir_same_store[OF s1(3)]
  show ?case
  proof (cases "de_inum (dirents s dp ! k) = 0")
    case True
    have "drop k (dirents s dp) = dirents s dp ! k # drop (Suc k) (dirents s dp)" using k by (simp add: Cons_nth_drop_Suc)
    then have "free_slot (dirents s dp) = k" using True Suc.prems(3,4) takeWhile_split[of k "dirents s dp" "\<lambda>de. de_inum de \<noteq> 0"] by simp
    then show ?thesis unfolding up using s1 True by (auto simp del: of_nat_mult)
  next
    case False
    have "dirlink_loop dv c dp (map (\<lambda>k. k * DIRENT_SIZE) [k..<nents s dp]) (k * DIRENT_SIZE) s =
        dirlink_loop dv c dp (map (\<lambda>k. k * DIRENT_SIZE) [Suc k..<nents s1 dp]) (Suc k * DIRENT_SIZE) s1"
      unfolding up S(3) using s1(1) False by (auto simp: add.commute simp del: of_nat_mult)
    moreover have h: "n = nents s1 dp - Suc k" "Suc k \<le> nents s1 dp" using Suc.hyps(2) S(3) k by simp_all
    moreover have "de_inum (dirents s1 dp ! i) \<noteq> 0" if "i < Suc k" for i
      using that Suc.prems(4) False S(2) by (cases "i = k") auto
    ultimately obtain s' where "tx c {} 0 s'" "same_store s1 s'"
      "dirlink_loop dv c dp (map (\<lambda>k. k * DIRENT_SIZE) [k..<nents s dp]) (k * DIRENT_SIZE) s = Ok (free_slot (dirents s1 dp) * DIRENT_SIZE, s')"
      using Suc.hyps(1)[OF h(1) s1(2) S(1)[OF Suc.prems(2)] h(2)] by auto
    then show ?thesis using same_store_trans[OF s1(3)] unfolding S(2) by auto
  qed
qed

text \<open>The list of entries and the map after an entry was stored in the first free place.\<close>

definition put_entry :: "nat \<Rightarrow> 'b \<Rightarrow> 'b list \<Rightarrow> 'b list" where
  "put_entry j x xs = (if j < length xs then xs[j := x] else xs @ [x])"

lemma find_append: "find P (xs @ ys) = (case find P xs of None \<Rightarrow> find P ys | Some x \<Rightarrow> Some x)"
  by (induction xs) auto

lemma dmap_put_entry:
  assumes "dmap des nm = None" and "dname de = nm" and "de_inum de \<noteq> 0"
  shows "dmap (put_entry (free_slot des) de des) = (dmap des)(nm \<mapsto> de_inum de)"
proof -
  obtain as bs where as: "as = takeWhile (\<lambda>de. de_inum de \<noteq> 0) des" and bs: "bs = dropWhile (\<lambda>de. de_inum de \<noteq> 0) des" by blast
  have des: "des = as @ bs" unfolding as bs by simp
  have no: "find (hit nm) as = None" using assms(1) unfolding des by (auto simp: dmap_def find_append split: option.splits)
  have hd: "hit x de \<longleftrightarrow> x = nm" for x using assms(2,3) by (auto simp: hit_def)
  have "dmap (put_entry (length as) de (as @ bs)) x = ((dmap (as @ bs))(nm \<mapsto> de_inum de)) x" for x
  proof (cases bs)
    case Nil
    then show ?thesis using hd[of x] no by (auto simp: put_entry_def dmap_def find_append split: option.splits)
  next
    case (Cons z zs)
    then have "de_inum z = 0" using bs hd_dropWhile[of "\<lambda>de. de_inum de \<noteq> 0" des] by auto
    then show ?thesis using Cons hd[of x] no by (auto simp: put_entry_def dmap_def find_append hit_def[of _ z] split: option.splits)
  qed
  then show ?thesis unfolding as[symmetric] des[symmetric] by blast
qed

lemma nth_splice:
  assumes "off \<le> length xs" and "i < max (length xs) (off + length ys)"
  shows "splice off ys xs ! i = (if off \<le> i \<and> i < off + length ys then ys ! (i - off) else xs ! i)"
  using assms by (auto simp: splice_def nth_append)

lemma dirents_splice:
  fixes s s' :: "'a icache_scheme"
  assumes ok: "dir_ok s dp" and fd: "fdata s' dp = splice (j * DIRENT_SIZE) de (fdata s dp)"
    and de: "length de = DIRENT_SIZE" and j: "j \<le> nents s dp"
  shows "dirents s' dp = put_entry j de (dirents s dp)" and "DIRENT_SIZE dvd unat (i_size (inodes s' dp))"
proof -
  let ?N = "nents s dp" and ?xs = "fdata s dp"
  have len: "length ?xs = ?N * 16" using ok by (simp add: dir_ok_def DIRENT_SIZE_val)
  define M where "M = max ?N (Suc j)"
  have len': "length (fdata s' dp) = M * 16"
    unfolding fd using j len de by (auto simp: splice_def DIRENT_SIZE_val M_def max_def)
  then have sz: "unat (i_size (inodes s' dp)) = M * 16" by simp
  then show "DIRENT_SIZE dvd unat (i_size (inodes s' dp))" by (simp add: DIRENT_SIZE_val)
  have N': "nents s' dp = M" using sz by (simp add: DIRENT_SIZE_val)
  show "dirents s' dp = put_entry j de (dirents s dp)"
  proof (rule nth_equalityI)
    show "length (dirents s' dp) = length (put_entry j de (dirents s dp))"
      using j N' by (auto simp: put_entry_def M_def max_def)
    fix k assume "k < length (dirents s' dp)"
    then have k: "k < M" using N' by simp
    have nth: "fdata s' dp ! i = (if j * 16 \<le> i \<and> i < j * 16 + 16 then de ! (i - j * 16) else ?xs ! i)" if "i < M * 16" for i
      unfolding fd using that j len de by (subst nth_splice) (auto simp: DIRENT_SIZE_val M_def max_def split: if_splits)
    have chunk: "dirents s' dp ! k = take 16 (drop (k * 16) (fdata s' dp))" using k N' dirents_nth[of k s' dp] by (simp add: DIRENT_SIZE_val)
    show "dirents s' dp ! k = put_entry j de (dirents s dp) ! k"
    proof (cases "k = j")
      case True
      have "dirents s' dp ! k = de" unfolding chunk
      proof (rule nth_equalityI)
        show "length (take 16 (drop (k * 16) (fdata s' dp))) = length de" using len' k de by (simp add: DIRENT_SIZE_val)
        fix i assume "i < length (take 16 (drop (k * 16) (fdata s' dp)))"
        then have "i < 16" "k * 16 + i < M * 16" using len' by auto
        then show "take 16 (drop (k * 16) (fdata s' dp)) ! i = de ! i" using nth[of "k * 16 + i"] len' True by simp
      qed
      then show ?thesis using True j by (auto simp: put_entry_def nth_append)
    next
      case False
      then have kN: "k < ?N" using k j by (auto simp: M_def max_def split: if_splits)
      have "dirents s' dp ! k = dirents s dp ! k" unfolding chunk dirents_nth[OF kN] DIRENT_SIZE_val
      proof (rule nth_equalityI)
        show "length (take 16 (drop (k * 16) (fdata s' dp))) = length (take 16 (drop (k * 16) ?xs))" using len len' k kN by simp
        fix i assume "i < length (take 16 (drop (k * 16) (fdata s' dp)))"
        then have i: "i < 16" "k * 16 + i < M * 16" using len' by auto
        moreover have "\<not> (j * 16 \<le> k * 16 + i \<and> k * 16 + i < j * 16 + 16)" using i(1) False by linarith
        moreover have "k * 16 + i < ?N * 16" using i(1) kN by linarith
        ultimately show "take 16 (drop (k * 16) (fdata s' dp)) ! i = take 16 (drop (k * 16) ?xs) ! i"
          using nth[OF i(2)] len len' by (simp del: de_Morgan_conj)
      qed
      then show ?thesis using False kN by (simp add: put_entry_def nth_append)
    qed
  qed
qed

lemma touched_entry: "touched (j * DIRENT_SIZE) DIRENT_SIZE = 1"
proof -
  have "(j * 16 + 15) div (16 * 32) = j * 16 div (16 * 32)" unfolding div_mult2_eq by simp
  then show ?thesis by (simp add: touched_def DIRENT_SIZE_val BSIZE_def)
qed

lemma wrote_from:
  fixes s t u :: "'a icache_scheme"
  assumes st: "same_store s t" and w: "wrote ip off src t u"
  shows "wrote ip off src s u"
proof -
  have m: "meta t = meta s" and sb: "fs_sb t = fs_sb s" and ino: "inodes t = inodes s"
    using meta_frame[OF same_store_tx_frame[OF st]] tx_frame_icache[OF same_store_tx_frame[OF st]] by simp_all
  show ?thesis using w unfolding wrote_def m sb ino same_storeD(1)[OF st] fdata_same_store[OF st] .
qed

lemma filetx_same_store:
  fixes s t :: "'a icache_scheme"
  assumes "filetx c {} D k ip s" and "same_store s t" and "tx c {} j t"
  shows "filetx c {} D k ip t" and "need t ip = need s ip"
proof -
  note S = slots_same[OF same_store_tx_frame[OF assms(2)] same_storeD(1)[OF assms(2)]]
  have "fstx c {} D k t"
    using assms(1) same_storeD(4)[OF assms(2)]
    by (intro tx_fstx[OF _ assms(3) _ same_store_tx_frame[OF assms(2)]]) (auto simp: filetx_def fstx_def)
  then show "filetx c {} D k ip t" by (rule S(6)[OF assms(1)])
  show "need t ip = need s ip" by (rule S(5))
qed

lemma fstx_tx0: "fstx c H D k s \<Longrightarrow> tx c H 0 s"
  using fstx_tx[of c H D k s] by (simp add: tx_def)

text \<open>
  \<^verbatim>\<open>dirlink\<close> with a name that is not in the directory adds it to the map. The entry is the only part of the
  directory that is written.
\<close>

definition linked_as :: "nat \<Rightarrow> u8 list \<Rightarrow> u16 \<Rightarrow> 'a icache_scheme \<Rightarrow> 'a icache_scheme \<Rightarrow> bool" where
  "linked_as dp name inum s s' \<longleftrightarrow>
     dir_ok s' dp \<and> dmap (dirents s' dp) = (dmap (dirents s dp))(fname name \<mapsto> inum) \<and>
     wrote dp (free_slot (dirents s dp) * DIRENT_SIZE) (mk_dirent inum (of_bytes name)) s s'"

lemma dirlink_ok:
  fixes s :: "'a icache_scheme"
  assumes t: "filetx c {} D (Suc (need s dp)) dp s" and ok: "dir_ok s dp"
    and ib: "IBLOCK (i_inum (inodes s dp)) (fs_sb s) \<in> D" "i_inum (inodes s dp) < sb_ninodes (fs_sb s)"
    and new: "dmap (dirents s dp) (fname name) = None" and inum: "ucast inum \<noteq> (0 :: u16)"
    and fit: "unat (i_size (inodes s dp)) + DIRENT_SIZE \<le> MAXFILE * BSIZE"
  shows "(\<exists>s' D'. dirlink dv c dp name inum s = Ok (0, s') \<and> linked_as dp name (ucast inum) s s' \<and> filetx c {} D' (need s' dp) dp s') \<or>
         (dirlink dv c dp name inum s = Panic ''balloc: out of blocks'' \<and> nfree s \<le> need s dp)"
proof -
  let ?j = "free_slot (dirents s dp)" and ?de = "mk_dirent (ucast inum) (of_bytes name)"
  have "tx c {} 0 s" using t by (auto simp: filetx_def intro: fstx_tx0)
  then obtain s1 where s1: "dirlookup dv c dp name s = Ok (None, s1)" "tx c {} 0 s1" "same_store s s1"
    by (rule dirlookup_ok[OF _ ok, of c name dv]) (use new in auto)
  note S1 = dir_same_store[OF s1(3)]
  obtain s2 where s2: "dirlink_loop dv c dp (dir_offs (i_size (inodes s1 dp))) 0 s1 = Ok (?j * DIRENT_SIZE, s2)" "tx c {} 0 s2" "same_store s1 s2"
    using dirlink_loop_ok[OF s1(2) S1(1)[OF ok], of 0 dv] dir_offs_eq[OF S1(1)[OF ok]] S1(2) by auto
  have ss: "same_store s s2" by (rule same_store_trans[OF s1(3) s2(3)])
  note S = dir_same_store[OF ss]
  have sb: "fs_sb s2 = fs_sb s" using tx_frame_icache[OF same_store_tx_frame[OF ss]] by simp
  have jN: "?j \<le> nents s dp" using length_takeWhile_le[of "\<lambda>de. de_inum de \<noteq> 0" "dirents s dp"] by simp
  then have jb: "?j * DIRENT_SIZE \<le> unat (i_size (inodes s dp))" by (simp add: DIRENT_SIZE_val)
  have ju: "unat (of_nat (?j * DIRENT_SIZE) :: u32) = ?j * DIRENT_SIZE"
    using jb u32_bound[of "i_size (inodes s dp)"] by (intro u32_of_nat) simp
  have ok2: "dir_ok s2 dp" by (rule S(1)[OF ok])
  then have k2: "fs_ok s2" "file_ok s2 dp" "full s2 dp" "i_type (inodes s2 dp) \<noteq> T_DEV"
    by (simp_all add: dir_ok_def T_DIR_def T_DEV_def)
  have t2: "filetx c {} D (touched (unat (of_nat (?j * DIRENT_SIZE) :: u32)) (length ?de) + need s2 dp) dp s2"
    using filetx_same_store[OF t ss s2(2)] unfolding ju mk_dirent(1) touched_entry by simp
  have "of_nat (?j * DIRENT_SIZE) \<le> i_size (inodes s2 dp)" using jb ju S(3) by (simp add: word_le_nat_alt del: of_nat_mult)
  moreover have "unat (of_nat (?j * DIRENT_SIZE) :: u32) + length ?de \<le> MAXFILE * BSIZE" using jb fit unfolding ju mk_dirent(1) by simp
  ultimately have "(\<exists>s' D'. writei dv c dp ?de (of_nat (?j * DIRENT_SIZE)) s2 = Ok (int (length ?de), s') \<and>
        wrote dp (unat (of_nat (?j * DIRENT_SIZE) :: u32)) ?de s2 s' \<and> filetx c {} D' (need s' dp) dp s') \<or>
      (writei dv c dp ?de (of_nat (?j * DIRENT_SIZE)) s2 = Panic ''balloc: out of blocks'' \<and>
        nfree s2 < touched (unat (of_nat (?j * DIRENT_SIZE) :: u32)) (length ?de) + need s2 dp)"
    by (intro writei_ok[OF t2 k2(1,2,3)]) (use ib k2(4) sb S(3) in \<open>simp_all del: of_nat_mult\<close>)
  then show ?thesis
  proof (elim disjE exE conjE)
    fix s' D'
    assume w: "writei dv c dp ?de (of_nat (?j * DIRENT_SIZE)) s2 = Ok (int (length ?de), s')"
      "wrote dp (unat (of_nat (?j * DIRENT_SIZE) :: u32)) ?de s2 s'" "filetx c {} D' (need s' dp) dp s'"
    have wr: "wrote dp (?j * DIRENT_SIZE) ?de s s'" using wrote_from[OF ss w(2)] unfolding ju .
    have fd: "fdata s' dp = splice (?j * DIRENT_SIZE) ?de (fdata s dp)" using wr by (simp add: wrote_def)
    note E = dirents_splice[OF ok fd mk_dirent(1) jN]
    have "dir_ok s' dp" using wr E(2) ok unfolding wrote_def dir_ok_def by simp
    moreover have "dmap (dirents s' dp) = (dmap (dirents s dp))(fname name \<mapsto> ucast inum)"
      using dmap_put_entry[OF new, of ?de] inum unfolding E(1) by (simp add: mk_dirent)
    moreover have "dirlink dv c dp name inum s = Ok (0, s')"
      unfolding dirlink_def using s1(1) s2(1) w(1) by (simp add: mk_dirent(1) del: of_nat_mult)
    ultimately show ?thesis using w(3) wr unfolding linked_as_def by blast
  next
    assume p: "writei dv c dp ?de (of_nat (?j * DIRENT_SIZE)) s2 = Panic ''balloc: out of blocks''"
      "nfree s2 < touched (unat (of_nat (?j * DIRENT_SIZE) :: u32)) (length ?de) + need s2 dp"
    have "nfree s2 = nfree s" using sb same_storeD(1)[OF ss] by (simp add: nfree_def)
    then have "nfree s \<le> need s dp" using p(2) filetx_same_store(2)[OF t ss s2(2)] unfolding ju mk_dirent(1) touched_entry by simp
    then show ?thesis using s1(1) s2(1) p(1) by (simp add: dirlink_def del: of_nat_mult)
  qed
qed

end
