(* ===== verification/Fs_Demo.thy ===== *)
theory Fs_Demo
  imports Fs_Dir Demo
begin

text \<open>
  A concrete file system for the witnesses: the disk of the earlier theories with a super block and a
  bitmap that marks the blocks below 64 as used, a file of 600 bytes in the blocks 60 and 61, and a
  directory in block 62 with the entry for itself and a free one.
\<close>

definition demo_disk :: "u32 \<Rightarrow> block" where
  "demo_disk n =
     (if n = 1 then put32 0 1000 (put32 4 941 (put32 8 200 (put32 12 30 (put32 16 2 (put32 20 32 (put32 24 58 (\<lambda>_. 0)))))))
      else if n = 58 then (\<lambda>i. if i < 8 then 255 else 0)
      else if n = 62 then of_bytes (mk_dirent 6 (of_bytes [46]))
      else (\<lambda>_. 0))"

definition demo_inodes :: "nat \<Rightarrow> inode" where
  "demo_inodes i =
     (if i = 0 then blank_inode\<lparr>i_dev := 1, i_inum := 5, i_ref := 1, i_valid := True, i_type := T_FILE, i_nlink := 1,
                                i_size := 600, i_addrs := (\<lambda>k. if k = 0 then 60 else if k = 1 then 61 else 0)\<rparr>
      else if i = 1 then blank_inode\<lparr>i_dev := 1, i_inum := 6, i_ref := 1, i_valid := True, i_type := T_DIR, i_nlink := 1,
                                i_size := 32, i_addrs := (\<lambda>k. if k = 0 then 62 else 0)\<rparr>
      else blank_inode)"

definition demo_fs :: icache where
  "demo_fs = log.extend (demo_log\<lparr>disk := demo_disk\<rparr>) (icache.fields demo_sb demo_inodes)"

lemma demo_fs_simps [simp]:
  "bufs demo_fs = demo_buf" "disk demo_fs = demo_disk" "disksize demo_fs = 1000" "l_start demo_fs = 2" "l_size demo_fs = 30"
  "l_outstanding demo_fs = 1" "l_dev demo_fs = 1" "lh_n demo_fs = 1" "lh_block demo_fs = (\<lambda>_. 50)"
  "procs demo_fs = procs demo" "queue demo_fs = queue demo" "cpus demo_fs = cpus demo"
  "fs_sb demo_fs = demo_sb" "inodes demo_fs = demo_inodes"
  by (simp_all add: demo_fs_def log.defs icache.defs demo_log_defs)

lemma demo_fs_dirty: "dirty_blocks demo_fs = {50}"
  using demo_dirty by (simp add: dirty_blocks_def)

lemma demo_fs_bio_ok: "bio_ok 0 {} demo_fs"
proof (rule bio_okI)
  show "ptable_ok demo_fs" using ptable_ok_cong[of demo_fs demo] demo_ok by simp
  show "lru demo_fs [0..<NBUF]" using demo_lru by (simp add: lru_def)
  show "unique_keys (bufs demo_fs)" by (auto simp: unique_keys_def demo_buf_def bkey_def)
  show "myproc 0 demo_fs = Some 0" by (simp add: myproc_def demo_slots)
  show "buf_ok (p_pid (procs demo_fs 0)) (disk demo_fs) (disksize demo_fs) (i \<in> {}) (bufs demo_fs i)" for i
    by (auto simp: buf_ok_def demo_buf_def initsleeplock_def bvalid_def bdirty_def B_VALID_def B_DIRTY_def)
qed simp

lemma demo_fs_len: "log_len demo_fs = 29"
  by (simp add: log_len_def LOGSIZE_def MAXOPBLOCKS_def)

lemma demo_fs_logged: "logged 0 {} demo_fs"
proof -
  have n50: "(50 :: u32) \<notin> log_area 2 29" using demo_log_area[of 50] by auto
  have sz: "n < (1000 :: u32)" if "n \<in> log_area (2 :: u32) 29" for n
    using demo_log_area[OF that] by (simp add: word_less_nat_alt)
  have z: "hdr_n (demo_disk 2) = 0" by (simp add: hdr_n_def get32_def demo_disk_def)
  show ?thesis
    unfolding logged_def demo_fs_len using demo_fs_bio_ok n50 sz z by (auto simp: demo_fs_dirty inj_on_def)
qed

lemma demo_fs_view: "n \<noteq> 50 \<Longrightarrow> view demo_fs n = demo_disk n"
  by (auto simp: view_def buffer_of_def find_first_Some demo_buf_def bkey_def split: option.splits if_splits)

section \<open>The layout\<close>

lemma demo_BBLOCK: "b < 1000 \<Longrightarrow> BBLOCK b demo_sb = 58"
proof -
  assume "b < 1000"
  then have "b div 4096 = (0 :: u32)" by (simp add: word_less_nat_alt word_unat_eq_iff unat_div)
  then show ?thesis by (simp add: BBLOCK_def demo_sb_def BPB_eq)
qed

lemma demo_IBLOCK: "i < 200 \<Longrightarrow> unat (IBLOCK i demo_sb) = unat i div 8 + 32"
proof -
  assume "i < 200"
  then have "unat i div 8 < 25" by (simp add: word_less_nat_alt less_mult_imp_div_less)
  moreover have "unat (i div 8) = unat i div 8" by (simp add: unat_div)
  ultimately show ?thesis
    unfolding IBLOCK_def by (simp add: demo_sb_def IPB_def BSIZE_def DINODE_SIZE_def NDIRECT_def unat_add_lem[THEN iffD1])
qed

lemma demo_used: "unat n < 64 \<Longrightarrow> used demo_sb (view demo_fs) n"
proof -
  assume n: "unat n < 64"
  then have "n < 1000" by (simp add: word_less_nat_alt)
  then have "BBLOCK n demo_sb = 58" by (rule demo_BBLOCK)
  moreover have "(255 :: u8) AND push_bit (unat n mod 8) 1 \<noteq> 0"
  proof
    assume "(255 :: u8) AND push_bit (unat n mod 8) 1 = 0"
    then have "bit ((255 :: u8) AND push_bit (unat n mod 8) 1) (unat n mod 8) = bit (0 :: u8) (unat n mod 8)" by simp
    moreover have "(255 :: u8) = mask 8" by (simp add: mask_eq_exp_minus_1)
    ultimately show False by (simp add: bit_simps)
  qed
  ultimately show ?thesis using n by (simp add: used_def bm_free_def demo_fs_view demo_disk_def BPB_eq)
qed

lemma demo_bitmaps: "bitmaps demo_sb = {58}"
proof -
  have "(0 :: u32) < 1000" by simp
  then show ?thesis using demo_BBLOCK unfolding bitmaps_def by (auto simp: demo_sb_def intro!: exI[of _ "0 :: u32"])
qed

lemma demo_inode_blocks: "n \<in> inode_blocks demo_sb \<Longrightarrow> 32 \<le> unat n \<and> unat n < 57"
proof -
  assume "n \<in> inode_blocks demo_sb"
  then obtain i where i: "i < 200" "n = IBLOCK i demo_sb" by (auto simp: inode_blocks_def demo_sb_def)
  then show ?thesis using demo_IBLOCK[OF i(1)] by (simp add: word_less_nat_alt less_mult_imp_div_less)
qed

lemma demo_log_blocks: "n \<in> log_area (2 :: u32) 29 \<Longrightarrow> 2 \<le> unat n \<and> unat n < 32"
  using log_area_bound[of n 2 29 32] by simp

lemma demo_meta: "n \<in> meta demo_fs \<Longrightarrow> unat n < 59"
  unfolding meta_def using demo_bitmaps demo_inode_blocks[of n] demo_log_blocks[of n] by (auto simp: demo_fs_len)

lemma demo_decode: "decode_sb (demo_disk 1) = demo_sb"
  by (simp add: decode_sb_def demo_disk_def demo_sb_def get_put_other)

lemma demo_fs_ok: "fs_ok demo_fs"
proof -
  have "sb_size demo_sb \<le> 1000" "unat (sb_size demo_sb) + BPB < 2 ^ 32" by (simp_all add: demo_sb_def BPB_eq)
  moreover have "n < sb_size demo_sb \<and> used demo_sb (view demo_fs) n" if "n \<in> meta demo_fs" for n
    using demo_meta[OF that] demo_used[of n] by (simp add: demo_sb_def word_less_nat_alt)
  moreover have "1 \<notin> bitmaps demo_sb \<union> inode_blocks demo_sb" "0 \<notin> inode_blocks demo_sb" "bitmaps demo_sb \<inter> inode_blocks demo_sb = {}"
    using demo_inode_blocks[of 1] demo_inode_blocks[of 0] demo_inode_blocks[of 58] by (auto simp: demo_bitmaps)
  moreover have "insert 1 (bitmaps demo_sb \<union> inode_blocks demo_sb) \<inter> log_area 2 29 = {}"
    using demo_log_blocks[of 1] demo_log_blocks[of 58] demo_log_blocks demo_inode_blocks unfolding demo_bitmaps by fastforce
  moreover have "decode_sb (view demo_fs 1) = demo_sb" by (simp add: demo_fs_view demo_decode)
  ultimately show ?thesis unfolding fs_ok_def demo_fs_len by simp
qed

section \<open>The file and the directory\<close>

lemma demo_size: "sb_size demo_sb = 1000"
  by (simp add: demo_sb_def)

lemma demo_slots0: "slot (demo_inodes 0) V k = (if k = 0 then 60 else if k = 1 then 61 else 0)"
  and demo_slots1: "slot (demo_inodes (Suc 0)) V k = (if k = 0 then 62 else 0)"
  by (simp_all add: slot_def demo_inodes_def NDIRECT_def)

lemma demo_file_ok:
  assumes "ip \<in> {0, 1}"
  shows "file_ok demo_fs ip"
proof -
  have nm: "n < 1000 \<and> n \<notin> meta demo_fs \<and> used demo_sb (view demo_fs) n" if "unat n \<in> {60, 61, 62}" for n :: u32
    using that demo_meta[of n] demo_used[of n] by (auto simp: word_less_nat_alt)
  have "slots_ok demo_fs (slots demo_fs ip)"
    using assms nm[of 60] nm[of 61] nm[of 62] unfolding slots_ok_def
    by (elim insertE emptyE) (simp_all add: demo_slots0 demo_slots1 demo_size)
  moreover have "i_dev (inodes demo_fs ip) = 1" using assms by (auto simp: demo_inodes_def)
  ultimately show ?thesis by (simp add: file_ok_def)
qed

lemma demo_full: "ip \<in> {0, 1} \<Longrightarrow> full demo_fs ip"
proof -
  assume ip: "ip \<in> {0, 1}"
  have sz: "unat (i_size (demo_inodes 0)) = 600" "unat (i_size (demo_inodes 1)) = 32" by (simp_all add: demo_inodes_def)
  have "slots demo_fs 0 (slot_of (i div BSIZE)) \<noteq> 0" if "i < 600" for i
  proof -
    have "i div BSIZE < 2" using that by (intro less_mult_imp_div_less) (simp add: BSIZE_def)
    then have "i div BSIZE = 0 \<or> i div BSIZE = 1" by linarith
    then show ?thesis by (auto simp: demo_slots0 slot_of_def NDIRECT_def)
  qed
  moreover have "slots demo_fs 1 (slot_of (i div BSIZE)) \<noteq> 0" if "i < 32" for i
    using that by (simp add: demo_slots1 slot_of_def NDIRECT_def BSIZE_def)
  ultimately show ?thesis using ip sz
    by (auto simp: full_def present_def MAXFILE_def NDIRECT_def NINDIRECT_def BSIZE_def)
qed

lemma demo_dir_ok: "dir_ok demo_fs 1"
proof -
  have "i_type (demo_inodes 1) = T_DIR" "unat (i_size (demo_inodes 1)) = 32" by (simp_all add: demo_inodes_def)
  then show ?thesis using demo_fs_ok demo_file_ok[of 1] demo_full[of 1] by (simp add: dir_ok_def DIRENT_SIZE_val)
qed

text \<open>The transaction of the logged state has room for ten more blocks.\<close>

lemma demo_fstx: "fstx 0 {} (insert 50 (insert 58 A)) k demo_fs"
  if "finite A" "card A + k \<le> 10" "\<And>n. n \<in> A \<Longrightarrow> n < 1000 \<and> n \<notin> log_area 2 29"
proof -
  have "card (insert 50 (insert 58 A)) \<le> card A + 2"
    using that(1) by (metis (no_types, lifting) add_2_eq_Suc' card_insert_le_m1 card_insert_if finite_insert le_SucI order_refl Suc_le_mono)
  moreover have "(50 :: u32) \<notin> log_area 2 29" "(58 :: u32) \<notin> log_area 2 29"
    using demo_log_blocks[of 50] demo_log_blocks[of 58] by auto
  ultimately show ?thesis
    unfolding fstx_def demo_fs_len using that demo_fs_logged by (auto simp: demo_fs_dirty NBUF_def MAXOPBLOCKS_def)
qed

section \<open>The entries of the directory\<close>

lemma of_bytes_padded: "map (of_bytes xs) [0..<length xs + n] = xs @ replicate n 0"
  by (rule nth_equalityI) (auto simp: of_bytes_def nth_append)

abbreviation demo_entry :: "u8 list" where
  "demo_entry \<equiv> mk_dirent 6 (of_bytes [46])"

lemma demo_fdata: "fdata demo_fs (Suc 0) = demo_entry @ replicate 16 0"
proof -
  have "fbyte demo_fs (Suc 0) i = of_bytes demo_entry i" if "i < 32" for i
    using that by (simp add: fbyte_def Let_def BSIZE_def demo_slots1 slot_of_def NDIRECT_def demo_fs_view demo_disk_def)
  moreover have "unat (i_size (demo_inodes (Suc 0))) = length demo_entry + 16"
    by (simp add: demo_inodes_def mk_dirent(1) DIRENT_SIZE_val)
  ultimately show ?thesis
    unfolding of_bytes_padded[symmetric] fdata_def by (simp add: mk_dirent(1) DIRENT_SIZE_val)
qed

lemma demo_dirents: "dirents demo_fs (Suc 0) = [demo_entry, replicate 16 0]"
proof -
  have "unat (i_size (demo_inodes (Suc 0))) div DIRENT_SIZE = 2" by (simp add: demo_inodes_def DIRENT_SIZE_val)
  then show ?thesis
    using mk_dirent(1)[of 6 "of_bytes [46]"] unfolding dirents_def demo_fdata by (simp add: DIRENT_SIZE_val upt_conv_Cons)
qed

lemma fname_single: "x \<noteq> 0 \<Longrightarrow> fname [x] = [x]"
  by (simp add: DIRSIZ_def eval_nat_numeral of_bytes_def)

lemma demo_dmap: "dmap (dirents demo_fs (Suc 0)) nm = (if nm = [46] then Some 6 else None)"
proof -
  have "de_inum (replicate 16 0) = 0" by (simp add: de_inum_def get16_def of_bytes_def)
  moreover have "dname demo_entry = [46]" using fname_single[of 46] by (simp add: mk_dirent(3))
  ultimately show ?thesis by (auto simp: demo_dirents dmap_def hit_def mk_dirent(2))
qed

end
