(* ===== verification/Fs_Properties.thy ===== *)
theory Fs_Properties
  imports Fs_Demo File_Defs
begin

text \<open>
  Properties of the file system: blocks are allocated lowest first and zeroed, and released again; a write
  that a system call makes after \<^verbatim>\<open>begin_op\<close> replaces the bytes it should and fits the log, and a read
  delivers them; directories implement maps from names to inode numbers.
\<close>

section \<open>Transactions admitted by \<^verbatim>\<open>begin_op\<close>\<close>

lemma touched_bound: "n \<le> write_max \<Longrightarrow> touched off n \<le> 4"
proof -
  assume "n \<le> write_max"
  then have n: "n \<le> 1536" by (simp add: write_max_def MAXOPBLOCKS_def)
  have "(off + n - 1) div 512 \<le> (off + 1535) div 512" using n by (intro div_le_mono) simp
  also have "(off + 1535) div 512 < off div 512 + 4"
  proof (rule less_mult_imp_div_less)
    obtain q r where e: "off = q * 512 + r" "r < 512" using div_mult_mod_eq[of off 512, symmetric] by (rule that) simp
    have "off div 512 = q" unfolding e(1) using e(2) by simp
    then show "off + 1535 < (off div 512 + 4) * 512" using e(2) by (simp add: e(1))
  qed
  finally show ?thesis by (simp add: touched_def BSIZE_def le_diff_conv)
qed

lemma bitmaps_one: "sb_size sb \<le> of_nat BPB \<Longrightarrow> card (bitmaps sb) \<le> 1 \<and> finite (bitmaps sb)"
proof -
  assume s: "sb_size sb \<le> of_nat BPB"
  have "BBLOCK b sb = sb_bmapstart sb" if "b < sb_size sb" for b
  proof -
    have "unat b < 4096" using that s by (simp add: BPB_eq word_le_nat_alt word_less_nat_alt)
    then have "b div 4096 = 0" by (simp add: word_unat_eq_iff unat_div)
    then show ?thesis by (simp add: BBLOCK_def BPB_eq)
  qed
  then have "bitmaps sb \<subseteq> {sb_bmapstart sb}" by (auto simp: bitmaps_def)
  then show ?thesis using card_mono[of "{sb_bmapstart sb}" "bitmaps sb"] finite_subset by auto
qed

lemma begin_op_logged:
  assumes "begin_op s0 = Ok s" and "logged c {} s0" and "0 \<le> l_outstanding s0"
  shows "logged c {} s" and "1 \<le> l_outstanding s" and "card (dirty_blocks s) + MAXOPBLOCKS \<le> LOGSIZE" and "l_size s = l_size s0"
proof -
  have s: "s = s0\<lparr>l_outstanding := l_outstanding s0 + 1\<rparr>" and r: "lh_n s0 + (l_outstanding s0 + 1) * int MAXOPBLOCKS \<le> int LOGSIZE"
    using assms(1) by (auto simp: begin_op_def split: if_splits)
  have "bio_ok c {} s = bio_ok c {} s0" "dirty_blocks s = dirty_blocks s0" by (rule bio_cong; simp add: s)+
  then show l: "logged c {} s" using assms(2) unfolding logged_def by (simp add: s log_len_def)
  show "1 \<le> l_outstanding s" "l_size s = l_size s0" using assms(3) by (simp_all add: s)
  have "1 * int MAXOPBLOCKS \<le> (l_outstanding s0 + 1) * int MAXOPBLOCKS" using assms(3) by (intro mult_right_mono) auto
  then have "lh_n s + int MAXOPBLOCKS \<le> int LOGSIZE" using r by (simp add: s)
  then show "card (dirty_blocks s) + MAXOPBLOCKS \<le> LOGSIZE" 
    unfolding logged_card[OF l] using l by (subst of_nat_le_iff[symmetric, where 'a = int]) (simp add: logged_def)
qed

text \<open>The blocks that a write of one file may change fit the share of a system call.\<close>

lemma begin_op_filetx:
  fixes s :: "'a icache_scheme"
  assumes b: "begin_op s0 = Ok s" "logged c {} s0" "0 \<le> l_outstanding s0" and sz: "int LOGSIZE \<le> l_size s0" "sb_size (fs_sb s) \<le> of_nat BPB"
    and ok: "fs_ok s" "file_ok s ip" "i_inum (inodes s ip) < sb_ninodes (fs_sb s)" and k: "k \<le> 4"
  shows "\<exists>D. filetx c {} D (k + need s ip) ip s \<and> IBLOCK (i_inum (inodes s ip)) (fs_sb s) \<in> D"
proof -
  note B = begin_op_logged[OF b]
  let ?ib = "IBLOCK (i_inum (inodes s ip)) (fs_sb s)"
  define I where "I = (if slots s ip NDIRECT = 0 then {} else {slots s ip NDIRECT})"
  define D where "D = dirty_blocks s \<union> bitmaps (fs_sb s) \<union> {?ib} \<union> I"
  have bm: "card (bitmaps (fs_sb s)) \<le> 1" "finite (bitmaps (fs_sb s))" using bitmaps_one[OF sz(2)] by auto
  have fin: "finite (dirty_blocks s)" using B(1) by (simp add: logged_def)
  have cI: "card I + need s ip = 1" "finite I" by (simp_all add: I_def need_def)
  have "card D \<le> card (dirty_blocks s) + card (bitmaps (fs_sb s)) + card {?ib} + card I"
    unfolding D_def by (intro order_trans[OF card_Un_le] add_mono order_refl)
  then have card: "card D + (k + need s ip) \<le> card (dirty_blocks s) + 7" using bm(1) cI(1) k by simp
  have ll: "29 \<le> log_len s" using sz(1) B(4) by (simp add: log_len_def LOGSIZE_def MAXOPBLOCKS_def)
  have "n < disksize s \<and> n \<notin> log_area (l_start s) (log_len s)" if n: "n \<in> D" for n
  proof -
    consider "n \<in> dirty_blocks s" | "n \<in> bitmaps (fs_sb s) \<union> inode_blocks (fs_sb s)" | "n = slots s ip NDIRECT" "slots s ip NDIRECT \<noteq> 0"
      using n ok(3) by (auto simp: D_def I_def inode_blocks_def split: if_splits)
    then show ?thesis
    proof cases
      case 1
      have "dirty_blocks s \<inter> log_area (l_start s) (log_len s) = {}" using B(1) by (simp add: logged_def)
      moreover have "bio_ok c {} s" using B(1) by (simp add: logged_def)
      ultimately show ?thesis using 1 by (auto simp: dirty_blocks_def buf_ok_def elim!: bio_okE)
    next
      case 2
      then show ?thesis using ok(1) fs_ok_meta(3)[OF ok(1)] metaI(1,2)[of n s] by (auto simp: fs_ok_def)
    next
      case 3
      then show ?thesis using file_okD[OF ok(2) NSLOTS_NDIRECT] ok(1) metaI(3)[of n s] by (auto simp: fs_ok_def)
    qed
  qed
  then have "fstx c {} D (k + need s ip) s"
    unfolding fstx_def using B card ll bm(2) fin cI(2) by (auto simp: D_def LOGSIZE_def MAXOPBLOCKS_def NBUF_def)
  then show ?thesis unfolding filetx_def by (intro exI[of _ D]) (auto simp: D_def I_def)
qed

section \<open>Blocks\<close>

lemma demo_unused: "64 \<le> unat n \<Longrightarrow> unat n < 1000 \<Longrightarrow> \<not> used demo_sb (view demo_fs) n"
proof -
  assume n: "64 \<le> unat n" "unat n < 1000"
  then have "BBLOCK n demo_sb = 58" by (intro demo_BBLOCK) (simp add: word_less_nat_alt)
  then show ?thesis using n by (simp add: used_def bm_free_def demo_fs_view demo_disk_def BPB_eq)
qed

lemma demo_balloc: "\<exists>s'. balloc 0 1 demo_fs = Ok (64, s')"
proof -
  have t: "fstx 0 {} {50, 58} (Suc 0) demo_fs" "bitmaps (fs_sb demo_fs) \<subseteq> {50, 58}" using demo_fstx[of "{}"] by (simp_all add: demo_bitmaps)
  have free: "\<not> used demo_sb (view demo_fs) 64" by (rule demo_unused) simp_all
  moreover have "(64 :: u32) < sb_size demo_sb" by (simp add: demo_size)
  ultimately obtain b s' where b: "balloc 0 1 demo_fs = Ok (b, s')" "allocates 0 {} {50, 58} 0 demo_fs b s'" "\<forall>b' < b. used demo_sb (view demo_fs) b'"
    using balloc_ok[OF t(1) demo_fs_ok t(2) file_bufs_empty] by auto
  have "\<not> unat b < 64" using b(2) demo_used[of b] by (auto simp: allocates_def)
  moreover have "\<not> 64 < b" using b(3) free by blast
  ultimately have "b = 64" by (simp add: word_less_nat_alt word_unat_eq_iff)
  then show ?thesis using b(1) by blast
qed

text \<open>
  C32: \<^verbatim>\<open>balloc\<close> returns the lowest free block, marks it as used and fills it with zeros, and changes no
  other block and no other bit of the bitmap; it panics exactly when no block is free.
\<close>

theorem balloc_lowest:
  fixes s :: "'a icache_scheme"
  assumes "fstx c {} D (Suc k) s" and "fs_ok s" and "bitmaps (fs_sb s) \<subseteq> D"
  shows "(\<exists>b s'. balloc c 1 s = Ok (b, s') \<and> b < sb_size (fs_sb s) \<and> \<not> used (fs_sb s) (view s) b \<and>
            (\<forall>b' < b. used (fs_sb s) (view s) b') \<and> (\<forall>i < BSIZE. view s' b i = 0) \<and>
            (\<forall>n < sb_size (fs_sb s). used (fs_sb s) (view s') n \<longleftrightarrow> n = b \<or> used (fs_sb s) (view s) n) \<and>
            (\<forall>n. n \<noteq> b \<and> n \<notin> bitmaps (fs_sb s) \<longrightarrow> view s' n = view s n) \<and>
            fs_ok s' \<and> fstx c {} (insert b D) k s' \<and> nfree s = Suc (nfree s')) \<or>
         (balloc c 1 s = Panic ''balloc: out of blocks'' \<and> nfree s = 0)"
  using balloc_ok[OF assms(1,2,3) file_bufs_empty]
proof (elim disjE exE conjE)
  fix b and s' :: "'a icache_scheme"
  assume a: "balloc c 1 s = Ok (b, s')" "allocates c {} D k s b s'" "\<forall>b'<b. used (fs_sb s) (view s) b'"
  note A = allocates_facts[OF a(2) assms(2)] and N = nfree_allocates[OF a(2) assms(2)]
  have "b < sb_size (fs_sb s)" "\<not> used (fs_sb s) (view s) b" "fstx c {} (insert b D) k s'" using a(2) by (simp_all add: allocates_def)
  then show ?thesis using a(1,3) A(3,6,7,8) N by blast
qed (simp add: nfree_def)

theorem balloc_lowest_witness: "\<exists>s'. balloc 0 1 demo_fs = Ok (64, s') \<and> fs_ok s' \<and> (\<forall>i < BSIZE. view s' 64 i = 0)"
proof -
  have t: "fstx 0 {} {50, 58} (Suc 0) demo_fs" "bitmaps (fs_sb demo_fs) \<subseteq> {50, 58}" using demo_fstx[of "{}"] by (simp_all add: demo_bitmaps)
  obtain s' where s': "balloc 0 1 demo_fs = Ok (64, s')" using demo_balloc by blast
  show ?thesis using balloc_lowest[OF t(1) demo_fs_ok t(2)] unfolding s' by (elim disjE exE conjE) auto
qed

text \<open>
  C33: Releasing a block that \<^verbatim>\<open>balloc\<close> returned makes it free again and leaves every block of the disk but
  itself as it was before the allocation, so that it is the next one to be allocated; releasing it twice panics.
\<close>

theorem balloc_bfree:
  fixes s :: "'a icache_scheme"
  assumes "fstx c {} D (Suc k) s" and "fs_ok s" and "bitmaps (fs_sb s) \<subseteq> D" and "balloc c 1 s = Ok (b, s1)"
  shows "\<exists>s2. bfree c 1 b s1 = Ok s2 \<and> (\<forall>n. n \<noteq> b \<longrightarrow> view s2 n = view s n) \<and> (\<forall>i < BSIZE. view s2 b i = 0) \<and> fs_ok s2 \<and>
     nfree s2 = nfree s \<and> bfree c 1 b s2 = Panic ''freeing free block'' \<and>
     ((\<exists>s3. balloc c 1 s2 = Ok (b, s3)) \<or> k = 0)"
proof -
  have al: "allocates c {} D k s b s1" "\<forall>b'<b. used (fs_sb s) (view s) b'"
    using balloc_ok[OF assms(1,2,3) file_bufs_empty] assms(4) by auto
  note A = allocates_facts[OF al(1) assms(2)]
  have b: "b < sb_size (fs_sb s)" "\<not> used (fs_sb s) (view s) b" "fstx c {} (insert b D) k s1" "view s1 = zeroed b (mark (fs_sb s) b (view s))"
    using al(1) by (simp_all add: allocates_def)
  have D1: "bitmaps (fs_sb s1) \<subseteq> insert b D" and b1: "b < sb_size (fs_sb s1)" "b \<notin> meta s1" "used (fs_sb s1) (view s1) b"
    using assms(3) A(1,4,6) b(1) meta_frame[of s s1] al(1) by (auto simp: allocates_def)
  obtain s2 where f: "bfree c 1 b s1 = Ok s2" "releases c {} (insert b D) k s1 b s2"
    using bfree_ok(1)[OF b(3) A(3) D1 file_bufs_empty b1(1,3)] by blast
  note R = releases_facts[OF f(2) A(3) b1(1,2)]
  have nb: "b \<noteq> BBLOCK b (fs_sb s)" using A(1) BBLOCK_bitmap[OF b(1)] metaI(1)[of "BBLOCK b (fs_sb s)" s] by auto
  have v2: "view s2 = unmark (fs_sb s) b (view s1)" and t2: "fstx c {} (insert b D) k s2" using f(2) A(4) by (simp_all add: releases_def)
  have v: "view s2 n = view s n" if "n \<noteq> b" for n
  proof -
    have "view s2 n = unmark (fs_sb s) b (mark (fs_sb s) b (view s)) n" unfolding v2 b(4) unmark_def zeroed_def using that nb by auto
    then show ?thesis by (simp add: unmark_mark[OF b(2)])
  qed
  have z: "view s2 b i = 0" if "i < BSIZE" for i using A(8)[OF that] nb by (simp add: v2 unmark_def)
  have sb: "fs_sb s2 = fs_sb s" using R(2) A(4) by simp
  have us: "used (fs_sb s) (view s2) n = used (fs_sb s) (view s) n" if "n < sb_size (fs_sb s)" for n
    using R(4)[of n] A(4) A(6)[OF that] b(2) by auto
  have nf: "nfree s2 = nfree s" using sb us by (rule nfree_cong)
  have "bfree c 1 b s2 = Panic ''freeing free block''"
    using us[OF b(1)] b sb by (intro bfree_ok(2)[OF t2 R(1) _ file_bufs_empty]) (use assms(3) in auto)
  moreover have "\<exists>s3. balloc c 1 s2 = Ok (b, s3)" if k: "k \<noteq> 0"
  proof -
    obtain j where "k = Suc j" using k by (cases k) auto
    then have t3: "fstx c {} (insert b D) (Suc j) s2" using t2 by simp
    have fr: "\<not> (\<forall>n < sb_size (fs_sb s2). used (fs_sb s2) (view s2) n)" using us[OF b(1)] b(1,2) sb by auto
    have "bitmaps (fs_sb s2) \<subseteq> insert b D" using assms(3) sb by auto
    from balloc_ok[OF t3 R(1) this file_bufs_empty] fr obtain b' s3 where 3: "balloc c 1 s2 = Ok (b', s3)" "allocates c {} (insert b D) j s2 b' s3" "\<forall>n<b'. used (fs_sb s2) (view s2) n"
      by blast
    have lt: "b' < sb_size (fs_sb s)" "\<not> used (fs_sb s) (view s2) b'" using 3(2) sb by (simp_all add: allocates_def)
    then have "\<not> b' < b" using al(2) us[OF lt(1)] by blast
    moreover have "\<not> b < b'" using 3(3) us[OF b(1)] b(2) sb by auto
    ultimately show ?thesis using 3(1) by auto
  qed
  ultimately show ?thesis using f(1) v z R(1) nf by blast
qed

theorem balloc_bfree_witness:
  "\<exists>s1 s2. balloc 0 1 demo_fs = Ok (64, s1) \<and> bfree 0 1 64 s1 = Ok s2 \<and> (\<forall>n. n \<noteq> 64 \<longrightarrow> view s2 n = view demo_fs n)"
proof -
  have t: "fstx 0 {} {50, 58} (Suc 0) demo_fs" "bitmaps (fs_sb demo_fs) \<subseteq> {50, 58}" using demo_fstx[of "{}"] by (simp_all add: demo_bitmaps)
  obtain s1 where s1: "balloc 0 1 demo_fs = Ok (64, s1)" using demo_balloc by blast
  then show ?thesis using balloc_bfree[OF t(1) demo_fs_ok t(2) s1] by blast
qed

section \<open>Files\<close>

text \<open>
  C34: A write of at most \<^verbatim>\<open>filewrite\<close>'s part of a file, in a system call that \<^verbatim>\<open>begin_op\<close> has admitted, never
  runs out of log or buffers. It replaces the bytes of the file from the offset on by those of the source,
  extends the file if necessary, stores the new inode on disk, and changes no other inode and no block of another
  file. It panics only if fewer blocks are free than it may need, and returns -1 and changes nothing if the offset
  is behind the end or the file would become too large.
\<close>

theorem writei_splices:
  fixes s :: "'a icache_scheme"
  assumes "begin_op s0 = Ok s" and "logged c {} s0" and "0 \<le> l_outstanding s0" and "int LOGSIZE \<le> l_size s0"
    and "sb_size (fs_sb s) \<le> of_nat BPB" and "fs_ok s" and "file_ok s ip" and "full s ip"
    and "i_inum (inodes s ip) < sb_ninodes (fs_sb s)" and "i_type (inodes s ip) \<noteq> T_DEV" and "length src \<le> write_max"
  shows "if off \<le> i_size (inodes s ip) \<and> unat off + length src \<le> MAXFILE * BSIZE
         then (\<exists>s'. writei dv c ip src off s = Ok (int (length src), s') \<and> wrote ip (unat off) src s s') \<or>
              (writei dv c ip src off s = Panic ''balloc: out of blocks'' \<and> nfree s < touched (unat off) (length src) + need s ip)
         else writei dv c ip src off s = Ok (-1, s)"
proof (cases "off \<le> i_size (inodes s ip) \<and> unat off + length src \<le> MAXFILE * BSIZE")
  case True
  obtain D where "filetx c {} D (touched (unat off) (length src) + need s ip) ip s" "IBLOCK (i_inum (inodes s ip)) (fs_sb s) \<in> D"
    using begin_op_filetx[OF assms(1-7,9) touched_bound[OF assms(11)]] by blast
  from writei_ok[OF this(1) assms(6,7,8) this(2) assms(9,10), of dv] True show ?thesis by auto
next
  case False
  have "length src < 2 ^ 32" using assms(11) by (simp add: write_max_def MAXOPBLOCKS_def)
  then have "writei dv c ip src off s = Ok (-1, s)" using False by (intro writei_refused[OF assms(10)]) auto
  then show ?thesis using False by simp
qed

lemma demo_nfree: "2 \<le> nfree demo_fs"
proof -
  have "{64, 65} \<subseteq> {b. b < sb_size demo_sb \<and> \<not> used demo_sb (view demo_fs) b}"
    using demo_unused[of 64] demo_unused[of 65] by (simp add: demo_size)
  from card_mono[OF _ this] show ?thesis by (simp add: nfree_def)
qed

text \<open>The state before the system call of the concrete state.\<close>

definition demo_idle :: icache where
  "demo_idle = demo_fs\<lparr>l_outstanding := 0, l_committing := False\<rparr>"

lemma demo_begin:
  "begin_op demo_idle = Ok (demo_idle\<lparr>l_outstanding := 1\<rparr>)" "logged 0 {} demo_idle" "0 \<le> l_outstanding demo_idle"
  "int LOGSIZE \<le> l_size demo_idle" "demo_idle\<lparr>l_outstanding := 1\<rparr> = demo_fs"
proof -
  show "begin_op demo_idle = Ok (demo_idle\<lparr>l_outstanding := 1\<rparr>)"
    by (simp add: begin_op_def demo_idle_def LOGSIZE_def MAXOPBLOCKS_def)
  have "bio_ok 0 {} demo_idle = bio_ok 0 {} demo_fs" "dirty_blocks demo_idle = dirty_blocks demo_fs"
    by (rule bio_cong; simp add: demo_idle_def)+
  then show "logged 0 {} demo_idle" using demo_fs_logged unfolding logged_def by (simp add: demo_idle_def log_len_def)
  show "0 \<le> l_outstanding demo_idle" "int LOGSIZE \<le> l_size demo_idle"
    by (simp_all add: demo_idle_def LOGSIZE_def MAXOPBLOCKS_def)
  show "demo_idle\<lparr>l_outstanding := 1\<rparr> = demo_fs"
    by (simp add: demo_idle_def demo_fs_def demo_log_def log.defs icache.defs bcache.defs ptable.defs)
qed

abbreviation no_devs :: "nat \<Rightarrow> icache devsw" where
  "no_devs \<equiv> \<lambda>_. \<lparr>dv_read = None, dv_write = None\<rparr>"

lemmas demo_admitted = demo_begin(1)[unfolded demo_begin(5)] demo_begin(2,3,4)

lemma demo_write:
  "sb_size (fs_sb demo_fs) \<le> of_nat BPB" "i_inum (inodes demo_fs 0) < sb_ninodes (fs_sb demo_fs)" "i_type (inodes demo_fs 0) \<noteq> T_DEV"
  "length [1, 2, 3 :: u8] \<le> write_max" "600 \<le> i_size (inodes demo_fs 0) \<and> unat (600 :: u32) + length [1, 2, 3 :: u8] \<le> MAXFILE * BSIZE"
  "touched (unat (600 :: u32)) (length [1, 2, 3 :: u8]) + need demo_fs 0 = 2"
  by (simp_all add: demo_sb_def BPB_eq demo_inodes_def T_FILE_def T_DEV_def write_max_def MAXOPBLOCKS_def MAXFILE_def NDIRECT_def
      NINDIRECT_def BSIZE_def touched_def need_def slot_def)

theorem writei_splices_witness:
  "\<exists>s'. writei no_devs 0 0 [1, 2, 3] 600 demo_fs = Ok (3, s') \<and> wrote 0 600 [1, 2, 3] demo_fs s'"
proof -
  have "0 \<in> {0, 1 :: nat}" by simp
  note writei_splices[OF demo_admitted demo_write(1) demo_fs_ok demo_file_ok[OF this] demo_full[OF this] demo_write(2,3,4), of 600 no_devs]
  then show ?thesis using demo_nfree unfolding if_P[OF demo_write(5)] demo_write(6) by auto
qed

text \<open>
  C35: What a system call has written with \<^verbatim>\<open>writei\<close> is what \<^verbatim>\<open>readi\<close> then delivers; a read of any other part of the
  file delivers the bytes that were there, up to the end of the file.
\<close>

theorem writei_readi:
  fixes s :: "'a icache_scheme"
  assumes "begin_op s0 = Ok s" and "logged c {} s0" and "0 \<le> l_outstanding s0" and "int LOGSIZE \<le> l_size s0"
    and "sb_size (fs_sb s) \<le> of_nat BPB" and "fs_ok s" and "file_ok s ip" and "full s ip"
    and "i_inum (inodes s ip) < sb_ninodes (fs_sb s)" and "i_type (inodes s ip) \<noteq> T_DEV" and "length src \<le> write_max"
    and "off \<le> i_size (inodes s ip)" and "unat off + length src \<le> MAXFILE * BSIZE"
    and "touched (unat off) (length src) + need s ip \<le> nfree s"
  shows "\<exists>s1. writei dv c ip src off s = Ok (int (length src), s1) \<and>
     (\<exists>s2. readi dv c ip off (of_nat (length src)) s1 = Ok (int (length src), src, s2)) \<and>
     (\<forall>o' n. unat o' + unat n < 2 ^ 32 \<longrightarrow>
        (let xs = splice (unat off) src (fdata s ip); ys = take (unat n) (drop (unat o') xs)
         in \<exists>s2. readi dv c ip o' n s1 = (if unat o' \<le> length xs then Ok (int (length ys), ys, s2) else Ok (-1, [], s1))))"
proof -
  obtain D where D: "filetx c {} D (touched (unat off) (length src) + need s ip) ip s" "IBLOCK (i_inum (inodes s ip)) (fs_sb s) \<in> D"
    using begin_op_filetx[OF assms(1-7,9) touched_bound[OF assms(11)]] by blast
  obtain s1 D' where w: "writei dv c ip src off s = Ok (int (length src), s1)" "wrote ip (unat off) src s s1" "filetx c {} D' (need s1 ip) ip s1"
    using writei_ok[OF D(1) assms(6,7,8) D(2) assms(9,10,12,13), of dv] assms(14) by auto
  let ?xs = "splice (unat off) src (fdata s ip)"
  have W: "fs_ok s1" "file_ok s1 ip" "full s1 ip" "fdata s1 ip = ?xs" "i_type (inodes s1 ip) \<noteq> T_DEV"
    using w(2) assms(10) by (simp_all add: wrote_def)
  have sz: "unat (i_size (inodes s1 ip)) = length ?xs" using arg_cong[OF W(4), of length] by simp
  have t1: "tx c {} 0 s1" using w(3) by (auto simp: filetx_def intro: fstx_tx0)
  have rd: "\<exists>s2. readi dv c ip o' n s1 = (let ys = take (unat n) (drop (unat o') ?xs) in
      if unat o' \<le> length ?xs then Ok (int (length ys), ys, s2) else Ok (-1, [], s1))" if "unat o' + unat n < 2 ^ 32" for o' n
  proof (cases "unat o' \<le> length ?xs")
    case True
    then have "o' \<le> i_size (inodes s1 ip)" by (simp add: word_le_nat_alt sz)
    from readi_ok[OF t1 W(1,2,3,5) this that, of dv] show ?thesis using True by (auto simp: W(4) Let_def)
  next
    case False
    then have "o' > i_size (inodes s1 ip)" by (simp add: word_less_nat_alt sz)
    then show ?thesis using False readi_refused[OF W(5), of o' n dv c] by simp
  qed
  have o: "unat off \<le> length (fdata s ip)" using assms(12) by (simp add: word_le_nat_alt)
  have n: "unat (of_nat (length src) :: u32) = length src" "unat off + length src < 2 ^ 32"
    using assms(13) by (auto intro!: u32_of_nat simp: MAXFILE_def NDIRECT_def NINDIRECT_def BSIZE_def)
  have "unat off \<le> length ?xs" using o by (simp add: splice_def)
  then have "\<exists>s2. readi dv c ip off (of_nat (length src)) s1 = Ok (int (length src), src, s2)"
    using rd[of off "of_nat (length src)"] n splice_read[OF o, of src] by (simp add: Let_def)
  then show ?thesis using w(1) rd by (simp add: Let_def)
qed

theorem writei_readi_witness:
  "\<exists>s1 s2. writei no_devs 0 0 [1, 2, 3] 600 demo_fs = Ok (3, s1) \<and> readi no_devs 0 0 600 3 s1 = Ok (3, [1, 2, 3], s2)"
proof -
  have z: "0 \<in> {0, 1 :: nat}" by simp
  have n: "touched (unat (600 :: u32)) (length [1, 2, 3 :: u8]) + need demo_fs 0 \<le> nfree demo_fs" using demo_nfree unfolding demo_write(6) .
  show ?thesis
    using writei_readi[OF demo_admitted demo_write(1) demo_fs_ok demo_file_ok[OF z] demo_full[OF z] demo_write(2,3,4)
        conjunct1[OF demo_write(5)] conjunct2[OF demo_write(5)] n, of no_devs] by auto
qed

section \<open>Directories\<close>

lemma iget_ok:
  fixes s :: "'a icache_scheme"
  shows "(\<exists>ip s'. iget dev inum s = Ok (ip, s') \<and> ip < NINODE \<and> i_dev (inodes s' ip) = dev \<and> i_inum (inodes s' ip) = inum \<and>
            0 < i_ref (inodes s' ip) \<and> view s' = view s \<and> (\<forall>jp. jp \<noteq> ip \<longrightarrow> inodes s' jp = inodes s jp)) \<or>
         (iget dev inum s = Panic ''iget: no inodes'' \<and> (\<forall>i<NINODE. i_ref (inodes s i) \<noteq> 0))"
  by (auto simp: iget_def find_first_None split: option.splits) (auto simp: find_first_Some)

text \<open>
  C36: A directory is a map from names to inode numbers. \<^verbatim>\<open>dirlookup\<close> finds nothing exactly if the name is not in the
  map, and then changes no block and no inode. Otherwise it returns a referenced inode of the cache with the number
  that the map has, and the offset of an entry with that name; it panics only if every inode of the cache is in use.
\<close>

theorem dirlookup_map:
  fixes s :: "'a icache_scheme"
  assumes "tx c {} 0 s" and "dir_ok s dp"
  shows "case dmap (dirents s dp) (fname name) of
      None \<Rightarrow> \<exists>s'. dirlookup dv c dp name s = Ok (None, s') \<and> view s' = view s \<and> inodes s' = inodes s
    | Some inum \<Rightarrow>
        (\<exists>ip k s'. dirlookup dv c dp name s = Ok (Some (ip, of_nat (k * DIRENT_SIZE)), s') \<and>
           k < nents s dp \<and> hit (fname name) (dirents s dp ! k) \<and> de_inum (dirents s dp ! k) = inum \<and>
           ip < NINODE \<and> i_dev (inodes s' ip) = i_dev (inodes s dp) \<and> i_inum (inodes s' ip) = ucast inum \<and> 0 < i_ref (inodes s' ip) \<and>
           view s' = view s \<and> (\<forall>jp. jp \<noteq> ip \<longrightarrow> inodes s' jp = inodes s jp)) \<or>
        (dirlookup dv c dp name s = Panic ''iget: no inodes'' \<and> (\<forall>i<NINODE. i_ref (inodes s i) \<noteq> 0))"
proof (rule dirlookup_ok[OF assms, of name dv])
  fix s' assume a: "dmap (dirents s dp) (fname name) = None" "dirlookup dv c dp name s = Ok (None, s')" "same_store s s'"
  show ?thesis unfolding a(1) option.case using a(2) same_storeD(1)[OF a(3)] dir_same_store(3)[OF a(3)] by blast
next
  fix inum k s'
  assume a: "dmap (dirents s dp) (fname name) = Some inum" "k < nents s dp" "de_inum (dirents s dp ! k) = inum" "hit (fname name) (dirents s dp ! k)"
    "dirlookup dv c dp name s = bindR (iget (i_dev (inodes s dp)) (ucast inum) s') (\<lambda>(ip, s). Ok (Some (ip, of_nat (k * DIRENT_SIZE)), s))"
    "same_store s s'"
  note S = same_storeD(1)[OF a(6)] dir_same_store(3)[OF a(6)]
  from iget_ok[of "i_dev (inodes s dp)" "ucast inum" s'] show ?thesis
  proof (elim disjE exE conjE)
    fix ip s'' assume g: "iget (i_dev (inodes s dp)) (ucast inum) s' = Ok (ip, s'')" "ip < NINODE" "i_dev (inodes s'' ip) = i_dev (inodes s dp)"
      "i_inum (inodes s'' ip) = ucast inum" "0 < i_ref (inodes s'' ip)" "view s'' = view s'" "\<forall>jp. jp \<noteq> ip \<longrightarrow> inodes s'' jp = inodes s' jp"
    have "dirlookup dv c dp name s = Ok (Some (ip, of_nat (k * DIRENT_SIZE)), s'')" by (simp add: a(5) g(1) del: of_nat_mult)
    then show ?thesis
      unfolding a(1) option.case using a(2,3,4) g(2-7) S by (intro disjI1 exI[of _ ip] exI[of _ k] exI[of _ s'']) simp
  next
    assume "iget (i_dev (inodes s dp)) (ucast inum) s' = Panic ''iget: no inodes''" "\<forall>i<NINODE. i_ref (inodes s' i) \<noteq> 0"
    then show ?thesis unfolding a(1) option.case using a(5) S by simp
  qed
qed

theorem dirlookup_map_witness:
  "(\<exists>ip off s'. dirlookup no_devs 0 (Suc 0) [46] demo_fs = Ok (Some (ip, off), s') \<and> i_inum (inodes s' ip) = 6) \<and>
   (\<exists>s'. dirlookup no_devs 0 (Suc 0) [97] demo_fs = Ok (None, s'))"
proof -
  have t: "tx 0 {} 0 demo_fs" using demo_fstx[of "{}" 0] by (auto intro: fstx_tx0)
  have d: "dir_ok demo_fs (Suc 0)" using demo_dir_ok by simp
  have "i_ref (inodes demo_fs 2) = 0" "2 < NINODE" by (simp_all add: demo_inodes_def blank_inode_def NINODE_def)
  then have r: "\<not> (\<forall>i<NINODE. i_ref (inodes demo_fs i) \<noteq> 0)" by blast
  show ?thesis
    using dirlookup_map[OF t d, where name = "[46]" and dv = no_devs] dirlookup_map[OF t d, where name = "[97]" and dv = no_devs] r
    unfolding demo_dmap by (auto simp: fname_single)
qed

text \<open>
  C37: \<^verbatim>\<open>dirlink\<close> with a name that is not in the directory, in a system call that \<^verbatim>\<open>begin_op\<close> has admitted, adds the name
  with the inode number to the map of the directory and changes nothing else of the map, no other inode and no block of
  another file. It panics only if there is no free block for the entry.
\<close>

theorem dirlink_map:
  fixes s :: "'a icache_scheme"
  assumes "begin_op s0 = Ok s" and "logged c {} s0" and "0 \<le> l_outstanding s0" and "int LOGSIZE \<le> l_size s0"
    and "sb_size (fs_sb s) \<le> of_nat BPB" and "dir_ok s dp" and "i_inum (inodes s dp) < sb_ninodes (fs_sb s)"
    and "dmap (dirents s dp) (fname name) = None" and "ucast inum \<noteq> (0 :: u16)"
    and "unat (i_size (inodes s dp)) + DIRENT_SIZE \<le> MAXFILE * BSIZE"
  shows "(\<exists>s'. dirlink dv c dp name inum s = Ok (0, s') \<and> dir_ok s' dp \<and>
            dmap (dirents s' dp) = (dmap (dirents s dp))(fname name \<mapsto> ucast inum) \<and>
            wrote dp (free_slot (dirents s dp) * DIRENT_SIZE) (mk_dirent (ucast inum) (of_bytes name)) s s') \<or>
         (dirlink dv c dp name inum s = Panic ''balloc: out of blocks'' \<and> nfree s \<le> need s dp)"
proof -
  have ok: "fs_ok s" "file_ok s dp" using assms(6) by (simp_all add: dir_ok_def)
  obtain D where "filetx c {} D (1 + need s dp) dp s" "IBLOCK (i_inum (inodes s dp)) (fs_sb s) \<in> D"
    using begin_op_filetx[OF assms(1-5) ok assms(7), of 1] by auto
  from dirlink_ok[OF _ assms(6) this(2) assms(7-10), of c dv] this(1) show ?thesis by (auto simp: linked_as_def)
qed

theorem dirlink_map_witness:
  "\<exists>s'. dirlink no_devs 0 (Suc 0) [97] 5 demo_fs = Ok (0, s') \<and> dmap (dirents s' (Suc 0)) [97] = Some 5 \<and>
     dmap (dirents s' (Suc 0)) [46] = Some 6"
proof -
  have d: "dir_ok demo_fs (Suc 0)" using demo_dir_ok by simp
  have i: "i_inum (inodes demo_fs (Suc 0)) < sb_ninodes (fs_sb demo_fs)" "ucast (5 :: u32) \<noteq> (0 :: u16)"
    "unat (i_size (inodes demo_fs (Suc 0))) + DIRENT_SIZE \<le> MAXFILE * BSIZE"
    by (simp_all add: demo_sb_def demo_inodes_def DIRENT_SIZE_val MAXFILE_def NDIRECT_def NINDIRECT_def BSIZE_def)
  have n: "dmap (dirents demo_fs (Suc 0)) (fname [97]) = None" by (simp add: demo_dmap fname_single)
  have "\<not> nfree demo_fs \<le> need demo_fs (Suc 0)" using demo_nfree by (simp add: need_def)
  then show ?thesis
    using dirlink_map[OF demo_admitted demo_write(1) d i(1) n i(2,3), where dv = no_devs] by (auto simp: demo_dmap fname_single)
qed

end
