(* ===== verification/Spec2Isabelle.thy ===== *)
theory Spec2Isabelle
  imports Proc_Properties Io_Properties Trap Grep User_Progs Sh_Print Sh_Run Tee Fs_Properties
begin

text \<open>
  A verification of the operating system under \<^verbatim>\<open>src/xv6\<close>, a variant of xv6 for the 80386 with
  two scheduling priorities kept as linked run queues, lazy allocation of user memory, exit
  statuses and \<^verbatim>\<open>dup2\<close>, and of some of its user programs.

  \<^bold>\<open>How the code is modelled.\<close> A C function is a function on an explicit state with a result of
  type \<open>res\<close> (\<open>Xv6_Prelude\<close>): \<open>Ok\<close> when it returns, \<open>Panic\<close> for \<^verbatim>\<open>panic\<close>, \<open>Fault\<close> for an access
  through a null pointer or outside of an array, \<open>Sleeps\<close> when the caller would go to sleep and
  \<open>Exhausted\<close> for a loop that used up its steps. The state is a chain of extensible records, one
  per component: \<open>kmem\<close>, \<open>ptable\<close>, \<open>bcache\<close>, \<open>log\<close>, \<open>icache\<close>, \<open>ftable\<close>, \<open>kern\<close>, \<open>trapstate\<close>; an
  operation of a component is polymorphic in the records that extend its own. Arrays are
  functions on indices, pointers to kernel objects are optional indices, machine words and
  addresses are \<open>u32\<close> with wrap-around, physical memory is a function from addresses to words.
  A critical section under a spin lock is one atomic step; interleavings of processors are
  sequences of such steps. The argument \<open>c\<close> is the number of the processor that runs the code.

  \<^bold>\<open>Memory.\<close> \<open>Xv6_Params\<close> and \<open>Segments\<close> model the constants and macros of \<^verbatim>\<open>param.h\<close>,
  \<^verbatim>\<open>memlayout.h\<close> and \<^verbatim>\<open>mmu.h\<close>; \<open>Kalloc\<close> the page allocator \<^verbatim>\<open>kalloc.c\<close> with its contract, the
  locale \<open>page_pool\<close>; \<open>Vm_Defs\<close> the address spaces of \<^verbatim>\<open>vm.c\<close>. \<open>Vm\<close>, \<open>Vm_User\<close> and \<open>Vm_Frame\<close> prove
  what walking, mapping, growing and shrinking do to page tables and to the free list, and
  \<open>Vm_Properties\<close> states that growing is all or nothing and that shrinking releases exactly the
  pages of the range. The loops over pages take \<open>2 ^ 20\<close> steps at most, the number of pages of a
  32-bit space.

  \<^bold>\<open>Processes.\<close> \<open>Proc_Queue\<close> (with \<open>Circ_List\<close>, circular doubly linked lists) and \<open>Proc_Table\<close>
  model \<^verbatim>\<open>proc.c\<close>. \<open>Sched_Spec\<close> is an abstract scheduler whose queues are lists, \<open>Proc_Refine\<close>
  proves that the critical sections implement it, \<open>Proc_Inv\<close> the invariants of the table, and
  \<open>Proc_Properties\<close> states them for all reachable tables: well-formed queues, unique pids, no
  panics, round robin, exact wake-ups, effects of \<^verbatim>\<open>kill\<close>, \<^verbatim>\<open>setprio\<close> and \<^verbatim>\<open>exit\<close>. \<open>Proc_Sys\<close>
  composes \<^verbatim>\<open>fork\<close>, \<^verbatim>\<open>exit\<close>, \<^verbatim>\<open>userinit\<close> and \<^verbatim>\<open>forkret\<close> with files.

  \<^bold>\<open>Storage.\<close> \<open>Bytes\<close> and \<open>Kstring\<close> model byte arrays and \<^verbatim>\<open>string.c\<close>; \<open>Sleeplock\<close> the sleep locks;
  \<open>Bio_Defs\<close> and \<open>Bio\<close> the buffer cache \<^verbatim>\<open>bio.c\<close> over the disk of \<^verbatim>\<open>memide.c\<close>; \<open>Log_Defs\<close> the log
  \<^verbatim>\<open>log.c\<close>. \<open>Log_Crash\<close>, \<open>Log\<close>, \<open>Log_Tx\<close> and \<open>Log_Reserve\<close> lead to \<open>Log_Properties\<close>: commits are
  atomic with respect to crashes, recovery can be restarted, the reservation of log space is
  sufficient, reads return the latest contents. \<open>Fs_Defs\<close> models \<^verbatim>\<open>fs.c\<close>, \<open>File_Defs\<close> the open
  files and pipes of \<^verbatim>\<open>file.c\<close> and \<^verbatim>\<open>pipe.c\<close>. \<open>Ring\<close> has the contract of a bounded queue, the
  locale \<open>bounded_queue\<close>, and circular buffers with counters that wrap around; \<open>Pipe\<close> and
  \<open>Console_Line\<close> interpret it for pipes and for console input.

  \<^bold>\<open>File system.\<close> \<open>Fs_Tx\<close> has the rules for a system call that may write a given set of blocks and has log space
  for some more; \<open>Fs_Alloc\<close> shows what \<^verbatim>\<open>balloc\<close> and \<^verbatim>\<open>bfree\<close> do to the bitmap, \<open>Fs_Bmap\<close> that \<^verbatim>\<open>bmap\<close> grows a file
  without changing its bytes or blocks of other files, \<open>Fs_File\<close> and \<open>Fs_Rw\<close> that \<^verbatim>\<open>readi\<close> and \<^verbatim>\<open>writei\<close> implement a file
  that is a list of bytes, with inodes stored and read back by \<^verbatim>\<open>iupdate\<close>, and \<open>Fs_Dir\<close> that \<^verbatim>\<open>dirlookup\<close> and \<^verbatim>\<open>dirlink\<close>
  implement a map from names to inode numbers. \<open>Fs_Properties\<close> states these facts for system calls that \<^verbatim>\<open>begin_op\<close>
  admitted, for a file system whose metadata blocks are disjoint and marked as used, and for files whose pointers are
  distinct blocks; \<open>Fs_Demo\<close> is a concrete file system of this kind. Operations on path names, \<^verbatim>\<open>itrunc\<close> and \<^verbatim>\<open>iput\<close>
  are modelled in \<open>Fs_Defs\<close> but have no properties of their own.

  \<^bold>\<open>Devices, traps and system calls.\<close> \<open>Console\<close> models \<^verbatim>\<open>console.c\<close>, \<open>Kbd\<close> the keyboard, \<open>Cmos\<close> the
  clock of \<^verbatim>\<open>lapic.c\<close>; \<open>Umem\<close> the accesses of the kernel to user memory, the page fault handler
  and the fetching of arguments of \<^verbatim>\<open>syscall.c\<close>; \<open>Sysfile\<close>, \<open>Exec\<close> and \<open>Sysproc\<close> the system calls
  and their dispatch; \<open>Trap\<close> the handler \<^verbatim>\<open>trap\<close>. \<open>Io_Properties\<close> states that pipes are queues
  and that the console implements its line discipline; \<open>Demo\<close> is a concrete machine on which
  the properties are exercised.

  \<^bold>\<open>User programs.\<close> \<open>Digits\<close>, \<open>Ulib\<close> and \<open>User_Progs\<close> model \<^verbatim>\<open>ulib.c\<close>, \<^verbatim>\<open>printf.c\<close>, \<^verbatim>\<open>wc.c\<close> and
  \<^verbatim>\<open>cat.c\<close>, \<open>Grep\<close> models \<^verbatim>\<open>grep.c\<close>; shown are the round trip of numbers through text, the counts
  of \<^verbatim>\<open>wc\<close>, and that the matcher of \<^verbatim>\<open>grep\<close> decides the meaning of its patterns. \<open>Sh\<close> models the
  parser of the shell \<^verbatim>\<open>sh.c\<close>, with four steps of recursion for every byte of the line;
  \<open>Sh_Parse\<close> shows that they are enough and that the strings it delivers are intact, \<open>Sh_Print\<close>
  that it inverts printing. \<open>Sh_Run\<close> models \<^verbatim>\<open>runcmd\<close> and \<^verbatim>\<open>main\<close> on the tables of descriptors of \<open>Fd_Table\<close>
  and shows that every program is started with the descriptors that the command prescribes.

  \<^bold>\<open>Programs for Linux.\<close> \<open>Merge\<close> models \<^verbatim>\<open>src/syscalls/merge_files.c\<close> over calls of \<^verbatim>\<open>read\<close> and \<^verbatim>\<open>write\<close> that
  may transfer less than requested, and shows that its output is the lines of the files in turn;
  \<open>Exec_Lines\<close> models \<^verbatim>\<open>exec_lines.c\<close> and shows which commands it starts and that it keeps to its
  number of children; \<open>Tee\<close> models \<^verbatim>\<open>merge_tee_exec.c\<close>, which connects them by pipes, and shows that every
  program gets the descriptors that it needs and no others, and what the programs do together. Their loops get a step for every byte of the input.

  \<^bold>\<open>Not modelled.\<close> Start-up and context switches in assembly (\<^verbatim>\<open>entry.S\<close>, \<^verbatim>\<open>bootasm.S\<close>, \<^verbatim>\<open>swtch.S\<close>,
  \<^verbatim>\<open>trapasm.S\<close>), the boot loader, and the programming of controllers by port I/O (\<^verbatim>\<open>lapic.c\<close> except
  the clock, \<^verbatim>\<open>ioapic.c\<close>, \<^verbatim>\<open>picirq.c\<close>, \<^verbatim>\<open>uart.c\<close> except its input) have no state of their own that
  a model could check. Spin locks are implicit in the atomic steps, the driver of IDE disks is replaced by
  the memory disk, \<^verbatim>\<open>mkfs.c\<close> runs on the host, and the allocator \<^verbatim>\<open>umalloc.c\<close> and the small utilities
  of \<^verbatim>\<open>user\<close> are left out. The test programs (\<^verbatim>\<open>usertests.c\<close>, \<^verbatim>\<open>stressfs.c\<close>, \<^verbatim>\<open>forktest.c\<close> and the
  exercises \<^verbatim>\<open>tprio*.c\<close> and \<^verbatim>\<open>tsbrk*.c\<close>) only call the system. The debugging output of
  \<^verbatim>\<open>procdump\<close> and the messages of the page fault handler are left out.
\<close>

end
